(* ===== verification/Prelude.thy ===== *)
theory Prelude
  imports Main "HOL-Library.Word"
begin

text \<open>
  Shared vocabulary of the development: the C integer types as machine words, the result
  type of kernel operations (a value, or the reason why the operation does not return),
  the sequencing combinator, the page loop that the memory code repeats, and the
  byte-addressed physical memory with its 64-bit and 32-bit accesses.
\<close>

unbundle bit_operations_syntax

section \<open>Machine integers and results\<close>

type_synonym u8 = "8 word"
type_synonym u16 = "16 word"
type_synonym u32 = "32 word"
type_synonym u64 = "64 word"

named_theorems frame_simps \<open>what an operation leaves unchanged\<close>
named_theorems mem_simps \<open>reads over writes of the physical memory\<close>

text \<open>
  Why an operation does not return to its caller: \<open>Panic msg\<close> is a call of \<open>panic\<close> with
  that message (it prints and loops for ever), \<open>Spin\<close> is the wait for a spinlock that is
  taken, \<open>Sleep\<close> is the wait of a process for an event, \<open>Hang\<close> is a loop whose exit
  condition never becomes true, and \<open>Fault\<close> an access through a null pointer or outside an array.
\<close>

datatype kerror = Panic string | Spin | Sleep | Hang | Fault

type_synonym 'a res = "kerror + 'a"

definition bnd :: "'a res \<Rightarrow> ('a \<Rightarrow> 'b res) \<Rightarrow> 'b res" where
  "bnd m f = (case m of Inl e \<Rightarrow> Inl e | Inr x \<Rightarrow> f x)"

lemma bnd_simps [simp]: "bnd (Inl e) f = Inl e" "bnd (Inr x) f = f x"
  by (simp_all add: bnd_def)

lemma bnd_cong [fundef_cong]:
  "m = m' \<Longrightarrow> (\<And>x. m' = Inr x \<Longrightarrow> f x = g x) \<Longrightarrow> bnd m f = bnd m' g"
  by (cases m') (simp_all add: bnd_def)

lemma bnd_eq_Inr: "bnd m f = Inr y \<longleftrightarrow> (\<exists>x. m = Inr x \<and> f x = Inr y)"
  by (cases m) simp_all

lemma bnd_eq_Inl: "bnd m f = Inl e \<longleftrightarrow> m = Inl e \<or> (\<exists>x. m = Inr x \<and> f x = Inl e)"
  by (cases m) simp_all

lemma bnd_InrE [elim]:
  assumes "bnd m f = Inr y"
  obtains x where "m = Inr x" "f x = Inr y"
  using assms by (auto simp: bnd_eq_Inr)

lemma bnd_assoc: "bnd (bnd m f) g = bnd m (\<lambda>x. bnd (f x) g)"
  by (cases m) simp_all

definition kassert :: "bool \<Rightarrow> string \<Rightarrow> 's \<Rightarrow> 's res" where
  "kassert c msg s = (if c then Inr s else Inl (Panic msg))"

lemma kassert_simps [simp]:
  "kassert True msg s = Inr s" "kassert False msg s = Inl (Panic msg)"
  by (simp_all add: kassert_def)

text \<open>A \<open>for\<close> loop over a known list of values, threading the state.\<close>

fun for_each :: "'i list \<Rightarrow> ('i \<Rightarrow> 's \<Rightarrow> 's res) \<Rightarrow> 's \<Rightarrow> 's res" where
  "for_each [] f s = Inr s"
| "for_each (i # is) f s = bnd (f i s) (for_each is f)"

lemma for_each_append: "for_each (xs @ ys) f s = bnd (for_each xs f s) (for_each ys f)"
proof (induction xs arbitrary: s)
  case (Cons x xs)
  then show ?case by (cases "f x s") simp_all
qed simp

lemma for_each_invariant:
  assumes "for_each xs f s = Inr t" and "P s"
    and "\<And>x s t. x \<in> set xs \<Longrightarrow> P s \<Longrightarrow> f x s = Inr t \<Longrightarrow> P t"
  shows "P t"
  using assms
proof (induction xs arbitrary: s)
  case (Cons x xs)
  from Cons.prems(1) obtain u where u: "f x s = Inr u" "for_each xs f u = Inr t"
    by (auto simp: bnd_eq_Inr)
  moreover have "P u" using Cons.prems(2,3) u(1) by auto
  ultimately show ?case using Cons.IH Cons.prems(3) by auto
qed simp

section \<open>Pages\<close>

abbreviation (input) PGSIZE :: "'a::len word" where "PGSIZE \<equiv> 4096"

text \<open>
  The page number of an address. Two page-aligned addresses are equal when they have the
  same page number, and the 4096 bytes from an aligned address on share one.
\<close>

definition pg :: "u64 \<Rightarrow> u64" where
  "pg x = x div 4096"

definition page_aligned :: "u64 \<Rightarrow> bool" where
  "page_aligned a \<longleftrightarrow> a mod 4096 = 0"

lemma unat_pg: "unat (pg x) = unat x div 4096"
  by (simp add: pg_def unat_div)

lemma page_aligned_unat: "page_aligned a \<longleftrightarrow> unat a mod 4096 = 0"
  by (simp add: page_aligned_def word_unat_eq_iff unat_mod)

lemma page_alignedE:
  assumes "page_aligned p"
  obtains k where "unat p = 4096 * k" "k < 2 ^ 52"
proof -
  have "4096 dvd unat p" using assms by (simp add: page_aligned_unat dvd_eq_mod_eq_0)
  then obtain k where k: "unat p = 4096 * k" by (elim dvdE)
  have "unat p < 4096 * 2 ^ 52" using unsigned_less[of p] by simp
  with k have "k < 2 ^ 52" by simp
  with k show thesis by (rule that)
qed

lemma unat_page_add:
  assumes "page_aligned p" and "unat i < 4096"
  shows "unat (p + i) = unat p + unat i"
proof -
  obtain k where k: "unat p = 4096 * k" "k < 2 ^ 52" using assms(1) by (rule page_alignedE)
  then have "unat p + unat i < 2 ^ 64" using assms(2) by simp
  then show ?thesis by (simp add: unat_word_ariths)
qed

lemma pg_page_add:
  assumes "page_aligned p" and "unat i < 4096"
  shows "pg (p + i) = pg p"
proof -
  obtain k where k: "unat p = 4096 * k" using assms(1) by (rule page_alignedE)
  have "unat (p + i) = 4096 * k + unat i" using unat_page_add[OF assms] k by simp
  then show ?thesis using k assms(2) by (simp add: word_unat_eq_iff unat_pg)
qed

lemma pg_eq_aligned: "page_aligned p \<Longrightarrow> page_aligned q \<Longrightarrow> pg p = pg q \<longleftrightarrow> p = q"
  by (elim page_alignedE) (simp add: word_unat_eq_iff unat_pg)

lemma pg_iff_offset:
  assumes "page_aligned p"
  shows "pg x = pg p \<longleftrightarrow> unat (x - p) < 4096"
proof
  assume "unat (x - p) < 4096"
  from pg_page_add[OF assms this] show "pg x = pg p" by simp
next
  assume "pg x = pg p"
  moreover obtain k where k: "unat p = 4096 * k" using assms by (rule page_alignedE)
  ultimately have d: "unat x div 4096 = k" by (simp add: word_unat_eq_iff unat_pg)
  have "unat x = 4096 * k + unat x mod 4096" using d by (metis mult_div_mod_eq)
  moreover have "unat x mod 4096 < 4096" by simp
  ultimately have "unat p \<le> unat x" and "unat x - unat p < 4096" using k by linarith+
  then show "unat (x - p) < 4096" by (simp add: unat_sub word_le_nat_alt)
qed

lemma page_aligned_add:
  assumes "page_aligned a" and "page_aligned b"
  shows "page_aligned (a + b)"
proof -
  obtain k j where "unat a = 4096 * k" "unat b = 4096 * j" using assms by (elim page_alignedE)
  then have "unat (a + b) = (4096 * (k + j)) mod 2 ^ 64"
    by (simp add: unat_word_ariths distrib_left)
  moreover have "(4096::nat) dvd 2 ^ 64" by simp
  ultimately show ?thesis unfolding page_aligned_unat by (simp only: mod_mod_cancel) simp
qed

lemma page_aligned_next [simp]: "page_aligned a \<Longrightarrow> page_aligned (a + 4096)"
  by (rule page_aligned_add) (simp_all add: page_aligned_def)

text \<open>
  The loop \<open>for (a = from; a < to; a += PGSIZE)\<close>. When the increment wraps around, the
  loop variable restarts below the bound and the loop never ends.
\<close>

function for_pages :: "u64 \<Rightarrow> u64 \<Rightarrow> (u64 \<Rightarrow> 's \<Rightarrow> 's res) \<Rightarrow> 's \<Rightarrow> 's res" where
  "for_pages a e f s =
     (if a < e
      then bnd (f a s) (\<lambda>s. if a + PGSIZE < a then Inl Hang else for_pages (a + PGSIZE) e f s)
      else Inr s)"
  by pat_completeness auto
termination
proof (relation "measure (\<lambda>(a, e, f, s). unat e - unat a)")
  fix a e :: u64 and f :: "u64 \<Rightarrow> 's \<Rightarrow> 's res" and s x :: 's
  assume "a < e" "\<not> a + PGSIZE < a"
  then have "unat a < unat e" "unat a \<le> unat (a + 4096)" "a \<noteq> a + 4096"
    by (auto simp: word_less_nat_alt)
  then have "unat a < unat (a + 4096)" by (metis le_neq_implies_less word_unat_eq_iff)
  with \<open>unat a < unat e\<close>
  show "((a + PGSIZE, e, f, x), a, e, f, s) \<in> measure (\<lambda>(a, e, f, s). unat e - unat a)"
    by simp
qed simp

declare for_pages.simps [simp del]

lemma for_pages_done [simp]: "\<not> a < e \<Longrightarrow> for_pages a e f s = Inr s"
  by (subst for_pages.simps) simp

lemma for_pages_step:
  "a < e \<Longrightarrow> unat a + 4096 < 2 ^ 64 \<Longrightarrow>
   for_pages a e f s = bnd (f a s) (for_pages (a + PGSIZE) e f)"
  by (subst for_pages.simps) (simp add: word_less_nat_alt unat_word_ariths)

section \<open>Physical memory\<close>

text \<open>
  Physical memory is a map from addresses to bytes; the hart is little-endian, so a
  64-bit value at \<open>a\<close> has its byte \<open>i\<close> at \<open>a + i\<close>.
\<close>

type_synonym pmem = "u64 \<Rightarrow> u8"

definition byte_of :: "'a::len word \<Rightarrow> nat \<Rightarrow> u8" where
  "byte_of v i = ucast (drop_bit (8 * i) v)"

definition store64 :: "pmem \<Rightarrow> u64 \<Rightarrow> u64 \<Rightarrow> pmem" where
  "store64 m a v = m(a := byte_of v 0, a + 1 := byte_of v 1, a + 2 := byte_of v 2,
     a + 3 := byte_of v 3, a + 4 := byte_of v 4, a + 5 := byte_of v 5,
     a + 6 := byte_of v 6, a + 7 := byte_of v 7)"

definition load64 :: "pmem \<Rightarrow> u64 \<Rightarrow> u64" where
  "load64 m a = ucast (m a) OR push_bit 8 (ucast (m (a + 1))) OR
     push_bit 16 (ucast (m (a + 2))) OR push_bit 24 (ucast (m (a + 3))) OR
     push_bit 32 (ucast (m (a + 4))) OR push_bit 40 (ucast (m (a + 5))) OR
     push_bit 48 (ucast (m (a + 6))) OR push_bit 56 (ucast (m (a + 7)))"

definition store32 :: "pmem \<Rightarrow> u64 \<Rightarrow> u32 \<Rightarrow> pmem" where
  "store32 m a v = m(a := byte_of v 0, a + 1 := byte_of v 1, a + 2 := byte_of v 2,
     a + 3 := byte_of v 3)"

definition load32 :: "pmem \<Rightarrow> u64 \<Rightarrow> u32" where
  "load32 m a = ucast (m a) OR push_bit 8 (ucast (m (a + 1))) OR
     push_bit 16 (ucast (m (a + 2))) OR push_bit 24 (ucast (m (a + 3)))"

lemma split_low_byte: "ucast (ucast w :: u8) OR push_bit 8 (drop_bit 8 w) = (w :: 'a::len word)"
proof (rule bit_word_eqI)
  fix n assume "n < LENGTH('a)"
  then show "bit (ucast (ucast w :: u8) OR push_bit 8 (drop_bit 8 w)) n = bit w n"
    by (cases "n < 8") (auto simp: bit_simps)
qed

lemma drop_bit_split:
  "drop_bit (8 * i) v = ucast (byte_of v i) OR push_bit 8 (drop_bit (8 * Suc i) (v :: 'a::len word))"
  using split_low_byte[of "drop_bit (8 * i) v"] by (simp add: byte_of_def add.commute)

lemma byte_parts64:
  "ucast (byte_of v 0) OR push_bit 8 (ucast (byte_of v 1)) OR
     push_bit 16 (ucast (byte_of v 2)) OR push_bit 24 (ucast (byte_of v 3)) OR
     push_bit 32 (ucast (byte_of v 4)) OR push_bit 40 (ucast (byte_of v 5)) OR
     push_bit 48 (ucast (byte_of v 6)) OR push_bit 56 (ucast (byte_of v 7)) = (v :: u64)"
proof -
  have "drop_bit (8 * Suc 7) v = 0" by (rule bit_word_eqI) (auto simp: bit_simps dest: bit_imp_le_length)
  then have "drop_bit (8 * 7) v = ucast (byte_of v 7)"
    by (subst drop_bit_split) simp
  then show ?thesis
    using drop_bit_split[of 0 v] drop_bit_split[of 1 v] drop_bit_split[of 2 v]
      drop_bit_split[of 3 v] drop_bit_split[of 4 v] drop_bit_split[of 5 v] drop_bit_split[of 6 v]
    by (simp add: push_bit_or)
qed

lemma byte_parts32:
  "ucast (byte_of v 0) OR push_bit 8 (ucast (byte_of v 1)) OR
     push_bit 16 (ucast (byte_of v 2)) OR push_bit 24 (ucast (byte_of v 3)) = (v :: u32)"
proof -
  have "drop_bit (8 * Suc 3) v = 0" by (rule bit_word_eqI) (auto simp: bit_simps dest: bit_imp_le_length)
  then have "drop_bit (8 * 3) v = ucast (byte_of v 3)"
    by (subst drop_bit_split) simp
  then show ?thesis
    using drop_bit_split[of 0 v] drop_bit_split[of 1 v] drop_bit_split[of 2 v]
    by (simp add: push_bit_or)
qed

lemma load64_store64 [mem_simps, simp]: "load64 (store64 m a v) a = v"
  using byte_parts64[of v] by (simp add: load64_def store64_def)

lemma load32_store32 [mem_simps, simp]: "load32 (store32 m a v) a = v"
  using byte_parts32[of v] by (simp add: load32_def store32_def)

lemma unat_of_nat_small64 [simp]: "i < 2 ^ 64 \<Longrightarrow> unat (of_nat i :: u64) = i"
  by (simp add: unat_of_nat)

lemma unat_of_nat_small32 [simp]: "i < 2 ^ 32 \<Longrightarrow> unat (of_nat i :: u32) = i"
  by (simp add: unat_of_nat)

lemma unat_ucast_32_64 [simp]: "unat (ucast (w :: u32) :: u64) = unat w"
proof -
  have "unat w < 2 ^ 64" using unsigned_less[of w, where 'a = nat] by simp
  then show ?thesis by (simp add: unsigned_ucast_eq take_bit_nat_eq_self)
qed

lemma store64_far:
  assumes "8 \<le> unat (x - a)"
  shows "store64 m a v x = m x"
proof -
  have ne: "x \<noteq> a + of_nat i" if "i < 8" for i
  proof
    assume "x = a + of_nat i"
    then have "unat (x - a) = i" using that by simp
    with assms that show False by simp
  qed
  from ne[of 0] ne[of 1] ne[of 2] ne[of 3] ne[of 4] ne[of 5] ne[of 6] ne[of 7]
  show ?thesis by (simp add: store64_def)
qed

lemma load64_cong:
  assumes "\<And>i. i < 8 \<Longrightarrow> m (a + of_nat i) = m' (a + of_nat i)"
  shows "load64 m a = load64 m' a"
  using assms[of 0] assms[of 1] assms[of 2] assms[of 3] assms[of 4] assms[of 5]
    assms[of 6] assms[of 7]
  by (simp add: load64_def)

lemma unat_add_small:
  assumes "unat a mod 8 = 0" and "i < 8"
  shows "unat ((a::u64) + of_nat i) = unat a + i"
proof -
  obtain k where k: "unat a = 8 * k" using assms(1) by (auto simp: mod_eq_0_iff_dvd elim: dvdE)
  moreover have "unat a < 8 * 2 ^ 61" using unsigned_less[of a] by simp
  ultimately have "k < 2 ^ 61" by simp
  then have "unat a + i < 2 ^ 64" using k assms(2) by simp
  then show ?thesis using assms(2) by (simp add: unat_word_ariths)
qed

lemma load64_store64_other [mem_simps]:
  assumes "unat a mod 8 = 0" and "unat b mod 8 = 0" and "a \<noteq> b"
  shows "load64 (store64 m a v) b = load64 m b"
proof (rule load64_cong)
  fix i :: nat assume i: "i < 8"
  have "8 \<le> unat (b + of_nat i - a)"
  proof (rule ccontr)
    assume "\<not> 8 \<le> unat (b + of_nat i - a)"
    then obtain j where j: "j < 8" "b + of_nat i - a = of_nat j"
      by (intro that[of "unat (b + of_nat i - a)"]) simp_all
    then have "a + of_nat j = b + of_nat i" by (simp add: algebra_simps)
    then have "unat a + j = unat b + i"
      using unat_add_small[OF assms(1) j(1)] unat_add_small[OF assms(2) i] by simp
    then have "unat a = unat b" using assms(1,2) j(1) i by presburger
    with assms(3) show False by (simp add: word_unat_eq_iff)
  qed
  then show "store64 m a v (b + of_nat i) = m (b + of_nat i)" by (rule store64_far)
qed

text \<open>An aligned access stays within its page.\<close>

lemma pg_add_small:
  assumes "unat a mod 8 = 0" and "i < 8"
  shows "pg (a + of_nat i) = pg a"
proof -
  obtain k where k: "unat a = 8 * k" using assms(1) by (auto simp: mod_eq_0_iff_dvd elim: dvdE)
  have "(8 * k + i) div 8 div 512 = (8 * k) div 8 div 512" using assms(2) by simp
  then have "(8 * k + i) div 4096 = (8 * k) div 4096" by (simp only: div_mult2_eq[symmetric]) simp
  then show ?thesis using k unat_add_small[OF assms] by (simp add: word_unat_eq_iff unat_pg)
qed

lemma store64_other_page:
  assumes "unat a mod 8 = 0" and "pg x \<noteq> pg a"
  shows "store64 m a v x = m x"
proof (rule store64_far, rule ccontr)
  assume "\<not> 8 \<le> unat (x - a)"
  then obtain j where "j < 8" "x - a = of_nat j" by (intro that[of "unat (x - a)"]) simp_all
  then have "j < 8" "x = a + of_nat j" by (simp_all add: algebra_simps)
  with pg_add_small[OF assms(1)] assms(2) show False by simp
qed

lemma load64_page_cong:
  assumes "unat a mod 8 = 0" and "\<And>x. pg x = pg a \<Longrightarrow> m x = m' x"
  shows "load64 m a = load64 m' a"
  by (rule load64_cong) (simp add: assms pg_add_small)

lemma page_aligned_mod8 [simp]: "page_aligned a \<Longrightarrow> unat a mod 8 = 0"
  by (elim page_alignedE) simp

lemma entry_mod8:
  assumes "page_aligned t" and "i < 512"
  shows "unat (t + 8 * of_nat i) mod 8 = 0" and "pg (t + 8 * of_nat i) = pg t"
    and "unat (t + 8 * of_nat i) = unat t + 8 * i"
proof -
  have u: "unat (8 * of_nat i :: u64) = 8 * i" using assms(2) by (simp add: unat_word_ariths)
  then show e: "unat (t + 8 * of_nat i) = unat t + 8 * i"
    using unat_page_add[OF assms(1), of "8 * of_nat i"] assms(2) by simp
  obtain k where "unat t = 4096 * k" using assms(1) by (rule page_alignedE)
  then show "unat (t + 8 * of_nat i) mod 8 = 0" unfolding e by simp
  show "pg (t + 8 * of_nat i) = pg t" using pg_page_add[OF assms(1)] u assms(2) by simp
qed

end
