(* ===== verification/Utils.thy ===== *)
theory Utils
  imports Prelude
begin

text \<open>
  The byte and string routines of \<open>src/src/kernel/lib/utils.c\<close> over the physical memory.
  A C string routine reads its arguments through pointers, so those that only read take
  the bytes behind the pointer as a function of the offset (\<open>at m p\<close>); a loop that runs
  until it meets a NUL byte is a partial function, with \<open>None\<close> for a loop that never ends.
\<close>

section \<open>memset, memmove, memcpy\<close>

definition memset :: "pmem \<Rightarrow> u64 \<Rightarrow> u8 \<Rightarrow> u32 \<Rightarrow> pmem" where
  "memset m b d n = foldl (\<lambda>m i. m(b + of_nat i := d)) m [0..<unat n]"

fun copy_loop :: "nat \<Rightarrow> u64 \<Rightarrow> u64 \<Rightarrow> pmem \<Rightarrow> pmem" where
  "copy_loop 0 d s m = m"
| "copy_loop (Suc n) d s m = copy_loop n (d + 1) (s + 1) (m(d := m s))"

definition memmove :: "pmem \<Rightarrow> u64 \<Rightarrow> u64 \<Rightarrow> u32 \<Rightarrow> pmem" where
  "memmove m d s n = copy_loop (unat n) d s m"

definition memcpy :: "pmem \<Rightarrow> u64 \<Rightarrow> u64 \<Rightarrow> u32 \<Rightarrow> pmem" where
  "memcpy m d s n = copy_loop (unat n) d s m"

lemma word_offset_eq: "(x = b + of_nat i) \<longleftrightarrow> (unat (x - b) = i)" if "i < 2 ^ 64" for x b :: u64
proof
  assume "x = b + of_nat i"
  then show "unat (x - b) = i" using that by simp
next
  assume "unat (x - b) = i"
  then have "x - b = of_nat i" by auto
  then show "x = b + of_nat i" by (simp add: algebra_simps)
qed

lemma memset_prefix:
  "k \<le> 2 ^ 64 \<Longrightarrow> foldl (\<lambda>m i. m(b + of_nat i := d)) m [0..<k] x
     = (if unat (x - b) < k then d else m x)" for x b :: u64
proof (induction k)
  case (Suc k)
  then show ?case using word_offset_eq[of k x b] by (auto simp: less_Suc_eq)
qed simp

lemma unat_le_2_64: "unat (n :: u32) \<le> 2 ^ 64"
proof -
  have "unat n < 2 ^ 32" using unsigned_less[of n, where 'a = nat] by simp
  then show ?thesis by simp
qed

text \<open>The loop of \<open>memset\<close> writes exactly the \<open>n\<close> bytes from \<open>b\<close> on.\<close>

lemma memset_apply: "memset m b d n x = (if unat (x - b) < unat n then d else m x)"
  unfolding memset_def by (rule memset_prefix) (rule unat_le_2_64)

lemma copy_loop_apply:
  assumes "n \<le> 2 ^ 64" and "d = s \<or> n \<le> unat (d - s)"
  shows "copy_loop n d s m x = (if unat (x - d) < n then m (s + (x - d)) else m x)"
  using assms
proof (induction n arbitrary: d s m)
  case (Suc n)
  have IH: "copy_loop (Suc n) d s m x =
    (if unat (x - (d + 1)) < n then (m(d := m s)) (s + 1 + (x - (d + 1))) else (m(d := m s)) x)"
  proof -
    have "n \<le> 2 ^ 64" and "d + 1 = s + 1 \<or> n \<le> unat (d + 1 - (s + 1))"
      using Suc.prems by auto
    from Suc.IH[OF this] show ?thesis by (simp only: copy_loop.simps)
  qed
  show ?case
  proof (cases "x = d")
    case True
    have "unat (- 1 :: u64) = 2 ^ 64 - 1"
      by (simp add: unsigned_minus_1_eq_mask mask_eq_exp_minus_1)
    then have "\<not> unat (x - (d + 1)) < n" using True Suc.prems(1) by simp
    then show ?thesis using IH True by simp
  next
    case False
    then have "x - d \<noteq> 0" by simp
    then have u: "unat (x - (d + 1)) = unat (x - d) - 1"
      by (simp add: diff_diff_eq[symmetric] unat_minus_one)
    have pos: "0 < unat (x - d)" using False by (simp add: unat_gt_0)
    have "(m(d := m s)) (s + (x - d)) = m (s + (x - d))" if "unat (x - d) < Suc n"
    proof (cases "s + (x - d) = d")
      case True
      then have "d - s = x - d" by (simp add: algebra_simps)
      with Suc.prems(2) that have "d = s" by auto
      with True show ?thesis by simp
    qed simp
    moreover have "s + 1 + (x - (d + 1)) = s + (x - d)" by simp
    ultimately show ?thesis using IH u pos False by auto
  qed
qed simp

text \<open>
  A copy whose destination does not start strictly inside the source copies every byte:
  the loop runs upwards, so an overlap with the destination below the source is fine.
\<close>

lemma memmove_apply:
  assumes "d = s \<or> unat n \<le> unat (d - s)"
  shows "memmove m d s n x = (if unat (x - d) < unat n then m (s + (x - d)) else m x)"
  unfolding memmove_def by (rule copy_loop_apply) (rule unat_le_2_64 assms)+

section \<open>Strings\<close>

definition at :: "pmem \<Rightarrow> u64 \<Rightarrow> nat \<Rightarrow> u8" where
  "at m p i = m (p + of_nat i)"

text \<open>The C \<open>char\<close> of this target is unsigned in the comparisons (they cast to \<open>uint8\<close>).\<close>

definition char_diff :: "u8 \<Rightarrow> u8 \<Rightarrow> int" where
  "char_diff a b = uint a - uint b"

fun strncmp :: "(nat \<Rightarrow> u8) \<Rightarrow> (nat \<Rightarrow> u8) \<Rightarrow> nat \<Rightarrow> int" where
  "strncmp p q 0 = 0"
| "strncmp p q (Suc n) =
     (if p 0 \<noteq> 0 \<and> p 0 = q 0 then strncmp (\<lambda>i. p (Suc i)) (\<lambda>i. q (Suc i)) n
      else char_diff (p 0) (q 0))"

partial_function (option) strlen_from :: "(nat \<Rightarrow> u8) \<Rightarrow> nat \<Rightarrow> nat option" where
  "strlen_from p i = (if p i = 0 then Some i else strlen_from p (Suc i))"

definition strlen :: "(nat \<Rightarrow> u8) \<Rightarrow> nat option" where
  "strlen p = strlen_from p 0"

partial_function (option) strcmp :: "(nat \<Rightarrow> u8) \<Rightarrow> (nat \<Rightarrow> u8) \<Rightarrow> nat \<Rightarrow> int option" where
  "strcmp p q i =
     (if p i \<noteq> 0 \<and> p i = q i then strcmp p q (Suc i) else Some (char_diff (p i) (q i)))"

partial_function (option) strcpy_loop :: "u64 \<Rightarrow> u64 \<Rightarrow> pmem \<Rightarrow> pmem option" where
  "strcpy_loop s t m =
     (let m' = m(s := m t) in if m' s \<noteq> 0 then strcpy_loop (s + 1) (t + 1) m' else Some m')"

definition strcpy :: "pmem \<Rightarrow> u64 \<Rightarrow> u64 \<Rightarrow> pmem option" where
  "strcpy m s t = strcpy_loop s t m"

text \<open>\<open>strncpy\<close>: the copy loop, then the loop that pads with NUL bytes.\<close>

fun strncpy_copy :: "nat \<Rightarrow> u64 \<Rightarrow> u64 \<Rightarrow> pmem \<Rightarrow> nat \<times> u64 \<times> pmem" where
  "strncpy_copy 0 s t m = (0, s, m)"
| "strncpy_copy (Suc n) s t m =
     (let m' = m(s := m t) in
      if m' s \<noteq> 0 then strncpy_copy n (s + 1) (t + 1) m' else (n, s + 1, m'))"

fun strncpy_pad :: "nat \<Rightarrow> u64 \<Rightarrow> pmem \<Rightarrow> pmem" where
  "strncpy_pad 0 s m = m"
| "strncpy_pad (Suc n) s m = strncpy_pad n (s + 1) (m(s := 0))"

definition strncpy :: "pmem \<Rightarrow> u64 \<Rightarrow> u64 \<Rightarrow> int \<Rightarrow> pmem" where
  "strncpy m s t n = (case strncpy_copy (nat n) s t m of (k, s', m') \<Rightarrow> strncpy_pad k s' m')"

text \<open>What the comparisons decide: equality of the two strings up to the NUL or the bound.\<close>

definition same_upto :: "(nat \<Rightarrow> u8) \<Rightarrow> (nat \<Rightarrow> u8) \<Rightarrow> nat \<Rightarrow> bool" where
  "same_upto p q n \<longleftrightarrow> (\<forall>i<n. (\<forall>j<i. p j \<noteq> 0) \<longrightarrow> p i = q i)"

lemma char_diff_0 [simp]: "char_diff a b = 0 \<longleftrightarrow> a = b"
  by (simp add: char_diff_def word_uint_eq_iff)

lemma same_upto_Suc:
  "same_upto p q (Suc n) \<longleftrightarrow>
     p 0 = q 0 \<and> (p 0 \<noteq> 0 \<longrightarrow> same_upto (\<lambda>i. p (Suc i)) (\<lambda>i. q (Suc i)) n)"
proof -
  have "same_upto p q (Suc n) \<longleftrightarrow>
    p 0 = q 0 \<and> (\<forall>i<n. (\<forall>j<Suc i. p j \<noteq> 0) \<longrightarrow> p (Suc i) = q (Suc i))"
    by (simp only: same_upto_def All_less_Suc2) simp
  also have "\<dots> \<longleftrightarrow>
    p 0 = q 0 \<and> (p 0 \<noteq> 0 \<longrightarrow> same_upto (\<lambda>i. p (Suc i)) (\<lambda>i. q (Suc i)) n)"
    unfolding same_upto_def All_less_Suc2 by auto
  finally show ?thesis .
qed

lemma strncmp_0_iff: "strncmp p q n = 0 \<longleftrightarrow> same_upto p q n"
proof (induction p q n rule: strncmp.induct)
  case (2 p q n)
  then show ?case by (auto simp: same_upto_Suc)
qed (simp add: same_upto_def)

lemma strlen_from_None_or_Some:
  assumes "p k = 0" and "\<And>i. i < k \<Longrightarrow> p i \<noteq> 0" and "j \<le> k"
  shows "strlen_from p j = Some k"
  using assms(3)
proof (induction rule: inc_induct)
  case base
  then show ?case by (subst strlen_from.simps) (simp add: assms(1))
next
  case (step j)
  then show ?case by (subst strlen_from.simps) (simp add: assms(2))
qed

lemma strlen_Some: "p k = 0 \<Longrightarrow> (\<And>i. i < k \<Longrightarrow> p i \<noteq> 0) \<Longrightarrow> strlen p = Some k"
  unfolding strlen_def by (rule strlen_from_None_or_Some) auto

end
