(* ===== verification/Locks.thy ===== *)
theory Locks
  imports Utils
begin

text \<open>
  The harts (\<open>arch/method.h\<close>: the interrupt-enable bit of \<open>sstatus\<close>; \<open>lib/cpu.c\<close>) and the
  spinlocks (\<open>lock/spinlock.c\<close>). The kernel's locks are static objects; the state maps a
  name of each of them to its record.
\<close>

section \<open>State\<close>

text \<open>
  \<open>cpu_t\<close>: \<open>noff\<close> and \<open>origin\<close> as in the code, \<open>proc\<close> as the index of the running process in
  \<open>proc_pool\<close>. \<open>sie\<close> is the bit \<open>SSTATUS_SIE\<close> of that hart's \<open>sstatus\<close>.
\<close>

record cpu =
  noff :: int
  origin :: bool
  cproc :: "nat option"
  sie :: bool

record spinlock =
  locked :: bool
  cpuid :: int

text \<open>
  The locks by the object they protect. \<open>LkProc i\<close> is \<open>proc_pool[i].lk\<close>; \<open>LkBufSlk i\<close> and
  \<open>LkInodeSlk i\<close> are the spinlocks inside the sleeplocks of a buffer and of an inode.
\<close>

datatype lockid =
    LkPmem bool | LkMmap | LkPid | LkLifecycle | LkProc nat | LkTime | LkCons | LkPrint
  | LkBufCache | LkBufSlk nat | LkInodeCache | LkInodeSlk nat | LkFileTable | LkVdisk

record kcpu =
  hart :: nat
  cpus :: "nat \<Rightarrow> cpu"
  locks :: "lockid \<Rightarrow> spinlock"

definition mycpuid :: "'a kcpu_scheme \<Rightarrow> int" where
  "mycpuid s = int (hart s)"

definition mycpu :: "'a kcpu_scheme \<Rightarrow> cpu" where
  "mycpu s = cpus s (hart s)"

definition myproc :: "'a kcpu_scheme \<Rightarrow> nat option" where
  "myproc s = cproc (cpus s (hart s))"

definition set_mycpu :: "cpu \<Rightarrow> 'a kcpu_scheme \<Rightarrow> 'a kcpu_scheme" where
  "set_mycpu c s = s\<lparr>cpus := (cpus s)(hart s := c)\<rparr>"

definition set_lock :: "lockid \<Rightarrow> spinlock \<Rightarrow> 'a kcpu_scheme \<Rightarrow> 'a kcpu_scheme" where
  "set_lock l k s = s\<lparr>locks := (locks s)(l := k)\<rparr>"

section \<open>Interrupt nesting\<close>

definition intr_get :: "'a kcpu_scheme \<Rightarrow> bool" where
  "intr_get s = sie (mycpu s)"

definition intr_on :: "'a kcpu_scheme \<Rightarrow> 'a kcpu_scheme" where
  "intr_on s = set_mycpu ((mycpu s)\<lparr>sie := True\<rparr>) s"

definition intr_off :: "'a kcpu_scheme \<Rightarrow> 'a kcpu_scheme" where
  "intr_off s = set_mycpu ((mycpu s)\<lparr>sie := False\<rparr>) s"

definition push_off :: "'a kcpu_scheme \<Rightarrow> 'a kcpu_scheme" where
  "push_off s0 =
     (let old = intr_get s0;
          s = intr_off s0;
          c = mycpu s;
          c = (if noff c = 0 then c\<lparr>origin := old\<rparr> else c)
      in set_mycpu (c\<lparr>noff := noff c + 1\<rparr>) s)"

definition pop_off :: "'a kcpu_scheme \<Rightarrow> 'a kcpu_scheme res" where
  "pop_off s =
     bnd (kassert (\<not> intr_get s) ''push_off: 1'' s) (\<lambda>s.
     bnd (kassert (noff (mycpu s) \<ge> 1) ''push_off: 2'' s) (\<lambda>s.
     let c = (mycpu s)\<lparr>noff := noff (mycpu s) - 1\<rparr>;
         s = set_mycpu c s
     in Inr (if noff c = 0 \<and> origin c then intr_on s else s)))"

section \<open>Spinlocks\<close>

definition spinlock_init :: "lockid \<Rightarrow> 'a kcpu_scheme \<Rightarrow> 'a kcpu_scheme" where
  "spinlock_init l s = set_lock l \<lparr>locked = False, cpuid = -1\<rparr> s"

definition spinlock_holding :: "lockid \<Rightarrow> 'a kcpu_scheme \<Rightarrow> bool" where
  "spinlock_holding l s \<longleftrightarrow> locked (locks s l) \<and> cpuid (locks s l) = mycpuid s"

text \<open>
  A taken lock makes \<open>spinlock_acquire\<close> spin in its \<open>__sync_lock_test_and_set\<close> loop, with
  interrupts off, until another hart releases it: \<open>Spin\<close>.
\<close>

definition spinlock_acquire :: "lockid \<Rightarrow> 'a kcpu_scheme \<Rightarrow> 'a kcpu_scheme res" where
  "spinlock_acquire l s0 =
     (let s = push_off s0 in
      if spinlock_holding l s then Inl (Panic ''spinlock_acquire: recursive lock'')
      else if locked (locks s l) then Inl Spin
      else Inr (set_lock l \<lparr>locked = True, cpuid = mycpuid s\<rparr> s))"

definition spinlock_release :: "lockid \<Rightarrow> 'a kcpu_scheme \<Rightarrow> 'a kcpu_scheme res" where
  "spinlock_release l s =
     (if \<not> spinlock_holding l s then Inl (Panic ''spinlock_release: not holding'')
      else
        let s = set_lock l ((locks s l)\<lparr>cpuid := -1\<rparr>) s;
            s = set_lock l ((locks s l)\<lparr>locked := False\<rparr>) s
        in pop_off s)"

section \<open>The interrupt-nesting invariant and critical sections\<close>

text \<open>
  \<open>cpu_ok\<close>: the nesting counter of the running hart is not negative, and interrupts are off
  while it is positive. \<open>free_lock\<close>: the lock as \<open>spinlock_init\<close> and \<open>spinlock_release\<close> leave it.
\<close>

definition cpu_ok :: "'a kcpu_scheme \<Rightarrow> bool" where
  "cpu_ok s \<longleftrightarrow> 0 \<le> noff (mycpu s) \<and> (0 < noff (mycpu s) \<longrightarrow> \<not> intr_get s)"

definition free_lock :: "lockid \<Rightarrow> 'a kcpu_scheme \<Rightarrow> bool" where
  "free_lock l s \<longleftrightarrow> locks s l = \<lparr>locked = False, cpuid = -1\<rparr>"

text \<open>
  What a balanced critical section leaves behind besides its body's effect: the field
  \<open>origin\<close> keeps the interrupt state seen by the outermost \<open>push_off\<close>.
\<close>

definition stale_origin :: "'a kcpu_scheme \<Rightarrow> 'a kcpu_scheme" where
  "stale_origin s =
     (if noff (mycpu s) = 0 then set_mycpu ((mycpu s)\<lparr>origin := intr_get s\<rparr>) s else s)"

text \<open>The state inside the critical section of \<open>l\<close> entered from \<open>s\<close>.\<close>

definition entered :: "lockid \<Rightarrow> 'a kcpu_scheme \<Rightarrow> 'a kcpu_scheme" where
  "entered l s = set_lock l \<lparr>locked = True, cpuid = mycpuid s\<rparr> (push_off s)"

lemmas cpu_defs = mycpu_def set_mycpu_def intr_get_def intr_on_def intr_off_def mycpuid_def
  set_lock_def Let_def

lemma locks_update_frame [simp]:
  "mycpuid (s\<lparr>locks := x\<rparr>) = mycpuid s" "myproc (s\<lparr>locks := x\<rparr>) = myproc s"
  "mycpu (s\<lparr>locks := x\<rparr>) = mycpu s"
  by (simp_all add: mycpuid_def myproc_def mycpu_def)

lemma push_off_frame [simp]:
  "hart (push_off s) = hart s" "locks (push_off s) = locks s" "mycpuid (push_off s) = mycpuid s"
  "myproc (push_off s) = myproc s"
  by (simp_all add: push_off_def cpu_defs myproc_def)

lemma push_off_noff: "noff (mycpu (push_off s)) = noff (mycpu s) + 1"
  and push_off_sie: "\<not> intr_get (push_off s)"
  by (simp_all add: push_off_def cpu_defs)

lemma pop_push: "cpu_ok s \<Longrightarrow> pop_off (push_off s) = Inr (stale_origin s)"
  by (cases "cpus s (hart s)"; cases s)
     (auto simp: pop_off_def push_off_def stale_origin_def cpu_ok_def cpu_defs)

lemma entered_frame [simp]:
  "hart (entered l s) = hart s" "mycpuid (entered l s) = mycpuid s" "myproc (entered l s) = myproc s"
  "locks (entered l s) = (locks s)(l := \<lparr>locked = True, cpuid = mycpuid s\<rparr>)"
  by (simp_all add: entered_def set_lock_def)

lemma stale_origin_frame [simp]:
  "hart (stale_origin s) = hart s" "mycpuid (stale_origin s) = mycpuid s"
  "myproc (stale_origin s) = myproc s" "locks (stale_origin s) = locks s"
  "cpu_ok (stale_origin s) = cpu_ok s" "free_lock l (stale_origin s) = free_lock l s"
  "stale_origin (stale_origin s) = stale_origin s"
  by (simp_all add: stale_origin_def cpu_defs myproc_def cpu_ok_def free_lock_def)

lemma cpu_ok_entered [simp]: "cpu_ok s \<Longrightarrow> cpu_ok (entered l s)"
  by (simp add: cpu_ok_def entered_def set_lock_def mycpu_def intr_get_def push_off_def
      set_mycpu_def intr_off_def Let_def)

lemma free_lock_entered [simp]: "free_lock l' (entered l s) \<longleftrightarrow> l' \<noteq> l \<and> free_lock l' s"
  by (simp add: free_lock_def)

lemma holding_entered [simp]: "spinlock_holding l (entered l s)"
  by (simp add: spinlock_holding_def)

lemma acquire_free [simp]: "free_lock l s \<Longrightarrow> spinlock_acquire l s = Inr (entered l s)"
  by (simp add: spinlock_acquire_def entered_def free_lock_def spinlock_holding_def)

lemma release_entered [simp]:
  assumes "cpu_ok s" and "free_lock l s"
  shows "spinlock_release l (entered l s) = Inr (stale_origin s)"
proof -
  have fl: "locks s l = \<lparr>locked = False, cpuid = -1\<rparr>" using assms(2) by (simp add: free_lock_def)
  have "spinlock_release l (entered l s) = pop_off (set_lock l \<lparr>locked = False, cpuid = -1\<rparr> (push_off s))"
    by (simp add: spinlock_release_def entered_def set_lock_def spinlock_holding_def)
  also have "set_lock l \<lparr>locked = False, cpuid = -1\<rparr> (push_off s) = push_off s"
    using fl by (simp add: set_lock_def fun_upd_idem)
  finally show ?thesis using pop_push[OF assms(1)] by simp
qed

text \<open>Two nested critical sections may also be left in the order they were entered.\<close>

lemma release_outer [simp]:
  assumes "cpu_ok s" and "free_lock l s" and "l \<noteq> l'"
  shows "spinlock_release l (entered l' (entered l s)) = Inr (entered l' s)"
proof -
  have fl: "locks s l = \<lparr>locked = False, cpuid = -1\<rparr>" using assms(2) by (simp add: free_lock_def)
  have upd: "(locks s)(l := \<lparr>locked = False, cpuid = -1\<rparr>) = locks s" using fl by (simp add: fun_upd_idem)
  have comm: "(locks s)(l := x, l' := y, l := z) = ((locks s)(l := z))(l' := y)" for x y z
    using assms(3) by (simp add: fun_upd_twist)
  show ?thesis using assms(1,3) fl upd
    by (cases s; cases "cpus s (hart s)")
       (auto simp: spinlock_release_def entered_def push_off_def pop_off_def spinlock_holding_def
         cpu_ok_def cpu_defs comm fun_upd_idem)
qed

text \<open>A hart that holds a lock and asks for it again panics: spinlocks are not reentrant.\<close>

lemma acquire_recursive:
  "spinlock_holding l s \<Longrightarrow>
   spinlock_acquire l s = Inl (Panic ''spinlock_acquire: recursive lock'')"
  by (simp add: spinlock_acquire_def spinlock_holding_def)

lemma release_not_holding:
  "\<not> spinlock_holding l s \<Longrightarrow>
   spinlock_release l s = Inl (Panic ''spinlock_release: not holding'')"
  by (simp add: spinlock_release_def)

end
