(* ===== verification/Interfaces.thy ===== *)
theory Interfaces
  imports Prelude
begin

text \<open>
  The contracts that several components share, as locales. A component that provides one
  interprets it in its own theory; a client uses the facts of the interpretation.
\<close>

section \<open>Resource allocators\<close>

text \<open>
  Physical pages of the two pools and mmap nodes are handed out by an \<open>alloc\<close> and taken back by a \<open>free\<close>. \<open>rep s A\<close> says that the state is
  consistent and \<open>A\<close> is the set of the resources that are available in it; \<open>univ s\<close> is the
  set of all resources the allocator manages.
\<close>

fun alloc_many :: "('s \<Rightarrow> ('r \<times> 's) res) \<Rightarrow> nat \<Rightarrow> 's \<Rightarrow> ('r list \<times> 's) res" where
  "alloc_many al 0 s = Inr ([], s)"
| "alloc_many al (Suc n) s =
     bnd (al s) (\<lambda>(r, s). bnd (alloc_many al n s) (\<lambda>(rs, s). Inr (r # rs, s)))"

locale allocator =
  fixes alloc :: "'s \<Rightarrow> ('r \<times> 's) res"
    and free :: "'r \<Rightarrow> 's \<Rightarrow> 's res"
    and rep :: "'s \<Rightarrow> 'r set \<Rightarrow> bool"
    and univ :: "'s \<Rightarrow> 'r set"
  assumes rep_finite: "rep s A \<Longrightarrow> finite A"
    and rep_univ: "rep s A \<Longrightarrow> A \<subseteq> univ s"
    and alloc_ok: "rep s A \<Longrightarrow> A \<noteq> {} \<Longrightarrow>
      \<exists>r t. alloc s = Inr (r, t) \<and> r \<in> A \<and> rep t (A - {r}) \<and> univ t = univ s"
    and alloc_empty: "rep s {} \<Longrightarrow> \<exists>e. alloc s = Inl e"
    and free_ok: "rep s A \<Longrightarrow> r \<in> univ s - A \<Longrightarrow>
      \<exists>t. free r s = Inr t \<and> rep t (insert r A) \<and> univ t = univ s"
begin

lemma alloc_Inr:
  assumes "rep s A" and "alloc s = Inr (r, t)"
  shows "r \<in> A" "rep t (A - {r})" "univ t = univ s"
  using alloc_ok[OF assms(1)] alloc_empty[of s] assms by (cases "A = {}"; force)+

lemma alloc_fails_iff: "rep s A \<Longrightarrow> (\<exists>e. alloc s = Inl e) \<longleftrightarrow> A = {}"
  using alloc_ok[of s A] alloc_empty[of s] by force

text \<open>With \<open>n\<close> resources available, \<open>n\<close> allocations succeed and return distinct ones.\<close>

lemma alloc_many_ok:
  assumes "rep s A" and "n \<le> card A"
  shows "\<exists>rs t. alloc_many alloc n s = Inr (rs, t) \<and> length rs = n \<and> distinct rs \<and>
    set rs \<subseteq> A \<and> rep t (A - set rs) \<and> univ t = univ s"
  using assms
proof (induction n arbitrary: s A)
  case (Suc n)
  then have "A \<noteq> {}" by auto
  with alloc_ok[OF Suc.prems(1)] obtain r u
    where r: "alloc s = Inr (r, u)" "r \<in> A" "rep u (A - {r})" "univ u = univ s" by blast
  have "n \<le> card (A - {r})"
    using Suc.prems(2) r(2) rep_finite[OF Suc.prems(1)] by simp
  from Suc.IH[OF r(3) this] obtain rs t where "alloc_many alloc n u = Inr (rs, t)"
    "length rs = n" "distinct rs" "set rs \<subseteq> A - {r}" "rep t (A - {r} - set rs)" "univ t = univ u"
    by blast
  then show ?case using r by (auto simp: set_diff_eq intro!: exI[of _ "r # rs"] elim: back_subst)
qed auto

text \<open>One allocation more than there are resources fails.\<close>

lemma alloc_many_exhausts:
  assumes "rep s A" and "card A < n"
  shows "\<exists>e. alloc_many alloc n s = Inl e"
  using assms
proof (induction n arbitrary: s A)
  case (Suc n)
  show ?case
  proof (cases "A = {}")
    case True
    with Suc.prems alloc_empty show ?thesis by fastforce
  next
    case False
    with alloc_ok[OF Suc.prems(1)] obtain r u
      where r: "alloc s = Inr (r, u)" "r \<in> A" "rep u (A - {r})" by blast
    have "card (A - {r}) < n" using Suc.prems(2) r(2) rep_finite[OF Suc.prems(1)] False
      by (simp add: card_gt_0_iff) (metis Suc_pred card_gt_0_iff not_less_eq)
    from Suc.IH[OF r(3) this] r(1) show ?thesis by auto
  qed
qed simp

text \<open>Taking a resource and giving it back restores the set of available ones.\<close>

lemma alloc_free:
  assumes "rep s A" and "alloc s = Inr (r, t)"
  shows "\<exists>u. free r t = Inr u \<and> rep u A"
proof -
  note a = alloc_Inr[OF assms]
  have "r \<in> univ t - (A - {r})" using a rep_univ[OF assms(1)] by auto
  from free_ok[OF a(2) this] show ?thesis using a(1) by (auto simp: insert_absorb)
qed

end

end
