(* ===== verification/Pmem.thy ===== *)
theory Pmem
  imports Locks Interfaces
begin

text \<open>
  Physical page allocation (\<open>mem/pmem.c\<close>): two pools, each a singly linked list of free
  pages whose \<open>next\<close> pointers are stored in the first eight bytes of the free pages
  themselves. \<open>pmem_ok s F\<close> is the representation invariant: \<open>F True\<close> and \<open>F False\<close> are the
  free pages of the kernel's and of the user's pool, in list order.
\<close>

section \<open>State\<close>

record alloc_region =
  ar_begin :: u64
  ar_end :: u64
  allocable :: u32
  list_head :: u64

record mem_state = kcpu +
  mem :: pmem
  kernel_pool :: alloc_region
  user_pool :: alloc_region

definition pool :: "bool \<Rightarrow> 'a mem_state_scheme \<Rightarrow> alloc_region" where
  "pool in_kernel s = (if in_kernel then kernel_pool s else user_pool s)"

definition set_pool :: "bool \<Rightarrow> alloc_region \<Rightarrow> 'a mem_state_scheme \<Rightarrow> 'a mem_state_scheme" where
  "set_pool in_kernel r s =
     (if in_kernel then s\<lparr>kernel_pool := r\<rparr> else s\<lparr>user_pool := r\<rparr>)"

abbreviation (input) KERN_PAGES :: u64 where "KERN_PAGES \<equiv> 1024"

section \<open>Operations\<close>

text \<open>The head insertion that \<open>init_pool\<close> and \<open>pmem_free\<close> share in their code.\<close>

definition push_page :: "bool \<Rightarrow> u64 \<Rightarrow> 'a mem_state_scheme \<Rightarrow> 'a mem_state_scheme" where
  "push_page k page s =
     (let s = s\<lparr>mem := store64 (mem s) page (list_head (pool k s))\<rparr>;
          r = pool k s
      in set_pool k (r\<lparr>list_head := page, allocable := allocable r + 1\<rparr>) s)"

definition init_pool :: "bool \<Rightarrow> u64 \<Rightarrow> u64 \<Rightarrow> 'a mem_state_scheme \<Rightarrow> 'a mem_state_scheme res" where
  "init_pool k from to s =
     (let s = set_pool k ((pool k s)\<lparr>ar_begin := from, ar_end := to, allocable := 0\<rparr>) s;
          s = spinlock_init (LkPmem k) s;
          s = set_pool k ((pool k s)\<lparr>list_head := 0\<rparr>) s
      in for_pages from to (\<lambda>addr s. Inr (push_page k addr s)) s)"

text \<open>
  \<open>alloc_begin\<close> is the linker's symbol \<open>ALLOC_BEGIN\<close> (the end of the kernel image, rounded up
  to a page), \<open>alloc_end\<close> its \<open>ALLOC_END\<close>.
\<close>

definition pmem_init :: "u64 \<Rightarrow> u64 \<Rightarrow> 'a mem_state_scheme \<Rightarrow> 'a mem_state_scheme res" where
  "pmem_init alloc_begin alloc_end s =
     (if alloc_begin mod PGSIZE \<noteq> 0 \<or> alloc_end mod PGSIZE \<noteq> 0
      then Inl (Panic ''pmem_init: memory address not aligned'')
      else
        let kernel_pool_end = alloc_begin + KERN_PAGES * PGSIZE in
        if kernel_pool_end > alloc_end then Inl (Panic ''pmem_init: not enough memory'')
        else bnd (init_pool True alloc_begin kernel_pool_end s)
               (init_pool False kernel_pool_end alloc_end))"

definition pmem_alloc :: "bool \<Rightarrow> 'a mem_state_scheme \<Rightarrow> (u64 \<times> 'a mem_state_scheme) res" where
  "pmem_alloc in_kernel s =
     bnd (spinlock_acquire (LkPmem in_kernel) s) (\<lambda>s.
     let node = list_head (pool in_kernel s) in
     if node \<noteq> 0 then
       let r = pool in_kernel s;
           s = set_pool in_kernel
                 (r\<lparr>list_head := load64 (mem s) node, allocable := allocable r - 1\<rparr>) s
       in bnd (spinlock_release (LkPmem in_kernel) s) (\<lambda>s.
          Inr (node, s\<lparr>mem := memset (mem s) node 0 PGSIZE\<rparr>))
     else
       bnd (spinlock_release (LkPmem in_kernel) s) (\<lambda>s.
       Inl (Panic (if in_kernel then ''pmem_alloc: kernel memory exhausted''
                   else ''pmem_alloc: user memory exhausted''))))"

definition pmem_free :: "u64 \<Rightarrow> bool \<Rightarrow> 'a mem_state_scheme \<Rightarrow> 'a mem_state_scheme res" where
  "pmem_free page in_kernel s =
     (if page mod PGSIZE \<noteq> 0 then Inl (Panic ''pmem_free: address not page aligned'')
      else if page < ar_begin (pool in_kernel s) \<or> page \<ge> ar_end (pool in_kernel s)
      then Inl (Panic ''pmem_free: address out of range'')
      else
        bnd (spinlock_acquire (LkPmem in_kernel) s) (\<lambda>s.
        spinlock_release (LkPmem in_kernel) (push_page in_kernel page s)))"

text \<open>The two out-parameters of \<open>pmem_stat\<close> as a pair (the callers pass non-null pointers).\<close>

definition pmem_stat :: "'a mem_state_scheme \<Rightarrow> ((u32 \<times> u32) \<times> 'a mem_state_scheme) res" where
  "pmem_stat s =
     bnd (spinlock_acquire (LkPmem True) s) (\<lambda>s.
     let kf = allocable (kernel_pool s) in
     bnd (spinlock_release (LkPmem True) s) (\<lambda>s.
     bnd (spinlock_acquire (LkPmem False) s) (\<lambda>s.
     let uf = allocable (user_pool s) in
     bnd (spinlock_release (LkPmem False) s) (\<lambda>s.
     Inr ((kf, uf), s)))))"

section \<open>Frame facts: the locks do not touch the memory and the memory does not touch the locks\<close>

lemma entered_mem_state [simp]:
  "mem (entered l s) = mem s" "kernel_pool (entered l s) = kernel_pool s"
  "user_pool (entered l s) = user_pool s" "pool k (entered l s) = pool k s"
  "mem (stale_origin s) = mem s" "kernel_pool (stale_origin s) = kernel_pool s"
  "user_pool (stale_origin s) = user_pool s" "pool k (stale_origin s) = pool k s"
  by (simp_all add: entered_def push_off_def stale_origin_def cpu_defs pool_def)

lemma entered_mem_update [simp]:
  "(entered l s)\<lparr>mem := m\<rparr> = entered l (s\<lparr>mem := m\<rparr>)"
  "(entered l s)\<lparr>kernel_pool := r\<rparr> = entered l (s\<lparr>kernel_pool := r\<rparr>)"
  "(entered l s)\<lparr>user_pool := r\<rparr> = entered l (s\<lparr>user_pool := r\<rparr>)"
  "set_pool k r (entered l s) = entered l (set_pool k r s)"
  by (simp_all add: entered_def push_off_def cpu_defs set_pool_def)

lemma stale_mem_update [simp]:
  "(stale_origin s)\<lparr>mem := m\<rparr> = stale_origin (s\<lparr>mem := m\<rparr>)"
  "(stale_origin s)\<lparr>kernel_pool := r\<rparr> = stale_origin (s\<lparr>kernel_pool := r\<rparr>)"
  "(stale_origin s)\<lparr>user_pool := r\<rparr> = stale_origin (s\<lparr>user_pool := r\<rparr>)"
  "set_pool k r (stale_origin s) = stale_origin (set_pool k r s)"
  by (simp_all add: stale_origin_def cpu_defs set_pool_def)

lemma mem_update_locks [simp]:
  "cpu_ok (s\<lparr>mem := m\<rparr>) = cpu_ok s" "cpu_ok (set_pool k r s) = cpu_ok s"
  "free_lock l (s\<lparr>mem := m\<rparr>) = free_lock l s" "free_lock l (set_pool k r s) = free_lock l s"
  by (simp_all add: cpu_ok_def free_lock_def cpu_defs set_pool_def)

lemma pool_simps [simp]:
  "pool k (s\<lparr>mem := m\<rparr>) = pool k s" "pool k (set_pool k' r s) = (if k = k' then r else pool k s)"
  "mem (set_pool k r s) = mem s" "set_pool k r' (set_pool k r s) = set_pool k r' s"
  "(set_pool k r s)\<lparr>mem := m\<rparr> = set_pool k r (s\<lparr>mem := m\<rparr>)"
  by (simp_all add: pool_def set_pool_def)

section \<open>The representation invariant\<close>

primrec Flist :: "pmem \<Rightarrow> u64 \<Rightarrow> u64 list \<Rightarrow> bool" where
  "Flist m p [] \<longleftrightarrow> p = 0"
| "Flist m p (q # qs) \<longleftrightarrow> p = q \<and> q \<noteq> 0 \<and> Flist m (load64 m q) qs"

definition in_region :: "alloc_region \<Rightarrow> u64 \<Rightarrow> bool" where
  "in_region r p \<longleftrightarrow> page_aligned p \<and> ar_begin r \<le> p \<and> p < ar_end r \<and> p \<noteq> 0"

definition pool_ok :: "bool \<Rightarrow> 'a mem_state_scheme \<Rightarrow> u64 list \<Rightarrow> bool" where
  "pool_ok k s ps \<longleftrightarrow> Flist (mem s) (list_head (pool k s)) ps \<and> distinct ps \<and>
     (\<forall>p\<in>set ps. in_region (pool k s) p) \<and> allocable (pool k s) = of_nat (length ps)"

definition pmem_ok :: "'a mem_state_scheme \<Rightarrow> (bool \<Rightarrow> u64 list) \<Rightarrow> bool" where
  "pmem_ok s F \<longleftrightarrow> cpu_ok s \<and> (\<forall>k. free_lock (LkPmem k) s \<and> pool_ok k s (F k)) \<and>
     set (F True) \<inter> set (F False) = {} \<and> ar_end (kernel_pool s) \<le> ar_begin (user_pool s)"

lemma Flist_cong:
  assumes "\<And>p. p \<in> set ps \<Longrightarrow> load64 m p = load64 m' p"
  shows "Flist m h ps = Flist m' h ps"
  using assms by (induction ps arbitrary: h) auto

lemma Flist_store:
  assumes "\<And>p. p \<in> set ps \<Longrightarrow> page_aligned p" and "unat a mod 8 = 0" and "a \<notin> set ps"
  shows "Flist (store64 m a v) h ps = Flist m h ps"
  by (rule Flist_cong) (use assms in \<open>auto intro!: load64_store64_other\<close>)

lemma Flist_other_pages:
  assumes "\<And>p. p \<in> set ps \<Longrightarrow> page_aligned p"
    and "\<And>p x. p \<in> set ps \<Longrightarrow> pg x = pg p \<Longrightarrow> m x = m' x"
  shows "Flist m h ps = Flist m' h ps"
  by (rule Flist_cong, rule load64_page_cong) (use assms in auto)

lemma in_region_aligned: "in_region r p \<Longrightarrow> page_aligned p"
  by (simp add: in_region_def)

text \<open>The invariant after an operation on pool \<open>k\<close> that leaves the other one alone.\<close>

lemma pmem_okI:
  assumes "cpu_ok s" and "\<And>j. free_lock (LkPmem j) s"
    and "pool_ok k s ps" and "pool_ok (\<not> k) s (F (\<not> k))" and "set ps \<inter> set (F (\<not> k)) = {}"
    and "ar_end (kernel_pool s) \<le> ar_begin (user_pool s)"
  shows "pmem_ok s (F(k := ps))"
proof -
  have "pool_ok j s ((F(k := ps)) j)" for j
    using assms(3,4) by (cases "j = k") (auto simp: fun_upd_def split: if_splits)
  moreover have "set ((F(k := ps)) True) \<inter> set ((F(k := ps)) False) = {}"
    using assms(5) by (cases k) auto
  ultimately show ?thesis using assms(1,2,6) unfolding pmem_ok_def by blast
qed

lemma pmem_ok_disjoint: "pmem_ok s F \<Longrightarrow> set (F k) \<inter> set (F (\<not> k)) = {}"
  by (cases k) (auto simp: pmem_ok_def)

lemma pmem_okD:
  assumes "pmem_ok s F"
  shows "cpu_ok s" "free_lock (LkPmem k) s" "pool_ok k s (F k)"
    "p \<in> set (F k) \<Longrightarrow> page_aligned p" "p \<in> set (F k) \<Longrightarrow> in_region (pool k s) p" "distinct (F k)"
  using assms by (auto simp: pmem_ok_def pool_ok_def in_region_def)

text \<open>
  Code that writes memory outside the free pages keeps the allocator's invariant: this is
  the fact every client of the allocator uses.
\<close>

lemma pmem_ok_write:
  assumes ok: "pmem_ok s F"
    and out: "\<And>k p x. p \<in> set (F k) \<Longrightarrow> pg x = pg p \<Longrightarrow> m x = mem s x"
  shows "pmem_ok (s\<lparr>mem := m\<rparr>) F"
proof -
  have "Flist m h (F k) = Flist (mem s) h (F k)" for h k
    by (rule Flist_other_pages) (use pmem_okD(4)[OF ok] out in auto)
  then show ?thesis using ok by (simp add: pmem_ok_def pool_ok_def)
qed

lemma free_page_distinct:
  assumes ok: "pmem_ok s F" and "p \<in> set (F k)" "q \<in> set (F k')" "pg p = pg q"
  shows "p = q"
  using pg_eq_aligned[OF pmem_okD(4)[OF ok assms(2)] pmem_okD(4)[OF ok assms(3)]] assms(4) by simp

lemma pmem_ok_stale [simp]: "pmem_ok (stale_origin s) F = pmem_ok s F"
  by (simp add: pmem_ok_def pool_ok_def)

definition popped :: "bool \<Rightarrow> 'a mem_state_scheme \<Rightarrow> 'a mem_state_scheme" where
  "popped k s = set_pool k ((pool k s)\<lparr>list_head := load64 (mem s) (list_head (pool k s)),
     allocable := allocable (pool k s) - 1\<rparr>) s"

lemma popped_simps [simp]: "mem (popped k s) = mem s" "cpu_ok (popped k s) = cpu_ok s"
  "free_lock l (popped k s) = free_lock l s"
  by (simp_all add: popped_def)

lemma pmem_ok_popped:
  assumes ok: "pmem_ok s F" and F: "F k = p # ps"
  shows "pmem_ok (popped k s) (F(k := ps))"
proof (rule pmem_okI)
  show "pool_ok k (popped k s) ps"
    using pmem_okD(3)[OF ok, of k] F by (auto simp: pool_ok_def popped_def in_region_def)
  show "pool_ok (\<not> k) (popped k s) (F (\<not> k))"
    using pmem_okD(3)[OF ok, of "\<not> k"] by (simp add: pool_ok_def popped_def)
  show "set ps \<inter> set (F (\<not> k)) = {}" using pmem_ok_disjoint[OF ok, of k] F by auto
  show "ar_end (kernel_pool (popped k s)) \<le> ar_begin (user_pool (popped k s))"
    using ok by (simp add: pmem_ok_def popped_def set_pool_def pool_def)
qed (use pmem_okD(1,2)[OF ok] in simp_all)

lemma pmem_alloc_eq:
  assumes ok: "pmem_ok s F" and F: "F k = p # ps"
  shows "pmem_alloc k s =
    Inr (p, (stale_origin (popped k s))\<lparr>mem := memset (mem s) p 0 PGSIZE\<rparr>)"
proof -
  have "list_head (pool k s) = p" "p \<noteq> 0"
    using pmem_okD(3)[OF ok, of k] F by (auto simp: pool_ok_def)
  then show ?thesis using pmem_okD(1,2)[OF ok] by (simp add: pmem_alloc_def popped_def Let_def)
qed

lemma memset_page:
  assumes "page_aligned p"
  shows "memset m p 0 PGSIZE x = (if pg x = pg p then 0 else m x)"
  by (simp add: memset_apply pg_iff_offset[OF assms])

lemma pmem_alloc_ok:
  assumes ok: "pmem_ok s F" and F: "F k = p # ps"
  shows "pmem_ok ((stale_origin (popped k s))\<lparr>mem := memset (mem s) p 0 PGSIZE\<rparr>) (F(k := ps))"
proof -
  have pin: "p \<in> set (F k)" using F by simp
  have "pmem_ok ((popped k s)\<lparr>mem := memset (mem s) p 0 PGSIZE\<rparr>) (F(k := ps))"
  proof (rule pmem_ok_write[OF pmem_ok_popped[OF ok F]])
    fix k' q x assume q: "q \<in> set ((F(k := ps)) k')" and x: "pg x = pg q"
    have qin: "q \<in> set (F k')" using q F by (auto split: if_splits)
    have "q \<noteq> p"
      using q pmem_okD(6)[OF ok, of k] F ok by (cases k; cases k') (auto simp: pmem_ok_def)
    then have "pg x \<noteq> pg p" using free_page_distinct[OF ok qin pin] x by auto
    then show "memset (mem s) p 0 PGSIZE x = mem (popped k s) x"
      using memset_page[OF pmem_okD(4)[OF ok pin]] by simp
  qed
  then show ?thesis by simp
qed

lemma pmem_alloc_empty:
  assumes ok: "pmem_ok s F" and F: "F k = []"
  shows "\<exists>msg. pmem_alloc k s = Inl (Panic msg)"
proof -
  have "list_head (pool k s) = 0" using pmem_okD(3)[OF ok, of k] F by (simp add: pool_ok_def)
  then show ?thesis using pmem_okD(1,2)[OF ok] by (simp add: pmem_alloc_def)
qed

text \<open>What an allocation gives: the head of the list, zeroed; nothing else in memory changes.\<close>

lemma pmem_alloc_cases:
  assumes ok: "pmem_ok s F" and al: "pmem_alloc k s = Inr (p, t)"
  obtains ps where "F k = p # ps" "pmem_ok t (F(k := ps))"
    "\<And>x. mem t x = (if pg x = pg p then 0 else mem s x)" "page_aligned p" "p \<noteq> 0"
    "t = (stale_origin (popped k s))\<lparr>mem := memset (mem s) p 0 PGSIZE\<rparr>"
proof (cases "F k")
  case Nil
  from pmem_alloc_empty[OF ok Nil] al show thesis by simp
next
  case (Cons q ps)
  then have q: "q \<in> set (F k)" by simp
  note reg = pmem_okD(4,5)[OF ok q]
  have "q = p" "t = (stale_origin (popped k s))\<lparr>mem := memset (mem s) p 0 PGSIZE\<rparr>"
    using pmem_alloc_eq[OF ok Cons] al by auto
  with reg Cons pmem_alloc_ok[OF ok Cons] show thesis
    by (intro that[of ps]) (auto simp: memset_page in_region_def)
qed

lemma pmem_free_eq:
  assumes ok: "pmem_ok s F" and reg: "in_region (pool k s) p"
  shows "pmem_free p k s = Inr (stale_origin (push_page k p s))"
proof -
  have "push_page k p (entered l s) = entered l (push_page k p s)" for l
    by (simp add: push_page_def Let_def)
  moreover have "cpu_ok (push_page k p s)" "free_lock (LkPmem k) (push_page k p s)"
    using pmem_okD(1,2)[OF ok] by (simp_all add: push_page_def Let_def)
  ultimately show ?thesis
    using pmem_okD(1,2)[OF ok] reg by (simp add: pmem_free_def in_region_def page_aligned_def not_le not_less)
qed

lemma pmem_free_ok:
  assumes ok: "pmem_ok s F" and reg: "in_region (pool k s) p"
    and new: "p \<notin> set (F True)" "p \<notin> set (F False)"
  shows "pmem_ok (push_page k p s) (F(k := p # F k))"
proof -
  have al: "page_aligned p" using reg by (rule in_region_aligned)
  have upd: "Flist (store64 (mem s) p v) h (F k') = Flist (mem s) h (F k')" for v h k'
    by (rule Flist_store) (use pmem_okD(4)[OF ok] al new in \<open>cases k'; auto\<close>)+
  show ?thesis
  proof (rule pmem_okI)
    have "p \<notin> set (F k)" using new by (cases k) simp_all
    then show "pool_ok k (push_page k p s) (p # F k)"
      using pmem_okD(3)[OF ok, of k] reg upd
      by (auto simp: pool_ok_def push_page_def Let_def in_region_def)
    show "pool_ok (\<not> k) (push_page k p s) (F (\<not> k))"
      using pmem_okD(3)[OF ok, of "\<not> k"] upd by (simp add: pool_ok_def push_page_def Let_def)
    show "set (p # F k) \<inter> set (F (\<not> k)) = {}"
      using pmem_ok_disjoint[OF ok, of k] new by (cases k) auto
    show "ar_end (kernel_pool (push_page k p s)) \<le> ar_begin (user_pool (push_page k p s))"
      using ok by (simp add: pmem_ok_def push_page_def set_pool_def pool_def Let_def)
  qed (use pmem_okD(1,2)[OF ok] in \<open>simp_all add: push_page_def Let_def\<close>)
qed

section \<open>Initialisation\<close>

definition page_seq :: "u64 \<Rightarrow> nat \<Rightarrow> u64 list" where
  "page_seq a n = map (\<lambda>i. a + 4096 * of_nat i) [0..<n]"

lemma page_seq_Suc: "page_seq a (Suc n) = a # page_seq (a + 4096) n"
  unfolding page_seq_def by (simp add: upt_conv_Cons map_Suc_upt[symmetric] distrib_left del: upt_Suc)

lemma length_page_seq [simp]: "length (page_seq a n) = n"
  by (simp add: page_seq_def)

lemma push_page_pool_ok:
  assumes ok: "pool_ok k s ps" and reg: "in_region (pool k s) p" and new: "p \<notin> set ps"
  shows "pool_ok k (push_page k p s) (p # ps)"
proof -
  have "Flist (store64 (mem s) p v) h ps = Flist (mem s) h ps" for v h
    by (rule Flist_store) (use ok reg new in \<open>auto simp: pool_ok_def in_region_def\<close>)+
  then show ?thesis using ok reg new by (auto simp: pool_ok_def push_page_def Let_def in_region_def)
qed

lemma push_page_frame [simp]:
  "hart (push_page k p s) = hart s" "cpus (push_page k p s) = cpus s"
  "locks (push_page k p s) = locks s" "pool (\<not> k) (push_page k p s) = pool (\<not> k) s"
  "ar_begin (pool j (push_page k p s)) = ar_begin (pool j s)"
  "ar_end (pool j (push_page k p s)) = ar_end (pool j s)"
  by (simp_all add: push_page_def Let_def set_pool_def pool_def)

lemma push_page_mem:
  "page_aligned p \<Longrightarrow> pg x \<noteq> pg p \<Longrightarrow> mem (push_page k p s) x = mem s x"
  by (simp add: push_page_def Let_def store64_other_page)

lemma init_loop:
  assumes "pool_ok k s ps" and "page_aligned a" and "a \<noteq> 0"
    and "unat e = unat a + 4096 * n" and "ar_end (pool k s) = e" and "ar_begin (pool k s) \<le> a"
    and "\<And>p. p \<in> set ps \<Longrightarrow> p < a"
  shows "\<exists>t. for_pages a e (\<lambda>addr s. Inr (push_page k addr s)) s = Inr t \<and>
    pool_ok k t (rev (page_seq a n) @ ps) \<and> hart t = hart s \<and> cpus t = cpus s \<and>
    locks t = locks s \<and> pool (\<not> k) t = pool (\<not> k) s \<and>
    ar_begin (pool k t) = ar_begin (pool k s) \<and> ar_end (pool k t) = e \<and>
    (\<forall>x. pg x < pg a \<or> pg e \<le> pg x \<longrightarrow> mem t x = mem s x)"
  using assms
proof (induction n arbitrary: a s ps)
  case 0
  then have "a = e" by (simp add: word_unat_eq_iff)
  with 0 show ?case by (simp add: page_seq_def)
next
  case (Suc n)
  have lt: "a < e" using Suc.prems(4) by (simp add: word_less_nat_alt)
  have e64: "unat e < 2 ^ 64" using unsigned_less[of e] by simp
  then have nxt: "unat (a + 4096) = unat a + 4096" using Suc.prems(4) by (simp add: unat_word_ariths)
  have ltn: "a < a + 4096" by (simp add: word_less_nat_alt nxt)
  let ?s = "push_page k a s"
  have reg: "in_region (pool k s) a"
    using Suc.prems(2,3,5,6) lt by (simp add: in_region_def)
  have new: "a \<notin> set ps" using Suc.prems(7) by auto
  have "\<exists>t. for_pages (a + 4096) e (\<lambda>addr s. Inr (push_page k addr s)) ?s = Inr t \<and>
    pool_ok k t (rev (page_seq (a + 4096) n) @ (a # ps)) \<and> hart t = hart ?s \<and> cpus t = cpus ?s \<and>
    locks t = locks ?s \<and> pool (\<not> k) t = pool (\<not> k) ?s \<and>
    ar_begin (pool k t) = ar_begin (pool k ?s) \<and> ar_end (pool k t) = e \<and>
    (\<forall>x. pg x < pg (a + 4096) \<or> pg e \<le> pg x \<longrightarrow> mem t x = mem ?s x)"
  proof (rule Suc.IH)
    show "pool_ok k ?s (a # ps)" by (rule push_page_pool_ok[OF Suc.prems(1) reg new])
    show "a + 4096 \<noteq> 0" using ltn by (metis word_not_simps(1))
    show "\<And>p. p \<in> set (a # ps) \<Longrightarrow> p < a + 4096"
      using ltn Suc.prems(7) by (auto intro: less_trans)
    show "ar_begin (pool k ?s) \<le> a + 4096" using Suc.prems(6) ltn by (simp add: order.trans less_imp_le)
  qed (use Suc.prems nxt in simp_all)
  then obtain t where t: "for_pages (a + 4096) e (\<lambda>addr s. Inr (push_page k addr s)) ?s = Inr t"
    "pool_ok k t (rev (page_seq (a + 4096) n) @ (a # ps))" "hart t = hart s" "cpus t = cpus s"
    "locks t = locks s" "pool (\<not> k) t = pool (\<not> k) s"
    "ar_begin (pool k t) = ar_begin (pool k s)" "ar_end (pool k t) = e"
    "\<And>x. pg x < pg (a + 4096) \<or> pg e \<le> pg x \<Longrightarrow> mem t x = mem ?s x" by auto
  have "for_pages a e (\<lambda>addr s. Inr (push_page k addr s)) s = Inr t"
    using lt nxt e64 t(1) Suc.prems(4) by (subst for_pages_step) simp_all
  moreover have "mem t x = mem s x" if "pg x < pg a \<or> pg e \<le> pg x" for x
  proof -
    have u: "unat (pg (a + 4096)) = unat (pg a) + 1" "unat (pg a) < unat (pg e)"
      using nxt Suc.prems(4) by (simp_all add: unat_pg)
    then have "pg x \<noteq> pg a" "pg x < pg (a + 4096) \<or> pg e \<le> pg x"
      using that by (auto simp: word_less_nat_alt word_le_nat_alt)
    then show ?thesis using t(9) push_page_mem[OF Suc.prems(2)] by simp
  qed
  ultimately show ?case using t by (intro exI[of _ t]) (simp add: page_seq_Suc)
qed

lemma init_pool_ok:
  assumes "page_aligned a" and "a \<noteq> 0" and "unat e = unat a + 4096 * n"
  shows "\<exists>t. init_pool k a e s = Inr t \<and> pool_ok k t (rev (page_seq a n)) \<and>
    hart t = hart s \<and> cpus t = cpus s \<and>
    locks t = (locks s)(LkPmem k := \<lparr>locked = False, cpuid = -1\<rparr>) \<and>
    pool (\<not> k) t = pool (\<not> k) s \<and> ar_begin (pool k t) = a \<and> ar_end (pool k t) = e \<and>
    (\<forall>x. pg x < pg a \<or> pg e \<le> pg x \<longrightarrow> mem t x = mem s x)"
proof -
  let ?s0 = "set_pool k ((pool k s)\<lparr>ar_begin := a, ar_end := e, allocable := 0, list_head := 0\<rparr>)
    (spinlock_init (LkPmem k) s)"
  have sl: "set_pool k r (spinlock_init l s) = spinlock_init l (set_pool k r s)"
    "pool k (spinlock_init l s) = pool k s" "mem (spinlock_init l s) = mem s"
    "hart (spinlock_init l s) = hart s" "cpus (spinlock_init l s) = cpus s"
    "locks (spinlock_init l s) = (locks s)(l := \<lparr>locked = False, cpuid = -1\<rparr>)"
    "hart (set_pool k r s) = hart s" "cpus (set_pool k r s) = cpus s"
    "locks (set_pool k r s) = locks s" for k r l and s :: "'a mem_state_scheme"
    by (simp_all add: spinlock_init_def set_lock_def set_pool_def pool_def)
  have eq: "init_pool k a e s = for_pages a e (\<lambda>addr s. Inr (push_page k addr s)) ?s0"
    by (simp add: init_pool_def Let_def sl)
  have "\<exists>t. for_pages a e (\<lambda>addr s. Inr (push_page k addr s)) ?s0 = Inr t \<and>
    pool_ok k t (rev (page_seq a n) @ []) \<and> hart t = hart ?s0 \<and> cpus t = cpus ?s0 \<and>
    locks t = locks ?s0 \<and> pool (\<not> k) t = pool (\<not> k) ?s0 \<and>
    ar_begin (pool k t) = ar_begin (pool k ?s0) \<and> ar_end (pool k t) = e \<and>
    (\<forall>x. pg x < pg a \<or> pg e \<le> pg x \<longrightarrow> mem t x = mem ?s0 x)"
    by (rule init_loop) (use assms in \<open>simp_all add: pool_ok_def sl\<close>)
  then show ?thesis by (simp add: eq sl)
qed

lemma init_pool_other:
  assumes t: "\<And>x. pg x < pg a \<or> pg e \<le> pg x \<Longrightarrow> mem t x = mem s x"
    and "pool k t = pool k s" and ok: "pool_ok k s ps" and below: "\<And>p. p \<in> set ps \<Longrightarrow> p < a"
    and "page_aligned a"
  shows "pool_ok k t ps"
proof -
  have al: "page_aligned p" if "p \<in> set ps" for p
    using ok that by (auto simp: pool_ok_def in_region_def)
  have "Flist (mem t) h ps = Flist (mem s) h ps" for h
  proof (rule Flist_other_pages)
    fix p x assume p: "p \<in> set ps" and x: "pg x = pg p"
    have "p \<le> a" "pg p \<noteq> pg a" using below[OF p] pg_eq_aligned[OF al[OF p] assms(5)] by auto
    then have "unat p div 4096 \<le> unat a div 4096" "pg p \<noteq> pg a"
      by (simp_all add: word_le_nat_alt div_le_mono)
    then have "pg p < pg a" by (simp add: word_less_nat_alt unat_pg word_unat_eq_iff)
    then show "mem t x = mem s x" using t x by simp
  qed (rule al)
  then show ?thesis using ok assms(2) by (simp add: pool_ok_def)
qed

text \<open>
  Boot: from page-aligned bounds that leave more than the kernel's 1024 pages, both pools
  come out with every page of their range free, highest address first.
\<close>

lemma pmem_init_ok:
  assumes "page_aligned b" and "b \<noteq> 0" and "unat e = unat b + 4096 * (1024 + n)"
    and "cpu_ok s"
  shows "\<exists>t. pmem_init b e s = Inr t \<and>
    pmem_ok t (\<lambda>k. if k then rev (page_seq b 1024) else rev (page_seq (b + 1024 * 4096) n)) \<and>
    ar_begin (kernel_pool t) = b \<and> ar_end (kernel_pool t) = b + 1024 * 4096 \<and>
    ar_begin (user_pool t) = b + 1024 * 4096 \<and> ar_end (user_pool t) = e"
proof -
  let ?m = "b + 1024 * 4096"
  have "unat e < 2 ^ 64" using unsigned_less[of e] by simp
  then have um: "unat ?m = unat b + 4096 * 1024" using assms(3) by (simp add: unat_word_ariths)
  have ue: "unat e = unat ?m + 4096 * n" using um assms(3) by simp
  have alm: "page_aligned ?m" by (rule page_aligned_add[OF assms(1)]) (simp add: page_aligned_def)
  obtain j where "unat ?m = 4096 * j" using alm by (rule page_alignedE)
  then have "unat e = 4096 * (j + n)" using ue by simp
  then have ale: "page_aligned e" by (simp add: page_aligned_unat)
  have le: "\<not> e < ?m" "?m \<noteq> 0" "b < ?m"
    using ue um by (auto simp: word_less_nat_alt unat_gt_0[symmetric])
  from init_pool_ok[OF assms(1,2) um, of True s] obtain u where u:
    "init_pool True b ?m s = Inr u" "pool_ok True u (rev (page_seq b 1024))"
    "hart u = hart s" "cpus u = cpus s"
    "locks u = (locks s)(LkPmem True := \<lparr>locked = False, cpuid = -1\<rparr>)"
    "ar_begin (pool True u) = b" "ar_end (pool True u) = ?m" by blast
  from init_pool_ok[OF alm le(2) ue, of False u] obtain t where t:
    "init_pool False ?m e u = Inr t" "pool_ok False t (rev (page_seq ?m n))"
    "hart t = hart u" "cpus t = cpus u"
    "locks t = (locks u)(LkPmem False := \<lparr>locked = False, cpuid = -1\<rparr>)"
    "pool True t = pool True u" "ar_begin (pool False t) = ?m" "ar_end (pool False t) = e"
    "\<And>x. pg x < pg ?m \<or> pg e \<le> pg x \<Longrightarrow> mem t x = mem u x" by auto
  have below: "p < ?m" if "p \<in> set (rev (page_seq b 1024))" for p
    using u(2,7) that by (auto simp: pool_ok_def in_region_def)
  have above: "?m \<le> p" if "p \<in> set (rev (page_seq ?m n))" for p
    using t(2,7) that by (auto simp: pool_ok_def in_region_def)
  have ktrue: "pool_ok True t (rev (page_seq b 1024))"
    by (rule init_pool_other[where a = ?m and e = e and s = u]) (use t u alm below in auto)
  have "cpu_ok t" using assms(4) t u by (simp add: cpu_ok_def cpu_defs)
  moreover have "free_lock (LkPmem k) t" for k using t(5) u(5) by (cases k) (simp_all add: free_lock_def)
  moreover have "set (rev (page_seq b 1024)) \<inter> set (rev (page_seq ?m n)) = {}"
    using below above by (meson disjoint_iff not_le)
  moreover have "ar_end (kernel_pool t) \<le> ar_begin (user_pool t)"
    using t(6,7) u(7) by (simp add: pool_def)
  ultimately have "pmem_ok t
      (\<lambda>k. if k then rev (page_seq b 1024) else rev (page_seq ?m n))"
    using ktrue t(2) by (simp add: pmem_ok_def all_bool_eq)
  moreover have "pmem_init b e s = Inr t"
    using assms(1) ale le u(1) t(1) by (simp add: pmem_init_def Let_def page_aligned_def)
  ultimately show ?thesis using t u by (intro exI[of _ t]) (simp add: pool_def)
qed

section \<open>The pools as allocators\<close>

text \<open>\<open>pmem_rep k s A\<close>: the state is consistent and \<open>A\<close> is the set of free pages of pool \<open>k\<close>.\<close>

definition pmem_rep :: "bool \<Rightarrow> 'a mem_state_scheme \<Rightarrow> u64 set \<Rightarrow> bool" where
  "pmem_rep k s A \<longleftrightarrow> (\<exists>F. pmem_ok s F \<and> set (F k) = A)"

definition pool_univ :: "bool \<Rightarrow> 'a mem_state_scheme \<Rightarrow> u64 set" where
  "pool_univ k s = {p. in_region (pool k s) p}"

lemma region_disjoint:
  "pmem_ok s F \<Longrightarrow> in_region (pool k s) p \<Longrightarrow> p \<notin> set (F (\<not> k))"
  using pmem_okD(5)[of s F p "\<not> k"] by (cases k) (auto simp: pmem_ok_def in_region_def pool_def)

lemma in_region_popped [simp]: "in_region (pool j (popped k s)) p = in_region (pool j s) p"
  by (simp add: popped_def in_region_def)

lemma pmem_allocator: "allocator (pmem_alloc k) (\<lambda>p. pmem_free p k) (pmem_rep k) (pool_univ k)"
proof
  fix s :: "'a mem_state_scheme" and A
  assume "pmem_rep k s A"
  then obtain F where F: "pmem_ok s F" "set (F k) = A" by (auto simp: pmem_rep_def)
  show "finite A" using F by blast
  show "A \<subseteq> pool_univ k s" using F pmem_okD(5)[OF F(1)] by (auto simp: pool_univ_def)
  show "\<exists>r t. pmem_alloc k s = Inr (r, t) \<and> r \<in> A \<and> pmem_rep k t (A - {r}) \<and>
      pool_univ k t = pool_univ k s" if ne: "A \<noteq> {}"
  proof -
    obtain p ps where ps: "F k = p # ps" using ne F(2) by (cases "F k") auto
    have "p \<notin> set ps" using pmem_okD(6)[OF F(1), of k] ps by simp
    then have "set ((F(k := ps)) k) = A - {p}" using ps F(2) by auto
    then show ?thesis using pmem_alloc_eq[OF F(1) ps] pmem_alloc_ok[OF F(1) ps] ps F(2)
      by (auto simp: pmem_rep_def pool_univ_def simp del: stale_mem_update)
  qed
  show "\<exists>t. pmem_free r k s = Inr t \<and> pmem_rep k t (insert r A) \<and> pool_univ k t = pool_univ k s"
    if r: "r \<in> pool_univ k s - A" for r
  proof -
    have reg: "in_region (pool k s) r" using r by (simp add: pool_univ_def)
    have "r \<notin> set (F k)" "r \<notin> set (F (\<not> k))" using r F region_disjoint[OF F(1) reg] by auto
    then have "r \<notin> set (F True)" "r \<notin> set (F False)" by (cases k; simp)+
    from pmem_free_ok[OF F(1) reg this] have "pmem_rep k (stale_origin (push_page k r s)) (insert r A)"
      unfolding pmem_rep_def using F(2) by (intro exI[of _ "F(k := r # F k)"]) simp
    then show ?thesis using pmem_free_eq[OF F(1) reg] by (simp add: pool_univ_def in_region_def)
  qed
next
  fix s :: "'a mem_state_scheme"
  assume "pmem_rep k s {}"
  then show "\<exists>e. pmem_alloc k s = Inl e" using pmem_alloc_empty[of s _ k] by (auto simp: pmem_rep_def)
qed

interpretation kpages: allocator "pmem_alloc True" "\<lambda>p. pmem_free p True" "pmem_rep True" "pool_univ True"
  by (rule pmem_allocator)

interpretation upages: allocator "pmem_alloc False" "\<lambda>p. pmem_free p False" "pmem_rep False" "pool_univ False"
  by (rule pmem_allocator)

end
