(* ===== verification/Kvm.thy ===== *)
theory Kvm
  imports Pmem
begin

text \<open>
  Sv39 page tables (\<open>mem/kvm.c\<close>, and the macros of \<open>mem/type.h\<close>): the walk that finds or
  creates a page-table entry, mapping and unmapping of ranges, and the kernel's own map.
  The tables are pages of physical memory. \<open>tbl m r path\<close> is the table page at the end of a
  path of indices from the root \<open>r\<close>; \<open>vlookup m r va\<close> is the valid leaf entry for \<open>va\<close>.
\<close>

section \<open>Constants and macros\<close>

abbreviation (input) PTE_V :: "'a::len word" where "PTE_V \<equiv> 1"
abbreviation (input) PTE_R :: "'a::len word" where "PTE_R \<equiv> 2"
abbreviation (input) PTE_W :: "'a::len word" where "PTE_W \<equiv> 4"
abbreviation (input) PTE_X :: "'a::len word" where "PTE_X \<equiv> 8"
abbreviation (input) PTE_U :: "'a::len word" where "PTE_U \<equiv> 16"

definition VA_TO_VPN :: "u64 \<Rightarrow> nat \<Rightarrow> u64" where
  "VA_TO_VPN va level = drop_bit (12 + 9 * level) va AND 0x1FF"

definition PA_TO_PTE :: "u64 \<Rightarrow> u64" where
  "PA_TO_PTE pa = push_bit 10 (drop_bit 12 pa)"

definition PTE_TO_PA :: "u64 \<Rightarrow> u64" where
  "PTE_TO_PA pte = push_bit 12 (drop_bit 10 pte)"

definition PTE_CHECK :: "u64 \<Rightarrow> bool" where
  "PTE_CHECK pte \<longleftrightarrow> pte AND (PTE_R OR PTE_W OR PTE_X) = 0"

definition PTE_FLAGS :: "u64 \<Rightarrow> u64" where
  "PTE_FLAGS pte = pte AND 0x3FF"

definition MAKE_SATP :: "u64 \<Rightarrow> u64" where
  "MAKE_SATP pagetable = push_bit 60 8 OR drop_bit 12 pagetable"

abbreviation (input) VA_MAX :: u64 where "VA_MAX \<equiv> 0x4000000000"
abbreviation (input) TRAMPOLINE :: u64 where "TRAMPOLINE \<equiv> 0x3FFFFFF000"
abbreviation (input) TRAPFRAME :: u64 where "TRAPFRAME \<equiv> 0x3FFFFFE000"
abbreviation (input) USER_BASE :: u64 where "USER_BASE \<equiv> PGSIZE"

definition KSTACK :: "nat \<Rightarrow> u64" where
  "KSTACK procid = TRAPFRAME - (of_nat procid + 1) * 2 * PGSIZE"

abbreviation (input) N_PROC :: nat where "N_PROC \<equiv> 32"

abbreviation (input) UART_BASE :: u64 where "UART_BASE \<equiv> 0x10000000"
abbreviation (input) VIRTIO_BASE :: u64 where "VIRTIO_BASE \<equiv> 0x10001000"
abbreviation (input) CLINT_BASE :: u64 where "CLINT_BASE \<equiv> 0x2000000"
abbreviation (input) PLIC_BASE :: u64 where "PLIC_BASE \<equiv> 0x0c000000"
abbreviation (input) KERNEL_BASE :: u64 where "KERNEL_BASE \<equiv> 0x80000000"

section \<open>State and operations\<close>

record vm_state = mem_state +
  kern_pagetable :: u64

text \<open>\<open>&table[idx]\<close>, and \<open>*entry\<close> for an entry of the current memory.\<close>

definition entry_addr :: "u64 \<Rightarrow> u64 \<Rightarrow> u64" where
  "entry_addr table idx = table + 8 * idx"

text \<open>The loop of \<open>vm_getpte\<close> for \<open>level = 2, 1\<close>, and its final \<open>&table[VPN 0]\<close>; \<open>0\<close> is NULL.\<close>

fun getpte_loop :: "nat \<Rightarrow> u64 \<Rightarrow> u64 \<Rightarrow> bool \<Rightarrow> 'a vm_state_scheme \<Rightarrow>
    (u64 \<times> 'a vm_state_scheme) res" where
  "getpte_loop 0 table va al s = Inr (entry_addr table (VA_TO_VPN va 0), s)"
| "getpte_loop (Suc l) table va al s =
     (let entry = entry_addr table (VA_TO_VPN va (Suc l)) in
      if load64 (mem s) entry AND PTE_V = 0 then
        if \<not> al then Inr (0, s)
        else bnd (pmem_alloc True s) (\<lambda>(new_table, s).
          if new_table = 0 then Inr (0, s)
          else
            let s = s\<lparr>mem := store64 (mem s) entry (PA_TO_PTE new_table OR PTE_V)\<rparr>
            in getpte_loop l (PTE_TO_PA (load64 (mem s) entry)) va al s)
      else if \<not> PTE_CHECK (load64 (mem s) entry) then Inr (0, s)
      else getpte_loop l (PTE_TO_PA (load64 (mem s) entry)) va al s)"

definition vm_getpte :: "u64 \<Rightarrow> u64 \<Rightarrow> bool \<Rightarrow> 'a vm_state_scheme \<Rightarrow>
    (u64 \<times> 'a vm_state_scheme) res" where
  "vm_getpte table va al s =
     (let table = (if table = 0 then kern_pagetable s else table) in
      if va \<ge> VA_MAX then Inr (0, s) else getpte_loop 2 table va al s)"

text \<open>One round of the loop of \<open>vm_mappages\<close>; both branches of its test write the same entry.\<close>

definition map_one :: "u64 \<Rightarrow> u64 \<Rightarrow> u64 \<Rightarrow> u32 \<Rightarrow> 'a vm_state_scheme \<Rightarrow> 'a vm_state_scheme res" where
  "map_one table v p perm s =
     bnd (vm_getpte table v True s) (\<lambda>(entry, s).
     if entry = 0 then Inl (Panic ''vm_mappages: failed to get pte'')
     else Inr (s\<lparr>mem := store64 (mem s) entry (PA_TO_PTE p OR scast perm OR PTE_V)\<rparr>))"

function map_loop :: "u64 \<Rightarrow> u64 \<Rightarrow> u64 \<Rightarrow> u64 \<Rightarrow> u64 \<Rightarrow> u32 \<Rightarrow> 'a vm_state_scheme \<Rightarrow>
    'a vm_state_scheme res" where
  "map_loop table start last_page v p perm s =
     bnd (map_one table v p perm s) (\<lambda>s.
     if v = last_page then Inr s
     else if v + PGSIZE < start then Inr s
     else if v + PGSIZE < v then Inl Hang
     else map_loop table start last_page (v + PGSIZE) (p + PGSIZE) perm s)"
  by pat_completeness auto
termination
proof (relation "measure (\<lambda>(table, start, last_page, v, p, perm, s). 2 ^ 64 - unat v)")
  fix v :: u64
  assume nw: "\<not> v + PGSIZE < v"
  then have "v < v + 4096" by (simp add: not_less order.strict_iff_order)
  then have "unat v < unat (v + 4096)" by (simp add: word_less_nat_alt)
  moreover have "unat (v + 4096) < 2 ^ 64" using unsigned_less[of "v + 4096"] by simp
  ultimately show "((table, start, last_page, v + PGSIZE, p + PGSIZE, perm, x),
      table, start, last_page, v, p, perm, s)
    \<in> measure (\<lambda>(table, start, last_page, v, p, perm, s). 2 ^ 64 - unat v)"
    for table start last_page p :: u64 and perm :: u32 and x s :: "'a vm_state_scheme"
    by simp
qed simp

declare map_loop.simps [simp del]

definition vm_mappages :: "u64 \<Rightarrow> u64 \<Rightarrow> u64 \<Rightarrow> u64 \<Rightarrow> u32 \<Rightarrow> 'a vm_state_scheme \<Rightarrow>
    'a vm_state_scheme res" where
  "vm_mappages table va pa len perm s =
     (if va mod PGSIZE \<noteq> 0 then Inl (Panic ''vm_mappages: virt_addr not aligned'')
      else if pa mod PGSIZE \<noteq> 0 then Inl (Panic ''vm_mappages: phys_addr not aligned'')
      else if len = 0 then Inl (Panic ''vm_mappages: zero length'')
      else
        let last_addr = va + len - 1 in
        if last_addr \<ge> VA_MAX then Inl (Panic ''vm_mappages: address overflow'')
        else map_loop table va (last_addr - last_addr mod PGSIZE) va pa perm s)"

definition unmap_one :: "u64 \<Rightarrow> bool \<Rightarrow> u64 \<Rightarrow> 'a vm_state_scheme \<Rightarrow> 'a vm_state_scheme res" where
  "unmap_one table do_free va s =
     bnd (vm_getpte table va False s) (\<lambda>(entry, s).
     if entry = 0 \<or> load64 (mem s) entry AND PTE_V = 0 then Inr s
     else
       let pa = PTE_TO_PA (load64 (mem s) entry) in
       bnd (if do_free \<and> pa \<noteq> 0 then pmem_free pa False s else Inr s) (\<lambda>s.
       Inr (s\<lparr>mem := store64 (mem s) entry 0\<rparr>)))"

definition vm_unmappages :: "u64 \<Rightarrow> u64 \<Rightarrow> u64 \<Rightarrow> bool \<Rightarrow> 'a vm_state_scheme \<Rightarrow>
    'a vm_state_scheme res" where
  "vm_unmappages table va len do_free s =
     (if va mod PGSIZE \<noteq> 0 then Inl (Panic ''vm_unmappages: unaligned addr'')
      else if len = 0 then Inl (Panic ''vm_unmappages: zero length'')
      else for_pages va (va + len) (unmap_one table do_free) s)"

text \<open>
  The kernel map. \<open>kernel_data\<close>, \<open>alloc_begin\<close>, \<open>alloc_end\<close> and \<open>trampoline\<close> are addresses the
  linker chooses.
\<close>

definition map_kstack :: "nat \<Rightarrow> 'a vm_state_scheme \<Rightarrow> 'a vm_state_scheme res" where
  "map_kstack i s =
     bnd (pmem_alloc False s) (\<lambda>(stack_p1, s).
     bnd (kassert (stack_p1 \<noteq> 0) ''kvm_init: alloc kstack page 1 failed'' s) (\<lambda>s.
     bnd (pmem_alloc False s) (\<lambda>(stack_p2, s).
     bnd (kassert (stack_p2 \<noteq> 0) ''kvm_init: alloc kstack page 2 failed'' s) (\<lambda>s.
     let base = KSTACK i in
     bnd (vm_mappages (kern_pagetable s) base stack_p1 PGSIZE (PTE_R OR PTE_W) s) (\<lambda>s.
     vm_mappages (kern_pagetable s) (base + PGSIZE) stack_p2 PGSIZE (PTE_R OR PTE_W) s)))))"

definition kvm_init :: "u64 \<Rightarrow> u64 \<Rightarrow> u64 \<Rightarrow> u64 \<Rightarrow> 'a vm_state_scheme \<Rightarrow> 'a vm_state_scheme res" where
  "kvm_init kernel_data alloc_begin alloc_end trampoline s =
     bnd (pmem_alloc True s) (\<lambda>(kpt, s).
     let s = s\<lparr>kern_pagetable := kpt\<rparr> in
     bnd (kassert (kpt \<noteq> 0) ''kvm_init: alloc failed'' s) (\<lambda>s.
     bnd (vm_mappages kpt UART_BASE UART_BASE PGSIZE (PTE_R OR PTE_W) s) (\<lambda>s.
     bnd (vm_mappages kpt CLINT_BASE CLINT_BASE 0x10000 (PTE_R OR PTE_W) s) (\<lambda>s.
     bnd (vm_mappages kpt PLIC_BASE PLIC_BASE 0x400000 (PTE_R OR PTE_W) s) (\<lambda>s.
     bnd (vm_mappages kpt VIRTIO_BASE VIRTIO_BASE PGSIZE (PTE_R OR PTE_W) s) (\<lambda>s.
     bnd (vm_mappages kpt KERNEL_BASE KERNEL_BASE (kernel_data - KERNEL_BASE)
            (PTE_R OR PTE_X) s) (\<lambda>s.
     bnd (vm_mappages kpt kernel_data kernel_data (alloc_begin - kernel_data)
            (PTE_R OR PTE_W) s) (\<lambda>s.
     bnd (vm_mappages kpt alloc_begin alloc_begin (alloc_end - alloc_begin)
            (PTE_R OR PTE_W) s) (\<lambda>s.
     bnd (vm_mappages kpt TRAMPOLINE trampoline PGSIZE (PTE_R OR PTE_X) s) (\<lambda>s.
     for_each [0..<N_PROC] map_kstack s))))))))))"

section \<open>The tree of table pages\<close>

definition pte :: "pmem \<Rightarrow> u64 \<Rightarrow> nat \<Rightarrow> u64" where
  "pte m t i = load64 m (t + 8 * of_nat i)"

definition child :: "pmem \<Rightarrow> u64 \<Rightarrow> nat \<Rightarrow> u64 option" where
  "child m t i = (let e = pte m t i in
     if e AND PTE_V \<noteq> 0 \<and> PTE_CHECK e then Some (PTE_TO_PA e) else None)"

fun tbl :: "pmem \<Rightarrow> u64 \<Rightarrow> nat list \<Rightarrow> u64 option" where
  "tbl m r [] = Some r"
| "tbl m r (i # is) = (case child m r i of None \<Rightarrow> None | Some t \<Rightarrow> tbl m t is)"

text \<open>The index of \<open>va\<close> in the table of a level, and the path to its level-0 table.\<close>

definition vpn :: "u64 \<Rightarrow> nat \<Rightarrow> nat" where
  "vpn va l = unat (VA_TO_VPN va l)"

definition va_path :: "u64 \<Rightarrow> nat list" where
  "va_path va = [vpn va 2, vpn va 1]"

definition vlookup :: "pmem \<Rightarrow> u64 \<Rightarrow> u64 \<Rightarrow> u64 option" where
  "vlookup m r va =
     (case tbl m r (va_path va) of
        None \<Rightarrow> None
      | Some t \<Rightarrow> let e = pte m t (vpn va 0) in if e AND PTE_V = 0 then None else Some e)"

definition good_path :: "nat list \<Rightarrow> bool" where
  "good_path p \<longleftrightarrow> length p \<le> 2 \<and> (\<forall>i\<in>set p. i < 512)"

definition tables :: "pmem \<Rightarrow> u64 \<Rightarrow> u64 set" where
  "tables m r = {t. \<exists>p. good_path p \<and> tbl m r p = Some t}"

text \<open>
  A well-formed tree: aligned non-null pages, no page at two places, and no leaf entry in an
  intermediate table.
\<close>

definition pt_ok :: "pmem \<Rightarrow> u64 \<Rightarrow> bool" where
  "pt_ok m r \<longleftrightarrow> page_aligned r \<and> (\<forall>t\<in>tables m r. t \<noteq> 0) \<and>
     (\<forall>p q t. good_path p \<longrightarrow> good_path q \<longrightarrow> tbl m r p = Some t \<longrightarrow> tbl m r q = Some t \<longrightarrow> p = q) \<and>
     (\<forall>p i t. good_path (p @ [i]) \<longrightarrow> tbl m r p = Some t \<longrightarrow>
        pte m t i AND PTE_V \<noteq> 0 \<longrightarrow> PTE_CHECK (pte m t i))"

lemma vpn_less [simp]: "vpn va l < 512"
proof -
  have "VA_TO_VPN va l \<le> 0x1FF" unfolding VA_TO_VPN_def by (rule word_and_le1)
  then have "unat (VA_TO_VPN va l) \<le> unat (0x1FF :: u64)" by (simp only: word_le_nat_alt)
  then show ?thesis by (simp add: vpn_def)
qed

lemma good_va_path [simp]: "good_path (va_path va)" "good_path [vpn va l]" "good_path []"
  by (simp_all add: good_path_def va_path_def)

lemma of_nat_vpn [simp]: "of_nat (vpn va l) = VA_TO_VPN va l"
  by (simp add: vpn_def)

lemma entry_addr_pte: "load64 m (entry_addr t (VA_TO_VPN va l)) = pte m t (vpn va l)"
  by (simp add: entry_addr_def pte_def)

lemma pte_entry_store [simp]: "pte (store64 m (entry_addr t (VA_TO_VPN va l)) v) t (vpn va l) = v"
  by (simp add: pte_def entry_addr_def)

lemma page_aligned_take_bit: "page_aligned a \<longleftrightarrow> take_bit 12 a = 0"
  by (simp add: page_aligned_def take_bit_eq_mod)

lemma page_aligned_bit: "page_aligned a \<Longrightarrow> n < 12 \<Longrightarrow> \<not> bit a n"
  unfolding page_aligned_take_bit by (metis bit_take_bit_iff bit_0_eq zero_word_def bot_apply bot_bool_def)

lemma PTE_TO_PA_aligned [simp]: "page_aligned (PTE_TO_PA e)"
  unfolding page_aligned_take_bit PTE_TO_PA_def by (simp add: take_bit_push_bit)

lemma push_drop_aligned: "page_aligned a \<Longrightarrow> push_bit 12 (drop_bit 12 a) = a"
  using bits_ident[of 12 a] by (simp add: page_aligned_take_bit)

lemma drop_PA_TO_PTE: "drop_bit 10 (PA_TO_PTE a) = drop_bit 12 a"
  unfolding PA_TO_PTE_def by (rule bit_word_eqI) (auto simp: bit_simps dest: bit_imp_le_length)

lemma PTE_TO_PA_TO_PTE:
  assumes "page_aligned a" and "drop_bit 10 f = 0"
  shows "PTE_TO_PA (PA_TO_PTE a OR f) = a"
  using push_drop_aligned[OF assms(1)] assms(2)
  by (simp add: PTE_TO_PA_def drop_PA_TO_PTE)

lemma PA_TO_PTE_low: "n < 10 \<Longrightarrow> \<not> bit (PA_TO_PTE a) n"
  by (simp add: PA_TO_PTE_def bit_simps)

lemma PA_TO_PTE_flags: "(PA_TO_PTE a OR f) AND g = f AND g" if "drop_bit 10 g = 0"
proof (rule bit_word_eqI)
  fix n assume "n < LENGTH(64)"
  have "\<not> bit g (10 + k)" for k using that by (metis bit_drop_bit_eq comp_apply bit_0_eq bot_apply bot_bool_def)
  then have "\<not> bit g n" if "10 \<le> n" using that by (metis le_add_diff_inverse)
  then show "bit ((PA_TO_PTE a OR f) AND g) n = bit (f AND g) n"
    using PA_TO_PTE_low[of n a] by (cases "n < 10") (auto simp: bit_simps)
qed

text \<open>The entry that links a new table: valid, and no leaf.\<close>

lemma table_entry:
  assumes "page_aligned a"
  shows "PTE_TO_PA (PA_TO_PTE a OR PTE_V) = a" "(PA_TO_PTE a OR PTE_V) AND PTE_V \<noteq> 0"
    "PTE_CHECK (PA_TO_PTE a OR PTE_V)"
  using PTE_TO_PA_TO_PTE[OF assms, of 1] PA_TO_PTE_flags[of 1 a 1] PA_TO_PTE_flags[of 14 a 1]
  by (simp_all add: PTE_CHECK_def)

section \<open>The tree under memory writes\<close>

lemma tbl_snoc: "tbl m r (p @ [i]) = (case tbl m r p of None \<Rightarrow> None | Some t \<Rightarrow> child m t i)"
  by (induction p arbitrary: r) (auto split: option.splits)

lemma good_snoc: "good_path (p @ [i]) \<Longrightarrow> good_path p \<and> i < 512 \<and> length p < 2"
  by (auto simp: good_path_def)

lemma tbl_aligned: "page_aligned r \<Longrightarrow> tbl m r p = Some t \<Longrightarrow> page_aligned t"
  by (cases p rule: rev_cases) (auto simp: tbl_snoc child_def Let_def split: option.splits if_splits)

lemma pte_page_cong:
  "page_aligned t \<Longrightarrow> i < 512 \<Longrightarrow> (\<And>x. pg x = pg t \<Longrightarrow> m x = m' x) \<Longrightarrow> pte m t i = pte m' t i"
  unfolding pte_def by (rule load64_page_cong) (simp_all add: entry_mod8)

lemma pte_store:
  assumes "page_aligned t" "i < 512" "page_aligned u" "j < 512"
  shows "pte (store64 m (t + 8 * of_nat i) v) u j = (if t = u \<and> i = j then v else pte m u j)"
proof (cases "t + 8 * of_nat i = u + 8 * of_nat j")
  case True
  have "pg t = pg u" using arg_cong[OF True, of pg]
    by (simp only: entry_mod8(2)[OF assms(1,2)] entry_mod8(2)[OF assms(3,4)])
  then have "t = u" using pg_eq_aligned[OF assms(1,3)] by blast
  moreover have "unat t + 8 * i = unat u + 8 * j" using arg_cong[OF True, of unat]
    by (simp only: entry_mod8(3)[OF assms(1,2)] entry_mod8(3)[OF assms(3,4)])
  ultimately have "t = u" "i = j" by simp_all
  then show ?thesis unfolding pte_def by (simp only: load64_store64) simp
next
  case False
  have "pte (store64 m (t + 8 * of_nat i) v) u j = pte m u j"
    unfolding pte_def
    by (rule load64_store64_other[OF entry_mod8(1)[OF assms(1,2)] entry_mod8(1)[OF assms(3,4)] False])
  then show ?thesis using False by auto
qed

text \<open>A path sees the memory only through the entries of the tables at its proper prefixes.\<close>

lemma tbl_cong:
  assumes "\<And>p i t. \<lbrakk>length (p @ [i]) \<le> length q; take (length p + 1) q = p @ [i]; tbl m r p = Some t\<rbrakk>
    \<Longrightarrow> pte m' t i = pte m t i"
  shows "tbl m' r q = tbl m r q"
  using assms
proof (induction q rule: rev_induct)
  case (snoc j q)
  have "tbl m' r q = tbl m r q"
  proof (rule snoc.IH)
    fix p i t
    assume "length (p @ [i]) \<le> length q" "take (length p + 1) q = p @ [i]" "tbl m r p = Some t"
    then show "pte m' t i = pte m t i" using snoc.prems[of p i t] by simp
  qed
  moreover have "child m' t j = child m t j" if "tbl m r q = Some t" for t
    using snoc.prems[of q j t] that by (simp add: child_def)
  ultimately show ?case by (auto simp: tbl_snoc split: option.splits)
qed simp

lemma tablesI: "good_path p \<Longrightarrow> tbl m r p = Some t \<Longrightarrow> t \<in> tables m r"
  by (auto simp: tables_def)

lemma pt_okD:
  assumes "pt_ok m r"
  shows "page_aligned r" "t \<in> tables m r \<Longrightarrow> t \<noteq> 0"
    "good_path p \<Longrightarrow> good_path q \<Longrightarrow> tbl m r p = Some t \<Longrightarrow> tbl m r q = Some t \<Longrightarrow> p = q"
    "good_path (p @ [i]) \<Longrightarrow> tbl m r p = Some t \<Longrightarrow> pte m t i AND PTE_V \<noteq> 0 \<Longrightarrow> PTE_CHECK (pte m t i)"
    "t \<in> tables m r \<Longrightarrow> page_aligned t"
  using assms by (auto simp: pt_ok_def tables_def intro: tbl_aligned)

lemma pt_okI:
  assumes "page_aligned r" and "\<And>t. t \<in> tables m r \<Longrightarrow> t \<noteq> 0"
    and "\<And>p q t. good_path p \<Longrightarrow> good_path q \<Longrightarrow> tbl m r p = Some t \<Longrightarrow> tbl m r q = Some t \<Longrightarrow> p = q"
    and "\<And>p i t. good_path (p @ [i]) \<Longrightarrow> tbl m r p = Some t \<Longrightarrow> pte m t i AND PTE_V \<noteq> 0 \<Longrightarrow>
      PTE_CHECK (pte m t i)"
  shows "pt_ok m r"
  using assms by (simp add: pt_ok_def)

text \<open>Writes outside the table pages do not change the tree.\<close>

lemma tbl_outside:
  assumes "pt_ok m r" and "good_path q"
    and "\<And>t x. t \<in> tables m r \<Longrightarrow> pg x = pg t \<Longrightarrow> m' x = m x"
  shows "tbl m' r q = tbl m r q"
proof (rule tbl_cong)
  fix p i t
  assume q: "length (p @ [i]) \<le> length q" "take (length p + 1) q = p @ [i]" and t: "tbl m r p = Some t"
  have "set (p @ [i]) \<subseteq> set q" using q(2) by (metis set_take_subset)
  then have g: "good_path p" "i < 512" using assms(2) q(1) by (auto simp: good_path_def)
  with t have "t \<in> tables m r" by (blast intro: tablesI)
  then show "pte m' t i = pte m t i"
    by (intro pte_page_cong) (use pt_okD(5)[OF assms(1)] g(2) assms(3) in auto)
qed

lemma pt_outside:
  assumes ok: "pt_ok m r"
    and out: "\<And>t x. t \<in> tables m r \<Longrightarrow> pg x = pg t \<Longrightarrow> m' x = m x"
  shows "tables m' r = tables m r" "pt_ok m' r" "vlookup m' r va = vlookup m r va"
proof -
  note t = tbl_outside[OF ok _ out]
  have p: "pte m' t i = pte m t i" if "t \<in> tables m r" "i < 512" for t i
    by (rule pte_page_cong) (use pt_okD(5)[OF ok] that out in auto)
  show tb: "tables m' r = tables m r"
  proof -
    have "(good_path q \<and> tbl m' r q = Some u) = (good_path q \<and> tbl m r q = Some u)" for q u
      using t[of q] by auto
    then show ?thesis by (simp add: tables_def)
  qed
  have inj: "p = q" if "good_path p" "good_path q" "tbl m' r p = Some u" "tbl m' r q = Some u" for p q u
    using pt_okD(3)[OF ok that(1,2)] that t[OF that(1)] t[OF that(2)] by simp
  moreover have "PTE_CHECK (pte m' u i)"
    if "good_path (p @ [i])" "tbl m' r p = Some u" "pte m' u i AND PTE_V \<noteq> 0" for p i u
  proof -
    note g = good_snoc[OF that(1)]
    have u: "tbl m r p = Some u" using that(2) t[of p] g by simp
    then have "u \<in> tables m r" using g by (blast intro: tablesI)
    then have "pte m' u i = pte m u i" using p g by simp
    then show ?thesis using pt_okD(4)[OF ok that(1) u] that(3) by simp
  qed
  ultimately show "pt_ok m' r"
    using pt_okD(1,2)[OF ok] tb by (intro pt_okI) auto
  have "pte m' u (vpn va 0) = pte m u (vpn va 0)" if "tbl m r (va_path va) = Some u" for u
    using p[OF tablesI[OF good_va_path(1) that]] by simp
  then show "vlookup m' r va = vlookup m r va"
    by (auto simp: vlookup_def t split: option.splits)
qed

text \<open>Linking a fresh zeroed page \<open>n\<close> at an empty entry of an intermediate table.\<close>

lemma link_table:
  assumes ok: "pt_ok m r" and tp: "tbl m r p = Some t" and g: "good_path (p @ [i])"
    and inval: "pte m t i AND PTE_V = 0"
    and n: "page_aligned n" "n \<noteq> 0" "n \<notin> tables m r"
    and m0: "\<And>x. m0 x = (if pg x = pg n then 0 else m x)"
    and m': "m' = store64 m0 (t + 8 * of_nat i) (PA_TO_PTE n OR PTE_V)"
  shows "pt_ok m' r" "tables m' r = insert n (tables m r)" "tbl m' r (p @ [i]) = Some n"
    "vlookup m' r va = vlookup m r va"
proof -
  note gs = good_snoc[OF g]
  have tin: "t \<in> tables m r" using tp gs by (blast intro: tablesI)
  have tal: "page_aligned t" by (rule pt_okD(5)[OF ok tin])
  have tn: "t \<noteq> n" using tin n(3) by auto
  have p0: "pte m0 u j = (if u = n then 0 else pte m u j)" if "page_aligned u" "j < 512" for u j
  proof (cases "u = n")
    case True
    have "pte m0 n j = pte (\<lambda>_. 0) n j"
      by (rule pte_page_cong) (use True that m0 in auto)
    also have "\<dots> = 0" by (simp add: pte_def load64_def)
    finally show ?thesis using True by simp
  next
    case False
    then have "pg u \<noteq> pg n" using that(1) n(1) by (simp add: pg_eq_aligned)
    then show ?thesis using False that m0 by (auto intro!: pte_page_cong)
  qed
  have pm: "pte m' u j = (if u = t \<and> j = i then PA_TO_PTE n OR PTE_V else if u = n then 0 else pte m u j)"
    if "page_aligned u" "j < 512" for u j
    using p0[OF that] pte_store[OF tal _ that, of i] gs tn by (auto simp: m')
  have tb: "tbl m' r q = (if q = p @ [i] then Some n else tbl m r q)" if "good_path q" for q
    using that
  proof (induction q rule: rev_induct)
    case (snoc j q0)
    note gq = good_snoc[OF snoc.prems]
    have IH: "tbl m' r q0 = (if q0 = p @ [i] then Some n else tbl m r q0)" using snoc.IH gq by blast
    have tpi: "tbl m r (p @ [i]) = None" using tp inval by (simp add: tbl_snoc child_def)
    show ?case
    proof (cases "q0 = p @ [i]")
      case True
      have "tbl m' r (q0 @ [j]) = child m' n j" unfolding tbl_snoc IH using True by simp
      moreover have "child m' n j = None" using pm[OF n(1), of j] gq tn by (simp add: child_def)
      moreover have "tbl m r (q0 @ [j]) = None" using tbl_snoc[of m r q0 j] True tpi by simp
      moreover have "q0 @ [j] \<noteq> p @ [i]" using True by simp
      ultimately show ?thesis by simp
    next
      case False
      note ne = this
      show ?thesis
      proof (cases "tbl m r q0")
        case None
        then show ?thesis using IH ne tp by (auto simp: tbl_snoc)
      next
        case (Some u)
        have uin: "u \<in> tables m r" using Some gq by (blast intro: tablesI)
        then have un: "u \<noteq> n" using n(3) by auto
        have eq: "u = t \<longleftrightarrow> q0 = p" using pt_okD(3)[OF ok _ _ Some, of p] tp gq gs Some by auto
        have pj: "pte m' u j = (if u = t \<and> j = i then PA_TO_PTE n OR PTE_V else pte m u j)"
          using pm[OF pt_okD(5)[OF ok uin], of j] gq un by simp
        then show ?thesis using IH ne Some eq table_entry[OF n(1)]
          by (auto simp: tbl_snoc child_def)
      qed
    qed
  qed simp
  have gi: "good_path (p @ [i])" by (rule g)
  show tbl_new: "tbl m' r (p @ [i]) = Some n" using tb[OF gi] by simp
  have tpi: "tbl m r (p @ [i]) = None" using tp inval by (simp add: tbl_snoc child_def)
  show tbs: "tables m' r = insert n (tables m r)"
    using tb gi tpi by (auto simp: tables_def split: if_splits) (metis option.distinct(1))
  have inj: "q = q'" if "good_path q" "good_path q'" "tbl m' r q = Some u" "tbl m' r q' = Some u" for q q' u
    using that tb[OF that(1)] tb[OF that(2)] n(3) pt_okD(3)[OF ok that(1,2)]
    by (auto simp: tables_def split: if_splits)
  have chk: "PTE_CHECK (pte m' u j)"
    if q: "good_path (q @ [j])" "tbl m' r q = Some u" and v: "pte m' u j AND PTE_V \<noteq> 0" for q j u
  proof (cases "q = p @ [i]")
    case True
    then have "u = n" using q(2) tbl_new by simp
    then show ?thesis using v pm[OF n(1), of j] good_snoc[OF q(1)] tn by simp
  next
    case False
    then have u: "tbl m r q = Some u" using q tb[of q] good_snoc[OF q(1)] by simp
    then have uin: "u \<in> tables m r" using good_snoc[OF q(1)] by (blast intro: tablesI)
    then have pu: "pte m' u j = (if u = t \<and> j = i then PA_TO_PTE n OR PTE_V else pte m u j)"
      using pm[OF pt_okD(5)[OF ok uin], of j] good_snoc[OF q(1)] n(3) by auto
    then show ?thesis using table_entry[OF n(1)] pt_okD(4)[OF ok q(1) u] v by (auto split: if_splits)
  qed
  show "pt_ok m' r"
    by (rule pt_okI[OF pt_okD(1)[OF ok] _ inj chk]) (use pt_okD(2)[OF ok] n(2) tbs in auto)
  show "vlookup m' r va = vlookup m r va"
  proof (cases "va_path va = p @ [i]")
    case True
    then have "tbl m' r (va_path va) = Some n" using tbl_new by simp
    moreover have "pte m' n (vpn va 0) = 0" using pm[OF n(1), of "vpn va 0"] tn by simp
    ultimately show ?thesis using True tpi by (simp add: vlookup_def)
  next
    case False
    then have "tbl m' r (va_path va) = tbl m r (va_path va)" using tb by simp
    moreover have "pte m' u (vpn va 0) = pte m u (vpn va 0)" if u: "tbl m r (va_path va) = Some u" for u
    proof -
      have uin: "u \<in> tables m r" using u by (rule tablesI[OF good_va_path(1)])
      have "u \<noteq> t"
      proof
        assume "u = t"
        then have "va_path va = p" using pt_okD(3)[OF ok good_va_path(1), of p va u] u tp gs by simp
        then show False using gs by (auto simp: va_path_def)
      qed
      then show ?thesis using pm[OF pt_okD(5)[OF ok uin], of "vpn va 0"] uin n(3) by auto
    qed
    ultimately show ?thesis by (auto simp: vlookup_def split: option.splits)
  qed
qed

text \<open>Writing an entry of a level-0 table.\<close>

lemma store_leaf:
  assumes ok: "pt_ok m r" and tp: "tbl m r p = Some t" and g: "good_path p" "length p = 2"
    and i: "i < 512" and m': "m' = store64 m (t + 8 * of_nat i) v"
  shows "pt_ok m' r" "tables m' r = tables m r" "tbl m' r p = Some t"
    "vlookup m' r va = (if va_path va = p \<and> vpn va 0 = i
       then (if v AND PTE_V = 0 then None else Some v) else vlookup m r va)"
proof -
  have tin: "t \<in> tables m r" using tp g(1) by (rule tablesI[rotated])
  note tal = pt_okD(5)[OF ok tin]
  have pm: "pte m' u j = (if t = u \<and> i = j then v else pte m u j)" if "page_aligned u" "j < 512" for u j
    using pte_store[OF tal i that] by (simp add: m')
  have low: "pte m' u j = pte m u j"
    if q: "good_path (q @ [j])" "tbl m r q = Some u" for q j u
  proof -
    note gq = good_snoc[OF q(1)]
    have "u \<noteq> t" using pt_okD(3)[OF ok _ g(1) q(2)] gq tp g(2) by auto
    moreover have "page_aligned u" using q(2) gq by (intro pt_okD(5)[OF ok]) (blast intro: tablesI)
    ultimately show ?thesis using pm gq by simp
  qed
  have tb: "tbl m' r q = tbl m r q" if gq: "good_path q" for q
  proof (rule tbl_cong)
    fix q' j u
    assume a: "length (q' @ [j]) \<le> length q" "take (length q' + 1) q = q' @ [j]" "tbl m r q' = Some u"
    have "set (q' @ [j]) \<subseteq> set q" using a(2) by (metis set_take_subset)
    then have "good_path (q' @ [j])" using gq a(1) by (auto simp: good_path_def)
    then show "pte m' u j = pte m u j" using a(3) by (rule low)
  qed
  show "tbl m' r p = Some t" using tb[OF g(1)] tp by simp
  have "(good_path q \<and> tbl m' r q = Some u) = (good_path q \<and> tbl m r q = Some u)" for q u
    using tb[of q] by auto
  then show tbs: "tables m' r = tables m r" by (simp add: tables_def)
  have inj: "q = q'" if "good_path q" "good_path q'" "tbl m' r q = Some u" "tbl m' r q' = Some u" for q q' u
    using that tb[OF that(1)] tb[OF that(2)] pt_okD(3)[OF ok that(1,2)] by simp
  have chk: "PTE_CHECK (pte m' u j)"
    if q: "good_path (q @ [j])" "tbl m' r q = Some u" "pte m' u j AND PTE_V \<noteq> 0" for q j u
  proof -
    have u: "tbl m r q = Some u" using q(2) tb[of q] good_snoc[OF q(1)] by simp
    show ?thesis using pt_okD(4)[OF ok q(1) u] q(3) low[OF q(1) u] by simp
  qed
  show "pt_ok m' r"
    by (rule pt_okI[OF pt_okD(1)[OF ok] _ inj chk]) (use pt_okD(2)[OF ok] tbs in auto)
  show "vlookup m' r va = (if va_path va = p \<and> vpn va 0 = i
       then (if v AND PTE_V = 0 then None else Some v) else vlookup m r va)"
  proof (cases "tbl m r (va_path va)")
    case None
    then show ?thesis using tp tb[OF good_va_path(1), of va] by (auto simp: vlookup_def)
  next
    case (Some u)
    have "u = t \<longleftrightarrow> va_path va = p" using pt_okD(3)[OF ok good_va_path(1) g(1) Some] tp Some by auto
    moreover have "page_aligned u" by (rule pt_okD(5)[OF ok tablesI[OF good_va_path(1) Some]])
    ultimately show ?thesis
      using Some tb[OF good_va_path(1), of va] pm[of u "vpn va 0"] by (auto simp: vlookup_def)
  qed
qed

section \<open>The walk\<close>

text \<open>
  A page table and the allocator side by side: the tables are not free pages. \<open>mem_only s t\<close>:
  from \<open>s\<close> to \<open>t\<close> only memory, the pools and the stale \<open>origin\<close> field of the hart changed.
\<close>

definition vm_ok :: "'a vm_state_scheme \<Rightarrow> (bool \<Rightarrow> u64 list) \<Rightarrow> u64 \<Rightarrow> bool" where
  "vm_ok s F r \<longleftrightarrow> pmem_ok s F \<and> pt_ok (mem s) r \<and> r \<noteq> 0 \<and>
     (\<forall>k. tables (mem s) r \<inter> set (F k) = {})"

definition mem_only :: "'a mem_state_scheme \<Rightarrow> 'a mem_state_scheme \<Rightarrow> bool" where
  "mem_only s t \<longleftrightarrow> hart t = hart s \<and> locks t = locks s \<and>
     mem_state.more t = mem_state.more s \<and> (cpus t = cpus s \<or> cpus t = cpus (stale_origin s)) \<and>
     (\<forall>k p. in_region (pool k t) p = in_region (pool k s) p)"

lemma vm_okD:
  assumes "vm_ok s F r"
  shows "pmem_ok s F" "pt_ok (mem s) r" "r \<noteq> 0" "t \<in> tables (mem s) r \<Longrightarrow> t \<notin> set (F k)"
  using assms by (auto simp: vm_ok_def)

lemma table_not_free_page:
  "vm_ok s F r \<Longrightarrow> t \<in> tables (mem s) r \<Longrightarrow> p \<in> set (F k) \<Longrightarrow> pg t \<noteq> pg p"
  using vm_okD(4) pg_eq_aligned[OF pt_okD(5)[OF vm_okD(2)] pmem_okD(4)[OF vm_okD(1)]] by metis

definition slot :: "pmem \<Rightarrow> u64 \<Rightarrow> u64 \<Rightarrow> u64" where
  "slot m r va = (case tbl m r (va_path va) of None \<Rightarrow> 0 | Some t \<Rightarrow> entry_addr t (VA_TO_VPN va 0))"

text \<open>Without allocation the walk reads: it returns the entry's address, or NULL, and changes nothing.\<close>

lemma vm_getpte_lookup:
  assumes "va < VA_MAX" and "r \<noteq> 0"
  shows "vm_getpte r va False s = Inr (slot (mem s) r va, s)"
proof -
  have "getpte_loop 2 r va False s = Inr (slot (mem s) r va, s)"
    unfolding numeral_2_eq_2
    by (simp add: slot_def va_path_def child_def Let_def entry_addr_pte numeral_2_eq_2)
  moreover have "\<not> VA_MAX \<le> va" using assms(1) by (simp only: not_le)
  ultimately show ?thesis using assms(2) by (simp add: vm_getpte_def)
qed

lemma mem_only_refl [simp]: "mem_only s s"
  by (simp add: mem_only_def)

lemma mem_only_mem [simp]: "mem_only s (s\<lparr>mem := m\<rparr>)"
  by (simp add: mem_only_def)

lemma mem_only_trans: 
  assumes "mem_only s t" and "mem_only t u"
  shows "mem_only s u"
proof -
  have "cpus (stale_origin t) = cpus (stale_origin s)" if "cpus t = cpus s \<or> cpus t = cpus (stale_origin s)" "hart t = hart s"
    using that by (auto simp: stale_origin_def cpu_defs)
  then show ?thesis using assms by (auto simp: mem_only_def)
qed

lemma mem_only_stale: "mem_only s (stale_origin s)"
proof -
  have "mem_state.more (stale_origin s) = mem_state.more s"
    by (simp add: stale_origin_def cpu_defs)
  then show ?thesis by (simp add: mem_only_def)
qed

lemma mem_only_set_pool: "(\<And>p. in_region r p = in_region (pool k s) p) \<Longrightarrow> mem_only s (set_pool k r s)"
  by (auto simp: mem_only_def set_pool_def pool_def stale_origin_def)

lemma mem_only_alloc:
  "mem_only s ((stale_origin (popped k s))\<lparr>mem := m\<rparr>)"
proof -
  have "mem_only s (popped k s)"
    unfolding popped_def by (rule mem_only_set_pool) (simp add: in_region_def)
  then show ?thesis by (blast intro: mem_only_trans mem_only_stale mem_only_mem)
qed

text \<open>
  The walk that creates tables, from the table \<open>t\<close> at path \<open>p\<close> down. With enough free kernel
  pages it succeeds, keeps every translation, and takes the pages it adds from the kernel's
  free list.
\<close>

definition walk_path :: "u64 \<Rightarrow> nat \<Rightarrow> nat list" where
  "walk_path va l = map (vpn va) (rev [1..<Suc l])"

lemma walk_path_Suc: "walk_path va (Suc l) = vpn va (Suc l) # walk_path va l"
  by (simp add: walk_path_def)

lemma walk_path_2: "walk_path va 2 = va_path va"
  by (simp add: walk_path_def va_path_def numeral_2_eq_2)

definition evolved :: "'a vm_state_scheme \<Rightarrow> (bool \<Rightarrow> u64 list) \<Rightarrow> u64 \<Rightarrow>
    'a vm_state_scheme \<Rightarrow> (bool \<Rightarrow> u64 list) \<Rightarrow> nat \<Rightarrow> bool" where
  "evolved s F r s' F' l \<longleftrightarrow> vm_ok s' F' r \<and> mem_only s s' \<and> F' False = F False \<and>
     (\<exists>us. F True = us @ F' True \<and> length us \<le> l \<and> tables (mem s') r = tables (mem s) r \<union> set us) \<and>
     (\<forall>x. (\<forall>t \<in> tables (mem s) r \<union> set (F True). pg x \<noteq> pg t) \<longrightarrow> mem s' x = mem s x)"

definition walked :: "'a vm_state_scheme \<Rightarrow> (bool \<Rightarrow> u64 list) \<Rightarrow> u64 \<Rightarrow>
    'a vm_state_scheme \<Rightarrow> (bool \<Rightarrow> u64 list) \<Rightarrow> nat \<Rightarrow> bool" where
  "walked s F r s' F' l \<longleftrightarrow> evolved s F r s' F' l \<and>
     (\<forall>va. vlookup (mem s') r va = vlookup (mem s) r va)"

lemma evolved_refl: "vm_ok s F r \<Longrightarrow> evolved s F r s F l"
  by (auto simp: evolved_def)

lemma walked_refl: "vm_ok s F r \<Longrightarrow> walked s F r s F l"
  by (simp add: walked_def evolved_refl)

lemma evolvedD:
  assumes "evolved s F r s' F' l"
  shows "vm_ok s' F' r" "mem_only s s'" "F' False = F False" "length (F True) \<le> l + length (F' True)"
  using assms by (auto simp: evolved_def)

lemma evolved_trans:
  assumes 1: "evolved s F r s1 F1 k" and 2: "evolved s1 F1 r s2 F2 l"
  shows "evolved s F r s2 F2 (k + l)"
proof -
  from 1 obtain us where us: "F True = us @ F1 True" "length us \<le> k"
    "tables (mem s1) r = tables (mem s) r \<union> set us" by (auto simp: evolved_def)
  from 2 obtain vs where vs: "F1 True = vs @ F2 True" "length vs \<le> l"
    "tables (mem s2) r = tables (mem s1) r \<union> set vs" by (auto simp: evolved_def)
  have "F True = (us @ vs) @ F2 True" "length (us @ vs) \<le> k + l"
    "tables (mem s2) r = tables (mem s) r \<union> set (us @ vs)" using us vs by auto
  moreover have "mem s2 x = mem s x"
    if x: "\<forall>t \<in> tables (mem s) r \<union> set (F True). pg x \<noteq> pg t" for x
  proof -
    have "\<forall>t \<in> tables (mem s1) r \<union> set (F1 True). pg x \<noteq> pg t" using x us by auto
    then show ?thesis using x 1 2 by (simp add: evolved_def)
  qed
  moreover have "mem_only s s2" using 1 2 by (auto simp: evolved_def intro: mem_only_trans)
  ultimately show ?thesis using 1 2 unfolding evolved_def by (intro conjI exI[of _ "us @ vs"]) simp_all
qed

lemma walked_trans: "walked s F r s1 F1 1 \<Longrightarrow> walked s1 F1 r s2 F2 l \<Longrightarrow> walked s F r s2 F2 (Suc l)"
  using evolved_trans[of s F r s1 F1 1 s2 F2 l] by (simp add: walked_def)

lemma store_outside_free:
  assumes ok: "pmem_ok s F" and a: "unat a mod 8 = 0" "pg a = pg t" "page_aligned t"
    and t: "\<And>k. t \<notin> set (F k)"
  shows "pmem_ok (s\<lparr>mem := store64 (mem s) a v\<rparr>) F"
proof (rule pmem_ok_write[OF ok])
  fix k p x assume p: "p \<in> set (F k)" and x: "pg x = pg p"
  have "p \<noteq> t" using p t by auto
  then have "pg x \<noteq> pg a" using x a pg_eq_aligned[OF pmem_okD(4)[OF ok p] a(3)] by simp
  then show "store64 (mem s) a v x = mem s x" by (rule store64_other_page[OF a(1)])
qed

lemma walk_step:
  assumes ok: "vm_ok s F r" and tp: "tbl (mem s) r p = Some t"
    and g: "good_path (p @ [vpn va (Suc l)])" and free: "F True \<noteq> []"
  shows "\<exists>s1 F1 n. getpte_loop (Suc l) t va True s = getpte_loop l n va True s1 \<and>
    walked s F r s1 F1 1 \<and> tbl (mem s1) r (p @ [vpn va (Suc l)]) = Some n"
proof -
  let ?i = "vpn va (Suc l)" and ?e = "entry_addr t (VA_TO_VPN va (Suc l))"
  note gs = good_snoc[OF g] and pt = vm_okD(2)[OF ok] and pm = vm_okD(1)[OF ok]
  have tin: "t \<in> tables (mem s) r" using tp gs by (blast intro: tablesI)
  note tal = pt_okD(5)[OF pt tin]
  have e: "?e = t + 8 * of_nat ?i" by (simp add: entry_addr_def)
  note em = entry_mod8[OF tal, of ?i, folded e]
  show ?thesis
  proof (cases "pte (mem s) t ?i AND PTE_V = 0")
    case False
    have chk: "PTE_CHECK (pte (mem s) t ?i)" by (rule pt_okD(4)[OF pt g tp False])
    then have "getpte_loop (Suc l) t va True s = getpte_loop l (PTE_TO_PA (pte (mem s) t ?i)) va True s"
      using False by (simp add: entry_addr_pte)
    moreover have "tbl (mem s) r (p @ [?i]) = Some (PTE_TO_PA (pte (mem s) t ?i))"
      using tp False chk by (simp add: tbl_snoc child_def)
    ultimately show ?thesis using walked_refl[OF ok] by blast
  next
    case True
    obtain n ps where F: "F True = n # ps" using free by (cases "F True") auto
    let ?u = "(stale_origin (popped True s))\<lparr>mem := memset (mem s) n 0 PGSIZE\<rparr>"
    let ?s1 = "?u\<lparr>mem := store64 (mem ?u) ?e (PA_TO_PTE n OR PTE_V)\<rparr>" and ?F1 = "F(True := ps)"
    have al: "pmem_alloc True s = Inr (n, ?u)" by (rule pmem_alloc_eq[OF pm F])
    have okU: "pmem_ok ?u ?F1" by (rule pmem_alloc_ok[OF pm F])
    have nin: "n \<in> set (F True)" using F by simp
    note nal = pmem_okD(4)[OF pm nin]
    have n0: "n \<noteq> 0" using pmem_okD(5)[OF pm nin] by (simp add: in_region_def)
    have nt: "n \<notin> tables (mem s) r" using vm_okD(4)[OF ok] nin by blast
    have mu: "mem ?u x = (if pg x = pg n then 0 else mem s x)" for x
      using memset_page[OF nal] by simp
    have ms1: "mem ?s1 = store64 (mem ?u) ?e (PA_TO_PTE n OR PTE_V)" by simp
    note lk = link_table[OF pt tp g True nal n0 nt mu, unfolded e[symmetric], OF ms1]
    have tfree: "t \<notin> set (?F1 k)" for k
      using vm_okD(4)[OF ok tin, of True] vm_okD(4)[OF ok tin, of False] F by (cases k) auto
    have "pmem_ok ?s1 ?F1" by (rule store_outside_free[OF okU em(1,2) tal tfree]) simp_all
    moreover have "tables (mem ?s1) r \<inter> set (?F1 k) = {}" for k
    proof -
      have "n \<notin> set ps" "n \<notin> set (F False)"
        using pmem_okD(6)[OF pm, of True] F pmem_ok_disjoint[OF pm, of True] by auto
      then have "n \<notin> set (?F1 k)" by (cases k) simp_all
      moreover have "set (?F1 k) \<subseteq> set (F k)" using F by (cases k) auto
      moreover have "tables (mem s) r \<inter> set (F k) = {}" using vm_okD(4)[OF ok] by blast
      ultimately show ?thesis unfolding lk(2) by blast
    qed
    ultimately have ok1: "vm_ok ?s1 ?F1 r" using lk(1) vm_okD(3)[OF ok] by (simp add: vm_ok_def)
    have "mem ?s1 x = mem s x" if "\<forall>t' \<in> tables (mem s) r \<union> set (F True). pg x \<noteq> pg t'" for x
      using that tin nin em(2) mu[of x] by (auto simp: store64_other_page[OF em(1)])
    then have "walked s F r ?s1 ?F1 1"
      unfolding walked_def evolved_def using ok1 lk(2,4) F mem_only_alloc[of s _ True]
      by (auto intro!: exI[of _ "[n]"] mem_only_trans[OF mem_only_alloc mem_only_mem] simp del: stale_mem_update)
    moreover have "getpte_loop (Suc l) t va True s = getpte_loop l n va True ?s1"
      using True al n0 pte_entry_store table_entry(1)[OF nal] by (simp add: entry_addr_pte Let_def del: stale_mem_update)
    ultimately show ?thesis using lk(3) by blast
  qed
qed

lemma walk_step_empty:
  assumes ok: "vm_ok s F r" and tp: "tbl (mem s) r p = Some t"
    and g: "good_path (p @ [vpn va (Suc l)])" and empty: "F True = []"
  shows "(\<exists>msg. getpte_loop (Suc l) t va True s = Inl (Panic msg)) \<or>
    (\<exists>n. getpte_loop (Suc l) t va True s = getpte_loop l n va True s \<and>
       tbl (mem s) r (p @ [vpn va (Suc l)]) = Some n)"
proof (cases "pte (mem s) t (vpn va (Suc l)) AND PTE_V = 0")
  case True
  then show ?thesis using pmem_alloc_empty[OF vm_okD(1)[OF ok], of True] empty
    by (auto simp: entry_addr_pte Let_def)
next
  case False
  have chk: "PTE_CHECK (pte (mem s) t (vpn va (Suc l)))" by (rule pt_okD(4)[OF vm_okD(2)[OF ok] g tp False])
  then show ?thesis using False tp by (auto simp: entry_addr_pte Let_def tbl_snoc child_def)
qed

lemma walk_ok:
  assumes "vm_ok s F r" and "tbl (mem s) r p = Some t" and "good_path p" "length p + l \<le> 2"
  shows "(\<exists>msg. getpte_loop l t va True s = Inl (Panic msg) \<and> length (F True) < l) \<or>
    (\<exists>s' F' u. getpte_loop l t va True s = Inr (entry_addr u (VA_TO_VPN va 0), s') \<and>
      walked s F r s' F' l \<and> tbl (mem s') r (p @ walk_path va l) = Some u)"
  using assms
proof (induction l arbitrary: s F t p)
  case 0
  then show ?case using walked_refl[of s F r 0] by (auto simp: walk_path_def)
next
  case (Suc l)
  let ?p = "p @ [vpn va (Suc l)]"
  have g: "good_path ?p" using Suc.prems(3,4) by (auto simp: good_path_def)
  show ?case
  proof (cases "\<exists>msg. getpte_loop (Suc l) t va True s = Inl (Panic msg) \<and> F True = []")
    case True
    then show ?thesis by auto
  next
    case False
    obtain s1 F1 n where 1: "getpte_loop (Suc l) t va True s = getpte_loop l n va True s1"
      "walked s F r s1 F1 1" "tbl (mem s1) r ?p = Some n"
      using walk_step[OF Suc.prems(1,2) g] walk_step_empty[OF Suc.prems(1,2) g] False
        walked_refl[OF Suc.prems(1), of 1] by (cases "F True = []") blast+
    have ok1: "vm_ok s1 F1 r" and len: "length (F True) \<le> 1 + length (F1 True)"
      using 1(2) evolvedD[of s F r s1 F1 1] by (auto simp: walked_def)
    from Suc.IH[OF ok1 1(3) g] Suc.prems(4) consider
        msg where "getpte_loop l n va True s1 = Inl (Panic msg)" "length (F1 True) < l"
      | s' F' u where "getpte_loop l n va True s1 = Inr (entry_addr u (VA_TO_VPN va 0), s')"
        "walked s1 F1 r s' F' l" "tbl (mem s') r (?p @ walk_path va l) = Some u" by auto
    then show ?thesis
    proof cases
      case 1
      then show ?thesis using \<open>getpte_loop (Suc l) t va True s = _\<close> len by auto
    next
      case 2
      then show ?thesis using \<open>getpte_loop (Suc l) t va True s = _\<close>
          walked_trans[OF \<open>walked s F r s1 F1 1\<close>] by (auto simp: walk_path_Suc)
    qed
  qed
qed

text \<open>
  \<open>vm_getpte\<close> with allocation: the entry of \<open>va\<close> in the level-0 table of its path; it panics
  only when the kernel pool runs out.
\<close>

lemma vm_getpte_alloc:
  assumes ok: "vm_ok s F r" and va: "va < VA_MAX"
  shows "(\<exists>msg. vm_getpte r va True s = Inl (Panic msg) \<and> length (F True) < 2) \<or>
    (\<exists>s' F' u. vm_getpte r va True s = Inr (entry_addr u (VA_TO_VPN va 0), s') \<and>
      walked s F r s' F' 2 \<and> tbl (mem s') r (va_path va) = Some u)"
proof -
  have "tbl (mem s) r [] = Some r" by simp
  note w = walk_ok[OF ok this, of 2 va, unfolded walk_path_2]
  have "\<not> VA_MAX \<le> va" using va by (simp only: not_le)
  then have "vm_getpte r va True s = getpte_loop 2 r va True s"
    using vm_okD(3)[OF ok] by (simp only: vm_getpte_def Let_def if_False)
  then show ?thesis using w by (metis append_Nil good_va_path(3) add_0 list.size(3) order_refl)
qed

end
