(* ===== verification/Vmap.thy ===== *)
theory Vmap
  imports Kvm
begin

text \<open>
  What mapping and unmapping do to the translation of an address space: \<open>map_one\<close> and
  \<open>unmap_one\<close> change the entry of one page, \<open>vm_mappages\<close> and \<open>vm_unmappages\<close> the entries of
  the pages of a range, and no operation changes any other translation.
\<close>

section \<open>Addresses of one page have the same table indices\<close>

lemma VA_TO_VPN_take_bit: "VA_TO_VPN va l = take_bit 9 (drop_bit (12 + 9 * l) va)"
  by (simp add: VA_TO_VPN_def take_bit_eq_mask mask_eq_exp_minus_1)

lemma pg_drop_bit: "pg va = drop_bit 12 va"
  by (simp add: pg_def drop_bit_eq_div)

lemma high_bits: "va < VA_MAX \<Longrightarrow> 38 \<le> n \<Longrightarrow> \<not> bit va n"
proof
  assume va: "va < VA_MAX" and n: "38 \<le> n" and b: "bit va n"
  have "unat va < 2 ^ 38" using va by (simp add: word_less_nat_alt)
  then have "unat (drop_bit 38 va) = 0" by (simp add: drop_bit_eq_div unat_div)
  then have "drop_bit 38 va = 0" by (simp only: unat_eq_0)
  then have "\<not> bit (drop_bit 38 va) (n - 38)" by simp
  then show False using b n by (simp add: bit_drop_bit_eq)
qed

lemma same_page_iff:
  assumes "va < VA_MAX" and "va' < VA_MAX"
  shows "va_path va = va_path va' \<and> vpn va 0 = vpn va' 0 \<longleftrightarrow> pg va = pg va'"
proof
  assume "va_path va = va_path va' \<and> vpn va 0 = vpn va' 0"
  then have "VA_TO_VPN va 0 = VA_TO_VPN va' 0" "VA_TO_VPN va 1 = VA_TO_VPN va' 1"
    "VA_TO_VPN va 2 = VA_TO_VPN va' 2"
    by (simp_all add: va_path_def vpn_def word_unat_eq_iff)
  then have eq: "VA_TO_VPN va l = VA_TO_VPN va' l" if "l \<le> 2" for l
  proof -
    have "l = 0 \<or> l = 1 \<or> l = 2" using that by linarith
    then show ?thesis using \<open>VA_TO_VPN va 0 = _\<close> \<open>VA_TO_VPN va 1 = _\<close> \<open>VA_TO_VPN va 2 = _\<close> by auto
  qed
  have "bit va (12 + k) = bit va' (12 + k)" for k
  proof (cases "k < 27")
    case True
    define l where "l = k div 9"
    have l: "l \<le> 2" "12 + k = 12 + 9 * l + k mod 9" using True by (auto simp: l_def)
    have "bit (VA_TO_VPN va l) (k mod 9) = bit (VA_TO_VPN va' l) (k mod 9)" using eq[OF l(1)] by simp
    then show ?thesis unfolding VA_TO_VPN_take_bit l(2)
      by (simp add: bit_take_bit_iff bit_drop_bit_eq)
  next
    case False
    then show ?thesis using high_bits[OF assms(1), of "12 + k"] high_bits[OF assms(2), of "12 + k"] by simp
  qed
  then show "pg va = pg va'" unfolding pg_drop_bit
    by (intro bit_word_eqI) (simp add: bit_drop_bit_eq)
next
  assume "pg va = pg va'"
  then have "drop_bit (12 + k) va = drop_bit (12 + k) va'" for k
  proof -
    have "drop_bit (12 + k) x = drop_bit k (pg x)" for x by (simp add: pg_drop_bit add.commute)
    then show ?thesis using \<open>pg va = pg va'\<close> by simp
  qed
  then have "VA_TO_VPN va l = VA_TO_VPN va' l" for l unfolding VA_TO_VPN_take_bit by simp
  then show "va_path va = va_path va' \<and> vpn va 0 = vpn va' 0" by (simp add: va_path_def vpn_def)
qed

section \<open>Mapping\<close>

text \<open>The entry that maps a page at physical address \<open>p\<close>.\<close>

definition leaf :: "u64 \<Rightarrow> u32 \<Rightarrow> u64" where
  "leaf p perm = PA_TO_PTE p OR scast perm OR PTE_V"

lemma leaf_valid [simp]: "leaf p perm AND 1 \<noteq> 0"
proof
  assume "leaf p perm AND 1 = 0"
  then have "\<not> bit (leaf p perm AND 1) 0" by simp
  then show False by (simp add: leaf_def bit_simps)
qed

lemma leaf_pa:
  assumes "page_aligned p" and "drop_bit 10 (scast perm :: u64) = 0"
  shows "PTE_TO_PA (leaf p perm) = p"
  using PTE_TO_PA_TO_PTE[OF assms(1), of "scast perm OR 1"] assms(2)
  by (simp add: leaf_def or.assoc)

text \<open>Storing a level-0 entry of an existing table.\<close>

lemma store_leaf_evolved:
  assumes ok: "vm_ok s F r" and u: "tbl (mem s) r (va_path va) = Some u" and va: "va < VA_MAX"
    and s': "s' = s\<lparr>mem := store64 (mem s) (entry_addr u (VA_TO_VPN va 0)) v\<rparr>"
  shows "evolved s F r s' F 0"
    and "\<And>va'. va' < VA_MAX \<Longrightarrow> vlookup (mem s') r va' =
       (if pg va' = pg va then (if v AND PTE_V = 0 then None else Some v) else vlookup (mem s) r va')"
proof -
  note pt = vm_okD(2)[OF ok]
  have uin: "u \<in> tables (mem s) r" by (rule tablesI[OF good_va_path(1) u])
  note ual = pt_okD(5)[OF pt uin]
  have a: "entry_addr u (VA_TO_VPN va 0) = u + 8 * of_nat (vpn va 0)" by (simp add: entry_addr_def)
  note em = entry_mod8[OF ual vpn_less[of va 0], folded a]
  note sl = store_leaf[OF pt u good_va_path(1) _ vpn_less[of va 0], unfolded a[symmetric]]
  have len: "length (va_path va) = 2" by (simp add: va_path_def)
  have ms: "mem s' = store64 (mem s) (entry_addr u (VA_TO_VPN va 0)) v" by (simp add: s')
  have "pmem_ok s' F" unfolding s'
    by (rule store_outside_free[OF vm_okD(1)[OF ok] em(1,2) ual]) (use vm_okD(4)[OF ok uin] in blast)
  then have "vm_ok s' F r"
    using sl(1,2)[OF len ms] vm_okD(3)[OF ok] vm_okD(4)[OF ok] by (auto simp: vm_ok_def)
  moreover have "mem s' x = mem s x" if "\<forall>t \<in> tables (mem s) r \<union> set (F True). pg x \<noteq> pg t" for x
    using that uin em(2) unfolding ms by (intro store64_other_page[OF em(1)]) auto
  moreover have "mem_only s s'" by (simp add: s')
  ultimately show "evolved s F r s' F 0" using sl(2)[OF len ms] by (simp add: evolved_def)
  show "vlookup (mem s') r va' =
       (if pg va' = pg va then (if v AND PTE_V = 0 then None else Some v) else vlookup (mem s) r va')"
    if "va' < VA_MAX" for va'
    using sl(4)[OF len ms, of va'] same_page_iff[OF that va] by simp
qed

lemma map_one_ok:
  assumes ok: "vm_ok s F r" and va: "va < VA_MAX"
  shows "(\<exists>msg. map_one r va p perm s = Inl (Panic msg) \<and> length (F True) < 2) \<or>
    (\<exists>s' F'. map_one r va p perm s = Inr s' \<and> evolved s F r s' F' 2 \<and>
       (\<forall>va' < VA_MAX. vlookup (mem s') r va' =
          (if pg va' = pg va then Some (leaf p perm) else vlookup (mem s) r va')))"
  using vm_getpte_alloc[OF ok va]
proof (elim disjE exE conjE)
  fix msg assume "vm_getpte r va True s = Inl (Panic msg)" "length (F True) < 2"
  then show ?thesis by (simp add: map_one_def)
next
  fix s1 F1 u
  let ?a = "entry_addr u (VA_TO_VPN va 0)"
  assume g: "vm_getpte r va True s = Inr (?a, s1)" and w: "walked s F r s1 F1 2"
    and u: "tbl (mem s1) r (va_path va) = Some u"
  let ?s2 = "s1\<lparr>mem := store64 (mem s1) ?a (leaf p perm)\<rparr>"
  have ok1: "vm_ok s1 F1 r" using w evolvedD by (auto simp: walked_def)
  note st = store_leaf_evolved[OF ok1 u va refl, where v = "leaf p perm"]
  have "u \<in> tables (mem s1) r" by (rule tablesI[OF good_va_path(1) u])
  note uin = this pt_okD(5)[OF vm_okD(2)[OF ok1] this] pt_okD(2)[OF vm_okD(2)[OF ok1] this]
  have "unat ?a = unat u + 8 * vpn va 0"
    using entry_mod8(3)[OF uin(2) vpn_less[of va 0]] by (simp add: entry_addr_def)
  moreover have "unat u \<noteq> 0" using uin(3) by (simp add: word_unat_eq_iff)
  ultimately have "?a \<noteq> 0" by (metis add_is_0 unat_0)
  then have "map_one r va p perm s = Inr ?s2" using g by (simp add: map_one_def leaf_def)
  moreover have "evolved s F r ?s2 F1 2"
    using evolved_trans[OF _ st(1), of s F 2] w by (simp add: walked_def)
  ultimately show ?thesis using st(2) w unfolding walked_def by (intro disjI2 exI conjI) auto
qed

text \<open>
  The loop from \<open>v\<close> over \<open>n + 1\<close> pages. The pages of the range are mapped to consecutive
  physical pages from \<open>p\<close> on.
\<close>

definition mapped_from :: "u64 \<Rightarrow> nat \<Rightarrow> u64 \<Rightarrow> u32 \<Rightarrow> (u64 \<Rightarrow> u64 option) \<Rightarrow> u64 \<Rightarrow> u64 option" where
  "mapped_from v n p perm old va =
     (if unat (pg v) \<le> unat (pg va) \<and> unat (pg va) \<le> unat (pg v) + n
      then Some (leaf (p + 4096 * (pg va - pg v)) perm) else old va)"

lemma pg_next:
  assumes "unat v + 4096 < 2 ^ 64"
  shows "pg (v + 4096) = pg v + 1" "unat (pg (v + 4096)) = Suc (unat (pg v))"
proof -
  have "unat (v + 4096) = unat v + 4096" using assms by (simp add: unat_word_ariths)
  then show u: "unat (pg (v + 4096)) = Suc (unat (pg v))" by (simp add: unat_pg)
  from arg_cong[OF this, of "of_nat :: nat \<Rightarrow> u64"] show "pg (v + 4096) = pg v + 1" by simp
qed

lemma mapped_from_Suc:
  assumes "unat v + 4096 < 2 ^ 64" and "old' va = (if pg va = pg v then Some (leaf p perm) else old va)"
  shows "mapped_from (v + 4096) n (p + 4096) perm old' va = mapped_from v (Suc n) p perm old va"
proof (cases "pg va = pg v")
  case True
  then show ?thesis using assms(2) pg_next[OF assms(1)] by (simp add: mapped_from_def)
next
  case False
  then have "unat (pg va) \<noteq> unat (pg v)" by (simp add: word_unat_eq_iff)
  then show ?thesis using False assms(2) pg_next[OF assms(1)]
    by (auto simp: mapped_from_def algebra_simps)
qed

lemma map_loop_ok:
  assumes "vm_ok s F r" and "unat v + 4096 * n < 2 ^ 38" and "start \<le> v"
    and "last_page = v + of_nat (4096 * n)"
  shows "(\<exists>msg. map_loop r start last_page v p perm s = Inl (Panic msg) \<and> length (F True) < 2 * Suc n) \<or>
    (\<exists>s' F'. map_loop r start last_page v p perm s = Inr s' \<and> evolved s F r s' F' (2 * Suc n) \<and>
       (\<forall>va < VA_MAX. vlookup (mem s') r va = mapped_from v n p perm (vlookup (mem s) r) va))"
  using assms
proof (induction n arbitrary: s F v p)
  case 0
  have v: "v < VA_MAX" using 0 by (simp add: word_less_nat_alt)
  have last: "last_page = v" using 0 by simp
  have "mapped_from v 0 p perm old va = (if pg va = pg v then Some (leaf p perm) else old va)" for va old
  proof (cases "pg va = pg v")
    case False
    then have "unat (pg va) \<noteq> unat (pg v)" by (simp add: word_unat_eq_iff)
    then have "\<not> (unat (pg v) \<le> unat (pg va) \<and> unat (pg va) \<le> unat (pg v) + 0)" by linarith
    then show ?thesis using False by (simp only: mapped_from_def if_False)
  qed (simp add: mapped_from_def)
  with map_one_ok[OF 0(1) v, of p perm] last show ?case
    by (subst (1 2) map_loop.simps) (auto simp: bnd_eq_Inl)
next
  case (Suc n)
  have v: "v < VA_MAX" using Suc.prems(2) by (simp add: word_less_nat_alt)
  have u: "unat (v + 4096) = unat v + 4096" using Suc.prems(2) by (simp add: unat_word_ariths)
  have c: "v \<noteq> last_page" "\<not> v + 4096 < start" "\<not> v + 4096 < v" "v \<le> v + 4096"
  proof -
    have "unat (of_nat (4096 * Suc n) :: u64) = 4096 * Suc n" using Suc.prems(2)
      by (intro unat_of_nat_small64) simp
    then have "(of_nat (4096 * Suc n) :: u64) \<noteq> 0" by (metis unat_0 mult_eq_0_iff nat.distinct(1) zero_neq_numeral)
    then show "v \<noteq> last_page" unfolding Suc.prems(4) by simp
    show "\<not> v + 4096 < start" "\<not> v + 4096 < v" "v \<le> v + 4096" using u Suc.prems(3)
      by (auto simp: word_less_nat_alt word_le_nat_alt)
  qed
  from map_one_ok[OF Suc.prems(1) v, of p perm] show ?case
  proof (elim disjE exE conjE)
    fix msg assume "map_one r v p perm s = Inl (Panic msg)" "length (F True) < 2"
    then show ?thesis by (subst map_loop.simps) (auto intro!: disjI1)
  next
    fix s1 F1
    assume m: "map_one r v p perm s = Inr s1" and e: "evolved s F r s1 F1 2"
      and l: "\<forall>va'<VA_MAX. vlookup (mem s1) r va' =
        (if pg va' = pg v then Some (leaf p perm) else vlookup (mem s) r va')"
    have step: "map_loop r start last_page v p perm s =
        map_loop r start last_page (v + 4096) (p + 4096) perm s1"
      using m c by (subst map_loop.simps) simp
    have pre: "unat (v + 4096) + 4096 * n < 2 ^ 38" "start \<le> v + 4096"
      "last_page = v + 4096 + of_nat (4096 * n)"
      using Suc.prems u c(4) by (auto intro: order_trans simp: algebra_simps)
    have len: "length (F True) \<le> 2 + length (F1 True)" using evolvedD(4)[OF e] .
    from Suc.IH[OF evolvedD(1)[OF e] pre, of "p + 4096"] show ?thesis
    proof (elim disjE exE conjE)
      fix msg assume "map_loop r start last_page (v + 4096) (p + 4096) perm s1 = Inl (Panic msg)"
        "length (F1 True) < 2 * Suc n"
      then show ?thesis using len step by auto
    next
      fix s2 F2
      assume m2: "map_loop r start last_page (v + 4096) (p + 4096) perm s1 = Inr s2"
        and e2: "evolved s1 F1 r s2 F2 (2 * Suc n)"
        and l2: "\<forall>va<VA_MAX. vlookup (mem s2) r va =
          mapped_from (v + 4096) n (p + 4096) perm (vlookup (mem s1) r) va"
      have "vlookup (mem s2) r va = mapped_from v (Suc n) p perm (vlookup (mem s) r) va"
        if "va < VA_MAX" for va
        using l l2 that mapped_from_Suc[of v "vlookup (mem s1) r" va p perm "vlookup (mem s) r" n] Suc.prems(2) by simp
      then show ?thesis using m2 evolved_trans[OF e e2] step
        by (intro disjI2 exI[of _ s2] exI[of _ F2]) simp
    qed
  qed
qed

text \<open>
  \<open>vm_mappages\<close>: the range is rounded to pages. \<open>last_off\<close> is the number of pages after the
  first one.
\<close>

definition last_off :: "u64 \<Rightarrow> u64 \<Rightarrow> nat" where
  "last_off va len = (unat va + unat len - 1) div 4096 - unat va div 4096"

lemma vm_mappages_ok:
  assumes ok: "vm_ok s F r" and al: "page_aligned va" "page_aligned pa"
    and len: "len \<noteq> 0" "unat va + unat len \<le> 2 ^ 38"
  shows "(\<exists>msg. vm_mappages r va pa len perm s = Inl (Panic msg) \<and>
      length (F True) < 2 * Suc (last_off va len)) \<or>
    (\<exists>s' F'. vm_mappages r va pa len perm s = Inr s' \<and>
       evolved s F r s' F' (2 * Suc (last_off va len)) \<and>
       (\<forall>va' < VA_MAX. vlookup (mem s') r va' =
          mapped_from va (last_off va len) pa perm (vlookup (mem s) r) va'))"
proof -
  obtain k where k: "unat va = 4096 * k" using al(1) by (rule page_alignedE)
  define m where "m = (4096 * k + unat len - 1) div 4096"
  have pos: "0 < unat len" using len(1) by (simp add: unat_gt_0)
  have last: "unat (va + len - 1) = unat va + unat len - 1"
  proof -
    have "unat (va + len) = unat va + unat len" using len(2) by (simp add: unat_word_ariths)
    moreover have "1 \<le> va + len" using calculation pos by (simp add: word_le_nat_alt)
    ultimately show ?thesis by (simp add: unat_sub)
  qed
  have km: "k \<le> m" unfolding m_def using pos by (simp add: less_eq_div_iff_mult_less_eq)
  have off: "last_off va len = m - k" using k by (simp add: last_off_def m_def)
  have mle: "4096 * m \<le> unat va + unat len - 1" using k by (simp add: m_def)
  have "unat (va + len - 1 - (va + len - 1) mod 4096) = 4096 * m"
  proof -
    have "(va + len - 1) mod 4096 \<le> va + len - 1" by (simp add: word_le_nat_alt unat_mod)
    then have "unat (va + len - 1 - (va + len - 1) mod 4096) =
        unat (va + len - 1) - unat (va + len - 1) mod 4096" by (simp add: unat_sub unat_mod)
    then show ?thesis unfolding last m_def k by (metis minus_mod_eq_mult_div)
  qed
  moreover have "unat (va + of_nat (4096 * (m - k))) = 4096 * m"
  proof -
    have b: "4096 * (m - k) < 2 ^ 64" "unat va + 4096 * (m - k) = 4096 * m" using mle len(2) k km by auto
    then show ?thesis using mle len(2) by (simp only: unat_word_ariths unat_of_nat_small64) simp
  qed
  ultimately have lp: "va + len - 1 - (va + len - 1) mod 4096 = va + of_nat (4096 * (m - k))"
    by (simp only: word_unat_eq_iff)
  have "unat va + 4096 * (m - k) < 2 ^ 38" using mle len(2) k km pos by auto
  note lo = map_loop_ok[OF ok this order_refl lp, of pa perm]
  have "\<not> va + len - 1 \<ge> VA_MAX" using last len(2) pos by (auto simp: word_le_nat_alt)
  then have "vm_mappages r va pa len perm s =
      map_loop r va (va + len - 1 - (va + len - 1) mod 4096) va pa perm s"
    using al len(1) by (simp add: vm_mappages_def Let_def page_aligned_def)
  then show ?thesis using lo unfolding off by metis
qed

section \<open>Unmapping\<close>

text \<open>Giving a page back to the user pool leaves the page table alone when the page is no table.\<close>

lemma free_user_page:
  assumes ok: "vm_ok s F r" and reg: "in_region (pool False s) p" and new: "p \<notin> set (F False)"
    and nt: "p \<notin> tables (mem s) r"
  shows "\<exists>t. pmem_free p False s = Inr t \<and> vm_ok t (F(False := p # F False)) r \<and> mem_only s t \<and>
    (\<forall>va. vlookup (mem t) r va = vlookup (mem s) r va) \<and> tables (mem t) r = tables (mem s) r \<and>
    (\<forall>x. pg x \<noteq> pg p \<longrightarrow> mem t x = mem s x)"
proof -
  let ?t = "stale_origin (push_page False p s)"
  note pm = vm_okD(1)[OF ok] and pt = vm_okD(2)[OF ok]
  have al: "page_aligned p" using reg by (rule in_region_aligned)
  have "p \<notin> set (F True)" using region_disjoint[OF pm reg] by simp
  from pmem_free_ok[OF pm reg this new] have ok1: "pmem_ok ?t (F(False := p # F False))" by simp
  have m: "mem ?t x = mem s x" if "pg x \<noteq> pg p" for x using push_page_mem[OF al that] by simp
  have "mem ?t x = mem s x" if "t \<in> tables (mem s) r" "pg x = pg t" for t x
    using m that nt pg_eq_aligned[OF pt_okD(5)[OF pt that(1)] al] by (metis (no_types))
  note o = pt_outside[OF pt this]
  have "mem_only s (push_page False p s)"
    by (auto simp: push_page_def Let_def set_pool_def pool_def in_region_def mem_only_def)
  then have "mem_only s ?t" by (blast intro: mem_only_trans mem_only_stale)
  moreover have "vm_ok ?t (F(False := p # F False)) r"
    using ok1 o(1,2) vm_okD(3)[OF ok] vm_okD(4)[OF ok] nt by (auto simp: vm_ok_def)
  ultimately show ?thesis using pmem_free_eq[OF pm reg] o(1,3) m by auto
qed

lemma slot_entry:
  assumes "pt_ok m r"
  shows "slot m r va = 0 \<longleftrightarrow> tbl m r (va_path va) = None"
    and "tbl m r (va_path va) = Some u \<Longrightarrow> slot m r va = entry_addr u (VA_TO_VPN va 0)"
proof -
  show "slot m r va = 0 \<longleftrightarrow> tbl m r (va_path va) = None"
  proof (cases "tbl m r (va_path va)")
    case (Some u)
    have uin: "u \<in> tables m r" by (rule tablesI[OF good_va_path(1) Some])
    note u = pt_okD(5)[OF assms uin] pt_okD(2)[OF assms uin]
    have "unat (entry_addr u (VA_TO_VPN va 0)) = unat u + 8 * vpn va 0"
      using entry_mod8(3)[OF u(1) vpn_less[of va 0]] by (simp add: entry_addr_def)
    moreover have "unat u \<noteq> 0" using u(2) by (simp add: word_unat_eq_iff)
    ultimately have "entry_addr u (VA_TO_VPN va 0) \<noteq> 0" by (metis add_is_0 unat_0)
    then show ?thesis using Some by (simp add: slot_def)
  qed (simp add: slot_def)
qed (simp add: slot_def)

text \<open>The pages whose release \<open>do_free\<close> asks for must be allocated user pages.\<close>

definition releasable :: "'a vm_state_scheme \<Rightarrow> (bool \<Rightarrow> u64 list) \<Rightarrow> u64 \<Rightarrow> u64 \<Rightarrow> bool" where
  "releasable s F r p \<longleftrightarrow>
     in_region (pool False s) p \<and> p \<notin> set (F False) \<and> p \<notin> tables (mem s) r"

definition leaf_page :: "pmem \<Rightarrow> u64 \<Rightarrow> u64 \<Rightarrow> u64 list" where
  "leaf_page m r va = (case vlookup m r va of None \<Rightarrow> [] | Some e \<Rightarrow> [PTE_TO_PA e])"

definition freeing :: "bool \<Rightarrow> u64 list \<Rightarrow> (bool \<Rightarrow> u64 list) \<Rightarrow> bool \<Rightarrow> u64 list" where
  "freeing do_free ps F = (if do_free then F(False := rev ps @ F False) else F)"

lemma unmap_one_ok:
  assumes ok: "vm_ok s F r" and va: "va < VA_MAX"
    and rel: "\<And>p. do_free \<Longrightarrow> p \<in> set (leaf_page (mem s) r va) \<Longrightarrow> releasable s F r p"
  shows "\<exists>t. unmap_one r do_free va s = Inr t \<and>
    vm_ok t (freeing do_free (leaf_page (mem s) r va) F) r \<and> mem_only s t \<and>
    tables (mem t) r = tables (mem s) r \<and>
    (\<forall>va' < VA_MAX. vlookup (mem t) r va' = (if pg va' = pg va then None else vlookup (mem s) r va'))"
proof (cases "vlookup (mem s) r va")
  case None
  have old: "vlookup (mem s) r va' = None" if "va' < VA_MAX" "pg va' = pg va" for va'
  proof -
    have "va_path va' = va_path va" "vpn va' 0 = vpn va 0" using same_page_iff[OF that(1) va] that(2) by auto
    then show ?thesis using None by (simp only: vlookup_def)
  qed
  have "unmap_one r do_free va s = Inr s"
  proof (cases "tbl (mem s) r (va_path va)")
    case None
    then show ?thesis using vm_getpte_lookup[OF va vm_okD(3)[OF ok], of s]
      by (simp add: unmap_one_def slot_def)
  next
    case (Some u)
    then show ?thesis using vm_getpte_lookup[OF va vm_okD(3)[OF ok], of s] None
      by (simp add: unmap_one_def slot_def vlookup_def entry_addr_pte Let_def split: if_splits)
  qed
  then show ?thesis using old ok None by (auto simp: leaf_page_def freeing_def)
next
  case (Some e)
  then obtain u where u: "tbl (mem s) r (va_path va) = Some u" "pte (mem s) u (vpn va 0) = e" "e AND 1 \<noteq> 0"
    by (auto simp: vlookup_def Let_def split: option.splits if_splits)
  let ?a = "entry_addr u (VA_TO_VPN va 0)" and ?pa = "PTE_TO_PA e"
  have a0: "?a \<noteq> 0" using slot_entry[OF vm_okD(2)[OF ok], of va] u(1) by (simp add: slot_def)
  have g: "vm_getpte r va False s = Inr (?a, s)"
    using vm_getpte_lookup[OF va vm_okD(3)[OF ok], of s] u(1) by (simp add: slot_def)
  have "\<exists>t. (if do_free \<and> ?pa \<noteq> 0 then pmem_free ?pa False s else Inr s) = Inr t \<and>
      vm_ok t (freeing do_free [?pa] F) r \<and> mem_only s t \<and>
      (\<forall>va. vlookup (mem t) r va = vlookup (mem s) r va) \<and> tables (mem t) r = tables (mem s) r \<and>
      tbl (mem t) r (va_path va) = Some u"
  proof (cases do_free)
    case True
    have "releasable s F r ?pa" using rel[OF True, of ?pa] Some by (simp add: leaf_page_def)
    then have r: "in_region (pool False s) ?pa" "?pa \<notin> set (F False)" "?pa \<notin> tables (mem s) r"
      by (simp_all add: releasable_def)
    from free_user_page[OF ok this] obtain t where t: "pmem_free ?pa False s = Inr t"
      "vm_ok t (F(False := ?pa # F False)) r" "mem_only s t"
      "\<forall>va. vlookup (mem t) r va = vlookup (mem s) r va" "tables (mem t) r = tables (mem s) r"
      "\<forall>x. pg x \<noteq> pg ?pa \<longrightarrow> mem t x = mem s x" by blast
    have "mem t x = mem s x" if "t' \<in> tables (mem s) r" "pg x = pg t'" for t' x
      using t(6) that r(3) pg_eq_aligned[OF pt_okD(5)[OF vm_okD(2)[OF ok] that(1)] PTE_TO_PA_aligned]
      by (metis (no_types))
    then have "tbl (mem t) r (va_path va) = tbl (mem s) r (va_path va)"
      by (intro tbl_outside[OF vm_okD(2)[OF ok] good_va_path(1)])
    moreover have "?pa \<noteq> 0" using r(1) by (simp add: in_region_def)
    ultimately show ?thesis using True t(1-5) u(1) by (simp add: freeing_def)
  qed (use ok u(1) in \<open>simp add: freeing_def\<close>)
  then obtain t where t: "(if do_free \<and> ?pa \<noteq> 0 then pmem_free ?pa False s else Inr s) = Inr t"
    "vm_ok t (freeing do_free [?pa] F) r" "mem_only s t"
    "\<forall>va. vlookup (mem t) r va = vlookup (mem s) r va" "tables (mem t) r = tables (mem s) r"
    "tbl (mem t) r (va_path va) = Some u" by blast
  let ?t = "t\<lparr>mem := store64 (mem t) ?a 0\<rparr>"
  note st = store_leaf_evolved[OF t(2,6) va refl, where v = 0]
  have "unmap_one r do_free va s = Inr ?t"
    using g a0 u(2,3) t(1) by (simp add: unmap_one_def entry_addr_pte Let_def)
  moreover have "tables (mem ?t) r = tables (mem s) r" using st(1) t(5) by (auto simp: evolved_def)
  moreover have "mem_only s ?t" using t(3) by (rule mem_only_trans) simp
  ultimately show ?thesis using st t(4) evolvedD(1)[OF st(1)] Some by (auto simp: leaf_page_def)
qed

text \<open>The pages behind the valid entries of a range, in the order of their addresses.\<close>

primrec leaf_pages :: "pmem \<Rightarrow> u64 \<Rightarrow> u64 \<Rightarrow> nat \<Rightarrow> u64 list" where
  "leaf_pages m r v 0 = []"
| "leaf_pages m r v (Suc n) = leaf_page m r v @ leaf_pages m r (v + 4096) n"

definition unmapped_in :: "u64 \<Rightarrow> nat \<Rightarrow> (u64 \<Rightarrow> u64 option) \<Rightarrow> u64 \<Rightarrow> u64 option" where
  "unmapped_in v n old va =
     (if unat (pg v) \<le> unat (pg va) \<and> unat (pg va) < unat (pg v) + n then None else old va)"

lemma leaf_pages_cong:
  assumes "\<And>va. va < VA_MAX \<Longrightarrow> unat v \<le> unat va \<Longrightarrow> vlookup m' r va = vlookup m r va"
    and "unat v + 4096 * n \<le> 2 ^ 38"
  shows "leaf_pages m' r v n = leaf_pages m r v n"
  using assms
proof (induction n arbitrary: v)
  case (Suc n)
  have u: "unat (v + 4096) = unat v + 4096" using Suc.prems(2) by (simp add: unat_word_ariths)
  have "v < VA_MAX" using Suc.prems(2) by (simp add: word_less_nat_alt)
  then have "leaf_page m' r v = leaf_page m r v" using Suc.prems(1) by (simp add: leaf_page_def)
  moreover have "leaf_pages m' r (v + 4096) n = leaf_pages m r (v + 4096) n"
    by (rule Suc.IH) (use Suc.prems u in auto)
  ultimately show ?case by simp
qed simp

lemma unmap_loop_ok:
  assumes "vm_ok s F r" and "unat v + 4096 * n \<le> 2 ^ 38"
    and "unat e \<le> unat v + 4096 * n" and "n \<noteq> 0 \<Longrightarrow> unat v + 4096 * (n - 1) < unat e"
    and "do_free \<Longrightarrow> distinct (leaf_pages (mem s) r v n)"
    and "\<And>p. do_free \<Longrightarrow> p \<in> set (leaf_pages (mem s) r v n) \<Longrightarrow> releasable s F r p"
  shows "\<exists>t. for_pages v e (unmap_one r do_free) s = Inr t \<and>
    vm_ok t (freeing do_free (leaf_pages (mem s) r v n) F) r \<and> mem_only s t \<and>
    tables (mem t) r = tables (mem s) r \<and>
    (\<forall>va < VA_MAX. vlookup (mem t) r va = unmapped_in v n (vlookup (mem s) r) va)"
  using assms
proof (induction n arbitrary: s F v)
  case 0
  then have "\<not> v < e" by (simp add: word_less_nat_alt)
  then show ?case using 0 by (auto simp: unmapped_in_def freeing_def)
next
  case (Suc n)
  have u: "unat (v + 4096) = unat v + 4096" using Suc.prems(2) by (simp add: unat_word_ariths)
  have v: "v < VA_MAX" using Suc.prems(2) by (simp add: word_less_nat_alt)
  have ve: "v < e" "unat v + 4096 < 2 ^ 64" using Suc.prems(2,4) by (auto simp: word_less_nat_alt)
  obtain s1 where 1: "unmap_one r do_free v s = Inr s1"
    "vm_ok s1 (freeing do_free (leaf_page (mem s) r v) F) r" "mem_only s s1"
    "tables (mem s1) r = tables (mem s) r"
    "\<forall>va < VA_MAX. vlookup (mem s1) r va = (if pg va = pg v then None else vlookup (mem s) r va)"
    using unmap_one_ok[OF Suc.prems(1) v, of do_free] Suc.prems(6) by auto
  have other: "vlookup (mem s1) r va = vlookup (mem s) r va" if "va < VA_MAX" "unat (v + 4096) \<le> unat va" for va
  proof -
    have "unat (pg (v + 4096)) \<le> unat (pg va)" using that(2) by (simp add: unat_pg div_le_mono)
    then have "pg va \<noteq> pg v" using pg_next(2)[OF ve(2)] by auto
    then show ?thesis using 1(5) that(1) by simp
  qed
  have lp: "leaf_pages (mem s1) r (v + 4096) n = leaf_pages (mem s) r (v + 4096) n"
  proof (rule leaf_pages_cong)
    show "unat (v + 4096) + 4096 * n \<le> 2 ^ 38" using Suc.prems(2) u by simp
  qed (rule other)
  let ?F1 = "freeing do_free (leaf_page (mem s) r v) F"
  have reg: "in_region (pool False s1) p = in_region (pool False s) p" for p
    using 1(3) by (simp add: mem_only_def)
  have rel: "releasable s1 ?F1 r p"
    if d: do_free and p: "p \<in> set (leaf_pages (mem s1) r (v + 4096) n)" for p
  proof -
    have "releasable s F r p" using Suc.prems(6)[OF d] p lp by simp
    moreover have "p \<notin> set (leaf_page (mem s) r v)" using Suc.prems(5)[OF d] p lp by auto
    ultimately show ?thesis using d reg 1(4) by (simp add: releasable_def freeing_def)
  qed
  have dis: "distinct (leaf_pages (mem s1) r (v + 4096) n)" if do_free
    using Suc.prems(5)[OF that] lp by simp
  have pre: "unat (v + 4096) + 4096 * n \<le> 2 ^ 38" "unat e \<le> unat (v + 4096) + 4096 * n"
    using Suc.prems(2,3) u by simp_all
  have "n \<noteq> 0 \<Longrightarrow> unat (v + 4096) + 4096 * (n - 1) < unat e"
    using Suc.prems(4) u by (cases n) simp_all
  from Suc.IH[OF 1(2) pre this dis rel] obtain t where t: "for_pages (v + 4096) e (unmap_one r do_free) s1 = Inr t"
    "vm_ok t (freeing do_free (leaf_pages (mem s1) r (v + 4096) n) ?F1) r" "mem_only s1 t"
    "tables (mem t) r = tables (mem s1) r"
    "\<forall>va < VA_MAX. vlookup (mem t) r va = unmapped_in (v + 4096) n (vlookup (mem s1) r) va" by blast
  have "for_pages v e (unmap_one r do_free) s = Inr t"
    using for_pages_step[OF ve, of "unmap_one r do_free" s] 1(1) t(1) by simp
  moreover have "freeing do_free (leaf_pages (mem s1) r (v + 4096) n) ?F1 =
      freeing do_free (leaf_pages (mem s) r v (Suc n)) F" unfolding lp by (simp add: freeing_def)
  moreover have "vlookup (mem t) r va = unmapped_in v (Suc n) (vlookup (mem s) r) va"
    if va: "va < VA_MAX" for va
  proof (cases "pg va = pg v")
    case True
    then show ?thesis using t(5) 1(5) va pg_next(2)[OF ve(2)] by (simp add: unmapped_in_def)
  next
    case False
    then have "unat (pg va) \<noteq> unat (pg v)" by (simp add: word_unat_eq_iff)
    then show ?thesis using t(5) 1(5) va False pg_next(2)[OF ve(2)] by (auto simp: unmapped_in_def)
  qed
  ultimately show ?case using t(2,4) 1(4) mem_only_trans[OF 1(3) t(3)] by (intro exI[of _ t]) simp
qed

text \<open>\<open>vm_unmappages\<close>: the range, rounded up to \<open>n\<close> pages, loses its translations.\<close>

definition pages_of :: "u64 \<Rightarrow> nat" where
  "pages_of len = (unat len + 4095) div 4096"

lemma vm_unmappages_ok:
  assumes ok: "vm_ok s F r" and al: "page_aligned va"
    and len: "len \<noteq> 0" "unat va + unat len \<le> 2 ^ 38"
    and rel: "do_free \<Longrightarrow> distinct (leaf_pages (mem s) r va (pages_of len))"
      "\<And>p. do_free \<Longrightarrow> p \<in> set (leaf_pages (mem s) r va (pages_of len)) \<Longrightarrow> releasable s F r p"
  shows "\<exists>t. vm_unmappages r va len do_free s = Inr t \<and>
    vm_ok t (freeing do_free (leaf_pages (mem s) r va (pages_of len)) F) r \<and> mem_only s t \<and>
    tables (mem t) r = tables (mem s) r \<and>
    (\<forall>va' < VA_MAX. vlookup (mem t) r va' = unmapped_in va (pages_of len) (vlookup (mem s) r) va')"
proof -
  obtain k where k: "unat va = 4096 * k" using al by (rule page_alignedE)
  define n where "n = pages_of len"
  have u: "unat (va + len) = unat va + unat len" using len(2) by (simp add: unat_word_ariths)
  have pos: "0 < unat len" using len(1) by (simp add: unat_gt_0)
  have n: "unat len \<le> 4096 * n" "4096 * n < unat len + 4096"
    unfolding n_def pages_of_def using mult_div_mod_eq[of 4096 "unat len + 4095"]
      mod_less_divisor[of 4096 "unat len + 4095"] by linarith+
  have "4096 * (k + n) < 4096 * (2 ^ 26 + 1)" using n(2) k len(2) by simp
  then have le: "k + n \<le> 2 ^ 26" by simp
  have "n \<noteq> 0 \<Longrightarrow> unat va + 4096 * (n - 1) < unat (va + len)" using n(2) u by (cases n) auto
  moreover have "unat va + 4096 * n \<le> 2 ^ 38" using le k by simp
  ultimately have "\<exists>t. for_pages va (va + len) (unmap_one r do_free) s = Inr t \<and>
    vm_ok t (freeing do_free (leaf_pages (mem s) r va n) F) r \<and> mem_only s t \<and>
    tables (mem t) r = tables (mem s) r \<and>
    (\<forall>va' < VA_MAX. vlookup (mem t) r va' = unmapped_in va n (vlookup (mem s) r) va')"
    using unmap_loop_ok[OF ok, of va n "va + len" do_free] rel n(1) u unfolding n_def[symmetric] by auto
  moreover have "vm_unmappages r va len do_free s = for_pages va (va + len) (unmap_one r do_free) s"
    using al len(1) by (simp add: vm_unmappages_def page_aligned_def)
  ultimately show ?thesis unfolding n_def by simp
qed

section \<open>Lookups\<close>

lemma lookup_slot:
  assumes "vlookup m r va = Some e" and "pt_ok m r"
  shows "slot m r va \<noteq> 0" "load64 m (slot m r va) = e" "e AND PTE_V \<noteq> 0"
proof -
  from assms(1) obtain u where u: "tbl m r (va_path va) = Some u" "pte m u (vpn va 0) = e" "e AND 1 \<noteq> 0"
    by (auto simp: vlookup_def Let_def split: option.splits if_splits)
  show "slot m r va \<noteq> 0" "load64 m (slot m r va) = e" "e AND PTE_V \<noteq> 0"
    using slot_entry[OF assms(2), of va] u by (simp_all add: entry_addr_pte)
qed

lemma lookup_same_page:
  assumes "va < VA_MAX" and "va' < VA_MAX" and "pg va = pg va'"
  shows "vlookup m r va = vlookup m r va'"
proof -
  have "va_path va = va_path va'" "vpn va 0 = vpn va' 0" using same_page_iff[OF assms(1,2)] assms(3) by auto
  then show ?thesis by (simp only: vlookup_def)
qed

lemma pt_untouched:
  assumes "pt_ok m r" and "\<forall>u \<in> tables m r. \<forall>x. pg x = pg u \<longrightarrow> m' x = m x"
  shows "tables m' r = tables m r" "pt_ok m' r" "vlookup m' r va = vlookup m r va"
  by (rule pt_outside[OF assms(1)], use assms(2) in blast)+

end
