(* ===== verification/Mmap.thy ===== *)
theory Mmap
  imports Vmap
begin

text \<open>
  The pool of mmap descriptors (\<open>mem/mmap.c\<close>): \<open>N_MMAP\<close> static nodes, the free ones linked
  from \<open>pool_sentinel\<close>. A pointer to a node (and to the \<open>mmap_region_t\<close> that is its first
  member) is the index of the node in \<open>region_pool\<close>; NULL is \<open>None\<close>.
\<close>

section \<open>State and operations\<close>

record mmap_region =
  r_begin :: u64
  r_npages :: u32
  r_next :: "nat option"

record mmap_region_node =
  n_mmap :: mmap_region
  n_next :: "nat option"

record mmap_state = vm_state +
  region_pool :: "nat \<Rightarrow> mmap_region_node"
  pool_sentinel :: "nat option"

abbreviation (input) N_MMAP :: nat where "N_MMAP \<equiv> 256"

definition region :: "'a mmap_state_scheme \<Rightarrow> nat \<Rightarrow> mmap_region" where
  "region s i = n_mmap (region_pool s i)"

definition set_region :: "nat \<Rightarrow> mmap_region \<Rightarrow> 'a mmap_state_scheme \<Rightarrow> 'a mmap_state_scheme" where
  "set_region i r s = s\<lparr>region_pool := (region_pool s)(i := (region_pool s i)\<lparr>n_mmap := r\<rparr>)\<rparr>"

definition set_node_next :: "nat \<Rightarrow> nat option \<Rightarrow> 'a mmap_state_scheme \<Rightarrow> 'a mmap_state_scheme" where
  "set_node_next i p s = s\<lparr>region_pool := (region_pool s)(i := (region_pool s i)\<lparr>n_next := p\<rparr>)\<rparr>"

definition mmap_init :: "'a mmap_state_scheme \<Rightarrow> 'a mmap_state_scheme res" where
  "mmap_init s =
     bnd (spinlock_acquire LkMmap (spinlock_init LkMmap s)) (\<lambda>s.
     let s = s\<lparr>pool_sentinel := Some 0\<rparr>;
         s = fold (\<lambda>i. set_node_next i (Some (Suc i))) [0..<N_MMAP - 1] s;
         s = set_node_next (N_MMAP - 1) None s
     in spinlock_release LkMmap s)"

definition mmap_region_alloc :: "'a mmap_state_scheme \<Rightarrow> (nat \<times> 'a mmap_state_scheme) res" where
  "mmap_region_alloc s =
     bnd (spinlock_acquire LkMmap s) (\<lambda>s.
     case pool_sentinel s of
       None \<Rightarrow>
         bnd (spinlock_release LkMmap s) (\<lambda>s.
         Inl (Panic ''mmap_region_alloc: run out of mmap nodes''))
     | Some free_node \<Rightarrow>
         let s = s\<lparr>pool_sentinel := n_next (region_pool s free_node)\<rparr> in
         bnd (spinlock_release LkMmap s) (\<lambda>s.
         Inr (free_node, set_region free_node \<lparr>r_begin = 0, r_npages = 0, r_next = None\<rparr> s)))"

definition mmap_region_free :: "nat option \<Rightarrow> 'a mmap_state_scheme \<Rightarrow> 'a mmap_state_scheme res" where
  "mmap_region_free mmap s =
     (case mmap of
        None \<Rightarrow> Inr s
      | Some node_to_free \<Rightarrow>
          bnd (spinlock_acquire LkMmap s) (\<lambda>s.
          let s = set_node_next node_to_free (pool_sentinel s) s;
              s = s\<lparr>pool_sentinel := Some node_to_free\<rparr>
          in spinlock_release LkMmap s))"

text \<open>The indices that \<open>mmap_show_nodelist\<close> prints: the free list, with fuel for its length.\<close>

fun nodelist :: "nat \<Rightarrow> (nat \<Rightarrow> mmap_region_node) \<Rightarrow> nat option \<Rightarrow> nat list option" where
  "nodelist 0 np p = None"
| "nodelist (Suc n) np p = (case p of None \<Rightarrow> Some []
     | Some i \<Rightarrow> map_option (\<lambda>is. i # is) (nodelist n np (n_next (np i))))"

section \<open>Frames\<close>

lemma entered_mmap [simp]:
  "region_pool (entered l s) = region_pool s" "pool_sentinel (entered l s) = pool_sentinel s"
  "region_pool (stale_origin s) = region_pool s" "pool_sentinel (stale_origin s) = pool_sentinel s"
  by (simp_all add: entered_def push_off_def stale_origin_def cpu_defs)

lemma entered_mmap_update [simp]:
  "(entered l s)\<lparr>region_pool := p\<rparr> = entered l (s\<lparr>region_pool := p\<rparr>)"
  "(entered l s)\<lparr>pool_sentinel := q\<rparr> = entered l (s\<lparr>pool_sentinel := q\<rparr>)"
  "(stale_origin s)\<lparr>region_pool := p\<rparr> = stale_origin (s\<lparr>region_pool := p\<rparr>)"
  "(stale_origin s)\<lparr>pool_sentinel := q\<rparr> = stale_origin (s\<lparr>pool_sentinel := q\<rparr>)"
  by (simp_all add: entered_def push_off_def stale_origin_def cpu_defs)

lemma mmap_update_locks [simp]:
  "cpu_ok (s\<lparr>region_pool := p\<rparr>) = cpu_ok s" "cpu_ok (s\<lparr>pool_sentinel := q\<rparr>) = cpu_ok s"
  "free_lock l (s\<lparr>region_pool := p\<rparr>) = free_lock l s" "free_lock l (s\<lparr>pool_sentinel := q\<rparr>) = free_lock l s"
  by (simp_all add: cpu_ok_def free_lock_def cpu_defs)

lemma pmem_ok_mmap_update [simp]:
  "pmem_ok (s\<lparr>region_pool := p\<rparr>) F = pmem_ok s F" "pmem_ok (s\<lparr>pool_sentinel := q\<rparr>) F = pmem_ok s F"
  by (simp_all add: pmem_ok_def pool_ok_def pool_def)

lemma mem_only_mmap [simp]:
  assumes "mem_only s t"
  shows "region_pool t = region_pool s" "pool_sentinel t = pool_sentinel s"
  using assms by (cases s; cases t; simp add: mem_only_def)+

section \<open>The free list\<close>

primrec Nlist :: "(nat \<Rightarrow> mmap_region_node) \<Rightarrow> nat option \<Rightarrow> nat list \<Rightarrow> bool" where
  "Nlist np p [] \<longleftrightarrow> p = None"
| "Nlist np p (i # is) \<longleftrightarrow> p = Some i \<and> Nlist np (n_next (np i)) is"

definition mmap_ok :: "'a mmap_state_scheme \<Rightarrow> nat list \<Rightarrow> bool" where
  "mmap_ok s is \<longleftrightarrow> cpu_ok s \<and> free_lock LkMmap s \<and> Nlist (region_pool s) (pool_sentinel s) is \<and>
     distinct is \<and> set is \<subseteq> {..<N_MMAP}"

lemma Nlist_cong: "(\<And>i. i \<in> set is \<Longrightarrow> n_next (np i) = n_next (np' i)) \<Longrightarrow>
    Nlist np p is = Nlist np' p is"
  by (induction "is" arbitrary: p) auto

lemma nodelist_Nlist: "Nlist np p is \<Longrightarrow> length is < n \<Longrightarrow> nodelist n np p = Some is"
proof (induction "is" arbitrary: p n)
  case Nil
  then show ?case by (cases n) auto
next
  case (Cons i "is")
  then show ?case by (cases n) auto
qed

definition popped_node :: "'a mmap_state_scheme \<Rightarrow> nat \<Rightarrow> 'a mmap_state_scheme" where
  "popped_node s i = set_region i \<lparr>r_begin = 0, r_npages = 0, r_next = None\<rparr>
     (s\<lparr>pool_sentinel := n_next (region_pool s i)\<rparr>)"

lemma mmap_alloc_eq:
  assumes ok: "mmap_ok s (i # is)"
  shows "mmap_region_alloc s = Inr (i, stale_origin (popped_node s i))"
    and "mmap_ok (stale_origin (popped_node s i)) is"
proof -
  have p: "pool_sentinel s = Some i" "cpu_ok s" "free_lock LkMmap s"
    using ok by (auto simp: mmap_ok_def)
  then show "mmap_region_alloc s = Inr (i, stale_origin (popped_node s i))"
    by (simp add: mmap_region_alloc_def popped_node_def set_region_def Let_def)
  have "Nlist ((region_pool s)(i := (region_pool s i)\<lparr>n_mmap := r\<rparr>)) q is = Nlist (region_pool s) q is" for q r
    by (rule Nlist_cong) simp
  then show "mmap_ok (stale_origin (popped_node s i)) is"
    using ok by (simp add: mmap_ok_def popped_node_def set_region_def)
qed

lemma mmap_alloc_empty:
  "mmap_ok s [] \<Longrightarrow> mmap_region_alloc s = Inl (Panic ''mmap_region_alloc: run out of mmap nodes'')"
  by (simp add: mmap_region_alloc_def mmap_ok_def)

definition pushed_node :: "'a mmap_state_scheme \<Rightarrow> nat \<Rightarrow> 'a mmap_state_scheme" where
  "pushed_node s i = (set_node_next i (pool_sentinel s) s)\<lparr>pool_sentinel := Some i\<rparr>"

lemma mmap_free_eq:
  assumes ok: "mmap_ok s is" and i: "i \<notin> set is" "i < N_MMAP"
  shows "mmap_region_free (Some i) s = Inr (stale_origin (pushed_node s i))"
    and "mmap_ok (stale_origin (pushed_node s i)) (i # is)"
proof -
  show "mmap_region_free (Some i) s = Inr (stale_origin (pushed_node s i))"
    using ok by (simp add: mmap_region_free_def pushed_node_def set_node_next_def Let_def mmap_ok_def)
  have "Nlist ((region_pool s)(i := (region_pool s i)\<lparr>n_next := q\<rparr>)) p is = Nlist (region_pool s) p is" for q p
    by (rule Nlist_cong) (use i in auto)
  then show "mmap_ok (stale_origin (pushed_node s i)) (i # is)"
    using ok i by (simp add: mmap_ok_def pushed_node_def set_node_next_def)
qed

lemma set_node_next_pool:
  "region_pool (set_node_next i p s) j =
     (if j = i then (region_pool s i)\<lparr>n_next := p\<rparr> else region_pool s j)"
  by (simp add: set_node_next_def)

lemma init_links:
  "region_pool (fold (\<lambda>i. set_node_next i (Some (Suc i))) [0..<n] s) i =
     (if i < n then (region_pool s i)\<lparr>n_next := Some (Suc i)\<rparr> else region_pool s i)"
proof (induction n)
  case (Suc n)
  then show ?case by (cases "i = n") (simp_all add: set_node_next_pool)
qed simp

lemma Nlist_upt:
  assumes "\<And>i. a \<le> i \<Longrightarrow> i < a + n \<Longrightarrow> n_next (np i) = Some (Suc i)" and "n_next (np (a + n)) = None"
  shows "Nlist np (Some a) [a..<Suc (a + n)]"
  using assms
proof (induction n arbitrary: a)
  case (Suc n)
  have "Nlist np (Some (Suc a)) [Suc a..<Suc (Suc a + n)]"
    by (rule Suc.IH) (use Suc.prems in auto)
  moreover have "[a..<Suc (a + Suc n)] = a # [Suc a..<Suc (Suc a + n)]"
    by (simp add: upt_conv_Cons del: upt_Suc)
  ultimately show ?case using Suc.prems(1)[of a] by simp
qed simp

lemma fold_links_frame:
  "cpu_ok (fold (\<lambda>i. set_node_next i (Some (Suc i))) is s) = cpu_ok s"
  "free_lock l (fold (\<lambda>i. set_node_next i (Some (Suc i))) is s) = free_lock l s"
  "pool_sentinel (fold (\<lambda>i. set_node_next i (Some (Suc i))) is s) = pool_sentinel s"
  "fold (\<lambda>i. set_node_next i (Some (Suc i))) is (entered l s) =
     entered l (fold (\<lambda>i. set_node_next i (Some (Suc i))) is s)"
  by (induction "is" arbitrary: s) (simp_all add: set_node_next_def)

text \<open>After \<open>mmap_init\<close> the free list is the whole array, in index order.\<close>

lemma mmap_init_ok:
  assumes "cpu_ok s"
  shows "\<exists>t. mmap_init s = Inr t \<and> mmap_ok t [0..<N_MMAP]"
proof -
  let ?s0 = "(spinlock_init LkMmap s)\<lparr>pool_sentinel := Some 0\<rparr>"
  let ?s1 = "set_node_next 255 None (fold (\<lambda>i. set_node_next i (Some (Suc i))) [0..<255] ?s0)"
  have ok: "cpu_ok (spinlock_init LkMmap s)" "free_lock LkMmap (spinlock_init LkMmap s)"
    using assms by (simp_all add: spinlock_init_def cpu_ok_def free_lock_def cpu_defs)
  have ok1: "cpu_ok ?s1" "free_lock LkMmap ?s1" using ok by (simp_all add: set_node_next_def fold_links_frame)
  have e: "set_node_next 255 None (entered l u) = entered l (set_node_next 255 None u)" for l u
    by (simp add: set_node_next_def)
  have "mmap_init s = Inr (stale_origin ?s1)"
    using ok ok1 by (simp add: mmap_init_def Let_def fold_links_frame e del: upt_Suc)
  moreover have "Nlist (region_pool ?s1) (Some 0) [0..<Suc (0 + 255)]"
    by (rule Nlist_upt) (simp_all add: set_node_next_pool init_links del: upt_Suc)
  then have "Nlist (region_pool ?s1) (pool_sentinel ?s1) [0..<256]"
    by (simp add: set_node_next_def fold_links_frame eval_nat_numeral del: upt_Suc)
  ultimately show ?thesis using ok1 by (auto simp: mmap_ok_def simp del: upt_Suc)
qed

section \<open>The pool as an allocator\<close>

definition mmap_rep :: "'a mmap_state_scheme \<Rightarrow> nat set \<Rightarrow> bool" where
  "mmap_rep s A \<longleftrightarrow> (\<exists>is. mmap_ok s is \<and> set is = A)"

interpretation mnodes: allocator mmap_region_alloc "\<lambda>i. mmap_region_free (Some i)" mmap_rep "\<lambda>s. {..<N_MMAP}"
proof
  fix s :: "'a mmap_state_scheme" and A
  assume "mmap_rep s A"
  then obtain "is" where ok: "mmap_ok s is" "set is = A" by (auto simp: mmap_rep_def)
  show "finite A" using ok by blast
  show "A \<subseteq> {..<N_MMAP}" using ok by (auto simp: mmap_ok_def)
  show "\<exists>r t. mmap_region_alloc s = Inr (r, t) \<and> r \<in> A \<and> mmap_rep t (A - {r}) \<and> {..<N_MMAP} = {..<N_MMAP}"
    if ne: "A \<noteq> {}"
  proof -
    obtain i js where js: "is = i # js" using ne ok(2) by (cases "is") auto
    have "set js = A - {i}" using ok js by (auto simp: mmap_ok_def)
    then show ?thesis using mmap_alloc_eq[of s i js] ok js by (auto simp: mmap_rep_def)
  qed
  show "\<exists>t. mmap_region_free (Some r) s = Inr t \<and> mmap_rep t (insert r A) \<and> {..<N_MMAP} = {..<N_MMAP}"
    if "r \<in> {..<N_MMAP} - A" for r
    using mmap_free_eq[OF ok(1), of r] that ok(2) by (auto simp: mmap_rep_def intro!: exI[of _ "r # is"])
next
  fix s :: "'a mmap_state_scheme"
  assume "mmap_rep s {}"
  then show "\<exists>e. mmap_region_alloc s = Inl e" using mmap_alloc_empty by (auto simp: mmap_rep_def)
qed

end
