(* ===== verification/Proc.thy ===== *)
theory Proc
  imports Mmap
begin

text \<open>
  Processes as the rest of the kernel sees them (\<open>proc/type.h\<close> and the scheduling half of
  \<open>proc/proc.c\<close>) and the sleeplocks built on them (\<open>lock/sleeplock.c\<close>). A process is its
  index in \<open>proc_pool\<close>. The functions that give up the hart are split at \<open>swtch\<close>: what runs
  before it, and what runs when the scheduler switches back.
\<close>

section \<open>State\<close>

datatype procstate = UNUSED | RUNNABLE | RUNNING | SLEEPING | ZOMBIE

text \<open>The objects whose address the kernel sleeps on.\<close>

datatype chan = ChProc nat | ChSlk lockid | ChTimer | ChCons | ChDiskFree | ChBuf nat

record kcontext =
  c_ra :: u64
  c_sp :: u64
  c_s :: "u64 list"

record proc =
  pid :: int
  p_name :: "u8 list"
  p_state :: procstate
  parent :: "nat option"
  exit_code :: int
  sleep_space :: "chan option"
  pgtbl :: u64
  heap_top :: u64
  ustack_npage :: u64
  p_mmap :: "nat option"
  tf :: u64
  cwd :: "nat option"
  open_file :: "nat \<Rightarrow> nat option"
  kstack :: u64
  ctx :: kcontext

record sleeplock =
  slk_locked :: bool
  slk_pid :: int

record proc_state = mmap_state +
  proc_pool :: "nat \<Rightarrow> proc"
  init_process :: "nat option"
  next_pid :: int
  slocks :: "lockid \<Rightarrow> sleeplock"

definition upd_proc :: "nat \<Rightarrow> (proc \<Rightarrow> proc) \<Rightarrow> 'a proc_state_scheme \<Rightarrow> 'a proc_state_scheme" where
  "upd_proc i f s = s\<lparr>proc_pool := (proc_pool s)(i := f (proc_pool s i))\<rparr>"

definition set_slock :: "lockid \<Rightarrow> sleeplock \<Rightarrow> 'a proc_state_scheme \<Rightarrow> 'a proc_state_scheme" where
  "set_slock l k s = s\<lparr>slocks := (slocks s)(l := k)\<rparr>"

text \<open>\<open>myproc()->...\<close> on a hart that runs no process.\<close>

definition with_myproc :: "(nat \<Rightarrow> 'b res) \<Rightarrow> 'a kcpu_scheme \<Rightarrow> 'b res" where
  "with_myproc f s = (case myproc s of None \<Rightarrow> Inl Fault | Some p \<Rightarrow> f p)"

section \<open>Scheduling\<close>

text \<open>\<open>next_pid\<close> is an \<open>int\<close>; counting past the largest one is undefined (\<open>Fault\<close>).\<close>

definition allocate_pid :: "'a proc_state_scheme \<Rightarrow> (int \<times> 'a proc_state_scheme) res" where
  "allocate_pid s =
     bnd (spinlock_acquire LkPid s) (\<lambda>s.
     let n = next_pid s in
     if n = 2 ^ 31 - 1 then Inl Fault
     else
       let s = s\<lparr>next_pid := n + 1\<rparr> in
       bnd (spinlock_release LkPid s) (\<lambda>s. Inr (n, s)))"

definition wake_one :: "chan option \<Rightarrow> proc \<Rightarrow> proc" where
  "wake_one ch p = (if p_state p = SLEEPING \<and> sleep_space p = ch then p\<lparr>p_state := RUNNABLE\<rparr> else p)"

definition proc_wakeup :: "chan option \<Rightarrow> 'a proc_state_scheme \<Rightarrow> 'a proc_state_scheme res" where
  "proc_wakeup ch = for_each [0..<N_PROC] (\<lambda>i s.
     if Some i \<noteq> myproc s then
       bnd (spinlock_acquire (LkProc i) s) (\<lambda>s.
       spinlock_release (LkProc i) (upd_proc i (wake_one ch) s))
     else Inr s)"

definition proc_sleep_enter :: "chan \<Rightarrow> lockid \<Rightarrow> 'a proc_state_scheme \<Rightarrow> 'a proc_state_scheme res" where
  "proc_sleep_enter ch lk = (\<lambda>s. with_myproc (\<lambda>p.
     bnd (spinlock_acquire (LkProc p) s) (\<lambda>s.
     bnd (spinlock_release lk s) (\<lambda>s.
     Inr (upd_proc p (\<lambda>p. p\<lparr>sleep_space := Some ch, p_state := SLEEPING\<rparr>) s)))) s)"

definition proc_sleep_resume :: "lockid \<Rightarrow> 'a proc_state_scheme \<Rightarrow> 'a proc_state_scheme res" where
  "proc_sleep_resume lk = (\<lambda>s. with_myproc (\<lambda>p.
     bnd (spinlock_release (LkProc p) (upd_proc p (\<lambda>p. p\<lparr>sleep_space := None\<rparr>) s)) (\<lambda>s.
     spinlock_acquire lk s)) s)"

definition proc_yield_enter :: "'a proc_state_scheme \<Rightarrow> 'a proc_state_scheme res" where
  "proc_yield_enter = (\<lambda>s. with_myproc (\<lambda>p.
     bnd (spinlock_acquire (LkProc p) s) (\<lambda>s.
     Inr (upd_proc p (\<lambda>p. p\<lparr>p_state := RUNNABLE\<rparr>) s))) s)"

definition proc_yield_resume :: "'a proc_state_scheme \<Rightarrow> 'a proc_state_scheme res" where
  "proc_yield_resume = (\<lambda>s. with_myproc (\<lambda>p. spinlock_release (LkProc p) s) s)"

text \<open>
  One round of the loop of \<open>proc_scheduler\<close> up to \<open>swtch\<close>: \<open>True\<close> when process \<open>i\<close> was
  chosen (its lock is then held across the switch), and the end of the round after it.
\<close>

definition sched_pick :: "nat \<Rightarrow> 'a proc_state_scheme \<Rightarrow> (bool \<times> 'a proc_state_scheme) res" where
  "sched_pick i s =
     bnd (spinlock_acquire (LkProc i) s) (\<lambda>s.
     if p_state (proc_pool s i) = RUNNABLE then
       let s = upd_proc i (\<lambda>p. p\<lparr>p_state := RUNNING\<rparr>) s
       in Inr (True, set_mycpu ((mycpu s)\<lparr>cproc := Some i\<rparr>) s)
     else bnd (spinlock_release (LkProc i) s) (\<lambda>s. Inr (False, s)))"

definition sched_back :: "nat \<Rightarrow> 'a proc_state_scheme \<Rightarrow> 'a proc_state_scheme res" where
  "sched_back i s = spinlock_release (LkProc i) (set_mycpu ((mycpu s)\<lparr>cproc := None\<rparr>) s)"

section \<open>Sleeplocks\<close>

text \<open>
  The sleeplocks are the ones inside buffers and inodes; each is named by its inner spinlock.
  \<open>sleeplock_acquire\<close> on a taken lock goes to sleep: \<open>Sleep\<close>.
\<close>

definition sleeplock_init :: "lockid \<Rightarrow> 'a proc_state_scheme \<Rightarrow> 'a proc_state_scheme" where
  "sleeplock_init l s = set_slock l \<lparr>slk_locked = False, slk_pid = 0\<rparr> (spinlock_init l s)"

definition sleeplock_holding :: "lockid \<Rightarrow> 'a proc_state_scheme \<Rightarrow> (bool \<times> 'a proc_state_scheme) res" where
  "sleeplock_holding l s =
     bnd (spinlock_acquire l s) (\<lambda>s.
     bnd (if slk_locked (slocks s l)
          then with_myproc (\<lambda>p. Inr (slk_pid (slocks s l) = pid (proc_pool s p))) s
          else Inr False) (\<lambda>h.
     bnd (spinlock_release l s) (\<lambda>s. Inr (h, s))))"

definition sleeplock_acquire :: "lockid \<Rightarrow> 'a proc_state_scheme \<Rightarrow> 'a proc_state_scheme res" where
  "sleeplock_acquire l s =
     bnd (spinlock_acquire l s) (\<lambda>s.
     if slk_locked (slocks s l) then bnd (proc_sleep_enter (ChSlk l) l s) (\<lambda>s. Inl Sleep)
     else with_myproc (\<lambda>p.
       spinlock_release l (set_slock l \<lparr>slk_locked = True, slk_pid = pid (proc_pool s p)\<rparr> s)) s)"

definition sleeplock_release :: "lockid \<Rightarrow> 'a proc_state_scheme \<Rightarrow> 'a proc_state_scheme res" where
  "sleeplock_release l s =
     bnd (spinlock_acquire l s) (\<lambda>s.
     bnd (proc_wakeup (Some (ChSlk l)) (set_slock l \<lparr>slk_locked = False, slk_pid = 0\<rparr> s)) (\<lambda>s.
     spinlock_release l s))"

section \<open>Frames\<close>

lemma entered_proc [simp]:
  "proc_pool (entered l s) = proc_pool s" "slocks (entered l s) = slocks s"
  "next_pid (entered l s) = next_pid s" "init_process (entered l s) = init_process s"
  "proc_pool (stale_origin s) = proc_pool s" "slocks (stale_origin s) = slocks s"
  "next_pid (stale_origin s) = next_pid s" "init_process (stale_origin s) = init_process s"
  by (simp_all add: entered_def push_off_def stale_origin_def cpu_defs)

lemma entered_proc_update [simp]:
  "(entered l s)\<lparr>proc_pool := p\<rparr> = entered l (s\<lparr>proc_pool := p\<rparr>)"
  "(entered l s)\<lparr>slocks := q\<rparr> = entered l (s\<lparr>slocks := q\<rparr>)"
  "(entered l s)\<lparr>next_pid := n\<rparr> = entered l (s\<lparr>next_pid := n\<rparr>)"
  "(stale_origin s)\<lparr>proc_pool := p\<rparr> = stale_origin (s\<lparr>proc_pool := p\<rparr>)"
  "(stale_origin s)\<lparr>slocks := q\<rparr> = stale_origin (s\<lparr>slocks := q\<rparr>)"
  "(stale_origin s)\<lparr>next_pid := n\<rparr> = stale_origin (s\<lparr>next_pid := n\<rparr>)"
  by (simp_all add: entered_def push_off_def stale_origin_def cpu_defs)

lemma proc_update_locks [simp]:
  "cpu_ok (s\<lparr>proc_pool := p\<rparr>) = cpu_ok s" "cpu_ok (s\<lparr>slocks := q\<rparr>) = cpu_ok s"
  "cpu_ok (s\<lparr>next_pid := n\<rparr>) = cpu_ok s"
  "free_lock l (s\<lparr>proc_pool := p\<rparr>) = free_lock l s" "free_lock l (s\<lparr>slocks := q\<rparr>) = free_lock l s"
  "free_lock l (s\<lparr>next_pid := n\<rparr>) = free_lock l s"
  "myproc (s\<lparr>proc_pool := p\<rparr>) = myproc s" "myproc (s\<lparr>slocks := q\<rparr>) = myproc s"
  by (simp_all add: cpu_ok_def free_lock_def cpu_defs myproc_def)

lemma pmem_ok_proc_update [simp]:
  "pmem_ok (s\<lparr>proc_pool := p\<rparr>) F = pmem_ok s F" "pmem_ok (s\<lparr>slocks := q\<rparr>) F = pmem_ok s F"
  "pmem_ok (s\<lparr>next_pid := n\<rparr>) F = pmem_ok s F"
  by (simp_all add: pmem_ok_def pool_ok_def pool_def)

lemma mem_only_proc [simp]:
  assumes "mem_only s t"
  shows "proc_pool t = proc_pool s" "slocks t = slocks s" "next_pid t = next_pid s"
    "init_process t = init_process s"
  using assms by (cases s; cases t; simp add: mem_only_def)+

section \<open>What wakeup and the sleeplocks do\<close>

text \<open>\<open>procs_free\<close>: no process lock is held.\<close>

definition procs_free :: "'a kcpu_scheme \<Rightarrow> bool" where
  "procs_free s \<longleftrightarrow> cpu_ok s \<and> (\<forall>i<N_PROC. free_lock (LkProc i) s)"

definition woken :: "chan option \<Rightarrow> nat option \<Rightarrow> nat \<Rightarrow> (nat \<Rightarrow> proc) \<Rightarrow> nat \<Rightarrow> proc" where
  "woken ch me n pp = (\<lambda>i. if i < n \<and> Some i \<noteq> me then wake_one ch (pp i) else pp i)"

lemma stale_entered [simp]: "cpu_ok s \<Longrightarrow> stale_origin (entered l s) = entered l s"
  by (simp add: stale_origin_def entered_def set_lock_def mycpu_def push_off_def set_mycpu_def
      intr_off_def cpu_ok_def Let_def)

definition wake_state :: "chan option \<Rightarrow> nat \<Rightarrow> 'a proc_state_scheme \<Rightarrow> 'a proc_state_scheme" where
  "wake_state ch n s = s\<lparr>proc_pool := woken ch (myproc s) n (proc_pool s)\<rparr>"

lemma wake_state_Suc:
  "wake_state ch (Suc n) s = (if Some n \<noteq> myproc s then upd_proc n (wake_one ch) (wake_state ch n s)
     else wake_state ch n s)"
proof -
  let ?w = "\<lambda>n. woken ch (myproc s) n (proc_pool s)"
  have "(?w n)(n := wake_one ch (?w n n)) = ?w (Suc n)" if "Some n \<noteq> myproc s"
    using that by (auto simp: woken_def fun_eq_iff less_Suc_eq)
  moreover have "?w (Suc n) = ?w n" if "Some n = myproc s"
    using that by (auto simp: woken_def fun_eq_iff less_Suc_eq)
  ultimately show ?thesis by (auto simp: wake_state_def upd_proc_def)
qed

lemma wake_state_frame [simp]:
  "cpu_ok (wake_state ch n s) = cpu_ok s" "free_lock l (wake_state ch n s) = free_lock l s"
  "myproc (wake_state ch n s) = myproc s" "slocks (wake_state ch n s) = slocks s"
  "mem (wake_state ch n s) = mem s"
  "wake_state ch n (entered l s) = entered l (wake_state ch n s)"
  "pmem_ok (wake_state ch n s) F = pmem_ok s F"
  by (simp_all add: wake_state_def)

lemma upd_proc_frame [simp]:
  "cpu_ok (upd_proc i f s) = cpu_ok s" "free_lock l (upd_proc i f s) = free_lock l s"
  "myproc (upd_proc i f s) = myproc s" "slocks (upd_proc i f s) = slocks s"
  "upd_proc i f (entered l s) = entered l (upd_proc i f s)"
  "upd_proc i f (stale_origin s) = stale_origin (upd_proc i f s)" "mem (upd_proc i f s) = mem s"
  "pmem_ok (upd_proc i f s) F = pmem_ok s F"
  by (simp_all add: upd_proc_def)

lemma wakeup_prefix:
  assumes "cpu_ok s" and "\<And>i. i < n \<Longrightarrow> Some i \<noteq> myproc s \<Longrightarrow> free_lock (LkProc i) s"
  shows "for_each [0..<n] (\<lambda>i s.
     if Some i \<noteq> myproc s then
       bnd (spinlock_acquire (LkProc i) s) (\<lambda>s.
       spinlock_release (LkProc i) (upd_proc i (wake_one ch) s))
     else Inr s) s =
     Inr (if \<exists>i<n. Some i \<noteq> myproc s then stale_origin (wake_state ch n s) else wake_state ch n s)"
  using assms(2)
proof (induction n)
  case 0
  then show ?case by (simp add: wake_state_def woken_def)
next
  case (Suc n)
  have "Some n \<noteq> myproc s \<Longrightarrow> free_lock (LkProc n) s" using Suc.prems by simp
  then show ?case using Suc assms(1)
    by (auto simp: for_each_append wake_state_Suc less_Suc_eq simp del: entered_proc_update)
qed

lemma proc_wakeup_others:
  assumes "cpu_ok s" and "\<And>i. i < N_PROC \<Longrightarrow> Some i \<noteq> myproc s \<Longrightarrow> free_lock (LkProc i) s"
  shows "proc_wakeup ch s = Inr (stale_origin (wake_state ch N_PROC s))"
proof -
  have "\<exists>i<N_PROC. Some i \<noteq> myproc s"
  proof (cases "myproc s = Some 0")
    case True
    then show ?thesis by (intro exI[of _ 1]) simp
  next
    case False
    then show ?thesis by (intro exI[of _ 0]) auto
  qed
  then show ?thesis using wakeup_prefix[of s N_PROC ch] assms unfolding proc_wakeup_def by simp
qed

lemma proc_wakeup_eq: "procs_free s \<Longrightarrow> proc_wakeup ch s = Inr (stale_origin (wake_state ch N_PROC s))"
  by (rule proc_wakeup_others) (simp_all add: procs_free_def)

text \<open>With the lock of another process held, wakeup gets to that process and asks for the lock again.\<close>

lemma wakeup_recursive:
  assumes "cpu_ok s" and "\<And>j. j < N_PROC \<Longrightarrow> free_lock (LkProc j) s" and "i < N_PROC" and "myproc s \<noteq> Some i"
  shows "proc_wakeup ch (entered (LkProc i) s) = Inl (Panic ''spinlock_acquire: recursive lock'')"
proof -
  have l: "[0..<N_PROC] = [0..<i] @ i # [Suc i..<N_PROC]"
    using assms(3) upt_add_eq_append[of 0 i "N_PROC - i"] by (simp add: upt_conv_Cons)
  let ?t = "entered (LkProc i) s"
  have p: "cpu_ok ?t" "\<And>j. j < i \<Longrightarrow> Some j \<noteq> myproc ?t \<Longrightarrow> free_lock (LkProc j) ?t"
    using assms by simp_all
  have h: "spinlock_holding (LkProc i) (wake_state ch i ?t)" "spinlock_holding (LkProc i) (stale_origin (wake_state ch i ?t))"
    using holding_entered[of "LkProc i" "wake_state ch i s"] assms(1) by simp_all
  have me: "Some i \<noteq> myproc u" if "u = wake_state ch i ?t \<or> u = stale_origin (wake_state ch i ?t)" for u
    using that assms(4) by auto
  show ?thesis unfolding proc_wakeup_def l for_each_append using wakeup_prefix[of ?t i ch] p h me
    by (auto simp: acquire_recursive simp del: wake_state_frame(6))
qed

lemma set_slock_frame [simp]:
  "cpu_ok (set_slock l k s) = cpu_ok s" "free_lock l' (set_slock l k s) = free_lock l' s"
  "myproc (set_slock l k s) = myproc s" "proc_pool (set_slock l k s) = proc_pool s"
  "set_slock l k (entered l' s) = entered l' (set_slock l k s)" "mem (set_slock l k s) = mem s"
  "slocks (set_slock l k s) l' = (if l' = l then k else slocks s l')"
  "pmem_ok (set_slock l k s) F = pmem_ok s F"
  "procs_free (set_slock l k s) = procs_free s"
  by (simp_all add: set_slock_def procs_free_def)

lemma procs_free_entered: "procs_free s \<Longrightarrow> (\<And>i. l \<noteq> LkProc i) \<Longrightarrow> procs_free (entered l s)"
  by (auto simp: procs_free_def)

lemma procs_free_cpu: "procs_free s \<Longrightarrow> cpu_ok s"
  by (simp add: procs_free_def)

lemma sleeplock_acquire_eq:
  assumes "cpu_ok s" and "free_lock l s" and "\<not> slk_locked (slocks s l)" and "myproc s = Some p"
  shows "sleeplock_acquire l s =
    Inr (stale_origin (set_slock l \<lparr>slk_locked = True, slk_pid = pid (proc_pool s p)\<rparr> s))"
  using assms by (simp add: sleeplock_acquire_def with_myproc_def)

text \<open>Releasing clears the lock and makes the processes that sleep on it runnable.\<close>

lemma sleeplock_release_eq:
  assumes "procs_free s" and "free_lock l s" and "\<And>i. l \<noteq> LkProc i"
  shows "sleeplock_release l s = Inr (stale_origin
     (wake_state (Some (ChSlk l)) N_PROC (set_slock l \<lparr>slk_locked = False, slk_pid = 0\<rparr> s)))"
  using assms proc_wakeup_eq[of "entered l (set_slock l \<lparr>slk_locked = False, slk_pid = 0\<rparr> s)"]
    procs_free_entered[of "set_slock l \<lparr>slk_locked = False, slk_pid = 0\<rparr> s" l] procs_free_cpu[of s]
  by (simp add: sleeplock_release_def)

lemma sleeplock_holding_eq:
  assumes "cpu_ok s" and "free_lock l s" and "myproc s = Some p"
  shows "sleeplock_holding l s = Inr (slk_locked (slocks s l) \<and> slk_pid (slocks s l) = pid (proc_pool s p),
    stale_origin s)"
  using assms by (simp add: sleeplock_holding_def with_myproc_def)

text \<open>
  A process that asks for a sleeplock someone holds goes to sleep on it; the inner spinlock is
  free again when it does, and its own lock is held across the switch.
\<close>

lemma proc_sleep_enter_eq:
  assumes "cpu_ok s" and "free_lock l s" and "myproc s = Some p" and "free_lock (LkProc p) s"
    and "l \<noteq> LkProc p"
  shows "proc_sleep_enter ch l (entered l s) =
    Inr (entered (LkProc p) (upd_proc p (\<lambda>p. p\<lparr>sleep_space := Some ch, p_state := SLEEPING\<rparr>) s))"
  using assms by (simp add: proc_sleep_enter_def with_myproc_def)

lemma sleeplock_acquire_taken:
  assumes "cpu_ok s" and "free_lock l s" and "slk_locked (slocks s l)" and "myproc s = Some p"
    and "free_lock (LkProc p) s" and "l \<noteq> LkProc p"
  shows "sleeplock_acquire l s = Inl Sleep"
  using assms proc_sleep_enter_eq[of s l p] by (simp add: sleeplock_acquire_def)

end
