(* ===== verification/Uvm.thy ===== *)
theory Uvm
  imports Proc
begin

text \<open>
  User address spaces (\<open>mem/uvm.c\<close>): copies between the kernel and user memory, the mmap
  region list of a process, heap and stack growth, and the copy and destruction of a page
  table.
\<close>

section \<open>Copies between kernel and user memory\<close>

text \<open>The three tests on an entry before a user page is touched; \<open>need\<close> is \<open>PTE_R\<close> or \<open>PTE_W\<close>.\<close>

definition user_pte_ok :: "u64 \<Rightarrow> u64 \<Rightarrow> bool" where
  "user_pte_ok need e \<longleftrightarrow> e AND PTE_V \<noteq> 0 \<and> e AND need \<noteq> 0 \<and> e AND PTE_U \<noteq> 0"

definition chunk :: "u64 \<Rightarrow> u32 \<Rightarrow> u64 \<Rightarrow> u64" where
  "chunk va len copied =
     (let bytes_this_page = PGSIZE - va mod PGSIZE; remaining = ucast len - copied
      in if bytes_this_page < remaining then bytes_this_page else remaining)"

lemma chunk_bounds:
  assumes "c < ucast len"
  shows "0 < unat (chunk va len c)" "unat c + unat (chunk va len c) \<le> unat len"
    "unat (chunk va len c) \<le> 4096 - unat va mod 4096"
proof -
  have m: "unat (va mod 4096) = unat va mod 4096" by (simp add: unat_mod)
  have "va mod 4096 \<le> 4096" by (simp add: word_le_nat_alt unat_mod order_less_imp_le)
  then have b: "unat (4096 - va mod 4096) = 4096 - unat va mod 4096" by (simp add: unat_sub m)
  have l: "unat c < unat len" using assms by (simp add: word_less_nat_alt)
  have "unat (ucast len - c) = unat len - unat c"
    using assms by (simp add: unat_sub order_less_imp_le)
  then show "0 < unat (chunk va len c)" "unat c + unat (chunk va len c) \<le> unat len"
    "unat (chunk va len c) \<le> 4096 - unat va mod 4096"
    using b l by (auto simp: chunk_def Let_def word_less_nat_alt)
qed

lemma chunk_step:
  assumes "c < ucast len"
  shows "unat (c + chunk va len c) = unat c + unat (chunk va len c)"
proof -
  have "unat len < 2 ^ 32" using unsigned_less[of len, where 'a = nat] by simp
  then show ?thesis using chunk_bounds(2)[OF assms, of va] by (simp add: unat_word_ariths)
qed

lemma chunk_decreases:
  "c < ucast len \<Longrightarrow> unat len - unat (c + chunk va len c) < unat len - unat c"
  using chunk_bounds[of c len va] chunk_step[of c len va] by linarith

text \<open>The loops, from \<open>copied\<close> on.\<close>

function copyin_loop :: "u64 \<Rightarrow> u64 \<Rightarrow> u64 \<Rightarrow> u32 \<Rightarrow> u64 \<Rightarrow> 'a vm_state_scheme \<Rightarrow> 'a vm_state_scheme res" where
  "copyin_loop user_tbl dst src len copied s =
     (if copied < ucast len then
        let va = src + copied in
        bnd (vm_getpte user_tbl va False s) (\<lambda>(pte, s).
        if pte = 0 \<or> \<not> user_pte_ok PTE_R (load64 (mem s) pte)
        then Inl (Panic ''uvm_copyin: access violation or unmapped addr'')
        else
          let pa = PTE_TO_PA (load64 (mem s) pte); n = chunk va len copied;
              s = s\<lparr>mem := memmove (mem s) (dst + copied) (pa + va mod PGSIZE) (ucast n)\<rparr>
          in copyin_loop user_tbl dst src len (copied + n) s)
      else Inr s)"
  by pat_completeness auto
termination
  by (relation "measure (\<lambda>(tab, dst, src, len, c, s). unat len - unat c)") (use chunk_decreases in auto)

function copyout_loop :: "u64 \<Rightarrow> u64 \<Rightarrow> u64 \<Rightarrow> u32 \<Rightarrow> u64 \<Rightarrow> 'a vm_state_scheme \<Rightarrow> 'a vm_state_scheme res" where
  "copyout_loop user_tbl dst src len copied s =
     (if copied < ucast len then
        let va = dst + copied in
        bnd (vm_getpte user_tbl va False s) (\<lambda>(pte, s).
        if pte = 0 \<or> \<not> user_pte_ok PTE_W (load64 (mem s) pte)
        then Inl (Panic ''uvm_copyout: access violation or unmapped addr'')
        else
          let pa = PTE_TO_PA (load64 (mem s) pte); n = chunk va len copied;
              s = s\<lparr>mem := memmove (mem s) (pa + va mod PGSIZE) (src + copied) (ucast n)\<rparr>
          in copyout_loop user_tbl dst src len (copied + n) s)
      else Inr s)"
  by pat_completeness auto
termination
  by (relation "measure (\<lambda>(tab, dst, src, len, c, s). unat len - unat c)") (use chunk_decreases in auto)

declare copyin_loop.simps [simp del] copyout_loop.simps [simp del]

definition uvm_copyin :: "u64 \<Rightarrow> u64 \<Rightarrow> u64 \<Rightarrow> u32 \<Rightarrow> 'a vm_state_scheme \<Rightarrow> 'a vm_state_scheme res" where
  "uvm_copyin user_tbl dst src len = copyin_loop user_tbl dst src len 0"

definition uvm_copyout :: "u64 \<Rightarrow> u64 \<Rightarrow> u64 \<Rightarrow> u32 \<Rightarrow> 'a vm_state_scheme \<Rightarrow> 'a vm_state_scheme res" where
  "uvm_copyout user_tbl dst src len = copyout_loop user_tbl dst src len 0"

text \<open>
  \<open>uvm_copyin_str\<close>: the inner loop copies up to the end of the page (\<open>fuel\<close> is the number of
  bytes left on it) and says whether it met the NUL byte.
\<close>

fun str_page :: "nat \<Rightarrow> u64 \<Rightarrow> u64 \<Rightarrow> u64 \<Rightarrow> u64 \<Rightarrow> pmem \<Rightarrow> bool \<times> u64 \<times> pmem" where
  "str_page 0 k_dst maxlen n p_str m = (False, n, m)"
| "str_page (Suc left) k_dst maxlen n p_str m =
     (if n < maxlen then
        let c = m p_str; m = m(k_dst + n := c) in
        if c = 0 then (True, n, m) else str_page left k_dst maxlen (n + 1) (p_str + 1) m
      else (False, n, m))"

lemma str_page_progress:
  "str_page left k l n p m = (False, n', m') \<Longrightarrow> left > 0 \<Longrightarrow> n < l \<Longrightarrow> n < n' \<and> n' \<le> l"
proof (induction left arbitrary: n p m)
  case (Suc left)
  have n1: "unat (n + 1) = unat n + 1"
  proof -
    have "unat n < unat l" "unat l < 2 ^ 64"
      using Suc.prems(3) unsigned_less[of l, where 'a = nat] by (simp_all add: word_less_nat_alt)
    then show ?thesis by (simp add: unat_word_ariths)
  qed
  have le: "n + 1 \<le> l" "n < n + 1" using n1 Suc.prems(3) by (auto simp: word_less_nat_alt word_le_nat_alt)
  show ?case
  proof (cases "left > 0 \<and> n + 1 < l")
    case True
    have "n + 1 < n' \<and> n' \<le> l"
      using Suc.IH[of "n + 1" "p + 1" "m(k + n := m p)"] Suc.prems(1,3) True
      by (simp add: Let_def fun_upd_def split: if_splits)
    then show ?thesis using le(2) by auto
  next
    case False
    then have "str_page left k l (n + 1) q mm = (False, n + 1, mm)" for q mm by (cases left) auto
    then have "n' = n + 1" using Suc.prems by (auto simp: Let_def split: if_splits)
    then show ?thesis using le by simp
  qed
qed simp

lemma str_page_decreases:
  fixes va :: u64 and maxlen :: u32
  assumes "(False, n', m') = str_page (4096 - unat (va mod 4096)) k (ucast maxlen) n p m"
    and "n < ucast maxlen"
  shows "unat maxlen - unat n' < unat maxlen - unat n"
proof -
  have "0 < 4096 - unat (va mod 4096)" by (simp add: unat_mod)
  from str_page_progress[OF assms(1)[symmetric] this assms(2)] have "n < n' \<and> n' \<le> ucast maxlen" .
  then have "unat n < unat n'" "unat n' \<le> unat maxlen" by (simp_all add: word_less_nat_alt word_le_nat_alt)
  then show ?thesis by linarith
qed

function copyin_str_loop :: "u64 \<Rightarrow> u64 \<Rightarrow> u64 \<Rightarrow> u32 \<Rightarrow> u64 \<Rightarrow> 'a vm_state_scheme \<Rightarrow> 'a vm_state_scheme res" where
  "copyin_str_loop user_tbl dst src maxlen n s =
     (if n < ucast maxlen then
        let va = src + n in
        bnd (vm_getpte user_tbl va False s) (\<lambda>(pte, s).
        if pte = 0 \<or> \<not> user_pte_ok PTE_R (load64 (mem s) pte)
        then Inl (Panic ''uvm_copyin_str: invalid user string ptr'')
        else
          let offset = va mod PGSIZE; pa = PTE_TO_PA (load64 (mem s) pte)
          in case str_page (4096 - unat offset) dst (ucast maxlen) n (pa + offset) (mem s) of
               (found, n', m) \<Rightarrow>
                 if found then Inr (s\<lparr>mem := m\<rparr>)
                 else copyin_str_loop user_tbl dst src maxlen n' (s\<lparr>mem := m\<rparr>))
      else Inr (s\<lparr>mem := (mem s)(dst + ucast (maxlen - 1) := 0)\<rparr>))"
  by pat_completeness auto
termination
  by (relation "measure (\<lambda>(tab, dst, src, len, n, s). unat len - unat n)")
     (use str_page_decreases in auto)

declare copyin_str_loop.simps [simp del]

definition uvm_copyin_str :: "u64 \<Rightarrow> u64 \<Rightarrow> u64 \<Rightarrow> u32 \<Rightarrow> 'a vm_state_scheme \<Rightarrow> 'a vm_state_scheme res" where
  "uvm_copyin_str user_tbl dst src maxlen = copyin_str_loop user_tbl dst src maxlen 0"

section \<open>The mmap regions of a process\<close>

abbreviation (input) MMAP_END :: u64 where "MMAP_END \<equiv> TRAPFRAME - 16 * 256 * PGSIZE"
abbreviation (input) MMAP_BEGIN :: u64 where "MMAP_BEGIN \<equiv> MMAP_END - 64 * 256 * PGSIZE"

text \<open>\<open>npages * PGSIZE\<close>: a product of 32-bit operands, widened afterwards.\<close>

definition bytes_of :: "u32 \<Rightarrow> u64" where
  "bytes_of npages = ucast (npages * PGSIZE)"

definition region_end :: "mmap_region \<Rightarrow> u64" where
  "region_end r = r_begin r + bytes_of (r_npages r)"

text \<open>
  The loops over a region list take fuel: a list of pool nodes that is followed through more
  than \<open>N_MMAP\<close> nodes is cyclic, and the loop does not end (\<open>Hang\<close>). \<open>find_free_region\<close> returns the
  address (0: none) and the value of \<open>*out_prev\<close>, which stays \<open>NULL\<close> when there is none.
\<close>

fun find_free_loop :: "nat \<Rightarrow> (nat \<Rightarrow> mmap_region) \<Rightarrow> nat option \<Rightarrow> nat option \<Rightarrow> u64 \<Rightarrow> u64 \<Rightarrow>
    (u64 \<times> nat option) res" where
  "find_free_loop 0 rg cur prev candidate_start req_len = Inl Hang"
| "find_free_loop (Suc n) rg cur prev candidate_start req_len =
     (case cur of
        None \<Rightarrow> if candidate_start + req_len \<le> MMAP_END then Inr (candidate_start, prev) else Inr (0, None)
      | Some i \<Rightarrow>
          if r_begin (rg i) \<ge> candidate_start + req_len then Inr (candidate_start, prev)
          else find_free_loop n rg (r_next (rg i)) (Some i) (region_end (rg i)) req_len)"

definition find_free_region :: "(nat \<Rightarrow> mmap_region) \<Rightarrow> nat option \<Rightarrow> u32 \<Rightarrow> (u64 \<times> nat option) res" where
  "find_free_region rg head npages = find_free_loop (Suc N_MMAP) rg head None MMAP_BEGIN (bytes_of npages)"

text \<open>The search for the insertion point of a fixed address; returns \<open>prev_node\<close>.\<close>

fun find_place :: "nat \<Rightarrow> (nat \<Rightarrow> mmap_region) \<Rightarrow> nat option \<Rightarrow> nat option \<Rightarrow> u64 \<Rightarrow> u64 \<Rightarrow> nat option res" where
  "find_place 0 rg cur prev map_addr map_end = Inl Hang"
| "find_place (Suc n) rg cur prev map_addr map_end =
     (case cur of
        None \<Rightarrow> Inr prev
      | Some i \<Rightarrow>
          if r_begin (rg i) < map_addr then
            if region_end (rg i) > map_addr then Inl (Panic ''uvm_mmap: overlap detected'')
            else find_place n rg (r_next (rg i)) (Some i) map_addr map_end
          else if map_end > r_begin (rg i) then Inl (Panic ''uvm_mmap: overlap detected'')
          else Inr prev)"

definition upd_region :: "nat \<Rightarrow> (mmap_region \<Rightarrow> mmap_region) \<Rightarrow> 'a mmap_state_scheme \<Rightarrow> 'a mmap_state_scheme" where
  "upd_region i f s = set_region i (f (region s i)) s"

text \<open>Step 2 and step 3 of \<open>uvm_mmap\<close>: insertion after \<open>prev_node\<close>, and the two merges.\<close>

definition insert_region :: "nat \<Rightarrow> nat \<Rightarrow> nat option \<Rightarrow> 'a proc_state_scheme \<Rightarrow> 'a proc_state_scheme" where
  "insert_region p new_node prev_node s =
     (case prev_node of
        None \<Rightarrow>
          let s = upd_region new_node (\<lambda>r. r\<lparr>r_next := p_mmap (proc_pool s p)\<rparr>) s
          in upd_proc p (\<lambda>q. q\<lparr>p_mmap := Some new_node\<rparr>) s
      | Some pv \<Rightarrow>
          let s = upd_region new_node (\<lambda>r. r\<lparr>r_next := r_next (region s pv)\<rparr>) s
          in upd_region pv (\<lambda>r. r\<lparr>r_next := Some new_node\<rparr>) s)"

text \<open>Absorb the region \<open>b\<close> into its predecessor \<open>a\<close> when they touch.\<close>

definition absorb :: "nat \<Rightarrow> nat \<Rightarrow> 'a proc_state_scheme \<Rightarrow> 'a proc_state_scheme res" where
  "absorb a b s =
     (if region_end (region s a) = r_begin (region s b) then
        mmap_region_free (Some b)
          (upd_region a (\<lambda>r. r\<lparr>r_npages := r_npages r + r_npages (region s b), r_next := r_next (region s b)\<rparr>) s)
      else Inr s)"

definition merge_region :: "nat \<Rightarrow> nat option \<Rightarrow> 'a proc_state_scheme \<Rightarrow> 'a proc_state_scheme res" where
  "merge_region new_node prev_node s =
     bnd (case r_next (region s new_node) of
            None \<Rightarrow> Inr s | Some next_node \<Rightarrow> absorb new_node next_node s) (\<lambda>s.
     case prev_node of None \<Rightarrow> Inr s | Some pv \<Rightarrow> absorb pv new_node s)"

text \<open>Step 4: a zeroed user page for every page of the range.\<close>

definition map_fresh :: "u64 \<Rightarrow> u64 \<Rightarrow> u32 \<Rightarrow> string \<Rightarrow> 'a vm_state_scheme \<Rightarrow> 'a vm_state_scheme res" where
  "map_fresh tab va perm msg s =
     bnd (pmem_alloc False s) (\<lambda>(pa, s).
     bnd (kassert (pa \<noteq> 0) msg s) (\<lambda>s.
     vm_mappages tab va pa PGSIZE perm (s\<lparr>mem := memset (mem s) pa 0 PGSIZE\<rparr>)))"

definition uvm_mmap :: "u64 \<Rightarrow> u32 \<Rightarrow> u32 \<Rightarrow> 'a proc_state_scheme \<Rightarrow> 'a proc_state_scheme res" where
  "uvm_mmap start npages perm s0 = with_myproc (\<lambda>p.
     bnd (if start = 0 then
            bnd (find_free_region (region s0) (p_mmap (proc_pool s0 p)) npages) (\<lambda>(map_addr, prev_node).
            if map_addr = 0 then Inl (Panic ''uvm_mmap: out of virtual memory'')
            else Inr (map_addr, prev_node))
          else
            let map_end = start + bytes_of npages in
            if start < MMAP_BEGIN \<or> map_end > MMAP_END
            then Inl (Panic ''uvm_mmap: invalid address range'')
            else bnd (find_place (Suc N_MMAP) (region s0) (p_mmap (proc_pool s0 p)) None start map_end)
                   (\<lambda>prev_node. Inr (start, prev_node))) (\<lambda>(map_addr, prev_node).
     bnd (mmap_region_alloc s0) (\<lambda>(new_node, s).
     let s = upd_region new_node (\<lambda>r. r\<lparr>r_begin := map_addr, r_npages := npages\<rparr>) s;
         s = insert_region p new_node prev_node s in
     bnd (merge_region new_node prev_node s) (\<lambda>s.
     for_each [0..<unat npages] (\<lambda>i. map_fresh (pgtbl (proc_pool s p)) (map_addr + 4096 * of_nat i) perm
       ''uvm_mmap: pmem alloc failed'') s)))) s0"

text \<open>The loop of \<open>uvm_munmap\<close> over the region list, with the four ways a region is hit.\<close>

definition set_link :: "nat \<Rightarrow> nat option \<Rightarrow> nat option \<Rightarrow> 'a proc_state_scheme \<Rightarrow> 'a proc_state_scheme" where
  "set_link p prev nxt s =
     (case prev of
        None \<Rightarrow> upd_proc p (\<lambda>q. q\<lparr>p_mmap := nxt\<rparr>) s
      | Some pv \<Rightarrow> upd_region pv (\<lambda>r. r\<lparr>r_next := nxt\<rparr>) s)"

fun munmap_loop :: "nat \<Rightarrow> nat \<Rightarrow> u64 \<Rightarrow> u64 \<Rightarrow> nat option \<Rightarrow> nat option \<Rightarrow> 'a proc_state_scheme \<Rightarrow>
    'a proc_state_scheme res" where
  "munmap_loop 0 p start unmap_end walker prev s = Inl Hang"
| "munmap_loop (Suc n) p start unmap_end walker prev s =
     (case walker of
        None \<Rightarrow> Inr s
      | Some w \<Rightarrow>
          let rb = r_begin (region s w); re = region_end (region s w) in
          if unmap_end \<le> rb then Inr s
          else if start \<ge> re then munmap_loop n p start unmap_end (r_next (region s w)) (Some w) s
          else
            let overlap_start = (if start > rb then start else rb);
                overlap_end = (if unmap_end < re then unmap_end else re) in
            bnd (vm_unmappages (pgtbl (proc_pool s p)) overlap_start (overlap_end - overlap_start) True s) (\<lambda>s.
            if start \<le> rb \<and> unmap_end \<ge> re then
              let nxt = r_next (region s w) in
              bnd (mmap_region_free (Some w) (set_link p prev nxt s)) (\<lambda>s.
              munmap_loop n p start unmap_end nxt prev s)
            else if start \<le> rb \<and> unmap_end < re then
              Inr (upd_region w (\<lambda>r. r\<lparr>r_begin := unmap_end,
                r_npages := r_npages r - ucast ((unmap_end - rb) div PGSIZE)\<rparr>) s)
            else if start > rb \<and> unmap_end \<ge> re then
              let s = upd_region w (\<lambda>r. r\<lparr>r_npages := r_npages r - ucast ((re - start) div PGSIZE)\<rparr>) s
              in munmap_loop n p start unmap_end (r_next (region s w)) (Some w) s
            else
              bnd (mmap_region_alloc s) (\<lambda>(new_node, s).
              let s = upd_region new_node (\<lambda>r. r\<lparr>r_begin := unmap_end,
                        r_npages := ucast ((re - unmap_end) div PGSIZE), r_next := r_next (region s w)\<rparr>) s
              in Inr (upd_region w (\<lambda>r. r\<lparr>r_npages := ucast ((start - rb) div PGSIZE),
                        r_next := Some new_node\<rparr>) s))))"

definition uvm_munmap :: "u64 \<Rightarrow> u32 \<Rightarrow> 'a proc_state_scheme \<Rightarrow> 'a proc_state_scheme res" where
  "uvm_munmap start npages s = with_myproc (\<lambda>p.
     let unmap_end = start + bytes_of npages in
     if start < MMAP_BEGIN \<or> unmap_end > MMAP_END then Inl (Panic ''uvm_munmap: address out of range'')
     else munmap_loop (Suc N_MMAP) p start unmap_end (p_mmap (proc_pool s p)) None s) s"

section \<open>Heap and stack\<close>

definition PGROUNDUP :: "u64 \<Rightarrow> u64" where
  "PGROUNDUP a = (a + PGSIZE - 1) AND NOT (PGSIZE - 1)"

text \<open>The allocation of one user page and its mapping; \<open>None\<close> when there is no page.\<close>

definition grow_one :: "u64 \<Rightarrow> u64 \<Rightarrow> bool \<Rightarrow> 'a vm_state_scheme \<Rightarrow> (bool \<times> 'a vm_state_scheme) res" where
  "grow_one tab va clear s =
     bnd (pmem_alloc False s) (\<lambda>(pa, s).
     if pa = 0 then Inr (False, s)
     else
       let s = (if clear then s\<lparr>mem := memset (mem s) pa 0 PGSIZE\<rparr> else s) in
       bnd (vm_mappages tab va pa PGSIZE (PTE_R OR PTE_W OR PTE_U) s) (\<lambda>s. Inr (True, s)))"

function heap_grow_loop :: "u64 \<Rightarrow> u64 \<Rightarrow> u64 \<Rightarrow> 'a vm_state_scheme \<Rightarrow> (bool \<times> 'a vm_state_scheme) res" where
  "heap_grow_loop tab a new_heap_top s =
     (if a < new_heap_top then
        bnd (grow_one tab a True s) (\<lambda>(more, s).
        if \<not> more then Inr (False, s)
        else if a + PGSIZE < a then Inl Hang
        else heap_grow_loop tab (a + PGSIZE) new_heap_top s)
      else Inr (True, s))"
  by pat_completeness auto
termination
proof (relation "measure (\<lambda>(tab, a, top, s). unat top - unat a)", simp)
  fix tab a top :: u64 and s t :: "'a vm_state_scheme" and xx :: "bool \<times> 'a vm_state_scheme" and more :: bool
  assume "a < top" "\<not> a + PGSIZE < a"
  then have "unat a < unat top" "unat a \<le> unat (a + 4096)" "a \<noteq> a + 4096"
    by (auto simp: word_less_nat_alt)
  then have "unat a < unat (a + 4096)" by (metis le_neq_implies_less word_unat_eq_iff)
  with \<open>unat a < unat top\<close>
  show "((tab, a + PGSIZE, top, t), tab, a, top, s) \<in> measure (\<lambda>(tab, a, top, s). unat top - unat a)"
    by simp
qed

declare heap_grow_loop.simps [simp del]

definition uvm_heap_grow :: "u64 \<Rightarrow> u64 \<Rightarrow> u32 \<Rightarrow> 'a vm_state_scheme \<Rightarrow> (u64 \<times> 'a vm_state_scheme) res" where
  "uvm_heap_grow tab cur_heap_top len s =
     (let new_heap_top = cur_heap_top + ucast len in
      bnd (heap_grow_loop tab (PGROUNDUP cur_heap_top) new_heap_top s) (\<lambda>(done, s).
      Inr (if done then new_heap_top else 0, s)))"

definition uvm_heap_ungrow :: "u64 \<Rightarrow> u64 \<Rightarrow> u32 \<Rightarrow> 'a vm_state_scheme \<Rightarrow> (u64 \<times> 'a vm_state_scheme) res" where
  "uvm_heap_ungrow tab current_top bytes s =
     (if bytes = 0 then Inr (current_top, s)
      else
        let new_top = (if current_top > ucast bytes then current_top - ucast bytes else 0);
            page_aligned_curr = PGROUNDUP current_top;
            page_aligned_new = PGROUNDUP new_top;
            page_aligned_new = (if page_aligned_new < USER_BASE + PGSIZE then USER_BASE + PGSIZE
                                else page_aligned_new) in
        bnd (if page_aligned_curr > page_aligned_new
             then vm_unmappages tab page_aligned_new (page_aligned_curr - page_aligned_new) True s
             else Inr s) (\<lambda>s.
        Inr (new_top, s)))"

text \<open>
  The loop of \<open>uvm_ustack_grow\<close> from round \<open>i\<close> on, with \<open>n\<close> rounds left; \<open>None\<close> is the value
  \<open>(uint64)-1\<close> after the pages mapped so far were taken back.
\<close>

fun stack_grow_loop :: "u64 \<Rightarrow> u64 \<Rightarrow> nat \<Rightarrow> nat \<Rightarrow> 'a vm_state_scheme \<Rightarrow> (bool \<times> 'a vm_state_scheme) res" where
  "stack_grow_loop tab current_bottom i 0 s = Inr (True, s)"
| "stack_grow_loop tab current_bottom i (Suc n) s =
     (let va = current_bottom - (of_nat i + 1) * PGSIZE in
      bnd (grow_one tab va False s) (\<lambda>(more, s).
      if \<not> more then
        bnd (if i > 0 then vm_unmappages tab (va + PGSIZE) (of_nat i * PGSIZE) True s else Inr s) (\<lambda>s.
        Inr (False, s))
      else stack_grow_loop tab current_bottom (Suc i) n s))"

definition uvm_ustack_grow :: "u64 \<Rightarrow> u64 \<Rightarrow> u64 \<Rightarrow> 'a vm_state_scheme \<Rightarrow> (u64 \<times> 'a vm_state_scheme) res" where
  "uvm_ustack_grow tab current_pages fault_addr s =
     (if fault_addr \<ge> TRAPFRAME then Inr (-1, s)
      else if fault_addr < MMAP_END then Inr (-1, s)
      else
        let current_bottom = TRAPFRAME - current_pages * PGSIZE in
        if fault_addr \<ge> current_bottom then Inr (current_pages, s)
        else
          let target_bottom = fault_addr AND NOT (PGSIZE - 1);
              pages_needed = ucast ((current_bottom - target_bottom) div PGSIZE) :: u32 in
          bnd (stack_grow_loop tab current_bottom 0 (unat pages_needed) s) (\<lambda>(ok, s).
          Inr (if ok then current_pages + ucast pages_needed else -1, s)))"

section \<open>Destroying and copying page tables\<close>

fun free_pagetable :: "nat \<Rightarrow> u64 \<Rightarrow> 'a vm_state_scheme \<Rightarrow> 'a vm_state_scheme res" where
  "free_pagetable 0 tab s =
     bnd (for_each [0..<512] (\<lambda>i s.
       let pte = load64 (mem s) (entry_addr tab (of_nat i)) in
       if pte AND PTE_V \<noteq> 0 \<and> pte AND PTE_U \<noteq> 0 then pmem_free (PTE_TO_PA pte) False s else Inr s) s)
     (pmem_free tab True)"
| "free_pagetable (Suc level) tab s =
     bnd (for_each [0..<512] (\<lambda>i s.
       let pte = load64 (mem s) (entry_addr tab (of_nat i)) in
       if pte AND PTE_V \<noteq> 0 then free_pagetable level (PTE_TO_PA pte) s else Inr s) s)
     (pmem_free tab True)"

definition uvm_destroy_pgtbl :: "u64 \<Rightarrow> 'a vm_state_scheme \<Rightarrow> 'a vm_state_scheme res" where
  "uvm_destroy_pgtbl tab = free_pagetable 2 tab"

text \<open>One round of \<open>copy_virt_range\<close>; \<open>pmem_alloc\<close> does not return NULL, and its callers ignore -1.\<close>

definition copy_page :: "u64 \<Rightarrow> u64 \<Rightarrow> u64 \<Rightarrow> 'a vm_state_scheme \<Rightarrow> (bool \<times> 'a vm_state_scheme) res" where
  "copy_page src_tbl dst_tbl va s =
     bnd (vm_getpte src_tbl va False s) (\<lambda>(src_pte, s).
     if src_pte = 0 \<or> load64 (mem s) src_pte AND PTE_V = 0
     then Inl (Panic ''uvm_copy: source pte missing'')
     else
       let e = load64 (mem s) src_pte; src_pa = PTE_TO_PA e; flags = ucast (PTE_FLAGS e) :: u32 in
       bnd (pmem_alloc False s) (\<lambda>(dst_pa, s).
       if dst_pa = 0 then Inr (False, s)
       else
         let s = s\<lparr>mem := memmove (mem s) dst_pa src_pa PGSIZE\<rparr> in
         bnd (vm_mappages dst_tbl va dst_pa PGSIZE flags s) (\<lambda>s. Inr (True, s))))"

function copy_virt_range :: "u64 \<Rightarrow> u64 \<Rightarrow> u64 \<Rightarrow> u64 \<Rightarrow> 'a vm_state_scheme \<Rightarrow> (bool \<times> 'a vm_state_scheme) res" where
  "copy_virt_range src_tbl dst_tbl va e s =
     (if va < e then
        bnd (copy_page src_tbl dst_tbl va s) (\<lambda>(more, s).
        if \<not> more then Inr (False, s)
        else if va + PGSIZE < va then Inl Hang
        else copy_virt_range src_tbl dst_tbl (va + PGSIZE) e s)
      else Inr (True, s))"
  by pat_completeness auto
termination
proof (relation "measure (\<lambda>(st, dt, a, e, s). unat e - unat a)", simp)
  fix st dt a e :: u64 and s t :: "'a vm_state_scheme" and xx :: "bool \<times> 'a vm_state_scheme" and more :: bool
  assume "a < e" "\<not> a + PGSIZE < a"
  then have "unat a < unat e" "unat a \<le> unat (a + 4096)" "a \<noteq> a + 4096"
    by (auto simp: word_less_nat_alt)
  then have "unat a < unat (a + 4096)" by (metis le_neq_implies_less word_unat_eq_iff)
  with \<open>unat a < unat e\<close>
  show "((st, dt, a + PGSIZE, e, t), st, dt, a, e, s) \<in> measure (\<lambda>(st, dt, a, e, s). unat e - unat a)"
    by simp
qed

declare copy_virt_range.simps [simp del]

text \<open>The mmap part of \<open>uvm_copy_pgtbl\<close> walks the region list (fuel as above).\<close>

fun copy_regions :: "nat \<Rightarrow> u64 \<Rightarrow> u64 \<Rightarrow> nat option \<Rightarrow> 'a mmap_state_scheme \<Rightarrow> 'a mmap_state_scheme res" where
  "copy_regions 0 old_tbl new_tbl walker s = Inl Hang"
| "copy_regions (Suc n) old_tbl new_tbl walker s =
     (case walker of
        None \<Rightarrow> Inr s
      | Some w \<Rightarrow>
          bnd (copy_virt_range old_tbl new_tbl (r_begin (region s w)) (region_end (region s w)) s) (\<lambda>(_, s).
          copy_regions n old_tbl new_tbl (r_next (region s w)) s))"

definition uvm_copy_pgtbl :: "u64 \<Rightarrow> u64 \<Rightarrow> u64 \<Rightarrow> u64 \<Rightarrow> nat option \<Rightarrow> 'a mmap_state_scheme \<Rightarrow>
    'a mmap_state_scheme res" where
  "uvm_copy_pgtbl old_tbl new_tbl htop ustack_pages mmap_head s =
     bnd (copy_virt_range old_tbl new_tbl USER_BASE (USER_BASE + PGSIZE) s) (\<lambda>(_, s).
     bnd (if htop > USER_BASE + PGSIZE
          then copy_virt_range old_tbl new_tbl (USER_BASE + PGSIZE) (PGROUNDUP htop) s
          else Inr (True, s)) (\<lambda>(_, s).
     bnd (if ustack_pages > 0
          then copy_virt_range old_tbl new_tbl (TRAPFRAME - ustack_pages * PGSIZE) TRAPFRAME s
          else Inr (True, s)) (\<lambda>(_, s).
     copy_regions (Suc N_MMAP) old_tbl new_tbl mmap_head s)))"

end
