(* ===== verification/Ucopy.thy ===== *)
theory Ucopy
  imports Uvm
begin

text \<open>
  What the user-memory copies of \<open>mem/uvm.c\<close> do: every byte goes through the page table, a
  page that is unmapped or lacks the permission stops the kernel.
\<close>

section \<open>User addresses\<close>

text \<open>The physical page and the physical address behind a user address, for an access \<open>need\<close>.\<close>

definition upage :: "u64 \<Rightarrow> pmem \<Rightarrow> u64 \<Rightarrow> u64 \<Rightarrow> u64 option" where
  "upage need m r va =
     (if va < VA_MAX then
        case vlookup m r va of None \<Rightarrow> None
        | Some e \<Rightarrow> if user_pte_ok need e then Some (PTE_TO_PA e) else None
      else None)"

definition uaddr :: "u64 \<Rightarrow> pmem \<Rightarrow> u64 \<Rightarrow> u64 \<Rightarrow> u64" where
  "uaddr need m r va = (case upage need m r va of None \<Rightarrow> 0 | Some pa \<Rightarrow> pa + va mod 4096)"

lemma getpte_user:
  assumes "pt_ok (mem s) r" and "r \<noteq> 0"
  shows "\<exists>a. vm_getpte r va False s = Inr (a, s) \<and>
    (case upage need (mem s) r va of
       None \<Rightarrow> a = 0 \<or> \<not> user_pte_ok need (load64 (mem s) a)
     | Some pa \<Rightarrow> a \<noteq> 0 \<and> user_pte_ok need (load64 (mem s) a) \<and> PTE_TO_PA (load64 (mem s) a) = pa)"
proof (cases "va < VA_MAX")
  case False
  then have "VA_MAX \<le> va" by (simp only: not_less)
  then show ?thesis using False assms(2) by (simp add: vm_getpte_def upage_def)
next
  case True
  have g: "vm_getpte r va False s = Inr (slot (mem s) r va, s)" by (rule vm_getpte_lookup[OF True assms(2)])
  show ?thesis
  proof (cases "tbl (mem s) r (va_path va)")
    case None
    then show ?thesis using g True by (simp add: slot_def upage_def vlookup_def)
  next
    case (Some u)
    have "slot (mem s) r va \<noteq> 0" using slot_entry(1)[OF assms(1), of va] Some by simp
    moreover have "load64 (mem s) (slot (mem s) r va) = pte (mem s) u (vpn va 0)"
      using slot_entry(2)[OF assms(1) Some] by (simp add: entry_addr_pte)
    ultimately show ?thesis using g True Some
      by (auto simp: upage_def vlookup_def user_pte_ok_def Let_def)
  qed
qed

lemma upage_less: "upage need m r va = Some pa \<Longrightarrow> va < VA_MAX"
  by (simp add: upage_def split: if_splits)

lemma upage_aligned: "upage need m r va = Some pa \<Longrightarrow> page_aligned pa"
  by (auto simp: upage_def split: if_splits option.splits)

lemma upage_same_page:
  assumes "upage need m r va = Some pa" and "upage need m r va' = Some pa'" and "pg va = pg va'"
  shows "pa' = pa"
proof -
  have "va_path va = va_path va'" "vpn va 0 = vpn va' 0"
    using same_page_iff[OF upage_less[OF assms(1)] upage_less[OF assms(2)]] assms(3) by auto
  then have "vlookup m r va = vlookup m r va'" by (simp only: vlookup_def)
  then show ?thesis using assms(1,2) by (auto simp: upage_def split: if_splits option.splits)
qed

lemma upage_outside:
  assumes "pt_ok m r" and "\<And>t x. t \<in> tables m r \<Longrightarrow> pg x = pg t \<Longrightarrow> m' x = m x"
  shows "upage need m' r va = upage need m r va"
  using pt_outside(3)[OF assms] by (simp add: upage_def)

section \<open>Splitting a range into chunks\<close>

lemma range_split:
  fixes x d c :: u64
  assumes "unat c + n \<le> 2 ^ 32"
  shows "unat (x - d) < unat c + n \<longleftrightarrow> unat (x - d) < unat c \<or> unat (x - (d + c)) < n"
proof -
  define y where "y = x - d"
  have e: "x - (d + c) = y - c" by (simp add: y_def)
  show ?thesis
  proof (cases "c \<le> y")
    case True
    then have "unat (y - c) = unat y - unat c" "unat c \<le> unat y" by (simp_all add: unat_sub word_le_nat_alt)
    then show ?thesis unfolding e y_def[symmetric] by linarith
  next
    case False
    then have "unat y < unat c" by (simp add: word_le_nat_alt)
    then show ?thesis unfolding y_def[symmetric] by simp
  qed
qed

lemma in_page_offset:
  fixes va k :: u64
  assumes "unat va mod 4096 + unat k < 4096"
  shows "pg (va + k) = pg va" and "(va + k) mod 4096 = va mod 4096 + k"
    and "unat (va mod 4096 + k) = unat va mod 4096 + unat k"
proof -
  define b where "b = va - va mod 4096"
  have "va mod 4096 \<le> va" by (simp add: word_le_nat_alt unat_mod)
  then have ub: "unat b = unat va - unat va mod 4096" by (simp add: b_def unat_sub unat_mod)
  then have bal: "page_aligned b" by (simp add: page_aligned_unat minus_mod_eq_mult_div)
  have off: "unat (va mod 4096) = unat va mod 4096" by (simp add: unat_mod)
  show s: "unat (va mod 4096 + k) = unat va mod 4096 + unat k"
    using assms by (simp add: unat_word_ariths unat_mod)
  have 1: "va = b + va mod 4096" "va + k = b + (va mod 4096 + k)" by (simp_all add: b_def)
  have "unat (va mod 4096) < 4096" "unat (va mod 4096 + k) < 4096" using off s assms by simp_all
  note p = pg_page_add[OF bal this(1), folded 1(1)] pg_page_add[OF bal this(2), folded 1(2)]
  have "pg va = pg b" by (rule p(1))
  moreover have "pg (va + k) = pg b" by (rule p(2))
  ultimately show "pg (va + k) = pg va" by simp
  have "unat (va + k) = unat b + (unat va mod 4096 + unat k)"
    unfolding s[symmetric] by (subst 1(2)) (rule unat_page_add[OF bal \<open>unat (va mod 4096 + k) < 4096\<close>])
  moreover have "unat b mod 4096 = 0" using bal by (simp add: page_aligned_unat)
  ultimately have "unat (va + k) mod 4096 = unat va mod 4096 + unat k"
    using assms by (metis add.left_neutral mod_add_left_eq mod_less)
  then show "(va + k) mod 4096 = va mod 4096 + k" by (simp add: word_unat_eq_iff unat_mod s)
qed

text \<open>Within a chunk the user addresses and the physical addresses run in step.\<close>

lemma chunk_uaddr:
  assumes c: "c < ucast len" and j: "unat j < unat (chunk va len c)"
    and pa: "upage need m r va = Some pa" and pj: "upage need m r (va + j) \<noteq> None"
  shows "uaddr need m r (va + j) = pa + va mod 4096 + j"
proof -
  have "unat va mod 4096 + unat j < 4096"
    using chunk_bounds(3)[OF c, of va] j mod_less_divisor[of 4096 "unat va"] by linarith
  note o = in_page_offset[OF this]
  obtain pa' where pa': "upage need m r (va + j) = Some pa'" using pj by auto
  have "pa' = pa" by (rule upage_same_page[OF pa pa']) (simp add: o(1))
  then show ?thesis using pa' o(2) by (simp add: uaddr_def add.assoc)
qed

lemma unat_ucast_chunk: "c < ucast len \<Longrightarrow> unat (ucast (chunk va len c) :: u32) = unat (chunk va len c)"
proof -
  assume c: "c < ucast len"
  have "unat len < 2 ^ 32" using unsigned_less[of len, where 'a = nat] by simp
  then have "unat (chunk va len c) < 2 ^ 32" using chunk_bounds(2)[OF c, of va] by linarith
  then show ?thesis by (simp add: unsigned_ucast_eq take_bit_nat_eq_self)
qed

section \<open>Copying in\<close>

text \<open>
  The destination: kernel bytes outside the page table, and no user byte of the source
  lies in it.
\<close>

definition in_buf :: "u64 \<Rightarrow> nat \<Rightarrow> u64 \<Rightarrow> bool" where
  "in_buf a n x \<longleftrightarrow> unat (x - a) < n"

definition copied_in :: "pmem \<Rightarrow> u64 \<Rightarrow> u64 \<Rightarrow> u64 \<Rightarrow> nat \<Rightarrow> pmem" where
  "copied_in m r dst src n = (\<lambda>x. if in_buf dst n x then m (uaddr PTE_R m r (src + (x - dst))) else m x)"

lemma copyin_loop_ok:
  assumes pt: "pt_ok (mem s) r" "r \<noteq> 0"
    and tabs: "\<And>x t. in_buf dst (unat len) x \<Longrightarrow> t \<in> tables (mem s) r \<Longrightarrow> pg x \<noteq> pg t"
    and mapped: "\<And>i. i < unat len \<Longrightarrow> upage PTE_R (mem s) r (src + of_nat i) \<noteq> None"
    and sep: "\<And>i. i < unat len \<Longrightarrow> \<not> in_buf dst (unat len) (uaddr PTE_R (mem s) r (src + of_nat i))"
    and c: "unat c \<le> unat len"
  shows "copyin_loop r dst src len c (s\<lparr>mem := copied_in (mem s) r dst src (unat c)\<rparr>) =
    Inr (s\<lparr>mem := copied_in (mem s) r dst src (unat len)\<rparr>)"
  using c
proof (induction "unat len - unat c" arbitrary: c rule: less_induct)
  case less
  let ?m = "copied_in (mem s) r dst src (unat c)"
  show ?case
  proof (cases "c < ucast len")
    case False
    then have "unat c = unat len" using less.prems by (simp add: word_less_nat_alt)
    then show ?thesis using False by (subst copyin_loop.simps) simp
  next
    case True
    let ?va = "src + c" and ?n = "chunk (src + c) len c"
    have cl: "unat c < unat len" using True by (simp add: word_less_nat_alt)
    note b = chunk_bounds[OF True, of ?va] and st = chunk_step[OF True, of ?va]
    have l32: "unat len \<le> 2 ^ 32" using unsigned_less[of len, where 'a = nat] by simp
    have out: "?m x = mem s x" if "t \<in> tables (mem s) r" "pg x = pg t" for t x
      using tabs[of x t] that cl by (auto simp: copied_in_def in_buf_def)
    note up = upage_outside[OF pt(1) out]
    have ptm: "pt_ok ?m r" by (rule pt_outside(2)[OF pt(1) out])
    have ci: "of_nat (unat c) = c" by simp
    obtain pa where pa: "upage 2 (mem s) r ?va = Some pa" using mapped[OF cl] by auto
    then have pam: "upage 2 ?m r ?va = Some pa" using up[where need = 2 and va = ?va] by simp
    from getpte_user[of "s\<lparr>mem := ?m\<rparr>" r ?va 2] ptm pt(2) pam obtain a where
      a: "vm_getpte r ?va False (s\<lparr>mem := ?m\<rparr>) = Inr (a, s\<lparr>mem := ?m\<rparr>)" "a \<noteq> 0"
        "user_pte_ok 2 (load64 ?m a)" "PTE_TO_PA (load64 ?m a) = pa" by auto
    let ?src = "pa + ?va mod 4096" and ?dst = "dst + c"
    have ua: "uaddr 2 (mem s) r (?va + j) = ?src + j" if j: "unat j < unat ?n" for j
    proof (rule chunk_uaddr[OF True j pa])
      have "unat c + unat j < unat len" using b(2) j by linarith
      from mapped[OF this] show "upage 2 (mem s) r (?va + j) \<noteq> None" by (simp add: add.assoc)
    qed
    have nin: "\<not> in_buf dst (unat len) (?src + j)" if j: "unat j < unat ?n" for j
    proof -
      have "unat c + unat j < unat len" using b(2) j by linarith
      from sep[OF this] show ?thesis using ua[OF j] by (simp add: add.assoc)
    qed
    have mv: "?dst = ?src \<or> unat (ucast ?n :: u32) \<le> unat (?dst - ?src)"
    proof (rule ccontr)
      assume "\<not> ?thesis"
      then have "unat (?dst - ?src) < unat ?n" using unat_ucast_chunk[OF True, of ?va] by simp
      from nin[OF this] show False using cl by (simp add: in_buf_def)
    qed
    have "memmove ?m ?dst ?src (ucast ?n) = copied_in (mem s) r dst src (unat (c + ?n))"
    proof
      fix x
      have split: "in_buf dst (unat (c + ?n)) x \<longleftrightarrow> in_buf dst (unat c) x \<or> unat (x - ?dst) < unat ?n"
        unfolding in_buf_def st by (rule range_split) (use b(2) l32 in linarith)
      have val: "?m (?src + (x - ?dst)) = mem s (uaddr 2 (mem s) r (src + (x - dst)))"
        if j: "unat (x - ?dst) < unat ?n"
      proof -
        have "\<not> in_buf dst (unat c) (?src + (x - ?dst))" using nin[OF j] cl by (simp add: in_buf_def)
        moreover have "?va + (x - ?dst) = src + (x - dst)" by simp
        ultimately show ?thesis using ua[OF j] by (simp add: copied_in_def)
      qed
      show "memmove ?m ?dst ?src (ucast ?n) x = copied_in (mem s) r dst src (unat (c + ?n)) x"
        unfolding memmove_apply[OF mv] unat_ucast_chunk[OF True, of ?va]
        using split val by (auto simp: copied_in_def)
    qed
    then have "copyin_loop r dst src len c (s\<lparr>mem := ?m\<rparr>) =
        copyin_loop r dst src len (c + ?n) (s\<lparr>mem := copied_in (mem s) r dst src (unat (c + ?n))\<rparr>)"
      using a True by (subst copyin_loop.simps) (simp add: Let_def)
    also have "\<dots> = Inr (s\<lparr>mem := copied_in (mem s) r dst src (unat len)\<rparr>)"
      by (rule less.hyps) (use chunk_decreases[OF True, of ?va] st b(2) in auto)
    finally show ?thesis .
  qed
qed

section \<open>Copying out\<close>

text \<open>
  \<open>copied_out m0 m n\<close>: the first \<open>n\<close> bytes are at the physical addresses of the user range, and
  no other byte has changed.
\<close>

definition copied_out :: "pmem \<Rightarrow> pmem \<Rightarrow> u64 \<Rightarrow> u64 \<Rightarrow> u64 \<Rightarrow> nat \<Rightarrow> bool" where
  "copied_out m0 m r dst src n \<longleftrightarrow>
     (\<forall>i<n. m (uaddr PTE_W m0 r (dst + of_nat i)) = m0 (src + of_nat i)) \<and>
     (\<forall>x. (\<forall>i<n. x \<noteq> uaddr PTE_W m0 r (dst + of_nat i)) \<longrightarrow> m x = m0 x)"

lemma copied_out_extend:
  assumes m: "copied_out m0 m r dst src k" and kl: "k + n \<le> l"
    and ua: "\<And>j. j < n \<Longrightarrow> uaddr 4 m0 r (dst + of_nat (k + j)) = d + of_nat j"
    and inj: "\<And>i j. i < l \<Longrightarrow> j < i \<Longrightarrow>
        uaddr 4 m0 r (dst + of_nat i) \<noteq> uaddr 4 m0 r (dst + of_nat j)"
    and n: "n < 2 ^ 64"
    and m': "\<And>x. m' x = (if unat (x - d) < n then m0 (src + of_nat k + (x - d)) else m x)"
  shows "copied_out m0 m' r dst src (k + n)"
  unfolding copied_out_def
proof (intro conjI allI impI)
  fix i assume i: "i < k + n"
  show "m' (uaddr 4 m0 r (dst + of_nat i)) = m0 (src + of_nat i)"
  proof (cases "k \<le> i")
    case True
    then obtain j where j: "i = k + j" "j < n" using i by (metis le_iff_add nat_add_left_cancel_less)
    then show ?thesis using ua[OF j(2)] n m' by (simp add: add.assoc)
  next
    case False
    let ?x = "uaddr 4 m0 r (dst + of_nat i)"
    have "\<not> unat (?x - d) < n"
    proof
      assume h: "unat (?x - d) < n"
      then have "?x = uaddr 4 m0 r (dst + of_nat (k + unat (?x - d)))" using ua[OF h] by simp
      then show False using inj[of "k + unat (?x - d)" i] h kl False by auto
    qed
    then show ?thesis using m' m False by (simp add: copied_out_def)
  qed
next
  fix x assume x: "\<forall>i<k + n. x \<noteq> uaddr 4 m0 r (dst + of_nat i)"
  have "\<not> unat (x - d) < n"
  proof
    assume h: "unat (x - d) < n"
    then have "x = uaddr 4 m0 r (dst + of_nat (k + unat (x - d)))" using ua[OF h] by simp
    moreover have "k + unat (x - d) < k + n" using h by simp
    ultimately show False using x by blast
  qed
  then show "m' x = m0 x" using m' m x by (simp add: copied_out_def)
qed

lemma copyout_loop_ok:
  assumes pt: "pt_ok (mem s) r" "r \<noteq> 0"
    and tabs: "\<And>i t. i < unat len \<Longrightarrow> t \<in> tables (mem s) r \<Longrightarrow>
        pg (uaddr PTE_W (mem s) r (dst + of_nat i)) \<noteq> pg t"
    and mapped: "\<And>i. i < unat len \<Longrightarrow> upage PTE_W (mem s) r (dst + of_nat i) \<noteq> None"
    and sep: "\<And>i. i < unat len \<Longrightarrow> \<not> in_buf src (unat len) (uaddr PTE_W (mem s) r (dst + of_nat i))"
    and inj: "\<And>i j. i < unat len \<Longrightarrow> j < i \<Longrightarrow>
        uaddr PTE_W (mem s) r (dst + of_nat i) \<noteq> uaddr PTE_W (mem s) r (dst + of_nat j)"
    and c: "unat c \<le> unat len" and m: "copied_out (mem s) m r dst src (unat c)"
  shows "\<exists>m'. copyout_loop r dst src len c (s\<lparr>mem := m\<rparr>) = Inr (s\<lparr>mem := m'\<rparr>) \<and>
    copied_out (mem s) m' r dst src (unat len)"
  using c m
proof (induction "unat len - unat c" arbitrary: c m rule: less_induct)
  case less
  show ?case
  proof (cases "c < ucast len")
    case False
    then have "unat c = unat len" using less.prems by (simp add: word_less_nat_alt)
    then show ?thesis using False less.prems(2) by (subst copyout_loop.simps) auto
  next
    case True
    let ?va = "dst + c" and ?n = "chunk (dst + c) len c"
    have cl: "unat c < unat len" using True by (simp add: word_less_nat_alt)
    note b = chunk_bounds[OF True, of ?va] and st = chunk_step[OF True, of ?va]
    have l32: "unat len < 2 ^ 32" using unsigned_less[of len, where 'a = nat] by simp
    have out: "m x = mem s x" if "t \<in> tables (mem s) r" "pg x = pg t" for t x
    proof -
      have "\<forall>i<unat c. x \<noteq> uaddr 4 (mem s) r (dst + of_nat i)" using tabs[of _ t] that cl by auto
      then show ?thesis using less.prems(2) by (simp add: copied_out_def)
    qed
    note up = upage_outside[OF pt(1) out]
    have ptm: "pt_ok m r" by (rule pt_outside(2)[OF pt(1) out])
    obtain pa where pa: "upage 4 (mem s) r ?va = Some pa" using mapped[OF cl] by auto
    then have pam: "upage 4 m r ?va = Some pa" using up[where need = 4 and va = ?va] by simp
    from getpte_user[of "s\<lparr>mem := m\<rparr>" r ?va 4] ptm pt(2) pam obtain a where
      a: "vm_getpte r ?va False (s\<lparr>mem := m\<rparr>) = Inr (a, s\<lparr>mem := m\<rparr>)" "a \<noteq> 0"
        "user_pte_ok 4 (load64 m a)" "PTE_TO_PA (load64 m a) = pa" by auto
    let ?dst = "pa + ?va mod 4096" and ?src = "src + c"
    let ?m' = "memmove m ?dst ?src (ucast ?n)"
    have ua: "uaddr 4 (mem s) r (dst + of_nat (unat c + j)) = ?dst + of_nat j" if j: "j < unat ?n" for j
    proof -
      have jl: "unat c + j < unat len" using b(2) j by linarith
      have uj: "unat (of_nat j :: u64) = j" using jl l32 by (intro unat_of_nat_small64) simp
      have "uaddr 4 (mem s) r (?va + of_nat j) = ?dst + of_nat j"
        by (rule chunk_uaddr[OF True _ pa]) (use mapped[OF jl] uj j in \<open>simp_all add: add.assoc\<close>)
      then show ?thesis by (simp add: add.assoc)
    qed
    have src0: "m (?src + of_nat j) = mem s (?src + of_nat j)" if j: "j < unat ?n" for j
    proof -
      have jl: "unat c + j < unat len" using b(2) j by linarith
      have "(?src + of_nat j) - src = of_nat (unat c + j)" by (simp add: algebra_simps)
      moreover have "unat (of_nat (unat c + j) :: u64) = unat c + j"
        using jl l32 by (intro unat_of_nat_small64) simp
      ultimately have "in_buf src (unat len) (?src + of_nat j)" using jl by (simp only: in_buf_def)
      then have "\<forall>i<unat c. ?src + of_nat j \<noteq> uaddr 4 (mem s) r (dst + of_nat i)"
        using sep cl by (metis order.strict_trans)
      then show ?thesis using less.prems(2) by (simp add: copied_out_def)
    qed
    have mv: "?dst = ?src \<or> unat (ucast ?n :: u32) \<le> unat (?dst - ?src)"
    proof (rule ccontr)
      assume "\<not> ?thesis"
      then have h: "unat (?dst - ?src) < unat ?n" using unat_ucast_chunk[OF True, of ?va] by simp
      have e: "uaddr 4 (mem s) r (dst + of_nat (unat c)) = ?dst" using ua[of 0] b(1) by simp
      have "?dst - src = of_nat (unat c + unat (?dst - ?src))" by (simp add: algebra_simps)
      moreover have "unat (of_nat (unat c + unat (?dst - ?src)) :: u64) = unat c + unat (?dst - ?src)"
        using h b(2) l32 by (intro unat_of_nat_small64) simp
      ultimately have "in_buf src (unat len) ?dst" using h b(2) by (simp only: in_buf_def)
      then show False using sep[OF cl] e by simp
    qed
    have "copied_out (mem s) ?m' r dst src (unat c + unat ?n)"
    proof (rule copied_out_extend[OF less.prems(2) b(2) ua inj])
      show "unat ?n < 2 ^ 64" using b(2) l32 by simp
      show "?m' x = (if unat (x - ?dst) < unat ?n then mem s (src + of_nat (unat c) + (x - ?dst)) else m x)" for x
        unfolding memmove_apply[OF mv] unat_ucast_chunk[OF True, of ?va]
        using src0[of "unat (x - ?dst)"] by simp
    qed
    then have m': "copied_out (mem s) ?m' r dst src (unat (c + ?n))" unfolding st .
    have "copyout_loop r dst src len c (s\<lparr>mem := m\<rparr>) =
        copyout_loop r dst src len (c + ?n) (s\<lparr>mem := ?m'\<rparr>)"
      using a True by (subst copyout_loop.simps) (simp add: Let_def)
    then show ?thesis using less.hyps[OF _ _ m'] chunk_decreases[OF True, of ?va] st b(2) by auto
  qed
qed

section \<open>Bad user addresses\<close>

text \<open>An access through an address without the permission stops the kernel with a panic.\<close>

lemma copyin_bad:
  assumes "pt_ok (mem s) r" "r \<noteq> 0" and "upage PTE_R (mem s) r src = None" and "len \<noteq> 0"
  shows "uvm_copyin r dst src len s = Inl (Panic ''uvm_copyin: access violation or unmapped addr'')"
proof -
  have "(0 :: u64) < ucast len" using assms(4) by (simp add: word_less_nat_alt unat_gt_0)
  moreover obtain a where "vm_getpte r src False s = Inr (a, s)" "a = 0 \<or> \<not> user_pte_ok 2 (load64 (mem s) a)"
    using getpte_user[OF assms(1,2), of src 2] assms(3) by auto
  ultimately show ?thesis unfolding uvm_copyin_def by (subst copyin_loop.simps) auto
qed

lemma copyout_bad:
  assumes "pt_ok (mem s) r" "r \<noteq> 0" and "upage PTE_W (mem s) r dst = None" and "len \<noteq> 0"
  shows "uvm_copyout r dst src len s = Inl (Panic ''uvm_copyout: access violation or unmapped addr'')"
proof -
  have "(0 :: u64) < ucast len" using assms(4) by (simp add: word_less_nat_alt unat_gt_0)
  moreover obtain a where "vm_getpte r dst False s = Inr (a, s)" "a = 0 \<or> \<not> user_pte_ok 4 (load64 (mem s) a)"
    using getpte_user[OF assms(1,2), of dst 4] assms(3) by auto
  ultimately show ?thesis unfolding uvm_copyout_def by (subst copyout_loop.simps) auto
qed

end
