(* ===== verification/Regions.thy ===== *)
theory Regions
  imports Ucopy
begin

text \<open>
  The list of mmap regions of a process: sorted, disjoint and inside the mmap window. The
  first-fit search of \<open>find_free_region\<close> finds a gap exactly when there is one, and the search
  of \<open>uvm_mmap\<close> for a fixed address accepts exactly the ranges that overlap no region.
\<close>

section \<open>Region lists\<close>

primrec Rlist :: "(nat \<Rightarrow> mmap_region) \<Rightarrow> nat option \<Rightarrow> nat list \<Rightarrow> bool" where
  "Rlist rg p [] \<longleftrightarrow> p = None"
| "Rlist rg p (i # is) \<longleftrightarrow> p = Some i \<and> Rlist rg (r_next (rg i)) is"

text \<open>\<open>regions_ok rg lo is\<close>: the regions follow each other from address \<open>lo\<close> on.\<close>

primrec regions_ok :: "(nat \<Rightarrow> mmap_region) \<Rightarrow> u64 \<Rightarrow> nat list \<Rightarrow> bool" where
  "regions_ok rg lo [] \<longleftrightarrow> lo \<le> MMAP_END"
| "regions_ok rg lo (i # is) \<longleftrightarrow> lo \<le> r_begin (rg i) \<and> r_begin (rg i) < region_end (rg i) \<and>
     regions_ok rg (region_end (rg i)) is"

definition fits :: "(nat \<Rightarrow> mmap_region) \<Rightarrow> nat list \<Rightarrow> u64 \<Rightarrow> u64 \<Rightarrow> bool" where
  "fits rg is a len \<longleftrightarrow> unat a + unat len \<le> unat MMAP_END \<and>
     (\<forall>i\<in>set is. unat a + unat len \<le> unat (r_begin (rg i)) \<or> region_end (rg i) \<le> a)"

lemma regions_ok_end: "regions_ok rg lo is \<Longrightarrow> lo \<le> MMAP_END"
proof (induction "is" arbitrary: lo)
  case (Cons i js)
  then have "lo \<le> r_begin (rg i)" "r_begin (rg i) < region_end (rg i)" "region_end (rg i) \<le> MMAP_END" by auto
  then show ?case by (meson order.strict_implies_order order_trans)
qed simp

lemma regions_ok_above: "regions_ok rg lo is \<Longrightarrow> i \<in> set is \<Longrightarrow> lo \<le> r_begin (rg i)"
proof (induction "is" arbitrary: lo)
  case (Cons j js)
  show ?case
  proof (cases "i = j")
    case False
    then have "region_end (rg j) \<le> r_begin (rg i)" using Cons by auto
    then show ?thesis using Cons.prems(1) by auto
  qed (use Cons.prems in auto)
qed simp

lemma bytes_of_less: "unat (bytes_of n) < 2 ^ 32"
  using unsigned_less[of "n * 4096", where 'a = nat] by (simp add: bytes_of_def)

lemma unat_add_le_end:
  assumes "a \<le> MMAP_END" and "unat len < 2 ^ 32"
  shows "unat (a + len) = unat a + unat len"
proof -
  have "unat a \<le> 2 ^ 38" using assms(1) by (simp add: word_le_nat_alt)
  then show ?thesis using assms(2) by (simp add: unat_word_ariths)
qed

text \<open>First fit: the address found fits; when none is found, no address at or above the start does.\<close>

lemma find_free_loop_ok:
  assumes "Rlist rg cur is" and "regions_ok rg cand is" and "length is < n"
    and "unat len < 2 ^ 32" and "cand \<noteq> 0"
  shows "\<exists>a pv. find_free_loop n rg cur prev cand len = Inr (a, pv) \<and>
    (a \<noteq> 0 \<longrightarrow> cand \<le> a \<and> fits rg is a len) \<and>
    (a = 0 \<longrightarrow> (\<forall>b. cand \<le> b \<longrightarrow> \<not> fits rg is b len))"
  using assms
proof (induction "is" arbitrary: cur prev cand n)
  case Nil
  obtain k where k: "n = Suc k" using Nil.prems(3) by (cases n) auto
  have u: "unat (cand + len) = unat cand + unat len"
    using unat_add_le_end[of cand len] Nil.prems(2,4) by simp
  have "\<not> fits rg [] b len" if "\<not> cand + len \<le> MMAP_END" "cand \<le> b" for b
    using that u by (simp add: fits_def word_le_nat_alt)
  then show ?case using k Nil.prems u by (auto simp: fits_def word_le_nat_alt)
next
  case (Cons i js)
  obtain k where k: "n = Suc k" using Cons.prems(3) by (cases n) auto
  have cur: "cur = Some i" "Rlist rg (r_next (rg i)) js" using Cons.prems(1) by auto
  have ce: "cand \<le> MMAP_END" using regions_ok_end[OF Cons.prems(2)] .
  have u: "unat (cand + len) = unat cand + unat len" by (rule unat_add_le_end[OF ce Cons.prems(4)])
  have ok: "cand \<le> r_begin (rg i)" "r_begin (rg i) < region_end (rg i)" "regions_ok rg (region_end (rg i)) js"
    using Cons.prems(2) by auto
  show ?case
  proof (cases "cand + len \<le> r_begin (rg i)")
    case True
    have "fits rg (i # js) cand len"
      unfolding fits_def
    proof (intro conjI ballI)
      have c: "unat cand + unat len \<le> unat (r_begin (rg i))" using True u by (simp add: word_le_nat_alt)
      have e: "region_end (rg i) \<le> MMAP_END" by (rule regions_ok_end[OF ok(3)])
      then have "r_begin (rg i) \<le> MMAP_END" using ok(2) by auto
      then show "unat cand + unat len \<le> unat MMAP_END" using c by (simp add: word_le_nat_alt)
      fix j assume j: "j \<in> set (i # js)"
      have "r_begin (rg i) \<le> r_begin (rg j)"
        using j regions_ok_above[OF ok(3), of j] ok(2) by auto
      then show "unat cand + unat len \<le> unat (r_begin (rg j)) \<or> region_end (rg j) \<le> cand"
        using c by (simp add: word_le_nat_alt)
    qed
    then show ?thesis using True k cur Cons.prems(5) by simp
  next
    case False
    have nz: "region_end (rg i) \<noteq> 0" using ok(2) by auto
    from Cons.IH[OF cur(2) ok(3) _ Cons.prems(4) nz, of k "Some i"] Cons.prems(3) k
    obtain a pv where r: "find_free_loop k rg (r_next (rg i)) (Some i) (region_end (rg i)) len = Inr (a, pv)"
      "a \<noteq> 0 \<Longrightarrow> region_end (rg i) \<le> a \<and> fits rg js a len"
      "a = 0 \<Longrightarrow> (\<forall>b. region_end (rg i) \<le> b \<longrightarrow> \<not> fits rg js b len)" by auto
    have "find_free_loop n rg cur prev cand len = Inr (a, pv)" using r(1) k cur False by simp
    moreover have "cand \<le> a \<and> fits rg (i # js) a len" if "a \<noteq> 0"
      using r(2)[OF that] ok by (auto simp: fits_def)
    moreover have "\<not> fits rg (i # js) b len" if "a = 0" "cand \<le> b" for b
    proof
      assume f: "fits rg (i # js) b len"
      then have "unat b + unat len \<le> unat (r_begin (rg i)) \<or> region_end (rg i) \<le> b" "fits rg js b len"
        by (auto simp: fits_def)
      moreover have "\<not> unat b + unat len \<le> unat (r_begin (rg i))"
        using False u that(2) by (simp add: word_le_nat_alt)
      ultimately show False using r(3)[OF that(1)] by auto
    qed
    ultimately show ?thesis by blast
  qed
qed

text \<open>The search for a fixed address panics exactly when the range overlaps a region.\<close>

lemma find_place_ok:
  assumes "Rlist rg cur is" and "regions_ok rg lo is" and "length is < n"
    and "map_addr < map_end" and "map_end \<le> MMAP_END"
  shows "if \<forall>i\<in>set is. map_end \<le> r_begin (rg i) \<or> region_end (rg i) \<le> map_addr
    then \<exists>pv. find_place n rg cur prev map_addr map_end = Inr pv
    else find_place n rg cur prev map_addr map_end = Inl (Panic ''uvm_mmap: overlap detected'')"
  using assms
proof (induction "is" arbitrary: cur prev lo n)
  case Nil
  then show ?case by (cases n) auto
next
  case (Cons i js)
  obtain k where k: "n = Suc k" using Cons.prems(3) by (cases n) auto
  have cur: "cur = Some i" "Rlist rg (r_next (rg i)) js" using Cons.prems(1) by auto
  have ok: "r_begin (rg i) < region_end (rg i)" "regions_ok rg (region_end (rg i)) js"
    using Cons.prems(2) by auto
  have later: "region_end (rg i) \<le> r_begin (rg j)" if "j \<in> set js" for j
    by (rule regions_ok_above[OF ok(2) that])
  show ?case
  proof (cases "r_begin (rg i) < map_addr")
    case True
    show ?thesis
    proof (cases "region_end (rg i) \<le> map_addr")
      case le: True
      then show ?thesis using Cons.IH[OF cur(2) ok(2) _ Cons.prems(4,5), of k "Some i"] Cons.prems(3) k cur True
        by (simp add: not_le[symmetric])
    next
      case gt: False
      then have "\<not> map_end \<le> r_begin (rg i)" using True Cons.prems(4) by auto
      then show ?thesis using gt k cur True by (auto simp: not_le)
    qed
  next
    case False
    show ?thesis
    proof (cases "map_end \<le> r_begin (rg i)")
      case le: True
      have "map_end \<le> r_begin (rg j)" if "j \<in> set js" for j
        using later[OF that] le ok(1) by auto
      then show ?thesis using le False k cur by auto
    next
      case gt: False
      moreover have "\<not> region_end (rg i) \<le> map_addr" using False ok(1) by auto
      ultimately show ?thesis using False k cur by (auto simp: not_le)
    qed
  qed
qed

end
