(* ===== verification/Boot.thy ===== *)
theory Boot
  imports Vmap
begin

text \<open>
  Machine states to evaluate the memory code on: the state at power-on, the one \<open>pmem_init\<close>
  makes of it for 128 MB of memory, and an address space with a fresh root table.
\<close>

definition reset_cpu :: cpu where
  "reset_cpu = \<lparr>noff = 0, origin = False, cproc = None, sie = True\<rparr>"

definition reset :: vm_state where
  "reset = \<lparr>hart = 0, cpus = (\<lambda>_. reset_cpu), locks = (\<lambda>_. \<lparr>locked = False, cpuid = -1\<rparr>),
     mem = (\<lambda>_. 0), kernel_pool = \<lparr>ar_begin = 0, ar_end = 0, allocable = 0, list_head = 0\<rparr>,
     user_pool = \<lparr>ar_begin = 0, ar_end = 0, allocable = 0, list_head = 0\<rparr>, kern_pagetable = 0\<rparr>"

lemma reset_cpu_ok [simp]: "cpu_ok reset" "free_lock l reset"
  by (simp_all add: cpu_ok_def reset_def mycpu_def reset_cpu_def free_lock_def)

lemma reset_init:
  "\<exists>t F. pmem_init 0x80100000 0x88000000 reset = Inr t \<and> pmem_ok t F \<and>
     length (F True) = 1024 \<and> length (F False) = 31488 \<and> (\<forall>k. 0x80100000 \<le> ar_begin (pool k t))"
proof -
  have "page_aligned 0x80100000" by (simp add: page_aligned_def)
  moreover have "unat (0x88000000 :: u64) = unat (0x80100000 :: u64) + 4096 * (1024 + 31488)" by simp
  ultimately obtain t where "pmem_init 0x80100000 0x88000000 reset = Inr t"
    "pmem_ok t (\<lambda>k. if k then rev (page_seq 0x80100000 1024) else rev (page_seq (0x80100000 + 1024 * 4096) 31488))"
    "ar_begin (kernel_pool t) = 0x80100000" "ar_begin (user_pool t) = 0x80100000 + 1024 * 4096"
    using pmem_init_ok[where b = "0x80100000" and e = "0x88000000" and n = 31488 and s = reset] by fastforce
  then show ?thesis by (intro exI[of _ t] exI[of _ "\<lambda>k. if k then rev (page_seq 0x80100000 1024)
      else rev (page_seq (0x80100000 + 1024 * 4096) 31488)"]) (simp add: pool_def)
qed

text \<open>A page that the kernel pool hands out is an empty root table.\<close>

lemma fresh_root_ok:
  fixes s :: "'a vm_state_scheme"
  assumes ok: "pmem_ok s F" and F: "F True = r # ps"
  shows "\<exists>t. pmem_alloc True s = Inr (r, t) \<and> vm_ok t (F(True := ps)) r \<and> mem_only s t \<and>
    (\<forall>va. vlookup (mem t) r va = None) \<and> tables (mem t) r = {r}"
proof -
  let ?t = "(stale_origin (popped True s))\<lparr>mem := memset (mem s) r 0 PGSIZE\<rparr>"
  have rin: "r \<in> set (F True)" using F by simp
  note al = pmem_okD(4)[OF ok rin]
  have r0: "r \<noteq> 0" using pmem_okD(5)[OF ok rin] by (simp add: in_region_def)
  have z: "pte (mem ?t) r i = 0" if "i < 512" for i
  proof -
    have "load64 (memset (mem s) r 0 PGSIZE) (r + 8 * of_nat i) = load64 (\<lambda>_. 0) (r + 8 * of_nat i)"
      by (rule load64_page_cong[OF entry_mod8(1)[OF al that]])
         (simp add: memset_page[OF al] entry_mod8(2)[OF al that])
    then show ?thesis by (simp add: pte_def load64_def)
  qed
  have tb: "tbl (mem ?t) r p = (if p = [] then Some r else None)" if "good_path p" for p
    using that z by (cases p) (auto simp: good_path_def child_def)
  have ts: "tables (mem ?t) r = {r}"
    using tb by (auto simp: tables_def split: if_splits) (metis good_va_path(3))
  have chk: "PTE_CHECK (pte (mem ?t) u i)"
    if "good_path (q @ [i])" "tbl (mem ?t) r q = Some u" "pte (mem ?t) u i AND 1 \<noteq> 0" for q i u
  proof -
    have "u = r" using that tb[of q] good_snoc[OF that(1)] by (simp split: if_splits)
    then show ?thesis using that z good_snoc[OF that(1)] by simp
  qed
  have inj: "p = q" if "good_path p" "good_path q" "tbl (mem ?t) r p = Some u" "tbl (mem ?t) r q = Some u" for p q u
    using that tb[OF that(1)] tb[OF that(2)] by (simp split: if_splits)
  have "pt_ok (mem ?t) r" by (rule pt_okI[OF al _ inj chk]) (use ts r0 in auto)
  moreover have "r \<notin> set ps" "r \<notin> set (F False)"
    using pmem_okD(6)[OF ok, of True] F pmem_ok_disjoint[OF ok, of True] by auto
  ultimately have vm: "vm_ok ?t (F(True := ps)) r"
    using pmem_alloc_ok[OF ok F] r0 ts by (auto simp: vm_ok_def)
  have "va_path va \<noteq> []" for va by (simp add: va_path_def)
  then have "tbl (mem ?t) r (va_path va) = None" for va using tb[OF good_va_path(1), of va] by (simp only: if_False)
  then have "vlookup (mem ?t) r va = None" for va by (simp only: vlookup_def option.case)
  then show ?thesis using pmem_alloc_eq[OF ok F] vm ts mem_only_alloc by blast
qed

lemma reset_vm:
  "\<exists>(t :: vm_state) F r. vm_ok t F r \<and> length (F True) = 1023 \<and> length (F False) = 31488 \<and>
     (\<forall>va. vlookup (mem t) r va = None)"
proof -
  obtain t F where t: "pmem_ok (t :: vm_state) F" "length (F True) = 1024" "length (F False) = 31488"
    using reset_init by blast
  then obtain r ps where "F True = r # ps" by (cases "F True") auto
  then show ?thesis using fresh_root_ok[OF t(1)] t(2,3) by fastforce
qed

end
