(* ===== verification/AddrCopy.thy ===== *)
theory AddrCopy
  imports Regions Boot
begin

text \<open>
  The copy of an address space (\<open>uvm_copy_pgtbl\<close>, for \<open>fork\<close>): the new table gets a fresh page with the same
  contents and the same permissions for every page of the copied ranges, and the old one stays as it is.
\<close>

section \<open>Two page tables\<close>

definition two_ok :: "'a vm_state_scheme \<Rightarrow> (bool \<Rightarrow> u64 list) \<Rightarrow> u64 \<Rightarrow> u64 \<Rightarrow> bool" where
  "two_ok s F a b \<longleftrightarrow> vm_ok s F a \<and> vm_ok s F b \<and> tables (mem s) a \<inter> tables (mem s) b = {}"

lemma two_okD:
  assumes "two_ok s F a b"
  shows "vm_ok s F a" "vm_ok s F b" "t \<in> tables (mem s) a \<Longrightarrow> t \<notin> tables (mem s) b" "pmem_ok s F"
  using assms vm_okD(1)[of s F a] by (auto simp: two_ok_def)

text \<open>A step on one table that stays in its tables and in free kernel pages does not touch the other.\<close>

lemma evolved_other:
  assumes t: "two_ok s F a b" and e: "evolved s F b s' F' l"
  shows "two_ok s' F' a b" "vlookup (mem s') a va = vlookup (mem s) a va" "tables (mem s') a = tables (mem s) a"
proof -
  note d = two_okD[OF t]
  note pt = vm_okD(2)[OF d(1)]
  have out: "\<forall>x. (\<forall>u \<in> tables (mem s) b \<union> set (F True). pg x \<noteq> pg u) \<longrightarrow> mem s' x = mem s x"
    using e by (simp add: evolved_def)
  have "\<forall>u \<in> tables (mem s) a. \<forall>x. pg x = pg u \<longrightarrow> mem s' x = mem s x"
  proof (intro ballI allI impI)
    fix u x assume u: "u \<in> tables (mem s) a" "pg x = pg u"
    have "pg x \<noteq> pg v" if v: "v \<in> tables (mem s) b \<union> set (F True)" for v
    proof -
      have "u \<noteq> v" using d(3)[OF u(1)] vm_okD(4)[OF d(1) u(1)] v by auto
      moreover have "page_aligned v" using v pt_okD(5)[OF vm_okD(2)[OF d(2)]] pmem_okD(4)[OF d(4)] by auto
      ultimately show ?thesis using pg_eq_aligned[OF pt_okD(5)[OF pt u(1)]] u(2) by simp
    qed
    then show "mem s' x = mem s x" using out by blast
  qed
  note o = pt_untouched[OF pt this]
  show "vlookup (mem s') a va = vlookup (mem s) a va" "tables (mem s') a = tables (mem s) a" by (rule o)+
  from e obtain us where us: "F True = us @ F' True" "tables (mem s') b = tables (mem s) b \<union> set us" "F' False = F False"
    by (auto simp: evolved_def)
  have "set (F' k) \<subseteq> set (F k)" for k using us by (cases k) auto
  then have "tables (mem s') a \<inter> set (F' k) = {}" for k using vm_okD(4)[OF d(1), of _ k] o(1) by blast
  then have "vm_ok s' F' a" using vm_okD(1)[OF evolvedD(1)[OF e]] o(2) vm_okD(3)[OF d(1)] by (simp add: vm_ok_def)
  moreover have "tables (mem s') a \<inter> tables (mem s') b = {}"
    using d(3) vm_okD(4)[OF d(1), of _ True] o(1) us by auto
  ultimately show "two_ok s' F' a b" using evolvedD(1)[OF e] by (simp add: two_ok_def)
qed

text \<open>A new user page, filled with anything.\<close>

lemma fresh_page:
  assumes t: "two_ok s F a b" and F: "F False = q # ps"
  shows "\<exists>u. pmem_alloc False s = Inr (q, u) \<and> (\<forall>x. pg x \<noteq> pg q \<longrightarrow> mem u x = mem s x) \<and>
    (\<forall>m. (\<forall>x. pg x \<noteq> pg q \<longrightarrow> m x = mem s x) \<longrightarrow> two_ok (u\<lparr>mem := m\<rparr>) (F(False := ps)) a b \<and> mem_only s (u\<lparr>mem := m\<rparr>) \<and>
       (\<forall>r \<in> {a, b}. tables m r = tables (mem s) r \<and> (\<forall>va. vlookup m r va = vlookup (mem s) r va)))"
proof -
  note d = two_okD[OF t]
  let ?u = "(stale_origin (popped False s))\<lparr>mem := memset (mem s) q 0 PGSIZE\<rparr>" and ?F = "F(False := ps)"
  have qin: "q \<in> set (F False)" using F by simp
  note qal = pmem_okD(4)[OF d(4) qin]
  have al: "pmem_alloc False s = Inr (q, ?u)" by (rule pmem_alloc_eq[OF d(4) F])
  have okU: "pmem_ok ?u ?F" by (rule pmem_alloc_ok[OF d(4) F])
  have mu: "mem ?u x = mem s x" if "pg x \<noteq> pg q" for x using memset_page[OF qal] that by simp
  have sub: "set (?F k) \<subseteq> set (F k)" for k using F by (cases k) auto
  have qnew: "q \<notin> set (?F k)" for k
    using pmem_okD(6)[OF d(4), of False] F pmem_ok_disjoint[OF d(4), of False] by (cases k) auto
  have "two_ok (?u\<lparr>mem := m\<rparr>) ?F a b \<and> mem_only s (?u\<lparr>mem := m\<rparr>) \<and>
      (\<forall>r \<in> {a, b}. tables m r = tables (mem s) r \<and> (\<forall>va. vlookup m r va = vlookup (mem s) r va))"
    if m: "\<forall>x. pg x \<noteq> pg q \<longrightarrow> m x = mem s x" for m
  proof -
    have pm: "pmem_ok (?u\<lparr>mem := m\<rparr>) ?F"
    proof (rule pmem_ok_write[OF okU])
      fix k p x assume p: "p \<in> set (?F k)" "pg x = pg p"
      have "p \<noteq> q" using p(1) qnew by auto
      then have "pg x \<noteq> pg q" using pg_eq_aligned[OF pmem_okD(4)[OF okU p(1)] qal] p(2) by simp
      then show "m x = mem ?u x" using m mu by simp
    qed
    have one: "vm_ok (?u\<lparr>mem := m\<rparr>) ?F r \<and> tables m r = tables (mem s) r \<and> (\<forall>va. vlookup m r va = vlookup (mem s) r va)"
      if r: "vm_ok s F r" for r
    proof -
      have "\<forall>v \<in> tables (mem s) r. \<forall>x. pg x = pg v \<longrightarrow> m x = mem s x"
      proof (intro ballI allI impI)
        fix v x assume v: "v \<in> tables (mem s) r" "pg x = pg v"
        show "m x = mem s x"
          using vm_okD(4)[OF r v(1), of False] pg_eq_aligned[OF pt_okD(5)[OF vm_okD(2)[OF r] v(1)] qal] v(2) qin m by auto
      qed
      note o = pt_untouched[OF vm_okD(2)[OF r] this]
      have "tables m r \<inter> set (?F k) = {}" for k using sub[of k] vm_okD(4)[OF r, of _ k] o(1) by blast
      then show ?thesis using pm o vm_okD(3)[OF r] by (simp add: vm_ok_def)
    qed
    have "mem_only s (?u\<lparr>mem := m\<rparr>)" using mem_only_alloc[where s = s and k = False and m = m] by simp
    then show ?thesis using one[OF d(1)] one[OF d(2)] d(3) by (auto simp: two_ok_def)
  qed
  then show ?thesis using al mu by blast
qed

section \<open>What a copy does\<close>

text \<open>The page behind a user address can be copied: it is an allocated user page.\<close>

definition user_pages :: "'a vm_state_scheme \<Rightarrow> (bool \<Rightarrow> u64 list) \<Rightarrow> u64 \<Rightarrow> u64 \<Rightarrow> u64 set \<Rightarrow> bool" where
  "user_pages s F a b P \<longleftrightarrow> (\<forall>va < VA_MAX. pg va \<in> P \<longrightarrow>
     (\<exists>e. vlookup (mem s) a va = Some e \<and> releasable s F b (PTE_TO_PA e)))"

text \<open>The entry of the copy of a page: the same flags, another page.\<close>

definition same_leaf :: "u64 \<Rightarrow> u64 \<Rightarrow> u64" where
  "same_leaf e q = leaf q (ucast (PTE_FLAGS e))"

text \<open>The pages numbered \<open>P\<close> have been copied; \<open>n\<close> pages were taken from the user pool.\<close>

definition page_copied :: "'a vm_state_scheme \<Rightarrow> (bool \<Rightarrow> u64 list) \<Rightarrow> u64 \<Rightarrow> u64 \<Rightarrow> 'a vm_state_scheme \<Rightarrow> (bool \<Rightarrow> u64 list) \<Rightarrow> u64 \<Rightarrow> u64 \<Rightarrow> bool" where
  "page_copied s F a b t F' va q \<longleftrightarrow> (\<exists>e. vlookup (mem s) a va = Some e \<and> vlookup (mem t) b va = Some (same_leaf e q) \<and>
     q \<in> set (F False) \<and> q \<notin> set (F' False) \<and> (\<forall>x. pg x = pg q \<longrightarrow> mem t x = mem s (PTE_TO_PA e + (x - q))))"

definition copied :: "'a vm_state_scheme \<Rightarrow> (bool \<Rightarrow> u64 list) \<Rightarrow> u64 \<Rightarrow> u64 \<Rightarrow> u64 set \<Rightarrow> nat \<Rightarrow> 'a vm_state_scheme \<Rightarrow> (bool \<Rightarrow> u64 list) \<Rightarrow> bool" where
  "copied s F a b P n t F' \<longleftrightarrow> P \<subseteq> pg ` {..<VA_MAX} \<and> two_ok t F' a b \<and> mem_only s t \<and>
     (\<exists>ps. F False = ps @ F' False \<and> length ps = n) \<and> (\<exists>us. F True = us @ F' True \<and> length us \<le> 2 * n) \<and>
     tables (mem t) b \<subseteq> tables (mem s) b \<union> set (F True) \<and>
     (\<forall>va. vlookup (mem t) a va = vlookup (mem s) a va) \<and>
     (\<forall>va < VA_MAX. pg va \<notin> P \<longrightarrow> vlookup (mem t) b va = vlookup (mem s) b va) \<and>
     (\<exists>h. inj_on h P \<and> (\<forall>va < VA_MAX. pg va \<in> P \<longrightarrow> page_copied s F a b t F' va (h (pg va)))) \<and>
     (\<forall>x. (\<forall>p \<in> tables (mem s) b \<union> set (F True) \<union> set (F False). pg x \<noteq> pg p) \<longrightarrow> mem t x = mem s x)"

lemma copied_refl: "two_ok s F a b \<Longrightarrow> copied s F a b {} 0 s F"
  by (simp add: copied_def)

lemma copiedD:
  assumes "copied s F a b P n t F'"
  shows "two_ok t F' a b" "mem_only s t" "set (F' False) \<subseteq> set (F False)" "set (F' True) \<subseteq> set (F True)"
    "length (F False) = n + length (F' False)" "length (F True) \<le> 2 * n + length (F' True)"
    "tables (mem t) b \<subseteq> tables (mem s) b \<union> set (F True)" "vlookup (mem t) a va = vlookup (mem s) a va"
    "va < VA_MAX \<Longrightarrow> pg va \<notin> P \<Longrightarrow> vlookup (mem t) b va = vlookup (mem s) b va"
    "(\<And>p. p \<in> tables (mem s) b \<union> set (F True) \<union> set (F False) \<Longrightarrow> pg x \<noteq> pg p) \<Longrightarrow> mem t x = mem s x"
  using assms unfolding copied_def by auto

text \<open>An allocated user page other than those of the copy is not touched.\<close>

lemma copied_frame:
  assumes s: "two_ok s F a b" and c: "copied s F a b P n t F'" and p: "releasable s F b p" and x: "pg x = pg p"
  shows "mem t x = mem s x"
proof (rule copiedD(10)[OF c])
  note d = two_okD[OF s]
  have p3: "in_region (pool False s) p" "p \<notin> set (F False)" "p \<notin> tables (mem s) b" using p by (simp_all add: releasable_def)
  fix q assume q: "q \<in> tables (mem s) b \<union> set (F True) \<union> set (F False)"
  have "p \<notin> set (F True)" using region_disjoint[OF d(4) p3(1)] by simp
  then have "q \<noteq> p" using q p3 by auto
  moreover have "page_aligned q" using q pmem_okD(4)[OF d(4)] pt_okD(5)[OF vm_okD(2)[OF d(2)]] by auto
  ultimately show "pg x \<noteq> pg q" using pg_eq_aligned[OF in_region_aligned[OF p3(1)]] x by simp
qed

lemma copied_releasable:
  assumes s: "two_ok s F a b" and c: "copied s F a b P n t F'" and p: "releasable s F b p"
  shows "releasable t F' b p"
proof -
  note k = copiedD[OF c]
  have p3: "in_region (pool False s) p" "p \<notin> set (F False)" "p \<notin> tables (mem s) b" using p by (simp_all add: releasable_def)
  have "p \<notin> set (F True)" using region_disjoint[OF two_okD(4)[OF s] p3(1)] by simp
  moreover have "in_region (pool False t) p" using p3(1) k(2) by (simp add: mem_only_def)
  ultimately show ?thesis using p3 k(3,7) by (auto simp: releasable_def)
qed

lemma copied_user_pages:
  assumes "two_ok s F a b" and "copied s F a b P n t F'" and "user_pages s F a b Q"
  shows "user_pages t F' a b Q"
  using assms(3) copied_releasable[OF assms(1,2)] copiedD(8)[OF assms(2)] by (simp add: user_pages_def) blast

text \<open>A page that came from the pool is an allocated page afterwards.\<close>

lemma taken_releasable:
  assumes s: "two_ok s F a b" and c: "copied s F a b P n t F'" and q: "q \<in> set (F False)" "q \<notin> set (F' False)"
  shows "releasable t F' b q"
proof -
  note d = two_okD[OF s] and k = copiedD[OF c]
  have "q \<notin> set (F True)" using pmem_ok_disjoint[OF d(4), of True] q(1) by auto
  moreover have "q \<notin> tables (mem s) b" using vm_okD(4)[OF d(2)] q(1) by blast
  ultimately have "q \<notin> tables (mem t) b" using k(7) by blast
  moreover have "in_region (pool False t) q" using pmem_okD(5)[OF d(4) q(1)] k(2) by (simp add: mem_only_def)
  ultimately show ?thesis using q(2) by (simp add: releasable_def)
qed

lemma copied_trans:
  assumes s: "two_ok s F a b" and 1: "copied s F a b P n t F'" and 2: "copied t F' a b Q m u F''"
    and up: "user_pages s F a b Q" and dis: "P \<inter> Q = {}"
  shows "copied s F a b (P \<union> Q) (n + m) u F''"
proof -
  note k1 = copiedD[OF 1] and k2 = copiedD[OF 2]
  note t = k1(1)
  from 1 obtain ps us h where p: "F False = ps @ F' False" "length ps = n" "F True = us @ F' True" "length us \<le> 2 * n" "inj_on h P"
    "\<And>va. va < VA_MAX \<Longrightarrow> pg va \<in> P \<Longrightarrow> page_copied s F a b t F' va (h (pg va))" unfolding copied_def by blast
  from 2 obtain ps' us' h' where p': "F' False = ps' @ F'' False" "length ps' = m" "F' True = us' @ F'' True" "length us' \<le> 2 * m" "inj_on h' Q"
    "\<And>va. va < VA_MAX \<Longrightarrow> pg va \<in> Q \<Longrightarrow> page_copied t F' a b u F'' va (h' (pg va))" unfolding copied_def by blast
  let ?h = "\<lambda>p. if p \<in> P then h p else h' p"
  have sub: "set (F'' False) \<subseteq> set (F' False)" using k2(3) .
  have pc: "page_copied s F a b u F'' va (?h (pg va))" if va: "va < VA_MAX" "pg va \<in> P \<union> Q" for va
  proof (cases "pg va \<in> P")
    case True
    then obtain e where e: "vlookup (mem s) a va = Some e" "vlookup (mem t) b va = Some (same_leaf e (h (pg va)))"
      "h (pg va) \<in> set (F False)" "h (pg va) \<notin> set (F' False)"
      "\<forall>x. pg x = pg (h (pg va)) \<longrightarrow> mem t x = mem s (PTE_TO_PA e + (x - h (pg va)))"
      using p(6)[OF va(1)] unfolding page_copied_def by blast
    have "pg va \<notin> Q" using True dis by blast
    then have "vlookup (mem u) b va = Some (same_leaf e (h (pg va)))" using k2(9)[OF va(1)] e(2) by simp
    moreover have "mem u x = mem t x" if "pg x = pg (h (pg va))" for x
      by (rule copied_frame[OF t 2 taken_releasable[OF s 1 e(3,4)] that])
    ultimately show ?thesis using True e sub unfolding page_copied_def by auto
  next
    case False
    then have q: "pg va \<in> Q" using va(2) by blast
    from p'(6)[OF va(1) q] obtain e where e: "vlookup (mem t) a va = Some e" "vlookup (mem u) b va = Some (same_leaf e (h' (pg va)))"
      "h' (pg va) \<in> set (F' False)" "h' (pg va) \<notin> set (F'' False)"
      "\<forall>x. pg x = pg (h' (pg va)) \<longrightarrow> mem u x = mem t (PTE_TO_PA e + (x - h' (pg va)))"
      unfolding page_copied_def by blast
    have es: "vlookup (mem s) a va = Some e" using e(1) k1(8) by simp
    have rel: "releasable s F b (PTE_TO_PA e)" using up va(1) q es unfolding user_pages_def by auto
    have al: "page_aligned (h' (pg va))" using pmem_okD(4)[OF two_okD(4)[OF t] e(3)] .
    have "mem t (PTE_TO_PA e + (x - h' (pg va))) = mem s (PTE_TO_PA e + (x - h' (pg va)))" if x: "pg x = pg (h' (pg va))" for x
    proof (rule copied_frame[OF s 1 rel])
      have "unat (x - h' (pg va)) < 4096" using pg_iff_offset[OF al] x by simp
      then show "pg (PTE_TO_PA e + (x - h' (pg va))) = pg (PTE_TO_PA e)" by (simp add: pg_iff_offset)
    qed
    then show ?thesis using False e(2-5) es k1(3) unfolding page_copied_def by auto
  qed
  have hP: "h p \<notin> set (F' False)" if "p \<in> P" for p
  proof -
    have "p \<in> pg ` {..<VA_MAX}" using 1 that unfolding copied_def by blast
    then obtain va where "va < VA_MAX" "pg va = p" by auto
    then show ?thesis using p(6)[of va] that unfolding page_copied_def by auto
  qed
  have hQ: "h' p \<in> set (F' False)" if "p \<in> Q" for p
  proof -
    have "p \<in> pg ` {..<VA_MAX}" using 2 that unfolding copied_def by blast
    then obtain va where "va < VA_MAX" "pg va = p" by auto
    then show ?thesis using p'(6)[of va] that unfolding page_copied_def by auto
  qed
  have inj: "inj_on ?h (P \<union> Q)"
  proof (rule inj_onI)
    fix x y assume xy: "x \<in> P \<union> Q" "y \<in> P \<union> Q" "?h x = ?h y"
    then have "x \<in> P \<longleftrightarrow> y \<in> P" using hP[of x] hP[of y] hQ[of x] hQ[of y] by (auto split: if_splits)
    then show "x = y" using xy inj_onD[OF p(5), of x y] inj_onD[OF p'(5), of x y] by (auto split: if_splits)
  qed
  have PQ: "P \<union> Q \<subseteq> pg ` {..<VA_MAX}" using 1 2 unfolding copied_def by blast
  have "mem u x = mem s x" if x: "\<forall>p \<in> tables (mem s) b \<union> set (F True) \<union> set (F False). pg x \<noteq> pg p" for x
  proof -
    have "mem u x = mem t x" by (rule k2(10)) (use x k1(3,4,7) in blast)
    then show ?thesis using k1(10)[of x] x by simp
  qed
  moreover have "tables (mem u) b \<subseteq> tables (mem s) b \<union> set (F True)" using k1(4,7) k2(7) by blast
  moreover have "vlookup (mem u) b va = vlookup (mem s) b va" if "va < VA_MAX" "pg va \<notin> P \<union> Q" for va
    using k1(9)[OF that(1)] k2(9)[OF that(1)] that(2) by simp
  moreover have "\<exists>ps. F False = ps @ F'' False \<and> length ps = n + m"
    using p(1,2) p'(1,2) by (intro exI[of _ "ps @ ps'"]) simp
  moreover have "\<exists>us. F True = us @ F'' True \<and> length us \<le> 2 * (n + m)"
    using p(3,4) p'(3,4) by (intro exI[of _ "us @ us'"]) simp
  ultimately show ?thesis
    using PQ k2(1,8) k1(8) mem_only_trans[OF k1(2) k2(2)] pc inj unfolding copied_def by (intro conjI exI[of _ ?h]) simp_all
qed

section \<open>One page\<close>

lemma last_off_page: "page_aligned va \<Longrightarrow> last_off va PGSIZE = 0"
  by (elim page_alignedE) (simp add: last_off_def)

lemma mapped_from_0: "mapped_from v 0 p perm old va = (if pg va = pg v then Some (leaf p perm) else old va)"
proof (cases "pg va = pg v")
  case False
  then have "unat (pg va) \<noteq> unat (pg v)" by (simp add: word_unat_eq_iff)
  then have "\<not> (unat (pg v) \<le> unat (pg va) \<and> unat (pg va) \<le> unat (pg v) + 0)" by linarith
  then show ?thesis using False by (simp only: mapped_from_def if_False)
qed (simp add: mapped_from_def)

lemma move_page:
  assumes "page_aligned q" and "page_aligned p" and "q \<noteq> p"
  shows "memmove m q p PGSIZE x = (if pg x = pg q then m (p + (x - q)) else m x)"
proof -
  have "\<not> unat (q - p) < 4096" using pg_iff_offset[OF assms(2), of q] pg_eq_aligned[OF assms(1,2)] assms(3) by simp
  then show ?thesis by (subst memmove_apply) (simp_all add: pg_iff_offset[OF assms(1)])
qed

lemma copy_page_ok:
  assumes s: "two_ok s F a b" and va: "va < VA_MAX" "page_aligned va" and up: "user_pages s F a b {pg va}"
  shows "(\<exists>msg. copy_page a b va s = Inl (Panic msg) \<and> (length (F True) < 2 \<or> F False = [])) \<or>
    (\<exists>t F'. copy_page a b va s = Inr (True, t) \<and> copied s F a b {pg va} 1 t F')"
proof -
  note d = two_okD[OF s]
  from up va(1) obtain e where e: "vlookup (mem s) a va = Some e" "releasable s F b (PTE_TO_PA e)"
    unfolding user_pages_def by auto
  let ?p = "PTE_TO_PA e" and ?f = "ucast (PTE_FLAGS e) :: u32"
  note sl = lookup_slot[OF e(1) vm_okD(2)[OF d(1)]]
  have g: "vm_getpte a va False s = Inr (slot (mem s) a va, s)" by (rule vm_getpte_lookup[OF va(1) vm_okD(3)[OF d(1)]])
  show ?thesis
  proof (cases "F False")
    case Nil
    from pmem_alloc_empty[OF d(4) Nil] obtain msg where "pmem_alloc False s = Inl (Panic msg)" by blast
    then show ?thesis using Nil g sl by (intro disjI1 exI[of _ msg]) (simp add: copy_page_def Let_def)
  next
    case (Cons q ps)
    let ?F = "F(False := ps)"
    from fresh_page[OF s Cons] obtain u where u: "pmem_alloc False s = Inr (q, u)" "\<forall>x. pg x \<noteq> pg q \<longrightarrow> mem u x = mem s x"
      "\<And>m. (\<forall>x. pg x \<noteq> pg q \<longrightarrow> m x = mem s x) \<Longrightarrow> two_ok (u\<lparr>mem := m\<rparr>) ?F a b \<and> mem_only s (u\<lparr>mem := m\<rparr>) \<and>
       (\<forall>r \<in> {a, b}. tables m r = tables (mem s) r \<and> (\<forall>va. vlookup m r va = vlookup (mem s) r va))" by blast
    have qin: "q \<in> set (F False)" using Cons by simp
    note qal = pmem_okD(4)[OF d(4) qin]
    have qp: "q \<noteq> ?p" using e(2) qin by (auto simp: releasable_def)
    have q0: "q \<noteq> 0" using pmem_okD(5)[OF d(4) qin] by (simp add: in_region_def)
    let ?m = "memmove (mem u) q ?p PGSIZE"
    have m: "?m x = (if pg x = pg q then mem s (?p + (x - q)) else mem s x)" for x
    proof (cases "pg x = pg q")
      case True
      then have "unat (x - q) < 4096" by (simp add: pg_iff_offset[OF qal])
      then have "pg (?p + (x - q)) = pg ?p" by (simp add: pg_iff_offset)
      moreover have "pg ?p \<noteq> pg q" using pg_eq_aligned[OF PTE_TO_PA_aligned qal] qp by simp
      ultimately show ?thesis using True u(2) by (simp add: move_page[OF qal PTE_TO_PA_aligned qp])
    qed (use u(2) in \<open>simp add: move_page[OF qal PTE_TO_PA_aligned qp]\<close>)
    let ?v = "u\<lparr>mem := ?m\<rparr>"
    have uv: "two_ok ?v ?F a b" "mem_only s ?v" "tables ?m b = tables (mem s) b"
      "vlookup ?m a x = vlookup (mem s) a x" "vlookup ?m b x = vlookup (mem s) b x" for x
      using u(3)[of ?m] m by simp_all
    have vb: "vm_ok ?v ?F b" using uv(1) by (simp add: two_ok_def)
    have len: "unat va + unat (PGSIZE :: u64) \<le> 2 ^ 38"
    proof -
      obtain k where k: "unat va = 4096 * k" using va(2) by (rule page_alignedE)
      then show ?thesis using va(1) by (simp add: word_less_nat_alt)
    qed
    have step: "copy_page a b va s = bnd (vm_mappages b va q PGSIZE ?f ?v) (\<lambda>s. Inr (True, s))"
      using g sl u(1) q0 by (simp add: copy_page_def Let_def)
    have nz: "(PGSIZE :: u64) \<noteq> 0" by simp
    from vm_mappages_ok[OF vb va(2) qal nz len, of ?f] show ?thesis
    proof (elim disjE exE conjE)
      fix msg assume "vm_mappages b va q PGSIZE ?f ?v = Inl (Panic msg)" "length (?F True) < 2 * Suc (last_off va PGSIZE)"
      then show ?thesis using step last_off_page[OF va(2)] by (intro disjI1 exI[of _ msg]) simp
    next
      fix t F' assume t: "vm_mappages b va q PGSIZE ?f ?v = Inr t" "evolved ?v ?F b t F' (2 * Suc (last_off va PGSIZE))"
        "\<forall>va' < VA_MAX. vlookup (mem t) b va' = mapped_from va (last_off va PGSIZE) q ?f (vlookup (mem ?v) b) va'"
      note ev = t(2)[unfolded last_off_page[OF va(2)]]
      note oth = evolved_other[OF uv(1) ev]
      from ev obtain us where us: "F True = us @ F' True" "length us \<le> 2" "tables (mem t) b = tables (mem s) b \<union> set us"
        "F' False = ps" "\<forall>x. (\<forall>t \<in> tables (mem s) b \<union> set (F True). pg x \<noteq> pg t) \<longrightarrow> mem t x = ?m x"
        by (auto simp: evolved_def uv(3))
      have tb: "vlookup (mem t) b va' = (if pg va' = pg va then Some (same_leaf e q) else vlookup (mem s) b va')" if "va' < VA_MAX" for va'
        using t(3) that uv(5) by (simp add: last_off_page[OF va(2)] mapped_from_0 same_leaf_def)
      have qm: "mem t x = mem s (?p + (x - q))" if x: "pg x = pg q" for x
      proof -
        have "pg x \<noteq> pg v" if v: "v \<in> tables (mem s) b \<union> set (F True)" for v
        proof -
          have "q \<noteq> v" using v vm_okD(4)[OF d(2), of v False] pmem_ok_disjoint[OF d(4), of True] qin by auto
          moreover have "page_aligned v" using v pmem_okD(4)[OF d(4)] pt_okD(5)[OF vm_okD(2)[OF d(2)]] by auto
          ultimately show ?thesis using pg_eq_aligned[OF qal] x by simp
        qed
        then show ?thesis using us(5) m[of x] x by simp
      qed
      have "q \<notin> set ps" using pmem_okD(6)[OF d(4), of False] Cons by simp
      then have "page_copied s F a b t F' va' q" if "va' < VA_MAX" "pg va' = pg va" for va'
        using e(1) lookup_same_page[OF that(1) va(1) that(2)] tb[OF that(1)] that(2) qin qm us(4) by (simp add: page_copied_def)
      moreover have "mem t x = mem s x" if "\<forall>p \<in> tables (mem s) b \<union> set (F True) \<union> set (F False). pg x \<noteq> pg p" for x
        using us(5) m[of x] that qin by simp
      moreover have "mem_only s t" using mem_only_trans[OF uv(2) evolvedD(2)[OF ev]] .
      moreover have "\<exists>ps. F False = ps @ F' False \<and> length ps = 1" using Cons us(4) by (intro exI[of _ "[q]"]) simp
      moreover have "{pg va} \<subseteq> pg ` {..<VA_MAX}" using va(1) by auto
      ultimately have "copied s F a b {pg va} 1 t F'"
        using oth uv(4) us(1-3) tb unfolding copied_def by (intro conjI exI[of _ "\<lambda>_. q"]) auto
      then show ?thesis using step t(1) by auto
    qed
  qed
qed

section \<open>Ranges\<close>

text \<open>The outcome of a copy: it succeeded, or pages ran out and the kernel panics.\<close>

definition copy_done :: "'a vm_state_scheme \<Rightarrow> (bool \<Rightarrow> u64 list) \<Rightarrow> u64 \<Rightarrow> u64 \<Rightarrow> u64 set \<Rightarrow> nat \<Rightarrow> 'a vm_state_scheme res \<Rightarrow> bool" where
  "copy_done s F a b P n r \<longleftrightarrow> (\<exists>msg. r = Inl (Panic msg) \<and> (length (F True) < 2 * n \<or> length (F False) < n)) \<or>
     (\<exists>t F'. r = Inr t \<and> copied s F a b P n t F')"

lemma copy_done_bind:
  assumes s: "two_ok s F a b" and m: "copy_done s F a b P n m" and up: "user_pages s F a b Q" and dis: "P \<inter> Q = {}"
    and f: "\<And>t F'. m = Inr t \<Longrightarrow> copied s F a b P n t F' \<Longrightarrow> copy_done t F' a b Q k (f t)"
  shows "copy_done s F a b (P \<union> Q) (n + k) (bnd m f)"
proof -
  from m consider (panic) msg where "m = Inl (Panic msg)" "length (F True) < 2 * n \<or> length (F False) < n"
    | (ok) t F' where "m = Inr t" "copied s F a b P n t F'" unfolding copy_done_def by blast
  then show ?thesis
  proof cases
    case panic
    then show ?thesis unfolding copy_done_def by (intro disjI1 exI[of _ msg]) auto
  next
    case ok
    note c = copiedD(5,6)[OF ok(2)]
    from f[OF ok] show ?thesis unfolding copy_done_def
    proof (elim disjE exE conjE)
      fix msg assume "f t = Inl (Panic msg)" "length (F' True) < 2 * k"
      then show "(\<exists>msg. bnd m f = Inl (Panic msg) \<and> (length (F True) < 2 * (n + k) \<or> length (F False) < n + k)) \<or>
        (\<exists>t F'. bnd m f = Inr t \<and> copied s F a b (P \<union> Q) (n + k) t F')" using ok(1) c by auto
    next
      fix msg assume "f t = Inl (Panic msg)" "length (F' False) < k"
      then show "(\<exists>msg. bnd m f = Inl (Panic msg) \<and> (length (F True) < 2 * (n + k) \<or> length (F False) < n + k)) \<or>
        (\<exists>t F'. bnd m f = Inr t \<and> copied s F a b (P \<union> Q) (n + k) t F')" using ok(1) c by auto
    next
      fix u F'' assume "f t = Inr u" "copied t F' a b Q k u F''"
      then show "(\<exists>msg. bnd m f = Inl (Panic msg) \<and> (length (F True) < 2 * (n + k) \<or> length (F False) < n + k)) \<or>
        (\<exists>t F'. bnd m f = Inr t \<and> copied s F a b (P \<union> Q) (n + k) t F')"
        using ok(1) copied_trans[OF s ok(2) _ up dis, of k u F''] by auto
    qed
  qed
qed

text \<open>The \<open>n\<close> pages from \<open>v\<close> on.\<close>

definition prange :: "u64 \<Rightarrow> nat \<Rightarrow> u64 set" where
  "prange v n = {p. unat (pg v) \<le> unat p \<and> unat p < unat (pg v) + n}"

lemma prange_0 [simp]: "prange v 0 = {}"
  by (auto simp: prange_def)

lemma prange_Suc:
  assumes "unat v + 4096 < 2 ^ 64"
  shows "prange v (Suc n) = {pg v} \<union> prange (v + 4096) n" "{pg v} \<inter> prange (v + 4096) n = {}"
  using pg_next(2)[OF assms] by (auto simp: prange_def word_unat_eq_iff)

definition drop_flag :: "(bool \<times> 'a vm_state_scheme) res \<Rightarrow> 'a vm_state_scheme res" where
  "drop_flag r = bnd r (\<lambda>(_, s). Inr s)"

lemma bnd_drop_flag: "bnd r (\<lambda>(_, s). f s) = bnd (drop_flag r) f"
  by (cases r) (auto simp: drop_flag_def)

lemma drop_flag_simps [simp]: "drop_flag (Inr (x, s)) = Inr s" "drop_flag (Inl e) = Inl e"
  by (simp_all add: drop_flag_def)

lemma user_pages_mono: "user_pages s F a b P \<Longrightarrow> Q \<subseteq> P \<Longrightarrow> user_pages s F a b Q"
  by (auto simp: user_pages_def)

lemma copy_range_ok:
  assumes "two_ok s F a b" and "page_aligned v" and "unat v + 4096 * n \<le> 2 ^ 38" and "unat e = unat v + 4096 * n"
    and "user_pages s F a b (prange v n)"
  shows "copy_done s F a b (prange v n) n (drop_flag (copy_virt_range a b v e s))"
  using assms
proof (induction n arbitrary: s F v)
  case 0
  have "\<not> v < e" using 0(4) by (simp add: word_less_nat_alt)
  then show ?case using copied_refl[OF 0(1)] by (subst copy_virt_range.simps) (auto simp: copy_done_def)
next
  case (Suc n)
  note p = Suc.prems
  have v: "v < VA_MAX" "v < e" "unat v + 4096 < 2 ^ 64" "unat (v + 4096) = unat v + 4096"
    using p(3,4) by (simp_all add: word_less_nat_alt unat_word_ariths)
  have "\<not> v + 4096 < v" using v(4) by (simp add: word_less_nat_alt)
  then have step: "copy_virt_range a b v e s = bnd (copy_page a b v s) (\<lambda>(more, s).
      if \<not> more then Inr (False, s) else copy_virt_range a b (v + PGSIZE) e s)"
    using v(2) by (subst copy_virt_range.simps) (simp cong: if_cong)
  note r = prange_Suc[OF v(3), of n]
  have up: "user_pages s F a b {pg v}" "user_pages s F a b (prange (v + 4096) n)"
    using p(5) r(1) by (auto intro: user_pages_mono)
  have al: "page_aligned (v + 4096)" using p(2) v(4) by (simp add: page_aligned_def unat_mod word_unat_eq_iff)
  note cp = copy_page_ok[OF p(1) v(1) p(2) up(1)]
  have "copy_done s F a b {pg v} 1 (drop_flag (copy_page a b v s))" using cp by (auto simp: copy_done_def)
  from copy_done_bind[OF p(1) this up(2) r(2), of n "\<lambda>t. drop_flag (copy_virt_range a b (v + 4096) e t)"]
  have "copy_done s F a b ({pg v} \<union> prange (v + 4096) n) (1 + n)
      (bnd (drop_flag (copy_page a b v s)) (\<lambda>t. drop_flag (copy_virt_range a b (v + 4096) e t)))"
  proof this
    fix t F' assume c: "copied s F a b {pg v} 1 t F'"
    show "copy_done t F' a b (prange (v + 4096) n) n (drop_flag (copy_virt_range a b (v + 4096) e t))"
      by (rule Suc.IH[OF copiedD(1)[OF c] al _ _ copied_user_pages[OF p(1) c up(2)]]) (use p(3,4) v(4) in simp_all)
  qed
  moreover have "bnd (drop_flag (copy_page a b v s)) (\<lambda>t. drop_flag (copy_virt_range a b (v + 4096) e t)) =
      drop_flag (copy_virt_range a b v e s)"
    using cp unfolding step by auto
  ultimately show ?case unfolding r(1) by simp
qed

section \<open>The whole address space\<close>

text \<open>The segments of a process as start and number of pages.\<close>

type_synonym segment = "u64 \<times> nat"

definition seg_pages :: "segment list \<Rightarrow> u64 set" where
  "seg_pages ss = (\<Union>(v, n) \<in> set ss. prange v n)"

definition seg_ok :: "segment \<Rightarrow> bool" where
  "seg_ok x \<longleftrightarrow> page_aligned (fst x) \<and> unat (fst x) + 4096 * snd x \<le> 2 ^ 38"

definition seg_end :: "segment \<Rightarrow> u64" where
  "seg_end x = fst x + of_nat (4096 * snd x)"

primrec separate :: "segment list \<Rightarrow> bool" where
  "separate [] \<longleftrightarrow> True"
| "separate (x # xs) \<longleftrightarrow> prange (fst x) (snd x) \<inter> seg_pages xs = {} \<and> separate xs"

lemma seg_pages_simps [simp]: "seg_pages [] = {}" "seg_pages (x # xs) = prange (fst x) (snd x) \<union> seg_pages xs"
  by (auto simp: seg_pages_def)

lemma unat_seg_end: "seg_ok x \<Longrightarrow> unat (seg_end x) = unat (fst x) + 4096 * snd x"
  unfolding seg_ok_def seg_end_def by (simp add: unat_word_ariths unat_of_nat_small64 del: of_nat_mult)

text \<open>Copying the segments one after the other.\<close>

primrec copy_segs :: "u64 \<Rightarrow> u64 \<Rightarrow> segment list \<Rightarrow> 'a vm_state_scheme \<Rightarrow> 'a vm_state_scheme res" where
  "copy_segs a b [] s = Inr s"
| "copy_segs a b (x # xs) s = bnd (drop_flag (copy_virt_range a b (fst x) (seg_end x) s)) (copy_segs a b xs)"

lemma copy_segs_ok:
  assumes "two_ok s F a b" and "\<forall>x \<in> set xs. seg_ok x" and "separate xs" and "user_pages s F a b (seg_pages xs)"
  shows "copy_done s F a b (seg_pages xs) (sum_list (map snd xs)) (copy_segs a b xs s)"
  using assms
proof (induction xs arbitrary: s F)
  case Nil
  then show ?case using copied_refl[OF Nil(1)] by (auto simp: copy_done_def)
next
  case (Cons x xs)
  note p = Cons.prems
  have x: "seg_ok x" "page_aligned (fst x)" "unat (fst x) + 4096 * snd x \<le> 2 ^ 38" using p(2) by (simp_all add: seg_ok_def)
  have up: "user_pages s F a b (prange (fst x) (snd x))" "user_pages s F a b (seg_pages xs)"
    using p(4) by (auto intro: user_pages_mono)
  note c = copy_range_ok[OF p(1) x(2,3) unat_seg_end[OF x(1)] up(1)]
  have "copy_done s F a b (prange (fst x) (snd x) \<union> seg_pages xs) (snd x + sum_list (map snd xs)) (copy_segs a b (x # xs) s)"
    unfolding copy_segs.simps
  proof (rule copy_done_bind[OF p(1) c up(2)])
    fix t F' assume c: "copied s F a b (prange (fst x) (snd x)) (snd x) t F'"
    show "copy_done t F' a b (seg_pages xs) (sum_list (map snd xs)) (copy_segs a b xs t)"
      by (rule Cons.IH[OF copiedD(1)[OF c] _ _ copied_user_pages[OF p(1) c up(2)]]) (use p(2,3) in simp_all)
  qed (use p(3) in simp)
  then show ?case by simp
qed

lemma seg_pages_append: "seg_pages (xs @ ys) = seg_pages xs \<union> seg_pages ys"
  by (induction xs) auto

lemma separate_append: "separate (xs @ ys) \<Longrightarrow> separate xs \<and> separate ys \<and> seg_pages xs \<inter> seg_pages ys = {}"
  by (induction xs) (auto simp: seg_pages_append)

text \<open>The segment of an mmap region.\<close>

definition span :: "mmap_region \<Rightarrow> segment" where
  "span r = (r_begin r, unat (bytes_of (r_npages r)) div 4096)"

lemma span_end: "seg_end (span r) = region_end r"
proof -
  have "unat (bytes_of (r_npages r)) mod 4096 = 0" by (simp add: bytes_of_def unat_word_ariths mod_mod_cancel)
  then have "4096 * (unat (bytes_of (r_npages r)) div 4096) = unat (bytes_of (r_npages r))" by (metis mult_div_mod_eq add_0_right)
  then show ?thesis by (simp add: seg_end_def span_def region_end_def del: of_nat_mult)
qed

lemma mem_only_region: "mem_only s t \<Longrightarrow> region t = region (s :: 'a mmap_state_scheme)"
  by (cases s; cases t) (simp add: mem_only_def region_def fun_eq_iff)

lemma copy_regions_ok:
  fixes s :: "'a mmap_state_scheme"
  assumes "two_ok s F a b" and "Rlist (region s) p is" and "length is < fuel"
    and "\<forall>x \<in> set (map (\<lambda>i. span (region s i)) is). seg_ok x" and "separate (map (\<lambda>i. span (region s i)) is)"
    and "user_pages s F a b (seg_pages (map (\<lambda>i. span (region s i)) is))"
  shows "copy_done s F a b (seg_pages (map (\<lambda>i. span (region s i)) is)) (sum_list (map (\<lambda>i. snd (span (region s i))) is))
    (copy_regions fuel a b p s)"
  using assms
proof (induction fuel arbitrary: s F p "is")
  case (Suc fuel)
  note h = Suc.prems
  show ?case
  proof (cases "is")
    case Nil
    then show ?thesis using h(1,2) copied_refl[OF h(1)] by (auto simp: copy_done_def)
  next
    case (Cons i js)
    let ?sp = "\<lambda>i. span (region s i)"
    let ?x = "?sp i" and ?ys = "map ?sp js"
    have p: "p = Some i" "Rlist (region s) (r_next (region s i)) js" using h(2) Cons by simp_all
    have x: "seg_ok ?x" "page_aligned (fst ?x)" "unat (fst ?x) + 4096 * snd ?x \<le> 2 ^ 38" using h(4) Cons by (simp_all add: seg_ok_def)
    have dis: "prange (fst ?x) (snd ?x) \<inter> seg_pages ?ys = {}" using h(5) Cons by simp
    have up: "user_pages s F a b (prange (fst ?x) (snd ?x))" "user_pages s F a b (seg_pages ?ys)"
      using h(6) Cons by (auto intro: user_pages_mono)
    note c = copy_range_ok[OF h(1) x(2,3) unat_seg_end[OF x(1)] up(1)]
    have eq: "copy_regions (Suc fuel) a b p s =
        bnd (drop_flag (copy_virt_range a b (fst ?x) (seg_end ?x) s)) (\<lambda>t. copy_regions fuel a b (r_next (region t i)) t)"
      using p(1) by (simp add: bnd_drop_flag[symmetric] span_end) (simp add: span_def)
    have "copy_done s F a b (prange (fst ?x) (snd ?x) \<union> seg_pages ?ys) (snd ?x + sum_list (map (\<lambda>i. snd (?sp i)) js))
      (copy_regions (Suc fuel) a b p s)" unfolding eq
    proof (rule copy_done_bind[OF h(1) c up(2) dis])
      fix t F' assume cd: "copied s F a b (prange (fst ?x) (snd ?x)) (snd ?x) t F'"
      have rg: "region t = region s" by (rule mem_only_region[OF copiedD(2)[OF cd]])
      show "copy_done t F' a b (seg_pages ?ys) (sum_list (map (\<lambda>i. snd (?sp i)) js)) (copy_regions fuel a b (r_next (region t i)) t)"
        using Suc.IH[OF copiedD(1)[OF cd], of "r_next (region t i)" js] p(2) h(3-5) Cons copied_user_pages[OF h(1) cd up(2)]
        by (simp add: rg)
    qed
    then show ?thesis using Cons by simp
  qed
qed simp

text \<open>Rounding up to pages.\<close>

lemma clear_low: "(x :: u64) AND NOT (mask 12) = push_bit 12 (drop_bit 12 x)"
  by (rule bit_word_eqI) (auto simp: bit_simps)

lemma PGROUNDUP_page:
  assumes "unat h + 4095 < 2 ^ 64"
  shows "unat (PGROUNDUP h) = 4096 * ((unat h + 4095) div 4096)"
proof -
  let ?x = "h + 4096 - 1" and ?y = "push_bit 12 (drop_bit 12 (h + 4096 - 1)) :: u64"
  have m: "(4096 - 1 :: u64) = mask 12" by (simp add: mask_eq_exp_minus_1)
  have r: "PGROUNDUP h = ?y" unfolding PGROUNDUP_def m by (rule clear_low)
  have al: "page_aligned ?y" unfolding page_aligned_take_bit by (simp add: take_bit_push_bit)
  then obtain k where k: "unat ?y = 4096 * k" by (rule page_alignedE)
  have "pg ?y = drop_bit 12 ?x" unfolding pg_drop_bit by (rule bit_word_eqI) (auto simp: bit_simps dest: bit_imp_le_length)
  then have 1: "unat (pg ?y) = unat ?x div 4096" by (simp add: drop_bit_eq_div unat_div)
  have 2: "unat (pg ?y) = k" unfolding unat_pg k by simp
  have "h + 4096 - 1 = h + 4095" by simp
  then have 3: "unat ?x = unat h + 4095" using assms by (simp only: unat_word_ariths) (simp add: unat_word_ariths)
  show ?thesis unfolding r k 1[unfolded 2 3] ..
qed

definition fixed_segs :: "u64 \<Rightarrow> u64 \<Rightarrow> segment list" where
  "fixed_segs htop ust = (USER_BASE, 1) #
     (if htop > USER_BASE + PGSIZE then [(USER_BASE + PGSIZE, (unat htop + 4095) div 4096 - 2)] else []) @
     (if ust > 0 then [(TRAPFRAME - ust * PGSIZE, unat ust)] else [])"

text \<open>All segments of a process: the code page, the heap, the stack, and its mmap regions \<open>is\<close>.\<close>

definition segments :: "(nat \<Rightarrow> mmap_region) \<Rightarrow> u64 \<Rightarrow> u64 \<Rightarrow> nat list \<Rightarrow> segment list" where
  "segments rg htop ust is = fixed_segs htop ust @ map (\<lambda>i. span (rg i)) is"

lemma heap_end:
  assumes "htop > USER_BASE + PGSIZE" and "htop \<le> VA_MAX"
  shows "seg_end (USER_BASE + PGSIZE, (unat htop + 4095) div 4096 - 2) = PGROUNDUP htop"
proof -
  have h: "8192 < unat htop" "unat htop \<le> 2 ^ 38" using assms by (simp_all add: word_less_nat_alt word_le_nat_alt)
  let ?k = "(unat htop + 4095) div 4096"
  have k1: "2 \<le> ?k" using h(1) by linarith
  have "?k \<le> (2 ^ 38 + 4095) div 4096" by (rule div_le_mono) (use h(2) in simp)
  then have k: "2 \<le> ?k" "?k \<le> 2 ^ 26 + 1" using k1 by simp_all
  have "unat (of_nat (4096 * (?k - 2)) :: u64) = 4096 * (?k - 2)" using k(2) by (intro unat_of_nat_small64) simp
  moreover have "8192 + 4096 * (?k - 2) = 4096 * ?k" using k(1) by simp
  ultimately have "unat (seg_end (USER_BASE + PGSIZE, ?k - 2)) = 4096 * ?k"
    using k(2) by (simp add: seg_end_def unat_word_ariths del: of_nat_mult)
  also have "\<dots> = unat (PGROUNDUP htop)" using PGROUNDUP_page[of htop] h by simp
  finally show ?thesis by (simp only: word_unat_eq_iff)
qed

lemma uvm_copy_segs:
  assumes "htop \<le> VA_MAX"
  shows "uvm_copy_pgtbl a b htop ust head s = bnd (copy_segs a b (fixed_segs htop ust) s) (copy_regions (Suc N_MMAP) a b head)"
proof -
  have st: "seg_end (TRAPFRAME - ust * PGSIZE, unat ust) = TRAPFRAME" by (simp add: seg_end_def mult.commute)
  have cd: "seg_end (USER_BASE, 1) = USER_BASE + PGSIZE" by (simp add: seg_end_def)
  show ?thesis
    using heap_end[OF _ assms] st cd
    by (auto simp: uvm_copy_pgtbl_def fixed_segs_def bnd_drop_flag if_distrib[of drop_flag] bnd_assoc)
qed

section \<open>The layout of a process\<close>

text \<open>The code page and the heap end below the mmap window, the regions follow each other in it, the stack is above.\<close>

definition user_layout :: "(nat \<Rightarrow> mmap_region) \<Rightarrow> u64 \<Rightarrow> u64 \<Rightarrow> nat list \<Rightarrow> bool" where
  "user_layout rg htop ust is \<longleftrightarrow> htop \<le> MMAP_BEGIN \<and> ust \<le> 4096 \<and> regions_ok rg MMAP_BEGIN is \<and>
     (\<forall>i \<in> set is. page_aligned (r_begin (rg i)))"

definition within :: "nat \<Rightarrow> nat \<Rightarrow> segment list \<Rightarrow> bool" where
  "within lo hi xs \<longleftrightarrow> (\<forall>x \<in> set xs. page_aligned (fst x) \<and> lo \<le> unat (fst x) \<and> unat (fst x) + 4096 * snd x \<le> hi)"

lemma within_simps [simp]: "within lo hi []"
  "within lo hi (x # xs) \<longleftrightarrow> page_aligned (fst x) \<and> lo \<le> unat (fst x) \<and> unat (fst x) + 4096 * snd x \<le> hi \<and> within lo hi xs"
  "within lo hi (xs @ ys) \<longleftrightarrow> within lo hi xs \<and> within lo hi ys"
  by (auto simp: within_def)

lemma within_mono: "within lo hi xs \<Longrightarrow> lo' \<le> lo \<Longrightarrow> hi \<le> hi' \<Longrightarrow> within lo' hi' xs"
  unfolding within_def by fastforce

lemma within_ok: "within lo hi xs \<Longrightarrow> hi \<le> 2 ^ 38 \<Longrightarrow> \<forall>x \<in> set xs. seg_ok x"
  by (fastforce simp: within_def seg_ok_def)

lemma prange_bounds:
  assumes "page_aligned v" and "p \<in> prange v n"
  shows "unat v \<le> 4096 * unat p" "4096 * unat p < unat v + 4096 * n"
proof -
  obtain k where k: "unat v = 4096 * k" using assms(1) by (rule page_alignedE)
  then have "unat (pg v) = k" by (simp add: unat_pg)
  then show "unat v \<le> 4096 * unat p" "4096 * unat p < unat v + 4096 * n" using assms(2) k by (auto simp: prange_def)
qed

lemma seg_pages_bounds:
  assumes "within lo hi xs" and "p \<in> seg_pages xs"
  shows "lo \<le> 4096 * unat p" "4096 * unat p < hi"
proof -
  from assms(2) obtain v n where x: "(v, n) \<in> set xs" "p \<in> prange v n" by (auto simp: seg_pages_def)
  from assms(1) x(1) have w: "page_aligned v" "lo \<le> unat v" "unat v + 4096 * n \<le> hi" by (auto simp: within_def)
  show "lo \<le> 4096 * unat p" "4096 * unat p < hi" using prange_bounds[OF w(1) x(2)] w(2,3) by simp_all
qed

lemma within_disjoint:
  assumes "within lo hi xs" and "within lo' hi' ys" and "hi \<le> lo'"
  shows "seg_pages xs \<inter> seg_pages ys = {}"
  using seg_pages_bounds[OF assms(1)] seg_pages_bounds[OF assms(2)] assms(3) by fastforce

lemma separate_Cons:
  assumes "within lo hi [x]" and "within hi hi' ys" and "separate ys"
  shows "separate (x # ys)"
  using within_disjoint[OF assms(1,2)] assms(3) by simp

lemma regions_within:
  assumes "regions_ok rg lo is" and "\<forall>i \<in> set is. page_aligned (r_begin (rg i))"
  shows "within (unat lo) (unat MMAP_END) (map (\<lambda>i. span (rg i)) is) \<and> separate (map (\<lambda>i. span (rg i)) is)"
  using assms
proof (induction "is" arbitrary: lo)
  case (Cons i js)
  let ?b = "r_begin (rg i)" and ?e = "region_end (rg i)" and ?n = "unat (bytes_of (r_npages (rg i)))"
  from Cons.prems have h: "lo \<le> ?b" "?b < ?e" "regions_ok rg ?e js" "page_aligned ?b" by simp_all
  have e: "?e \<le> MMAP_END" by (rule regions_ok_end[OF h(3)])
  have "?b \<le> MMAP_END" using h(2) e by simp
  then have u: "unat ?e = unat ?b + ?n" unfolding region_end_def by (rule unat_add_le_end) (rule bytes_of_less)
  have n: "4096 * (?n div 4096) \<le> ?n" by simp
  have x: "within (unat lo) (unat ?e) [span (rg i)]" using h(1,4) u n by (simp add: span_def word_le_nat_alt)
  from Cons.IH[OF h(3)] Cons.prems(2)
  have js: "within (unat ?e) (unat MMAP_END) (map (\<lambda>i. span (rg i)) js)" "separate (map (\<lambda>i. span (rg i)) js)" by simp_all
  have le: "unat lo \<le> unat ?e" using x by simp
  have "within (unat lo) (unat MMAP_END) (map (\<lambda>i. span (rg i)) js)" by (rule within_mono[OF js(1) le]) simp
  moreover have "within (unat lo) (unat MMAP_END) [span (rg i)]"
    by (rule within_mono[OF x]) (use e in \<open>simp_all add: word_le_nat_alt\<close>)
  ultimately show ?case using separate_Cons[OF x js] by simp
qed simp

lemma user_layout_ok:
  assumes "user_layout rg htop ust is"
  shows "htop \<le> VA_MAX" "\<forall>x \<in> set (segments rg htop ust is). seg_ok x" "separate (segments rg htop ust is)"
proof -
  let ?rs = "map (\<lambda>i. span (rg i)) is"
  let ?hp = "if htop > USER_BASE + PGSIZE then [(USER_BASE + PGSIZE, (unat htop + 4095) div 4096 - 2)] else []"
  let ?st = "if ust > 0 then [(TRAPFRAME - ust * PGSIZE, unat ust)] else []"
  have h: "htop \<le> MMAP_BEGIN" "ust \<le> 4096" "regions_ok rg MMAP_BEGIN is" "\<forall>i \<in> set is. page_aligned (r_begin (rg i))"
    using assms by (simp_all add: user_layout_def)
  show "htop \<le> VA_MAX" using order_trans[OF h(1), of VA_MAX] by simp
  have rs: "within (unat MMAP_BEGIN) (unat MMAP_END) ?rs" "separate ?rs" using regions_within[OF h(3,4)] by simp_all
  have cd: "within 0 8192 [(USER_BASE, 1)]" by (simp add: page_aligned_def)
  have hp: "within 8192 (unat MMAP_BEGIN) ?hp"
  proof -
    have "unat htop \<le> unat MMAP_BEGIN" using h(1) by (simp only: word_le_nat_alt)
    then have "(unat htop + 4095) div 4096 \<le> (unat MMAP_BEGIN + 4095) div 4096" by (intro div_le_mono) simp
    from diff_le_mono[OF this, of 2] show ?thesis by (simp add: page_aligned_def)
  qed
  have st: "within (unat MMAP_END) (unat TRAPFRAME) ?st"
  proof -
    have u: "unat ust \<le> 4096" using h(2) by (simp add: word_le_nat_alt)
    then have m: "unat (ust * PGSIZE) = unat ust * 4096" by (simp add: unat_word_ariths)
    have "unat (TRAPFRAME - ust * PGSIZE) = unat TRAPFRAME - unat (ust * PGSIZE)"
      by (rule unat_sub) (use u m in \<open>simp add: word_le_nat_alt\<close>)
    also have "\<dots> = 4096 * (67108862 - unat ust)" using m by simp
    finally have e: "unat (TRAPFRAME - ust * PGSIZE) = 4096 * (67108862 - unat ust)" .
    then have "page_aligned (TRAPFRAME - ust * PGSIZE)" by (simp add: page_aligned_unat)
    moreover have "67104766 \<le> 67108862 - unat ust" using u by linarith
    moreover have "4096 * (67108862 - unat ust) + 4096 * unat ust \<le> 274877898752"
      unfolding add_mult_distrib2[symmetric] using u by simp
    ultimately show ?thesis using e by simp
  qed
  have m: "within 0 (2 ^ 38) xs" if "within lo hi xs" "hi \<le> unat TRAPFRAME" for lo hi xs
    by (rule within_mono[OF that(1)]) (use that(2) in simp_all)
  have eq: "segments rg htop ust is = [(USER_BASE, 1)] @ ?hp @ ?st @ ?rs" by (simp add: segments_def fixed_segs_def)
  have "within 0 (2 ^ 38) (segments rg htop ust is)"
    unfolding eq within_simps(3) by (intro conjI m[OF cd] m[OF hp] m[OF st] m[OF rs(1)]) simp_all
  then show "\<forall>x \<in> set (segments rg htop ust is). seg_ok x" by (rule within_ok) simp
  have a1: "seg_pages ?st \<inter> seg_pages ?rs = {}" using within_disjoint[OF rs(1) st] by blast
  have "within 8192 (unat MMAP_BEGIN) ?hp" by (rule hp)
  have a2: "seg_pages ?hp \<inter> seg_pages (?st @ ?rs) = {}"
    using within_disjoint[OF hp rs(1)] within_disjoint[OF hp st] by (auto simp: seg_pages_append)
  have a3: "seg_pages [(USER_BASE, 1)] \<inter> seg_pages (?hp @ ?st @ ?rs) = {}"
    using within_disjoint[OF cd hp] within_disjoint[OF cd st] within_disjoint[OF cd rs(1)] by (auto simp: seg_pages_append)
  show "separate (segments rg htop ust is)" unfolding eq using a1 a2 a3 rs(2) by (auto simp: seg_pages_append)
qed

section \<open>The copy as user memory\<close>

lemma uvm_copy_pgtbl_ok:
  fixes s :: "'a mmap_state_scheme"
  assumes two: "two_ok s F a b" and l: "user_layout (region s) htop ust is" and rl: "Rlist (region s) hd_region is" "length is \<le> N_MMAP"
    and up: "user_pages s F a b (seg_pages (segments (region s) htop ust is))"
  shows "copy_done s F a b (seg_pages (segments (region s) htop ust is)) (sum_list (map snd (segments (region s) htop ust is)))
    (uvm_copy_pgtbl a b htop ust hd_region s)"
proof -
  let ?fs = "fixed_segs htop ust" and ?rs = "map (\<lambda>i. span (region s i)) is"
  note ul = user_layout_ok[OF l, unfolded segments_def]
  note sep = separate_append[OF ul(3)]
  have ok: "\<forall>x \<in> set ?fs. seg_ok x" "\<forall>x \<in> set ?rs. seg_ok x" using ul(2) by (simp_all add: ball_Un)
  have ups: "user_pages s F a b (seg_pages ?fs)" "user_pages s F a b (seg_pages ?rs)"
    using up unfolding segments_def seg_pages_append by (auto intro: user_pages_mono)
  have f: "copy_done s F a b (seg_pages ?fs) (sum_list (map snd ?fs)) (copy_segs a b ?fs s)"
    by (rule copy_segs_ok[OF two ok(1) _ ups(1)]) (use sep in simp)
  have "copy_done s F a b (seg_pages ?fs \<union> seg_pages ?rs) (sum_list (map snd ?fs) + sum_list (map (\<lambda>i. snd (span (region s i))) is))
      (bnd (copy_segs a b ?fs s) (copy_regions (Suc N_MMAP) a b hd_region))"
  proof (rule copy_done_bind[OF two f ups(2)])
    fix t F' assume c: "copied s F a b (seg_pages ?fs) (sum_list (map snd ?fs)) t F'"
    have rg: "region t = region s" by (rule mem_only_region[OF copiedD(2)[OF c]])
    show "copy_done t F' a b (seg_pages ?rs) (sum_list (map (\<lambda>i. snd (span (region s i))) is)) (copy_regions (Suc N_MMAP) a b hd_region t)"
      using copy_regions_ok[OF copiedD(1)[OF c], of hd_region "is" "Suc N_MMAP"] rl sep ok(2) copied_user_pages[OF two c ups(2)]
      by (simp add: rg)
  qed (use sep in simp)
  moreover have "sum_list (map snd (segments (region s) htop ust is)) =
      sum_list (map snd ?fs) + sum_list (map (\<lambda>i. snd (span (region s i))) is)"
    by (simp add: segments_def comp_def)
  ultimately show ?thesis unfolding uvm_copy_segs[OF ul(1)] by (simp only: segments_def seg_pages_append)
qed

text \<open>What a process sees at a user address: the permissions of its page and the byte.\<close>

definition ubyte :: "pmem \<Rightarrow> u64 \<Rightarrow> u64 \<Rightarrow> (u64 \<times> 8 word) option" where
  "ubyte m r va = map_option (\<lambda>e. (PTE_FLAGS e, m (PTE_TO_PA e + va mod 4096))) (vlookup m r va)"

lemma same_leaf_entry:
  assumes "page_aligned q" and "e AND PTE_V \<noteq> 0"
  shows "PTE_TO_PA (same_leaf e q) = q" "PTE_FLAGS (same_leaf e q) = PTE_FLAGS e"
proof -
  have m: "(0x3FF :: u64) = mask 10" by (simp add: mask_eq_exp_minus_1)
  have bt: "bit (PTE_FLAGS e) i \<longleftrightarrow> i < 10 \<and> bit e i" for i unfolding PTE_FLAGS_def m by (auto simp: bit_simps)
  have sc: "scast (ucast (PTE_FLAGS e) :: u32) = PTE_FLAGS e" by (rule bit_word_eqI) (auto simp: bit_simps bt min_def)
  have hi: "drop_bit 10 (PTE_FLAGS e) = 0" by (rule bit_word_eqI) (simp add: bit_simps bt)
  show "PTE_TO_PA (same_leaf e q) = q" unfolding same_leaf_def by (rule leaf_pa[OF assms(1)]) (simp add: sc hi)
  have e0: "bit e 0" using assms(2) by (simp add: and_one_eq odd_iff_mod_2_eq_one bit_0)
  have b0: "bit (1 :: u64) i \<longleftrightarrow> i = 0" for i by (simp add: bit_1_iff)
  have "PTE_FLAGS e OR PTE_V = PTE_FLAGS e" by (rule bit_word_eqI) (use e0 in \<open>auto simp: bit_or_iff bt b0\<close>)
  then have sl: "same_leaf e q = PA_TO_PTE q OR PTE_FLAGS e" by (simp add: same_leaf_def leaf_def sc or.assoc)
  have "PTE_FLAGS (PA_TO_PTE q OR PTE_FLAGS e) = PTE_FLAGS e AND 0x3FF"
    unfolding PTE_FLAGS_def[of "PA_TO_PTE q OR PTE_FLAGS e"] by (rule PA_TO_PTE_flags) simp
  also have "\<dots> = PTE_FLAGS e" by (simp add: PTE_FLAGS_def and.assoc)
  finally show "PTE_FLAGS (same_leaf e q) = PTE_FLAGS e" unfolding sl .
qed

text \<open>After a copy: the pages of the copy are new ones and different, both processes see what the old one saw.\<close>

lemma copied_view:
  assumes s: "two_ok s F a b" and c: "copied s F a b P n t F'" and up: "user_pages s F a b P"
    and va: "va < VA_MAX" "pg va \<in> P"
  shows "ubyte (mem t) b va = ubyte (mem s) a va" "ubyte (mem t) a va = ubyte (mem s) a va" "ubyte (mem s) a va \<noteq> None"
    "\<exists>e. vlookup (mem t) b va = Some e \<and> PTE_TO_PA e \<in> set (F False) - set (F' False)"
proof -
  from up va obtain e where e: "vlookup (mem s) a va = Some e" "releasable s F b (PTE_TO_PA e)" unfolding user_pages_def by blast
  from c va obtain q where "page_copied s F a b t F' va q" unfolding copied_def by blast
  then have q: "vlookup (mem t) b va = Some (same_leaf e q)" "q \<in> set (F False)" "q \<notin> set (F' False)"
    "\<forall>x. pg x = pg q \<longrightarrow> mem t x = mem s (PTE_TO_PA e + (x - q))" using e(1) by (auto simp: page_copied_def)
  note qal = pmem_okD(4)[OF two_okD(4)[OF s] q(2)]
  note sl = same_leaf_entry[OF qal lookup_slot(3)[OF e(1) vm_okD(2)[OF two_okD(1)[OF s]]]]
  have o: "unat (va mod 4096) < 4096" by (simp add: unat_mod)
  have "pg (q + va mod 4096) = pg q" using o by (simp add: pg_iff_offset[OF qal])
  then have "mem t (q + va mod 4096) = mem s (PTE_TO_PA e + va mod 4096)" using q(4) by simp
  then show "ubyte (mem t) b va = ubyte (mem s) a va" using q(1) e(1) sl by (simp add: ubyte_def)
  have "mem t (PTE_TO_PA e + va mod 4096) = mem s (PTE_TO_PA e + va mod 4096)"
    by (rule copied_frame[OF s c e(2)]) (simp add: pg_iff_offset o)
  then show "ubyte (mem t) a va = ubyte (mem s) a va" using copiedD(8)[OF c] e(1) by (simp add: ubyte_def)
  show "ubyte (mem s) a va \<noteq> None" using e(1) by (simp add: ubyte_def)
  show "\<exists>e. vlookup (mem t) b va = Some e \<and> PTE_TO_PA e \<in> set (F False) - set (F' False)" using q sl by auto
qed

lemma copied_apart:
  assumes s: "two_ok s F a b" and c: "copied s F a b P n t F'"
    and va: "va < VA_MAX" "pg va \<in> P" and vb: "vb < VA_MAX" "pg vb \<in> P" and ne: "pg va \<noteq> pg vb"
    and e: "vlookup (mem t) b va = Some x" "vlookup (mem t) b vb = Some y"
  shows "PTE_TO_PA x \<noteq> PTE_TO_PA y"
proof -
  from c obtain h where h: "inj_on h P" "\<forall>v < VA_MAX. pg v \<in> P \<longrightarrow> page_copied s F a b t F' v (h (pg v))" unfolding copied_def by blast
  have pa: "PTE_TO_PA z = h (pg v)" if v: "v < VA_MAX" "pg v \<in> P" "vlookup (mem t) b v = Some z" for v z
  proof -
    from h(2) v obtain e where e: "vlookup (mem s) a v = Some e" "z = same_leaf e (h (pg v))" "h (pg v) \<in> set (F False)"
      by (auto simp: page_copied_def)
    show ?thesis unfolding e(2)
      by (rule same_leaf_entry(1)[OF pmem_okD(4)[OF two_okD(4)[OF s] e(3)] lookup_slot(3)[OF e(1) vm_okD(2)[OF two_okD(1)[OF s]]]])
  qed
  then show ?thesis using va vb e inj_onD[OF h(1), of "pg va" "pg vb"] ne by auto
qed

section \<open>Two processes after the boot\<close>

lemma two_ok_sym: "two_ok s F a b \<Longrightarrow> two_ok s F b a"
  by (auto simp: two_ok_def)

lemma second_root:
  assumes ok: "vm_ok s F a" and F: "F True = b # ps"
  shows "\<exists>t. two_ok t (F(True := ps)) a b \<and> mem_only s t \<and> (\<forall>va. vlookup (mem t) a va = vlookup (mem s) a va)"
proof -
  note pm = vm_okD(1)[OF ok]
  have bin: "b \<in> set (F True)" using F by simp
  from fresh_root_ok[OF pm F] obtain t where t: "pmem_alloc True s = Inr (b, t)" "vm_ok t (F(True := ps)) b" "mem_only s t"
    "tables (mem t) b = {b}" by blast
  have m: "mem t = memset (mem s) b 0 PGSIZE" using t(1) pmem_alloc_eq[OF pm F] by auto
  have "\<forall>u \<in> tables (mem s) a. \<forall>x. pg x = pg u \<longrightarrow> mem t x = mem s x"
  proof (intro ballI allI impI)
    fix u x assume u: "u \<in> tables (mem s) a" "pg x = pg u"
    have "u \<noteq> b" using vm_okD(4)[OF ok u(1), of True] bin by auto
    then show "mem t x = mem s x"
      using pg_eq_aligned[OF pt_okD(5)[OF vm_okD(2)[OF ok] u(1)] pmem_okD(4)[OF pm bin]] u(2)
      by (simp add: m memset_page[OF pmem_okD(4)[OF pm bin]])
  qed
  note o = pt_untouched[OF vm_okD(2)[OF ok] this]
  have "set ((F(True := ps)) k) \<subseteq> set (F k)" for k using F by (cases k) auto
  then have "tables (mem t) a \<inter> set ((F(True := ps)) k) = {}" for k using vm_okD(4)[OF ok, of _ k] o(1) by blast
  then have "vm_ok t (F(True := ps)) a" using vm_okD(1)[OF t(2)] vm_okD(3)[OF ok] o(2) by (simp add: vm_ok_def)
  moreover have "b \<notin> tables (mem t) a" using vm_okD(4)[OF ok, of b True] bin o(1) by auto
  ultimately show ?thesis using t(2-4) o(3) by (intro exI[of _ t]) (auto simp: two_ok_def)
qed

definition reset_mmap :: mmap_state where
  "reset_mmap = vm_state.extend reset (mmap_state.fields (\<lambda>_. \<lparr>n_mmap = \<lparr>r_begin = 0, r_npages = 0, r_next = None\<rparr>, n_next = None\<rparr>) None)"

lemma parent_and_child:
  "\<exists>(s :: mmap_state) F a b. two_ok s F a b \<and> user_pages s F a b (prange USER_BASE 1) \<and> 1000 \<le> length (F True) \<and> 1000 \<le> length (F False)"
proof -
  have "page_aligned 0x80100000" by (simp add: page_aligned_def)
  moreover have "unat (0x88000000 :: u64) = unat (0x80100000 :: u64) + 4096 * (1024 + 31488)" by simp
  moreover have "cpu_ok reset_mmap"
    by (simp add: reset_mmap_def vm_state.defs mmap_state.defs reset_def cpu_ok_def mycpu_def reset_cpu_def)
  ultimately obtain t0 F0 where "pmem_ok (t0 :: mmap_state) F0" "length (F0 True) = 1024" "length (F0 False) = 31488"
    using pmem_init_ok[where b = "0x80100000" and e = "0x88000000" and n = 31488 and s = reset_mmap] by fastforce
  then obtain a ks where k: "pmem_ok t0 F0" "F0 True = a # ks" "length ks = 1023" "length (F0 False) = 31488"
    by (cases "F0 True") auto
  from fresh_root_ok[OF k(1,2)] obtain t1 :: mmap_state where t1: "vm_ok t1 (F0(True := ks)) a" by blast
  from k(3) obtain b js where j: "ks = b # js" "length js = 1022" by (cases ks) auto
  from second_root[OF t1, of b js] j(1) obtain t2 :: mmap_state where t2: "two_ok t2 (F0(True := js)) a b" by auto
  from k(4) obtain p us where p: "F0 False = p # us" "length us = 31487" by (cases "F0 False") auto
  let ?F = "F0(True := js)" and ?G = "F0(True := js, False := us)"
  have F: "?F False = p # us" using p by simp
  note pin = pmem_okD[OF two_okD(4)[OF t2]]
  have pp: "page_aligned p" "in_region (pool False t2) p" "p \<notin> set us" using pin(4,5)[of p False] pin(6)[of False] F by auto
  from fresh_page[OF t2 F] obtain u :: mmap_state where u: "\<forall>x. pg x \<noteq> pg p \<longrightarrow> mem u x = mem t2 x"
    "\<forall>m. (\<forall>x. pg x \<noteq> pg p \<longrightarrow> m x = mem t2 x) \<longrightarrow> two_ok (u\<lparr>mem := m\<rparr>) ?G a b \<and> mem_only t2 (u\<lparr>mem := m\<rparr>) \<and>
       (\<forall>r \<in> {a, b}. tables m r = tables (mem t2) r \<and> (\<forall>va. vlookup m r va = vlookup (mem t2) r va))" by blast
  let ?u = "u\<lparr>mem := mem u\<rparr>"
  have v: "two_ok ?u ?G a b" "mem_only t2 ?u" "tables (mem ?u) b = tables (mem t2) b" using u(2)[rule_format, of "mem u"] u(1) by simp_all
  have vb: "vm_ok ?u ?G a" by (rule two_okD(1)[OF v(1)])
  have al: "page_aligned 4096" by (simp add: page_aligned_def)
  have l: "last_off 4096 4096 = 0" by (simp add: last_off_def)
  from vm_mappages_ok[OF vb al pp(1), of 4096 30] j(2) obtain s :: mmap_state and F' where s: "evolved ?u ?G a s F' 2"
    "\<forall>va < VA_MAX. vlookup (mem s) a va = mapped_from 4096 0 p 30 (vlookup (mem ?u) a) va" by (auto simp: l)
  have two: "two_ok s F' a b" by (rule two_ok_sym[OF evolved_other(1)[OF two_ok_sym[OF v(1)] s(1)]])
  have F': "F' False = us" "1000 \<le> length (F' True)" using s(1) j(2) by (auto simp: evolved_def)
  have "mem_only t2 s" by (rule mem_only_trans[OF v(2) evolvedD(2)[OF s(1)]])
  then have "in_region (pool False s) p" using pp(2) by (simp add: mem_only_def)
  moreover have "p \<notin> tables (mem s) b" using evolved_other(3)[OF two_ok_sym[OF v(1)] s(1)] v(3) vm_okD(4)[OF two_okD(2)[OF t2], of p False] F by auto
  ultimately have r: "releasable s F' b p" using pp(3) F' by (simp add: releasable_def)
  have pa: "PTE_TO_PA (leaf p 30) = p" by (rule leaf_pa[OF pp(1)]) simp
  have "user_pages s F' a b (prange USER_BASE 1)"
    unfolding user_pages_def
  proof (intro allI impI)
    fix va :: u64 assume va: "va < VA_MAX" "pg va \<in> prange USER_BASE 1"
    then have "pg va = pg 4096" by (auto simp: prange_def word_unat_eq_iff)
    then have "vlookup (mem s) a va = Some (leaf p 30)" using s(2) va(1) by (simp add: mapped_from_0)
    then show "\<exists>e. vlookup (mem s) a va = Some e \<and> releasable s F' b (PTE_TO_PA e)" using r pa by simp
  qed
  then show ?thesis using two F' p(2) by (intro exI[of _ s] exI[of _ F'] exI[of _ a] exI[of _ b]) simp
qed

end
