(* ===== verification/Virtio.thy ===== *)
theory Virtio
  imports Regions
begin

text \<open>
  The virtio block driver (\<open>fs/virtio.c\<close>): descriptors, the request a buffer becomes, the
  interrupt handler, and the whole transfer as the requesting process sees it. The disk
  device is not code of the repository: \<open>device s\<close>, a parameter kept in the state, is what it
  does with a request to its blocks and to memory. It sees physical addresses only, and finds the
  request header, the block and the status byte through the descriptors.
\<close>

section \<open>State\<close>

record vring_desc =
  d_addr :: u64
  d_len :: u32
  d_flags :: u16
  d_next :: u16

text \<open>The request header (\<open>struct virtio_blk_outhdr\<close>).\<close>

record blk_outhdr =
  h_type :: u32
  h_reserved :: u32
  h_sector :: u64

record buffer =
  block_num :: u32
  ref :: u32
  data :: u64
  b_disk :: bool

text \<open>A pointer to a buffer node: one of \<open>buf_cache\<close>, or one of the two list heads.\<close>

datatype bptr = BNode nat | BActive | BInactive

record buffer_node =
  buf :: buffer
  bn_next :: "bptr option"
  bn_prev :: "bptr option"

type_synonym image = "u64 \<Rightarrow> u8"

text \<open>
  \<open>buf0\<close> is the header, a local object of \<open>virtio_disk_rw\<close> on the kernel stack; its virtual address
  \<open>buf0_at\<close> and the address \<open>info_at\<close> of the static array \<open>disk.info\<close> are the compiler's and linker's choice. The
  arguments of \<open>device\<close> are the type and sector of the header, address and length of the block, and
  whether the device may write to it.
\<close>

record disk_state = proc_state +
  vq_desc :: "nat \<Rightarrow> vring_desc"
  buf0 :: blk_outhdr
  buf0_at :: u64
  info_at :: u64
  vq_free :: "nat \<Rightarrow> bool"
  avail_idx :: u16
  avail_ring :: "nat \<Rightarrow> nat"
  used_id :: u16
  used_elems :: "nat \<Rightarrow> nat"
  used_idx :: u16
  info_b :: "nat \<Rightarrow> nat option"
  info_status :: "nat \<Rightarrow> u8"
  bufs :: "bptr \<Rightarrow> buffer_node"
  disk_image :: image
  device :: "u32 \<Rightarrow> u64 \<Rightarrow> u64 \<Rightarrow> u32 \<Rightarrow> bool \<Rightarrow> image \<times> pmem \<Rightarrow> image \<times> pmem \<times> u8"

abbreviation (input) VIRTIO_NUM :: nat where "VIRTIO_NUM \<equiv> 8"
abbreviation (input) BLOCK_SIZE :: u32 where "BLOCK_SIZE \<equiv> 4096"

definition upd_buf :: "nat \<Rightarrow> (buffer \<Rightarrow> buffer) \<Rightarrow> 'a disk_state_scheme \<Rightarrow> 'a disk_state_scheme" where
  "upd_buf i f s = s\<lparr>bufs := (bufs s)(BNode i := (bufs s (BNode i))\<lparr>buf := f (buf (bufs s (BNode i)))\<rparr>)\<rparr>"

abbreviation (input) the_buf :: "'a disk_state_scheme \<Rightarrow> nat \<Rightarrow> buffer" where
  "the_buf s i \<equiv> buf (bufs s (BNode i))"

section \<open>Descriptors\<close>

fun first_free :: "nat list \<Rightarrow> (nat \<Rightarrow> bool) \<Rightarrow> nat option" where
  "first_free [] f = None"
| "first_free (i # is) f = (if f i then Some i else first_free is f)"

definition alloc_desc :: "'a disk_state_scheme \<Rightarrow> nat option \<times> 'a disk_state_scheme" where
  "alloc_desc s =
     (case first_free [0..<VIRTIO_NUM] (vq_free s) of
        None \<Rightarrow> (None, s)
      | Some i \<Rightarrow> (Some i, s\<lparr>vq_free := (vq_free s)(i := False)\<rparr>))"

definition free_desc :: "nat \<Rightarrow> 'a disk_state_scheme \<Rightarrow> 'a disk_state_scheme res" where
  "free_desc i s =
     (if i \<ge> VIRTIO_NUM then Inl (Panic ''virtio_disk_intr 1'')
      else if vq_free s i then Inl (Panic ''virtio_disk_intr 2'')
      else
        let s = s\<lparr>vq_desc := (vq_desc s)(i := (vq_desc s i)\<lparr>d_addr := 0\<rparr>)\<rparr>;
            s = s\<lparr>vq_free := (vq_free s)(i := True)\<rparr>
        in proc_wakeup (Some ChDiskFree) s)"

text \<open>
  The loop of \<open>free_chain\<close> frees a descriptor in every round and panics on one that is free,
  so \<open>VIRTIO_NUM + 1\<close> rounds are enough.
\<close>

fun free_chain_loop :: "nat \<Rightarrow> nat \<Rightarrow> 'a disk_state_scheme \<Rightarrow> 'a disk_state_scheme res" where
  "free_chain_loop 0 i s = Inl Hang"
| "free_chain_loop (Suc n) i s =
     bnd (free_desc i s) (\<lambda>s.
     if d_flags (vq_desc s i) AND 1 \<noteq> 0 then free_chain_loop n (unat (d_next (vq_desc s i))) s
     else Inr s)"

definition free_chain :: "nat \<Rightarrow> 'a disk_state_scheme \<Rightarrow> 'a disk_state_scheme res" where
  "free_chain = free_chain_loop (Suc VIRTIO_NUM)"

text \<open>\<open>alloc3_desc\<close>: three descriptors, or none after giving back those it got.\<close>

definition alloc3_desc :: "'a disk_state_scheme \<Rightarrow> ((nat \<times> nat \<times> nat) option \<times> 'a disk_state_scheme) res" where
  "alloc3_desc s =
     (case alloc_desc s of
        (None, s) \<Rightarrow> Inr (None, s)
      | (Some a, s) \<Rightarrow>
         (case alloc_desc s of
            (None, s) \<Rightarrow> bnd (free_desc a s) (\<lambda>s. Inr (None, s))
          | (Some b, s) \<Rightarrow>
             (case alloc_desc s of
                (None, s) \<Rightarrow> bnd (free_desc a s) (\<lambda>s. bnd (free_desc b s) (\<lambda>s. Inr (None, s)))
              | (Some c, s) \<Rightarrow> Inr (Some (a, b, c), s))))"

section \<open>Requests\<close>

definition ALIGN_DOWN :: "u64 \<Rightarrow> u64 \<Rightarrow> u64" where
  "ALIGN_DOWN a refer = a AND NOT (refer - 1)"

text \<open>The address of \<open>disk.info[i].status\<close>: an element has 16 bytes, the status comes after the pointer.\<close>

definition status_addr :: "nat \<Rightarrow> 'a disk_state_scheme \<Rightarrow> u64" where
  "status_addr i s = info_at s + 16 * of_nat i + 8"

text \<open>
  The three descriptors of a request, the entry in the available ring, the mark on the buffer. The header is on the
  kernel stack, which is not mapped to its own address: its physical address comes from the kernel's page table. A
  stack page without an entry is a null pointer that is read (\<open>Fault\<close>).
\<close>

definition post_request :: "nat \<Rightarrow> bool \<Rightarrow> nat \<times> nat \<times> nat \<Rightarrow> 'a disk_state_scheme \<Rightarrow> 'a disk_state_scheme res" where
  "post_request b write idx s =
     (case idx of (i0, i1, i2) \<Rightarrow>
      let sector = ucast (block_num (the_buf s b) * (BLOCK_SIZE div 512)) :: u64;
          s = s\<lparr>buf0 := \<lparr>h_type = (if write then 1 else 0), h_reserved = 0, h_sector = sector\<rparr>\<rparr>;
          addr = ALIGN_DOWN (buf0_at s) PGSIZE;
          off = buf0_at s mod PGSIZE
      in bnd (vm_getpte 0 addr False s) (\<lambda>(pte, s).
         if pte = 0 then Inl Fault
         else
           let s = s\<lparr>vq_desc := (vq_desc s)(i0 := \<lparr>d_addr = PTE_TO_PA (load64 (mem s) pte) + off, d_len = 16,
                       d_flags = 1, d_next = of_nat i1\<rparr>)\<rparr>;
               s = s\<lparr>vq_desc := (vq_desc s)(i1 := \<lparr>d_addr = data (the_buf s b), d_len = BLOCK_SIZE,
                       d_flags = (if write then 0 else 2) OR 1, d_next = of_nat i2\<rparr>)\<rparr>;
               s = s\<lparr>info_status := (info_status s)(i0 := 0)\<rparr>;
               s = s\<lparr>vq_desc := (vq_desc s)(i2 := \<lparr>d_addr = status_addr i0 s, d_len = 1, d_flags = 2,
                       d_next = 0\<rparr>)\<rparr>;
               s = upd_buf b (\<lambda>x. x\<lparr>b_disk := True\<rparr>) s;
               s = s\<lparr>info_b := (info_b s)(i0 := Some b)\<rparr>;
               s = s\<lparr>avail_ring := (avail_ring s)(unat (avail_idx s) mod VIRTIO_NUM := i0)\<rparr>
           in Inr (s\<lparr>avail_idx := avail_idx s + 1\<rparr>)))"

text \<open>
  Where the hardware finds an object at a kernel virtual address, and what the device reads as a header at a physical
  address: \<open>buf0\<close> where that is (all of it in one page), the bytes of the memory elsewhere.
\<close>

definition kpa :: "'a vm_state_scheme \<Rightarrow> u64 \<Rightarrow> u64 option" where
  "kpa s va = map_option (\<lambda>e. PTE_TO_PA e + va mod PGSIZE) (vlookup (mem s) (kern_pagetable s) va)"

definition header_at :: "'a disk_state_scheme \<Rightarrow> u64 \<Rightarrow> blk_outhdr" where
  "header_at s a =
     (if kpa s (buf0_at s) = Some a \<and> buf0_at s mod PGSIZE \<le> PGSIZE - 16 then buf0 s
      else \<lparr>h_type = load32 (mem s) a, h_reserved = load32 (mem s) (a + 4), h_sector = load64 (mem s) (a + 8)\<rparr>)"

text \<open>
  The device takes the request at the end of the available ring, a chain of three descriptors: header, block, status
  byte. It does what the header says, writes the status and puts the chain's head into the used ring. A chain that is
  not of this form is not served.
\<close>

definition device_step :: "'a disk_state_scheme \<Rightarrow> 'a disk_state_scheme" where
  "device_step s =
     (let i0 = avail_ring s (unat (avail_idx s - 1) mod VIRTIO_NUM);
          d0 = vq_desc s i0; d1 = vq_desc s (unat (d_next d0)); d2 = vq_desc s (unat (d_next d1));
          h = header_at s (d_addr d0)
      in if d_flags d0 AND 1 = 0 \<or> d_flags d1 AND 1 = 0 \<or> d_flags d2 AND 2 = 0 \<or> d_len d0 \<noteq> 16 \<or> d_len d2 \<noteq> 1 then s
         else
           case device s (h_type h) (h_sector h) (d_addr d1) (d_len d1) (d_flags d1 AND 2 \<noteq> 0) (disk_image s, mem s) of
             (im, m, st) \<Rightarrow>
               s\<lparr>disk_image := im, mem := m,
                 info_status := (\<lambda>i. if i < VIRTIO_NUM \<and> status_addr i s = d_addr d2 then st else info_status s i),
                 used_elems := (used_elems s)(unat (used_id s) mod VIRTIO_NUM := i0),
                 used_id := used_id s + 1\<rparr>)"

text \<open>
  The interrupt handler: the loop over the used ring, at most \<open>VIRTIO_NUM\<close> entries long
  because both indices are compared modulo \<open>VIRTIO_NUM\<close>.
\<close>

fun intr_loop :: "nat \<Rightarrow> 'a disk_state_scheme \<Rightarrow> 'a disk_state_scheme res" where
  "intr_loop 0 s = Inl Hang"
| "intr_loop (Suc n) s =
     (if unat (used_idx s) mod VIRTIO_NUM \<noteq> unat (used_id s) mod VIRTIO_NUM then
        let i = used_elems s (unat (used_idx s)) in
        if info_status s i \<noteq> 0 then Inl (Panic ''virtio_disk_intr status'')
        else
          case info_b s i of
            None \<Rightarrow> Inl Fault
          | Some b \<Rightarrow>
              bnd (proc_wakeup (Some (ChBuf b)) (upd_buf b (\<lambda>x. x\<lparr>b_disk := False\<rparr>) s)) (\<lambda>s.
              intr_loop n (s\<lparr>used_idx := of_nat ((unat (used_idx s) + 1) mod VIRTIO_NUM)\<rparr>))
      else Inr s)"

definition virtio_disk_intr :: "'a disk_state_scheme \<Rightarrow> 'a disk_state_scheme res" where
  "virtio_disk_intr s =
     bnd (spinlock_acquire LkVdisk s) (\<lambda>s.
     bnd (intr_loop (Suc VIRTIO_NUM) s) (\<lambda>s.
     spinlock_release LkVdisk s))"

text \<open>
  \<open>while (b->disk == true) proc_sleep(b, &disk.vdisk_lock)\<close>, run in the schedule in which the
  device answers while the process sleeps and no other process runs: the process gives up
  the hart, the scheduler ends its round, the device works, its interrupt is handled, the
  scheduler picks the process again.
\<close>

definition disk_wait :: "nat \<Rightarrow> 'a disk_state_scheme \<Rightarrow> 'a disk_state_scheme res" where
  "disk_wait b s = with_myproc (\<lambda>p.
     if b_disk (the_buf s b) then
       bnd (proc_sleep_enter (ChBuf b) LkVdisk s) (\<lambda>s.
       bnd (sched_back p s) (\<lambda>s.
       bnd (virtio_disk_intr (device_step s)) (\<lambda>s.
       bnd (sched_pick p s) (\<lambda>(picked, s).
       if \<not> picked then Inl Sleep
       else
         bnd (proc_sleep_resume LkVdisk s) (\<lambda>s.
         if b_disk (the_buf s b) then Inl Sleep else Inr s)))))
     else Inr s) s"

definition virtio_disk_rw :: "nat \<Rightarrow> bool \<Rightarrow> 'a disk_state_scheme \<Rightarrow> 'a disk_state_scheme res" where
  "virtio_disk_rw b write s =
     bnd (spinlock_acquire LkVdisk s) (\<lambda>s.
     bnd (alloc3_desc s) (\<lambda>(idx, s).
     case idx of
       None \<Rightarrow> bnd (proc_sleep_enter ChDiskFree LkVdisk s) (\<lambda>s. Inl Sleep)
     | Some (i0, i1, i2) \<Rightarrow>
         bnd (post_request b write (i0, i1, i2) s) (\<lambda>s.
         bnd (disk_wait b s) (\<lambda>s.
         bnd (free_chain i0 (s\<lparr>info_b := (info_b s)(i0 := None)\<rparr>)) (\<lambda>s.
         spinlock_release LkVdisk s)))))"

text \<open>
  Initialisation: \<open>reg\<close> gives the values of the device's registers, \<open>pages\<close> is the address of
  \<open>disk.pages\<close>; the result lists the register writes in order.
\<close>

definition virtio_disk_init :: "(nat \<Rightarrow> u32) \<Rightarrow> u64 \<Rightarrow> 'a disk_state_scheme \<Rightarrow> ((nat \<times> u32) list \<times> 'a disk_state_scheme) res" where
  "virtio_disk_init reg pages s =
     (let s = spinlock_init LkVdisk s in
      if reg 0x000 \<noteq> 0x74726976 \<or> reg 0x004 \<noteq> 1 \<or> reg 0x008 \<noteq> 2 \<or> reg 0x00c \<noteq> 0x554d4551
      then Inl (Panic ''could not find virtio disk'')
      else
        let features = fold (\<lambda>k f. f AND NOT (push_bit k 1)) [5, 7, 11, 12, 27, 29, 28] (reg 0x010);
            pre = [(0x070, 1), (0x070, 3), (0x020, features), (0x070, 11), (0x070, 15),
                   (0x028, 4096), (0x030, 0)];
            maxq = reg 0x034
        in if maxq = 0 then Inl (Panic ''virtio disk has no queue 0'')
           else if maxq < 8 then Inl (Panic ''virtio disk max queue too short'')
           else
             let s = s\<lparr>vq_desc := (\<lambda>_. \<lparr>d_addr = 0, d_len = 0, d_flags = 0, d_next = 0\<rparr>),
                       avail_idx := 0, avail_ring := (\<lambda>_. 0), used_id := 0, used_elems := (\<lambda>_. 0),
                       vq_free := (\<lambda>i. if i < VIRTIO_NUM then True else vq_free s i)\<rparr>
             in Inr (pre @ [(0x038, 8), (0x040, ucast (drop_bit 12 pages))], s))"

end
