(* ===== verification/Calm.thy ===== *)
theory Calm
  imports Virtio
begin

text \<open>
  What a kernel operation that runs in the context of a process leaves alone: \<open>calm s t\<close> says
  that the hart, the locks and the running process are as before and that other processes
  were at most woken. \<open>kctx s p\<close> is the context such operations start from.
\<close>

section \<open>The relation\<close>

definition hart_same :: "'a kcpu_scheme \<Rightarrow> 'a kcpu_scheme \<Rightarrow> bool" where
  "hart_same s t \<longleftrightarrow> hart t = hart s \<and> locks t = locks s \<and> noff (mycpu t) = noff (mycpu s) \<and>
     intr_get t = intr_get s \<and> myproc t = myproc s"

definition wake_rel :: "proc \<Rightarrow> proc \<Rightarrow> bool" where
  "wake_rel p q \<longleftrightarrow> q = p \<or> p_state p = SLEEPING \<and> q = p\<lparr>p_state := RUNNABLE\<rparr>"

definition calm :: "'a proc_state_scheme \<Rightarrow> 'a proc_state_scheme \<Rightarrow> bool" where
  "calm s t \<longleftrightarrow> hart_same s t \<and> (\<forall>i. wake_rel (proc_pool s i) (proc_pool t i)) \<and>
     init_process t = init_process s \<and> next_pid t = next_pid s"

definition kctx :: "'a proc_state_scheme \<Rightarrow> nat \<Rightarrow> bool" where
  "kctx s p \<longleftrightarrow> procs_free s \<and> myproc s = Some p \<and> p < N_PROC \<and>
     p_state (proc_pool s p) = RUNNING \<and> sleep_space (proc_pool s p) = None"

lemma wake_rel_refl [simp]: "wake_rel p p"
  by (simp add: wake_rel_def)

lemma wake_rel_trans: "wake_rel p q \<Longrightarrow> wake_rel q r \<Longrightarrow> wake_rel p r"
  by (auto simp: wake_rel_def)

lemma wake_rel_wake_one [simp]: "wake_rel p (wake_one ch p)"
  by (simp add: wake_rel_def wake_one_def)

lemma calm_refl [simp]: "calm s s"
  by (simp add: calm_def hart_same_def)

lemma calm_trans [trans]: "calm s t \<Longrightarrow> calm t u \<Longrightarrow> calm s u"
  by (auto simp: calm_def hart_same_def intro: wake_rel_trans)

lemma hart_same_stale [simp]: "hart_same s (stale_origin s)"
  by (simp add: hart_same_def stale_origin_def cpu_defs myproc_def)

lemma calm_stale [simp]: "calm s (stale_origin s)"
  by (simp add: calm_def)

lemma calm_wake [simp]: "calm s (wake_state ch n s)"
  by (simp add: calm_def hart_same_def wake_state_def woken_def cpu_defs myproc_def)

lemma calm_frame:
  assumes "hart t = hart s" and "cpus t = cpus s" and "locks t = locks s"
    and "proc_pool t = proc_pool s" and "init_process t = init_process s" and "next_pid t = next_pid s"
  shows "calm s t"
  using assms by (simp add: calm_def hart_same_def cpu_defs myproc_def)

lemma hart_same_ctx:
  assumes "hart_same s t"
  shows "cpu_ok t = cpu_ok s" "free_lock l t = free_lock l s" "procs_free t = procs_free s"
  using assms by (auto simp: hart_same_def cpu_ok_def free_lock_def procs_free_def)

lemma procs_free_stale [simp]: "procs_free (stale_origin s) = procs_free s"
  by (rule hart_same_ctx(3)[OF hart_same_stale])

lemma calm_ctx:
  assumes "calm s t"
  shows "cpu_ok t = cpu_ok s" "free_lock l t = free_lock l s" "procs_free t = procs_free s"
    "myproc t = myproc s" "hart t = hart s"
  using assms hart_same_ctx[of s t] by (auto simp: calm_def hart_same_def)

lemma calm_kctx: "calm s t \<Longrightarrow> kctx s p \<Longrightarrow> kctx t p \<and> proc_pool t p = proc_pool s p"
proof -
  assume c: "calm s t" and k: "kctx s p"
  have "wake_rel (proc_pool s p) (proc_pool t p)" using c by (simp add: calm_def)
  then have "proc_pool t p = proc_pool s p" using k by (auto simp: wake_rel_def kctx_def)
  then show ?thesis using c k calm_ctx[OF c] by (simp add: kctx_def)
qed

lemma kctxD:
  assumes "kctx s p"
  shows "cpu_ok s" "procs_free s" "myproc s = Some p" "p < N_PROC" "free_lock (LkProc p) s"
    "p_state (proc_pool s p) = RUNNING" "sleep_space (proc_pool s p) = None"
  using assms by (auto simp: kctx_def procs_free_def)

section \<open>Frames of the disk fields\<close>

definition set_cproc :: "nat option \<Rightarrow> 'a kcpu_scheme \<Rightarrow> 'a kcpu_scheme" where
  "set_cproc p s = set_mycpu ((mycpu s)\<lparr>cproc := p\<rparr>) s"

lemma set_cproc_entered:
  "set_mycpu ((mycpu (entered l s))\<lparr>cproc := p\<rparr>) (entered l s) = entered l (set_cproc p s)"
  by (cases s; cases "cpus s (hart s)")
     (auto simp: set_cproc_def entered_def push_off_def cpu_defs fun_upd_def)

lemma set_cproc_frame [simp]:
  "cpu_ok (set_cproc p s) = cpu_ok s" "free_lock l (set_cproc p s) = free_lock l s"
  "myproc (set_cproc p s) = p" "procs_free (set_cproc p s) = procs_free s"
  "hart (set_cproc p s) = hart s" "locks (set_cproc p s) = locks s"
  "noff (mycpu (set_cproc p s)) = noff (mycpu s)" "intr_get (set_cproc p s) = intr_get s"
  by (simp_all add: set_cproc_def cpu_ok_def free_lock_def cpu_defs myproc_def procs_free_def)

lemma set_cproc_fields [simp]:
  "proc_pool (set_cproc p s) = proc_pool s" "init_process (set_cproc p s) = init_process s"
  "next_pid (set_cproc p s) = next_pid s" "mem_state.more (set_cproc p s) = mem_state.more s"
  "mem (set_cproc p s) = mem s" "kernel_pool (set_cproc p s) = kernel_pool s"
  "user_pool (set_cproc p s) = user_pool s" "slocks (set_cproc p s) = slocks s"
  by (simp_all add: set_cproc_def set_mycpu_def)

text \<open>\<open>dk s\<close>: everything above the processes, that is, the disk part of the state.\<close>

abbreviation dk :: "'a disk_state_scheme \<Rightarrow> _" where
  "dk s \<equiv> proc_state.more s"

lemma dk_frame [simp]:
  "dk (entered l s) = dk s" "dk (stale_origin s) = dk s" "dk (set_cproc p s) = dk s"
  "dk (wake_state ch n s) = dk s" "dk (upd_proc i f s) = dk s"
  by (simp_all add: entered_def push_off_def stale_origin_def set_cproc_def wake_state_def upd_proc_def cpu_defs)

lemma kpt_frame [simp]:
  "kern_pagetable (entered l s) = kern_pagetable s" "kern_pagetable (stale_origin s) = kern_pagetable s"
  "kern_pagetable (set_cproc p s) = kern_pagetable s" "kern_pagetable (wake_state ch n s) = kern_pagetable s"
  "kern_pagetable (upd_proc i f s) = kern_pagetable s"
  by (simp_all add: entered_def push_off_def stale_origin_def set_cproc_def wake_state_def upd_proc_def cpu_defs)

text \<open>States with the same disk part agree on every field of it.\<close>

lemma dk_eqD:
  assumes "dk t = dk s"
  shows "vq_desc t = vq_desc s" "buf0 t = buf0 s" "buf0_at t = buf0_at s" "info_at t = info_at s" "vq_free t = vq_free s" "avail_idx t = avail_idx s"
    "avail_ring t = avail_ring s" "used_id t = used_id s" "used_elems t = used_elems s"
    "used_idx t = used_idx s" "info_b t = info_b s" "info_status t = info_status s" "bufs t = bufs s"
    "disk_image t = disk_image s" "device t = device s" "disk_state.more t = disk_state.more s"
  using assms by (cases s; cases t; simp)+

lemma dk_fields [simp]:
  "bufs (entered l s) = bufs s" "bufs (stale_origin s) = bufs s" "bufs (wake_state ch n s) = bufs s"
  "bufs (set_cproc p s) = bufs s" "bufs (upd_proc i f s) = bufs s"
  "vq_desc (entered l s) = vq_desc s" "vq_desc (stale_origin s) = vq_desc s"
  "vq_desc (wake_state ch n s) = vq_desc s"
  "vq_free (entered l s) = vq_free s" "vq_free (stale_origin s) = vq_free s"
  "vq_free (wake_state ch n s) = vq_free s"
  "info_b (entered l s) = info_b s" "info_b (wake_state ch n s) = info_b s"
  "used_idx (entered l s) = used_idx s" "used_idx (wake_state ch n s) = used_idx s"
  "used_id (entered l s) = used_id s" "used_id (wake_state ch n s) = used_id s"
  "buf0_at (entered l s) = buf0_at s" "buf0 (entered l s) = buf0 s" "info_at (entered l s) = info_at s"
  "avail_idx (entered l s) = avail_idx s"
  "avail_ring (entered l s) = avail_ring s" "device (entered l s) = device s"
  "disk_image (entered l s) = disk_image s" "device (stale_origin s) = device s"
  "disk_image (stale_origin s) = disk_image s" "device (wake_state ch n s) = device s"
  "disk_image (wake_state ch n s) = disk_image s"
  "used_elems (entered l s) = used_elems s" "info_status (entered l s) = info_status s"
  by (rule dk_eqD, simp)+

lemma dk_update [simp]:
  "(entered l s)\<lparr>vq_desc := a\<rparr> = entered l (s\<lparr>vq_desc := a\<rparr>)"
  "(entered l s)\<lparr>buf0 := b\<rparr> = entered l (s\<lparr>buf0 := b\<rparr>)"
  "(entered l s)\<lparr>vq_free := c\<rparr> = entered l (s\<lparr>vq_free := c\<rparr>)"
  "(entered l s)\<lparr>avail_idx := d\<rparr> = entered l (s\<lparr>avail_idx := d\<rparr>)"
  "(entered l s)\<lparr>avail_ring := e\<rparr> = entered l (s\<lparr>avail_ring := e\<rparr>)"
  "(entered l s)\<lparr>used_idx := f\<rparr> = entered l (s\<lparr>used_idx := f\<rparr>)"
  "(entered l s)\<lparr>info_b := g\<rparr> = entered l (s\<lparr>info_b := g\<rparr>)"
  "(entered l s)\<lparr>info_status := h\<rparr> = entered l (s\<lparr>info_status := h\<rparr>)"
  "(entered l s)\<lparr>bufs := i\<rparr> = entered l (s\<lparr>bufs := i\<rparr>)"
  "upd_buf j k (entered l s) = entered l (upd_buf j k s)"
  by (simp_all add: entered_def push_off_def cpu_defs upd_buf_def)

lemma vq_desc_ctx [simp]:
  "cpu_ok (s\<lparr>vq_desc := x\<rparr>) = cpu_ok s" "free_lock l (s\<lparr>vq_desc := x\<rparr>) = free_lock l s"
  "procs_free (s\<lparr>vq_desc := x\<rparr>) = procs_free s" "myproc (s\<lparr>vq_desc := x\<rparr>) = myproc s"
  by (simp_all add: cpu_ok_def free_lock_def cpu_defs procs_free_def myproc_def)


lemma vq_free_ctx [simp]:
  "cpu_ok (s\<lparr>vq_free := x\<rparr>) = cpu_ok s" "free_lock l (s\<lparr>vq_free := x\<rparr>) = free_lock l s"
  "procs_free (s\<lparr>vq_free := x\<rparr>) = procs_free s" "myproc (s\<lparr>vq_free := x\<rparr>) = myproc s"
  by (simp_all add: cpu_ok_def free_lock_def cpu_defs procs_free_def myproc_def)


lemma used_idx_ctx [simp]:
  "cpu_ok (s\<lparr>used_idx := x\<rparr>) = cpu_ok s" "free_lock l (s\<lparr>used_idx := x\<rparr>) = free_lock l s"
  "procs_free (s\<lparr>used_idx := x\<rparr>) = procs_free s" "myproc (s\<lparr>used_idx := x\<rparr>) = myproc s"
  by (simp_all add: cpu_ok_def free_lock_def cpu_defs procs_free_def myproc_def)


lemma info_b_ctx [simp]:
  "cpu_ok (s\<lparr>info_b := x\<rparr>) = cpu_ok s" "free_lock l (s\<lparr>info_b := x\<rparr>) = free_lock l s"
  "procs_free (s\<lparr>info_b := x\<rparr>) = procs_free s" "myproc (s\<lparr>info_b := x\<rparr>) = myproc s"
  by (simp_all add: cpu_ok_def free_lock_def cpu_defs procs_free_def myproc_def)


lemma bufs_ctx [simp]:
  "cpu_ok (s\<lparr>bufs := x\<rparr>) = cpu_ok s" "free_lock l (s\<lparr>bufs := x\<rparr>) = free_lock l s"
  "procs_free (s\<lparr>bufs := x\<rparr>) = procs_free s" "myproc (s\<lparr>bufs := x\<rparr>) = myproc s"
  by (simp_all add: cpu_ok_def free_lock_def cpu_defs procs_free_def myproc_def)


lemma disk_image_ctx [simp]:
  "cpu_ok (s\<lparr>disk_image := x\<rparr>) = cpu_ok s" "free_lock l (s\<lparr>disk_image := x\<rparr>) = free_lock l s"
  "procs_free (s\<lparr>disk_image := x\<rparr>) = procs_free s" "myproc (s\<lparr>disk_image := x\<rparr>) = myproc s"
  by (simp_all add: cpu_ok_def free_lock_def cpu_defs procs_free_def myproc_def)

lemma upd_buf_ctx [simp]:
  "cpu_ok (upd_buf i f s) = cpu_ok s" "free_lock l (upd_buf i f s) = free_lock l s"
  "procs_free (upd_buf i f s) = procs_free s" "myproc (upd_buf i f s) = myproc s"
  by (simp_all add: upd_buf_def)

end
