(* ===== verification/DiskIO.thy ===== *)
theory DiskIO
  imports Calm
begin

text \<open>
  The block transfer: with an idle queue and a device that behaves as the virtio
  specification says, \<open>virtio_disk_rw\<close> returns, has moved the block between the buffer's page
  and the disk, and leaves the queue idle again.
\<close>

section \<open>The device and the idle queue\<close>

text \<open>Byte offset of a block on the disk: the driver multiplies in 32 bits.\<close>

definition block_off :: "u32 \<Rightarrow> u64" where
  "block_off n = ucast (n * (BLOCK_SIZE div 512)) * 512"

definition blk_read :: "u64 \<Rightarrow> u64 \<Rightarrow> image \<Rightarrow> pmem \<Rightarrow> pmem" where
  "blk_read off a im m = (\<lambda>x. if unat (x - a) < 4096 then im (off + (x - a)) else m x)"

definition blk_write :: "u64 \<Rightarrow> u64 \<Rightarrow> image \<Rightarrow> pmem \<Rightarrow> image" where
  "blk_write off a im m = (\<lambda>x. if unat (x - off) < 4096 then m (a + (x - off)) else im x)"

text \<open>
  The documented behaviour of a virtio block device: type 0 reads into a block the device may write to, type 1
  writes a block it may read, the status is 0.
\<close>

definition dev_ok :: "'a disk_state_scheme \<Rightarrow> bool" where
  "dev_ok s \<longleftrightarrow> (\<forall>sec a im m.
     device s 0 sec a 4096 True (im, m) = (im, blk_read (sec * 512) a im m, 0) \<and>
     device s 1 sec a 4096 False (im, m) = (blk_write (sec * 512) a im m, m, 0))"

definition vq_ok :: "'a disk_state_scheme \<Rightarrow> bool" where
  "vq_ok s \<longleftrightarrow> (\<forall>i<8. vq_free s i) \<and> used_idx s = of_nat (unat (used_id s) mod 8)"

text \<open>The kernel's page table maps the stack page with the request header, which lies in one page.\<close>

definition stack_mapped :: "'a disk_state_scheme \<Rightarrow> bool" where
  "stack_mapped s \<longleftrightarrow> kern_pagetable s \<noteq> 0 \<and> pt_ok (mem s) (kern_pagetable s) \<and> buf0_at s < VA_MAX \<and>
     buf0_at s mod PGSIZE \<le> PGSIZE - 16 \<and> vlookup (mem s) (kern_pagetable s) (buf0_at s) \<noteq> None"

definition posted :: "'a disk_state_scheme \<Rightarrow> nat \<Rightarrow> bool \<Rightarrow> bool" where
  "posted s b w \<longleftrightarrow> avail_ring s (unat (avail_idx s - 1) mod 8) = 0 \<and>
     header_at s (d_addr (vq_desc s 0)) = \<lparr>h_type = (if w then 1 else 0), h_reserved = 0,
       h_sector = ucast (block_num (the_buf s b) * (BLOCK_SIZE div 512))\<rparr> \<and>
     d_len (vq_desc s 0) = 16 \<and> d_flags (vq_desc s 0) = 1 \<and> d_next (vq_desc s 0) = 1 \<and>
     d_addr (vq_desc s 1) = data (the_buf s b) \<and> d_len (vq_desc s 1) = 4096 \<and>
     d_flags (vq_desc s 1) = (if w then 1 else 3) \<and> d_next (vq_desc s 1) = 2 \<and>
     d_addr (vq_desc s 2) = status_addr 0 s \<and> d_len (vq_desc s 2) = 1 \<and> d_flags (vq_desc s 2) = 2 \<and>
     info_b s 0 = Some b \<and> b_disk (the_buf s b)"

definition rest_same :: "'a disk_state_scheme \<Rightarrow> 'a disk_state_scheme \<Rightarrow> bool" where
  "rest_same s t \<longleftrightarrow> kernel_pool t = kernel_pool s \<and> user_pool t = user_pool s \<and>
     kern_pagetable t = kern_pagetable s \<and> region_pool t = region_pool s \<and>
     pool_sentinel t = pool_sentinel s \<and> slocks t = slocks s \<and> device t = device s \<and> buf0_at t = buf0_at s \<and> info_at t = info_at s \<and>
     disk_state.more t = disk_state.more s"

lemma rest_same_refl [simp]: "rest_same s s"
  by (simp add: rest_same_def)

lemma rest_same_trans: "rest_same s t \<Longrightarrow> rest_same t u \<Longrightarrow> rest_same s u"
  by (simp add: rest_same_def)

lemma rest_same_frame [simp]:
  "rest_same s (entered l s)" "rest_same s (stale_origin s)" "rest_same s (wake_state ch n s)"
  "rest_same s (set_cproc p s)" "rest_same s (upd_proc i f s)"
  by (cases s; simp add: rest_same_def entered_def push_off_def stale_origin_def wake_state_def
      set_cproc_def upd_proc_def cpu_defs)+

lemma upd_proc_same [simp]: "proc_pool (upd_proc i f s) = (proc_pool s)(i := f (proc_pool s i))"
  by (simp add: upd_proc_def)

lemma upd_proc_hart [simp]: "hart (upd_proc i f s) = hart s" "cpus (upd_proc i f s) = cpus s"
  "locks (upd_proc i f s) = locks s" "init_process (upd_proc i f s) = init_process s"
  "next_pid (upd_proc i f s) = next_pid s" "procs_free (upd_proc i f s) = procs_free s"
  by (simp_all add: upd_proc_def procs_free_def)

text \<open>\<open>base_same s t\<close>: only the disk part and the memory differ.\<close>

definition base_same :: "'a disk_state_scheme \<Rightarrow> 'a disk_state_scheme \<Rightarrow> bool" where
  "base_same s t \<longleftrightarrow> proc_state.truncate (t\<lparr>mem := \<lambda>_. 0\<rparr>) = proc_state.truncate (s\<lparr>mem := \<lambda>_. 0\<rparr>)"

lemmas base_defs = base_same_def proc_state.truncate_def

lemma base_sameD:
  assumes "base_same s t"
  shows "hart t = hart s" "cpus t = cpus s" "locks t = locks s" "proc_pool t = proc_pool s"
    "init_process t = init_process s" "next_pid t = next_pid s" "slocks t = slocks s"
    "kernel_pool t = kernel_pool s" "user_pool t = user_pool s" "kern_pagetable t = kern_pagetable s"
    "region_pool t = region_pool s" "pool_sentinel t = pool_sentinel s"
  using assms by (simp_all add: base_defs)

lemma base_same_ctx:
  assumes "base_same s t"
  shows "cpu_ok t = cpu_ok s" "free_lock l t = free_lock l s" "myproc t = myproc s"
    "procs_free t = procs_free s" "calm s t"
  using base_sameD[OF assms] by (auto simp: cpu_ok_def free_lock_def myproc_def procs_free_def cpu_defs intro: calm_frame)

section \<open>The steps of a transfer\<close>

lemma alloc3_ok:
  assumes "\<And>i. i < 8 \<Longrightarrow> vq_free s i"
  shows "alloc3_desc s = Inr (Some (0, 1, 2), s\<lparr>vq_free := (vq_free s)(0 := False, 1 := False, 2 := False)\<rparr>)"
proof -
  have u: "[0..<8] = [0, 1, 2, 3, 4, 5, 6, 7 :: nat]" by (simp add: upt_rec)
  show ?thesis using assms[of 0] assms[of 1] assms[of 2] by (simp add: alloc3_desc_def alloc_desc_def u)
qed

lemma align_down_page: "pg (ALIGN_DOWN a PGSIZE) = pg a" "a < VA_MAX \<Longrightarrow> ALIGN_DOWN a PGSIZE < VA_MAX"
proof -
  have m: "(PGSIZE - 1 :: u64) = mask 12" by (simp add: mask_eq_exp_minus_1)
  have e: "ALIGN_DOWN a PGSIZE = a AND NOT (mask 12)" unfolding ALIGN_DOWN_def m ..
  show "pg (ALIGN_DOWN a PGSIZE) = pg a"
    unfolding e pg_drop_bit by (rule bit_word_eqI) (auto simp: bit_simps dest: bit_imp_le_length)
  show "ALIGN_DOWN a PGSIZE < VA_MAX" if "a < VA_MAX"
    using word_and_le2[of a "NOT (mask 12)"] that unfolding e by (rule order_le_less_trans)
qed

definition header_slot :: "'a disk_state_scheme \<Rightarrow> u64" where
  "header_slot s = slot (mem s) (kern_pagetable s) (ALIGN_DOWN (buf0_at s) PGSIZE)"

lemma header_getpte:
  assumes "stack_mapped s"
  shows "vm_getpte 0 (ALIGN_DOWN (buf0_at s) PGSIZE) False s = Inr (header_slot s, s)" "header_slot s \<noteq> 0"
    "kpa s (buf0_at s) = Some (PTE_TO_PA (load64 (mem s) (header_slot s)) + buf0_at s mod PGSIZE)"
proof -
  let ?r = "kern_pagetable s" and ?a = "ALIGN_DOWN (buf0_at s) PGSIZE"
  from assms obtain e where h: "?r \<noteq> 0" "pt_ok (mem s) ?r" "buf0_at s < VA_MAX" "vlookup (mem s) ?r (buf0_at s) = Some e"
    by (auto simp: stack_mapped_def)
  note al = align_down_page(1)[of "buf0_at s"] align_down_page(2)[OF h(3)]
  have "vlookup (mem s) ?r ?a = Some e" using lookup_same_page[OF al(2) h(3) al(1)] h(4) by simp
  note l = lookup_slot[OF this h(2), folded header_slot_def]
  have "vm_getpte 0 ?a False s = vm_getpte ?r ?a False s" using h(1) by (simp add: vm_getpte_def)
  also have "\<dots> = Inr (header_slot s, s)" unfolding header_slot_def by (rule vm_getpte_lookup[OF al(2) h(1)])
  finally show "vm_getpte 0 ?a False s = Inr (header_slot s, s)" .
  show "header_slot s \<noteq> 0" "kpa s (buf0_at s) = Some (PTE_TO_PA (load64 (mem s) (header_slot s)) + buf0_at s mod PGSIZE)"
    using l h(4) by (simp_all add: kpa_def)
qed

lemma stack_mapped_cong:
  assumes "dk t = dk s" and "mem t = mem s" and "kern_pagetable t = kern_pagetable s"
  shows "stack_mapped t = stack_mapped s" "header_slot t = header_slot s" "posted t b w = posted s b w"
proof -
  note d = dk_eqD[OF assms(1)]
  show "stack_mapped t = stack_mapped s" "header_slot t = header_slot s"
    using d assms(2,3) by (simp_all add: stack_mapped_def header_slot_def)
  have k: "kpa t (buf0_at t) = kpa s (buf0_at s)" using d assms(2,3) by (simp add: kpa_def)
  have "header_at t a = header_at s a" for a unfolding header_at_def k using d assms(2) by simp
  moreover have "status_addr 0 t = status_addr 0 s" using d by (simp add: status_addr_def)
  ultimately show "posted t b w = posted s b w" using d by (simp add: posted_def)
qed

lemma post_ok:
  fixes s :: "'a disk_state_scheme" and b :: nat and w :: bool
  assumes m: "stack_mapped s"
  shows "\<exists>t. post_request b w (0, 1, 2) (entered l (s\<lparr>vq_free := (vq_free s)(0 := False, 1 := False, 2 := False)\<rparr>)) = Inr (entered l t) \<and>
    posted t b w \<and> base_same s t \<and> mem t = mem s \<and> disk_image t = disk_image s \<and> device t = device s \<and>
    disk_state.more t = disk_state.more s \<and> buf0_at t = buf0_at s \<and> info_at t = info_at s \<and>
    used_idx t = used_idx s \<and> used_id t = used_id s \<and> bufs t = bufs (upd_buf b (\<lambda>x. x\<lparr>b_disk := True\<rparr>) s) \<and>
    vq_free t = (vq_free s)(0 := False, 1 := False, 2 := False)"
proof -
  let ?h = "\<lparr>h_type = (if w then 1 else 0), h_reserved = 0, h_sector = ucast (block_num (the_buf s b) * (BLOCK_SIZE div 512))\<rparr> :: blk_outhdr"
  let ?u = "s\<lparr>vq_free := (vq_free s)(0 := False, 1 := False, 2 := False), buf0 := ?h\<rparr>"
  have mu: "stack_mapped ?u" using m by (simp add: stack_mapped_def)
  have en: "stack_mapped (entered l ?u) = stack_mapped ?u" "header_slot (entered l ?u) = header_slot ?u"
    by (rule stack_mapped_cong; simp)+
  have "header_slot ?u = header_slot s" by (simp add: header_slot_def)
  then have g: "vm_getpte 0 (ALIGN_DOWN (buf0_at s) PGSIZE) False (entered l ?u) = Inr (header_slot s, entered l ?u)" "header_slot s \<noteq> 0"
    "kpa s (buf0_at s) = Some (PTE_TO_PA (load64 (mem s) (header_slot s)) + buf0_at s mod PGSIZE)"
    using header_getpte(1)[of "entered l ?u"] header_getpte(2,3)[OF m] en mu by simp_all
  let ?d = "(vq_desc s)(0 := \<lparr>d_addr = PTE_TO_PA (load64 (mem s) (header_slot s)) + buf0_at s mod PGSIZE, d_len = 16, d_flags = 1, d_next = 1\<rparr>,
      1 := \<lparr>d_addr = data (the_buf s b), d_len = 4096, d_flags = (if w then 0 else 2) OR 1, d_next = 2\<rparr>,
      2 := \<lparr>d_addr = status_addr 0 s, d_len = 1, d_flags = 2, d_next = 0\<rparr>)"
  define t where "t = (upd_buf b (\<lambda>x. x\<lparr>b_disk := True\<rparr>) (?u\<lparr>info_status := (info_status s)(0 := 0), vq_desc := ?d\<rparr>))
      \<lparr>info_b := (info_b s)(0 := Some b), avail_ring := (avail_ring s)(unat (avail_idx s) mod 8 := 0), avail_idx := avail_idx s + 1\<rparr>"
  have f: "vq_desc t = ?d" "buf0 t = ?h" "buf0_at t = buf0_at s" "mem t = mem s" "kern_pagetable t = kern_pagetable s"
    "info_b t 0 = Some b" "b_disk (the_buf t b)" "block_num (the_buf t b) = block_num (the_buf s b)" "data (the_buf t b) = data (the_buf s b)"
    "avail_ring t (unat (avail_idx t - 1) mod 8) = 0" "info_at t = info_at s"
    by (simp_all add: t_def upd_buf_def)
  have run: "post_request b w (0, 1, 2) (entered l (s\<lparr>vq_free := (vq_free s)(0 := False, 1 := False, 2 := False)\<rparr>)) = Inr (entered l t)"
    using g(1,2) by (simp add: post_request_def Let_def t_def upd_buf_def status_addr_def)
  have off: "buf0_at s mod PGSIZE \<le> PGSIZE - 16" using m by (simp add: stack_mapped_def)
  have k: "kpa t (buf0_at t) = Some (d_addr (vq_desc t 0))" using g(3) f by (simp add: kpa_def)
  have "header_at t (d_addr (vq_desc t 0)) = ?h" using k off unfolding header_at_def f(2,3) by simp
  then have "posted t b w" using f by (simp add: posted_def status_addr_def)
  then show ?thesis using run by (intro exI[of _ t]) (simp add: t_def base_defs upd_buf_def)
qed

lemma ring_next:
  fixes k :: u16
  shows "unat (of_nat (unat k mod 8) :: u16) = unat k mod 8" "unat (k + 1) mod 8 = (unat k + 1) mod 8"
proof -
  have "unat k mod 8 < 8" by simp
  then have "unat k mod 8 < 2 ^ 16" by simp
  then show "unat (of_nat (unat k mod 8) :: u16) = unat k mod 8" by (simp add: unat_of_nat)
  have "unat (k + 1) = (unat k + 1) mod 2 ^ 16" by (simp add: unat_word_ariths)
  moreover have "(8 :: nat) dvd 2 ^ 16" by simp
  ultimately show "unat (k + 1) mod 8 = (unat k + 1) mod 8" by (simp only: mod_mod_cancel)
qed

text \<open>What the device and its interrupt do to the disk part.\<close>

definition finished :: "nat \<Rightarrow> bool \<Rightarrow> 'a disk_state_scheme \<Rightarrow> 'a disk_state_scheme \<Rightarrow> bool" where
  "finished b w s t \<longleftrightarrow>
     disk_image t = (if w then blk_write (block_off (block_num (the_buf s b))) (data (the_buf s b))
       (disk_image s) (mem s) else disk_image s) \<and>
     mem t = (if w then mem s else blk_read (block_off (block_num (the_buf s b))) (data (the_buf s b))
       (disk_image s) (mem s)) \<and>
     bufs t = bufs (upd_buf b (\<lambda>x. x\<lparr>b_disk := False\<rparr>) s) \<and>
     vq_desc t = vq_desc s \<and> vq_free t = vq_free s \<and> info_b t = info_b s \<and>
     used_idx t = of_nat (unat (used_id t) mod 8)"

lemma device_step_ok:
  assumes p: "posted s b w" and d: "dev_ok s" and u: "used_idx s = of_nat (unat (used_id s) mod 8)"
  defines "t \<equiv> device_step s"
  shows "base_same s t" "device t = device s" "disk_state.more t = disk_state.more s"
    "bufs t = bufs s" "vq_desc t = vq_desc s" "vq_free t = vq_free s" "info_b t = info_b s"
    "used_idx t = used_idx s" "used_id t = used_id s + 1"
    "used_elems t (unat (used_idx s)) = 0" "info_status t 0 = 0"
    "disk_image t = (if w then blk_write (block_off (block_num (the_buf s b))) (data (the_buf s b))
       (disk_image s) (mem s) else disk_image s)"
    "mem t = (if w then mem s else blk_read (block_off (block_num (the_buf s b))) (data (the_buf s b))
       (disk_image s) (mem s))"
    "buf0_at t = buf0_at s" "info_at t = info_at s"
  using p d u ring_next(1)[of "used_id s"]
  by (cases w; simp add: t_def device_step_def posted_def dev_ok_def Let_def base_defs block_off_def)+

lemma intr_loop_step:
  assumes "unat (used_idx s) mod 8 \<noteq> unat (used_id s) mod 8" "used_elems s (unat (used_idx s)) = i"
    and "info_status s i = 0" "info_b s i = Some b"
  shows "intr_loop (Suc n) s = bnd (proc_wakeup (Some (ChBuf b)) (upd_buf b (\<lambda>x. x\<lparr>b_disk := False\<rparr>) s))
    (\<lambda>s. intr_loop n (s\<lparr>used_idx := of_nat ((unat (used_idx s) + 1) mod VIRTIO_NUM)\<rparr>))"
  using assms by simp

lemma intr_loop_done:
  "unat (used_idx s) mod 8 = unat (used_id s) mod 8 \<Longrightarrow> intr_loop (Suc n) s = Inr s"
  by simp

lemma intr_ok:
  fixes s :: "'a disk_state_scheme"
  assumes c: "procs_free s" "free_lock LkVdisk s"
    and u: "used_idx s = of_nat (k mod 8)" "unat (used_id s) mod 8 = (k + 1) mod 8"
    and e: "used_elems s (k mod 8) = 0" "info_status s 0 = 0" "info_b s 0 = Some b"
  shows "virtio_disk_intr s = Inr (stale_origin
     ((wake_state (Some (ChBuf b)) N_PROC (upd_buf b (\<lambda>x. x\<lparr>b_disk := False\<rparr>) s))
        \<lparr>used_idx := of_nat ((k mod 8 + 1) mod 8)\<rparr>))"
proof -
  let ?s1 = "upd_buf b (\<lambda>x. x\<lparr>b_disk := False\<rparr>) s"
  let ?s2 = "(wake_state (Some (ChBuf b)) N_PROC ?s1)\<lparr>used_idx := of_nat ((k mod 8 + 1) mod 8)\<rparr>"
  have small: "unat (of_nat (j mod 8) :: u16) = j mod 8" for j :: nat
  proof -
    have "j mod 8 < 8" by simp
    then have "j mod 8 < 2 ^ 16" by simp
    then show ?thesis by (simp add: unat_of_nat)
  qed
  have b1: "base_same s ?s1" by (simp add: base_defs upd_buf_def)
  have cpu: "cpu_ok s" using c(1) by (rule procs_free_cpu)
  have pf: "procs_free (entered LkVdisk ?s1)"
    using procs_free_entered[of ?s1 LkVdisk] base_same_ctx(4)[OF b1] c(1) by simp
  have w: "proc_wakeup (Some (ChBuf b)) (entered LkVdisk ?s1) =
      Inr (entered LkVdisk (wake_state (Some (ChBuf b)) N_PROC ?s1))"
  proof -
    have "cpu_ok (wake_state (Some (ChBuf b)) N_PROC ?s1)" using base_same_ctx(1)[OF b1] cpu by simp
    then show ?thesis unfolding proc_wakeup_eq[OF pf] wake_state_frame(6) by (simp only: stale_entered)
  qed
  have ne: "k mod 8 mod 8 \<noteq> (k + 1) mod 8" by (simp add: mod_Suc)
  have eq: "(k mod 8 + 1) mod 8 mod 8 = (k + 1) mod 8" by (simp only: mod_mod_trivial mod_add_left_eq)
  have uid: "used_id ?s2 = used_id s" by (simp add: upd_buf_def)
  have stop: "\<not> unat (used_idx ?s2) mod 8 \<noteq> unat (used_id ?s2) mod 8"
    using u(2) eq small[of "k mod 8 + 1"] unfolding uid by simp
  have fin: "intr_loop (Suc 7) (entered LkVdisk ?s2) = Inr (entered LkVdisk ?s2)"
    by (rule intr_loop_done) (use stop in simp)
  have go: "unat (used_idx s) mod 8 \<noteq> unat (used_id s) mod 8" "used_elems s (unat (used_idx s)) = 0"
    using u e(1) ne small[of k] by simp_all
  have nx: "(wake_state (Some (ChBuf b)) N_PROC ?s1)\<lparr>used_idx := of_nat ((unat (used_idx s) + 1) mod 8)\<rparr> = ?s2"
    using u(1) small[of k] by simp
  have st: "intr_loop (Suc (Suc 7)) (entered LkVdisk s) = bnd (proc_wakeup (Some (ChBuf b))
      (upd_buf b (\<lambda>x. x\<lparr>b_disk := False\<rparr>) (entered LkVdisk s)))
      (\<lambda>s. intr_loop (Suc 7) (s\<lparr>used_idx := of_nat ((unat (used_idx s) + 1) mod VIRTIO_NUM)\<rparr>))"
    by (rule intr_loop_step) (use go e in simp_all)
  have "upd_buf b (\<lambda>x. x\<lparr>b_disk := False\<rparr>) (entered LkVdisk s) = entered LkVdisk ?s1" by simp
  moreover have "(entered LkVdisk (wake_state (Some (ChBuf b)) N_PROC ?s1))\<lparr>used_idx :=
      of_nat ((unat (used_idx (entered LkVdisk (wake_state (Some (ChBuf b)) N_PROC ?s1))) + 1) mod 8)\<rparr> =
      entered LkVdisk ?s2"
    using nx by (simp add: upd_buf_def)
  ultimately have "intr_loop (Suc (Suc 7)) (entered LkVdisk s) = Inr (entered LkVdisk ?s2)"
    unfolding st by (simp only: w bnd_simps fin)
  moreover have "cpu_ok ?s2" "free_lock LkVdisk ?s2"
    using cpu c(2) by simp_all
  moreover have "Suc VIRTIO_NUM = Suc (Suc 7)" by simp
  ultimately show ?thesis using c(2) unfolding virtio_disk_intr_def
    by (simp only: acquire_free bnd_simps release_entered)
qed

lemma wait_ok:
  assumes k: "kctx s p" and fl: "free_lock LkVdisk s" and po: "posted s b w" and d: "dev_ok s"
    and u: "used_idx s = of_nat (unat (used_id s) mod 8)"
  shows "\<exists>t. disk_wait b (entered LkVdisk s) = Inr (entered LkVdisk t) \<and> calm s t \<and>
    rest_same s t \<and> finished b w s t"
proof -
  note kd = kctxD[OF k]
  let ?sl = "\<lambda>p. p\<lparr>sleep_space := Some (ChBuf b), p_state := SLEEPING\<rparr>"
  define s1 where "s1 = upd_proc p ?sl s"
  define s2 where "s2 = stale_origin (set_cproc None s1)"
  define s3 where "s3 = device_step s2"
  have A: "proc_sleep_enter (ChBuf b) LkVdisk (entered LkVdisk s) = Inr (entered (LkProc p) s1)"
    using proc_sleep_enter_eq[OF kd(1) fl kd(3,5), of "ChBuf b"] by (simp add: s1_def)
  have B: "sched_back p (entered (LkProc p) s1) = Inr s2"
    unfolding sched_back_def set_cproc_entered s2_def
    using kd(1,5) by (simp add: s1_def)
  have dk2: "dk s2 = dk s" by (simp add: s2_def s1_def)
  note f2 = dk_eqD[OF dk2]
  have m2: "mem s2 = mem s" "kern_pagetable s2 = kern_pagetable s" by (simp_all add: s2_def s1_def)
  have po2: "posted s2 b w" "dev_ok s2" "used_idx s2 = of_nat (unat (used_id s2) mod 8)"
    using po d u f2 stack_mapped_cong(3)[OF dk2 m2] by (simp_all add: dev_ok_def)
  note ds = device_step_ok[OF po2, folded s3_def]
  note b3 = base_sameD[OF ds(1)] and c3 = base_same_ctx[OF ds(1)]
  have pf3: "procs_free s3" "free_lock LkVdisk s3" "myproc s3 = None"
    using c3 kd(2) fl hart_same_ctx(3)[OF hart_same_stale, of "set_cproc None s1"]
    by (simp_all add: s2_def s1_def)
  have uid3: "unat (used_id s3) mod 8 = (unat (used_id s2) + 1) mod 8"
    using ds(9) ring_next(2)[of "used_id s2"] by simp
  let ?x = "upd_buf b (\<lambda>x. x\<lparr>b_disk := False\<rparr>) s3"
  define s5 where "s5 = (wake_state (Some (ChBuf b)) N_PROC ?x)
    \<lparr>used_idx := of_nat ((unat (used_id s2) mod 8 + 1) mod 8)\<rparr>"
  define s6 where "s6 = stale_origin s5"
  have info: "info_b s3 0 = Some b" using ds(7) po2(1) by (simp add: posted_def)
  have "used_elems s3 (unat (used_id s2) mod 8) = 0"
    using ds(10) po2(3) ring_next(1)[of "used_id s2"] by simp
  from intr_ok[OF pf3(1,2) _ uid3 this ds(11) info] ds(8) po2(3)
  have C: "virtio_disk_intr s3 = Inr s6" by (simp add: s6_def s5_def)
  have p5: "proc_pool s5 = woken (Some (ChBuf b)) None N_PROC (proc_pool s1)"
    using b3(4) pf3(3) by (simp add: s5_def wake_state_def upd_buf_def s2_def myproc_def)
  have st6: "proc_pool s6 p = (?sl (proc_pool s p))\<lparr>p_state := RUNNABLE\<rparr>"
    using p5 kd(4) by (simp add: s6_def woken_def wake_one_def s1_def)
  have h5: "cpu_ok s5 = cpu_ok s3" "free_lock l s5 = free_lock l s3" for l by (simp_all add: s5_def)
  have h5': "locks s5 = locks s3" "hart s5 = hart s3" "cpus s5 = cpus s3"
    by (simp_all add: s5_def upd_buf_def wake_state_def)
  have fl6: "cpu_ok s6" "free_lock (LkProc p) s6" "free_lock LkVdisk s6"
    using pf3 kd(4) h5 by (auto simp: s6_def procs_free_def)
  let ?run = "\<lambda>p. p\<lparr>p_state := RUNNING\<rparr>"
  define s7 where "s7 = set_cproc (Some p) (upd_proc p ?run s6)"
  define s8 where "s8 = upd_proc p (\<lambda>p. p\<lparr>sleep_space := None\<rparr>) s7"
  have D: "sched_pick p s6 = Inr (True, entered (LkProc p) s7)"
    using fl6 st6 by (simp add: sched_pick_def s7_def set_cproc_entered Let_def)
  have f8: "cpu_ok s8" "free_lock (LkProc p) s8" "free_lock LkVdisk s8" "myproc s7 = Some p"
    using fl6 by (simp_all add: s8_def s7_def)
  have E: "proc_sleep_resume LkVdisk (entered (LkProc p) s7) = Inr (entered LkVdisk (stale_origin s8))"
    using f8 by (simp add: proc_sleep_resume_def with_myproc_def s8_def)
  have dk8: "dk (stale_origin s8) = dk s5" by (simp add: s8_def s7_def s6_def)
  note fe = dk_eqD[OF dk8]
  have bd: "b_disk (the_buf s b)" using po by (simp add: posted_def)
  have nb: "\<not> b_disk (the_buf (stale_origin s8) b)" using fe(13) by (simp add: s5_def upd_buf_def wake_state_def)
  have run: "disk_wait b (entered LkVdisk s) = Inr (entered LkVdisk (stale_origin s8))"
    using A B C D E bd nb kd(3) by (simp add: disk_wait_def with_myproc_def s3_def)
  have pp: "proc_pool (stale_origin s8) i = (if i = p then proc_pool s p else woken (Some (ChBuf b)) None N_PROC (proc_pool s) i)" for i
    using kd(6,7) p5 st6 by (cases "proc_pool s p") (auto simp: s8_def s7_def s6_def s1_def woken_def)
  have wk: "wake_rel (proc_pool s i) (proc_pool (stale_origin s8) i)" for i
    unfolding pp by (simp add: woken_def)
  have hs: "hart_same s (stale_origin s8)"
  proof -
    have "hart (stale_origin s8) = hart s" "locks (stale_origin s8) = locks s"
      using h5' b3 by (simp_all add: s8_def s7_def s6_def s2_def s1_def)
    moreover have "noff (mycpu (stale_origin s8)) = noff (mycpu s) \<and> intr_get (stale_origin s8) = intr_get s"
      using h5' b3 by (simp add: s8_def s7_def s6_def s2_def s1_def mycpu_def intr_get_def set_cproc_def
          set_mycpu_def stale_origin_def)
    ultimately show ?thesis using kd(3) f8(4) by (simp add: hart_same_def s8_def)
  qed
  have "calm s (stale_origin s8)"
    using hs wk b3 by (simp add: calm_def s8_def s7_def s6_def s5_def s2_def s1_def upd_buf_def wake_state_def)
  moreover have "rest_same s (stale_origin s8)"
  proof -
    have 1: "rest_same s s2" unfolding s2_def s1_def by (meson rest_same_frame rest_same_trans)
    have 2: "rest_same s2 s3" using ds b3 by (simp add: rest_same_def)
    have 3: "rest_same s3 s5" by (simp add: rest_same_def s5_def upd_buf_def wake_state_def)
    have "rest_same s5 (stale_origin s8)" unfolding s8_def s7_def s6_def by (meson rest_same_frame rest_same_trans)
    with 1 2 3 show ?thesis by (meson rest_same_trans)
  qed
  moreover have "finished b w s (stale_origin s8)"
  proof -
    have m8: "mem (stale_origin s8) = mem s5" by (simp add: s8_def s7_def s6_def)
    have "(unat (used_id s2) mod 8 + 1) mod 8 = unat (used_id s3) mod 8"
      using uid3 by (simp only: mod_add_left_eq)
    then show ?thesis unfolding finished_def m8
      using ds fe f2 m2 by (simp add: s5_def upd_buf_def wake_state_def)
  qed
  ultimately show ?thesis using run by blast
qed

text \<open>Freeing the chain of the request.\<close>

definition chain_freed :: "nat \<Rightarrow> 'a disk_state_scheme \<Rightarrow> 'a disk_state_scheme" where
  "chain_freed i s = wake_state (Some ChDiskFree) N_PROC
     (s\<lparr>vq_desc := (vq_desc s)(i := (vq_desc s i)\<lparr>d_addr := 0\<rparr>), vq_free := (vq_free s)(i := True)\<rparr>)"

lemma free_desc_eq:
  assumes "procs_free s" and "i < 8" and "\<not> vq_free s i"
  shows "free_desc i (entered LkVdisk s) = Inr (entered LkVdisk (chain_freed i s))"
proof -
  let ?u = "s\<lparr>vq_desc := (vq_desc s)(i := (vq_desc s i)\<lparr>d_addr := 0\<rparr>), vq_free := (vq_free s)(i := True)\<rparr>"
  have pf: "procs_free (entered LkVdisk ?u)" using procs_free_entered[of ?u LkVdisk] assms(1) by simp
  have "cpu_ok (wake_state (Some ChDiskFree) N_PROC ?u)" using procs_free_cpu[OF assms(1)] by simp
  then have "proc_wakeup (Some ChDiskFree) (entered LkVdisk ?u) = Inr (entered LkVdisk (chain_freed i s))"
    unfolding proc_wakeup_eq[OF pf] wake_state_frame(6) chain_freed_def by (simp only: stale_entered)
  then show ?thesis using assms(2,3) by (simp add: free_desc_def Let_def)
qed

lemma freed_frame [simp]:
  "procs_free (chain_freed i s) = procs_free s" "vq_free (chain_freed i s) = (vq_free s)(i := True)"
  "d_flags (vq_desc (chain_freed i s) j) = d_flags (vq_desc s j)" "d_next (vq_desc (chain_freed i s) j) = d_next (vq_desc s j)"
  "mem (chain_freed i s) = mem s" "disk_image (chain_freed i s) = disk_image s" "bufs (chain_freed i s) = bufs s"
  "used_idx (chain_freed i s) = used_idx s" "used_id (chain_freed i s) = used_id s"
  by (simp_all add: chain_freed_def procs_free_def)

lemma freed_calm: "calm s (chain_freed i s)" "rest_same s (chain_freed i s)"
proof -
  let ?u = "s\<lparr>vq_desc := (vq_desc s)(i := (vq_desc s i)\<lparr>d_addr := 0\<rparr>), vq_free := (vq_free s)(i := True)\<rparr>"
  have "calm s ?u" by (rule calm_frame) simp_all
  then show "calm s (chain_freed i s)" unfolding chain_freed_def by (rule calm_trans) simp
  have "rest_same s ?u" by (simp add: rest_same_def)
  then show "rest_same s (chain_freed i s)" unfolding chain_freed_def by (rule rest_same_trans) simp
qed

lemma free_chain_step:
  assumes "procs_free s" and "i < 8" and "\<not> vq_free s i"
  shows "free_chain_loop (Suc n) i (entered LkVdisk s) =
    (if d_flags (vq_desc s i) AND 1 \<noteq> 0
     then free_chain_loop n (unat (d_next (vq_desc s i))) (entered LkVdisk (chain_freed i s))
     else Inr (entered LkVdisk (chain_freed i s)))"
  using free_desc_eq[OF assms] by simp

lemma free_chain_ok:
  assumes "procs_free s" and f: "\<not> vq_free s 0" "\<not> vq_free s 1" "\<not> vq_free s 2"
    and "d_flags (vq_desc s 0) = 1" "d_flags (vq_desc s 1) AND 1 \<noteq> 0" "d_flags (vq_desc s 2) = 2"
    and "d_next (vq_desc s 0) = 1" "d_next (vq_desc s 1) = 2"
  shows "free_chain 0 (entered LkVdisk s) = Inr (entered LkVdisk (chain_freed 2 (chain_freed 1 (chain_freed 0 s))))"
proof -
  have e: "Suc VIRTIO_NUM = Suc (Suc (Suc 6))" by simp
  have "free_chain_loop (Suc (Suc (Suc 6))) 0 (entered LkVdisk s) =
      free_chain_loop (Suc (Suc 6)) 1 (entered LkVdisk (chain_freed 0 s))"
    by (subst free_chain_step) (use assms in simp_all)
  also have "\<dots> = free_chain_loop (Suc 6) 2 (entered LkVdisk (chain_freed 1 (chain_freed 0 s)))"
    by (subst free_chain_step) (use assms in simp_all)
  also have "\<dots> = Inr (entered LkVdisk (chain_freed 2 (chain_freed 1 (chain_freed 0 s))))"
    by (subst free_chain_step) (use assms in simp_all)
  finally show ?thesis unfolding free_chain_def e .
qed

lemma virtio_rw_ok:
  assumes k: "kctx s p" and fl: "free_lock LkVdisk s" and vq: "vq_ok s" and d: "dev_ok s" and m: "stack_mapped s"
  shows "\<exists>t. virtio_disk_rw b w s = Inr t \<and> calm s t \<and> rest_same s t \<and> vq_ok t \<and>
    disk_image t = (if w then blk_write (block_off (block_num (the_buf s b))) (data (the_buf s b))
       (disk_image s) (mem s) else disk_image s) \<and>
    mem t = (if w then mem s else blk_read (block_off (block_num (the_buf s b))) (data (the_buf s b))
       (disk_image s) (mem s)) \<and>
    bufs t = bufs (upd_buf b (\<lambda>x. x\<lparr>b_disk := False\<rparr>) s)"
proof -
  let ?s0 = "s\<lparr>vq_free := (vq_free s)(0 := False, 1 := False, 2 := False)\<rparr>"
  from post_ok[OF m, of b w LkVdisk] obtain s1 where po: "post_request b w (0, 1, 2) (entered LkVdisk ?s0) = Inr (entered LkVdisk s1)"
    "posted s1 b w" "base_same s s1" "mem s1 = mem s" "disk_image s1 = disk_image s" "device s1 = device s"
    "disk_state.more s1 = disk_state.more s" "buf0_at s1 = buf0_at s" "info_at s1 = info_at s"
    "used_idx s1 = used_idx s" "used_id s1 = used_id s" "bufs s1 = bufs (upd_buf b (\<lambda>x. x\<lparr>b_disk := True\<rparr>) s)"
    "vq_free s1 = (vq_free s)(0 := False, 1 := False, 2 := False)" by blast
  note c1 = base_same_ctx[OF po(3)]
  have a: "alloc3_desc (entered LkVdisk s) = Inr (Some (0, 1, 2), entered LkVdisk ?s0)"
    using alloc3_ok[of "entered LkVdisk s"] vq by (simp add: vq_ok_def)
  have k1: "kctx s1 p" using calm_kctx[OF c1(5) k] by simp
  have d1: "dev_ok s1" using d po(6) by (simp add: dev_ok_def)
  have u1: "used_idx s1 = of_nat (unat (used_id s1) mod 8)" using vq po(10,11) by (simp add: vq_ok_def)
  have fl1: "free_lock LkVdisk s1" using fl c1(2) by simp
  from wait_ok[OF k1 fl1 po(2) d1 u1] obtain t where t: "disk_wait b (entered LkVdisk s1) = Inr (entered LkVdisk t)"
    "calm s1 t" "rest_same s1 t" "finished b w s1 t" by blast
  define t1 where "t1 = t\<lparr>info_b := (info_b t)(0 := None)\<rparr>"
  define t2 where "t2 = chain_freed 2 (chain_freed 1 (chain_freed 0 t1))"
  have kt: "kctx t p" using calm_kctx[OF t(2) k1] by simp
  have vt: "vq_desc t = vq_desc s1" "vq_free t = vq_free s1" using t(4) by (simp_all add: finished_def)
  have fc: "free_chain 0 (entered LkVdisk t1) = Inr (entered LkVdisk t2)"
    unfolding t2_def by (rule free_chain_ok) (use kctxD(2)[OF kt] vt po(2,13) in \<open>simp_all add: t1_def posted_def\<close>)
  have ct: "calm t t1" by (rule calm_frame) (simp_all add: t1_def)
  have c2: "calm t1 t2" unfolding t2_def by (rule calm_trans[OF calm_trans[OF freed_calm(1) freed_calm(1)] freed_calm(1)])
  have cs: "calm s t2" by (rule calm_trans[OF calm_trans[OF c1(5) t(2)] calm_trans[OF ct c2]])
  have fl2: "cpu_ok t2" "free_lock LkVdisk t2" using calm_ctx(1,2)[OF cs] kctxD(1)[OF k] fl by simp_all
  have "virtio_disk_rw b w s = Inr (stale_origin t2)"
  proof -
    have "t\<lparr>info_b := (info_b t)(0 := None)\<rparr> = t1" by (simp add: t1_def)
    then show ?thesis using fl a t(1) fc fl2 po(1) by (simp add: virtio_disk_rw_def)
  qed
  moreover have "calm s (stale_origin t2)" by (rule calm_trans[OF cs]) simp
  moreover have "rest_same s (stale_origin t2)"
  proof -
    have "rest_same s s1" using base_sameD[OF po(3)] po(6-9) by (simp add: rest_same_def)
    from rest_same_trans[OF this t(3)] have "rest_same s t" .
    moreover have "rest_same t t1" by (simp add: rest_same_def t1_def)
    ultimately have "rest_same s t1" by (rule rest_same_trans)
    moreover have "rest_same t1 t2" unfolding t2_def
      by (rule rest_same_trans[OF rest_same_trans[OF freed_calm(2) freed_calm(2)] freed_calm(2)])
    ultimately have "rest_same s t2" by (rule rest_same_trans)
    then show ?thesis by (rule rest_same_trans) simp
  qed
  moreover have "vq_ok (stale_origin t2)"
  proof -
    have "dk (stale_origin t2) = dk t2" by simp
    note e = dk_eqD[OF this]
    have "vq_free t2 i" if "i < 8" for i
      using that vq vt(2) po(13) by (simp add: vq_ok_def t2_def t1_def)
    moreover have "used_idx t2 = of_nat (unat (used_id t2) mod 8)"
      using t(4) by (simp add: finished_def t2_def t1_def)
    ultimately show ?thesis unfolding vq_ok_def e by blast
  qed
  moreover have "disk_image (stale_origin t2) = disk_image t" "mem (stale_origin t2) = mem t"
    "bufs (stale_origin t2) = bufs t" by (simp_all add: t2_def t1_def)
  moreover have "block_num (the_buf s1 b) = block_num (the_buf s b)" "data (the_buf s1 b) = data (the_buf s b)"
    "bufs (upd_buf b (\<lambda>x. x\<lparr>b_disk := False\<rparr>) s1) = bufs (upd_buf b (\<lambda>x. x\<lparr>b_disk := False\<rparr>) s)"
    using po(12) by (simp_all add: upd_buf_def)
  ultimately show ?thesis using t(4) po(4,5) unfolding finished_def
    by (intro exI[of _ "stale_origin t2"]) simp
qed

end
