(* ===== verification/Buffer.thy ===== *)
theory Buffer
  imports DiskIO
begin

text \<open>
  The block buffer cache (\<open>fs/buf.c\<close>): \<open>N_BUFFER\<close> nodes on two circular doubly linked lists,
  the active one (referenced buffers) and the inactive one. \<open>bufs s\<close> maps the nodes and the two
  list heads to their contents.
\<close>

section \<open>Operations\<close>

abbreviation (input) N_BUFFER :: nat where "N_BUFFER \<equiv> 32 * 512"
abbreviation (input) BLOCK_NUM_UNUSED :: u32 where "BLOCK_NUM_UNUSED \<equiv> 0xFFFFFFFF"

definition set_next :: "bptr \<Rightarrow> bptr option \<Rightarrow> (bptr \<Rightarrow> buffer_node) \<Rightarrow> bptr \<Rightarrow> buffer_node" where
  "set_next p q bs = bs(p := (bs p)\<lparr>bn_next := q\<rparr>)"

definition set_prev :: "bptr \<Rightarrow> bptr option \<Rightarrow> (bptr \<Rightarrow> buffer_node) \<Rightarrow> bptr \<Rightarrow> buffer_node" where
  "set_prev p q bs = bs(p := (bs p)\<lparr>bn_prev := q\<rparr>)"

text \<open>\<open>p->next\<close> and \<open>p->prev\<close> of a list in use are never NULL; \<open>the\<close> is total here.\<close>

definition unlink_node :: "bptr \<Rightarrow> (bptr \<Rightarrow> buffer_node) \<Rightarrow> bptr \<Rightarrow> buffer_node" where
  "unlink_node p bs =
     (case (bn_next (bs p), bn_prev (bs p)) of
        (Some n, Some q) \<Rightarrow>
          let bs = set_prev n (bn_prev (bs p)) bs
          in (case bn_prev (bs p) of Some q \<Rightarrow> set_next q (bn_next (bs p)) bs | None \<Rightarrow> bs)
      | _ \<Rightarrow> bs)"

definition link_node :: "bptr \<Rightarrow> bptr \<Rightarrow> bool \<Rightarrow> (bptr \<Rightarrow> buffer_node) \<Rightarrow> (bptr \<Rightarrow> buffer_node) res" where
  "link_node p head insert_next bs =
     (if insert_next then
        let bs = set_next p (bn_next (bs head)) bs in
        (case bn_next (bs p) of
           None \<Rightarrow> Inl Fault
         | Some n \<Rightarrow> Inr (set_next head (Some p) (set_prev p (Some head) (set_prev n (Some p) bs))))
      else
        let bs = set_prev p (bn_prev (bs head)) bs in
        (case bn_prev (bs p) of
           None \<Rightarrow> Inl Fault
         | Some q \<Rightarrow> Inr (set_prev head (Some p) (set_next p (Some head) (set_next q (Some p) bs)))))"

definition insert_node :: "bptr \<Rightarrow> bool \<Rightarrow> bool \<Rightarrow> 'a disk_state_scheme \<Rightarrow> 'a disk_state_scheme res" where
  "insert_node p insert_active insert_next s =
     bnd (link_node p (if insert_active then BActive else BInactive) insert_next (unlink_node p (bufs s)))
       (\<lambda>bs. Inr (s\<lparr>bufs := bs\<rparr>))"

definition buffer_init :: "'a disk_state_scheme \<Rightarrow> 'a disk_state_scheme res" where
  "buffer_init s =
     (let s = spinlock_init LkBufCache s;
          s = s\<lparr>bufs := set_prev BActive (Some BActive) (set_next BActive (Some BActive) (bufs s))\<rparr>;
          s = s\<lparr>bufs := set_prev BInactive (Some BInactive) (set_next BInactive (Some BInactive) (bufs s))\<rparr>
      in for_each [0..<N_BUFFER] (\<lambda>i s.
           let s = sleeplock_init (LkBufSlk i) s;
               s = upd_buf i (\<lambda>b. b\<lparr>data := 0, ref := 0, block_num := BLOCK_NUM_UNUSED\<rparr>) s
           in insert_node (BNode i) False True s) s)"

definition buffer_read :: "nat \<Rightarrow> 'a disk_state_scheme \<Rightarrow> 'a disk_state_scheme res" where
  "buffer_read b = virtio_disk_rw b False"

definition buffer_write :: "nat \<Rightarrow> 'a disk_state_scheme \<Rightarrow> 'a disk_state_scheme res" where
  "buffer_write b = virtio_disk_rw b True"

text \<open>
  A walk around a list; a list of the cache has at most \<open>N_BUFFER\<close> nodes, so a longer walk
  does not come back to the head (\<open>Hang\<close>).
\<close>

fun find_buf :: "nat \<Rightarrow> bptr \<Rightarrow> u32 \<Rightarrow> bptr option \<Rightarrow> (bptr \<Rightarrow> buffer_node) \<Rightarrow> bptr option res" where
  "find_buf 0 head bn p bs = Inl Hang"
| "find_buf (Suc n) head bn p bs =
     (case p of
        None \<Rightarrow> Inl Fault
      | Some q \<Rightarrow>
          if q = head then Inr None
          else if block_num (buf (bs q)) = bn then Inr (Some q)
          else find_buf n head bn (bn_next (bs q)) bs)"

text \<open>The index of a node; the list heads are never handed out.\<close>

fun node_index :: "bptr \<Rightarrow> nat res" where
  "node_index (BNode i) = Inr i"
| "node_index _ = Inl Fault"

definition buffer_get :: "u32 \<Rightarrow> 'a disk_state_scheme \<Rightarrow> (nat \<times> 'a disk_state_scheme) res" where
  "buffer_get bn s =
     bnd (spinlock_acquire LkBufCache s) (\<lambda>s.
     bnd (find_buf (Suc N_BUFFER) BActive bn (bn_next (bufs s BActive)) (bufs s)) (\<lambda>hit.
     case hit of
       Some p \<Rightarrow>
         bnd (node_index p) (\<lambda>i.
         let s = upd_buf i (\<lambda>b. b\<lparr>ref := ref b + 1\<rparr>) s in
         bnd (spinlock_release LkBufCache s) (\<lambda>s.
         bnd (sleeplock_acquire (LkBufSlk i) s) (\<lambda>s. Inr (i, s))))
     | None \<Rightarrow>
         bnd (find_buf (Suc N_BUFFER) BInactive bn (bn_next (bufs s BInactive)) (bufs s)) (\<lambda>hit.
         case hit of
           Some p \<Rightarrow>
             bnd (node_index p) (\<lambda>i.
             bnd (insert_node p True True (upd_buf i (\<lambda>b. b\<lparr>ref := 1\<rparr>) s)) (\<lambda>s.
             bnd (spinlock_release LkBufCache s) (\<lambda>s.
             bnd (sleeplock_acquire (LkBufSlk i) s) (\<lambda>s. Inr (i, s)))))
         | None \<Rightarrow>
             (case bn_next (bufs s BInactive) of
                None \<Rightarrow> Inl Fault
              | Some p \<Rightarrow>
                  if p = BInactive then Inl (Panic ''buffer_get: no free buffers'')
                  else
                    bnd (node_index p) (\<lambda>i.
                    let s = upd_buf i (\<lambda>b. b\<lparr>block_num := bn, ref := 1\<rparr>) s in
                    bnd (if data (the_buf s i) = 0 then
                           bnd (pmem_alloc False s) (\<lambda>(pa, s).
                           let s = upd_buf i (\<lambda>b. b\<lparr>data := pa\<rparr>) s
                           in kassert (data (the_buf s i) \<noteq> 0) ''buffer_get: pmem alloc failed'' s)
                         else Inr s) (\<lambda>s.
                    bnd (insert_node p True True s) (\<lambda>s.
                    bnd (spinlock_release LkBufCache s) (\<lambda>s.
                    bnd (sleeplock_acquire (LkBufSlk i) s) (\<lambda>s.
                    bnd (buffer_read i s) (\<lambda>s. Inr (i, s)))))))))))"

definition buffer_put :: "nat \<Rightarrow> 'a disk_state_scheme \<Rightarrow> 'a disk_state_scheme res" where
  "buffer_put i s =
     bnd (spinlock_acquire LkBufCache s) (\<lambda>s.
     let s = upd_buf i (\<lambda>b. b\<lparr>ref := ref b - 1\<rparr>) s in
     bnd (if ref (the_buf s i) = 0 then insert_node (BNode i) False True s else Inr s) (\<lambda>s.
     bnd (spinlock_release LkBufCache s) (\<lambda>s.
     sleeplock_release (LkBufSlk i) s)))"

fun freemem_loop :: "nat \<Rightarrow> u32 \<Rightarrow> u32 \<Rightarrow> bptr option \<Rightarrow> 'a disk_state_scheme \<Rightarrow> (u32 \<times> 'a disk_state_scheme) res" where
  "freemem_loop 0 count freed p s = Inl Hang"
| "freemem_loop (Suc n) count freed p s =
     (case p of
        None \<Rightarrow> Inl Fault
      | Some q \<Rightarrow>
          if q = BInactive \<or> \<not> freed < count then Inr (freed, s)
          else
            bnd (node_index q) (\<lambda>i.
            let nxt = bn_next (bufs s q) in
            if data (the_buf s i) \<noteq> 0 then
              bnd (pmem_free (data (the_buf s i)) False s) (\<lambda>s.
              freemem_loop n count (freed + 1) nxt
                (upd_buf i (\<lambda>b. b\<lparr>data := 0, block_num := BLOCK_NUM_UNUSED\<rparr>) s))
            else freemem_loop n count freed nxt s))"

definition buffer_freemem :: "u32 \<Rightarrow> 'a disk_state_scheme \<Rightarrow> (u32 \<times> 'a disk_state_scheme) res" where
  "buffer_freemem buffer_count s =
     bnd (spinlock_acquire LkBufCache s) (\<lambda>s.
     bnd (freemem_loop (Suc N_BUFFER) buffer_count 0 (bn_next (bufs s BInactive)) s) (\<lambda>(freed, s).
     bnd (spinlock_release LkBufCache s) (\<lambda>s. Inr (freed, s))))"

section \<open>Circular doubly linked lists\<close>

text \<open>\<open>seg nx pv a xs b\<close>: from \<open>a\<close> forwards through \<open>xs\<close> to \<open>b\<close>, and back.\<close>

fun seg :: "('p \<Rightarrow> 'p option) \<Rightarrow> ('p \<Rightarrow> 'p option) \<Rightarrow> 'p \<Rightarrow> 'p list \<Rightarrow> 'p \<Rightarrow> bool" where
  "seg nx pv a [] b \<longleftrightarrow> nx a = Some b \<and> pv b = Some a"
| "seg nx pv a (x # xs) b \<longleftrightarrow> nx a = Some x \<and> pv x = Some a \<and> seg nx pv x xs b"

lemma seg_append: "seg nx pv a (xs @ y # ys) b \<longleftrightarrow> seg nx pv a xs y \<and> seg nx pv y ys b"
  by (induction xs arbitrary: a) auto

lemma seg_cong:
  assumes "\<And>x. x \<in> set (a # xs) \<Longrightarrow> nx' x = nx x" and "\<And>x. x \<in> set (xs @ [b]) \<Longrightarrow> pv' x = pv x"
  shows "seg nx' pv' a xs b = seg nx pv a xs b"
  using assms by (induction xs arbitrary: a) auto

lemma seg_upd_other:
  "q \<notin> set (a # xs) \<Longrightarrow> n \<notin> set (xs @ [b]) \<Longrightarrow> seg (nx(q := v)) (pv(n := w)) a xs b = seg nx pv a xs b"
  by (rule seg_cong) auto

lemma seg_upd2_other:
  "{q, q'} \<inter> set (a # xs) = {} \<Longrightarrow> {n, n'} \<inter> set (xs @ [b]) = {} \<Longrightarrow>
   seg (nx(q := v, q' := v')) (pv(n := w, n' := w')) a xs b = seg nx pv a xs b"
  by (rule seg_cong) auto

lemma seg_last: "seg nx pv a xs b \<Longrightarrow> pv b = Some (last (a # xs))"
  by (induction xs arbitrary: a) auto

lemma seg_first: "seg nx pv a xs b \<Longrightarrow> nx a = Some (hd (xs @ [b]))"
  by (cases xs) auto

text \<open>Redirecting the two ends of a segment.\<close>

lemma seg_set_end:
  assumes "seg nx pv a xs b" and "distinct (a # xs)" and "c \<notin> set xs"
  shows "seg (nx(last (a # xs) := Some c)) (pv(c := Some (last (a # xs)))) a xs c"
  using assms
proof (induction xs arbitrary: a)
  case (Cons x xs)
  define l where "l = last (x # xs)"
  have IH: "seg (nx(l := Some c)) (pv(c := Some l)) x xs c"
    unfolding l_def by (rule Cons.IH) (use Cons.prems in auto)
  have "l \<in> set (x # xs)" unfolding l_def by (rule last_in_set) simp
  then have ne: "l \<noteq> a" using Cons.prems(2) by auto
  have "last (a # x # xs) = l" by (simp add: l_def)
  then show ?case using Cons.prems IH ne by (simp only:) (auto simp: fun_upd_def)
qed simp

lemma seg_unlink:
  assumes "seg nx pv h (ys @ x # zs) h" and "distinct (h # ys @ x # zs)"
    and "n = hd (zs @ [h])" and "q = last (h # ys)"
  shows "seg (nx(q := Some n)) (pv(n := Some q)) h (ys @ zs) h"
proof -
  have s: "seg nx pv h ys x" "seg nx pv x zs h" using assms(1) by (simp_all add: seg_append)
  have qin: "q \<in> set (h # ys)" using assms(4) by simp
  show ?thesis
  proof (cases zs)
    case Nil
    then have n: "n = h" using assms(3) by simp
    show ?thesis unfolding n Nil assms(4) append_Nil2
      by (rule seg_set_end[OF s(1)]) (use assms(2) in auto)
  next
    case (Cons z zs')
    then have n: "n = z" using assms(3) by simp
    have "seg (nx(q := Some n)) (pv(n := Some q)) h ys z" unfolding n assms(4)
      by (rule seg_set_end[OF s(1)]) (use assms(2) Cons in auto)
    moreover have "seg nx pv z zs' h" using s(2) Cons by simp
    then have "seg (nx(q := Some n)) (pv(n := Some q)) z zs' h"
      by (subst seg_cong[where nx = nx and pv = pv]) (use qin assms(2) Cons n in auto)
    ultimately show ?thesis using Cons by (simp add: seg_append)
  qed
qed

lemma seg_insert:
  assumes "seg nx pv h xs h" and "x \<notin> set (h # xs)" and "h \<notin> set xs" and "distinct xs" and "n = hd (xs @ [h])"
  shows "seg (nx(x := Some n, h := Some x)) (pv(n := Some x, x := Some h)) h (x # xs) h"
proof (cases xs)
  case Nil
  then show ?thesis using assms by auto
next
  case (Cons y ys)
  then have "seg nx pv y ys h" "n = y" using assms by auto
  moreover have "seg (nx(x := Some n, h := Some x)) (pv(n := Some x, x := Some h)) y ys h = seg nx pv y ys h"
    by (rule seg_cong) (use assms Cons \<open>n = y\<close> in auto)
  ultimately show ?thesis using Cons assms by auto
qed

end
