(* ===== verification/Cache.thy ===== *)
theory Cache
  imports Buffer
begin

text \<open>
  The invariant of the buffer cache and what \<open>buffer_get\<close>, \<open>buffer_write\<close>, \<open>buffer_put\<close> and
  \<open>buffer_freemem\<close> do to it.
\<close>

section \<open>The two rings\<close>

definition nx :: "(bptr \<Rightarrow> buffer_node) \<Rightarrow> bptr \<Rightarrow> bptr option" where
  "nx bs = (\<lambda>p. bn_next (bs p))"

definition pv :: "(bptr \<Rightarrow> buffer_node) \<Rightarrow> bptr \<Rightarrow> bptr option" where
  "pv bs = (\<lambda>p. bn_prev (bs p))"

definition head :: "bool \<Rightarrow> bptr" where
  "head k = (if k then BActive else BInactive)"

text \<open>\<open>R True\<close> are the active nodes, \<open>R False\<close> the inactive ones, each in list order.\<close>

definition rings :: "(bptr \<Rightarrow> buffer_node) \<Rightarrow> (bool \<Rightarrow> nat list) \<Rightarrow> bool" where
  "rings bs R \<longleftrightarrow> (\<forall>k. seg (nx bs) (pv bs) (head k) (map BNode (R k)) (head k)) \<and>
     distinct (R True) \<and> distinct (R False) \<and> set (R True) \<inter> set (R False) = {} \<and>
     set (R True) \<union> set (R False) = {..<N_BUFFER}"

lemma link_simps [simp]:
  "nx (set_next p q bs) = (nx bs)(p := q)" "nx (set_prev p q bs) = nx bs"
  "pv (set_prev p q bs) = (pv bs)(p := q)" "pv (set_next p q bs) = pv bs"
  "buf (set_next p q bs r) = buf (bs r)" "buf (set_prev p q bs r) = buf (bs r)"
  by (auto simp: nx_def pv_def set_next_def set_prev_def fun_eq_iff)

lemma head_simps [simp]: "head k \<noteq> BNode i" "BNode i \<noteq> head k" "head k = head j \<longleftrightarrow> k = j"
  "head True = BActive" "head False = BInactive"
  by (auto simp: head_def)

lemma unlink_node_ok:
  assumes "seg (nx bs) (pv bs) h (ys @ x # zs) h"
  defines "n \<equiv> hd (zs @ [h])" and "q \<equiv> last (h # ys)"
  shows "nx (unlink_node x bs) = (nx bs)(q := Some n)" "pv (unlink_node x bs) = (pv bs)(n := Some q)"
    "buf (unlink_node x bs r) = buf (bs r)"
proof -
  have s: "seg (nx bs) (pv bs) h ys x" "seg (nx bs) (pv bs) x zs h" using assms(1) by (simp_all add: seg_append)
  have "bn_next (bs x) = Some n" "bn_prev (bs x) = Some q"
    using seg_first[OF s(2)] seg_last[OF s(1)] by (simp_all add: n_def q_def nx_def pv_def)
  then have "unlink_node x bs = set_next q (Some n) (set_prev n (Some q) bs)"
    by (auto simp: unlink_node_def Let_def set_prev_def)
  then show "nx (unlink_node x bs) = (nx bs)(q := Some n)" "pv (unlink_node x bs) = (pv bs)(n := Some q)"
    "buf (unlink_node x bs r) = buf (bs r)" by simp_all
qed

lemma link_node_ok:
  assumes "seg (nx bs) (pv bs) h xs h" and "x \<noteq> h"
  defines "n \<equiv> hd (xs @ [h])"
  shows "\<exists>bs'. link_node x h True bs = Inr bs' \<and> nx bs' = (nx bs)(x := Some n, h := Some x) \<and>
    pv bs' = (pv bs)(n := Some x, x := Some h) \<and> (\<forall>r. buf (bs' r) = buf (bs r))"
proof -
  have n: "bn_next (bs h) = Some n" using seg_first[OF assms(1)] by (simp add: n_def nx_def)
  have "bn_next (set_next x (bn_next (bs h)) bs x) = Some n" using n by (simp add: set_next_def)
  then show ?thesis using n by (simp add: link_node_def)
qed

lemma BNode_map_set: "BNode i \<in> set (map BNode xs) \<longleftrightarrow> i \<in> set xs"
  by auto

text \<open>
  Head insertion: the node leaves its ring and becomes the first of the target ring; the
  buffers themselves do not change.
\<close>

definition moved :: "nat \<Rightarrow> bool \<Rightarrow> (bool \<Rightarrow> nat list) \<Rightarrow> bool \<Rightarrow> nat list" where
  "moved i act R = (\<lambda>k. if k = act then i # removeAll i (R k) else removeAll i (R k))"

lemma insert_node_ok:
  assumes r: "rings (bufs s) R" and i: "i < N_BUFFER"
  shows "\<exists>bs. insert_node (BNode i) act True s = Inr (s\<lparr>bufs := bs\<rparr>) \<and> rings bs (moved i act R) \<and>
    (\<forall>p. buf (bs p) = buf (bufs s p))"
proof -
  note seg = r[unfolded rings_def, THEN conjunct1, rule_format]
  have dis: "distinct (R k)" "\<And>j. k \<noteq> j \<Longrightarrow> set (R k) \<inter> set (R j) = {}" for k
    using r unfolding rings_def by (cases k; auto)+
  obtain j where ij: "i \<in> set (R j)" using i r unfolding rings_def by blast
  then obtain ys zs where spl: "R j = ys @ i # zs" by (meson split_list)
  have iys: "i \<notin> set ys" "i \<notin> set zs" using dis(1)[of j] spl by auto
  have rj: "removeAll i (R j) = ys @ zs" using spl iys by simp
  have ro: "i \<notin> set (R k)" "removeAll i (R k) = R k" if "k \<noteq> j" for k
  proof -
    show "i \<notin> set (R k)" using dis(2)[OF that] ij by blast
    then show "removeAll i (R k) = R k" by (rule removeAll_id)
  qed
  let ?q = "last (head j # map BNode ys)" and ?n = "hd (map BNode zs @ [head j])"
  let ?b1 = "unlink_node (BNode i) (bufs s)"
  have sj: "seg (nx (bufs s)) (pv (bufs s)) (head j) (map BNode ys @ BNode i # map BNode zs) (head j)"
    using seg[of j] spl by simp
  note u = unlink_node_ok[OF sj]
  have qn: "?q \<in> set (head j # map BNode ys)" "?n \<in> set (map BNode zs @ [head j])"
    by (rule last_in_set, simp) (rule hd_in_set, simp)
  have s1: "seg (nx ?b1) (pv ?b1) (head k) (map BNode (removeAll i (R k))) (head k)" for k
  proof (cases "k = j")
    case True
    have "distinct (head j # map BNode ys @ BNode i # map BNode zs)"
      using dis(1)[of j] spl by (auto simp: distinct_map inj_on_def)
    from seg_unlink[OF sj this refl refl] show ?thesis unfolding u True rj by simp
  next
    case False
    have "?q \<notin> set (head k # map BNode (R k))" "?n \<notin> set (map BNode (R k) @ [head k])"
      using qn dis(2)[OF False] spl False by (auto simp: head_def split: if_splits)
    from seg_upd_other[OF this] have "seg (nx ?b1) (pv ?b1) (head k) (map BNode (R k)) (head k)
        = seg (nx (bufs s)) (pv (bufs s)) (head k) (map BNode (R k)) (head k)"
      unfolding u .
    then show ?thesis using seg[of k] ro[OF False] by simp
  qed
  let ?xs = "map BNode (removeAll i (R act))" and ?h = "head act"
  obtain b2 where b2: "link_node (BNode i) ?h True ?b1 = Inr b2"
    "nx b2 = (nx ?b1)(BNode i := Some (hd (?xs @ [?h])), ?h := Some (BNode i))"
    "pv b2 = (pv ?b1)(hd (?xs @ [?h]) := Some (BNode i), BNode i := Some ?h)"
    "\<forall>r. buf (b2 r) = buf (?b1 r)"
    using link_node_ok[OF s1[of act], of "BNode i"] by auto
  have dx: "distinct ?xs" using dis(1)[of act] by (simp add: distinct_map inj_on_def distinct_removeAll)
  have "seg (nx b2) (pv b2) (head k) (map BNode (moved i act R k)) (head k)" for k
  proof (cases "k = act")
    case True
    have "seg (nx b2) (pv b2) ?h (BNode i # ?xs) ?h" unfolding b2(2,3)
      by (rule seg_insert[OF s1[of act] _ _ dx refl]) auto
    then show ?thesis using True by (simp add: moved_def)
  next
    case False
    have "hd (?xs @ [?h]) \<in> set (?xs @ [?h])" by (rule hd_in_set) simp
    then have "hd (?xs @ [?h]) \<notin> set (map BNode (removeAll i (R k)) @ [head k])"
      using dis(2)[OF False] False by auto
    then have 1: "{hd (?xs @ [?h]), BNode i} \<inter> set (map BNode (removeAll i (R k)) @ [head k]) = {}" by auto
    have "{BNode i, ?h} \<inter> set (head k # map BNode (removeAll i (R k))) = {}" using False by auto
    from seg_upd2_other[OF this 1]
    have "seg (nx b2) (pv b2) (head k) (map BNode (removeAll i (R k))) (head k) =
        seg (nx ?b1) (pv ?b1) (head k) (map BNode (removeAll i (R k))) (head k)"
      unfolding b2(2,3) .
    then show ?thesis using s1[of k] False by (simp add: moved_def)
  qed
  moreover have "distinct (moved i act R True)" "distinct (moved i act R False)"
    using dis(1)[of True] dis(1)[of False] by (auto simp: moved_def distinct_removeAll)
  moreover have "set (moved i act R True) \<inter> set (moved i act R False) = {}"
    "set (moved i act R True) \<union> set (moved i act R False) = {..<N_BUFFER}"
    using r i unfolding rings_def by (cases act; auto simp: moved_def)+
  ultimately have "rings b2 (moved i act R)" unfolding rings_def by blast
  moreover have "insert_node (BNode i) act True s = Inr (s\<lparr>bufs := b2\<rparr>)"
    using b2(1) by (simp add: insert_node_def head_def)
  ultimately show ?thesis using b2(4) u(3) by auto
qed

section \<open>Searching a ring\<close>

lemma find_buf_ok:
  assumes "seg (nx bs) (pv bs) a (map BNode xs) (head k)" and "length xs < n"
  shows "find_buf n (head k) bn (bn_next (bs a)) bs =
    Inr (map_option BNode (List.find (\<lambda>i. block_num (buf (bs (BNode i))) = bn) xs))"
  using assms
proof (induction xs arbitrary: a n)
  case Nil
  then show ?case by (cases n) (auto simp: nx_def)
next
  case (Cons x xs)
  then obtain m where m: "n = Suc m" by (cases n) auto
  have "bn_next (bs a) = Some (BNode x)" "seg (nx bs) (pv bs) (BNode x) (map BNode xs) (head k)"
    using Cons.prems(1) by (auto simp: nx_def)
  then show ?case using Cons.IH[of "BNode x" m] Cons.prems(2) m by simp
qed

lemma rings_length:
  assumes "rings bs R"
  shows "length (R k) < Suc N_BUFFER"
proof -
  have "length (R k) = card (set (R k))" using assms by (cases k) (simp_all add: rings_def distinct_card)
  also have "\<dots> \<le> card {..<N_BUFFER}"
    by (rule card_mono) (use assms in \<open>cases k; auto simp: rings_def\<close>)+
  finally show ?thesis by simp
qed

lemma find_ring:
  assumes "rings bs R"
  shows "find_buf (Suc N_BUFFER) (head k) bn (bn_next (bs (head k))) bs =
    Inr (map_option BNode (List.find (\<lambda>i. block_num (buf (bs (BNode i))) = bn) (R k)))"
  using assms rings_length[OF assms, of k] unfolding rings_def
  by (intro find_buf_ok) (blast, simp)

lemma ring_first:
  assumes "rings bs R"
  shows "bn_next (bs (head k)) = Some (hd (map BNode (R k) @ [head k]))"
  using seg_first[of "nx bs" "pv bs" "head k" "map BNode (R k)" "head k"] assms
  unfolding rings_def nx_def by blast

end
