(* ===== verification/CacheInv.thy ===== *)
theory CacheInv
  imports Cache
begin

text \<open>
  The invariant of the buffer cache between its operations, and the effect of \<open>buffer_get\<close>,
  \<open>buffer_write\<close> and \<open>buffer_put\<close>.
\<close>

section \<open>The invariant\<close>

text \<open>
  \<open>buf_ok\<close>: the table by itself. Referenced buffers are the active ones; a buffer with a block
  has a page; no block and no page is in two buffers.
\<close>

definition buf_ok :: "(bptr \<Rightarrow> buffer_node) \<Rightarrow> (bool \<Rightarrow> nat list) \<Rightarrow> bool" where
  "buf_ok bs R \<longleftrightarrow> rings bs R \<and>
     (\<forall>i<N_BUFFER. ref (buf (bs (BNode i))) = (if i \<in> set (R True) then 1 else 0) \<and>
        (block_num (buf (bs (BNode i))) \<noteq> BLOCK_NUM_UNUSED \<longrightarrow>
           data (buf (bs (BNode i))) \<noteq> 0 \<and> block_num (buf (bs (BNode i))) < 0x20000000) \<and>
        (i \<in> set (R True) \<longrightarrow> block_num (buf (bs (BNode i))) \<noteq> BLOCK_NUM_UNUSED) \<and>
        (\<forall>j<N_BUFFER. i \<noteq> j \<longrightarrow>
           (block_num (buf (bs (BNode i))) = block_num (buf (bs (BNode j))) \<longrightarrow>
              block_num (buf (bs (BNode i))) = BLOCK_NUM_UNUSED) \<and>
           (data (buf (bs (BNode i))) = data (buf (bs (BNode j))) \<longrightarrow> data (buf (bs (BNode i))) = 0)))"

definition pages_ok :: "'a disk_state_scheme \<Rightarrow> (bool \<Rightarrow> u64 list) \<Rightarrow> bool" where
  "pages_ok s F \<longleftrightarrow> (\<forall>i<N_BUFFER. data (the_buf s i) \<noteq> 0 \<longrightarrow>
     in_region (pool False s) (data (the_buf s i)) \<and> data (the_buf s i) \<notin> set (F False))"

definition slk_ok :: "'a disk_state_scheme \<Rightarrow> (bool \<Rightarrow> nat list) \<Rightarrow> bool" where
  "slk_ok s R \<longleftrightarrow> (\<forall>i<N_BUFFER. free_lock (LkBufSlk i) s \<and>
     slk_locked (slocks s (LkBufSlk i)) = (i \<in> set (R True)))"

text \<open>\<open>clean s i\<close>: the page of buffer \<open>i\<close> holds what the disk holds.\<close>

definition clean :: "'a disk_state_scheme \<Rightarrow> nat \<Rightarrow> bool" where
  "clean s i \<longleftrightarrow> (\<forall>x. unat (x - data (the_buf s i)) < 4096 \<longrightarrow>
     mem s x = disk_image s (block_off (block_num (the_buf s i)) + (x - data (the_buf s i))))"

text \<open>
  The kernel's page table maps the stack of the requests, and its pages (\<open>ktabs\<close>) are not in the user pool, from
  which the pages of the buffers come.
\<close>

definition ktabs :: "'a vm_state_scheme \<Rightarrow> u64 set" where
  "ktabs s = tables (mem s) (kern_pagetable s)"

definition kpt_ok :: "'a disk_state_scheme \<Rightarrow> bool" where
  "kpt_ok s \<longleftrightarrow> stack_mapped s \<and> (\<forall>u \<in> ktabs s. \<not> in_region (pool False s) u)"

lemma kpt_step:
  assumes k: "kpt_ok s" and t: "kern_pagetable t = kern_pagetable s" "buf0_at t = buf0_at s"
    and p: "\<And>q. in_region (pool False t) q = in_region (pool False s) q"
    and m: "\<And>u x. u \<in> ktabs s \<Longrightarrow> pg x = pg u \<Longrightarrow> mem t x = mem s x"
  shows "kpt_ok t" "ktabs t = ktabs s"
proof -
  have pt: "pt_ok (mem s) (kern_pagetable s)" using k by (simp add: kpt_ok_def stack_mapped_def)
  have "\<forall>u \<in> tables (mem s) (kern_pagetable s). \<forall>x. pg x = pg u \<longrightarrow> mem t x = mem s x" using m by (simp add: ktabs_def)
  note u = pt_untouched[OF pt this]
  show e: "ktabs t = ktabs s" unfolding ktabs_def t(1) by (rule u(1))
  show "kpt_ok t" using k u(2,3) unfolding kpt_ok_def stack_mapped_def t p e by simp
qed

lemma kpt_same:
  assumes "kern_pagetable t = kern_pagetable s" and "buf0_at t = buf0_at s" and "mem t = mem s"
    and "pool False t = pool False s"
  shows "kpt_ok t = kpt_ok s" "ktabs t = ktabs s"
  using assms by (simp_all add: kpt_ok_def stack_mapped_def ktabs_def)

lemma ktab_page:
  assumes "kpt_ok s" and "u \<in> ktabs s" and "in_region (pool False s) q"
  shows "pg q \<noteq> pg u"
proof -
  have "page_aligned u" using assms(1,2) pt_okD(5) unfolding kpt_ok_def stack_mapped_def ktabs_def by blast
  moreover have "u \<noteq> q" using assms unfolding kpt_ok_def by blast
  ultimately show ?thesis using pg_eq_aligned in_region_aligned[OF assms(3)] by metis
qed

lemma kpt_ok_mapped: "kpt_ok s \<Longrightarrow> stack_mapped s"
  by (simp add: kpt_ok_def)

text \<open>\<open>D\<close>: the buffers whose holder has changed the page and not yet written it.\<close>

definition bc_ok :: "'a disk_state_scheme \<Rightarrow> (bool \<Rightarrow> nat list) \<Rightarrow> (bool \<Rightarrow> u64 list) \<Rightarrow> nat set \<Rightarrow> bool" where
  "bc_ok s R F D \<longleftrightarrow> buf_ok (bufs s) R \<and> pmem_ok s F \<and> pages_ok s F \<and> slk_ok s R \<and>
     (\<forall>i<N_BUFFER. block_num (the_buf s i) \<noteq> BLOCK_NUM_UNUSED \<longrightarrow> i \<notin> D \<longrightarrow> clean s i) \<and>
     D \<subseteq> set (R True) \<and> free_lock LkBufCache s \<and> free_lock LkVdisk s \<and> vq_ok s \<and> dev_ok s \<and> kpt_ok s"

lemma bc_okD:
  assumes "bc_ok s R F D"
  shows "buf_ok (bufs s) R" "rings (bufs s) R" "pmem_ok s F" "pages_ok s F" "slk_ok s R"
    "free_lock LkBufCache s" "free_lock LkVdisk s" "vq_ok s" "dev_ok s" "D \<subseteq> set (R True)" "kpt_ok s"
  using assms by (auto simp: bc_ok_def buf_ok_def)

lemma bc_ok_clean:
  "bc_ok s R F D \<Longrightarrow> i < N_BUFFER \<Longrightarrow> block_num (the_buf s i) \<noteq> BLOCK_NUM_UNUSED \<Longrightarrow> i \<notin> D \<Longrightarrow> clean s i"
  by (simp add: bc_ok_def)

lemma rings_range: "rings bs R \<Longrightarrow> i \<in> set (R k) \<Longrightarrow> i < N_BUFFER"
  by (cases k) (auto simp: rings_def)

text \<open>Blocks do not overlap on the disk.\<close>

lemma block_off_unat: "n < 0x20000000 \<Longrightarrow> unat (block_off n) = 4096 * unat n"
proof -
  assume "n < 0x20000000"
  then have n: "unat n < 2 ^ 29" by (simp add: word_less_nat_alt)
  then have m: "unat (n * (4096 div 512)) = 8 * unat n" by (simp add: unat_word_ariths)
  then have "unat (ucast (n * (4096 div 512)) :: u64) = 8 * unat n" by simp
  then show ?thesis using n unfolding block_off_def by (simp add: unat_word_ariths)
qed

lemma block_off_disjoint:
  assumes "n < 0x20000000" "m < 0x20000000" "n \<noteq> m" and "unat j < 4096"
  shows "\<not> unat (block_off n + j - block_off m) < 4096"
proof
  assume h: "unat (block_off n + j - block_off m) < 4096"
  have nm: "unat n < 2 ^ 29" "unat m < 2 ^ 29" using assms(1,2) by (simp_all add: word_less_nat_alt)
  define k where "k = block_off n + j - block_off m"
  have e: "block_off n + j = block_off m + k" by (simp add: k_def)
  have "unat (block_off n + j) = 4096 * unat n + unat j"
    using nm(1) assms(4) block_off_unat[OF assms(1)] by (simp add: unat_word_ariths)
  moreover have "unat (block_off m + k) = 4096 * unat m + unat k"
    using nm(2) h[folded k_def] block_off_unat[OF assms(2)] by (simp add: unat_word_ariths)
  ultimately have "4096 * unat n + unat j = 4096 * unat m + unat k" using e by simp
  then have "(4096 * unat n + unat j) div 4096 = (4096 * unat m + unat k) div 4096" by simp
  then have "unat n = unat m" using h[folded k_def] assms(4) by simp
  then show False using assms(3) by (simp add: word_unat_eq_iff)
qed

lemma page_of_data:
  assumes "page_aligned d"
  shows "unat (x - d) < 4096 \<longleftrightarrow> pg x = pg d"
  using pg_iff_offset[OF assms] by simp

text \<open>Distinct buffers have distinct pages.\<close>

lemma data_page:
  assumes "bc_ok s R F D" and "i < N_BUFFER" and "data (the_buf s i) \<noteq> 0"
  shows "page_aligned (data (the_buf s i))" "data (the_buf s i) \<notin> set (F k)"
proof -
  have r: "in_region (pool False s) (data (the_buf s i))" "data (the_buf s i) \<notin> set (F False)"
    using bc_okD(4)[OF assms(1)] assms(2,3) by (auto simp: pages_ok_def)
  then show "page_aligned (data (the_buf s i))" by (simp add: in_region_def)
  show "data (the_buf s i) \<notin> set (F k)"
    using region_disjoint[OF bc_okD(3)[OF assms(1)] r(1)] r(2) by (cases k) simp_all
qed

lemma data_inj:
  assumes "bc_ok s R F D" and "i < N_BUFFER" "j < N_BUFFER" "i \<noteq> j" and "data (the_buf s i) \<noteq> 0" "data (the_buf s j) \<noteq> 0"
  shows "pg (data (the_buf s i)) \<noteq> pg (data (the_buf s j))"
proof -
  have "data (the_buf s i) \<noteq> data (the_buf s j)"
    using bc_okD(1)[OF assms(1)] assms(2-5) unfolding buf_ok_def by blast
  then show ?thesis using pg_eq_aligned[OF data_page(1)[OF assms(1,2,5)] data_page(1)[OF assms(1,3,6)]] by simp
qed

section \<open>Helper facts on the allocator inside the critical section\<close>

lemma pmem_ok_entered:
  "pmem_ok s F \<Longrightarrow> (\<And>k. l \<noteq> LkPmem k) \<Longrightarrow> pmem_ok (entered l s) F"
  by (auto simp: pmem_ok_def pool_ok_def)

lemma popped_entered: "popped k (entered l s) = entered l (popped k s)"
  by (simp add: popped_def)

lemma popped_bufs [simp]:
  "bufs (popped k s) = bufs s" "slocks (popped k s) = slocks s" "disk_image (popped k s) = disk_image s"
  "device (popped k s) = device s" "proc_pool (popped k s) = proc_pool s" "myproc (popped k s) = myproc s"
  "hart (popped k s) = hart s" "locks (popped k s) = locks s" "cpus (popped k s) = cpus s"
  by (cases k; simp add: popped_def set_pool_def myproc_def)+

lemma pmem_alloc_entered:
  assumes ok: "pmem_ok s F" and l: "\<And>k. l \<noteq> LkPmem k" and F: "F k = q # ps"
  shows "pmem_alloc k (entered l s) =
    Inr (q, entered l ((popped k s)\<lparr>mem := memset (mem s) q 0 PGSIZE\<rparr>))"
proof -
  have "cpu_ok (popped k s)" using pmem_okD(1)[OF ok] by simp
  then show ?thesis using pmem_alloc_eq[OF pmem_ok_entered[OF ok l] F]
    by (simp add: popped_entered del: stale_mem_update)
qed

lemma vq_ok_eq:
  assumes "dk t = dk s"
  shows "vq_ok t = vq_ok s" "dev_ok t = dev_ok s"
  using dk_eqD[OF assms] by (simp_all add: vq_ok_def dev_ok_def)

lemma kpt_ok_bufs [simp]:
  "kpt_ok (s\<lparr>bufs := b\<rparr>) = kpt_ok s" "ktabs (s\<lparr>bufs := b\<rparr>) = ktabs s"
  "kpt_ok (upd_buf i f s) = kpt_ok s" "ktabs (upd_buf i f s) = ktabs s"
  by (rule kpt_same; simp add: upd_buf_def pool_def)+

lemma kern_pagetable_frame [simp]:
  "kern_pagetable (set_slock l k s) = kern_pagetable s" "kern_pagetable (popped u s) = kern_pagetable s"
  "kern_pagetable (upd_buf i f s) = kern_pagetable s" "buf0_at (upd_buf i f s) = buf0_at s"
  by (simp_all add: set_slock_def popped_def set_pool_def upd_buf_def)

lemma popped_buf0_at [simp]: "buf0_at (popped u s) = buf0_at s"
  by (simp add: popped_def set_pool_def)

lemma vq_ok_bufs [simp]: "vq_ok (s\<lparr>bufs := b\<rparr>) = vq_ok s" "dev_ok (s\<lparr>bufs := b\<rparr>) = dev_ok s"
  by (simp_all add: vq_ok_def dev_ok_def)

lemma pmem_ok_bufs [simp]: "pmem_ok (s\<lparr>bufs := b\<rparr>) F = pmem_ok s F" "pmem_ok (upd_buf i f s) F = pmem_ok s F"
  by (simp_all add: pmem_ok_def pool_ok_def pool_def upd_buf_def)

section \<open>Getting a buffer\<close>

text \<open>What hit and miss share: the node becomes active, the cache lock is dropped, the buffer locked.\<close>

definition held :: "nat \<Rightarrow> nat \<Rightarrow> (bptr \<Rightarrow> buffer_node) \<Rightarrow> 'a disk_state_scheme \<Rightarrow> 'a disk_state_scheme" where
  "held i p bs s = stale_origin (set_slock (LkBufSlk i) \<lparr>slk_locked = True, slk_pid = pid (proc_pool s p)\<rparr>
     (s\<lparr>bufs := bs\<rparr>))"

lemma stale_set_slock [simp]: "set_slock l k (stale_origin s) = stale_origin (set_slock l k s)"
  by (simp add: set_slock_def)

lemma stale_bufs [simp]: "(stale_origin s)\<lparr>bufs := b\<rparr> = stale_origin (s\<lparr>bufs := b\<rparr>)"
  by (simp add: stale_origin_def cpu_defs)

lemma activate_ok:
  assumes r: "rings (bufs s) R" and i: "i < N_BUFFER" and c: "cpu_ok s" "free_lock LkBufCache s"
    "free_lock (LkBufSlk i) s" "\<not> slk_locked (slocks s (LkBufSlk i))" "myproc s = Some p"
  shows "\<exists>bs. insert_node (BNode i) True True (entered LkBufCache s) = Inr (entered LkBufCache (s\<lparr>bufs := bs\<rparr>)) \<and>
    spinlock_release LkBufCache (entered LkBufCache (s\<lparr>bufs := bs\<rparr>)) = Inr (stale_origin (s\<lparr>bufs := bs\<rparr>)) \<and>
    sleeplock_acquire (LkBufSlk i) (stale_origin (s\<lparr>bufs := bs\<rparr>)) = Inr (held i p bs s) \<and>
    rings bs (moved i True R) \<and> (\<forall>q. buf (bs q) = buf (bufs s q))"
proof -
  have "rings (bufs (entered LkBufCache s)) R" using r by simp
  from insert_node_ok[OF this i, of True] obtain bs where
    b: "insert_node (BNode i) True True (entered LkBufCache s) = Inr (entered LkBufCache (s\<lparr>bufs := bs\<rparr>))"
    "rings bs (moved i True R)" "\<forall>q. buf (bs q) = buf (bufs s q)" by auto
  have "sleeplock_acquire (LkBufSlk i) (stale_origin (s\<lparr>bufs := bs\<rparr>)) = Inr (held i p bs s)"
    using sleeplock_acquire_eq[of "stale_origin (s\<lparr>bufs := bs\<rparr>)" "LkBufSlk i" p] c
    by (simp add: held_def)
  then show ?thesis using b c by auto
qed

lemma held_frame [simp]:
  "bufs (held i p bs s) = bs" "mem (held i p bs s) = mem s" "disk_image (held i p bs s) = disk_image s"
  "slocks (held i p bs s) l = (if l = LkBufSlk i then \<lparr>slk_locked = True, slk_pid = pid (proc_pool s p)\<rparr> else slocks s l)"
  "pmem_ok (held i p bs s) F = pmem_ok s F" "free_lock l (held i p bs s) = free_lock l s"
  "pool k (held i p bs s) = pool k s" "vq_ok (held i p bs s) = vq_ok s" "dev_ok (held i p bs s) = dev_ok s"
  "kpt_ok (held i p bs s) = kpt_ok s" "ktabs (held i p bs s) = ktabs s"
proof -
  have "dk (held i p bs s) = dk (s\<lparr>bufs := bs\<rparr>)" by (simp add: held_def set_slock_def)
  note d = dk_eqD[OF this] vq_ok_eq[OF this]
  show "bufs (held i p bs s) = bs" "disk_image (held i p bs s) = disk_image s" "vq_ok (held i p bs s) = vq_ok s"
    "dev_ok (held i p bs s) = dev_ok s" using d by simp_all
  have m: "kern_pagetable (held i p bs s) = kern_pagetable s" "mem (held i p bs s) = mem s" "pool False (held i p bs s) = pool False s"
    by (simp_all add: held_def pool_def set_slock_def)
  show "kpt_ok (held i p bs s) = kpt_ok s" "ktabs (held i p bs s) = ktabs s"
    by (rule kpt_same; use d m in simp)+
qed (simp_all add: held_def set_slock_def pool_def)

lemma held_calm: "calm s (held i p bs s)"
proof -
  have "calm s (set_slock (LkBufSlk i) k (s\<lparr>bufs := bs\<rparr>))" for k
    by (rule calm_frame) (simp_all add: set_slock_def)
  then show ?thesis unfolding held_def by (rule calm_trans[OF _ calm_stale])
qed

text \<open>The table after node \<open>i\<close> was activated with new contents.\<close>

lemma buf_ok_activate:
  assumes ok: "buf_ok bs0 R" and i: "i \<in> set (R False)" and r: "rings bs (moved i True R)"
    and b: "\<And>j. j \<noteq> i \<Longrightarrow> buf (bs (BNode j)) = buf (bs0 (BNode j))" "ref (buf (bs (BNode i))) = 1"
    and n: "block_num (buf (bs (BNode i))) < 0x20000000" "data (buf (bs (BNode i))) \<noteq> 0"
    and new: "\<And>j. j < N_BUFFER \<Longrightarrow> j \<noteq> i \<Longrightarrow> block_num (buf (bs0 (BNode j))) \<noteq> block_num (buf (bs (BNode i)))"
      "\<And>j. j < N_BUFFER \<Longrightarrow> j \<noteq> i \<Longrightarrow> data (buf (bs0 (BNode j))) \<noteq> data (buf (bs (BNode i)))"
  shows "buf_ok bs (moved i True R)"
proof -
  have act: "j \<in> set (moved i True R True) \<longleftrightarrow> j = i \<or> j \<in> set (R True)" for j by (auto simp: moved_def)
  have nu: "block_num (buf (bs (BNode i))) \<noteq> BLOCK_NUM_UNUSED" using n(1) by auto
  show ?thesis unfolding buf_ok_def act
  proof (intro conjI allI impI r)
    fix j assume j: "j < N_BUFFER"
    show "ref (buf (bs (BNode j))) = (if j = i \<or> j \<in> set (R True) then 1 else 0)"
      using ok b j unfolding buf_ok_def by (cases "j = i") auto
    show "data (buf (bs (BNode j))) \<noteq> 0" if "block_num (buf (bs (BNode j))) \<noteq> BLOCK_NUM_UNUSED"
      using ok b(1) n j that unfolding buf_ok_def by (cases "j = i") auto
    show "block_num (buf (bs (BNode j))) < 0x20000000" if "block_num (buf (bs (BNode j))) \<noteq> BLOCK_NUM_UNUSED"
      using ok b(1) n j that unfolding buf_ok_def by (cases "j = i") auto
    show "block_num (buf (bs (BNode j))) \<noteq> BLOCK_NUM_UNUSED" if "j = i \<or> j \<in> set (R True)"
      using ok b(1) nu j that unfolding buf_ok_def by (cases "j = i") auto
    fix l assume l: "l < N_BUFFER" "j \<noteq> l"
    show "block_num (buf (bs (BNode j))) = BLOCK_NUM_UNUSED"
      if "block_num (buf (bs (BNode j))) = block_num (buf (bs (BNode l)))"
      using ok b(1) new(1) j l that unfolding buf_ok_def by (cases "j = i"; cases "l = i") metis+
    show "data (buf (bs (BNode j))) = 0" if "data (buf (bs (BNode j))) = data (buf (bs (BNode l)))"
      using ok b(1) new(2) j l that unfolding buf_ok_def by (cases "j = i"; cases "l = i") metis+
  qed
qed

end
