(* ===== verification/CacheOps.thy ===== *)
theory CacheOps
  imports CacheInv
begin

text \<open>What the operations of the buffer cache do, over the invariant \<open>bc_ok\<close>.\<close>

section \<open>Transfers keep the invariant\<close>

text \<open>Tables that differ in the \<open>b_disk\<close> marks only.\<close>

definition same_view :: "(bptr \<Rightarrow> buffer_node) \<Rightarrow> (bptr \<Rightarrow> buffer_node) \<Rightarrow> bool" where
  "same_view bs bs' \<longleftrightarrow> nx bs' = nx bs \<and> pv bs' = pv bs \<and>
     (\<forall>q. block_num (buf (bs' q)) = block_num (buf (bs q)) \<and> data (buf (bs' q)) = data (buf (bs q)) \<and>
        ref (buf (bs' q)) = ref (buf (bs q)))"

lemma buf_ok_view: "same_view bs bs' \<Longrightarrow> buf_ok bs' R = buf_ok bs R"
  by (simp add: same_view_def buf_ok_def rings_def)

lemma same_view_disk: "same_view (bufs s) (bufs (upd_buf b (\<lambda>x. x\<lparr>b_disk := v\<rparr>) s))"
  by (auto simp: same_view_def upd_buf_def nx_def pv_def)

lemma pmem_ok_rest:
  assumes ok: "pmem_ok s F" and c: "calm s t" and p: "kernel_pool t = kernel_pool s" "user_pool t = user_pool s"
    and m: "\<And>k q x. q \<in> set (F k) \<Longrightarrow> pg x = pg q \<Longrightarrow> mem t x = mem s x"
  shows "pmem_ok t F"
proof -
  have pl: "pool k t = pool k s" for k using p by (simp add: pool_def)
  have "Flist (mem t) h (F k) = Flist (mem s) h (F k)" for h k
    by (rule Flist_other_pages) (use pmem_okD(4)[OF ok] m in auto)
  then show ?thesis using ok p pl calm_ctx[OF c] by (simp add: pmem_ok_def pool_ok_def)
qed

lemma free_not_data:
  assumes bc: "bc_ok s R F D" and i: "i < N_BUFFER" "data (the_buf s i) \<noteq> 0" and q: "q \<in> set (F k)" "pg x = pg q"
  shows "\<not> unat (x - data (the_buf s i)) < 4096"
proof
  note d = data_page[OF bc i]
  assume "unat (x - data (the_buf s i)) < 4096"
  then have "pg q = pg (data (the_buf s i))" using page_of_data[OF d(1)] q(2) by simp
  then have "q = data (the_buf s i)"
    using pg_eq_aligned[OF pmem_okD(4)[OF bc_okD(3)[OF bc] q(1)] d(1)] by simp
  then show False using d(2)[of k] q(1) by simp
qed

lemma active_props:
  assumes bc: "bc_ok s R F D" and i: "i \<in> set (R True)"
  shows "i < N_BUFFER" "block_num (the_buf s i) \<noteq> BLOCK_NUM_UNUSED" "data (the_buf s i) \<noteq> 0"
    "block_num (the_buf s i) < 0x20000000" "ref (the_buf s i) = 1"
proof -
  show n: "i < N_BUFFER" using rings_range[OF bc_okD(2)[OF bc] i] .
  then show b: "block_num (the_buf s i) \<noteq> BLOCK_NUM_UNUSED" "ref (the_buf s i) = 1"
    using bc_okD(1)[OF bc] i unfolding buf_ok_def by simp_all
  show "data (the_buf s i) \<noteq> 0" "block_num (the_buf s i) < 0x20000000"
    using bc_okD(1)[OF bc] n b(1) unfolding buf_ok_def by simp_all
qed

lemma buf_ok_distinct:
  assumes ok: "buf_ok bs R" and i: "i < N_BUFFER" and j: "j < N_BUFFER" "j \<noteq> i"
  shows "block_num (buf (bs (BNode i))) \<noteq> BLOCK_NUM_UNUSED \<Longrightarrow>
      block_num (buf (bs (BNode j))) \<noteq> block_num (buf (bs (BNode i)))"
    "data (buf (bs (BNode i))) \<noteq> 0 \<Longrightarrow> data (buf (bs (BNode j))) \<noteq> data (buf (bs (BNode i)))"
proof -
  have "\<forall>j<N_BUFFER. i \<noteq> j \<longrightarrow>
       (block_num (buf (bs (BNode i))) = block_num (buf (bs (BNode j))) \<longrightarrow>
          block_num (buf (bs (BNode i))) = BLOCK_NUM_UNUSED) \<and>
       (data (buf (bs (BNode i))) = data (buf (bs (BNode j))) \<longrightarrow> data (buf (bs (BNode i))) = 0)"
    using ok i unfolding buf_ok_def by simp
  from this[rule_format, OF j(1) j(2)[symmetric]]
  show "block_num (buf (bs (BNode i))) \<noteq> BLOCK_NUM_UNUSED \<Longrightarrow>
      block_num (buf (bs (BNode j))) \<noteq> block_num (buf (bs (BNode i)))"
    "data (buf (bs (BNode i))) \<noteq> 0 \<Longrightarrow> data (buf (bs (BNode j))) \<noteq> data (buf (bs (BNode i)))"
    by auto
qed

lemma buf_ok_used:
  assumes "buf_ok bs R" and "i < N_BUFFER" and "block_num (buf (bs (BNode i))) \<noteq> BLOCK_NUM_UNUSED"
  shows "data (buf (bs (BNode i))) \<noteq> 0" "block_num (buf (bs (BNode i))) < 0x20000000"
  using assms unfolding buf_ok_def by simp_all

text \<open>The invariant after a step that changes only memory, the disk image and the marks.\<close>

lemma bc_ok_step:
  assumes bc: "bc_ok s R F D" and c: "calm s t" and r: "rest_same s t" and v: "vq_ok t"
    and bv: "same_view (bufs s) (bufs t)" and D: "D' \<subseteq> set (R True)"
    and m: "\<And>k q x. q \<in> set (F k) \<Longrightarrow> pg x = pg q \<Longrightarrow> mem t x = mem s x"
    and cl: "\<And>j. j < N_BUFFER \<Longrightarrow> block_num (the_buf s j) \<noteq> BLOCK_NUM_UNUSED \<Longrightarrow> j \<notin> D' \<Longrightarrow> clean t j"
    and mk: "\<And>u x. u \<in> ktabs s \<Longrightarrow> pg x = pg u \<Longrightarrow> mem t x = mem s x"
  shows "bc_ok t R F D' \<and> ktabs t = ktabs s"
proof -
  have b: "block_num (the_buf t i) = block_num (the_buf s i)" "data (the_buf t i) = data (the_buf s i)" for i
    using bv by (simp_all add: same_view_def)
  have pl: "pool k t = pool k s" for k using r by (simp add: rest_same_def pool_def)
  have kt: "kern_pagetable t = kern_pagetable s" "buf0_at t = buf0_at s" using r by (simp_all add: rest_same_def)
  note ks = kpt_step[OF bc_okD(11)[OF bc] kt _ mk]
  have ke: "ktabs t = ktabs s" by (rule ks(2)) (simp_all add: pl)
  have "kpt_ok t" by (rule ks(1)) (simp_all add: pl)
  moreover have "pmem_ok t F" by (rule pmem_ok_rest[OF bc_okD(3)[OF bc] c _ _ m]) (use r in \<open>simp_all add: rest_same_def\<close>)
  moreover have "buf_ok (bufs t) R" using buf_ok_view[OF bv] bc_okD(1)[OF bc] by simp
  moreover have "pages_ok t F" using bc_okD(4)[OF bc] by (simp add: pages_ok_def b pl)
  moreover have "slk_ok t R" using bc_okD(5)[OF bc] r calm_ctx(2)[OF c] by (simp add: slk_ok_def rest_same_def)
  moreover have "dev_ok t" using bc_okD(9)[OF bc] r by (simp add: dev_ok_def rest_same_def)
  ultimately show ?thesis using D cl v bc_okD(6,7)[OF bc] calm_ctx(2)[OF c] ke by (simp add: bc_ok_def b)
qed

text \<open>The page of a buffer is none of the kernel's page table.\<close>

lemma data_not_ktab:
  assumes bc: "bc_ok s R F D" and i: "i < N_BUFFER" "data (the_buf s i) \<noteq> 0" and u: "u \<in> ktabs s" "pg x = pg u"
  shows "\<not> unat (x - data (the_buf s i)) < 4096"
proof -
  have "in_region (pool False s) (data (the_buf s i))" using bc_okD(4)[OF bc] i by (simp add: pages_ok_def)
  from ktab_page[OF bc_okD(11)[OF bc] u(1) this] show ?thesis
    using u(2) by (simp add: page_of_data[OF data_page(1)[OF bc i]])
qed

lemma buffer_read_ok:
  assumes bc: "bc_ok s R F D" and k: "kctx s p" and i: "i \<in> set (R True)"
  shows "\<exists>t. buffer_read i s = Inr t \<and> bc_ok t R F (D - {i}) \<and> calm s t \<and> rest_same s t \<and>
    disk_image t = disk_image s \<and> same_view (bufs s) (bufs t) \<and> ktabs t = ktabs s \<and>
    mem t = blk_read (block_off (block_num (the_buf s i))) (data (the_buf s i)) (disk_image s) (mem s)"
proof -
  note a = active_props[OF bc i] and d = data_page[OF bc active_props(1,3)[OF bc i]]
  from virtio_rw_ok[OF k bc_okD(7,8,9)[OF bc] kpt_ok_mapped[OF bc_okD(11)[OF bc]], of i False] obtain t where
    t: "virtio_disk_rw i False s = Inr t" "calm s t" "rest_same s t" "vq_ok t" "disk_image t = disk_image s"
    and m: "mem t = blk_read (block_off (block_num (the_buf s i))) (data (the_buf s i)) (disk_image s) (mem s)"
    and b: "bufs t = bufs (upd_buf i (\<lambda>x. x\<lparr>b_disk := False\<rparr>) s)" by auto
  have bv: "same_view (bufs s) (bufs t)" unfolding b by (rule same_view_disk)
  then have bt: "block_num (the_buf t j) = block_num (the_buf s j)" "data (the_buf t j) = data (the_buf s j)" for j
    by (simp_all add: same_view_def)
  have "bc_ok t R F (D - {i}) \<and> ktabs t = ktabs s"
  proof (rule bc_ok_step[OF bc t(2,3,4) bv])
    show "D - {i} \<subseteq> set (R True)" using bc_okD(10)[OF bc] by blast
    show "mem t x = mem s x" if "q \<in> set (F k)" "pg x = pg q" for k q x
      using free_not_data[OF bc a(1,3) that] by (simp add: m blk_read_def)
    show "mem t x = mem s x" if "u \<in> ktabs s" "pg x = pg u" for u x
      using data_not_ktab[OF bc a(1,3) that] by (simp add: m blk_read_def)
    fix j assume j: "j < N_BUFFER" "block_num (the_buf s j) \<noteq> BLOCK_NUM_UNUSED" "j \<notin> D - {i}"
    show "clean t j"
    proof (cases "j = i")
      case True
      then show ?thesis by (simp add: clean_def m blk_read_def t(5) bt)
    next
      case False
      have dj: "data (the_buf s j) \<noteq> 0" using bc_okD(1)[OF bc] j unfolding buf_ok_def by blast
      have "clean s j" using bc_ok_clean[OF bc j(1,2)] j(3) False by simp
      moreover have "mem t x = mem s x" if "unat (x - data (the_buf s j)) < 4096" for x
        using that data_inj[OF bc j(1) a(1) False dj a(3)]
          page_of_data[OF d(1)] page_of_data[OF data_page(1)[OF bc j(1) dj]]
        by (simp add: m blk_read_def)
      ultimately show ?thesis by (simp add: clean_def t(5) bt)
    qed
  qed
  then show ?thesis using t m bv by (auto simp: buffer_read_def)
qed

lemma buffer_write_ok:
  assumes bc: "bc_ok s R F D" and k: "kctx s p" and i: "i \<in> set (R True)"
  shows "\<exists>t. buffer_write i s = Inr t \<and> bc_ok t R F (D - {i}) \<and> calm s t \<and> rest_same s t \<and>
    mem t = mem s \<and> same_view (bufs s) (bufs t) \<and> ktabs t = ktabs s \<and>
    disk_image t = blk_write (block_off (block_num (the_buf s i))) (data (the_buf s i)) (disk_image s) (mem s)"
proof -
  note a = active_props[OF bc i]
  from virtio_rw_ok[OF k bc_okD(7,8,9)[OF bc] kpt_ok_mapped[OF bc_okD(11)[OF bc]], of i True] obtain t where
    t: "virtio_disk_rw i True s = Inr t" "calm s t" "rest_same s t" "vq_ok t" "mem t = mem s"
    and m: "disk_image t = blk_write (block_off (block_num (the_buf s i))) (data (the_buf s i)) (disk_image s) (mem s)"
    and b: "bufs t = bufs (upd_buf i (\<lambda>x. x\<lparr>b_disk := False\<rparr>) s)" by auto
  have bv: "same_view (bufs s) (bufs t)" unfolding b by (rule same_view_disk)
  then have bt: "block_num (the_buf t j) = block_num (the_buf s j)" "data (the_buf t j) = data (the_buf s j)" for j
    by (simp_all add: same_view_def)
  have "bc_ok t R F (D - {i}) \<and> ktabs t = ktabs s"
  proof (rule bc_ok_step[OF bc t(2,3,4) bv])
    show "D - {i} \<subseteq> set (R True)" using bc_okD(10)[OF bc] by blast
    show "mem t x = mem s x" for x by (simp add: t(5))
    fix j assume j: "j < N_BUFFER" "block_num (the_buf s j) \<noteq> BLOCK_NUM_UNUSED" "j \<notin> D - {i}"
    show "clean t j"
    proof (cases "j = i")
      case True
      then show ?thesis by (simp add: clean_def m blk_write_def t(5) bt)
    next
      case False
      have nj: "block_num (the_buf s j) < 0x20000000" using bc_okD(1)[OF bc] j unfolding buf_ok_def by blast
      have ne: "block_num (the_buf s j) \<noteq> block_num (the_buf s i)"
        using bc_okD(1)[OF bc] j(1,2) a(1) False unfolding buf_ok_def by blast
      have "clean s j" using bc_ok_clean[OF bc j(1,2)] j(3) False by simp
      moreover have "disk_image t (block_off (block_num (the_buf s j)) + k) =
          disk_image s (block_off (block_num (the_buf s j)) + k)" if "unat k < 4096" for k
        using block_off_disjoint[OF nj a(4) ne that] by (simp add: m blk_write_def)
      ultimately show ?thesis by (simp add: clean_def t(5) bt)
    qed
  qed (simp add: t(5))
  then show ?thesis using t m bv by (auto simp: buffer_write_def)
qed

section \<open>Getting a block\<close>

text \<open>What a step on buffer \<open>i\<close> leaves alone: the state above the disk, the other sleeplocks and buffers.\<close>

definition kept :: "nat \<Rightarrow> 'a disk_state_scheme \<Rightarrow> 'a disk_state_scheme \<Rightarrow> bool" where
  "kept i s t \<longleftrightarrow> disk_state.more t = disk_state.more s \<and>
     ktabs t = ktabs s \<and> (\<forall>l. (\<forall>j. l \<noteq> LkBufSlk j) \<longrightarrow> slocks t l = slocks s l) \<and>
     (\<forall>j. j \<noteq> i \<longrightarrow> block_num (the_buf t j) = block_num (the_buf s j) \<and> data (the_buf t j) = data (the_buf s j))"

lemma more_frame [simp]:
  "disk_state.more (entered l s) = disk_state.more s" "disk_state.more (stale_origin s) = disk_state.more s"
  "disk_state.more (set_slock l k s) = disk_state.more s" "disk_state.more (upd_buf i f s) = disk_state.more s"
  "disk_state.more (held i p bs s) = disk_state.more s" "disk_state.more (popped u s) = disk_state.more s"
  "disk_state.more (wake_state ch n s) = disk_state.more s"
  by (simp_all add: entered_def push_off_def stale_origin_def cpu_defs set_lock_def set_slock_def upd_buf_def held_def
      popped_def set_pool_def wake_state_def)

lemma same_view_kept: "ktabs t = ktabs s \<Longrightarrow> rest_same s t \<Longrightarrow> same_view (bufs s) (bufs t) \<Longrightarrow> kept i s t"
  by (simp add: kept_def rest_same_def same_view_def)

lemma kept_trans: "kept i s t \<Longrightarrow> kept i t u \<Longrightarrow> kept i s u"
  by (simp add: kept_def)

text \<open>
  The common end of a hit on the inactive list and of a miss: \<open>s2\<close> is the state in which the node
  has its block and its page, still under the cache lock.
\<close>

lemma activated_bc:
  assumes bc: "bc_ok s R F D" and k: "kctx s p" and i: "i \<in> set (R False)"
    and r2: "rings (bufs s2) R" and c2: "calm s s2" and same2: "slocks s2 = slocks s" "vq_ok s2" "dev_ok s2" "kpt_ok s2"
    and p2: "pmem_ok s2 F2" "set (F2 False) \<subseteq> set (F False)"
      "\<And>q. in_region (pool False s2) q = in_region (pool False s) q"
    and o2: "\<And>j. j \<noteq> i \<Longrightarrow> the_buf s2 j = the_buf s j" and ref2: "ref (the_buf s2 i) = 1"
    and n2: "block_num (the_buf s2 i) < 0x20000000"
      "\<And>j. j < N_BUFFER \<Longrightarrow> j \<noteq> i \<Longrightarrow> block_num (the_buf s j) \<noteq> block_num (the_buf s2 i)"
    and d2: "data (the_buf s2 i) \<noteq> 0" "in_region (pool False s2) (data (the_buf s2 i))"
      "data (the_buf s2 i) \<notin> set (F2 False)"
      "\<And>j. j < N_BUFFER \<Longrightarrow> j \<noteq> i \<Longrightarrow> data (the_buf s j) \<noteq> data (the_buf s2 i)"
    and D: "D \<subseteq> D'" "D' \<subseteq> insert i D" and cl: "i \<notin> D' \<Longrightarrow> clean s2 i"
    and clo: "\<And>j. j < N_BUFFER \<Longrightarrow> j \<noteq> i \<Longrightarrow> block_num (the_buf s j) \<noteq> BLOCK_NUM_UNUSED \<Longrightarrow> clean s j \<Longrightarrow> clean s2 j"
  shows "\<exists>bs. insert_node (BNode i) True True (entered LkBufCache s2) = Inr (entered LkBufCache (s2\<lparr>bufs := bs\<rparr>)) \<and>
    spinlock_release LkBufCache (entered LkBufCache (s2\<lparr>bufs := bs\<rparr>)) = Inr (stale_origin (s2\<lparr>bufs := bs\<rparr>)) \<and>
    sleeplock_acquire (LkBufSlk i) (stale_origin (s2\<lparr>bufs := bs\<rparr>)) = Inr (held i p bs s2) \<and>
    bc_ok (held i p bs s2) (moved i True R) F2 D' \<and> (\<forall>q. buf (bs q) = buf (bufs s2 q))"
proof -
  note ii = rings_range[OF bc_okD(2)[OF bc] i]
  have inact: "i \<notin> set (R True)" using i bc_okD(2)[OF bc] by (auto simp: rings_def)
  have sl: "free_lock (LkBufSlk j) s2" "slk_locked (slocks s2 (LkBufSlk j)) = (j \<in> set (R True))"
    if "j < N_BUFFER" for j
    using bc_okD(5)[OF bc] that same2(1) calm_ctx(2)[OF c2] by (auto simp: slk_ok_def)
  have ctx: "cpu_ok s2" "free_lock LkBufCache s2" "free_lock LkVdisk s2" "myproc s2 = Some p"
    using calm_ctx[OF c2] kctxD(1,3)[OF k] bc_okD(6,7)[OF bc] by simp_all
  from activate_ok[OF r2 ii ctx(1,2) sl(1)[OF ii] _ ctx(4)] sl(2)[OF ii] inact obtain bs where
    e: "insert_node (BNode i) True True (entered LkBufCache s2) = Inr (entered LkBufCache (s2\<lparr>bufs := bs\<rparr>))"
      "spinlock_release LkBufCache (entered LkBufCache (s2\<lparr>bufs := bs\<rparr>)) = Inr (stale_origin (s2\<lparr>bufs := bs\<rparr>))"
      "sleeplock_acquire (LkBufSlk i) (stale_origin (s2\<lparr>bufs := bs\<rparr>)) = Inr (held i p bs s2)"
    and bs: "rings bs (moved i True R)" "\<forall>q. buf (bs q) = buf (bufs s2 q)" by auto
  let ?h = "held i p bs s2"
  have b: "buf (bs q) = buf (bufs s2 q)" for q using bs(2) by simp
  have "buf_ok bs (moved i True R)"
    by (rule buf_ok_activate[OF bc_okD(1)[OF bc] i bs(1)]) (use o2 ref2 n2 d2 b in auto)
  moreover have "pages_ok ?h F2"
  proof -
    have "data (the_buf s2 j) \<noteq> 0 \<longrightarrow> in_region (pool False s2) (data (the_buf s2 j)) \<and> data (the_buf s2 j) \<notin> set (F2 False)"
      if "j < N_BUFFER" for j
      using bc_okD(4)[OF bc] that o2[of j] d2 p2(2,3) by (cases "j = i") (auto simp: pages_ok_def)
    then show ?thesis by (simp add: pages_ok_def b)
  qed
  moreover have "slk_ok ?h (moved i True R)" using sl by (auto simp: slk_ok_def moved_def)
  moreover have "clean ?h j" if j: "j < N_BUFFER" "block_num (the_buf s2 j) \<noteq> BLOCK_NUM_UNUSED" "j \<notin> D'" for j
  proof -
    have "clean s2 j"
    proof (cases "j = i")
      case False
      then have "clean s j" using bc_ok_clean[OF bc j(1)] j o2[of j] D by auto
      then show ?thesis using clo[OF j(1) False] j o2[of j] False by simp
    qed (use cl j(3) in simp)
    then show ?thesis by (simp add: clean_def b)
  qed
  moreover have "D' \<subseteq> set (moved i True R True)" using D bc_okD(10)[OF bc] by (auto simp: moved_def)
  ultimately have "bc_ok ?h (moved i True R) F2 D'"
    using p2(1) ctx same2(2-4) by (simp add: bc_ok_def b)
  then show ?thesis using e b by blast
qed

text \<open>The block is on the inactive list: no transfer, the contents are already there.\<close>

lemma find_Some_iff: "List.find P xs = Some x \<Longrightarrow> x \<in> set xs \<and> P x"
  by (auto simp: find_Some_iff)

lemma find_None_all: "(\<And>x. x \<in> set xs \<Longrightarrow> \<not> P x) \<Longrightarrow> List.find P xs = None"
  by (auto simp: find_None_iff)

lemma entered_find:
  assumes "rings (bufs s) R"
  shows "find_buf (Suc N_BUFFER) BActive bn (bn_next (bufs s BActive)) (bufs s) =
      Inr (map_option BNode (List.find (\<lambda>i. block_num (the_buf s i) = bn) (R True)))"
    "find_buf (Suc N_BUFFER) BInactive bn (bn_next (bufs s BInactive)) (bufs s) =
      Inr (map_option BNode (List.find (\<lambda>i. block_num (the_buf s i) = bn) (R False)))"
  using find_ring[OF assms, of True bn] find_ring[OF assms, of False bn] by simp_all

lemma upd_buf_links [simp]:
  "the_buf (upd_buf i f s) j = (if j = i then f (the_buf s i) else the_buf s j)"
  "nx (bufs (upd_buf i f s)) = nx (bufs s)" "pv (bufs (upd_buf i f s)) = pv (bufs s)"
  by (auto simp: upd_buf_def nx_def pv_def)

lemma upd_buf_same [simp]:
  "mem (upd_buf i f s) = mem s" "pool k (upd_buf i f s) = pool k s" "slocks (upd_buf i f s) = slocks s"
  "disk_image (upd_buf i f s) = disk_image s" "device (upd_buf i f s) = device s"
  "vq_ok (upd_buf i f s) = vq_ok s" "dev_ok (upd_buf i f s) = dev_ok s"
  by (simp_all add: upd_buf_def pool_def)

lemma upd_buf_rings [simp]: "rings (bufs (upd_buf i f s)) R = rings (bufs s) R"
  by (simp only: rings_def upd_buf_links)

lemma calm_upd_buf [simp]: "calm s (upd_buf i f s)"
  by (rule calm_frame) (simp_all add: upd_buf_def)

lemma buffer_get_cached:
  assumes bc: "bc_ok s R F D" and k: "kctx s p" and i: "i \<in> set (R False)"
    and n: "block_num (the_buf s i) = bn" "bn \<noteq> BLOCK_NUM_UNUSED"
  shows "\<exists>t. buffer_get bn s = Inr (i, t) \<and> bc_ok t (moved i True R) F D \<and> calm s t \<and>
    mem t = mem s \<and> disk_image t = disk_image s \<and> block_num (the_buf t i) = bn \<and>
    data (the_buf t i) = data (the_buf s i) \<and> kept i s t"
proof -
  note r = bc_okD(2)[OF bc] and ii = rings_range[OF bc_okD(2)[OF bc] i]
  have uniq: "block_num (the_buf s j) \<noteq> bn" if "j < N_BUFFER" "j \<noteq> i" for j
    using buf_ok_distinct(1)[OF bc_okD(1)[OF bc] ii that] n by simp
  have "i \<notin> set (R True)" using i r by (auto simp: rings_def)
  then have fa: "List.find (\<lambda>j. block_num (the_buf s j) = bn) (R True) = None"
    using uniq rings_range[OF r, of _ True] by (intro find_None_all) blast
  have fi: "List.find (\<lambda>j. block_num (the_buf s j) = bn) (R False) = Some i"
  proof (cases "List.find (\<lambda>j. block_num (the_buf s j) = bn) (R False)")
    case None
    then show ?thesis using i n by (auto simp: find_None_iff)
  next
    case (Some j)
    from find_Some_iff[OF Some] show ?thesis using uniq[of j] rings_range[OF r, of j False] Some by auto
  qed
  define s2 where "s2 = upd_buf i (\<lambda>b. b\<lparr>ref := 1\<rparr>) s"
  have dd: "data (the_buf s i) \<noteq> 0" "block_num (the_buf s i) < 0x20000000" 
    using buf_ok_used[OF bc_okD(1)[OF bc] ii] n by simp_all
  have "i \<notin> D" using bc_okD(10)[OF bc] \<open>i \<notin> set (R True)\<close> by blast
  then have cl: "clean s i" using bc_ok_clean[OF bc ii] n by simp
  have "\<exists>bs. insert_node (BNode i) True True (entered LkBufCache s2) = Inr (entered LkBufCache (s2\<lparr>bufs := bs\<rparr>)) \<and>
    spinlock_release LkBufCache (entered LkBufCache (s2\<lparr>bufs := bs\<rparr>)) = Inr (stale_origin (s2\<lparr>bufs := bs\<rparr>)) \<and>
    sleeplock_acquire (LkBufSlk i) (stale_origin (s2\<lparr>bufs := bs\<rparr>)) = Inr (held i p bs s2) \<and>
    bc_ok (held i p bs s2) (moved i True R) F D \<and> (\<forall>q. buf (bs q) = buf (bufs s2 q))"
  proof (rule activated_bc[OF bc k i])
    show "pmem_ok s2 F" using bc_okD(3)[OF bc] by (simp add: s2_def)
    show "in_region (pool False s2) (data (the_buf s2 i))" "data (the_buf s2 i) \<notin> set (F False)"
      using bc_okD(4)[OF bc] ii dd by (simp_all add: s2_def pages_ok_def)
    show "data (the_buf s j) \<noteq> data (the_buf s2 i)" if "j < N_BUFFER" "j \<noteq> i" for j
    proof -
      have "data (the_buf s j) \<noteq> data (the_buf s i)"
        using buf_ok_distinct(2)[OF bc_okD(1)[OF bc] ii that dd(1)] .
      then show ?thesis by (simp add: s2_def)
    qed
    show "clean s2 i" using cl by (simp add: clean_def s2_def)
    show "clean s2 j" if "j \<noteq> i" "clean s j" for j using that by (simp add: clean_def s2_def)
    show "block_num (the_buf s j) \<noteq> block_num (the_buf s2 i)" if "j < N_BUFFER" "j \<noteq> i" for j
      using uniq[OF that] n by (simp add: s2_def)
  qed (use r dd n bc_okD(8,9,11)[OF bc] in \<open>simp_all add: s2_def subset_insertI\<close>)
  then obtain bs where
    e: "insert_node (BNode i) True True (entered LkBufCache s2) = Inr (entered LkBufCache (s2\<lparr>bufs := bs\<rparr>))"
    "spinlock_release LkBufCache (entered LkBufCache (s2\<lparr>bufs := bs\<rparr>)) = Inr (stale_origin (s2\<lparr>bufs := bs\<rparr>))"
    "sleeplock_acquire (LkBufSlk i) (stale_origin (s2\<lparr>bufs := bs\<rparr>)) = Inr (held i p bs s2)"
    "bc_ok (held i p bs s2) (moved i True R) F D" "\<forall>q. buf (bs q) = buf (bufs s2 q)" by blast
  have "upd_buf i (\<lambda>b. b\<lparr>ref := 1\<rparr>) (entered LkBufCache s) = entered LkBufCache s2" by (simp add: s2_def)
  then have "buffer_get bn s = Inr (i, held i p bs s2)"
    using e(1,2,3) kctxD(1)[OF k] bc_okD(6)[OF bc] entered_find[OF r, of bn] fa fi
    by (simp add: buffer_get_def del: release_outer)
  moreover have "calm s (held i p bs s2)" using calm_trans[OF calm_upd_buf held_calm] by (simp add: s2_def)
  moreover have "kept i s (held i p bs s2)" using e(5) by (simp add: kept_def s2_def)
  ultimately show ?thesis using e(4,5) n by (simp add: s2_def)
qed

text \<open>
  A miss takes the first node of the inactive list, gives it a page if it has none, and reads the block.
\<close>

definition paged :: "'a disk_state_scheme \<Rightarrow> (bool \<Rightarrow> u64 list) \<Rightarrow> nat \<Rightarrow> 'a disk_state_scheme \<Rightarrow> (bool \<Rightarrow> u64 list) \<Rightarrow> bool" where
  "paged s F i t F' \<longleftrightarrow> calm s t \<and> kern_pagetable t = kern_pagetable s \<and> buf0_at t = buf0_at s \<and> slocks t = slocks s \<and> vq_ok t = vq_ok s \<and> dev_ok t = dev_ok s \<and>
     disk_state.more t = disk_state.more s \<and> disk_image t = disk_image s \<and> nx (bufs t) = nx (bufs s) \<and> pv (bufs t) = pv (bufs s) \<and>
     (\<forall>j. j \<noteq> i \<longrightarrow> the_buf t j = the_buf s j) \<and> pmem_ok t F' \<and> set (F' False) \<subseteq> set (F False) \<and>
     (\<forall>q. in_region (pool False t) q = in_region (pool False s) q) \<and>
     data (the_buf t i) \<noteq> 0 \<and> in_region (pool False t) (data (the_buf t i)) \<and>
     data (the_buf t i) \<notin> set (F' False) \<and>
     (if data (the_buf s i) = 0
      then F' = F(False := tl (F False)) \<and> data (the_buf t i) = hd (F False) \<and> F False \<noteq> []
      else F' = F \<and> data (the_buf t i) = data (the_buf s i)) \<and>
     (\<forall>x. pg x \<noteq> pg (data (the_buf t i)) \<longrightarrow> mem t x = mem s x)"

lemma get_page_ok:
  fixes bn :: u32
  assumes bc: "bc_ok s R F D" and i: "i < N_BUFFER" and mem: "data (the_buf s i) \<noteq> 0 \<or> F False \<noteq> []"
  defines "s1 \<equiv> upd_buf i (\<lambda>b. b\<lparr>block_num := bn, ref := 1\<rparr>) s"
  shows "\<exists>s2 F2. (if data (the_buf (entered LkBufCache s1) i) = 0 then
        bnd (pmem_alloc False (entered LkBufCache s1)) (\<lambda>(pa, s).
          let s = upd_buf i (\<lambda>b. b\<lparr>data := pa\<rparr>) s
          in kassert (data (the_buf s i) \<noteq> 0) ''buffer_get: pmem alloc failed'' s)
      else Inr (entered LkBufCache s1)) = Inr (entered LkBufCache s2) \<and>
    paged s F i s2 F2 \<and> ref (the_buf s2 i) = 1 \<and> block_num (the_buf s2 i) = bn"
proof (cases "data (the_buf s i) = 0")
  case False
  have "paged s F i s1 F"
    using False bc_okD(3,4)[OF bc] i unfolding paged_def s1_def pages_ok_def by simp
  then show ?thesis using False by (intro exI[of _ s1] exI[of _ F]) (simp add: s1_def)
next
  case True
  then obtain q ps where F: "F False = q # ps" using mem by (cases "F False") auto
  note q = pmem_okD(4,5)[OF bc_okD(3)[OF bc], of q False] and dis = pmem_okD(6)[OF bc_okD(3)[OF bc], of False]
  have ok1: "pmem_ok s1 F" using bc_okD(3)[OF bc] by (simp add: s1_def)
  define s2 where "s2 = upd_buf i (\<lambda>b. b\<lparr>data := q\<rparr>) ((popped False s1)\<lparr>mem := memset (mem s1) q 0 PGSIZE\<rparr>)"
  have al: "pmem_alloc False (entered LkBufCache s1) =
      Inr (q, entered LkBufCache ((popped False s1)\<lparr>mem := memset (mem s1) q 0 PGSIZE\<rparr>))"
    by (rule pmem_alloc_entered[where F = F]) (use ok1 F in auto)
  have qr: "q \<noteq> 0" "in_region (pool False s) q" using q F by (auto simp: in_region_def)
  have b: "bufs ((popped False s1)\<lparr>mem := m\<rparr>) = bufs s1" "slocks ((popped False s1)\<lparr>mem := m\<rparr>) = slocks s1"
    "vq_ok ((popped False s1)\<lparr>mem := m\<rparr>) = vq_ok s1" "dev_ok ((popped False s1)\<lparr>mem := m\<rparr>) = dev_ok s1"
    "disk_image ((popped False s1)\<lparr>mem := m\<rparr>) = disk_image s1" for m
    by (simp_all add: popped_def set_pool_def vq_ok_def dev_ok_def)
  have c: "calm s1 ((popped False s1)\<lparr>mem := m\<rparr>)" for m
    by (rule calm_frame) (simp_all add: popped_def set_pool_def)
  have "calm s s2" unfolding s2_def s1_def
    by (rule calm_trans[OF calm_upd_buf calm_trans[OF c[unfolded s1_def] calm_upd_buf]])
  moreover have "pmem_ok s2 (F(False := ps))"
    using pmem_alloc_ok[OF ok1 F, unfolded stale_mem_update] by (simp add: s2_def)
  ultimately have "paged s F i s2 (F(False := ps))"
    using True F qr dis q(1) unfolding paged_def s2_def by (simp add: b, simp add: s1_def memset_page subset_insertI)
  then show ?thesis using True al qr(1)
    by (intro exI[of _ s2] exI[of _ "F(False := ps)"]) (simp add: s2_def s1_def b kassert_def)
qed

lemma pg_outside: "page_aligned d \<Longrightarrow> unat (x - a) < 4096 \<Longrightarrow> page_aligned a \<Longrightarrow> pg a \<noteq> pg d \<Longrightarrow> pg x \<noteq> pg d"
  using page_of_data[of a x] by simp

lemma buffer_get_steps:
  assumes "spinlock_acquire LkBufCache s = Inr u"
    and "find_buf (Suc N_BUFFER) BActive bn (bn_next (bufs u BActive)) (bufs u) = Inr None"
    and "find_buf (Suc N_BUFFER) BInactive bn (bn_next (bufs u BInactive)) (bufs u) = Inr None"
    and "bn_next (bufs u BInactive) = Some (BNode i)"
    and "upd_buf i (\<lambda>b. b\<lparr>block_num := bn, ref := 1\<rparr>) u = v"
    and "(if data (the_buf v i) = 0 then
        bnd (pmem_alloc False v) (\<lambda>(pa, s).
          let s = upd_buf i (\<lambda>b. b\<lparr>data := pa\<rparr>) s
          in kassert (data (the_buf s i) \<noteq> 0) ''buffer_get: pmem alloc failed'' s)
      else Inr v) = Inr w"
    and "insert_node (BNode i) True True w = Inr x" and "spinlock_release LkBufCache x = Inr y"
    and "sleeplock_acquire (LkBufSlk i) y = Inr z" and "buffer_read i z = Inr t"
  shows "buffer_get bn s = Inr (i, t)"
  using assms unfolding buffer_get_def Let_def by (simp del: upd_buf_links split del: if_split cong: if_cong)

lemma buffer_get_miss:
  assumes bc: "bc_ok s R F D" and k: "kctx s p" and R: "R False = i # rest" and n: "bn < 0x20000000"
    and new: "\<And>j. j < N_BUFFER \<Longrightarrow> block_num (the_buf s j) \<noteq> bn"
    and mem: "data (the_buf s i) \<noteq> 0 \<or> F False \<noteq> []"
  shows "\<exists>t F'. buffer_get bn s = Inr (i, t) \<and> bc_ok t (moved i True R) F' D \<and> calm s t \<and>
    disk_image t = disk_image s \<and> block_num (the_buf t i) = bn \<and>
    F' = (if data (the_buf s i) = 0 then F(False := tl (F False)) else F) \<and>
    data (the_buf t i) = (if data (the_buf s i) = 0 then hd (F False) else data (the_buf s i)) \<and>
    (\<forall>x. pg x \<noteq> pg (data (the_buf t i)) \<longrightarrow> mem t x = mem s x) \<and> kept i s t"
proof -
  note r = bc_okD(2)[OF bc]
  have iR: "i \<in> set (R False)" using R by simp
  note ii = rings_range[OF r iR]
  have fn: "List.find (\<lambda>j. block_num (the_buf s j) = bn) (R k) = None" for k
    using new rings_range[OF r, of _ k] by (intro find_None_all) blast
  define s1 where "s1 = upd_buf i (\<lambda>b. b\<lparr>block_num := bn, ref := 1\<rparr>) s"
  from get_page_ok[OF bc ii mem, of bn, folded s1_def] obtain s2 F2 where
    pre: "(if data (the_buf (entered LkBufCache s1) i) = 0 then
        bnd (pmem_alloc False (entered LkBufCache s1)) (\<lambda>(pa, s).
          let s = upd_buf i (\<lambda>b. b\<lparr>data := pa\<rparr>) s
          in kassert (data (the_buf s i) \<noteq> 0) ''buffer_get: pmem alloc failed'' s)
      else Inr (entered LkBufCache s1)) = Inr (entered LkBufCache s2)"
    and pa: "paged s F i s2 F2" and f: "ref (the_buf s2 i) = 1" "block_num (the_buf s2 i) = bn" by blast
  note pd = pa[unfolded paged_def]
  define d where "d = data (the_buf s2 i)"
  have al: "page_aligned d" using pd by (simp add: d_def in_region_def)
  have dj: "data (the_buf s j) \<noteq> d" if j: "j < N_BUFFER" "j \<noteq> i" for j
  proof (cases "data (the_buf s i) = 0")
    case True
    then have "d \<in> set (F False)" using pd by (simp add: d_def)
    then show ?thesis using data_page(2)[OF bc j(1), of False] pd by (auto simp: d_def)
  next
    case False
    then show ?thesis using buf_ok_distinct(2)[OF bc_okD(1)[OF bc] ii j False] pd by (simp add: d_def)
  qed
  have same: "clean s2 j" if j: "j < N_BUFFER" "j \<noteq> i" "block_num (the_buf s j) \<noteq> BLOCK_NUM_UNUSED" "clean s j" for j
  proof -
    have bj: "the_buf s2 j = the_buf s j" using pd j(2) by simp
    have dn: "data (the_buf s j) \<noteq> 0" using buf_ok_used[OF bc_okD(1)[OF bc] j(1,3)] by simp
    have "pg (data (the_buf s j)) \<noteq> pg d"
      using dj[OF j(1,2)] pg_eq_aligned[OF data_page(1)[OF bc j(1) dn] al] by simp
    then have "mem s2 x = mem s x" if "unat (x - data (the_buf s j)) < 4096" for x
      using pg_outside[OF al that data_page(1)[OF bc j(1) dn]] pd by (simp add: d_def)
    then show ?thesis using j(4) bj pd by (simp add: clean_def)
  qed
  have "mem s2 x = mem s x" if u: "u \<in> ktabs s" "pg x = pg u" for u x
  proof -
    have "in_region (pool False s) d" using pd unfolding d_def by blast
    from ktab_page[OF bc_okD(11)[OF bc] u(1) this] show ?thesis using u(2) pd by (simp add: d_def)
  qed
  then have ks: "kpt_ok s2" "ktabs s2 = ktabs s" using kpt_step[OF bc_okD(11)[OF bc], of s2] pd by simp_all
  have iT: "i \<notin> D" using bc_okD(2,10)[OF bc] iR by (auto simp: rings_def)
  have r2: "rings (bufs s2) R" using r pd by (simp add: rings_def)
  have "\<exists>bs. insert_node (BNode i) True True (entered LkBufCache s2) = Inr (entered LkBufCache (s2\<lparr>bufs := bs\<rparr>)) \<and>
    spinlock_release LkBufCache (entered LkBufCache (s2\<lparr>bufs := bs\<rparr>)) = Inr (stale_origin (s2\<lparr>bufs := bs\<rparr>)) \<and>
    sleeplock_acquire (LkBufSlk i) (stale_origin (s2\<lparr>bufs := bs\<rparr>)) = Inr (held i p bs s2) \<and>
    bc_ok (held i p bs s2) (moved i True R) F2 (insert i D) \<and> (\<forall>q. buf (bs q) = buf (bufs s2 q))"
  proof (rule activated_bc[OF bc k iR r2])
    show "block_num (the_buf s j) \<noteq> block_num (the_buf s2 i)" "data (the_buf s j) \<noteq> data (the_buf s2 i)"
      if "j < N_BUFFER" "j \<noteq> i" for j
      using that new dj f by (simp_all add: d_def)
    show "clean s2 j" if "j < N_BUFFER" "j \<noteq> i" "block_num (the_buf s j) \<noteq> BLOCK_NUM_UNUSED" "clean s j" for j
      using same[OF that] .
    show "in_region (pool False s2) (data (the_buf s2 i))" using pd by blast
  qed (use pd f n ks bc_okD(8,9)[OF bc] in \<open>simp_all add: subset_insertI\<close>)
  then obtain bs where
    e: "insert_node (BNode i) True True (entered LkBufCache s2) = Inr (entered LkBufCache (s2\<lparr>bufs := bs\<rparr>))"
    "spinlock_release LkBufCache (entered LkBufCache (s2\<lparr>bufs := bs\<rparr>)) = Inr (stale_origin (s2\<lparr>bufs := bs\<rparr>))"
    "sleeplock_acquire (LkBufSlk i) (stale_origin (s2\<lparr>bufs := bs\<rparr>)) = Inr (held i p bs s2)"
    and h: "bc_ok (held i p bs s2) (moved i True R) F2 (insert i D)" "\<forall>q. buf (bs q) = buf (bufs s2 q)" by blast
  have ch: "calm s (held i p bs s2)" using pd held_calm calm_trans by blast
  have kh: "kctx (held i p bs s2) p" using calm_kctx[OF ch k] by simp
  have "i \<in> set (moved i True R True)" by (simp add: moved_def)
  from buffer_read_ok[OF h(1) kh this] obtain t where
    t: "buffer_read i (held i p bs s2) = Inr t" "bc_ok t (moved i True R) F2 (insert i D - {i})"
      "calm (held i p bs s2) t" "rest_same (held i p bs s2) t" "disk_image t = disk_image (held i p bs s2)"
      "same_view bs (bufs t)" "ktabs t = ktabs s2"
      "mem t = blk_read (block_off (block_num (buf (bs (BNode i))))) (data (buf (bs (BNode i))))
         (disk_image s2) (mem s2)" by auto
  have first: "bn_next (bufs s BInactive) = Some (BNode i)" using ring_first[OF r, of False] R by simp
  have "buffer_get bn s = Inr (i, t)"
    by (rule buffer_get_steps[OF acquire_free[OF bc_okD(6)[OF bc]] _ _ _ _ pre e t(1)])
       (use entered_find[OF r, of bn] fn first in \<open>simp_all add: s1_def\<close>)
  moreover have "calm s t" using calm_trans[OF ch t(3)] .
  moreover have "insert i D - {i} = D" using iT by auto
  moreover have "mem t x = mem s x" if "pg x \<noteq> pg (data (the_buf t i))" for x
  proof -
    have "data (the_buf t i) = d" using t(6) h(2) by (simp add: same_view_def d_def)
    then show ?thesis using that pd h(2) page_of_data[OF al, of x] by (simp add: t(8) blk_read_def d_def)
  qed
  moreover have "F2 = (if data (the_buf s i) = 0 then F(False := tl (F False)) else F)"
    using pd by (auto split: if_splits)
  moreover have "data (the_buf t i) = (if data (the_buf s i) = 0 then hd (F False) else data (the_buf s i))"
    using t(6) h(2) pd by (simp add: same_view_def split: if_splits)
  moreover have "kept i s t"
  proof (rule kept_trans)
    show "kept i s (held i p bs s2)" using pd h(2) ks by (simp add: kept_def)
    show "kept i (held i p bs s2) t" by (rule same_view_kept[OF _ t(4)]) (simp_all add: t(6,7))
  qed
  ultimately show ?thesis using t(2,5,6) h(2) pd f by (auto simp: same_view_def)
qed

section \<open>Giving a block back\<close>

definition dropped :: "nat \<Rightarrow> (bptr \<Rightarrow> buffer_node) \<Rightarrow> 'a disk_state_scheme \<Rightarrow> 'a disk_state_scheme" where
  "dropped i bs s = stale_origin (wake_state (Some (ChSlk (LkBufSlk i))) N_PROC
     (set_slock (LkBufSlk i) \<lparr>slk_locked = False, slk_pid = 0\<rparr> (stale_origin (s\<lparr>bufs := bs\<rparr>))))"

lemma wake_pools [simp]: "pool k (wake_state ch n s) = pool k s" "kernel_pool (wake_state ch n s) = kernel_pool s"
    "user_pool (wake_state ch n s) = user_pool s"
  by (simp_all add: wake_state_def pool_def)

lemma set_slock_pools [simp]: "pool k (set_slock l v s) = pool k s" "mem (set_slock l v s) = mem s"
    "kernel_pool (set_slock l v s) = kernel_pool s" "user_pool (set_slock l v s) = user_pool s"
    "dk (set_slock l v s) = dk s"
  by (simp_all add: set_slock_def pool_def)

lemma bufs_pools [simp]: "pool k (s\<lparr>bufs := b\<rparr>) = pool k s"
  by (simp add: pool_def)

lemma dropped_frame [simp]:
  "bufs (dropped i bs s) = bs" "mem (dropped i bs s) = mem s" "disk_image (dropped i bs s) = disk_image s"
  "slocks (dropped i bs s) l = (if l = LkBufSlk i then \<lparr>slk_locked = False, slk_pid = 0\<rparr> else slocks s l)"
  "free_lock l (dropped i bs s) = free_lock l s"
  "pool k (dropped i bs s) = pool k s" "vq_ok (dropped i bs s) = vq_ok s" "dev_ok (dropped i bs s) = dev_ok s"
  "cpu_ok (dropped i bs s) = cpu_ok s" "kpt_ok (dropped i bs s) = kpt_ok s" "ktabs (dropped i bs s) = ktabs s"
proof -
  have "dk (dropped i bs s) = dk (s\<lparr>bufs := bs\<rparr>)" by (simp add: dropped_def)
  note d = dk_eqD[OF this] vq_ok_eq[OF this]
  show "bufs (dropped i bs s) = bs" "disk_image (dropped i bs s) = disk_image s" "vq_ok (dropped i bs s) = vq_ok s"
    "dev_ok (dropped i bs s) = dev_ok s" using d by simp_all
  have m: "kern_pagetable (dropped i bs s) = kern_pagetable s" "mem (dropped i bs s) = mem s" "pool False (dropped i bs s) = pool False s"
    by (simp_all add: dropped_def)
  show "kpt_ok (dropped i bs s) = kpt_ok s" "ktabs (dropped i bs s) = ktabs s"
    by (rule kpt_same; use d m in simp)+
qed (simp_all add: dropped_def)

lemma dropped_calm: "calm s (dropped i bs s)"
proof -
  have "calm s (set_slock (LkBufSlk i) k (s\<lparr>bufs := bs\<rparr>))" for k
    by (rule calm_frame) (simp_all add: set_slock_def)
  then show ?thesis unfolding dropped_def stale_set_slock
    by (intro calm_trans[OF _ calm_stale] calm_trans[OF _ calm_wake])
qed

lemma dropped_pmem [simp]: "pmem_ok (dropped i bs s) F = pmem_ok s F"
proof -
  have "kernel_pool (dropped i bs s) = kernel_pool s" "user_pool (dropped i bs s) = user_pool s"
    by (simp_all add: dropped_def)
  then show ?thesis by (simp add: pmem_ok_def pool_ok_def)
qed

lemma buffer_put_ok:
  assumes bc: "bc_ok s R F D" and k: "kctx s p" and i: "i \<in> set (R True)" and D: "i \<notin> D"
  shows "\<exists>t. buffer_put i s = Inr t \<and> bc_ok t (moved i False R) F D \<and> calm s t \<and> mem t = mem s \<and>
    disk_image t = disk_image s \<and> block_num (the_buf t i) = block_num (the_buf s i) \<and>
    data (the_buf t i) = data (the_buf s i) \<and> kept i s t"
proof -
  note r = bc_okD(2)[OF bc] and a = active_props[OF bc i]
  define s1 where "s1 = upd_buf i (\<lambda>b. b\<lparr>ref := ref b - 1\<rparr>) s"
  have "rings (bufs (entered LkBufCache s1)) R" using r by (simp add: s1_def)
  from insert_node_ok[OF this a(1), of False] obtain bs where
    b: "insert_node (BNode i) False True (entered LkBufCache s1) = Inr (entered LkBufCache (s1\<lparr>bufs := bs\<rparr>))"
    "rings bs (moved i False R)" "\<forall>q. buf (bs q) = buf (bufs s1 q)" by auto
  have bv: "buf (bs (BNode j)) = (if j = i then (the_buf s i)\<lparr>ref := 0\<rparr> else the_buf s j)" for j
    using b(3) a(5) by (simp add: s1_def)
  have fl: "free_lock (LkBufSlk i) s" using bc_okD(5)[OF bc] a(1) by (simp add: slk_ok_def)
  define t where "t = dropped i bs s1"
  have rel: "sleeplock_release (LkBufSlk i) (stale_origin (s1\<lparr>bufs := bs\<rparr>)) = Inr t"
    unfolding t_def dropped_def
    by (rule sleeplock_release_eq) (use kctxD(2)[OF k] fl in \<open>auto simp: s1_def\<close>)
  have eq: "buffer_put i s = Inr t"
    using rel b(1) kctxD(1)[OF k] bc_okD(6)[OF bc] a(5) by (simp add: buffer_put_def s1_def)
  have other: "set (moved i False R True) = set (R True) - {i}" by (auto simp: moved_def)
  have dt: "the_buf t j = (if j = i then (the_buf s i)\<lparr>ref := 0\<rparr> else the_buf s j)" for j
    using bv by (simp add: t_def)
  have dd: "data (the_buf t j) = data (the_buf s j)" "block_num (the_buf t j) = block_num (the_buf s j)" for j
    by (simp_all add: dt)
  have "buf_ok (bufs t) (moved i False R)"
    using bc_okD(1)[OF bc] b(2) unfolding buf_ok_def other dd by (simp add: dt t_def[symmetric]) (simp add: t_def)
  moreover have "slk_ok t (moved i False R)" using bc_okD(5)[OF bc] unfolding slk_ok_def other
    by (auto simp: t_def s1_def)
  moreover have "D \<subseteq> set (moved i False R True)" using bc_okD(10)[OF bc] D unfolding other by auto
  moreover have "pages_ok t F" using bc_okD(4)[OF bc] unfolding pages_ok_def dd by (simp add: t_def s1_def)
  moreover have "clean t j = clean s j" for j unfolding clean_def dd by (simp add: t_def s1_def)
  ultimately have "bc_ok t (moved i False R) F D"
    using bc_okD[OF bc] bc_ok_clean[OF bc] unfolding bc_ok_def dd by (simp add: t_def s1_def)
  moreover have "calm s t" unfolding t_def s1_def by (rule calm_trans[OF calm_upd_buf dropped_calm])
  moreover have "kept i s t" unfolding kept_def dd by (simp add: t_def s1_def) (simp add: dropped_def)
  ultimately show ?thesis using eq dd by (simp add: t_def s1_def)
qed

section \<open>Giving pages back to the allocator\<close>

definition freed_buf :: "nat \<Rightarrow> 'a disk_state_scheme \<Rightarrow> 'a disk_state_scheme" where
  "freed_buf i s = upd_buf i (\<lambda>b. b\<lparr>data := 0, block_num := BLOCK_NUM_UNUSED\<rparr>) (push_page False (data (the_buf s i)) s)"

lemma push_page_disk [simp]:
  "bufs (push_page k q s) = bufs s" "slocks (push_page k q s) = slocks s" "disk_image (push_page k q s) = disk_image s"
  "vq_ok (push_page k q s) = vq_ok s" "dev_ok (push_page k q s) = dev_ok s"
  by (simp_all add: push_page_def Let_def vq_ok_def dev_ok_def set_pool_def)

lemma push_page_kpt [simp]:
  "kern_pagetable (push_page k q s) = kern_pagetable s" "buf0_at (push_page k q s) = buf0_at s"
  by (simp_all add: push_page_def Let_def set_pool_def)

lemma calm_push_page: "calm s (push_page k q s)"
  by (rule calm_frame) (simp_all add: push_page_def Let_def set_pool_def)

lemma free_lock_push [simp]: "free_lock l (push_page k q s) = free_lock l s"
  by (simp add: push_page_def Let_def)

lemma in_region_push [simp]: "in_region (pool j (push_page k q s)) p = in_region (pool j s) p"
  by (simp add: in_region_def)

lemma pmem_free_entered:
  assumes ok: "pmem_ok s F" and l: "\<And>k. l \<noteq> LkPmem k" and reg: "in_region (pool k s) q"
  shows "pmem_free q k (entered l s) = Inr (entered l (push_page k q s))"
proof -
  have e: "push_page k q (entered l s) = entered l (push_page k q s)" by (simp add: push_page_def Let_def)
  have "cpu_ok (push_page k q s)" using pmem_okD(1)[OF ok] by (simp add: push_page_def Let_def)
  then show ?thesis using pmem_free_eq[OF pmem_ok_entered[OF ok l], of k q] reg by (simp add: e)
qed

lemma freed_buf_ok:
  assumes bc: "bc_ok s R F D" and i: "i \<in> set (R False)" and d: "data (the_buf s i) \<noteq> 0"
  shows "bc_ok (freed_buf i s) R (F(False := data (the_buf s i) # F False)) D" "calm s (freed_buf i s)"
    "disk_image (freed_buf i s) = disk_image s"
    "the_buf (freed_buf i s) j = (if j = i then (the_buf s i)\<lparr>data := 0, block_num := BLOCK_NUM_UNUSED\<rparr> else the_buf s j)"
    "nx (bufs (freed_buf i s)) = nx (bufs s)"
proof -
  note r = bc_okD(2)[OF bc] and ii = rings_range[OF bc_okD(2)[OF bc] i]
  note dp = data_page[OF bc ii d]
  let ?t = "freed_buf i s" and ?q = "data (the_buf s i)"
  have reg: "in_region (pool False s) ?q" using bc_okD(4)[OF bc] ii d by (simp add: pages_ok_def)
  have inact: "i \<notin> set (R True)" using i r by (auto simp: rings_def)
  show b: "the_buf ?t j = (if j = i then (the_buf s i)\<lparr>data := 0, block_num := BLOCK_NUM_UNUSED\<rparr> else the_buf s j)" for j
    by (simp add: freed_buf_def)
  show nxs: "nx (bufs ?t) = nx (bufs s)" by (simp add: freed_buf_def)
  show c: "calm s ?t" unfolding freed_buf_def by (rule calm_trans[OF calm_push_page calm_upd_buf])
  show im: "disk_image ?t = disk_image s" by (simp add: freed_buf_def)
  have "pmem_ok ?t (F(False := ?q # F False))"
    using pmem_free_ok[OF bc_okD(3)[OF bc] reg dp(2) dp(2)] by (simp add: freed_buf_def)
  moreover have "rings (bufs ?t) R" using r by (simp add: freed_buf_def)
  then have "buf_ok (bufs ?t) R" using bc_okD(1)[OF bc] inact ii unfolding buf_ok_def b
    by (intro conjI allI impI) (auto split: if_splits)
  moreover have "pages_ok ?t (F(False := ?q # F False))"
    using bc_okD(4)[OF bc] buf_ok_distinct(2)[OF bc_okD(1)[OF bc] ii _ _ d] unfolding pages_ok_def b
    by (auto simp: freed_buf_def)
  moreover have "slk_ok ?t R" using bc_okD(5)[OF bc] calm_ctx(2)[OF c] unfolding slk_ok_def
    by (simp add: freed_buf_def)
  moreover have "clean ?t j" if j: "j < N_BUFFER" "block_num (the_buf ?t j) \<noteq> BLOCK_NUM_UNUSED" "j \<notin> D" for j
  proof -
    have ji: "j \<noteq> i" using j(2) b by auto
    then have jn: "block_num (the_buf s j) \<noteq> BLOCK_NUM_UNUSED" using j(2) b by simp
    note cj = bc_ok_clean[OF bc j(1) jn j(3)]
    have dj: "data (the_buf s j) \<noteq> 0" using buf_ok_used[OF bc_okD(1)[OF bc] j(1) jn] by simp
    have "pg ?q \<noteq> pg (data (the_buf s j))" using data_inj[OF bc ii j(1) ji[symmetric] d dj] .
    then have "mem ?t x = mem s x" if "unat (x - data (the_buf s j)) < 4096" for x
      using that push_page_mem[OF dp(1), of x False s] page_of_data[OF data_page(1)[OF bc j(1) dj], of x]
      by (simp add: freed_buf_def)
    then show ?thesis using cj ji im by (simp add: clean_def b)
  qed
  moreover have "kpt_ok ?t"
  proof (rule kpt_step(1)[OF bc_okD(11)[OF bc]])
    show "mem ?t x = mem s x" if "u \<in> ktabs s" "pg x = pg u" for u x
      using push_page_mem[OF dp(1), of x False s] ktab_page[OF bc_okD(11)[OF bc] that(1) reg] that(2) by (simp add: freed_buf_def)
  qed (simp_all add: freed_buf_def)
  ultimately show "bc_ok ?t R (F(False := ?q # F False)) D"
    using bc_okD[OF bc] calm_ctx(2)[OF c] unfolding bc_ok_def by (simp add: freed_buf_def)
qed

text \<open>The buffers a pass over \<open>xs\<close> frees when \<open>m\<close> more are wanted: the first \<open>m\<close> that have a page.\<close>

definition reclaim :: "nat \<Rightarrow> nat list \<Rightarrow> 'a disk_state_scheme \<Rightarrow> nat list" where
  "reclaim m xs s = take m (filter (\<lambda>i. data (the_buf s i) \<noteq> 0) xs)"

lemma fwd_seg: "seg (nx bs) (pv bs) a (map BNode (i # xs)) h \<Longrightarrow> bn_next (bs (BNode i)) = Some (hd (map BNode xs @ [h]))"
  using seg_first[of "nx bs" "pv bs" "BNode i"] by (simp add: nx_def)

fun chain :: "(bptr \<Rightarrow> bptr option) \<Rightarrow> bptr option \<Rightarrow> nat list \<Rightarrow> bool" where
  "chain f p [] \<longleftrightarrow> p = Some BInactive"
| "chain f p (i # xs) \<longleftrightarrow> p = Some (BNode i) \<and> chain f (f (BNode i)) xs"

lemma seg_chain: "seg (nx bs) (pv bs) a (map BNode xs) BInactive \<Longrightarrow> chain (nx bs) (nx bs a) xs"
  by (induction xs arbitrary: a) auto

lemma freemem_loop_ok:
  assumes "bc_ok s R F D" and "chain (nx (bufs s)) p xs" and "set xs \<subseteq> set (R False)" and "distinct xs"
    and "length xs < n" and "freed \<le> count" and "unat freed + length xs < 2 ^ 32"
  shows "\<exists>t F'. freemem_loop n count freed p (entered LkBufCache s) =
      Inr (freed + of_nat (length (reclaim (unat count - unat freed) xs s)), entered LkBufCache t) \<and>
    bc_ok t R F' D \<and> calm s t \<and> disk_image t = disk_image s \<and>
    F' = F(False := rev (map (\<lambda>i. data (the_buf s i)) (reclaim (unat count - unat freed) xs s)) @ F False) \<and>
    (\<forall>j. the_buf t j = (if j \<in> set (reclaim (unat count - unat freed) xs s)
       then (the_buf s j)\<lparr>data := 0, block_num := BLOCK_NUM_UNUSED\<rparr> else the_buf s j))"
  using assms
proof (induction xs arbitrary: n s F freed p)
  case Nil
  then obtain m where "n = Suc m" by (cases n) auto
  then show ?case using Nil.prems by (intro exI[of _ s] exI[of _ F]) (simp add: reclaim_def)
next
  case (Cons i xs)
  obtain m where n: "n = Suc m" using Cons.prems(5) by (cases n) auto
  have p: "p = Some (BNode i)" and ch: "chain (nx (bufs s)) (bn_next (bufs s (BNode i))) xs"
    using Cons.prems(2) by (auto simp: nx_def)
  note bc = Cons.prems(1)
  have iR: "i \<in> set (R False)" using Cons.prems(3) by simp
  consider (full) "freed = count" | (nopage) "freed < count" "data (the_buf s i) = 0" | (page) "freed < count" "data (the_buf s i) \<noteq> 0"
    using Cons.prems(6) by fastforce
  then show ?case
  proof cases
    case full
    then show ?thesis using bc p n by (intro exI[of _ s] exI[of _ F]) (simp add: reclaim_def)
  next
    case nopage
    from Cons.IH[OF bc ch _ _ _ Cons.prems(6), of m] Cons.prems(3,4,5,7) n nopage p
    show ?thesis by (simp add: reclaim_def)
  next
    case page
    let ?q = "data (the_buf s i)" and ?s = "freed_buf i s"
    note fb = freed_buf_ok[OF bc iR page(2)]
    have reg: "in_region (pool False s) ?q"
      using bc_okD(4)[OF bc] rings_range[OF bc_okD(2)[OF bc] iR] page(2) by (simp add: pages_ok_def)
    have fr: "pmem_free ?q False (entered LkBufCache s) = Inr (entered LkBufCache (push_page False ?q s))"
      by (rule pmem_free_entered[OF bc_okD(3)[OF bc] _ reg]) simp
    have uf: "unat (freed + 1) = Suc (unat freed)" using Cons.prems(7) by (simp add: unat_word_ariths)
    have le: "freed + 1 \<le> count" using page(1) uf by (simp add: word_le_nat_alt word_less_nat_alt)
    have lt: "unat freed < unat count" using page(1) by (simp add: word_less_nat_alt)
    have rc: "reclaim k xs ?s = reclaim k xs s" for k
      using Cons.prems(4) unfolding reclaim_def fb(4) by (intro arg_cong[where f = "take k"] filter_cong) auto
    have left: "unat count - unat freed = Suc (unat count - unat (freed + 1))" using lt uf by simp
    have sp: "reclaim (unat count - unat freed) (i # xs) s = i # reclaim (unat count - unat (freed + 1)) xs s"
      using page(2) unfolding reclaim_def by (simp add: left)
    have ni: "i \<notin> set (reclaim k xs s)" for k using Cons.prems(4) unfolding reclaim_def
      by (auto dest: in_set_takeD)
    have mp: "map (\<lambda>i. data (the_buf ?s i)) (reclaim k xs s) = map (\<lambda>i. data (the_buf s i)) (reclaim k xs s)" for k
      using ni unfolding fb(4) by auto
    have pr: "set xs \<subseteq> set (R False)" "distinct xs" "length xs < m" "unat (freed + 1) + length xs < 2 ^ 32"
      using Cons.prems(3,4,5,7) n uf by simp_all
    define K where "K = reclaim (unat count - unat (freed + 1)) xs s"
    note ih = Cons.IH[OF fb(1) ch[folded fb(5)] pr(1-3) le pr(4), unfolded rc, folded K_def, unfolded K_def[symmetric]]
    have mK: "map (\<lambda>i. data (the_buf ?s i)) K = map (\<lambda>i. data (the_buf s i)) K" unfolding K_def by (rule mp)
    from ih[unfolded mK fun_upd_same] obtain t F' where
      t: "freemem_loop m count (freed + 1) (bn_next (bufs s (BNode i))) (entered LkBufCache ?s) =
        Inr (freed + 1 + of_nat (length K), entered LkBufCache t)"
      "bc_ok t R F' D" "calm ?s t" "disk_image t = disk_image ?s"
      "F' = (F(False := ?q # F False))(False := rev (map (\<lambda>i. data (the_buf s i)) K) @ ?q # F False)"
      "\<forall>j. the_buf t j = (if j \<in> set K
       then (the_buf ?s j)\<lparr>data := 0, block_num := BLOCK_NUM_UNUSED\<rparr> else the_buf ?s j)"
      by blast
    have ub: "upd_buf i (\<lambda>b. b\<lparr>data := 0, block_num := BLOCK_NUM_UNUSED\<rparr>) (entered LkBufCache (push_page False ?q s))
        = entered LkBufCache ?s" by (simp add: freed_buf_def)
    have "freemem_loop n count freed p (entered LkBufCache s) =
        Inr (freed + of_nat (length (i # K)), entered LkBufCache t)"
      using t(1) fr p n page ub by (simp add: add.assoc)
    moreover have "i \<notin> set K" unfolding K_def by (rule ni)
    then have "\<forall>j. the_buf t j = (if j \<in> set (i # K)
        then (the_buf s j)\<lparr>data := 0, block_num := BLOCK_NUM_UNUSED\<rparr> else the_buf s j)"
      using t(6) unfolding fb(4) by simp
    moreover have "F' = F(False := rev (map (\<lambda>i. data (the_buf s i)) (i # K)) @ F False)" using t(5) by simp
    ultimately show ?thesis using t(2) calm_trans[OF fb(2) t(3)] t(4)[unfolded fb(3)] unfolding sp K_def[symmetric]
      by blast
  qed
qed

lemma buffer_freemem_ok:
  assumes bc: "bc_ok s R F D"
  shows "\<exists>t F'. buffer_freemem count s = Inr (of_nat (length (reclaim (unat count) (R False) s)), t) \<and>
    bc_ok t R F' D \<and> calm s t \<and> disk_image t = disk_image s \<and>
    F' = F(False := rev (map (\<lambda>i. data (the_buf s i)) (reclaim (unat count) (R False) s)) @ F False)"
proof -
  note r = bc_okD(2)[OF bc]
  have "seg (nx (bufs s)) (pv (bufs s)) (head False) (map BNode (R False)) (head False)"
    using r unfolding rings_def by blast
  then have ch: "chain (nx (bufs s)) (bn_next (bufs s BInactive)) (R False)"
    using seg_chain[of "bufs s" BInactive "R False"] by (simp add: nx_def)
  have len: "length (R False) < Suc N_BUFFER" by (rule rings_length[OF r])
  have "distinct (R False)" using r by (simp add: rings_def)
  from freemem_loop_ok[OF bc ch order_refl this len, of 0 count] len obtain t F' where
    t: "freemem_loop (Suc N_BUFFER) count 0 (bn_next (bufs s BInactive)) (entered LkBufCache s) =
      Inr (of_nat (length (reclaim (unat count) (R False) s)), entered LkBufCache t)"
    "bc_ok t R F' D" "calm s t" "disk_image t = disk_image s"
    "F' = F(False := rev (map (\<lambda>i. data (the_buf s i)) (reclaim (unat count) (R False) s)) @ F False)"
    by auto
  have c: "cpu_ok t" "free_lock LkBufCache t"
    using bc_okD(6)[OF t(2)] pmem_okD(1)[OF bc_okD(3)[OF t(2)]] by simp_all
  have "buffer_freemem count s = Inr (of_nat (length (reclaim (unat count) (R False) s)), stale_origin t)"
    using t(1) bc_okD(6)[OF bc] c by (simp add: buffer_freemem_def)
  moreover have "bc_ok (stale_origin t) R F' D"
  proof -
    have "same_view (bufs t) (bufs (stale_origin t))" by (simp add: same_view_def)
    moreover have "vq_ok (stale_origin t)" using bc_okD(8)[OF t(2)] vq_ok_eq(1)[of "stale_origin t" t] by simp
    ultimately show ?thesis using bc_ok_clean[OF t(2)] bc_okD(10)[OF t(2)]
      by (intro conjunct1[OF bc_ok_step[OF t(2) calm_stale rest_same_frame(2)]]) (simp_all add: clean_def)
  qed
  ultimately show ?thesis using t(3-5) calm_trans[OF t(3) calm_stale] by auto
qed

section \<open>A process that asks for a block it already holds waits for itself\<close>

lemma buffer_get_held:
  assumes bc: "bc_ok s R F D" and k: "kctx s p" and i: "i \<in> set (R True)"
  shows "buffer_get (block_num (the_buf s i)) s = Inl Sleep"
proof -
  note r = bc_okD(2)[OF bc] and a = active_props[OF bc i]
  define bn where "bn = block_num (the_buf s i)"
  obtain j where f: "List.find (\<lambda>j. block_num (the_buf s j) = bn) (R True) = Some j"
    using i by (cases "List.find (\<lambda>j. block_num (the_buf s j) = bn) (R True)") (auto simp: find_None_iff bn_def)
  have "j = i" using find_Some_iff[OF f] buf_ok_distinct(1)[OF bc_okD(1)[OF bc] a(1) _ _ a(2), of j]
      rings_range[OF r, of j True] by (auto simp: bn_def)
  have "free_lock (LkBufSlk i) s" "slk_locked (slocks s (LkBufSlk i))"
    using bc_okD(5)[OF bc] i a(1) by (simp_all add: slk_ok_def)
  then have "sleeplock_acquire (LkBufSlk i) (stale_origin (upd_buf i (\<lambda>b. b\<lparr>ref := ref b + 1\<rparr>) s)) = Inl Sleep"
    using kctxD(1,3,5)[OF k] by (intro sleeplock_acquire_taken[where p = p]) simp_all
  then show ?thesis
    using f \<open>j = i\<close> entered_find(1)[OF r, of bn] bc_okD(6)[OF bc] kctxD(1)[OF k] unfolding bn_def[symmetric]
    by (simp add: buffer_get_def)
qed

end
