(* ===== verification/BootDisk.thy ===== *)
theory BootDisk
  imports Boot CacheOps
begin

text \<open>
  \<open>buffer_init\<close> establishes the cache invariant; a machine state with an idle disk to start from.
\<close>

section \<open>Initialising the cache\<close>

text \<open>The loop invariant of \<open>buffer_init\<close>: nodes below \<open>n\<close> are linked, the others untouched.\<close>

definition init_upto :: "nat \<Rightarrow> 'a disk_state_scheme \<Rightarrow> 'a disk_state_scheme \<Rightarrow> bool" where
  "init_upto n s t \<longleftrightarrow>
     seg (nx (bufs t)) (pv (bufs t)) BInactive (map BNode (rev [0..<n])) BInactive \<and>
     seg (nx (bufs t)) (pv (bufs t)) BActive [] BActive \<and>
     (\<forall>i\<ge>n. bn_next (bufs t (BNode i)) = None \<and> bn_prev (bufs t (BNode i)) = None) \<and>
     (\<forall>i<n. data (the_buf t i) = 0 \<and> ref (the_buf t i) = 0 \<and> block_num (the_buf t i) = BLOCK_NUM_UNUSED \<and>
        free_lock (LkBufSlk i) t \<and> \<not> slk_locked (slocks t (LkBufSlk i))) \<and>
     hart t = hart s \<and> cpus t = cpus s \<and> (\<forall>l. (\<forall>i. l \<noteq> LkBufSlk i) \<longrightarrow> locks t l = locks s l \<and> slocks t l = slocks s l) \<and>
     mem t = mem s \<and> kernel_pool t = kernel_pool s \<and> user_pool t = user_pool s \<and>
     proc_pool t = proc_pool s \<and> kern_pagetable t = kern_pagetable s \<and> buf0_at t = buf0_at s \<and>
     vq_ok t = vq_ok s \<and> dev_ok t = dev_ok s \<and> disk_image t = disk_image s \<and>
     disk_state.more t = disk_state.more s"

definition init_node :: "nat \<Rightarrow> 'a disk_state_scheme \<Rightarrow> 'a disk_state_scheme res" where
  "init_node i s = insert_node (BNode i) False True
     (upd_buf i (\<lambda>b. b\<lparr>data := 0, ref := 0, block_num := BLOCK_NUM_UNUSED\<rparr>) (sleeplock_init (LkBufSlk i) s))"

lemma sleeplock_init_frame [simp]:
  "bufs (sleeplock_init l s) = bufs s" "mem (sleeplock_init l s) = mem s" "hart (sleeplock_init l s) = hart s"
  "cpus (sleeplock_init l s) = cpus s" "kernel_pool (sleeplock_init l s) = kernel_pool s"
  "user_pool (sleeplock_init l s) = user_pool s" "proc_pool (sleeplock_init l s) = proc_pool s"
  "vq_ok (sleeplock_init l s) = vq_ok s" "dev_ok (sleeplock_init l s) = dev_ok s"
  "disk_image (sleeplock_init l s) = disk_image s" "kern_pagetable (sleeplock_init l s) = kern_pagetable s"
  "buf0_at (sleeplock_init l s) = buf0_at s" "disk_state.more (sleeplock_init l s) = disk_state.more s"
  "locks (sleeplock_init l s) = (locks s)(l := \<lparr>locked = False, cpuid = -1\<rparr>)"
  "slocks (sleeplock_init l s) = (slocks s)(l := \<lparr>slk_locked = False, slk_pid = 0\<rparr>)"
  by (simp_all add: sleeplock_init_def set_slock_def spinlock_init_def set_lock_def vq_ok_def dev_ok_def)

lemma upd_buf_base [simp]:
  "hart (upd_buf i f s) = hart s" "cpus (upd_buf i f s) = cpus s" "locks (upd_buf i f s) = locks s"
  "kernel_pool (upd_buf i f s) = kernel_pool s" "user_pool (upd_buf i f s) = user_pool s"
  "proc_pool (upd_buf i f s) = proc_pool s" "disk_state.more (upd_buf i f s) = disk_state.more s"
  by (simp_all add: upd_buf_def)

lemma init_node_ok:
  assumes "init_upto n s t" and n: "n < N_BUFFER"
  shows "\<exists>u. init_node n t = Inr u \<and> init_upto (Suc n) s u"
proof -
  note iv = assms(1)[unfolded init_upto_def]
  define t1 where "t1 = upd_buf n (\<lambda>b. b\<lparr>data := 0, ref := 0, block_num := BLOCK_NUM_UNUSED\<rparr>) (sleeplock_init (LkBufSlk n) t)"
  let ?xs = "map BNode (rev [0..<n])"
  have links: "nx (bufs t1) = nx (bufs t)" "pv (bufs t1) = pv (bufs t)" by (simp_all add: t1_def)
  have b1: "the_buf t1 j = (if j = n then (the_buf t n)\<lparr>data := 0, ref := 0, block_num := BLOCK_NUM_UNUSED\<rparr> else the_buf t j)" for j
    by (simp add: t1_def)
  have "bn_next (bufs t1 (BNode n)) = None" "bn_prev (bufs t1 (BNode n)) = None"
    using iv links by (simp_all add: nx_def pv_def fun_eq_iff)
  then have un: "unlink_node (BNode n) (bufs t1) = bufs t1" by (simp add: unlink_node_def)
  have s1: "seg (nx (bufs t1)) (pv (bufs t1)) BInactive ?xs BInactive" using iv links by simp
  from link_node_ok[OF s1, of "BNode n"] obtain bs where
    l: "link_node (BNode n) BInactive True (bufs t1) = Inr bs"
    "nx bs = (nx (bufs t1))(BNode n := Some (hd (?xs @ [BInactive])), BInactive := Some (BNode n))"
    "pv bs = (pv (bufs t1))(hd (?xs @ [BInactive]) := Some (BNode n), BNode n := Some BInactive)"
    "\<forall>r. buf (bs r) = buf (bufs t1 r)" by auto
  define u where "u = t1\<lparr>bufs := bs\<rparr>"
  have hd: "hd (?xs @ [BInactive]) \<in> insert BInactive (BNode ` {..<n})" by (cases n) auto
  have "seg (nx bs) (pv bs) BInactive (BNode n # ?xs) BInactive" unfolding l(2,3)
    by (rule seg_insert[OF s1 _ _ _ refl]) (auto simp: distinct_map inj_on_def)
  moreover have "seg (nx bs) (pv bs) BActive [] BActive" using iv hd unfolding l(2,3) links by auto
  moreover have "bn_next (bs (BNode i)) = None \<and> bn_prev (bs (BNode i)) = None" if i: "Suc n \<le> i" for i
  proof -
    have "nx bs (BNode i) = nx (bufs t) (BNode i)" "pv bs (BNode i) = pv (bufs t) (BNode i)"
      using i hd unfolding l(2,3) links by auto
    then show ?thesis using iv i by (simp add: nx_def pv_def)
  qed
  moreover have "data (buf (bs (BNode i))) = 0 \<and> ref (buf (bs (BNode i))) = 0 \<and>
      block_num (buf (bs (BNode i))) = BLOCK_NUM_UNUSED \<and> free_lock (LkBufSlk i) u \<and>
      \<not> slk_locked (slocks u (LkBufSlk i))" if i: "i < Suc n" for i
    using iv i l(4) b1 by (cases "i = n") (auto simp: u_def t1_def free_lock_def less_Suc_eq)
  ultimately have "init_upto (Suc n) s u"
    using iv unfolding init_upto_def by (simp add: u_def t1_def)
  moreover have "init_node n t = Inr u"
    using un l(1) unfolding init_node_def t1_def[symmetric] by (simp add: insert_node_def u_def)
  ultimately show ?thesis by blast
qed

lemma init_nodes_ok:
  assumes "init_upto 0 s t" and "n \<le> N_BUFFER"
  shows "\<exists>u. for_each [0..<n] init_node t = Inr u \<and> init_upto n s u"
  using assms(2)
proof (induction n)
  case 0
  show ?case using assms(1) by simp
next
  case (Suc n)
  then obtain u where u: "for_each [0..<n] init_node t = Inr u" "init_upto n s u" by auto
  with init_node_ok[OF u(2)] Suc.prems show ?case by (auto simp: for_each_append)
qed

text \<open>All locks but those of the buffers are free.\<close>

definition rested :: "'a proc_state_scheme \<Rightarrow> bool" where
  "rested s \<longleftrightarrow> (\<forall>l. (\<forall>i. l \<noteq> LkBufSlk i) \<longrightarrow> free_lock l s \<and> \<not> slk_locked (slocks s l))"

lemma buffer_init_ok:
  assumes ok: "pmem_ok s F" and idle: "vq_ok s" "dev_ok s" "free_lock LkVdisk s" and kp: "kpt_ok s"
    and static: "\<And>i. bn_next (bufs s (BNode i)) = None \<and> bn_prev (bufs s (BNode i)) = None"
  shows "\<exists>t. buffer_init s = Inr t \<and> bc_ok t (\<lambda>k. if k then [] else rev [0..<N_BUFFER]) F {} \<and>
    hart t = hart s \<and> cpus t = cpus s \<and> proc_pool t = proc_pool s \<and>
    (\<forall>i. locks t (LkProc i) = locks s (LkProc i)) \<and> (\<forall>i < N_BUFFER. data (the_buf t i) = 0) \<and>
    disk_state.more t = disk_state.more s \<and> kernel_pool t = kernel_pool s \<and> user_pool t = user_pool s \<and> ktabs t = ktabs s \<and>
    (rested s \<longrightarrow> rested t)"
proof -
  define s0 where "s0 = spinlock_init LkBufCache s"
  define s1 where "s1 = s0\<lparr>bufs := set_prev BActive (Some BActive) (set_next BActive (Some BActive) (bufs s0))\<rparr>"
  define s2 where "s2 = s1\<lparr>bufs := set_prev BInactive (Some BInactive) (set_next BInactive (Some BInactive) (bufs s1))\<rparr>"
  have b: "bufs s0 = bufs s" "vq_ok s0 = vq_ok s" "dev_ok s0 = dev_ok s"
    by (simp_all add: s0_def spinlock_init_def set_lock_def vq_ok_def dev_ok_def)
  have "init_upto 0 s2 s2" using static unfolding init_upto_def
    by (simp add: s2_def s1_def b) (simp add: set_next_def set_prev_def)
  from init_nodes_ok[OF this order_refl] obtain t where
    t: "for_each [0..<N_BUFFER] init_node s2 = Inr t" "init_upto N_BUFFER s2 t" by blast
  note iv = t(2)[unfolded init_upto_def]
  have e: "buffer_init s = Inr t"
    using t(1) unfolding init_node_def buffer_init_def Let_def s2_def s1_def s0_def .
  have lk: "locks t l = locks s0 l" if "\<And>i. l \<noteq> LkBufSlk i" for l using iv that by (simp add: s2_def s1_def)
  have l0: "locks s0 = (locks s)(LkBufCache := \<lparr>locked = False, cpuid = -1\<rparr>)"
    by (simp add: s0_def spinlock_init_def set_lock_def)
  have fr: "hart t = hart s" "cpus t = cpus s" "mem t = mem s" "kernel_pool t = kernel_pool s"
    "user_pool t = user_pool s" "proc_pool t = proc_pool s" "disk_state.more t = disk_state.more s"
    using iv by (simp_all add: s2_def s1_def s0_def spinlock_init_def set_lock_def)
  have po: "pool_ok k t (F k)" for k
    using pmem_okD(3)[OF ok, of k] fr unfolding pool_ok_def pool_def by (cases k) simp_all
  have cp: "cpu_ok t" using pmem_okD(1)[OF ok] fr by (simp add: cpu_ok_def cpu_defs)
  have fl: "free_lock (LkPmem k) t" "free_lock LkVdisk t" "free_lock LkBufCache t" for k
    using pmem_okD(2)[OF ok, of k] idle(3) lk l0 by (simp_all add: free_lock_def)
  have pm: "pmem_ok t F" using ok po cp fl fr unfolding pmem_ok_def by simp
  let ?R = "\<lambda>k. if k then [] else rev [0..<N_BUFFER]"
  have rg: "rings (bufs t) ?R" unfolding rings_def
  proof (intro conjI allI)
    show "seg (nx (bufs t)) (pv (bufs t)) (head k) (map BNode (?R k)) (head k)" for k
      using iv by (cases k) (simp_all only: head_simps if_True if_False list.map)
  qed (auto simp del: upt_conv_Cons)
  have un: "block_num (the_buf t i) = BLOCK_NUM_UNUSED" "data (the_buf t i) = 0" "ref (the_buf t i) = 0"
    if "i < N_BUFFER" for i using iv that by blast+
  have "buf_ok (bufs t) ?R" unfolding buf_ok_def using rg un by (simp del: upt_conv_Cons)
  moreover have "slk_ok t ?R" using iv unfolding slk_ok_def by simp
  moreover have "pages_ok t F" using un by (simp add: pages_ok_def)
  moreover have "vq_ok t" "dev_ok t" using iv idle b by (simp_all add: s2_def s1_def)
  moreover have kt: "kpt_ok t" "ktabs t = ktabs s"
  proof -
    have "kern_pagetable t = kern_pagetable s" "buf0_at t = buf0_at s" "mem t = mem s" "pool False t = pool False s"
      using iv fr by (simp_all add: s2_def s1_def s0_def spinlock_init_def set_lock_def pool_def)
    from kpt_same[OF this] show "kpt_ok t" "ktabs t = ktabs s" using kp by simp_all
  qed
  ultimately have "bc_ok t ?R F {}" unfolding bc_ok_def using pm fl un by simp
  moreover have "slocks t l = slocks s l" if "\<And>i. l \<noteq> LkBufSlk i" for l
    using iv that by (simp add: s2_def s1_def s0_def spinlock_init_def set_lock_def)
  then have "rested s \<longrightarrow> rested t" using lk l0 by (auto simp: rested_def free_lock_def)
  ultimately show ?thesis using e fr un lk l0 kt(2) by auto
qed

section \<open>A machine to start from\<close>

text \<open>A virtio block device: type 0 reads \<open>len\<close> bytes at the sector, type 1 writes them.\<close>

definition blk_device :: "u32 \<Rightarrow> u64 \<Rightarrow> u64 \<Rightarrow> u32 \<Rightarrow> bool \<Rightarrow> image \<times> pmem \<Rightarrow> image \<times> pmem \<times> u8" where
  "blk_device ty sec a len wr = (\<lambda>(im, m).
     if ty = 0 \<and> wr then (im, blk_read (sec * 512) a im m, 0)
     else if ty = 1 then (blk_write (sec * 512) a im m, m, 0) else (im, m, 1))"

definition no_proc :: proc where
  "no_proc = \<lparr>pid = 0, p_name = [], p_state = UNUSED, parent = None, exit_code = 0, sleep_space = None,
     pgtbl = 0, heap_top = 0, ustack_npage = 0, p_mmap = None, tf = 0, cwd = None, open_file = (\<lambda>_. None),
     kstack = 0, ctx = \<lparr>c_ra = 0, c_sp = 0, c_s = []\<rparr>\<rparr>"

text \<open>Memory \<open>m\<close> and the pools of \<open>pmem_init\<close>, an idle disk, and process 0 running on hart 0.\<close>

definition boot_disk :: "vm_state \<Rightarrow> 'a \<Rightarrow> 'a disk_state_scheme" where
  "boot_disk v m = \<lparr>hart = 0, cpus = (\<lambda>_. reset_cpu\<lparr>cproc := Some 0\<rparr>), locks = (\<lambda>_. \<lparr>locked = False, cpuid = -1\<rparr>),
     mem = mem v, kernel_pool = kernel_pool v, user_pool = user_pool v, kern_pagetable = kern_pagetable v,
     region_pool = (\<lambda>_. \<lparr>n_mmap = \<lparr>r_begin = 0, r_npages = 0, r_next = None\<rparr>, n_next = None\<rparr>), pool_sentinel = None,
     proc_pool = (\<lambda>i. if i = 0 then no_proc\<lparr>pid := 1, p_state := RUNNING\<rparr> else no_proc),
     init_process = Some 0, next_pid = 2, slocks = (\<lambda>_. \<lparr>slk_locked = False, slk_pid = 0\<rparr>),
     vq_desc = (\<lambda>_. \<lparr>d_addr = 0, d_len = 0, d_flags = 0, d_next = 0\<rparr>),
     buf0 = \<lparr>h_type = 0, h_reserved = 0, h_sector = 0\<rparr>, buf0_at = 0x3FFFFFCF00, info_at = 0x80020000, vq_free = (\<lambda>_. True), avail_idx = 0,
     avail_ring = (\<lambda>_. 0), used_id = 0, used_elems = (\<lambda>_. 0), used_idx = 0, info_b = (\<lambda>_. None),
     info_status = (\<lambda>_. 0),
     bufs = (\<lambda>_. \<lparr>buf = \<lparr>block_num = 0, ref = 0, data = 0, b_disk = False\<rparr>, bn_next = None, bn_prev = None\<rparr>),
     disk_image = (\<lambda>_. 0), device = blk_device, \<dots> = m\<rparr>"

text \<open>A kernel page table with one stack page, whose tables are kernel pages.\<close>

lemma boot_vm:
  "\<exists>(v :: vm_state) F. vm_ok v F (kern_pagetable v) \<and> vlookup (mem v) (kern_pagetable v) 0x3FFFFFCF00 \<noteq> None \<and>
     1000 \<le> length (F True) \<and> length (F False) = 31488 \<and> (\<forall>u \<in> ktabs v. in_region (pool True v) u) \<and>
     (\<forall>k q. in_region (pool k v) q \<longrightarrow> 0x80100000 \<le> q)"
proof -
  obtain t0 F where t0: "pmem_ok (t0 :: vm_state) F" "length (F True) = 1024" "length (F False) = 31488"
    "\<forall>k. 0x80100000 \<le> ar_begin (pool k t0)" using reset_init by blast
  then obtain r ks where k: "F True = r # ks" "length ks = 1023" by (cases "F True") auto
  from fresh_root_ok[OF t0(1) k(1)] obtain t :: vm_state where t: "vm_ok t (F(True := ks)) r" "mem_only t0 t" "tables (mem t) r = {r}"
    by blast
  let ?v = "0x3FFFFFC000 :: u64"
  have al: "page_aligned ?v" by (simp add: page_aligned_def)
  have l: "last_off ?v PGSIZE = 0" by (simp add: last_off_def)
  from vm_mappages_ok[OF t(1) al al, of PGSIZE 6] k(2) obtain s :: vm_state and F' where
    s: "evolved t (F(True := ks)) r s F' 2" "\<forall>va < VA_MAX. vlookup (mem s) r va = mapped_from ?v 0 ?v 6 (vlookup (mem t) r) va"
    by (auto simp: l)
  from s(1) obtain us where us: "ks = us @ F' True" "length us \<le> 2" "tables (mem s) r = {r} \<union> set us" "F' False = F False"
    by (auto simp: evolved_def t(3))
  have mo: "mem_only t0 s" by (rule mem_only_trans[OF t(2) evolvedD(2)[OF s(1)]])
  let ?s = "s\<lparr>kern_pagetable := r\<rparr>"
  have ps: "pool b ?s = pool b s" for b by (simp add: pool_def)
  then have pl: "in_region (pool b ?s) q = in_region (pool b t0) q" for b q using mo by (simp add: mem_only_def)
  have "vm_ok ?s F' r" using evolvedD(1)[OF s(1)]
    by (simp add: vm_ok_def pmem_ok_def pool_ok_def ps cpu_ok_def cpu_defs free_lock_def)
  moreover have "pg 0x3FFFFFCF00 = pg ?v" by (simp add: pg_def)
  then have "vlookup (mem s) r 0x3FFFFFCF00 \<noteq> None" using s(2) by (simp add: mapped_from_def)
  moreover have "1000 \<le> length (F' True)" using us(1,2) k(2) by auto
  moreover have "in_region (pool True ?s) u" if "u \<in> ktabs ?s" for u
  proof -
    have "u \<in> set (F True)" using that us(1,3) k(1) by (auto simp: ktabs_def)
    then show ?thesis unfolding pl by (rule pmem_okD(5)[OF t0(1)])
  qed
  moreover have "0x80100000 \<le> q" if "in_region (pool b ?s) q" for b q
    using t0(4) that unfolding pl by (meson in_region_def order_trans)
  ultimately show ?thesis using us(4) t0(3) by (intro exI[of _ ?s] exI[of _ F']) simp
qed

lemma boot_cache:
  "\<exists>(s :: 'a disk_state_scheme) F. bc_ok s (\<lambda>k. if k then [] else rev [0..<N_BUFFER]) F {} \<and> kctx s 0 \<and>
     length (F False) = 31488 \<and> (\<forall>i < N_BUFFER. data (the_buf s i) = 0) \<and>
     disk_state.more s = m \<and> (\<forall>k q. in_region (pool k s) q \<longrightarrow> 0x80100000 \<le> q) \<and> (\<forall>u \<in> ktabs s. in_region (pool True s) u) \<and> rested s"
proof -
  obtain v F where vo: "vm_ok (v :: vm_state) F (kern_pagetable v)" and vl: "vlookup (mem v) (kern_pagetable v) 0x3FFFFFCF00 \<noteq> None"
    and v2: "length (F False) = 31488" "\<forall>u \<in> ktabs v. in_region (pool True v) u"
    "\<forall>k q. in_region (pool k v) q \<longrightarrow> 0x80100000 \<le> q"
    using boot_vm by blast
  note v = vm_okD(1)[OF vo]
  let ?s = "boot_disk v m"
  have "pool_ok k ?s (F k)" for k
    using pmem_okD(3)[OF v, of k] unfolding pool_ok_def pool_def by (cases k) (simp_all add: boot_disk_def)
  then have ok: "pmem_ok ?s F"
    using v by (simp add: pmem_ok_def boot_disk_def cpu_ok_def cpu_defs reset_cpu_def free_lock_def)
  have idle: "vq_ok ?s" "dev_ok ?s" "free_lock LkVdisk ?s"
    by (simp_all add: vq_ok_def dev_ok_def boot_disk_def free_lock_def blk_device_def)
  have kt: "ktabs ?s = ktabs v" "in_region (pool k ?s) q = in_region (pool k v) q" for k q
    by (simp_all add: ktabs_def boot_disk_def pool_def)
  have "\<not> in_region (pool False ?s) u" if "u \<in> ktabs ?s" for u
    using that v2(2) v unfolding kt by (force simp: pmem_ok_def in_region_def pool_def)
  moreover have "stack_mapped ?s" using vm_okD(2,3)[OF vo] vl by (simp add: stack_mapped_def boot_disk_def)
  ultimately have kp: "kpt_ok ?s" by (simp add: kpt_ok_def)
  have "bn_next (bufs ?s (BNode i)) = None \<and> bn_prev (bufs ?s (BNode i)) = None" for i
    by (simp add: boot_disk_def)
  from buffer_init_ok[OF ok idle kp this] obtain t :: "'a disk_state_scheme" where t:
    "bc_ok t (\<lambda>k. if k then [] else rev [0..<N_BUFFER]) F {}" "hart t = hart ?s" "cpus t = cpus ?s"
    "proc_pool t = proc_pool ?s" "\<forall>i. locks t (LkProc i) = locks ?s (LkProc i)"
    "\<forall>i < N_BUFFER. data (the_buf t i) = 0" "disk_state.more t = disk_state.more ?s"
    "kernel_pool t = kernel_pool ?s" "user_pool t = user_pool ?s" "ktabs t = ktabs ?s" "rested ?s \<longrightarrow> rested t" by blast
  have "disk_state.more t = m" using t(7) by (simp add: boot_disk_def)
  moreover have "kctx t 0" using t(2-5)
    by (simp add: kctx_def procs_free_def cpu_ok_def cpu_defs myproc_def free_lock_def boot_disk_def reset_cpu_def no_proc_def)
  moreover have "0x80100000 \<le> q" if "in_region (pool k t) q" for k q
  proof -
    have "pool k t = pool k ?s" using t(8,9) by (simp add: pool_def)
    then show ?thesis using v2(3) that kt(2)[of k q] by metis
  qed
  moreover have "in_region (pool True t) u" if "u \<in> ktabs t" for u
    using that t(8,10) v2(2) kt by (simp add: pool_def boot_disk_def)
  moreover have "rested ?s" by (simp add: rested_def boot_disk_def free_lock_def)
  ultimately show ?thesis using t(1,6,11) v2(1) by (intro exI[of _ t] exI[of _ F]) simp
qed

end
