(* ===== verification/Console.thy ===== *)
theory Console
  imports BootDisk
begin

text \<open>
  The UART, the console and formatted output (\<open>lib/uart.c\<close>, \<open>lib/console.c\<close>, \<open>lib/print.c\<close>).
  The UART is seen through its data registers: \<open>uart_tx\<close> lists the bytes written to \<open>THR\<close>,
  \<open>uart_rx\<close> the bytes waiting in \<open>RHR\<close>; the transmitter is taken to become idle.
\<close>

section \<open>State\<close>

text \<open>
  The local arrays and objects whose address a kernel function takes. Their place on the kernel stack
  is the compiler's choice: \<open>lv s l\<close> is the address of \<open>l\<close>.
\<close>

datatype local = L_tmp | L_c | L_de | L_name | L_temp_name | L_path | L_new_path | L_st | L_elf | L_ph
  | L_argp | L_stack | L_code | L_cwd_name | L_cwd_buf | L_pname

text \<open>The indices of the ring are C \<open>int\<close>s that only grow; \<open>c_int\<close> below marks where one would pass \<open>INT_MAX\<close>.\<close>

record io_state = disk_state +
  lv :: "local \<Rightarrow> u64"
  uart_tx :: "u8 list"
  uart_rx :: "u8 list"
  panicked :: bool
  cons_buf :: "nat \<Rightarrow> u8"
  read_idx :: int
  writ_idx :: int
  edit_idx :: int
  current_ticks :: u64

abbreviation (input) CONSOLE_INPUT_BUF :: int where "CONSOLE_INPUT_BUF \<equiv> 128"
abbreviation (input) BACKSPACE :: u32 where "BACKSPACE \<equiv> 0x100"
abbreviation (input) NL :: u8 where "NL \<equiv> 10"

text \<open>The result of an operation on C \<open>int\<close>s: beyond the range of the type it is undefined (\<open>Fault\<close>).\<close>

definition c_int :: "int \<Rightarrow> int res" where
  "c_int i = (if - (2 ^ 31) \<le> i \<and> i < 2 ^ 31 then Inr i else Inl Fault)"

section \<open>The UART\<close>

definition uart_putc_sync :: "u32 \<Rightarrow> 'a io_state_scheme \<Rightarrow> 'a io_state_scheme res" where
  "uart_putc_sync c s =
     (let s = push_off s in
      if panicked s then Inl Hang
      else pop_off (s\<lparr>uart_tx := uart_tx s @ [ucast c]\<rparr>))"

text \<open>\<open>None\<close> stands for the result -1.\<close>

definition uart_getc_sync :: "'a io_state_scheme \<Rightarrow> u8 option \<times> 'a io_state_scheme" where
  "uart_getc_sync s =
     (case uart_rx s of [] \<Rightarrow> (None, s) | c # cs \<Rightarrow> (Some c, s\<lparr>uart_rx := cs\<rparr>))"

text \<open>The writes of \<open>uart_init\<close> to the registers \<open>IER = 1\<close>, \<open>LCR = 3\<close>, \<open>FCR = 2\<close> and the divisor latch.\<close>

definition uart_init :: "(nat \<times> u8) list" where
  "uart_init = [(1, 0x00), (3, push_bit 7 1), (0, 0x03), (1, 0x00), (3, push_bit 0 3),
     (2, push_bit 0 1 OR push_bit 1 3), (1, push_bit 1 1 OR push_bit 0 1)]"

section \<open>The console\<close>

definition cons_init :: "'a io_state_scheme \<Rightarrow> 'a io_state_scheme" where
  "cons_init s = (spinlock_init LkCons s)\<lparr>read_idx := 0, writ_idx := 0, edit_idx := 0\<rparr>"

definition cons_putc :: "u32 \<Rightarrow> 'a io_state_scheme \<Rightarrow> 'a io_state_scheme res" where
  "cons_putc c s =
     (if c = BACKSPACE then
        bnd (uart_putc_sync 8 s) (\<lambda>s. bnd (uart_putc_sync 32 s) (\<lambda>s. uart_putc_sync 8 s))
      else uart_putc_sync c s)"

lemma cut_decreases:
  fixes len w :: u32
  assumes "w < len"
  shows "unat len - unat (w + (if len - w < 64 then len - w else 64)) < unat len - unat w"
proof -
  have l: "unat w < unat len" using assms by (simp add: word_less_nat_alt)
  have d: "unat (len - w) = unat len - unat w" using assms by (simp add: unat_sub order_less_imp_le)
  show ?thesis
  proof (cases "len - w < 64")
    case False
    then have "64 \<le> unat len - unat w" using d by (simp add: word_less_nat_alt)
    moreover have "unat (w + 64) = unat w + 64"
      using calculation l unsigned_less[of len, where 'a = nat] by (simp add: unat_word_ariths)
    ultimately show ?thesis using False l by simp
  qed (use l in simp)
qed

text \<open>The source of a transfer: the address space of the running process, or the kernel's.\<close>

definition fetch :: "bool \<Rightarrow> u64 \<Rightarrow> u64 \<Rightarrow> u32 \<Rightarrow> 'a proc_state_scheme \<Rightarrow> 'a proc_state_scheme res" where
  "fetch is_user dst src len s =
     (if is_user then with_myproc (\<lambda>p. uvm_copyin (pgtbl (proc_pool s p)) dst src len s) s
      else Inr (s\<lparr>mem := memmove (mem s) dst src len\<rparr>))"

definition deliver :: "bool \<Rightarrow> u64 \<Rightarrow> u64 \<Rightarrow> u32 \<Rightarrow> 'a proc_state_scheme \<Rightarrow> 'a proc_state_scheme res" where
  "deliver is_user dst src len s =
     (if is_user then with_myproc (\<lambda>p. uvm_copyout (pgtbl (proc_pool s p)) dst src len s) s
      else Inr (s\<lparr>mem := memmove (mem s) dst src len\<rparr>))"

function cons_write_loop :: "u32 \<Rightarrow> u64 \<Rightarrow> bool \<Rightarrow> u32 \<Rightarrow> 'a io_state_scheme \<Rightarrow> (u32 \<times> 'a io_state_scheme) res" where
  "cons_write_loop len src is_user write_len s =
     (if write_len < len then
        let cut_len = if len - write_len < 64 then len - write_len else 64 in
        bnd (fetch is_user (lv s L_tmp) src cut_len s) (\<lambda>s.
        bnd (for_each [0..<unat cut_len] (\<lambda>i s. cons_putc (ucast (mem s (lv s L_tmp + of_nat i))) s) s) (\<lambda>s.
        cons_write_loop len (src + ucast cut_len) is_user (write_len + cut_len) s))
      else Inr (write_len, s))"
  by pat_completeness auto
termination
  by (relation "measure (\<lambda>(len, src, u, w, s). unat len - unat w)") (use cut_decreases in auto)

declare cons_write_loop.simps [simp del]

definition cons_write :: "u32 \<Rightarrow> u64 \<Rightarrow> bool \<Rightarrow> 'a io_state_scheme \<Rightarrow> (u32 \<times> 'a io_state_scheme) res" where
  "cons_write len src is_user s =
     bnd (spinlock_acquire LkCons s) (\<lambda>s.
     bnd (cons_write_loop len src is_user 0 s) (\<lambda>(n, s).
     bnd (spinlock_release LkCons s) (\<lambda>s. Inr (n, s))))"

text \<open>\<open>cons.buf[i % CONSOLE_INPUT_BUF]\<close>: the remainder of a negative \<open>i\<close> is an index below the array.\<close>

definition cons_slot :: "int \<Rightarrow> nat res" where
  "cons_slot i = (if i < 0 then Inl Fault else Inr (nat i mod 128))"

text \<open>The reader takes \<open>n\<close> more bytes; on an empty ring it sleeps (\<open>Sleep\<close>).\<close>

fun cons_read_loop :: "nat \<Rightarrow> u64 \<Rightarrow> bool \<Rightarrow> u32 \<Rightarrow> 'a io_state_scheme \<Rightarrow> (u32 \<times> 'a io_state_scheme) res" where
  "cons_read_loop 0 dst is_user read_len s = Inr (read_len, s)"
| "cons_read_loop (Suc n) dst is_user read_len s =
     (if read_idx s = writ_idx s then
        bnd (proc_sleep_enter ChCons LkCons s) (\<lambda>s. Inl Sleep)
      else
        bnd (cons_slot (read_idx s)) (\<lambda>k.
        bnd (c_int (read_idx s + 1)) (\<lambda>r.
        let c = cons_buf s k; s = s\<lparr>read_idx := r\<rparr>;
            s = s\<lparr>mem := (mem s)(lv s L_c := c)\<rparr>
        in bnd (deliver is_user dst (lv s L_c) 1 s) (\<lambda>s.
           if c = NL then Inr (read_len + 1, s)
           else cons_read_loop n (dst + 1) is_user (read_len + 1) s))))"

definition cons_read :: "u32 \<Rightarrow> u64 \<Rightarrow> bool \<Rightarrow> 'a io_state_scheme \<Rightarrow> (u32 \<times> 'a io_state_scheme) res" where
  "cons_read len dst is_user s =
     bnd (spinlock_acquire LkCons s) (\<lambda>s.
     bnd (cons_read_loop (unat len) dst is_user 0 s) (\<lambda>(n, s).
     bnd (spinlock_release LkCons s) (\<lambda>s. Inr (n, s))))"

text \<open>The loop of \<open>Ctrl('U')\<close>; the fuel is the number of characters of the line being edited.\<close>

fun kill_line :: "nat \<Rightarrow> 'a io_state_scheme \<Rightarrow> 'a io_state_scheme res" where
  "kill_line n s =
     (if edit_idx s \<noteq> writ_idx s then
        bnd (cons_slot (edit_idx s - 1)) (\<lambda>k.
        if cons_buf s k \<noteq> NL then
          case n of
            0 \<Rightarrow> Inl Hang
          | Suc m \<Rightarrow> bnd (cons_putc BACKSPACE (s\<lparr>edit_idx := edit_idx s - 1\<rparr>)) (\<lambda>s. kill_line m s)
        else Inr s)
      else Inr s)"

declare kill_line.simps [simp del]

definition cons_edit :: "u8 \<Rightarrow> 'a io_state_scheme \<Rightarrow> 'a io_state_scheme res" where
  "cons_edit c s =
     bnd (spinlock_acquire LkCons s) (\<lambda>s.
     bnd (if c = 0x15 then kill_line (nat (edit_idx s - writ_idx s)) s
          else if c = 0x08 \<or> c = 0x7f then
            if edit_idx s \<noteq> writ_idx s
            then bnd (c_int (edit_idx s - 1)) (\<lambda>e. cons_putc BACKSPACE (s\<lparr>edit_idx := e\<rparr>)) else Inr s
          else
            bnd (if c = 0 then Inr False
                 else bnd (c_int (edit_idx s - read_idx s)) (\<lambda>n. Inr (n < CONSOLE_INPUT_BUF))) (\<lambda>room.
            if room then
              let c = if c = 0x0d then NL else c in
              bnd (cons_putc (ucast c) s) (\<lambda>s.
              bnd (cons_slot (edit_idx s)) (\<lambda>k.
              bnd (c_int (edit_idx s + 1)) (\<lambda>e.
              let s = s\<lparr>cons_buf := (cons_buf s)(k := c), edit_idx := e\<rparr> in
              bnd (if c = NL then Inr True
                   else bnd (c_int (read_idx s + CONSOLE_INPUT_BUF)) (\<lambda>f. Inr (edit_idx s = f))) (\<lambda>hand_over.
              if hand_over then proc_wakeup (Some ChCons) (s\<lparr>writ_idx := edit_idx s\<rparr>)
              else Inr s))))
            else Inr s)) (\<lambda>s.
     spinlock_release LkCons s))"

text \<open>\<open>uart_intr\<close>: the loop ends when the receive FIFO is empty.\<close>

fun uart_drain :: "u8 list \<Rightarrow> 'a io_state_scheme \<Rightarrow> 'a io_state_scheme res" where
  "uart_drain [] s = Inr s"
| "uart_drain (c # cs) s = bnd (cons_edit c (s\<lparr>uart_rx := cs\<rparr>)) (uart_drain cs)"

definition uart_intr :: "'a io_state_scheme \<Rightarrow> 'a io_state_scheme res" where
  "uart_intr s = uart_drain (uart_rx s) s"

section \<open>Formatted output\<close>

text \<open>
  \<open>printint\<close> fills \<open>char buf[16]\<close> from its start (\<open>do ... while ((x /= base) != 0)\<close>, least significant digit first) and
  writes it out from its end. \<open>digit_loop n\<close> has room for \<open>n\<close> more digits; a write behind the buffer, a division by zero and
  a digit behind the 17 bytes of \<open>digits\<close> are undefined (\<open>Fault\<close>), and so is \<open>-xx\<close> for the most negative number.
\<close>

fun digit_loop :: "nat \<Rightarrow> nat \<Rightarrow> nat \<Rightarrow> nat list res" where
  "digit_loop 0 base x = Inl Fault"
| "digit_loop (Suc n) base x =
     (if base = 0 \<or> 16 < x mod base then Inl Fault
      else if x div base = 0 then Inr [x mod base]
      else bnd (digit_loop n base (x div base)) (\<lambda>ds. Inr (x mod base # ds)))"

definition digit_char :: "nat \<Rightarrow> u8" where
  "digit_char d = of_nat (if d < 10 then 48 + d else if d < 16 then 87 + d else 0)"

definition printint_chars :: "u32 \<Rightarrow> nat \<Rightarrow> bool \<Rightarrow> u8 list res" where
  "printint_chars xx base sign =
     (let neg = sign \<and> sint xx < 0 in
      if neg \<and> sint xx = - (2 ^ 31) then Inl Fault
      else
        let x = if neg then - xx else xx in
        bnd (digit_loop 16 base (unat x)) (\<lambda>ds.
        let buf = map digit_char ds @ (if neg then [45] else []) in
        if length buf > 16 then Inl Fault else Inr (rev buf)))"

definition put_all :: "u8 list \<Rightarrow> 'a io_state_scheme \<Rightarrow> 'a io_state_scheme res" where
  "put_all cs = for_each cs (\<lambda>c s. uart_putc_sync (ucast c) s)"

definition printint :: "u32 \<Rightarrow> nat \<Rightarrow> bool \<Rightarrow> 'a io_state_scheme \<Rightarrow> 'a io_state_scheme res" where
  "printint xx base sign s = bnd (printint_chars xx base sign) (\<lambda>cs. put_all cs s)"

definition printptr :: "u64 \<Rightarrow> 'a io_state_scheme \<Rightarrow> 'a io_state_scheme res" where
  "printptr x = put_all ([48, 120] @ map (\<lambda>i. digit_char (unat (drop_bit 60 (push_bit (4 * i) x)))) [0..<16])"

text \<open>The arguments of \<open>printf\<close>; a string is a literal or an address.\<close>

datatype parg = PInt u32 | PPtr u64 | PLit string | PMem u64

definition put_string :: "parg \<Rightarrow> 'a io_state_scheme \<Rightarrow> 'a io_state_scheme res" where
  "put_string a s =
     (case a of
        PLit cs \<Rightarrow> put_all (map of_char cs) s
      | PMem p \<Rightarrow>
          if p = 0 then put_all (map of_char ''(null)'') s
          else (case strlen_from (at (mem s) p) 0 of
                  None \<Rightarrow> Inl Hang
                | Some n \<Rightarrow> put_all (map (at (mem s) p) [0..<n]) s)
      | _ \<Rightarrow> Inl Fault)"

text \<open>A conversion that does not match its argument is undefined in C: \<open>Fault\<close>.\<close>

fun print_fmt :: "string \<Rightarrow> parg list \<Rightarrow> 'a io_state_scheme \<Rightarrow> 'a io_state_scheme res" where
  "print_fmt [] args s = Inr s"
| "print_fmt (c # cs) args s =
     (if c \<noteq> CHR ''%'' then bnd (uart_putc_sync (of_char c) s) (print_fmt cs args)
      else
        case cs of
          [] \<Rightarrow> Inr s
        | d # ds \<Rightarrow>
            if d = CHR ''d'' then
              (case args of PInt x # as \<Rightarrow> bnd (printint x 10 True s) (print_fmt ds as) | _ \<Rightarrow> Inl Fault)
            else if d = CHR ''x'' then
              (case args of PInt x # as \<Rightarrow> bnd (printint x 16 False s) (print_fmt ds as) | _ \<Rightarrow> Inl Fault)
            else if d = CHR ''p'' then
              (case args of PPtr x # as \<Rightarrow> bnd (printptr x s) (print_fmt ds as) | _ \<Rightarrow> Inl Fault)
            else if d = CHR ''c'' then
              (case args of PInt x # as \<Rightarrow> bnd (uart_putc_sync x s) (print_fmt ds as) | _ \<Rightarrow> Inl Fault)
            else if d = CHR ''s'' then
              (case args of a # as \<Rightarrow> bnd (put_string a s) (print_fmt ds as) | _ \<Rightarrow> Inl Fault)
            else if d = CHR ''%'' then bnd (uart_putc_sync (of_char d) s) (print_fmt ds args)
            else bnd (uart_putc_sync 37 s) (\<lambda>s. bnd (uart_putc_sync (of_char d) s) (print_fmt ds args)))"

definition kprintf :: "string \<Rightarrow> parg list \<Rightarrow> 'a io_state_scheme \<Rightarrow> 'a io_state_scheme res" where
  "kprintf fmt args s =
     (if spinlock_holding LkPrint s then print_fmt fmt args s
      else bnd (spinlock_acquire LkPrint s) (\<lambda>s. bnd (print_fmt fmt args s) (spinlock_release LkPrint)))"

definition print_init :: "'a io_state_scheme \<Rightarrow> 'a io_state_scheme" where
  "print_init s = spinlock_init LkPrint (cons_init s)"

end
