(* ===== verification/Timer.thy ===== *)
theory Timer
  imports Console
begin

text \<open>
  The S-mode clock (\<open>trap/timer.c\<close>): the tick counter, its update by the timer interrupt and the
  sleep until a tick. \<open>timer_wait\<close> sleeps in a loop; \<open>timer_wait_step\<close> is one round of it.
\<close>

definition timer_create :: "'a io_state_scheme \<Rightarrow> 'a io_state_scheme" where
  "timer_create s = spinlock_init LkTime (s\<lparr>current_ticks := 0\<rparr>)"

definition timer_update :: "'a io_state_scheme \<Rightarrow> 'a io_state_scheme res" where
  "timer_update s =
     bnd (spinlock_acquire LkTime s) (\<lambda>s.
     bnd (spinlock_release LkTime (s\<lparr>current_ticks := current_ticks s + 1\<rparr>)) (\<lambda>s.
     proc_wakeup (Some ChTimer) s))"

definition timer_get_ticks :: "'a io_state_scheme \<Rightarrow> (u64 \<times> 'a io_state_scheme) res" where
  "timer_get_ticks s =
     bnd (spinlock_acquire LkTime s) (\<lambda>s.
     let snapshot = current_ticks s in
     bnd (spinlock_release LkTime s) (\<lambda>s. Inr (snapshot, s)))"

text \<open>
  The loop of \<open>timer_wait\<close> with the lock held: \<open>Inr (True, s)\<close> when the target was reached, and
  \<open>Inr (False, s)\<close> when the process went to sleep and the round starts again after its wakeup.
\<close>

definition timer_wait_step :: "u64 \<Rightarrow> 'a io_state_scheme \<Rightarrow> (bool \<times> 'a io_state_scheme) res" where
  "timer_wait_step target_tick s = with_myproc (\<lambda>p.
     if current_ticks s < target_tick then
       bnd (kprintf ''proc %d is sleeping!\<newline>'' [PInt (word_of_int (pid (proc_pool s p)))] s) (\<lambda>s.
       bnd (proc_sleep_enter ChTimer LkTime s) (\<lambda>s. Inr (False, s)))
     else
       bnd (kprintf ''proc %d is wakeup!\<newline>'' [PInt (word_of_int (pid (proc_pool s p)))] s) (\<lambda>s.
       bnd (spinlock_release LkTime s) (\<lambda>s. Inr (True, s)))) s"

definition timer_wait :: "u64 \<Rightarrow> 'a io_state_scheme \<Rightarrow> (bool \<times> 'a io_state_scheme) res" where
  "timer_wait n_tick s =
     bnd (spinlock_acquire LkTime s) (\<lambda>s. timer_wait_step (current_ticks s + n_tick) s)"

text \<open>The clock goes up by one and the processes that sleep on it become runnable.\<close>

lemma timer_fields [simp]:
  "current_ticks (entered l s) = current_ticks s" "current_ticks (stale_origin s) = current_ticks s"
  "(entered l s)\<lparr>current_ticks := n\<rparr> = entered l (s\<lparr>current_ticks := n\<rparr>)"
  "cpu_ok (s\<lparr>current_ticks := n\<rparr>) = cpu_ok s" "free_lock l (s\<lparr>current_ticks := n\<rparr>) = free_lock l s"
  "procs_free (s\<lparr>current_ticks := n\<rparr>) = procs_free s"
  by (simp_all add: entered_def push_off_def stale_origin_def cpu_defs cpu_ok_def free_lock_def procs_free_def)

lemma timer_update_eq:
  assumes "procs_free s" and "free_lock LkTime s"
  shows "timer_update s = Inr (stale_origin (wake_state (Some ChTimer) N_PROC
    (stale_origin (s\<lparr>current_ticks := current_ticks s + 1\<rparr>))))"
  using assms proc_wakeup_eq[of "stale_origin (s\<lparr>current_ticks := current_ticks s + 1\<rparr>)" "Some ChTimer"]
    procs_free_cpu[of s]
  by (simp add: timer_update_def)

lemma timer_get_ticks_eq:
  "cpu_ok s \<Longrightarrow> free_lock LkTime s \<Longrightarrow> timer_get_ticks s = Inr (current_ticks s, stale_origin s)"
  by (simp add: timer_get_ticks_def)

end
