(* ===== verification/FsState.thy ===== *)
theory FsState
  imports Timer
begin

text \<open>
  The data of the file system (\<open>fs/type.h\<close>): the super block, inodes on disk and in memory, open
  files, devices; and the layout of their encodings in a block.
\<close>

section \<open>Data\<close>

record super_block =
  magic_num :: u32
  block_size :: u32
  total_blocks :: u32
  total_inodes :: u32
  inode_bitmap_firstblock :: u32
  inode_bitmap_blocks :: u32
  inode_firstblock :: u32
  inode_blocks :: u32
  data_bitmap_firstblock :: u32
  data_bitmap_blocks :: u32
  data_firstblock :: u32
  data_blocks :: u32

text \<open>\<open>short\<close> fields as 16-bit words, read with \<open>sint\<close>.\<close>

record inode_disk =
  i_type :: u16
  i_major :: u16
  i_minor :: u16
  i_nlink :: u16
  i_size :: u32
  i_index :: "nat \<Rightarrow> u32"

record inode =
  disk_info :: inode_disk
  valid_info :: bool
  inode_num :: u32
  i_ref :: u32

record kfile =
  f_ip :: "nat option"
  readable :: bool
  writable :: bool
  offset :: u32
  f_ref :: u32

text \<open>The functions a device can register (\<open>device.c\<close>).\<close>

datatype devfun = device_stdin_read | device_stdout_write | device_stderr_write | device_zero_read
  | device_null_read | device_null_write | device_gpt0_write

record kdevice =
  dev_name :: "u8 list"
  dev_read :: "devfun option"
  dev_write :: "devfun option"

record fs_state = io_state +
  sb :: super_block
  inode_cache :: "nat \<Rightarrow> inode"
  file_table :: "nat \<Rightarrow> kfile"
  device_table :: "nat \<Rightarrow> kdevice"
  rodata :: "string \<Rightarrow> u64"

text \<open>\<open>rodata s cs\<close> is where the linker puts the string literal \<open>cs\<close>.\<close>

abbreviation (input) INODE_TYPE_DATA :: u16 where "INODE_TYPE_DATA \<equiv> 0"
abbreviation (input) INODE_TYPE_DIR :: u16 where "INODE_TYPE_DIR \<equiv> 1"
abbreviation (input) INODE_TYPE_DEVICE :: u16 where "INODE_TYPE_DEVICE \<equiv> 2"
abbreviation (input) INODE_INDEX_1 :: nat where "INODE_INDEX_1 \<equiv> 10"
abbreviation (input) INODE_INDEX_2 :: nat where "INODE_INDEX_2 \<equiv> 12"
abbreviation (input) INODE_INDEX_3 :: nat where "INODE_INDEX_3 \<equiv> 13"
abbreviation (input) N_INODE :: nat where "N_INODE \<equiv> 64"
abbreviation (input) N_FILE :: nat where "N_FILE \<equiv> 128"
abbreviation (input) N_DEVICE :: u16 where "N_DEVICE \<equiv> 10"
abbreviation (input) ROOT_INODE :: u32 where "ROOT_INODE \<equiv> 0"
abbreviation (input) BIT_PER_BLOCK :: u32 where "BIT_PER_BLOCK \<equiv> 4096 * 8"
abbreviation (input) INODE_PER_BLOCK :: u32 where "INODE_PER_BLOCK \<equiv> 64"
abbreviation (input) MAXLEN_FILENAME :: nat where "MAXLEN_FILENAME \<equiv> 60"
abbreviation (input) INVALID_INODE_NUM :: u32 where "INVALID_INODE_NUM \<equiv> 0xFFFFFFFF"

definition upd_inode :: "nat \<Rightarrow> (inode \<Rightarrow> inode) \<Rightarrow> 'a fs_state_scheme \<Rightarrow> 'a fs_state_scheme" where
  "upd_inode i f s = s\<lparr>inode_cache := (inode_cache s)(i := f (inode_cache s i))\<rparr>"

definition upd_file :: "nat \<Rightarrow> (kfile \<Rightarrow> kfile) \<Rightarrow> 'a fs_state_scheme \<Rightarrow> 'a fs_state_scheme" where
  "upd_file i f s = s\<lparr>file_table := (file_table s)(i := f (file_table s i))\<rparr>"

definition upd_info :: "nat \<Rightarrow> (inode_disk \<Rightarrow> inode_disk) \<Rightarrow> 'a fs_state_scheme \<Rightarrow> 'a fs_state_scheme" where
  "upd_info i f = upd_inode i (\<lambda>ip. ip\<lparr>disk_info := f (disk_info ip)\<rparr>)"

abbreviation (input) the_inode :: "'a fs_state_scheme \<Rightarrow> nat \<Rightarrow> inode" where
  "the_inode s i \<equiv> inode_cache s i"

abbreviation (input) info :: "'a fs_state_scheme \<Rightarrow> nat \<Rightarrow> inode_disk" where
  "info s i \<equiv> disk_info (inode_cache s i)"

section \<open>Layout on disk\<close>

definition store16 :: "pmem \<Rightarrow> u64 \<Rightarrow> u16 \<Rightarrow> pmem" where
  "store16 m a v = m(a := byte_of v 0, a + 1 := byte_of v 1)"

definition load16 :: "pmem \<Rightarrow> u64 \<Rightarrow> u16" where
  "load16 m a = ucast (m a) OR push_bit 8 (ucast (m (a + 1)))"

definition index_addr :: "u64 \<Rightarrow> nat \<Rightarrow> u64" where
  "index_addr a i = a + 4 * of_nat i"

text \<open>\<open>inode_disk_t\<close>: four shorts, the size, thirteen indices, 64 bytes in all.\<close>

definition load_inode :: "pmem \<Rightarrow> u64 \<Rightarrow> inode_disk" where
  "load_inode m a = \<lparr>i_type = load16 m a, i_major = load16 m (a + 2), i_minor = load16 m (a + 4),
     i_nlink = load16 m (a + 6), i_size = load32 m (a + 8),
     i_index = (\<lambda>k. if k < INODE_INDEX_3 then load32 m (index_addr (a + 12) k) else 0)\<rparr>"

definition store_inode :: "pmem \<Rightarrow> u64 \<Rightarrow> inode_disk \<Rightarrow> pmem" where
  "store_inode m a d =
     foldl (\<lambda>m k. store32 m (index_addr (a + 12) k) (i_index d k))
       (store32 (store16 (store16 (store16 (store16 m a (i_type d)) (a + 2) (i_major d)) (a + 4) (i_minor d))
          (a + 6) (i_nlink d)) (a + 8) (i_size d)) [0..<INODE_INDEX_3]"

definition load_super :: "pmem \<Rightarrow> u64 \<Rightarrow> super_block" where
  "load_super m a = \<lparr>magic_num = load32 m a, block_size = load32 m (a + 4), total_blocks = load32 m (a + 8),
     total_inodes = load32 m (a + 12), inode_bitmap_firstblock = load32 m (a + 16),
     inode_bitmap_blocks = load32 m (a + 20), inode_firstblock = load32 m (a + 24),
     inode_blocks = load32 m (a + 28), data_bitmap_firstblock = load32 m (a + 32),
     data_bitmap_blocks = load32 m (a + 36), data_firstblock = load32 m (a + 40), data_blocks = load32 m (a + 44)\<rparr>"

end
