(* ===== verification/Bitmap.thy ===== *)
theory Bitmap
  imports FsState
begin

text \<open>
  The two bitmaps of the disk (\<open>fs/bitmap.c\<close>): allocation of the first clear bit, release, and the
  listing of the allocated bits.
\<close>

section \<open>Operations\<close>

definition bit_free :: "pmem \<Rightarrow> u64 \<Rightarrow> nat \<Rightarrow> bool" where
  "bit_free m d i \<longleftrightarrow> m (d + of_nat (i div 8)) AND push_bit (i mod 8) 1 = 0"

fun search_bit :: "nat \<Rightarrow> nat \<Rightarrow> pmem \<Rightarrow> u64 \<Rightarrow> nat option" where
  "search_bit 0 i m d = None"
| "search_bit (Suc n) i m d = (if bit_free m d i then Some i else search_bit n (Suc i) m d)"

definition set_bit_at :: "pmem \<Rightarrow> u64 \<Rightarrow> nat \<Rightarrow> pmem" where
  "set_bit_at m d i = m(d + of_nat (i div 8) := m (d + of_nat (i div 8)) OR push_bit (i mod 8) 1)"

definition clear_bit_at :: "pmem \<Rightarrow> u64 \<Rightarrow> nat \<Rightarrow> pmem" where
  "clear_bit_at m d i = m(d + of_nat (i div 8) := m (d + of_nat (i div 8)) AND NOT (push_bit (i mod 8) 1))"

definition bitmap_search_and_set :: "u32 \<Rightarrow> u32 \<Rightarrow> 'a disk_state_scheme \<Rightarrow> (u32 \<times> 'a disk_state_scheme) res" where
  "bitmap_search_and_set bitmap_block_num valid_count s =
     bnd (buffer_get bitmap_block_num s) (\<lambda>(b, s).
     case search_bit (unat valid_count) 0 (mem s) (data (the_buf s b)) of
       Some i \<Rightarrow>
         bnd (buffer_write b (s\<lparr>mem := set_bit_at (mem s) (data (the_buf s b)) i\<rparr>)) (\<lambda>s.
         bnd (buffer_put b s) (\<lambda>s. Inr (of_nat i, s)))
     | None \<Rightarrow> bnd (buffer_put b s) (\<lambda>s. Inr (-1, s)))"

definition bitmap_clear :: "u32 \<Rightarrow> u32 \<Rightarrow> 'a disk_state_scheme \<Rightarrow> 'a disk_state_scheme res" where
  "bitmap_clear bitmap_block_num index s =
     bnd (buffer_get bitmap_block_num s) (\<lambda>(b, s).
     bnd (buffer_write b (s\<lparr>mem := clear_bit_at (mem s) (data (the_buf s b)) (unat index)\<rparr>)) (\<lambda>s.
     buffer_put b s))"

text \<open>The loop over the blocks of a bitmap that both allocations run, from block \<open>i\<close> on.\<close>

fun bitmap_scan :: "nat \<Rightarrow> u32 \<Rightarrow> u32 \<Rightarrow> u32 \<Rightarrow> u32 \<Rightarrow> 'a disk_state_scheme \<Rightarrow> (u32 \<times> 'a disk_state_scheme) res" where
  "bitmap_scan 0 first base i count s = Inr (-1, s)"
| "bitmap_scan (Suc n) first base i count s =
     (let search_len = if count > BIT_PER_BLOCK then BIT_PER_BLOCK else count in
      bnd (bitmap_search_and_set (first + i) search_len s) (\<lambda>(idx, s).
      if idx \<noteq> -1 then Inr (base + i * BIT_PER_BLOCK + idx, s)
      else bitmap_scan n first base (i + 1) (count - search_len) s))"

definition bitmap_alloc_block :: "'a fs_state_scheme \<Rightarrow> (u32 \<times> 'a fs_state_scheme) res" where
  "bitmap_alloc_block s =
     bitmap_scan (unat (data_bitmap_blocks (sb s))) (data_bitmap_firstblock (sb s)) (data_firstblock (sb s)) 0
       (data_blocks (sb s)) s"

definition bitmap_alloc_inode :: "'a fs_state_scheme \<Rightarrow> (u32 \<times> 'a fs_state_scheme) res" where
  "bitmap_alloc_inode s =
     bitmap_scan (unat (inode_bitmap_blocks (sb s))) (inode_bitmap_firstblock (sb s)) 0 0 (total_inodes (sb s)) s"

definition bitmap_free_block :: "u32 \<Rightarrow> 'a fs_state_scheme \<Rightarrow> 'a fs_state_scheme res" where
  "bitmap_free_block bnum s =
     (let off = bnum - data_firstblock (sb s)
      in bitmap_clear (data_bitmap_firstblock (sb s) + off div BIT_PER_BLOCK) (off mod BIT_PER_BLOCK) s)"

definition bitmap_free_inode :: "u32 \<Rightarrow> 'a fs_state_scheme \<Rightarrow> 'a fs_state_scheme res" where
  "bitmap_free_inode inum s =
     bitmap_clear (inode_bitmap_firstblock (sb s) + inum div BIT_PER_BLOCK) (inum mod BIT_PER_BLOCK) s"

text \<open>
  \<open>bitmap_print\<close>: the bytes of a block, \<open>bits / 8\<close> of them, and in each the bits until \<open>total_bits\<close>
  is reached (the \<open>break\<close> leaves the inner loop only).
\<close>

definition print_bit :: "nat \<Rightarrow> u32 \<Rightarrow> u32 \<Rightarrow> nat \<Rightarrow> nat \<Rightarrow> u32 \<times> 'a fs_state_scheme \<Rightarrow> (u32 \<times> 'a fs_state_scheme) res" where
  "print_bit b global_base total_bits byte shift = (\<lambda>(current_bit, s).
     if current_bit \<ge> total_bits then Inr (current_bit, s)
     else
       bnd (if mem s (data (the_buf s b) + of_nat byte) AND push_bit shift 1 \<noteq> 0
            then kprintf ''%d '' [PInt (global_base + current_bit)] s else Inr s) (\<lambda>s.
       Inr (current_bit + 1, s)))"

definition print_block :: "u32 \<Rightarrow> u32 \<Rightarrow> u32 \<Rightarrow> nat \<Rightarrow> u32 \<times> 'a fs_state_scheme \<Rightarrow> (u32 \<times> 'a fs_state_scheme) res" where
  "print_block first_block global_base total_bits block = (\<lambda>(current_bit, s).
     let bits = if current_bit + BIT_PER_BLOCK > total_bits then total_bits - current_bit else BIT_PER_BLOCK in
     bnd (buffer_get (first_block + of_nat block) s) (\<lambda>(b, s).
     bnd (for_each [0..<unat (bits div 8)] (\<lambda>byte. for_each [0..<8] (print_bit b global_base total_bits byte))
            (current_bit, s)) (\<lambda>(current_bit, s).
     bnd (buffer_put b s) (\<lambda>s. Inr (current_bit, s)))))"

definition bitmap_print :: "bool \<Rightarrow> 'a fs_state_scheme \<Rightarrow> 'a fs_state_scheme res" where
  "bitmap_print print_data_bitmap s =
     bnd (if print_data_bitmap then
            bnd (kprintf ''data bitmap alloced bits:\<newline>'' [] s) (\<lambda>s.
            for_each [0..<unat (data_bitmap_blocks (sb s))]
              (print_block (data_bitmap_firstblock (sb s)) (data_firstblock (sb s)) (data_blocks (sb s))) (0, s))
          else
            bnd (kprintf ''inode bitmap alloced bits:\<newline>'' [] s) (\<lambda>s.
            for_each [0..<unat (inode_bitmap_blocks (sb s))]
              (print_block (inode_bitmap_firstblock (sb s)) 0 (total_inodes (sb s))) (0, s))) (\<lambda>(_, s).
     kprintf ''over!\<newline>\<newline>'' [] s)"

end
