(* ===== verification/Inode.thy ===== *)
theory Inode
  imports Bitmap
begin

text \<open>
  Inodes (\<open>fs/inode.c\<close>): the block map of a file with its direct, single and double indirect
  blocks, the inode cache with its references and locks, and the reads and writes of file data.
  An inode in memory is its index in \<open>inode_cache\<close>.
\<close>

definition inode_init :: "'a fs_state_scheme \<Rightarrow> 'a fs_state_scheme res" where
  "inode_init s = for_each [0..<N_INODE] (\<lambda>i s. Inr (sleeplock_init (LkInodeSlk i) s)) (spinlock_init LkInodeCache s)"

section \<open>The block map\<close>

text \<open>\<open>table[i]\<close> for the table in a buffer.\<close>

definition table_addr :: "nat \<Rightarrow> nat \<Rightarrow> 'a disk_state_scheme \<Rightarrow> u64" where
  "table_addr b i s = data (the_buf s b) + 4 * of_nat i"

definition set_index :: "nat \<Rightarrow> nat \<Rightarrow> u32 \<Rightarrow> 'a fs_state_scheme \<Rightarrow> 'a fs_state_scheme" where
  "set_index ip k v = upd_info ip (\<lambda>d. d\<lparr>i_index := (i_index d)(k := v)\<rparr>)"

fun free_blocks :: "nat \<Rightarrow> u32 \<Rightarrow> 'a fs_state_scheme \<Rightarrow> (bool \<times> 'a fs_state_scheme) res" where
  "free_blocks 0 bn s =
     (if bn = 0 then Inr (True, s) else bnd (bitmap_free_block bn s) (\<lambda>s. Inr (False, s)))"
| "free_blocks (Suc level) bn s =
     (if bn = 0 then Inr (True, s)
      else
        bnd (buffer_get bn s) (\<lambda>(b, s).
        bnd (for_each [0..<1024] (\<lambda>i s.
               bnd (free_blocks level (load32 (mem s) (table_addr b i s)) s) (\<lambda>(meet_empty, s). Inr s)) s) (\<lambda>s.
        bnd (buffer_put b s) (\<lambda>s.
        bnd (bitmap_free_block bn s) (\<lambda>s. Inr (False, s))))))"

text \<open>The three loops of \<open>free_data_blocks\<close> over the slots with their levels; the first empty slot ends them.\<close>

fun free_slots :: "nat \<Rightarrow> (nat \<times> nat) list \<Rightarrow> 'a fs_state_scheme \<Rightarrow> 'a fs_state_scheme res" where
  "free_slots ip [] s = Inr s"
| "free_slots ip ((k, level) # ks) s =
     bnd (free_blocks level (i_index (info s ip) k) s) (\<lambda>(meet_empty, s).
     let s = set_index ip k 0 s in if meet_empty then Inr s else free_slots ip ks s)"

definition free_data_blocks :: "nat \<Rightarrow> 'a fs_state_scheme \<Rightarrow> 'a fs_state_scheme res" where
  "free_data_blocks ip =
     free_slots ip (map (\<lambda>k. (k, 0)) [0..<INODE_INDEX_1] @ map (\<lambda>k. (k, 1)) [INODE_INDEX_1..<INODE_INDEX_2] @
       map (\<lambda>k. (k, 2)) [INODE_INDEX_2..<INODE_INDEX_3])"

definition zero_block :: "u32 \<Rightarrow> 'a disk_state_scheme \<Rightarrow> 'a disk_state_scheme res" where
  "zero_block bn s =
     bnd (buffer_get bn s) (\<lambda>(b, s).
     bnd (buffer_write b (s\<lparr>mem := memset (mem s) (data (the_buf s b)) 0 BLOCK_SIZE\<rparr>)) (\<lambda>s.
     buffer_put b s))"

text \<open>
  The block in slot \<open>k\<close> of the inode, allocated and cleared if there was none; \<open>None\<close>: the disk is full. A number that is
  there is taken as it is, also 0xFFFFFFFF; only the result of the allocation is compared with -1.
\<close>

definition ensure_slot :: "nat \<Rightarrow> nat \<Rightarrow> 'a fs_state_scheme \<Rightarrow> (u32 option \<times> 'a fs_state_scheme) res" where
  "ensure_slot ip k s =
     (if i_index (info s ip) k = 0 then
        bnd (bitmap_alloc_block s) (\<lambda>(bn, s).
        if bn = -1 then Inr (None, s)
        else bnd (zero_block bn (set_index ip k bn s)) (\<lambda>s. Inr (Some (i_index (info s ip) k), s)))
      else Inr (Some (i_index (info s ip) k), s))"

text \<open>The same for entry \<open>i\<close> of the table in buffer \<open>b\<close>, which is then written back.\<close>

definition ensure_entry :: "nat \<Rightarrow> nat \<Rightarrow> 'a fs_state_scheme \<Rightarrow> (u32 option \<times> 'a fs_state_scheme) res" where
  "ensure_entry b i s =
     (let target = load32 (mem s) (table_addr b i s) in
      if target = 0 then
        bnd (bitmap_alloc_block s) (\<lambda>(target, s).
        if target = -1 then Inr (None, s)
        else
          bnd (buffer_write b (s\<lparr>mem := store32 (mem s) (table_addr b i s) target\<rparr>)) (\<lambda>s.
          bnd (zero_block target s) (\<lambda>s. Inr (Some target, s))))
      else Inr (Some target, s))"

text \<open>What \<open>locate_or_add_block\<close> returns for them.\<close>

definition block_code :: "u32 option \<Rightarrow> u32" where
  "block_code v = (case v of None \<Rightarrow> -1 | Some n \<Rightarrow> n)"

definition locate_or_add_block :: "nat \<Rightarrow> u32 \<Rightarrow> 'a fs_state_scheme \<Rightarrow> (u32 \<times> 'a fs_state_scheme) res" where
  "locate_or_add_block ip logical_block_num s =
     (if logical_block_num < 10 then
        bnd (ensure_slot ip (unat logical_block_num) s) (\<lambda>(bn, s). Inr (block_code bn, s))
      else
        let n = logical_block_num - 10 in
        if n < 2 * 1024 then
          bnd (ensure_slot ip (INODE_INDEX_1 + unat (n div 1024)) s) (\<lambda>(bn, s).
          case bn of
            None \<Rightarrow> Inr (-1, s)
          | Some bn \<Rightarrow>
              bnd (buffer_get bn s) (\<lambda>(idx_buf, s).
              bnd (ensure_entry idx_buf (unat (n mod 1024)) s) (\<lambda>(target, s).
              bnd (buffer_put idx_buf s) (\<lambda>s. Inr (block_code target, s)))))
        else
          let n = n - 2 * 1024 in
          if n < 1024 * 1024 then
            bnd (ensure_slot ip INODE_INDEX_2 s) (\<lambda>(bn, s).
            case bn of
              None \<Rightarrow> Inr (-1, s)
            | Some bn \<Rightarrow>
                bnd (buffer_get bn s) (\<lambda>(l2_buf, s).
                bnd (ensure_entry l2_buf (unat (n div 1024)) s) (\<lambda>(l1_block, s).
                case l1_block of
                  None \<Rightarrow> bnd (buffer_put l2_buf s) (\<lambda>s. Inr (-1, s))
                | Some l1_block \<Rightarrow>
                    bnd (buffer_get l1_block s) (\<lambda>(l1_buf, s).
                    bnd (ensure_entry l1_buf (unat (n mod 1024)) s) (\<lambda>(target, s).
                    bnd (buffer_put l1_buf s) (\<lambda>s.
                    bnd (buffer_put l2_buf s) (\<lambda>s. Inr (block_code target, s))))))))
          else Inr (-1, s))"

section \<open>The inode cache\<close>

definition inode_rw :: "nat \<Rightarrow> bool \<Rightarrow> 'a fs_state_scheme \<Rightarrow> 'a fs_state_scheme res" where
  "inode_rw ip write s =
     (let bn = inode_firstblock (sb s) + inode_num (the_inode s ip) div INODE_PER_BLOCK;
          off = inode_num (the_inode s ip) mod INODE_PER_BLOCK
      in bnd (buffer_get bn s) (\<lambda>(b, s).
         let disk_inode = data (the_buf s b) + 64 * ucast off in
         bnd (if write then buffer_write b (s\<lparr>mem := store_inode (mem s) disk_inode (info s ip)\<rparr>)
              else Inr (upd_inode ip (\<lambda>i. i\<lparr>disk_info := load_inode (mem s) disk_inode, valid_info := True\<rparr>) s)) (\<lambda>s.
         buffer_put b s)))"

definition inode_get :: "u32 \<Rightarrow> 'a fs_state_scheme \<Rightarrow> (nat \<times> 'a fs_state_scheme) res" where
  "inode_get inum s =
     bnd (spinlock_acquire LkInodeCache s) (\<lambda>s.
     case List.find (\<lambda>i. inode_num (the_inode s i) = inum \<and> valid_info (the_inode s i)) [0..<N_INODE] of
       Some i \<Rightarrow>
         bnd (spinlock_release LkInodeCache (upd_inode i (\<lambda>ip. ip\<lparr>i_ref := i_ref ip + 1\<rparr>) s)) (\<lambda>s. Inr (i, s))
     | None \<Rightarrow>
         (case List.find (\<lambda>i. i_ref (the_inode s i) = 0) [0..<N_INODE] of
            None \<Rightarrow> Inl (Panic ''inode_get: no inodes'')
          | Some i \<Rightarrow>
              bnd (spinlock_release LkInodeCache
                     (upd_inode i (\<lambda>ip. ip\<lparr>inode_num := inum, i_ref := 1, valid_info := False\<rparr>) s)) (\<lambda>s.
              Inr (i, s))))"

definition inode_lock :: "nat \<Rightarrow> 'a fs_state_scheme \<Rightarrow> 'a fs_state_scheme res" where
  "inode_lock ip s =
     (if i_ref (the_inode s ip) < 1 then Inl (Panic ''inode_lock'')
      else
        bnd (sleeplock_acquire (LkInodeSlk ip) s) (\<lambda>s.
        if \<not> valid_info (the_inode s ip) then inode_rw ip False s else Inr s))"

definition inode_unlock :: "nat \<Rightarrow> 'a fs_state_scheme \<Rightarrow> 'a fs_state_scheme res" where
  "inode_unlock ip s =
     bnd (sleeplock_holding (LkInodeSlk ip) s) (\<lambda>(h, s).
     if \<not> h \<or> i_ref (the_inode s ip) < 1 then Inl (Panic ''inode_unlock'')
     else sleeplock_release (LkInodeSlk ip) s)"

text \<open>\<open>None\<close>: no inode is free.\<close>

definition inode_create :: "u16 \<Rightarrow> u16 \<Rightarrow> u16 \<Rightarrow> 'a fs_state_scheme \<Rightarrow> (nat option \<times> 'a fs_state_scheme) res" where
  "inode_create type major minor s =
     bnd (bitmap_alloc_inode s) (\<lambda>(inum, s).
     if inum = -1 then Inr (None, s)
     else
       bnd (inode_get inum s) (\<lambda>(ip, s).
       bnd (inode_lock ip s) (\<lambda>s.
       bnd (inode_rw ip True (upd_info ip (\<lambda>d. d\<lparr>i_type := type, i_major := major, i_minor := minor, i_nlink := 1,
              i_size := 0, i_index := (\<lambda>k. if k < INODE_INDEX_3 then 0 else i_index d k)\<rparr>) s)) (\<lambda>s.
       bnd (inode_unlock ip s) (\<lambda>s. Inr (Some ip, s))))))"

definition inode_dup :: "nat \<Rightarrow> 'a fs_state_scheme \<Rightarrow> (nat \<times> 'a fs_state_scheme) res" where
  "inode_dup ip s =
     bnd (spinlock_acquire LkInodeCache s) (\<lambda>s.
     bnd (spinlock_release LkInodeCache (upd_inode ip (\<lambda>i. i\<lparr>i_ref := i_ref i + 1\<rparr>) s)) (\<lambda>s. Inr (ip, s)))"

definition inode_delete :: "nat \<Rightarrow> 'a fs_state_scheme \<Rightarrow> 'a fs_state_scheme res" where
  "inode_delete ip s =
     bnd (free_data_blocks ip s) (\<lambda>s.
     bnd (inode_rw ip True (upd_info ip (\<lambda>d. d\<lparr>i_size := 0\<rparr>) s)) (\<lambda>s.
     bitmap_free_inode (inode_num (the_inode s ip)) s))"

definition inode_put :: "nat \<Rightarrow> 'a fs_state_scheme \<Rightarrow> 'a fs_state_scheme res" where
  "inode_put ip s =
     bnd (spinlock_acquire LkInodeCache s) (\<lambda>s.
     bnd (if i_ref (the_inode s ip) = 1 \<and> valid_info (the_inode s ip) \<and> i_nlink (info s ip) = 0 then
            bnd (spinlock_release LkInodeCache s) (\<lambda>s.
            bnd (inode_lock ip s) (\<lambda>s.
            bnd (inode_delete ip s) (\<lambda>s.
            bnd (inode_unlock ip (upd_inode ip (\<lambda>i. i\<lparr>valid_info := False\<rparr>) s)) (\<lambda>s.
            spinlock_acquire LkInodeCache s))))
          else Inr s) (\<lambda>s.
     spinlock_release LkInodeCache (upd_inode ip (\<lambda>i. i\<lparr>i_ref := i_ref i - 1\<rparr>) s)))"

section \<open>File data\<close>

text \<open>The piece of \<open>[cur, stop)\<close> that lies in the block of \<open>cur\<close>.\<close>

definition piece :: "u32 \<Rightarrow> u32 \<Rightarrow> u32" where
  "piece cur stop = (let n = BLOCK_SIZE - cur mod BLOCK_SIZE in if n > stop - cur then stop - cur else n)"

lemma piece_bounds:
  assumes "cur < stop"
  shows "0 < unat (piece cur stop)" "unat (cur + piece cur stop) = unat cur + unat (piece cur stop)"
    "unat cur + unat (piece cur stop) \<le> unat stop" "unat cur mod 4096 + unat (piece cur stop) \<le> 4096"
proof -
  have m: "unat (cur mod 4096) = unat cur mod 4096" by (simp add: unat_mod)
  have "cur mod 4096 \<le> 4096" by (simp add: word_le_nat_alt unat_mod order_less_imp_le)
  then have b: "unat (4096 - cur mod 4096) = 4096 - unat cur mod 4096" by (simp add: unat_sub m)
  have l: "unat cur < unat stop" using assms by (simp add: word_less_nat_alt)
  have d: "unat (stop - cur) = unat stop - unat cur" using assms by (simp add: unat_sub order_less_imp_le)
  show *: "0 < unat (piece cur stop)" "unat cur + unat (piece cur stop) \<le> unat stop"
    "unat cur mod 4096 + unat (piece cur stop) \<le> 4096"
    using b l d by (auto simp: piece_def Let_def word_less_nat_alt)
  have "unat stop < 2 ^ 32" using unsigned_less[of stop, where 'a = nat] by simp
  then show "unat (cur + piece cur stop) = unat cur + unat (piece cur stop)"
    using *(2) by (simp add: unat_word_ariths)
qed

lemma piece_decreases: "cur < stop \<Longrightarrow> unat stop - unat (cur + piece cur stop) < unat stop - unat cur"
  using piece_bounds[of cur stop] by linarith

text \<open>The \<open>is_user\<close> flags of the two transfers are not looked at.\<close>

function read_loop :: "nat \<Rightarrow> u64 \<Rightarrow> u32 \<Rightarrow> u32 \<Rightarrow> u32 \<Rightarrow> 'a fs_state_scheme \<Rightarrow> (u32 \<times> 'a fs_state_scheme) res" where
  "read_loop ip dst cur stop tot s =
     (if cur < stop then
        bnd (locate_or_add_block ip (cur div BLOCK_SIZE) s) (\<lambda>(phys_blk, s).
        if phys_blk = -1 then Inr (tot, s)
        else
          let n = piece cur stop in
          bnd (buffer_get phys_blk s) (\<lambda>(b, s).
          let s = s\<lparr>mem := memcpy (mem s) (dst + ucast tot) (data (the_buf s b) + ucast (cur mod BLOCK_SIZE)) n\<rparr>
          in bnd (buffer_put b s) (\<lambda>s. read_loop ip dst (cur + n) stop (tot + n) s)))
      else Inr (tot, s))"
  by pat_completeness auto
termination
  by (relation "measure (\<lambda>(ip, dst, cur, stop, tot, s). unat stop - unat cur)") (use piece_decreases in auto)

function write_loop :: "nat \<Rightarrow> u64 \<Rightarrow> u32 \<Rightarrow> u32 \<Rightarrow> u32 \<Rightarrow> 'a fs_state_scheme \<Rightarrow> (u32 \<times> 'a fs_state_scheme) res" where
  "write_loop ip src cur stop tot s =
     (if cur < stop then
        bnd (locate_or_add_block ip (cur div BLOCK_SIZE) s) (\<lambda>(phys_blk, s).
        if phys_blk = -1 then Inr (tot, s)
        else
          let n = piece cur stop in
          bnd (buffer_get phys_blk s) (\<lambda>(b, s).
          let s = s\<lparr>mem := memcpy (mem s) (data (the_buf s b) + ucast (cur mod BLOCK_SIZE)) (src + ucast tot) n\<rparr>
          in bnd (buffer_write b s) (\<lambda>s.
             bnd (buffer_put b s) (\<lambda>s. write_loop ip src (cur + n) stop (tot + n) s))))
      else Inr (tot, s))"
  by pat_completeness auto
termination
  by (relation "measure (\<lambda>(ip, src, cur, stop, tot, s). unat stop - unat cur)") (use piece_decreases in auto)

declare read_loop.simps [simp del] write_loop.simps [simp del]

definition inode_read_data :: "nat \<Rightarrow> u32 \<Rightarrow> u32 \<Rightarrow> u64 \<Rightarrow> bool \<Rightarrow> 'a fs_state_scheme \<Rightarrow> (u32 \<times> 'a fs_state_scheme) res" where
  "inode_read_data ip off len dst is_user_dst s =
     (let stop = off + len in
      if i_type (info s ip) \<noteq> INODE_TYPE_DATA \<and> i_type (info s ip) \<noteq> INODE_TYPE_DIR then Inr (0, s)
      else
        let stop = if stop > i_size (info s ip) then i_size (info s ip) else stop
        in read_loop ip dst off stop 0 s)"

definition inode_write_data :: "nat \<Rightarrow> u32 \<Rightarrow> u32 \<Rightarrow> u64 \<Rightarrow> bool \<Rightarrow> 'a fs_state_scheme \<Rightarrow> (u32 \<times> 'a fs_state_scheme) res" where
  "inode_write_data ip off len src is_user_src s =
     (let stop = off + len in
      if stop > 0xFFFFFFFF then Inr (0, s)
      else
        bnd (write_loop ip src off stop 0 s) (\<lambda>(tot, s).
        bnd (if tot > 0 \<and> off + tot > i_size (info s ip)
             then inode_rw ip True (upd_info ip (\<lambda>d. d\<lparr>i_size := off + tot\<rparr>) s) else Inr s) (\<lambda>s.
        Inr (tot, s))))"

text \<open>\<open>inode_type_list[type]\<close> has three entries.\<close>

definition inode_print :: "nat \<Rightarrow> u64 \<Rightarrow> 'a fs_state_scheme \<Rightarrow> 'a fs_state_scheme res" where
  "inode_print ip name s =
     bnd (sleeplock_holding (LkInodeSlk ip) s) (\<lambda>(h, s).
     if \<not> h then Inl (Panic ''inode_print: slk'')
     else
       let i = the_inode s ip; d = info s ip;
           idx = (\<lambda>ks. for_each ks (\<lambda>k. kprintf ''%d '' [PInt (i_index d k)]))
       in
       bnd (kprintf ''inode %s:\<newline>'' [PMem name] s) (\<lambda>s.
       bnd (kprintf ''ref = %d, inode_num = %d, valid_info = %d\<newline>''
              [PInt (i_ref i), PInt (inode_num i), PInt (of_bool (valid_info i))] s) (\<lambda>s.
       if sint (i_type d) < 0 \<or> 3 \<le> sint (i_type d) then Inl Fault
       else
         bnd (kprintf ''type = %s, major = %d, minor = %d, nlink = %d, size = %d\<newline>''
                [PLit ([''DATA'', ''DIR'', ''DEVICE''] ! unat (i_type d)), PInt (scast (i_major d)),
                 PInt (scast (i_minor d)), PInt (scast (i_nlink d)), PInt (i_size d)] s) (\<lambda>s.
         bnd (kprintf ''index_list = [ '' [] s) (\<lambda>s.
         bnd (idx [0..<INODE_INDEX_1] s) (\<lambda>s.
         bnd (kprintf ''] [ '' [] s) (\<lambda>s.
         bnd (idx [INODE_INDEX_1..<INODE_INDEX_2] s) (\<lambda>s.
         bnd (kprintf ''] [ '' [] s) (\<lambda>s.
         bnd (idx [INODE_INDEX_2..<INODE_INDEX_3] s) (\<lambda>s.
         kprintf '']\<newline>\<newline>'' [] s))))))))))"

end
