(* ===== verification/Device.thy ===== *)
theory Device
  imports Inode
begin

text \<open>Device files (\<open>fs/device.c\<close>): the table of drivers and the drivers themselves.\<close>

text \<open>The bytes of a string literal, as \<open>strncmp\<close> reads them.\<close>

definition lit :: "string \<Rightarrow> nat \<Rightarrow> u8" where
  "lit cs i = (if i < length cs then of_char (cs ! i) else 0)"

definition name_chars :: "u8 list \<Rightarrow> string" where
  "name_chars bs = map (\<lambda>c. char_of (unat c)) (takeWhile (\<lambda>c. c \<noteq> 0) bs)"

lemma zero_cut_decreases:
  fixes len w :: u32
  assumes "w < len"
  shows "unat len - unat (w + (if len - w > 4096 then 4096 else len - w)) < unat len - unat w"
proof -
  have l: "unat w < unat len" using assms by (simp add: word_less_nat_alt)
  have d: "unat (len - w) = unat len - unat w" using assms by (simp add: unat_sub order_less_imp_le)
  show ?thesis
  proof (cases "len - w > 4096")
    case True
    then have "4096 < unat len - unat w" using d by (simp add: word_less_nat_alt)
    moreover have "unat (w + 4096) = unat w + 4096"
      using calculation l unsigned_less[of len, where 'a = nat] by (simp add: unat_word_ariths)
    ultimately show ?thesis using True l by simp
  qed (use l in simp)
qed

function zero_loop :: "u32 \<Rightarrow> u64 \<Rightarrow> bool \<Rightarrow> u64 \<Rightarrow> u32 \<Rightarrow> 'a proc_state_scheme \<Rightarrow> (u32 \<times> 'a proc_state_scheme) res" where
  "zero_loop len dst is_user src write_len s =
     (if write_len < len then
        let cut_len = if len - write_len > PGSIZE then PGSIZE else len - write_len in
        bnd (deliver is_user dst src cut_len s) (\<lambda>s.
        zero_loop len (dst + ucast cut_len) is_user src (write_len + cut_len) s)
      else Inr (write_len, s))"
  by pat_completeness auto
termination
  by (relation "measure (\<lambda>(len, dst, u, src, w, s). unat len - unat w)") (use zero_cut_decreases in auto)

declare zero_loop.simps [simp del]

definition zero_read :: "u32 \<Rightarrow> u64 \<Rightarrow> bool \<Rightarrow> 'a proc_state_scheme \<Rightarrow> (u32 \<times> 'a proc_state_scheme) res" where
  "zero_read len dst is_user_dst s =
     bnd (pmem_alloc True s) (\<lambda>(src, s).
     if src = 0 then Inr (0, s)
     else
       bnd (zero_loop len dst is_user_dst src 0 (s\<lparr>mem := memset (mem s) src 0 PGSIZE\<rparr>)) (\<lambda>(n, s).
       bnd (pmem_free src True s) (\<lambda>s. Inr (n, s))))"

definition gpt0_reply :: "nat \<Rightarrow> u32 \<Rightarrow> 'a fs_state_scheme \<Rightarrow> 'a fs_state_scheme res" where
  "gpt0_reply p copy_len s =
     (let says = (\<lambda>cs. strncmp (at (mem s) (lv s L_tmp)) (lit cs) (unat copy_len) = 0) in
      if says ''Hello'' then kprintf ''Hi, I am gpt0!\<newline>'' [] s
      else if says ''Guess who I am'' then
        kprintf ''Your procid is %d and name is %s.\<newline>''
          [PInt (word_of_int (pid (proc_pool s p))), PLit (name_chars (p_name (proc_pool s p)))] s
      else if says ''How many free memory left'' then
        bnd (pmem_stat s) (\<lambda>((k, u), s).
        kprintf ''We have %d free pages in kernel space, %d free pages in user space!\<newline>'' [PInt k, PInt u] s)
      else if says ''Good job'' then kprintf ''Thanks for your kind words!\<newline>'' [] s
      else kprintf ''Sorry, I can not understand it.\<newline>'' [] s)"

definition gpt0_write :: "u32 \<Rightarrow> u64 \<Rightarrow> bool \<Rightarrow> 'a fs_state_scheme \<Rightarrow> (u32 \<times> 'a fs_state_scheme) res" where
  "gpt0_write len src is_user_src s = with_myproc (\<lambda>p.
     let copy_len = if len > 60 then 60 else len in
     bnd (fetch is_user_src (lv s L_tmp) src copy_len s) (\<lambda>s.
     let s = s\<lparr>mem := (mem s)(lv s L_tmp + ucast copy_len := 0)\<rparr> in
     bnd (gpt0_reply p copy_len s) (\<lambda>s. Inr (len, s)))) s"

definition run_device :: "devfun \<Rightarrow> u32 \<Rightarrow> u64 \<Rightarrow> bool \<Rightarrow> 'a fs_state_scheme \<Rightarrow> (u32 \<times> 'a fs_state_scheme) res" where
  "run_device f len addr is_user s =
     (case f of
        device_stdin_read \<Rightarrow> cons_read len addr is_user s
      | device_stdout_write \<Rightarrow> cons_write len addr is_user s
      | device_stderr_write \<Rightarrow> bnd (kprintf ''ERROR: '' [] s) (cons_write len addr is_user)
      | device_zero_read \<Rightarrow> zero_read len addr is_user s
      | device_null_read \<Rightarrow> Inr (0, s)
      | device_null_write \<Rightarrow> Inr (len, s)
      | device_gpt0_write \<Rightarrow> gpt0_write len addr is_user s)"

definition device_register :: "nat \<Rightarrow> string \<Rightarrow> devfun option \<Rightarrow> devfun option \<Rightarrow> 'a fs_state_scheme \<Rightarrow> 'a fs_state_scheme" where
  "device_register index name rd wr s =
     (if index \<ge> unat N_DEVICE then s
      else s\<lparr>device_table := (device_table s)(index := \<lparr>
        dev_name = map (at (mem s) (rodata s name)) [0..<MAXLEN_FILENAME], dev_read = rd, dev_write = wr\<rparr>)\<rparr>)"

definition device_init :: "'a fs_state_scheme \<Rightarrow> 'a fs_state_scheme" where
  "device_init s =
     (let s = s\<lparr>device_table := (\<lambda>i. if i < unat N_DEVICE
                  then \<lparr>dev_name = replicate MAXLEN_FILENAME 0, dev_read = None, dev_write = None\<rparr> else device_table s i)\<rparr>;
          s = device_register 0 ''stdin'' (Some device_stdin_read) None s;
          s = device_register 1 ''stdout'' None (Some device_stdout_write) s;
          s = device_register 2 ''stderr'' None (Some device_stderr_write) s;
          s = device_register 3 ''zero'' (Some device_zero_read) None s;
          s = device_register 4 ''null'' (Some device_null_read) (Some device_null_write) s
      in device_register 5 ''gpt0'' None (Some device_gpt0_write) s)"

definition device_open_check :: "u16 \<Rightarrow> u32 \<Rightarrow> bool" where
  "device_open_check major open_mode \<longleftrightarrow>
     (if major \<ge> N_DEVICE then False
      else if major = 0 then open_mode = 1
      else if major \<in> {1, 2, 5} then open_mode = 2
      else if major = 3 then open_mode = 1
      else major = 4)"

definition device_read_data :: "u16 \<Rightarrow> u32 \<Rightarrow> u64 \<Rightarrow> bool \<Rightarrow> 'a fs_state_scheme \<Rightarrow> (u32 \<times> 'a fs_state_scheme) res" where
  "device_read_data major len dst is_user_dst s =
     (if major \<ge> N_DEVICE then Inr (0, s)
      else case dev_read (device_table s (unat major)) of
             None \<Rightarrow> Inr (0, s) | Some f \<Rightarrow> run_device f len dst is_user_dst s)"

definition device_write_data :: "u16 \<Rightarrow> u32 \<Rightarrow> u64 \<Rightarrow> bool \<Rightarrow> 'a fs_state_scheme \<Rightarrow> (u32 \<times> 'a fs_state_scheme) res" where
  "device_write_data major len src is_user_src s =
     (if major \<ge> N_DEVICE then Inr (0, s)
      else case dev_write (device_table s (unat major)) of
             None \<Rightarrow> Inr (0, s) | Some f \<Rightarrow> run_device f len src is_user_src s)"

end
