(* ===== verification/Dentry.thy ===== *)
theory Dentry
  imports Device
begin

text \<open>
  Directories and paths (\<open>fs/dentry.c\<close>). A directory entry is read into and written from the local
  object \<open>de\<close>, at \<open>lv s L_de\<close>: 60 bytes of name and the inode number.
\<close>

section \<open>Path elements\<close>

text \<open>The scans of \<open>get_element\<close>: over slashes, and to the end of an element.\<close>

partial_function (option) skip_slashes :: "pmem \<Rightarrow> u64 \<Rightarrow> u64 option" where
  "skip_slashes m p = (if m p = 47 then skip_slashes m (p + 1) else Some p)"

partial_function (option) skip_name :: "pmem \<Rightarrow> u64 \<Rightarrow> u64 option" where
  "skip_name m p = (if m p \<noteq> 47 \<and> m p \<noteq> 0 then skip_name m (p + 1) else Some p)"

definition walk :: "u64 option \<Rightarrow> (u64 \<Rightarrow> 'b res) \<Rightarrow> 'b res" where
  "walk q f = (case q of None \<Rightarrow> Inl Hang | Some p \<Rightarrow> f p)"

text \<open>The name goes to address \<open>name\<close>; the result is the rest of the path, 0 at its end.\<close>

definition get_element :: "u64 \<Rightarrow> u64 \<Rightarrow> 'a mem_state_scheme \<Rightarrow> (u64 \<times> 'a mem_state_scheme) res" where
  "get_element path name s =
     walk (skip_slashes (mem s) path) (\<lambda>b.
     if mem s b = 0 then Inr (0, s)
     else
       walk (skip_name (mem s) b) (\<lambda>e.
       let len = ucast (e - b) :: u32;
           len = if sint len \<ge> 60 then 59 else len;
           m = memmove (mem s) name b len;
           s = s\<lparr>mem := m(name + scast len := 0)\<rparr>
       in walk (skip_slashes (mem s) e) (\<lambda>r. Inr (r, s))))"

section \<open>Directory entries\<close>

definition de_name :: "'a io_state_scheme \<Rightarrow> nat \<Rightarrow> u8" where
  "de_name s = at (mem s) (lv s L_de)"

definition de_inum :: "'a io_state_scheme \<Rightarrow> u32" where
  "de_inum s = load32 (mem s) (lv s L_de + 60)"

definition de_is :: "u64 \<Rightarrow> 'a io_state_scheme \<Rightarrow> bool" where
  "de_is name s \<longleftrightarrow> de_name s 0 \<noteq> 0 \<and> strncmp (de_name s) (at (mem s) name) MAXLEN_FILENAME = 0"

abbreviation (input) DENTRY :: u32 where "DENTRY \<equiv> 64"

definition read_de :: "nat \<Rightarrow> u32 \<Rightarrow> 'a fs_state_scheme \<Rightarrow> (u32 \<times> 'a fs_state_scheme) res" where
  "read_de ip off s = inode_read_data ip off DENTRY (lv s L_de) False s"

definition write_de :: "nat \<Rightarrow> u32 \<Rightarrow> 'a fs_state_scheme \<Rightarrow> (u32 \<times> 'a fs_state_scheme) res" where
  "write_de ip off s = inode_write_data ip off DENTRY (lv s L_de) False s"

text \<open>\<open>memset(&de, 0, sizeof(de))\<close>.\<close>

definition clear_de :: "'a fs_state_scheme \<Rightarrow> 'a fs_state_scheme" where
  "clear_de s = s\<lparr>mem := memset (mem s) (lv s L_de) 0 DENTRY\<rparr>"

text \<open>
  The loops over the entries of a directory. \<open>rounds\<close> is enough fuel: one round per 64 bytes of
  the size, and the round that finds the end.
\<close>

definition rounds :: "nat \<Rightarrow> 'a fs_state_scheme \<Rightarrow> nat" where
  "rounds ip s = unat (i_size (info s ip)) div 64 + 2"

fun search_loop :: "nat \<Rightarrow> nat \<Rightarrow> u64 \<Rightarrow> u32 \<Rightarrow> 'a fs_state_scheme \<Rightarrow> (u32 \<times> 'a fs_state_scheme) res" where
  "search_loop 0 ip name off s = Inl Hang"
| "search_loop (Suc n) ip name off s =
     (if off < i_size (info s ip) then
        bnd (read_de ip off s) (\<lambda>(k, s).
        if k \<noteq> DENTRY then Inr (INVALID_INODE_NUM, s)
        else if de_is name s then Inr (de_inum s, s)
        else search_loop n ip name (off + DENTRY) s)
      else Inr (INVALID_INODE_NUM, s))"

definition dentry_search :: "nat \<Rightarrow> u64 \<Rightarrow> 'a fs_state_scheme \<Rightarrow> (u32 \<times> 'a fs_state_scheme) res" where
  "dentry_search ip name s =
     (if i_type (info s ip) \<noteq> INODE_TYPE_DIR then Inr (INVALID_INODE_NUM, s)
      else search_loop (rounds ip s) ip name 0 s)"

text \<open>The first loop of \<open>dentry_create\<close>: \<open>None\<close> when the name exists, else the first empty entry (-1: none).\<close>

fun create_loop :: "nat \<Rightarrow> nat \<Rightarrow> u64 \<Rightarrow> u32 \<Rightarrow> u32 \<Rightarrow> 'a fs_state_scheme \<Rightarrow> (u32 option \<times> 'a fs_state_scheme) res" where
  "create_loop 0 ip name off empty_off s = Inl Hang"
| "create_loop (Suc n) ip name off empty_off s =
     (if off < i_size (info s ip) then
        bnd (read_de ip off s) (\<lambda>(k, s).
        if k \<noteq> DENTRY then Inr (Some empty_off, s)
        else if de_name s 0 = 0 then
          create_loop n ip name (off + DENTRY) (if empty_off = -1 then off else empty_off) s
        else if strncmp (de_name s) (at (mem s) name) MAXLEN_FILENAME = 0 then Inr (None, s)
        else create_loop n ip name (off + DENTRY) empty_off s)
      else Inr (Some empty_off, s))"

definition dentry_create :: "nat \<Rightarrow> u32 \<Rightarrow> u64 \<Rightarrow> 'a fs_state_scheme \<Rightarrow> (u32 \<times> 'a fs_state_scheme) res" where
  "dentry_create ip inum name s =
     (if i_type (info s ip) \<noteq> INODE_TYPE_DIR then Inr (-1, s)
      else
        bnd (create_loop (rounds ip s) ip name 0 (-1) s) (\<lambda>(slot, s).
        case slot of
          None \<Rightarrow> Inr (-1, s)
        | Some empty_off \<Rightarrow>
            let s = clear_de s;
                s = s\<lparr>mem := memmove (mem s) (lv s L_de) name (of_nat (MAXLEN_FILENAME - 1))\<rparr>;
                s = s\<lparr>mem := store32 (mem s) (lv s L_de + 60) inum\<rparr>;
                write_off = if empty_off \<noteq> -1 then empty_off else i_size (info s ip)
            in bnd (write_de ip write_off s) (\<lambda>(k, s).
               if k \<noteq> DENTRY then Inr (-1, s) else Inr (write_off, s))))"

fun delete_loop :: "nat \<Rightarrow> nat \<Rightarrow> u64 \<Rightarrow> u32 \<Rightarrow> 'a fs_state_scheme \<Rightarrow> (u32 \<times> 'a fs_state_scheme) res" where
  "delete_loop 0 ip name off s = Inl Hang"
| "delete_loop (Suc n) ip name off s =
     (if off < i_size (info s ip) then
        bnd (read_de ip off s) (\<lambda>(k, s).
        if k \<noteq> DENTRY then Inr (INVALID_INODE_NUM, s)
        else if de_is name s then
          let inum = de_inum s in
          bnd (write_de ip off (clear_de s)) (\<lambda>(k, s).
          if k \<noteq> DENTRY then Inr (INVALID_INODE_NUM, s) else Inr (inum, s))
        else delete_loop n ip name (off + DENTRY) s)
      else Inr (INVALID_INODE_NUM, s))"

definition dentry_delete :: "nat \<Rightarrow> u64 \<Rightarrow> 'a fs_state_scheme \<Rightarrow> (u32 \<times> 'a fs_state_scheme) res" where
  "dentry_delete ip name s =
     (if i_type (info s ip) \<noteq> INODE_TYPE_DIR then Inr (INVALID_INODE_NUM, s)
      else delete_loop (rounds ip s) ip name 0 s)"

fun print_loop :: "nat \<Rightarrow> nat \<Rightarrow> u32 \<Rightarrow> 'a fs_state_scheme \<Rightarrow> 'a fs_state_scheme res" where
  "print_loop 0 ip off s = Inl Hang"
| "print_loop (Suc n) ip off s =
     (if off < i_size (info s ip) then
        bnd (read_de ip off s) (\<lambda>(k, s).
        if k \<noteq> DENTRY then Inr s
        else
          bnd (if de_name s 0 \<noteq> 0
               then kprintf ''  name: %s, inode: %d\<newline>'' [PMem (lv s L_de), PInt (de_inum s)] s
               else Inr s) (print_loop n ip (off + DENTRY)))
      else Inr s)"

definition dentry_print :: "nat \<Rightarrow> 'a fs_state_scheme \<Rightarrow> 'a fs_state_scheme res" where
  "dentry_print ip s =
     (if i_type (info s ip) \<noteq> INODE_TYPE_DIR then Inr s
      else
        bnd (kprintf ''Directory content (inode %d):\<newline>'' [PInt (inode_num (the_inode s ip))] s) (\<lambda>s.
        print_loop (rounds ip s) ip 0 s))"

text \<open>Both loop conditions of \<open>dentry_transmit\<close>; the result of the read is not looked at.\<close>

fun transmit_loop :: "nat \<Rightarrow> nat \<Rightarrow> u64 \<Rightarrow> u32 \<Rightarrow> bool \<Rightarrow> u32 \<Rightarrow> u32 \<Rightarrow> 'a fs_state_scheme \<Rightarrow>
    (u32 \<times> 'a fs_state_scheme) res" where
  "transmit_loop 0 ip dst len is_user off count s = Inl Hang"
| "transmit_loop (Suc n) ip dst len is_user off count s =
     (if off < i_size (info s ip) \<and> (ucast count :: u64) + 64 \<le> ucast len then
        bnd (read_de ip off s) (\<lambda>(_, s).
        if de_inum s \<noteq> 0 then
          bnd (deliver is_user (dst + ucast count) (lv s L_de) DENTRY s) (\<lambda>s.
          transmit_loop n ip dst len is_user (off + DENTRY) (count + DENTRY) s)
        else transmit_loop n ip dst len is_user (off + DENTRY) count s)
      else Inr (count, s))"

definition dentry_transmit :: "nat \<Rightarrow> u64 \<Rightarrow> u32 \<Rightarrow> bool \<Rightarrow> 'a fs_state_scheme \<Rightarrow> (u32 \<times> 'a fs_state_scheme) res" where
  "dentry_transmit ip dst len is_user_dst s = transmit_loop (rounds ip s) ip dst len is_user_dst 0 0 s"

fun search2_loop :: "nat \<Rightarrow> nat \<Rightarrow> u32 \<Rightarrow> u64 \<Rightarrow> u32 \<Rightarrow> 'a fs_state_scheme \<Rightarrow> (u32 \<times> 'a fs_state_scheme) res" where
  "search2_loop 0 ip inum name off s = Inl Hang"
| "search2_loop (Suc n) ip inum name off s =
     (if off < i_size (info s ip) then
        bnd (read_de ip off s) (\<lambda>(k, s).
        if k \<noteq> DENTRY then Inr (-1, s)
        else if de_inum s = inum then
          Inr (off, s\<lparr>mem := memmove (mem s) name (lv s L_de) (of_nat MAXLEN_FILENAME)\<rparr>)
        else search2_loop n ip inum name (off + DENTRY) s)
      else Inr (-1, s))"

definition dentry_search_2 :: "nat \<Rightarrow> u32 \<Rightarrow> u64 \<Rightarrow> 'a fs_state_scheme \<Rightarrow> (u32 \<times> 'a fs_state_scheme) res" where
  "dentry_search_2 ip inum name s = search2_loop (rounds ip s) ip inum name 0 s"

section \<open>Paths\<close>

text \<open>The fuel of a walk along a path: its length, for each element takes at least one character.\<close>

definition path_fuel :: "u64 \<Rightarrow> 'a mem_state_scheme \<Rightarrow> (nat \<Rightarrow> 'b res) \<Rightarrow> 'b res" where
  "path_fuel path s f = (case strlen (at (mem s) path) of None \<Rightarrow> Inl Hang | Some n \<Rightarrow> f (n + 2))"

definition start_inode :: "u64 \<Rightarrow> 'a fs_state_scheme \<Rightarrow> (nat \<times> 'a fs_state_scheme) res" where
  "start_inode path s =
     (if mem s path = 47 then inode_get ROOT_INODE s
      else with_myproc (\<lambda>p. case cwd (proc_pool s p) of None \<Rightarrow> Inl Fault | Some ip \<Rightarrow> inode_dup ip s) s)"

text \<open>One element of a walk: the directory \<open>ip\<close> is locked, searched and unlocked; \<open>None\<close>: not found.\<close>

definition enter_dir :: "nat \<Rightarrow> u64 \<Rightarrow> 'a fs_state_scheme \<Rightarrow> (nat option \<times> 'a fs_state_scheme) res" where
  "enter_dir ip name s =
     bnd (inode_lock ip s) (\<lambda>s.
     if i_type (info s ip) \<noteq> INODE_TYPE_DIR then
       bnd (inode_unlock ip s) (\<lambda>s. bnd (inode_put ip s) (\<lambda>s. Inr (None, s)))
     else
       bnd (dentry_search ip name s) (\<lambda>(next_inum, s).
       bnd (inode_unlock ip s) (\<lambda>s.
       if next_inum = INVALID_INODE_NUM then bnd (inode_put ip s) (\<lambda>s. Inr (None, s))
       else
         bnd (inode_get next_inum s) (\<lambda>(next_ip, s).
         bnd (inode_put ip s) (\<lambda>s. Inr (Some next_ip, s))))))"

fun path_loop :: "nat \<Rightarrow> nat \<Rightarrow> u64 \<Rightarrow> 'a fs_state_scheme \<Rightarrow> (nat option \<times> 'a fs_state_scheme) res" where
  "path_loop 0 ip path s = Inl Hang"
| "path_loop (Suc n) ip path s =
     bnd (get_element path (lv s L_name) s) (\<lambda>(path, s).
     if path = 0 then Inr (Some ip, s)
     else
       bnd (enter_dir ip (lv s L_name) s) (\<lambda>(nxt, s).
       case nxt of None \<Rightarrow> Inr (None, s) | Some ip \<Rightarrow> path_loop n ip path s))"

definition path_to_inode :: "u64 \<Rightarrow> 'a fs_state_scheme \<Rightarrow> (nat option \<times> 'a fs_state_scheme) res" where
  "path_to_inode path s =
     path_fuel path s (\<lambda>n. bnd (start_inode path s) (\<lambda>(ip, s). path_loop n ip path s))"

text \<open>\<open>__path_to_inode\<close> ignores its first and last arguments.\<close>

definition path_to_inode_at :: "nat option \<Rightarrow> u64 \<Rightarrow> bool \<Rightarrow> 'a fs_state_scheme \<Rightarrow> (nat option \<times> 'a fs_state_scheme) res" where
  "path_to_inode_at cur path name_only = path_to_inode path"

text \<open>\<open>strcpy\<close>, as \<open>dentry.c\<close> defines it: the bytes up to and with the NUL.\<close>

partial_function (option) strcpy_from :: "u64 \<Rightarrow> u64 \<Rightarrow> pmem \<Rightarrow> pmem option" where
  "strcpy_from s t m = (let c = m t; m = m(s := c) in if c \<noteq> 0 then strcpy_from (s + 1) (t + 1) m else Some m)"

fun parent_loop :: "nat \<Rightarrow> nat \<Rightarrow> u64 \<Rightarrow> u64 \<Rightarrow> 'a fs_state_scheme \<Rightarrow> (nat option \<times> 'a fs_state_scheme) res" where
  "parent_loop 0 ip path name s = Inl Hang"
| "parent_loop (Suc n) ip path name s =
     (if path = 0 then Inr (Some ip, s)
      else
        bnd (get_element path (lv s L_temp_name) s) (\<lambda>(rest, s).
        if rest = 0 then Inr (Some ip, s)
        else
          bnd (enter_dir ip name s) (\<lambda>(nxt, s).
          case nxt of
            None \<Rightarrow> Inr (None, s)
          | Some ip \<Rightarrow>
              (case strcpy_from name (lv s L_temp_name) (mem s) of
                 None \<Rightarrow> Inl Hang
               | Some m \<Rightarrow> parent_loop n ip rest name (s\<lparr>mem := m\<rparr>)))))"

definition path_to_parent_inode :: "u64 \<Rightarrow> u64 \<Rightarrow> 'a fs_state_scheme \<Rightarrow> (nat option \<times> 'a fs_state_scheme) res" where
  "path_to_parent_inode path name s =
     path_fuel path s (\<lambda>n.
     bnd (start_inode path s) (\<lambda>(ip, s).
     bnd (get_element path name s) (\<lambda>(path, s). parent_loop n ip path name s)))"

end
