(* ===== verification/Paths.thy ===== *)
theory Paths
  imports Dentry
begin

text \<open>Names in the tree: creation, hard links, removal, and the path of a directory (\<open>fs/dentry.c\<close>).\<close>

text \<open>
  \<open>inode_to_path\<close> builds the path backwards in \<open>buf\<close>, 128 bytes. \<open>pos\<close> goes down in every round;
  below 0 the function writes outside the buffer (\<open>Fault\<close>), so 129 rounds are enough.
\<close>

fun up_loop :: "nat \<Rightarrow> nat \<Rightarrow> int \<Rightarrow> 'a fs_state_scheme \<Rightarrow> ((nat \<times> int) option \<times> 'a fs_state_scheme) res" where
  "up_loop 0 cur pos s = Inl Hang"
| "up_loop (Suc n) cur pos s =
     (if inode_num (the_inode s cur) \<noteq> ROOT_INODE then
        bnd (path_to_inode (rodata s ''..'') s) (\<lambda>(parent, s).
        case parent of
          None \<Rightarrow> bnd (inode_put cur s) (\<lambda>s. Inr (None, s))
        | Some dir \<Rightarrow>
            bnd (dentry_search_2 dir (inode_num (the_inode s cur)) (lv s L_cwd_name) s) (\<lambda>(_, s).
            case strlen (at (mem s) (lv s L_cwd_name)) of
              None \<Rightarrow> Inl Hang
            | Some nlen \<Rightarrow>
                let pos = pos - int nlen in
                if pos < 0 then Inl Fault
                else
                  let s = s\<lparr>mem := memmove (mem s) (lv s L_cwd_buf + word_of_int pos) (lv s L_cwd_name) (of_nat nlen)\<rparr>;
                      pos = pos - 1
                  in if pos < 0 then Inl Fault
                     else
                       bnd (inode_put cur (s\<lparr>mem := (mem s)(lv s L_cwd_buf + word_of_int pos := 47)\<rparr>)) (\<lambda>s.
                       up_loop n dir pos s)))
      else Inr (Some (cur, pos), s))"

definition inode_to_path :: "nat \<Rightarrow> u64 \<Rightarrow> u32 \<Rightarrow> 'a fs_state_scheme \<Rightarrow> (u32 \<times> 'a fs_state_scheme) res" where
  "inode_to_path ip path len s =
     (if i_type (info s ip) \<noteq> INODE_TYPE_DIR then Inr (-1, s)
      else
        bnd (inode_dup ip (s\<lparr>mem := (mem s)(lv s L_cwd_buf + 127 := 0)\<rparr>)) (\<lambda>(cur, s).
        bnd (up_loop 129 cur 127 s) (\<lambda>(r, s).
        case r of
          None \<Rightarrow> Inr (-1, s)
        | Some (cur, pos) \<Rightarrow>
            let s = if pos = 127 then s\<lparr>mem := (mem s)(lv s L_cwd_buf + 126 := 47)\<rparr> else s;
                pos = if pos = 127 then 126 else pos;
                final_len = word_of_int (127 - pos) :: u32
            in if final_len \<ge> len then bnd (inode_put cur s) (\<lambda>s. Inr (-1, s))
               else
                 bnd (inode_put cur (s\<lparr>mem := memmove (mem s) path (lv s L_cwd_buf + word_of_int pos) (final_len + 1)\<rparr>)) (\<lambda>s.
                 Inr (0, s)))))"

text \<open>Leaving a directory that was locked: \<open>inode_unlock(dp); inode_put(dp)\<close>.\<close>

definition leave_dir :: "nat \<Rightarrow> 'a fs_state_scheme \<Rightarrow> 'a fs_state_scheme res" where
  "leave_dir dp s = bnd (inode_unlock dp s) (inode_put dp)"

definition set_nlink :: "nat \<Rightarrow> (u16 \<Rightarrow> u16) \<Rightarrow> 'a fs_state_scheme \<Rightarrow> 'a fs_state_scheme" where
  "set_nlink ip f = upd_info ip (\<lambda>d. d\<lparr>i_nlink := f (i_nlink d)\<rparr>)"

definition path_create_inode :: "u64 \<Rightarrow> u16 \<Rightarrow> u16 \<Rightarrow> u16 \<Rightarrow> 'a fs_state_scheme \<Rightarrow> (nat option \<times> 'a fs_state_scheme) res" where
  "path_create_inode path type major minor s =
     bnd (path_to_parent_inode path (lv s L_pname) s) (\<lambda>(dp, s).
     case dp of
       None \<Rightarrow> Inr (None, s)
     | Some dp \<Rightarrow>
         bnd (inode_lock dp s) (\<lambda>s.
         bnd (dentry_search dp (lv s L_pname) s) (\<lambda>(found, s).
         if found \<noteq> INVALID_INODE_NUM then bnd (leave_dir dp s) (\<lambda>s. Inr (None, s))
         else
           bnd (inode_create type major minor s) (\<lambda>(ip, s).
           case ip of
             None \<Rightarrow> bnd (leave_dir dp s) (\<lambda>s. Inr (None, s))
           | Some ip \<Rightarrow>
               bnd (inode_lock ip s) (\<lambda>s.
               bnd (inode_rw ip True (set_nlink ip (\<lambda>_. 1) s)) (\<lambda>s.
               bnd (if type = INODE_TYPE_DIR then
                      bnd (dentry_create ip (inode_num (the_inode s ip)) (rodata s ''.'') s) (\<lambda>(_, s).
                      bnd (dentry_create ip (inode_num (the_inode s dp)) (rodata s ''..'') s) (\<lambda>(_, s).
                      inode_rw ip True (set_nlink ip (\<lambda>n. n + 1) s)))
                    else Inr s) (\<lambda>s.
               bnd (dentry_create dp (inode_num (the_inode s ip)) (lv s L_pname) s) (\<lambda>(_, s).
               bnd (inode_unlock ip s) (\<lambda>s.
               bnd (leave_dir dp s) (\<lambda>s. Inr (Some ip, s)))))))))))"

definition path_link :: "u64 \<Rightarrow> u64 \<Rightarrow> 'a fs_state_scheme \<Rightarrow> (u32 \<times> 'a fs_state_scheme) res" where
  "path_link old_path new_path s =
     bnd (path_to_inode old_path s) (\<lambda>(ip, s).
     case ip of
       None \<Rightarrow> Inr (-1, s)
     | Some ip \<Rightarrow>
         if i_type (info s ip) = INODE_TYPE_DIR then bnd (inode_put ip s) (\<lambda>s. Inr (-1, s))
         else
           bnd (path_to_parent_inode new_path (lv s L_pname) s) (\<lambda>(dp, s).
           case dp of
             None \<Rightarrow> bnd (inode_put ip s) (\<lambda>s. Inr (-1, s))
           | Some dp \<Rightarrow>
               bnd (inode_lock dp s) (\<lambda>s.
               bnd (dentry_search dp (lv s L_pname) s) (\<lambda>(found, s).
               if found \<noteq> INVALID_INODE_NUM then
                 bnd (leave_dir dp s) (\<lambda>s. bnd (inode_put ip s) (\<lambda>s. Inr (-1, s)))
               else
                 bnd (dentry_create dp (inode_num (the_inode s ip)) (lv s L_pname) s) (\<lambda>(_, s).
                 bnd (inode_lock ip s) (\<lambda>s.
                 bnd (inode_rw ip True (set_nlink ip (\<lambda>n. n + 1) s)) (\<lambda>s.
                 bnd (inode_unlock ip s) (\<lambda>s.
                 bnd (leave_dir dp s) (\<lambda>s.
                 bnd (inode_put ip s) (\<lambda>s. Inr (0, s))))))))))) "

definition name_is :: "u64 \<Rightarrow> string \<Rightarrow> 'a mem_state_scheme \<Rightarrow> bool" where
  "name_is name cs s \<longleftrightarrow> strncmp (at (mem s) name) (lit cs) MAXLEN_FILENAME = 0"

definition path_unlink :: "u64 \<Rightarrow> 'a fs_state_scheme \<Rightarrow> (u32 \<times> 'a fs_state_scheme) res" where
  "path_unlink path s =
     bnd (path_to_parent_inode path (lv s L_pname) s) (\<lambda>(dp, s).
     case dp of
       None \<Rightarrow> Inr (-1, s)
     | Some dp \<Rightarrow>
         bnd (inode_lock dp s) (\<lambda>s.
         if name_is (lv s L_pname) ''.'' s \<or> name_is (lv s L_pname) ''..'' s then
           bnd (leave_dir dp s) (\<lambda>s. Inr (-1, s))
         else
           bnd (dentry_delete dp (lv s L_pname) s) (\<lambda>(inum, s).
           if inum = INVALID_INODE_NUM then bnd (leave_dir dp s) (\<lambda>s. Inr (-1, s))
           else
             bnd (inode_get inum s) (\<lambda>(ip, s).
             bnd (inode_lock ip s) (\<lambda>s.
             bnd (if sint (i_nlink (info s ip)) > 0 then
                    bnd (inode_rw ip True (set_nlink ip (\<lambda>n. n - 1) s)) (\<lambda>s.
                    if i_type (info s ip) = INODE_TYPE_DIR
                    then inode_rw dp True (set_nlink dp (\<lambda>n. n - 1) s) else Inr s)
                  else Inr s) (\<lambda>s.
             bnd (leave_dir ip s) (\<lambda>s.
             bnd (leave_dir dp s) (\<lambda>s. Inr (0, s))))))))) "

end
