(* ===== verification/File.thy ===== *)
theory File
  imports Paths
begin

text \<open>
  Open files (\<open>fs/fs.c\<close>): the file table with its references, opening, reading, writing and
  seeking, and the start of the file system. A file is its index in \<open>file_table\<close>.
\<close>

definition file_init :: "'a fs_state_scheme \<Rightarrow> 'a fs_state_scheme res" where
  "file_init s =
     bnd (spinlock_acquire LkFileTable (spinlock_init LkFileTable s)) (\<lambda>s.
     bnd (for_each [0..<N_FILE] (\<lambda>i s. Inr (upd_file i (\<lambda>f. f\<lparr>f_ref := 0\<rparr>) s)) s) (\<lambda>s.
     spinlock_release LkFileTable s))"

text \<open>\<open>reg\<close> and \<open>pages\<close>: the registers of the disk and the address of its queue, as in \<open>virtio_disk_init\<close>.\<close>

definition fs_init :: "(nat \<Rightarrow> u32) \<Rightarrow> u64 \<Rightarrow> 'a fs_state_scheme \<Rightarrow> 'a fs_state_scheme res" where
  "fs_init reg pages s =
     bnd (kprintf ''fs_init ... \<newline>'' [] s) (\<lambda>s.
     bnd (virtio_disk_init reg pages s) (\<lambda>(_, s).
     bnd (buffer_init s) (\<lambda>s.
     bnd (buffer_get 0 s) (\<lambda>(b, s).
     bnd (buffer_put b (s\<lparr>sb := load_super (mem s) (data (the_buf s b))\<rparr>)) (\<lambda>s.
     if magic_num (sb s) \<noteq> 0x12341234 then Inl (Panic ''fs_init: invalid magic number'')
     else
       bnd (inode_init s) (\<lambda>s.
       bnd (file_init s) (\<lambda>s.
       let s = device_init s in
       kprintf ''fs_init: done. Magic 0x%x\<newline>'' [PInt (magic_num (sb s))] s)))))))"

definition file_alloc :: "'a fs_state_scheme \<Rightarrow> (nat option \<times> 'a fs_state_scheme) res" where
  "file_alloc s =
     bnd (spinlock_acquire LkFileTable s) (\<lambda>s.
     case List.find (\<lambda>i. f_ref (file_table s i) = 0) [0..<N_FILE] of
       Some i \<Rightarrow>
         bnd (spinlock_release LkFileTable (upd_file i (\<lambda>_. \<lparr>f_ip = None, readable = False, writable = False,
                offset = 0, f_ref = 1\<rparr>) s)) (\<lambda>s. Inr (Some i, s))
     | None \<Rightarrow> bnd (spinlock_release LkFileTable s) (\<lambda>s. Inr (None, s)))"

definition file_dup :: "nat \<Rightarrow> 'a fs_state_scheme \<Rightarrow> (nat \<times> 'a fs_state_scheme) res" where
  "file_dup f s =
     bnd (spinlock_acquire LkFileTable s) (\<lambda>s.
     if f_ref (file_table s f) < 1 then Inl (Panic ''file_dup'')
     else
       bnd (spinlock_release LkFileTable (upd_file f (\<lambda>x. x\<lparr>f_ref := f_ref x + 1\<rparr>) s)) (\<lambda>s. Inr (f, s)))"

definition file_close :: "nat \<Rightarrow> 'a fs_state_scheme \<Rightarrow> 'a fs_state_scheme res" where
  "file_close f s =
     bnd (spinlock_acquire LkFileTable s) (\<lambda>s.
     if f_ref (file_table s f) < 1 then Inl (Panic ''file_close'')
     else
       let s = upd_file f (\<lambda>x. x\<lparr>f_ref := f_ref x - 1\<rparr>) s in
       if f_ref (file_table s f) > 0 then spinlock_release LkFileTable s
       else
         let ip = f_ip (file_table s f) in
         bnd (spinlock_release LkFileTable (upd_file f (\<lambda>x. x\<lparr>f_ref := 0, f_ip := None\<rparr>) s)) (\<lambda>s.
         case ip of None \<Rightarrow> Inr s | Some i \<Rightarrow> inode_put i s))"

text \<open>The mode bits of \<open>file_open\<close>.\<close>

abbreviation (input) O_RDONLY :: u32 where "O_RDONLY \<equiv> 1"
abbreviation (input) O_WRONLY :: u32 where "O_WRONLY \<equiv> 2"
abbreviation (input) O_RDWR :: u32 where "O_RDWR \<equiv> 3"
abbreviation (input) O_CREATE :: u32 where "O_CREATE \<equiv> 4"
abbreviation (input) O_APPEND :: u32 where "O_APPEND \<equiv> 8"

definition mode_readable :: "u32 \<Rightarrow> bool" where
  "mode_readable m \<longleftrightarrow> \<not> (m AND O_WRONLY \<noteq> 0)"

definition mode_writable :: "u32 \<Rightarrow> bool" where
  "mode_writable m \<longleftrightarrow> m AND O_WRONLY \<noteq> 0 \<or> m AND O_RDWR \<noteq> 0"

text \<open>Every failure gives the inode back: \<open>sleeplock_release(&ip->slk); inode_put(ip); return NULL\<close>.\<close>

definition give_up :: "nat \<Rightarrow> 'a fs_state_scheme \<Rightarrow> (nat option \<times> 'a fs_state_scheme) res" where
  "give_up ip s = bnd (sleeplock_release (LkInodeSlk ip) s) (\<lambda>s. bnd (inode_put ip s) (\<lambda>s. Inr (None, s)))"

definition open_inode :: "nat \<Rightarrow> u32 \<Rightarrow> 'a fs_state_scheme \<Rightarrow> (nat option \<times> 'a fs_state_scheme) res" where
  "open_inode ip open_mode s =
     bnd (sleeplock_acquire (LkInodeSlk ip) s) (\<lambda>s.
     if i_type (info s ip) = INODE_TYPE_DIR \<and> open_mode \<noteq> O_RDONLY then give_up ip s
     else if i_type (info s ip) = INODE_TYPE_DEVICE \<and> \<not> device_open_check (i_major (info s ip)) open_mode
     then give_up ip s
     else
       bnd (file_alloc s) (\<lambda>(f, s).
       case f of
         None \<Rightarrow> give_up ip s
       | Some f \<Rightarrow>
           let s = upd_file f (\<lambda>x. x\<lparr>f_ip := Some ip, readable := mode_readable open_mode,
                     writable := mode_writable open_mode,
                     offset := (if open_mode AND O_APPEND \<noteq> 0 \<and> i_type (info s ip) = INODE_TYPE_DATA
                                then i_size (info s ip) else 0)\<rparr>) s
           in bnd (sleeplock_release (LkInodeSlk ip) s) (\<lambda>s. Inr (Some f, s))))"

definition file_open :: "u64 \<Rightarrow> u32 \<Rightarrow> 'a fs_state_scheme \<Rightarrow> (nat option \<times> 'a fs_state_scheme) res" where
  "file_open path open_mode s =
     bnd (if open_mode AND O_CREATE \<noteq> 0 then path_create_inode path INODE_TYPE_DATA 0 0 s
          else path_to_inode_at None path False s) (\<lambda>(ip, s).
     case ip of None \<Rightarrow> Inr (None, s) | Some ip \<Rightarrow> open_inode ip open_mode s)"

text \<open>\<open>f->ip->...\<close> for a file without an inode.\<close>

definition with_ip :: "nat \<Rightarrow> (nat \<Rightarrow> 'b res) \<Rightarrow> 'a fs_state_scheme \<Rightarrow> 'b res" where
  "with_ip f g s = (case f_ip (file_table s f) of None \<Rightarrow> Inl Fault | Some ip \<Rightarrow> g ip)"

definition advance :: "nat \<Rightarrow> u32 \<Rightarrow> 'a fs_state_scheme \<Rightarrow> 'a fs_state_scheme" where
  "advance f bytes s = (if bytes > 0 then upd_file f (\<lambda>x. x\<lparr>offset := offset x + bytes\<rparr>) s else s)"

definition file_read :: "nat \<Rightarrow> u32 \<Rightarrow> u64 \<Rightarrow> bool \<Rightarrow> 'a fs_state_scheme \<Rightarrow> (u32 \<times> 'a fs_state_scheme) res" where
  "file_read f len dst is_user_dst s =
     (if \<not> readable (file_table s f) then Inr (-1, s)
      else with_ip f (\<lambda>ip.
        if i_type (info s ip) = INODE_TYPE_DEVICE then device_read_data (i_major (info s ip)) len dst is_user_dst s
        else
          bnd (sleeplock_acquire (LkInodeSlk ip) s) (\<lambda>s.
          bnd (inode_read_data ip (offset (file_table s f)) len dst is_user_dst s) (\<lambda>(bytes, s).
          bnd (sleeplock_release (LkInodeSlk ip) (advance f bytes s)) (\<lambda>s. Inr (bytes, s))))) s)"

definition file_write :: "nat \<Rightarrow> u32 \<Rightarrow> u64 \<Rightarrow> bool \<Rightarrow> 'a fs_state_scheme \<Rightarrow> (u32 \<times> 'a fs_state_scheme) res" where
  "file_write f len src is_user_src s =
     (if \<not> writable (file_table s f) then Inr (-1, s)
      else with_ip f (\<lambda>ip.
        if i_type (info s ip) = INODE_TYPE_DEVICE then device_write_data (i_major (info s ip)) len src is_user_src s
        else
          bnd (sleeplock_acquire (LkInodeSlk ip) s) (\<lambda>s.
          bnd (inode_write_data ip (offset (file_table s f)) len src is_user_src s) (\<lambda>(bytes, s).
          bnd (sleeplock_release (LkInodeSlk ip) (advance f bytes s)) (\<lambda>s. Inr (bytes, s))))) s)"

definition file_lseek :: "nat \<Rightarrow> u32 \<Rightarrow> u32 \<Rightarrow> 'a fs_state_scheme \<Rightarrow> (u32 \<times> 'a fs_state_scheme) res" where
  "file_lseek f lseek_offset lseek_flag s = with_ip f (\<lambda>ip.
     bnd (sleeplock_acquire (LkInodeSlk ip) s) (\<lambda>s.
     let new_off =
       (if lseek_flag = 0 then Some lseek_offset
        else if lseek_flag = 1 then Some (offset (file_table s f) + lseek_offset)
        else if lseek_flag = 2 then Some (i_size (info s ip) + lseek_offset)
        else None)
     in case new_off of
          None \<Rightarrow> bnd (sleeplock_release (LkInodeSlk ip) s) (\<lambda>s. Inr (-1, s))
        | Some n \<Rightarrow>
            bnd (sleeplock_release (LkInodeSlk ip) (upd_file f (\<lambda>x. x\<lparr>offset := n\<rparr>) s)) (\<lambda>s. Inr (n, s)))) s"

text \<open>\<open>file_stat_t st\<close> in memory: type, nlink, size, inode number, offset; 16 bytes.\<close>

definition store_stat :: "pmem \<Rightarrow> u64 \<Rightarrow> inode \<Rightarrow> u32 \<Rightarrow> pmem" where
  "store_stat m a i off =
     store32 (store32 (store32 (store16 (store16 m a (i_type (disk_info i))) (a + 2) (i_nlink (disk_info i)))
       (a + 4) (i_size (disk_info i))) (a + 8) (inode_num i)) (a + 12) off"

definition file_get_stat :: "nat \<Rightarrow> u64 \<Rightarrow> 'a fs_state_scheme \<Rightarrow> (u32 \<times> 'a fs_state_scheme) res" where
  "file_get_stat f user_dst s = with_ip f (\<lambda>ip.
     bnd (sleeplock_acquire (LkInodeSlk ip) s) (\<lambda>s.
     let s = s\<lparr>mem := store_stat (mem s) (lv s L_st) (the_inode s ip) (offset (file_table s f))\<rparr> in
     bnd (sleeplock_release (LkInodeSlk ip) s) (\<lambda>s.
     bnd (deliver True user_dst (lv s L_st) 16 s) (\<lambda>s. Inr (0, s))))) s"

end
