(* ===== verification/Machine.thy ===== *)
theory Machine
  imports File
begin

text \<open>
  The control and status registers of the running hart (\<open>arch/method.h\<close>), the interrupt controller
  (\<open>trap/plic.c\<close>) and the first instructions of the kernel (\<open>boot/start.c\<close>, \<open>timer_init\<close>).
  A register is read and written by name in \<open>csr\<close>; the bit \<open>SIE\<close> of \<open>sstatus\<close> is the field \<open>sie\<close>
  of the hart, and \<open>tp\<close> is its number. \<open>sym\<close> gives the addresses of the code symbols, \<open>mmio_log\<close>
  the 32-bit writes to device registers, \<open>claims\<close> the answers of the claim register.
\<close>

record machine = fs_state +
  csr :: "string \<Rightarrow> u64"
  sym :: "string \<Rightarrow> u64"
  mmio_log :: "(u64 \<times> u32) list"
  claims :: "u32 list"
  mtime :: u64
  mtimecmp :: "nat \<Rightarrow> u64"
  scratch_pad :: "nat \<Rightarrow> nat \<Rightarrow> u64"

definition set_csr :: "string \<Rightarrow> u64 \<Rightarrow> 'a machine_scheme \<Rightarrow> 'a machine_scheme" where
  "set_csr n x s = s\<lparr>csr := (csr s)(n := x)\<rparr>"

abbreviation (input) SSTATUS_SIE :: u64 where "SSTATUS_SIE \<equiv> 2"
abbreviation (input) SSTATUS_SPP :: u64 where "SSTATUS_SPP \<equiv> 0x100"
abbreviation (input) SSTATUS_SPIE :: u64 where "SSTATUS_SPIE \<equiv> 0x20"

section \<open>Register accessors\<close>

definition r_sstatus :: "'a machine_scheme \<Rightarrow> u64" where
  "r_sstatus s = (csr s ''sstatus'' AND NOT SSTATUS_SIE) OR (if intr_get s then SSTATUS_SIE else 0)"

definition w_sstatus :: "u64 \<Rightarrow> 'a machine_scheme \<Rightarrow> 'a machine_scheme" where
  "w_sstatus x s =
     (let s = set_csr ''sstatus'' x s in if x AND SSTATUS_SIE \<noteq> 0 then intr_on s else intr_off s)"

definition r_tp :: "'a machine_scheme \<Rightarrow> u64" where "r_tp s = of_nat (hart s)"
definition w_tp :: "u64 \<Rightarrow> 'a machine_scheme \<Rightarrow> 'a machine_scheme" where "w_tp x s = s\<lparr>hart := unat x\<rparr>"

definition r_mhartid :: "'a machine_scheme \<Rightarrow> u64" where "r_mhartid s = csr s ''mhartid''"
definition r_mstatus :: "'a machine_scheme \<Rightarrow> u64" where "r_mstatus s = csr s ''mstatus''"
definition r_sip :: "'a machine_scheme \<Rightarrow> u64" where "r_sip s = csr s ''sip''"
definition r_sie :: "'a machine_scheme \<Rightarrow> u64" where "r_sie s = csr s ''sie''"
definition r_mie :: "'a machine_scheme \<Rightarrow> u64" where "r_mie s = csr s ''mie''"
definition r_sepc :: "'a machine_scheme \<Rightarrow> u64" where "r_sepc s = csr s ''sepc''"
definition r_medeleg :: "'a machine_scheme \<Rightarrow> u64" where "r_medeleg s = csr s ''medeleg''"
definition r_mideleg :: "'a machine_scheme \<Rightarrow> u64" where "r_mideleg s = csr s ''mideleg''"
definition r_stvec :: "'a machine_scheme \<Rightarrow> u64" where "r_stvec s = csr s ''stvec''"
definition r_satp :: "'a machine_scheme \<Rightarrow> u64" where "r_satp s = csr s ''satp''"
definition r_scause :: "'a machine_scheme \<Rightarrow> u64" where "r_scause s = csr s ''scause''"
definition r_stval :: "'a machine_scheme \<Rightarrow> u64" where "r_stval s = csr s ''stval''"
definition r_mcounteren :: "'a machine_scheme \<Rightarrow> u64" where "r_mcounteren s = csr s ''mcounteren''"
definition r_time :: "'a machine_scheme \<Rightarrow> u64" where "r_time s = csr s ''time''"
definition w_mstatus :: "u64 \<Rightarrow> 'a machine_scheme \<Rightarrow> 'a machine_scheme" where "w_mstatus = set_csr ''mstatus''"
definition w_mepc :: "u64 \<Rightarrow> 'a machine_scheme \<Rightarrow> 'a machine_scheme" where "w_mepc = set_csr ''mepc''"
definition w_sip :: "u64 \<Rightarrow> 'a machine_scheme \<Rightarrow> 'a machine_scheme" where "w_sip = set_csr ''sip''"
definition w_sie :: "u64 \<Rightarrow> 'a machine_scheme \<Rightarrow> 'a machine_scheme" where "w_sie = set_csr ''sie''"
definition w_mie :: "u64 \<Rightarrow> 'a machine_scheme \<Rightarrow> 'a machine_scheme" where "w_mie = set_csr ''mie''"
definition w_sepc :: "u64 \<Rightarrow> 'a machine_scheme \<Rightarrow> 'a machine_scheme" where "w_sepc = set_csr ''sepc''"
definition w_medeleg :: "u64 \<Rightarrow> 'a machine_scheme \<Rightarrow> 'a machine_scheme" where "w_medeleg = set_csr ''medeleg''"
definition w_mideleg :: "u64 \<Rightarrow> 'a machine_scheme \<Rightarrow> 'a machine_scheme" where "w_mideleg = set_csr ''mideleg''"
definition w_stvec :: "u64 \<Rightarrow> 'a machine_scheme \<Rightarrow> 'a machine_scheme" where "w_stvec = set_csr ''stvec''"
definition w_mtvec :: "u64 \<Rightarrow> 'a machine_scheme \<Rightarrow> 'a machine_scheme" where "w_mtvec = set_csr ''mtvec''"
definition w_satp :: "u64 \<Rightarrow> 'a machine_scheme \<Rightarrow> 'a machine_scheme" where "w_satp = set_csr ''satp''"
definition w_sscratch :: "u64 \<Rightarrow> 'a machine_scheme \<Rightarrow> 'a machine_scheme" where "w_sscratch = set_csr ''sscratch''"
definition w_mscratch :: "u64 \<Rightarrow> 'a machine_scheme \<Rightarrow> 'a machine_scheme" where "w_mscratch = set_csr ''mscratch''"
definition w_mcounteren :: "u64 \<Rightarrow> 'a machine_scheme \<Rightarrow> 'a machine_scheme" where "w_mcounteren = set_csr ''mcounteren''"

section \<open>The interrupt controller\<close>

definition mmio_write :: "u64 \<Rightarrow> u32 \<Rightarrow> 'a machine_scheme \<Rightarrow> 'a machine_scheme" where
  "mmio_write a v s = s\<lparr>mmio_log := mmio_log s @ [(a, v)]\<rparr>"

abbreviation (input) PLIC_BASE :: u64 where "PLIC_BASE \<equiv> 0x0c000000"
abbreviation (input) UART_IRQ :: u32 where "UART_IRQ \<equiv> 10"
abbreviation (input) VIRTIO_IRQ :: u32 where "VIRTIO_IRQ \<equiv> 1"

definition plic_init :: "'a machine_scheme \<Rightarrow> 'a machine_scheme" where
  "plic_init s = mmio_write (PLIC_BASE + ucast VIRTIO_IRQ * 4) 1 (mmio_write (PLIC_BASE + ucast UART_IRQ * 4) 1 s)"

definition plic_inithart :: "'a machine_scheme \<Rightarrow> 'a machine_scheme" where
  "plic_inithart s =
     (let hartid = of_nat (hart s) :: u64;
          s = mmio_write (PLIC_BASE + 0x2080 + hartid * 0x100) (push_bit 10 1 OR push_bit 1 1) s
      in mmio_write (PLIC_BASE + 0x201000 + hartid * 0x2000) 0 s)"

definition plic_claim :: "'a machine_scheme \<Rightarrow> u32 \<times> 'a machine_scheme" where
  "plic_claim s = (case claims s of [] \<Rightarrow> (0, s) | c # cs \<Rightarrow> (c, s\<lparr>claims := cs\<rparr>))"

definition plic_complete :: "u32 \<Rightarrow> 'a machine_scheme \<Rightarrow> 'a machine_scheme" where
  "plic_complete irq s = mmio_write (PLIC_BASE + 0x201004 + of_nat (hart s) * 0x2000) irq s"

section \<open>Machine mode\<close>

abbreviation (input) INTERVAL :: u64 where "INTERVAL \<equiv> 1000000"

definition timer_init :: "'a machine_scheme \<Rightarrow> 'a machine_scheme" where
  "timer_init s =
     (let id = unat (r_tp s);
          s = s\<lparr>mtimecmp := (mtimecmp s)(id := mtime s + INTERVAL)\<rparr>;
          s = s\<lparr>scratch_pad := (scratch_pad s)(id := (scratch_pad s id)
                (3 := 0x2000000 + 0x4000 + 8 * of_nat id, 4 := INTERVAL))\<rparr>;
          s = w_mscratch (sym s ''timer_scratch_pad'' + 40 * of_nat id) s;
          s = w_mtvec (sym s ''timer_vector'') s;
          s = w_mstatus (r_mstatus s OR 8) s
      in w_mie (r_mie s OR 0x80) s)"

text \<open>The result is the state at the \<open>mret\<close>, which goes on in S-mode at \<open>mepc\<close>.\<close>

definition start :: "'a machine_scheme \<Rightarrow> 'a machine_scheme" where
  "start s =
     (let s = w_satp 0 s;
          s = w_tp (r_mhartid s) s;
          s = w_medeleg 0xffff s;
          s = w_mideleg (push_bit 1 1 OR push_bit 5 1 OR push_bit 9 1) s;
          s = w_mcounteren 0x7 s;
          s = timer_init s;
          status = (r_mstatus s AND NOT (push_bit 11 3)) OR push_bit 11 1;
          s = w_mstatus status s
      in w_mepc (sym s ''main'') s)"

lemmas csr_defs = set_csr_def r_sstatus_def w_sstatus_def r_tp_def w_tp_def r_mhartid_def r_mstatus_def r_sip_def r_sie_def r_mie_def r_sepc_def r_medeleg_def r_mideleg_def r_stvec_def r_satp_def r_scause_def r_stval_def r_mcounteren_def r_time_def w_mstatus_def w_mepc_def w_sip_def w_sie_def w_mie_def w_sepc_def w_medeleg_def w_mideleg_def w_stvec_def w_mtvec_def w_satp_def w_sscratch_def w_mscratch_def w_mcounteren_def

end
