(* ===== verification/Lifecycle.thy ===== *)
theory Lifecycle
  imports Machine
begin

text \<open>
  The life of a process (\<open>proc/proc.c\<close>): the process table, creation, \<open>fork\<close>, \<open>exit\<close> and \<open>wait\<close>.
  A process is its index in \<open>proc_pool\<close>; its trapframe is the page at \<open>tf\<close>.
\<close>

section \<open>Trapframes\<close>

text \<open>The offsets of the fields of \<open>trapframe_t\<close> that the C code uses.\<close>

abbreviation (input) TF_satp :: u64 where "TF_satp \<equiv> 0"
abbreviation (input) TF_ksp :: u64 where "TF_ksp \<equiv> 8"
abbreviation (input) TF_trapvector :: u64 where "TF_trapvector \<equiv> 16"
abbreviation (input) TF_epc :: u64 where "TF_epc \<equiv> 24"
abbreviation (input) TF_hartid :: u64 where "TF_hartid \<equiv> 32"
abbreviation (input) TF_sp :: u64 where "TF_sp \<equiv> 48"
abbreviation (input) TF_a0 :: u64 where "TF_a0 \<equiv> 112"
abbreviation (input) TF_a1 :: u64 where "TF_a1 \<equiv> 120"
abbreviation (input) TF_a7 :: u64 where "TF_a7 \<equiv> 168"

definition tf_get :: "nat \<Rightarrow> u64 \<Rightarrow> 'a proc_state_scheme \<Rightarrow> u64" where
  "tf_get p f s = load64 (mem s) (tf (proc_pool s p) + f)"

definition tf_set :: "nat \<Rightarrow> u64 \<Rightarrow> u64 \<Rightarrow> 'a proc_state_scheme \<Rightarrow> 'a proc_state_scheme" where
  "tf_set p f v s = s\<lparr>mem := store64 (mem s) (tf (proc_pool s p) + f) v\<rparr>"

section \<open>The process table\<close>

abbreviation (input) N_OPEN_FILE :: nat where "N_OPEN_FILE \<equiv> 16"

definition proc_init :: "'a proc_state_scheme \<Rightarrow> 'a proc_state_scheme res" where
  "proc_init s =
     (let s = spinlock_init LkPid s; s = spinlock_init LkLifecycle s in
      for_each [0..<N_PROC] (\<lambda>i s.
        let s = spinlock_init (LkProc i) s in
        Inr (upd_proc i (\<lambda>p. p\<lparr>p_state := UNUSED, kstack := KSTACK i, cwd := None,
               open_file := (\<lambda>j. if j < N_OPEN_FILE then None else open_file p j)\<rparr>) s)) s)"

definition proc_pgtbl_init :: "u64 \<Rightarrow> 'a machine_scheme \<Rightarrow> (u64 \<times> 'a machine_scheme) res" where
  "proc_pgtbl_init tf_va s =
     bnd (pmem_alloc True s) (\<lambda>(tab, s).
     if tab = 0 then Inr (0, s)
     else
       bnd (vm_mappages tab TRAMPOLINE (sym s ''trampoline'') PGSIZE (PTE_R OR PTE_X)
              (s\<lparr>mem := memset (mem s) tab 0 PGSIZE\<rparr>)) (\<lambda>s.
       bnd (vm_mappages tab TRAPFRAME tf_va PGSIZE (PTE_R OR PTE_W) s) (\<lambda>s. Inr (tab, s))))"

text \<open>The first unused process, whose lock is then held.\<close>

fun find_unused :: "nat list \<Rightarrow> 'a proc_state_scheme \<Rightarrow> (nat option \<times> 'a proc_state_scheme) res" where
  "find_unused [] s = Inr (None, s)"
| "find_unused (i # is) s =
     bnd (spinlock_acquire (LkProc i) s) (\<lambda>s.
     if p_state (proc_pool s i) = UNUSED then Inr (Some i, s)
     else bnd (spinlock_release (LkProc i) s) (find_unused is))"

definition proc_alloc :: "'a machine_scheme \<Rightarrow> (nat option \<times> 'a machine_scheme) res" where
  "proc_alloc s =
     bnd (find_unused [0..<N_PROC] s) (\<lambda>(p, s).
     case p of
       None \<Rightarrow> Inr (None, s)
     | Some p \<Rightarrow>
         bnd (allocate_pid s) (\<lambda>(n, s).
         let s = upd_proc p (\<lambda>q. q\<lparr>pid := n, p_state := UNUSED\<rparr>) s in
         bnd (pmem_alloc True s) (\<lambda>(frame, s).
         let s = upd_proc p (\<lambda>q. q\<lparr>tf := frame\<rparr>) s in
         if frame = 0 then bnd (spinlock_release (LkProc p) s) (\<lambda>s. Inr (None, s))
         else
           bnd (proc_pgtbl_init frame (s\<lparr>mem := memset (mem s) frame 0 PGSIZE\<rparr>)) (\<lambda>(tab, s).
           let s = upd_proc p (\<lambda>q. q\<lparr>pgtbl := tab\<rparr>) s in
           if tab = 0 then
             bnd (pmem_free frame True s) (\<lambda>s.
             bnd (spinlock_release (LkProc p) (upd_proc p (\<lambda>q. q\<lparr>tf := 0\<rparr>) s)) (\<lambda>s. Inr (None, s)))
           else
             Inr (Some p, upd_proc p (\<lambda>q. q\<lparr>
               ctx := \<lparr>c_ra = sym s ''proc_entry_point'', c_sp = kstack q + PGSIZE, c_s = replicate 12 0\<rparr>,
               parent := None, exit_code := 0, sleep_space := None, heap_top := 0, ustack_npage := 0,
               p_mmap := None, p_name := replicate 16 0, cwd := None,
               open_file := (\<lambda>j. if j < N_OPEN_FILE then None else open_file q j)\<rparr>) s)))))"

text \<open>\<open>proc_free\<close>: the descriptors of the mmap regions, with fuel for an acyclic list of pool nodes.\<close>

fun free_regions :: "nat \<Rightarrow> nat \<Rightarrow> nat option \<Rightarrow> 'a proc_state_scheme \<Rightarrow> 'a proc_state_scheme res" where
  "free_regions 0 p m s = Inl Hang"
| "free_regions (Suc n) p m s =
     (case m of
        None \<Rightarrow> Inr s
      | Some r \<Rightarrow>
          bnd (vm_unmappages (pgtbl (proc_pool s p)) (r_begin (region s r)) (bytes_of (r_npages (region s r))) True s) (\<lambda>s.
          let nxt = r_next (region s r) in
          bnd (mmap_region_free (Some r) s) (free_regions n p nxt)))"

definition close_files :: "nat \<Rightarrow> 'a fs_state_scheme \<Rightarrow> 'a fs_state_scheme res" where
  "close_files p = for_each [0..<N_OPEN_FILE] (\<lambda>i s.
     case open_file (proc_pool s p) i of
       None \<Rightarrow> Inr s
     | Some f \<Rightarrow>
         bnd (file_close f s) (\<lambda>s. Inr (upd_proc p (\<lambda>q. q\<lparr>open_file := (open_file q)(i := None)\<rparr>) s)))"

definition free_memory :: "nat \<Rightarrow> 'a proc_state_scheme \<Rightarrow> 'a proc_state_scheme res" where
  "free_memory p s =
     (let tab = pgtbl (proc_pool s p); ht = heap_top (proc_pool s p); us = ustack_npage (proc_pool s p) in
      bnd (vm_unmappages tab USER_BASE PGSIZE True s) (\<lambda>s.
      bnd (if ht > USER_BASE + PGSIZE
           then vm_unmappages tab (USER_BASE + PGSIZE) (ht - (USER_BASE + PGSIZE)) True s else Inr s) (\<lambda>s.
      bnd (if us > 0 then vm_unmappages tab (TRAPFRAME - us * PGSIZE) (us * PGSIZE) True s else Inr s) (\<lambda>s.
      bnd (free_regions (Suc N_MMAP) p (p_mmap (proc_pool s p)) s) (\<lambda>s.
      let s = upd_proc p (\<lambda>q. q\<lparr>p_mmap := None\<rparr>) s in
      bnd (vm_unmappages tab TRAMPOLINE PGSIZE False s) (\<lambda>s.
      bnd (vm_unmappages tab TRAPFRAME PGSIZE False s) (\<lambda>s.
      pmem_free tab True s)))))))"

definition proc_free :: "nat \<Rightarrow> 'a fs_state_scheme \<Rightarrow> 'a fs_state_scheme res" where
  "proc_free p s =
     bnd (case cwd (proc_pool s p) of
            None \<Rightarrow> Inr s
          | Some ip \<Rightarrow> bnd (inode_put ip s) (\<lambda>s. Inr (upd_proc p (\<lambda>q. q\<lparr>cwd := None\<rparr>) s))) (\<lambda>s.
     bnd (close_files p s) (\<lambda>s.
     bnd (if tf (proc_pool s p) \<noteq> 0 then pmem_free (tf (proc_pool s p)) True s else Inr s) (\<lambda>s.
     let s = upd_proc p (\<lambda>q. q\<lparr>tf := 0\<rparr>) s in
     bnd (if pgtbl (proc_pool s p) \<noteq> 0 then free_memory p s else Inr s) (\<lambda>s.
     spinlock_release (LkProc p) (upd_proc p (\<lambda>q. q\<lparr>pgtbl := 0, pid := 0, parent := None,
       p_name := (p_name q)[0 := 0], p_state := UNUSED\<rparr>) s)))))"

section \<open>The first process, fork\<close>

definition proc_make_first :: "'a machine_scheme \<Rightarrow> 'a machine_scheme res" where
  "proc_make_first s =
     bnd (proc_alloc s) (\<lambda>(p, s).
     let s = s\<lparr>init_process := p\<rparr> in
     bnd (pmem_alloc False s) (\<lambda>(code_mem, s).
     let s = s\<lparr>mem := memmove (mem s) code_mem (sym s ''target_user_initcode'') 16\<rparr> in
     case p of
       None \<Rightarrow> Inl Fault
     | Some p \<Rightarrow>
         let tab = pgtbl (proc_pool s p) in
         bnd (vm_mappages tab USER_BASE code_mem PGSIZE (PTE_R OR PTE_W OR PTE_X OR PTE_U) s) (\<lambda>s.
         bnd (pmem_alloc False s) (\<lambda>(stack_mem, s).
         bnd (vm_mappages tab (TRAPFRAME - PGSIZE) stack_mem PGSIZE (PTE_R OR PTE_W OR PTE_U) s) (\<lambda>s.
         let s = upd_proc p (\<lambda>q. q\<lparr>ustack_npage := 1, heap_top := USER_BASE + PGSIZE\<rparr>) s;
             s = tf_set p TF_epc USER_BASE s;
             s = tf_set p TF_sp TRAPFRAME s;
             s = tf_set p TF_satp (r_satp s) s;
             s = tf_set p TF_ksp (kstack (proc_pool s p) + PGSIZE) s;
             s = tf_set p TF_trapvector (sym s ''trap_user_handler'') s;
             s = tf_set p TF_hartid (r_tp s) s;
             s = upd_proc p (\<lambda>q. q\<lparr>p_name := map of_char ''proczero'' @ drop 8 (p_name q), p_state := RUNNABLE\<rparr>) s
         in spinlock_release (LkProc p) s)))))"

text \<open>The copy of the region list; \<open>tail\<close> is the node whose \<open>next\<close> is \<open>*dst\<close>, \<open>None\<close> for the list head.\<close>

fun copy_list :: "nat \<Rightarrow> nat \<Rightarrow> nat option \<Rightarrow> nat option \<Rightarrow> 'a proc_state_scheme \<Rightarrow> 'a proc_state_scheme res" where
  "copy_list 0 kid src tail s = Inl Hang"
| "copy_list (Suc n) kid src tail s =
     (case src of
        None \<Rightarrow> Inr s
      | Some r \<Rightarrow>
          bnd (mmap_region_alloc s) (\<lambda>(new_node, s).
          let s = upd_region new_node (\<lambda>_. \<lparr>r_begin = r_begin (region s r), r_npages = r_npages (region s r), r_next = None\<rparr>) s;
              s = (case tail of
                     None \<Rightarrow> upd_proc kid (\<lambda>q. q\<lparr>p_mmap := Some new_node\<rparr>) s
                   | Some t \<Rightarrow> upd_region t (\<lambda>x. x\<lparr>r_next := Some new_node\<rparr>) s)
          in copy_list n kid (r_next (region s r)) (Some new_node) s))"

definition dup_files :: "nat \<Rightarrow> nat \<Rightarrow> 'a fs_state_scheme \<Rightarrow> 'a fs_state_scheme res" where
  "dup_files par kid = for_each [0..<N_OPEN_FILE] (\<lambda>i s.
     case open_file (proc_pool s par) i of
       None \<Rightarrow> Inr s
     | Some f \<Rightarrow>
         bnd (file_dup f s) (\<lambda>(f, s). Inr (upd_proc kid (\<lambda>q. q\<lparr>open_file := (open_file q)(i := Some f)\<rparr>) s)))"

text \<open>\<open>*(kid->tf) = *(curr->tf)\<close>: 288 bytes.\<close>

definition copy_frame :: "nat \<Rightarrow> nat \<Rightarrow> 'a proc_state_scheme \<Rightarrow> 'a proc_state_scheme" where
  "copy_frame par kid s =
     (let s = s\<lparr>mem := memcpy (mem s) (tf (proc_pool s kid)) (tf (proc_pool s par)) 288\<rparr>;
          s = tf_set kid TF_a0 0 s
      in tf_set kid TF_ksp (kstack (proc_pool s kid) + PGSIZE) s)"

definition proc_fork :: "'a machine_scheme \<Rightarrow> (int \<times> 'a machine_scheme) res" where
  "proc_fork s = with_myproc (\<lambda>par.
     bnd (proc_alloc s) (\<lambda>(kid, s).
     case kid of
       None \<Rightarrow> Inr (-1, s)
     | Some kid \<Rightarrow>
         let q = proc_pool s par in
         bnd (uvm_copy_pgtbl (pgtbl q) (pgtbl (proc_pool s kid)) (heap_top q) (ustack_npage q) (p_mmap q) s) (\<lambda>s.
         let s = upd_proc kid (\<lambda>c. c\<lparr>heap_top := heap_top q, ustack_npage := ustack_npage q\<rparr>) s in
         bnd (copy_list (Suc N_MMAP) kid (p_mmap q) None s) (\<lambda>s.
         bnd (case cwd q of
                None \<Rightarrow> Inr s
              | Some ip \<Rightarrow> bnd (inode_dup ip s) (\<lambda>(ip, s). Inr (upd_proc kid (\<lambda>c. c\<lparr>cwd := Some ip\<rparr>) s))) (\<lambda>s.
         bnd (dup_files par kid s) (\<lambda>s.
         let s = copy_frame par kid s;
             s = upd_proc kid (\<lambda>c. c\<lparr>p_name := p_name (proc_pool s par), parent := Some par\<rparr>) s;
             n = pid (proc_pool s kid);
             s = upd_proc kid (\<lambda>c. c\<lparr>p_state := RUNNABLE\<rparr>) s
         in bnd (spinlock_release (LkProc kid) s) (\<lambda>s. Inr (n, s)))))))) s"

section \<open>Exit and wait\<close>

definition reparent_one :: "nat \<Rightarrow> nat \<Rightarrow> 'a proc_state_scheme \<Rightarrow> 'a proc_state_scheme res" where
  "reparent_one me i s =
     (if parent (proc_pool s i) = Some me then
        let s = upd_proc i (\<lambda>p. p\<lparr>parent := init_process s\<rparr>) s in
        bnd (spinlock_acquire (LkProc i) s) (\<lambda>s.
        bnd (if p_state (proc_pool s i) = ZOMBIE then proc_wakeup (map_option ChProc (init_process s)) s else Inr s) (\<lambda>s.
        spinlock_release (LkProc i) s))
      else Inr s)"

text \<open>The result is the state at the \<open>swtch\<close> of \<open>proc_sched\<close>, from which the process does not come back.\<close>

definition proc_exit :: "int \<Rightarrow> 'a proc_state_scheme \<Rightarrow> 'a proc_state_scheme res" where
  "proc_exit code s = with_myproc (\<lambda>me.
     if init_process s = Some me then Inl (Panic ''init process exiting'')
     else
       bnd (spinlock_acquire LkLifecycle s) (\<lambda>s.
       bnd (for_each [0..<N_PROC] (reparent_one me) s) (\<lambda>s.
       bnd (spinlock_acquire (LkProc me) s) (\<lambda>s.
       bnd (proc_wakeup (map_option ChProc (parent (proc_pool s me)))
              (upd_proc me (\<lambda>p. p\<lparr>exit_code := code, p_state := ZOMBIE\<rparr>) s)) (\<lambda>s.
       bnd (spinlock_release (LkProc me) s) (\<lambda>s.
       bnd (spinlock_release LkLifecycle s) (\<lambda>s.
       spinlock_acquire (LkProc me) s))))))) s"

text \<open>A kid that \<open>wait\<close> can take, or whether there are children at all.\<close>

datatype wait_result = Reaped int int | Kids bool

fun wait_scan :: "nat \<Rightarrow> nat list \<Rightarrow> bool \<Rightarrow> 'a fs_state_scheme \<Rightarrow> (wait_result \<times> 'a fs_state_scheme) res" where
  "wait_scan me [] have_kids s = Inr (Kids have_kids, s)"
| "wait_scan me (i # is) have_kids s =
     (if parent (proc_pool s i) \<noteq> Some me then wait_scan me is have_kids s
      else
        bnd (spinlock_acquire (LkProc i) s) (\<lambda>s.
        if p_state (proc_pool s i) = ZOMBIE then
          let n = pid (proc_pool s i); code = exit_code (proc_pool s i) in
          bnd (kprintf ''proc %d is wakeup!\<newline>'' [PInt (word_of_int (pid (proc_pool s me)))] s) (\<lambda>s.
          bnd (proc_free i s) (\<lambda>s. Inr (Reaped n code, s)))
        else bnd (spinlock_release (LkProc i) s) (wait_scan me is True)))"

definition proc_wait :: "u64 \<Rightarrow> 'a fs_state_scheme \<Rightarrow> (int \<times> 'a fs_state_scheme) res" where
  "proc_wait addr s =
     bnd (spinlock_acquire LkLifecycle s) (\<lambda>s. with_myproc (\<lambda>me.
     bnd (wait_scan me [0..<N_PROC] False s) (\<lambda>(r, s).
     case r of
       Reaped n code \<Rightarrow>
         bnd (spinlock_release LkLifecycle s) (\<lambda>s.
         if addr \<noteq> 0 then
           let s = s\<lparr>mem := store32 (mem s) (lv s L_c) (word_of_int code)\<rparr> in
           bnd (uvm_copyout (pgtbl (proc_pool s me)) addr (lv s L_c) 4 s) (\<lambda>s. Inr (n, s))
         else Inr (n, s))
     | Kids have_kids \<Rightarrow>
         if \<not> have_kids then bnd (spinlock_release LkLifecycle s) (\<lambda>s. Inr (-1, s))
         else bnd (proc_sleep_enter (ChProc me) LkLifecycle s) (\<lambda>s. Inl Sleep))) s)"

end
