(* ===== verification/Exec.thy ===== *)
theory Exec
  imports Lifecycle
begin

text \<open>
  Loading a program (\<open>proc/exec.c\<close>). The ELF header and the program headers are read into local
  objects; \<open>argv\<close> is the address of an array of string pointers. The fields of a header are read at
  the offsets its C structure gives them: \<open>struct elfhdr\<close> has 72 bytes with \<open>phnum\<close> at 60.
\<close>

abbreviation (input) USTACK_NPAGE :: u64 where "USTACK_NPAGE \<equiv> 1"

definition align_up :: "u64 \<Rightarrow> u64" where
  "align_up a = (a + PGSIZE - 1) AND NOT (PGSIZE - 1)"

definition align_down :: "u64 \<Rightarrow> u64" where
  "align_down a = a AND NOT (PGSIZE - 1)"

text \<open>\<open>pmem_alloc\<close> gives a page or panics; the return value -1 is the branch for a null page.\<close>

function uvm_alloc_loop :: "u64 \<Rightarrow> u64 \<Rightarrow> u64 \<Rightarrow> u32 \<Rightarrow> 'a vm_state_scheme \<Rightarrow> (bool \<times> 'a vm_state_scheme) res" where
  "uvm_alloc_loop tab a last_page perm s =
     (if a < last_page then
        bnd (pmem_alloc False s) (\<lambda>(pa, s).
        if pa = 0 then Inr (False, s)
        else
          bnd (vm_mappages tab a pa PGSIZE perm (s\<lparr>mem := memset (mem s) pa 0 PGSIZE\<rparr>)) (\<lambda>s.
          if a + PGSIZE < a then Inl Hang else uvm_alloc_loop tab (a + PGSIZE) last_page perm s))
      else Inr (True, s))"
  by pat_completeness auto
termination
proof (relation "measure (\<lambda>(tab, a, e, perm, s). unat e - unat a)")
  fix tab a e pa :: u64 and perm :: u32 and s x y :: "'a vm_state_scheme" and r
  assume "a < e" "\<not> a + PGSIZE < a"
  then have "unat a < unat e" "unat a \<le> unat (a + 4096)" "a \<noteq> a + 4096"
    by (auto simp: word_less_nat_alt)
  then have "unat a < unat (a + 4096)" by (metis le_neq_implies_less word_unat_eq_iff)
  with \<open>unat a < unat e\<close> show "((tab, a + PGSIZE, e, perm, y), tab, a, e, perm, s) \<in>
      measure (\<lambda>(tab, a, e, perm, s). unat e - unat a)" by simp
qed simp

declare uvm_alloc_loop.simps [simp del]

definition uvm_alloc :: "u64 \<Rightarrow> u64 \<Rightarrow> u64 \<Rightarrow> u32 \<Rightarrow> 'a vm_state_scheme \<Rightarrow> (bool \<times> 'a vm_state_scheme) res" where
  "uvm_alloc tab from_va stop perm = uvm_alloc_loop tab (align_down from_va) (align_up stop) perm"

text \<open>
  \<open>load_segment\<close>: each page is read to its first byte. The fuel is the number of bytes: a round
  loads at least one.
\<close>

definition seg_piece :: "u64 \<Rightarrow> u32 \<Rightarrow> u32 \<Rightarrow> u32" where
  "seg_piece va i sz =
     (let n = ucast (PGSIZE - (va + ucast i) mod PGSIZE) :: u32 in if n > sz - i then sz - i else n)"

fun load_loop :: "nat \<Rightarrow> u64 \<Rightarrow> u64 \<Rightarrow> nat \<Rightarrow> u32 \<Rightarrow> u32 \<Rightarrow> u32 \<Rightarrow> 'a fs_state_scheme \<Rightarrow> (bool \<times> 'a fs_state_scheme) res" where
  "load_loop fuel tab va ip off i sz s =
     (if i < sz then
        bnd (vm_getpte tab (va + ucast i) False s) (\<lambda>(pte, s).
        if pte = 0 \<or> load64 (mem s) pte AND PTE_V = 0 then Inr (False, s)
        else
          let pa = PTE_TO_PA (load64 (mem s) pte); n = seg_piece va i sz in
          bnd (inode_read_data ip (off + i) n pa False s) (\<lambda>(k, s).
          if k \<noteq> n then Inr (False, s)
          else case fuel of 0 \<Rightarrow> Inl Hang | Suc f \<Rightarrow> load_loop f tab va ip off (i + n) sz s))
      else Inr (True, s))"

declare load_loop.simps [simp del]

definition load_segment :: "u64 \<Rightarrow> u64 \<Rightarrow> nat \<Rightarrow> u32 \<Rightarrow> u32 \<Rightarrow> 'a fs_state_scheme \<Rightarrow> (bool \<times> 'a fs_state_scheme) res" where
  "load_segment tab va ip off sz = load_loop (unat sz) tab va ip off 0 sz"

text \<open>\<open>prepare_stack\<close>: the strings, then the array of their addresses; 0 on failure.\<close>

definition argv_at :: "u64 \<Rightarrow> nat \<Rightarrow> 'a mem_state_scheme \<Rightarrow> u64" where
  "argv_at argv i s = load64 (mem s) (argv + 8 * of_nat i)"

fun push_strings :: "nat \<Rightarrow> nat \<Rightarrow> u64 \<Rightarrow> u64 \<Rightarrow> u64 \<Rightarrow> u64 \<Rightarrow> 'a io_state_scheme \<Rightarrow>
    ((nat \<times> u64) option \<times> 'a io_state_scheme) res" where
  "push_strings fuel argc tab utop argv sp s =
     (if argv_at argv argc s \<noteq> 0 then
        case fuel of
          0 \<Rightarrow> Inr (None, s)
        | Suc f \<Rightarrow>
            let str = argv_at argv argc s in
            (case strlen (at (mem s) str) of
               None \<Rightarrow> Inl Hang
             | Some n \<Rightarrow>
                 let sp = sp - (of_nat n + 1); sp = sp - sp mod 16 in
                 if sp < utop - USTACK_NPAGE * PGSIZE then Inr (None, s)
                 else
                   bnd (uvm_copyout tab sp str (of_nat n + 1) s) (\<lambda>s.
                   push_strings f (Suc argc) tab utop argv sp
                     (s\<lparr>mem := store64 (mem s) (lv s L_stack + 8 * of_nat argc) sp\<rparr>)))
      else Inr (Some (argc, sp), s))"

declare push_strings.simps [simp del]

definition prepare_stack :: "u64 \<Rightarrow> u64 \<Rightarrow> u64 \<Rightarrow> 'a io_state_scheme \<Rightarrow> (u64 \<times> 'a io_state_scheme) res" where
  "prepare_stack tab utop argv s =
     bnd (push_strings 32 0 tab utop argv utop s) (\<lambda>(r, s).
     case r of
       None \<Rightarrow> Inr (0, s)
     | Some (argc, sp) \<Rightarrow>
         let s = s\<lparr>mem := store64 (mem s) (lv s L_stack + 8 * of_nat argc) 0\<rparr>;
             sp = sp - (of_nat argc + 1) * 8; sp = sp - sp mod 16
         in if sp < utop - USTACK_NPAGE * PGSIZE then Inr (0, s)
            else bnd (uvm_copyout tab sp (lv s L_stack) ((of_nat argc + 1) * 8) s) (\<lambda>s. Inr (sp, s)))"

section \<open>\<open>proc_exec\<close>\<close>

text \<open>The label \<open>bad\<close>.\<close>

definition exec_bad :: "u64 \<Rightarrow> nat option \<Rightarrow> 'a fs_state_scheme \<Rightarrow> (int \<times> 'a fs_state_scheme) res" where
  "exec_bad tab ip s =
     bnd (if tab \<noteq> 0 then uvm_destroy_pgtbl tab s else Inr s) (\<lambda>s.
     bnd (case ip of
            None \<Rightarrow> Inr s
          | Some i \<Rightarrow> bnd (sleeplock_release (LkInodeSlk i) s) (inode_put i)) (\<lambda>s.
     Inr (-1, s)))"

definition seg_perm :: "u32 \<Rightarrow> u32" where
  "seg_perm flags =
     (let perm = PTE_R OR PTE_U; perm = if flags AND 2 \<noteq> 0 then perm OR PTE_W else perm
      in if flags AND 1 \<noteq> 0 then perm OR PTE_X else perm)"

text \<open>The loop over the program headers: \<open>None\<close> for \<open>goto bad\<close>, else the end of the highest segment.\<close>

fun load_segments :: "nat \<Rightarrow> u32 \<Rightarrow> u64 \<Rightarrow> nat \<Rightarrow> u64 \<Rightarrow> 'a fs_state_scheme \<Rightarrow> (u64 option \<times> 'a fs_state_scheme) res" where
  "load_segments 0 off tab ip sz s = Inr (Some sz, s)"
| "load_segments (Suc n) off tab ip sz s =
     bnd (inode_read_data ip off 56 (lv s L_ph) False s) (\<lambda>(k, s).
     if k \<noteq> 56 then Inr (None, s)
     else
       let ph = lv s L_ph; vaddr = load64 (mem s) (ph + 16); filesz = load64 (mem s) (ph + 32);
           memsz = load64 (mem s) (ph + 40); po = load64 (mem s) (ph + 8)
       in if load32 (mem s) ph \<noteq> 1 then load_segments n (off + 56) tab ip sz s
          else if memsz < filesz then Inr (None, s)
          else if vaddr + memsz < vaddr then Inr (None, s)
          else
            bnd (uvm_alloc tab vaddr (vaddr + memsz) (seg_perm (load32 (mem s) (ph + 4))) s) (\<lambda>(ok, s).
            if \<not> ok then Inr (None, s)
            else
              let stop = align_up (vaddr + memsz); sz = if stop > sz then stop else sz in
              bnd (load_segment tab vaddr ip (ucast po) (ucast filesz) s) (\<lambda>(ok, s).
              if \<not> ok then Inr (None, s) else load_segments n (off + 56) tab ip sz s)))"

fun count_args :: "nat \<Rightarrow> nat \<Rightarrow> u64 \<Rightarrow> 'a mem_state_scheme \<Rightarrow> nat res" where
  "count_args 0 argc argv s = Inl Hang"
| "count_args (Suc n) argc argv s = (if argv_at argv argc s = 0 then Inr argc else count_args n (Suc argc) argv s)"

text \<open>The part of the path after its last slash.\<close>

definition base_name :: "u64 \<Rightarrow> nat \<Rightarrow> pmem \<Rightarrow> u64" where
  "base_name path n m = foldl (\<lambda>last_one i. if at m path i = 47 then path + of_nat i + 1 else last_one) path [0..<n]"

definition exec_commit :: "nat \<Rightarrow> u64 \<Rightarrow> u64 \<Rightarrow> u64 \<Rightarrow> u64 \<Rightarrow> u64 \<Rightarrow> 'a fs_state_scheme \<Rightarrow> (int \<times> 'a fs_state_scheme) res" where
  "exec_commit p path argv tab stack_top sp s =
     (let old = pgtbl (proc_pool s p);
          s = upd_proc p (\<lambda>q. q\<lparr>pgtbl := tab, heap_top := stack_top, ustack_npage := USTACK_NPAGE\<rparr>) s;
          s = tf_set p TF_epc (load64 (mem s) (lv s L_elf + 24)) s;
          s = tf_set p TF_sp sp s
      in bnd (count_args 34 0 argv s) (\<lambda>argc.
         let s = tf_set p TF_a0 (of_nat argc) s; s = tf_set p TF_a1 sp s in
         case strlen (at (mem s) path) of
           None \<Rightarrow> Inl Hang
         | Some n \<Rightarrow>
             let s = upd_proc p (\<lambda>q. q\<lparr>p_name := map (at (mem s) (base_name path n (mem s))) [0..<16]\<rparr>) s
             in bnd (uvm_destroy_pgtbl old s) (\<lambda>s. Inr (0, s))))"

definition proc_exec :: "u64 \<Rightarrow> u64 \<Rightarrow> 'a machine_scheme \<Rightarrow> (int \<times> 'a machine_scheme) res" where
  "proc_exec path argv s = with_myproc (\<lambda>p.
     bnd (path_to_inode_at None path False s) (\<lambda>(ip, s).
     case ip of
       None \<Rightarrow> Inr (-1, s)
     | Some ip \<Rightarrow>
         bnd (sleeplock_acquire (LkInodeSlk ip) s) (\<lambda>s.
         bnd (inode_read_data ip 0 72 (lv s L_elf) False s) (\<lambda>(k, s).
         if k \<noteq> 72 \<or> load32 (mem s) (lv s L_elf) \<noteq> 0x464C457F then exec_bad 0 (Some ip) s
         else
           bnd (proc_pgtbl_init (tf (proc_pool s p)) s) (\<lambda>(tab, s).
           if tab = 0 then exec_bad 0 (Some ip) s
           else
             bnd (load_segments (unat (load16 (mem s) (lv s L_elf + 60))) (ucast (load64 (mem s) (lv s L_elf + 32)))
                    tab ip 0 s) (\<lambda>(sz, s).
             case sz of
               None \<Rightarrow> exec_bad tab (Some ip) s
             | Some sz \<Rightarrow>
                 bnd (sleeplock_release (LkInodeSlk ip) s) (\<lambda>s.
                 bnd (inode_put ip s) (\<lambda>s.
                 let stack_base = align_up sz; stack_top = stack_base + USTACK_NPAGE * PGSIZE in
                 bnd (uvm_alloc tab stack_base stack_top (PTE_R OR PTE_W OR PTE_U) s) (\<lambda>(ok, s).
                 if \<not> ok then exec_bad tab None s
                 else
                   bnd (prepare_stack tab stack_top argv s) (\<lambda>(sp, s).
                   if sp = 0 then exec_bad tab None s
                   else exec_commit p path argv tab stack_top sp s)))))))))) s"

end
