(* ===== verification/Sysfunc.thy ===== *)
theory Sysfunc
  imports Exec
begin

text \<open>
  System calls (\<open>syscall/syscall.c\<close>, \<open>syscall/sysfunc.c\<close>): the arguments in the trapframe, the service
  functions and their dispatch. Every service gives a \<open>uint64\<close>: a \<open>uint32\<close> result is extended with
  zeros, an \<open>int\<close> with its sign. The checks \<open>arg_... < 0\<close> of the services never hold, as these
  functions give 0. The local arrays \<open>path\<close>, \<open>old_path\<close> and \<open>buf\<close> are \<open>L_path\<close>.
\<close>

section \<open>Arguments\<close>

definition arg_raw :: "nat \<Rightarrow> 'a proc_state_scheme \<Rightarrow> u64 res" where
  "arg_raw n s = with_myproc (\<lambda>p.
     if n \<le> 5 then Inr (tf_get p (TF_a0 + 8 * of_nat n) s) else Inl (Panic ''arg_raw: illegal arg num'')) s"

definition arg_uint32 :: "nat \<Rightarrow> 'a proc_state_scheme \<Rightarrow> u32 res" where
  "arg_uint32 n s = bnd (arg_raw n s) (\<lambda>x. Inr (ucast x))"

definition arg_uint64 :: "nat \<Rightarrow> 'a proc_state_scheme \<Rightarrow> u64 res" where
  "arg_uint64 n s = arg_raw n s"

definition arg_int :: "nat \<Rightarrow> 'a proc_state_scheme \<Rightarrow> u32 res" where
  "arg_int n s = bnd (arg_raw n s) (\<lambda>x. Inr (ucast x))"

definition arg_addr :: "nat \<Rightarrow> 'a proc_state_scheme \<Rightarrow> u64 res" where
  "arg_addr n s = arg_raw n s"

definition arg_str :: "nat \<Rightarrow> u64 \<Rightarrow> u32 \<Rightarrow> 'a proc_state_scheme \<Rightarrow> 'a proc_state_scheme res" where
  "arg_str n dst maxlen s = with_myproc (\<lambda>p.
     bnd (arg_uint64 n s) (\<lambda>addr. uvm_copyin_str (pgtbl (proc_pool s p)) dst addr maxlen s)) s"

abbreviation (input) MAX_PATH :: u32 where "MAX_PATH \<equiv> 128"
abbreviation (input) MAX_ARG :: nat where "MAX_ARG \<equiv> 32"
abbreviation (input) STR_MAXLEN :: u32 where "STR_MAXLEN \<equiv> 127"

text \<open>An \<open>int\<close> as the \<open>uint64\<close> it is converted to.\<close>

definition of_cint :: "int \<Rightarrow> u64" where "of_cint i = word_of_int i"

section \<open>Processes and memory\<close>

definition sys_print_str :: "'a machine_scheme \<Rightarrow> (u64 \<times> 'a machine_scheme) res" where
  "sys_print_str s =
     bnd (arg_str 0 (lv s L_path) STR_MAXLEN s) (\<lambda>s. bnd (kprintf ''%s'' [PMem (lv s L_path)] s) (\<lambda>s. Inr (0, s)))"

definition sys_print_int :: "'a machine_scheme \<Rightarrow> (u64 \<times> 'a machine_scheme) res" where
  "sys_print_int s = bnd (arg_int 0 s) (\<lambda>v. bnd (kprintf ''%d'' [PInt v] s) (\<lambda>s. Inr (0, s)))"

definition sys_brk :: "'a machine_scheme \<Rightarrow> (u64 \<times> 'a machine_scheme) res" where
  "sys_brk s = bnd (arg_addr 0 s) (\<lambda>addr. with_myproc (\<lambda>p.
     let tab = pgtbl (proc_pool s p); old_heap = heap_top (proc_pool s p) in
     bnd (if addr > old_heap then uvm_heap_grow tab old_heap (ucast (addr - old_heap)) s
          else if addr < old_heap \<and> addr \<ge> USER_BASE + PGSIZE
          then uvm_heap_ungrow tab old_heap (ucast (old_heap - addr)) s
          else Inr (old_heap, s)) (\<lambda>(h, s).
     Inr (h, upd_proc p (\<lambda>q. q\<lparr>heap_top := h\<rparr>) s))) s)"

text \<open>The number of pages of \<open>len\<close> bytes, computed in 32 bits.\<close>

definition npages_of :: "u32 \<Rightarrow> u32" where
  "npages_of len = (len + 4096 - 1) div 4096"

definition sys_mmap :: "'a machine_scheme \<Rightarrow> (u64 \<times> 'a machine_scheme) res" where
  "sys_mmap s =
     bnd (arg_addr 0 s) (\<lambda>addr. bnd (arg_int 1 s) (\<lambda>len. bnd (arg_int 2 s) (\<lambda>prot. bnd (arg_int 3 s) (\<lambda>flags.
     bnd (uvm_mmap addr (npages_of len) prot s) (\<lambda>s. Inr (addr, s))))))"

definition sys_munmap :: "'a machine_scheme \<Rightarrow> (u64 \<times> 'a machine_scheme) res" where
  "sys_munmap s =
     bnd (arg_addr 0 s) (\<lambda>addr. bnd (arg_int 1 s) (\<lambda>len.
     bnd (uvm_munmap addr (npages_of len) s) (\<lambda>s. Inr (0, s))))"

definition sys_fork :: "'a machine_scheme \<Rightarrow> (u64 \<times> 'a machine_scheme) res" where
  "sys_fork s = bnd (proc_fork s) (\<lambda>(n, s). Inr (of_cint n, s))"

definition sys_wait :: "'a machine_scheme \<Rightarrow> (u64 \<times> 'a machine_scheme) res" where
  "sys_wait s = bnd (arg_addr 0 s) (\<lambda>addr. bnd (proc_wait addr s) (\<lambda>(n, s). Inr (of_cint n, s)))"

text \<open>\<open>proc_exit\<close> does not come back: the hart is given up for good.\<close>

definition sys_exit :: "'a machine_scheme \<Rightarrow> (u64 \<times> 'a machine_scheme) res" where
  "sys_exit s = bnd (arg_int 0 s) (\<lambda>code. bnd (proc_exit (sint code) s) (\<lambda>s. Inl Sleep))"

definition sys_getpid :: "'a machine_scheme \<Rightarrow> (u64 \<times> 'a machine_scheme) res" where
  "sys_getpid s = with_myproc (\<lambda>p. Inr (of_cint (pid (proc_pool s p)), s)) s"

text \<open>
  One round of the loop of \<open>sys_sleep\<close>: \<open>True\<close> when it ends, \<open>False\<close> with the state at the \<open>swtch\<close> of
  \<open>proc_yield\<close>. The comparison is one of \<open>uint64\<close>: a negative \<open>n\<close> counts as \<open>2 ^ 64 + n\<close>.
\<close>

definition sleep_round :: "u64 \<Rightarrow> u32 \<Rightarrow> 'a machine_scheme \<Rightarrow> (bool \<times> 'a machine_scheme) res" where
  "sleep_round t0 n s =
     bnd (timer_get_ticks s) (\<lambda>(t, s).
     if t - t0 < of_cint (sint n) then bnd (proc_yield_enter s) (\<lambda>s. Inr (False, s)) else Inr (True, s))"

definition sys_sleep :: "'a machine_scheme \<Rightarrow> (u64 \<times> 'a machine_scheme) res" where
  "sys_sleep s =
     bnd (arg_int 0 s) (\<lambda>n. bnd (timer_get_ticks s) (\<lambda>(t0, s).
     bnd (sleep_round t0 n s) (\<lambda>(over, s). if over then Inr (0, s) else Inl Sleep)))"

section \<open>Bitmaps and buffers\<close>

definition sys_alloc_block :: "'a machine_scheme \<Rightarrow> (u64 \<times> 'a machine_scheme) res" where
  "sys_alloc_block s = bnd (bitmap_alloc_block s) (\<lambda>(n, s). Inr (ucast n, s))"

definition sys_free_block :: "'a machine_scheme \<Rightarrow> (u64 \<times> 'a machine_scheme) res" where
  "sys_free_block s = bnd (arg_int 0 s) (\<lambda>n. bnd (bitmap_free_block n s) (\<lambda>s. Inr (0, s)))"

definition sys_alloc_inode :: "'a machine_scheme \<Rightarrow> (u64 \<times> 'a machine_scheme) res" where
  "sys_alloc_inode s = bnd (bitmap_alloc_inode s) (\<lambda>(n, s). Inr (ucast n, s))"

definition sys_free_inode :: "'a machine_scheme \<Rightarrow> (u64 \<times> 'a machine_scheme) res" where
  "sys_free_inode s = bnd (arg_int 0 s) (\<lambda>n. bnd (bitmap_free_inode n s) (\<lambda>s. Inr (0, s)))"

definition sys_show_bitmap :: "'a machine_scheme \<Rightarrow> (u64 \<times> 'a machine_scheme) res" where
  "sys_show_bitmap s = bnd (arg_int 0 s) (\<lambda>n. bnd (bitmap_print (n \<noteq> 0) s) (\<lambda>s. Inr (0, s)))"

text \<open>The address of \<open>buf_cache[i].buf\<close>; a node has 88 bytes.\<close>

definition buf_addr :: "nat \<Rightarrow> 'a machine_scheme \<Rightarrow> u64" where
  "buf_addr i s = sym s ''buf_cache'' + 88 * of_nat i"

definition sys_get_block :: "'a machine_scheme \<Rightarrow> (u64 \<times> 'a machine_scheme) res" where
  "sys_get_block s = bnd (arg_int 0 s) (\<lambda>n. bnd (buffer_get n s) (\<lambda>(b, s). Inr (buf_addr b s, s)))"

definition sys_read_block :: "'a machine_scheme \<Rightarrow> (u64 \<times> 'a machine_scheme) res" where
  "sys_read_block s =
     bnd (arg_int 0 s) (\<lambda>n. bnd (arg_addr 1 s) (\<lambda>user_dst.
     bnd (buffer_get n s) (\<lambda>(b, s). with_myproc (\<lambda>p.
     bnd (uvm_copyout (pgtbl (proc_pool s p)) user_dst (data (the_buf s b)) BLOCK_SIZE s) (\<lambda>s.
     bnd (buffer_put b s) (\<lambda>s. Inr (0, s)))) s)))"

definition sys_write_block :: "'a machine_scheme \<Rightarrow> (u64 \<times> 'a machine_scheme) res" where
  "sys_write_block s =
     bnd (arg_int 0 s) (\<lambda>n. bnd (arg_addr 1 s) (\<lambda>user_src.
     bnd (buffer_get n s) (\<lambda>(b, s). with_myproc (\<lambda>p.
     bnd (uvm_copyin (pgtbl (proc_pool s p)) (data (the_buf s b)) user_src BLOCK_SIZE s) (\<lambda>s.
     bnd (buffer_write b s) (\<lambda>s.
     bnd (buffer_put b s) (\<lambda>s. Inr (0, s))))) s)))"

text \<open>The pointer comes from user space; one that is no buffer of the cache is a wild pointer.\<close>

definition sys_put_block :: "'a machine_scheme \<Rightarrow> (u64 \<times> 'a machine_scheme) res" where
  "sys_put_block s =
     bnd (arg_addr 0 s) (\<lambda>a.
     case List.find (\<lambda>i. buf_addr i s = a) [0..<N_BUFFER] of
       None \<Rightarrow> Inl Fault
     | Some b \<Rightarrow> bnd (buffer_put b s) (\<lambda>s. Inr (0, s)))"

text \<open>\<open>buffer_print_info\<close>: the walk of a list from \<open>node\<close> to its head.\<close>

abbreviation (input) N_BUFFER_TEST :: nat where "N_BUFFER_TEST \<equiv> 8"

fun print_nodes :: "nat \<Rightarrow> bptr \<Rightarrow> bptr option \<Rightarrow> 'a io_state_scheme \<Rightarrow> 'a io_state_scheme res" where
  "print_nodes 0 hd_node node s = Inl Hang"
| "print_nodes (Suc n) hd_node node s =
     (case node of
        None \<Rightarrow> Inl Fault
      | Some q \<Rightarrow>
          if q = hd_node then Inr s
          else
            bnd (node_index q) (\<lambda>i.
            bnd (kprintf ''buffer %d(ref = %d): page(pa = %p) -> block[%d]\<newline>''
                   [PInt (of_nat i), PInt (ref (the_buf s i)), PPtr (data (the_buf s i)), PInt (block_num (the_buf s i))] s)
              (\<lambda>s. print_nodes n hd_node (bn_next (bufs s q)) s)))"

definition buffer_print_info :: "'a io_state_scheme \<Rightarrow> 'a io_state_scheme res" where
  "buffer_print_info s =
     bnd (kassert (N_BUFFER = N_BUFFER_TEST) ''buffer_print_info: invalid N_BUFFER'' s) (\<lambda>s.
     bnd (spinlock_acquire LkBufCache s) (\<lambda>s.
     bnd (kprintf ''buffer_cache information:\<newline>'' [] s) (\<lambda>s.
     bnd (kprintf ''1.active list:\<newline>'' [] s) (\<lambda>s.
     bnd (print_nodes (Suc N_BUFFER) BActive (bn_next (bufs s BActive)) s) (\<lambda>s.
     bnd (kprintf ''over!\<newline>'' [] s) (\<lambda>s.
     bnd (kprintf ''2.inactive list:\<newline>'' [] s) (\<lambda>s.
     bnd (print_nodes (Suc N_BUFFER) BInactive (bn_next (bufs s BInactive)) s) (\<lambda>s.
     bnd (kprintf ''over!\<newline>'' [] s) (\<lambda>s.
     spinlock_release LkBufCache s)))))))))"

definition sys_show_buffer :: "'a machine_scheme \<Rightarrow> (u64 \<times> 'a machine_scheme) res" where
  "sys_show_buffer s = bnd (buffer_print_info s) (\<lambda>s. Inr (0, s))"

definition sys_flush_buffer :: "'a machine_scheme \<Rightarrow> (u64 \<times> 'a machine_scheme) res" where
  "sys_flush_buffer s = bnd (arg_int 0 s) (\<lambda>n. bnd (buffer_freemem n s) (\<lambda>(k, s). Inr (ucast k, s)))"

section \<open>Files\<close>

text \<open>The loop that copies the arguments of \<open>exec\<close> in, from argument \<open>i\<close> on with \<open>n\<close> rounds left.\<close>

fun exec_args :: "nat \<Rightarrow> nat \<Rightarrow> u64 \<Rightarrow> 'a machine_scheme \<Rightarrow> 'a machine_scheme res" where
  "exec_args 0 i argv_ptr s = Inr s"
| "exec_args (Suc n) i argv_ptr s = with_myproc (\<lambda>p.
     let tab = pgtbl (proc_pool s p) in
     bnd (uvm_copyin tab (lv s L_c) (argv_ptr + of_nat i * 8) 8 s) (\<lambda>s.
     let u_arg = load64 (mem s) (lv s L_c); slot = lv s L_argp + 8 * of_nat i in
     if u_arg = 0 then Inr (s\<lparr>mem := store64 (mem s) slot 0\<rparr>)
     else
       bnd (pmem_alloc False s) (\<lambda>(k, s).
       let s = s\<lparr>mem := store64 (mem s) slot k\<rparr> in
       bnd (uvm_copyin_str tab k u_arg 4096 s) (\<lambda>s. exec_args n (Suc i) argv_ptr s)))) s"

fun free_args :: "nat \<Rightarrow> nat \<Rightarrow> 'a machine_scheme \<Rightarrow> 'a machine_scheme res" where
  "free_args 0 i s = Inr s"
| "free_args (Suc n) i s =
     (let a = argv_at (lv s L_argp) i s in
      if a = 0 then Inr s else bnd (pmem_free a False s) (free_args n (Suc i)))"

definition sys_exec :: "'a machine_scheme \<Rightarrow> (u64 \<times> 'a machine_scheme) res" where
  "sys_exec s =
     bnd (arg_str 0 (lv s L_path) MAX_PATH s) (\<lambda>s. bnd (arg_addr 1 s) (\<lambda>argv_ptr.
     bnd (exec_args MAX_ARG 0 argv_ptr s) (\<lambda>s.
     bnd (proc_exec (lv s L_path) (lv s L_argp) s) (\<lambda>(r, s).
     bnd (free_args MAX_ARG 0 s) (\<lambda>s. Inr (of_cint r, s))))))"

text \<open>The first free slot of the table of open files.\<close>

definition free_fd :: "nat \<Rightarrow> 'a proc_state_scheme \<Rightarrow> nat option" where
  "free_fd p s = List.find (\<lambda>i. open_file (proc_pool s p) i = None) [0..<N_OPEN_FILE]"

definition set_fd :: "nat \<Rightarrow> nat \<Rightarrow> nat option \<Rightarrow> 'a proc_state_scheme \<Rightarrow> 'a proc_state_scheme" where
  "set_fd p fd f = upd_proc p (\<lambda>q. q\<lparr>open_file := (open_file q)(fd := f)\<rparr>)"

definition sys_open :: "'a machine_scheme \<Rightarrow> (u64 \<times> 'a machine_scheme) res" where
  "sys_open s =
     bnd (arg_str 0 (lv s L_path) MAX_PATH s) (\<lambda>s. bnd (arg_int 1 s) (\<lambda>mode.
     bnd (file_open (lv s L_path) mode s) (\<lambda>(f, s).
     case f of
       None \<Rightarrow> Inr (-1, s)
     | Some f \<Rightarrow> with_myproc (\<lambda>p.
         case free_fd p s of
           Some i \<Rightarrow> Inr (of_nat i, set_fd p i (Some f) s)
         | None \<Rightarrow> bnd (file_close f s) (\<lambda>s. Inr (-1, s))) s)))"

text \<open>
  \<open>fd < 0 || fd >= N_OPEN_FILE || open_file[fd] == NULL\<close>: \<open>f\<close> runs on the process, the slot and
  the file, else the result is -1.
\<close>

definition with_fd :: "u32 \<Rightarrow> (nat \<Rightarrow> nat \<Rightarrow> nat \<Rightarrow> (u64 \<times> 'a proc_state_scheme) res) \<Rightarrow> 'a proc_state_scheme \<Rightarrow>
    (u64 \<times> 'a proc_state_scheme) res" where
  "with_fd fd f s =
     (if sint fd < 0 \<or> sint fd \<ge> int N_OPEN_FILE then Inr (-1, s)
      else with_myproc (\<lambda>p.
        case open_file (proc_pool s p) (unat fd) of None \<Rightarrow> Inr (-1, s) | Some x \<Rightarrow> f p (unat fd) x) s)"

definition sys_close :: "'a machine_scheme \<Rightarrow> (u64 \<times> 'a machine_scheme) res" where
  "sys_close s =
     bnd (arg_int 0 s) (\<lambda>fd. with_fd fd (\<lambda>p i f.
     bnd (file_close f s) (\<lambda>s. Inr (0, set_fd p i None s))) s)"

definition sys_read :: "'a machine_scheme \<Rightarrow> (u64 \<times> 'a machine_scheme) res" where
  "sys_read s =
     bnd (arg_int 0 s) (\<lambda>fd. bnd (arg_int 1 s) (\<lambda>len. bnd (arg_addr 2 s) (\<lambda>a.
     with_fd fd (\<lambda>p i f. bnd (file_read f len a True s) (\<lambda>(n, s). Inr (ucast n, s))) s)))"

definition sys_write :: "'a machine_scheme \<Rightarrow> (u64 \<times> 'a machine_scheme) res" where
  "sys_write s =
     bnd (arg_int 0 s) (\<lambda>fd. bnd (arg_int 1 s) (\<lambda>len. bnd (arg_addr 2 s) (\<lambda>a.
     with_fd fd (\<lambda>p i f. bnd (file_write f len a True s) (\<lambda>(n, s). Inr (ucast n, s))) s)))"

definition sys_lseek :: "'a machine_scheme \<Rightarrow> (u64 \<times> 'a machine_scheme) res" where
  "sys_lseek s =
     bnd (arg_int 0 s) (\<lambda>fd. bnd (arg_int 1 s) (\<lambda>off. bnd (arg_int 2 s) (\<lambda>flag.
     with_fd fd (\<lambda>p i f. bnd (file_lseek f off flag s) (\<lambda>(n, s). Inr (ucast n, s))) s)))"

definition sys_dup :: "'a machine_scheme \<Rightarrow> (u64 \<times> 'a machine_scheme) res" where
  "sys_dup s =
     bnd (arg_int 0 s) (\<lambda>fd. with_fd fd (\<lambda>p j f.
     case free_fd p s of
       Some i \<Rightarrow> bnd (file_dup f s) (\<lambda>(f, s). Inr (of_nat i, set_fd p i (Some f) s))
     | None \<Rightarrow> Inr (-1, s)) s)"

definition sys_fstat :: "'a machine_scheme \<Rightarrow> (u64 \<times> 'a machine_scheme) res" where
  "sys_fstat s =
     bnd (arg_int 0 s) (\<lambda>fd. bnd (arg_addr 1 s) (\<lambda>a.
     with_fd fd (\<lambda>p i f. bnd (file_get_stat f a s) (\<lambda>(n, s). Inr (ucast n, s))) s))"

text \<open>\<open>sys_get_dentries\<close> does not test \<open>fd\<close>: outside the table the access is a fault.\<close>

definition sys_get_dentries :: "'a machine_scheme \<Rightarrow> (u64 \<times> 'a machine_scheme) res" where
  "sys_get_dentries s =
     bnd (arg_int 0 s) (\<lambda>fd. bnd (arg_addr 1 s) (\<lambda>a. bnd (arg_int 2 s) (\<lambda>len. with_myproc (\<lambda>p.
     if sint fd < 0 \<or> sint fd \<ge> int N_OPEN_FILE then Inl Fault
     else
       case open_file (proc_pool s p) (unat fd) of
         None \<Rightarrow> Inr (-1, s)
       | Some f \<Rightarrow> with_ip f (\<lambda>ip.
           if i_type (info s ip) \<noteq> INODE_TYPE_DIR then Inr (-1, s)
           else bnd (dentry_transmit ip a len True s) (\<lambda>(n, s). Inr (ucast n, s))) s) s)))"

definition sys_mkdir :: "'a machine_scheme \<Rightarrow> (u64 \<times> 'a machine_scheme) res" where
  "sys_mkdir s =
     bnd (arg_str 0 (lv s L_path) MAX_PATH s) (\<lambda>s.
     bnd (path_create_inode (lv s L_path) INODE_TYPE_DIR 0 0 s) (\<lambda>(ip, s).
     case ip of None \<Rightarrow> Inr (-1, s) | Some ip \<Rightarrow> bnd (inode_put ip s) (\<lambda>s. Inr (0, s))))"

definition sys_chdir :: "'a machine_scheme \<Rightarrow> (u64 \<times> 'a machine_scheme) res" where
  "sys_chdir s =
     bnd (arg_str 0 (lv s L_path) MAX_PATH s) (\<lambda>s.
     bnd (path_to_inode_at None (lv s L_path) False s) (\<lambda>(ip, s).
     case ip of
       None \<Rightarrow> Inr (-1, s)
     | Some ip \<Rightarrow>
         if i_type (info s ip) \<noteq> INODE_TYPE_DIR then bnd (inode_put ip s) (\<lambda>s. Inr (-1, s))
         else with_myproc (\<lambda>p.
           case cwd (proc_pool s p) of
             None \<Rightarrow> Inl Fault
           | Some old \<Rightarrow>
               bnd (inode_put old s) (\<lambda>s. Inr (0, upd_proc p (\<lambda>q. q\<lparr>cwd := Some ip\<rparr>) s))) s))"

text \<open>\<open>inode_to_path\<close> gives an unsigned number, so the test \<open>< 0\<close> of its result never holds.\<close>

definition sys_print_cwd :: "'a machine_scheme \<Rightarrow> (u64 \<times> 'a machine_scheme) res" where
  "sys_print_cwd s = with_myproc (\<lambda>p.
     case cwd (proc_pool s p) of
       None \<Rightarrow> Inl Fault
     | Some ip \<Rightarrow>
         bnd (inode_to_path ip (lv s L_path) MAX_PATH s) (\<lambda>(r, s).
         bnd (kprintf ''%s\<newline>'' [PMem (lv s L_path)] s) (\<lambda>s. Inr (0, s)))) s"

definition sys_link :: "'a machine_scheme \<Rightarrow> (u64 \<times> 'a machine_scheme) res" where
  "sys_link s =
     bnd (arg_str 0 (lv s L_path) MAX_PATH s) (\<lambda>s.
     bnd (arg_str 1 (lv s L_new_path) MAX_PATH s) (\<lambda>s.
     bnd (path_link (lv s L_path) (lv s L_new_path) s) (\<lambda>(r, s). Inr (ucast r, s))))"

definition sys_unlink :: "'a machine_scheme \<Rightarrow> (u64 \<times> 'a machine_scheme) res" where
  "sys_unlink s =
     bnd (arg_str 0 (lv s L_path) MAX_PATH s) (\<lambda>s.
     bnd (path_unlink (lv s L_path) s) (\<lambda>(r, s). Inr (ucast r, s)))"

section \<open>The dispatch\<close>

abbreviation (input) SYS_MAX_NUM :: int where "SYS_MAX_NUM \<equiv> 35"

definition syscalls :: "('a machine_scheme \<Rightarrow> (u64 \<times> 'a machine_scheme) res) option list" where
  "syscalls = None # map Some
     [sys_brk, sys_mmap, sys_munmap, sys_print_str, sys_print_int, sys_getpid, sys_fork, sys_wait, sys_exit,
      sys_sleep, sys_alloc_block, sys_free_block, sys_alloc_inode, sys_free_inode, sys_show_bitmap,
      sys_get_block, sys_read_block, sys_write_block, sys_put_block, sys_show_buffer, sys_flush_buffer,
      sys_open, sys_close, sys_read, sys_write, sys_lseek, sys_dup, sys_fstat, sys_get_dentries, sys_mkdir,
      sys_chdir, sys_print_cwd, sys_link, sys_unlink, sys_exec]"

definition unknown_syscall :: "nat \<Rightarrow> u32 \<Rightarrow> 'a machine_scheme \<Rightarrow> 'a machine_scheme res" where
  "unknown_syscall p n s =
     bnd (kprintf ''unknown syscall %d from pid = %d\<newline>'' [PInt n, PInt (word_of_int (pid (proc_pool s p)))] s) (\<lambda>s.
     Inl (Panic ''syscall''))"

definition syscall :: "'a machine_scheme \<Rightarrow> 'a machine_scheme res" where
  "syscall s = with_myproc (\<lambda>p.
     let n = ucast (tf_get p TF_a7 s) :: u32; sys_num = sint n in
     if sys_num < 0 \<or> sys_num > SYS_MAX_NUM then unknown_syscall p n s
     else
       case syscalls ! nat sys_num of
         None \<Rightarrow> unknown_syscall p n s
       | Some f \<Rightarrow> bnd (f s) (\<lambda>(r, s). Inr (tf_set p TF_a0 r s))) s"

end
