(* ===== verification/Trap.thy ===== *)
theory Trap
  imports Sysfunc
begin

text \<open>
  Traps (\<open>trap/trap_kernel.c\<close>, \<open>trap/trap_user.c\<close>), the first entry of a process
  (\<open>proc_entry_point\<close>) and the boot sequence of a hart (\<open>main.c\<close>). A handler that switches to the
  scheduler ends there; what it does when the process is picked again is a definition of its own
  (\<open>..._resume\<close>).
\<close>

section \<open>Interrupts\<close>

definition timer_interrupt_handler :: "'a machine_scheme \<Rightarrow> 'a machine_scheme res" where
  "timer_interrupt_handler s =
     bnd (if mycpuid s = 0 then timer_update s else Inr s) (\<lambda>s. Inr (w_sip (r_sip s AND NOT 2) s))"

definition external_interrupt_handler :: "'a machine_scheme \<Rightarrow> 'a machine_scheme res" where
  "external_interrupt_handler s =
     (case plic_claim s of (irq_num, s) \<Rightarrow>
        bnd (if irq_num = UART_IRQ then uart_intr s
             else if irq_num = VIRTIO_IRQ then virtio_disk_intr s
             else if irq_num \<noteq> 0 then kprintf ''Ignored unexpected PLIC irq: %d\<newline>'' [PInt irq_num] s
             else Inr s) (\<lambda>s.
        Inr (if irq_num \<noteq> 0 then plic_complete irq_num s else s)))"

definition trap_kernel_init :: "'a machine_scheme \<Rightarrow> 'a machine_scheme" where
  "trap_kernel_init s = timer_create (plic_init s)"

definition trap_kernel_inithart :: "'a machine_scheme \<Rightarrow> 'a machine_scheme" where
  "trap_kernel_inithart s =
     (let s = plic_inithart s;
          s = w_stvec (sym s ''kernel_vector'') s;
          s = w_sie (r_sie s OR 0x200 OR 0x20 OR 0x2) s
      in intr_on s)"

section \<open>Traps from the kernel\<close>

definition exception_desc :: "string list" where
  "exception_desc = [''Instruction addr misaligned'', ''Instruction access fault'', ''Illegal instruction'',
     ''Breakpoint'', ''Load addr misaligned'', ''Load access fault'', ''Store/AMO addr misaligned'',
     ''Store/AMO access fault'', ''Ecall from User'', ''Ecall from Supervisor'', ''Reserved-10'',
     ''Ecall from Machine'', ''Instruction page fault'', ''Load page fault'', ''Reserved-14'',
     ''Store/AMO page fault'']"

abbreviation (input) is_interrupt :: "u64 \<Rightarrow> bool" where
  "is_interrupt cause \<equiv> cause AND 0x8000000000000000 \<noteq> 0"

definition cause_type :: "u64 \<Rightarrow> u32" where
  "cause_type cause = ucast (cause AND 0xf)"

definition unexpected :: "string \<Rightarrow> parg list \<Rightarrow> 'a machine_scheme \<Rightarrow> 'b res" where
  "unexpected msg args s =
     bnd (kprintf msg args s) (\<lambda>t.
     bnd (kprintf ''sepc=%p stval=%p\<newline>'' [PPtr (r_sepc s), PPtr (r_stval s)] t) (\<lambda>_.
     Inl (Panic ''trap_kernel_handler'')))"

text \<open>\<open>trap_kernel_handler\<close>: \<open>True\<close> when it is over, \<open>False\<close> at the \<open>swtch\<close> of \<open>proc_yield\<close>.\<close>

definition trap_kernel_finish :: "u64 \<Rightarrow> u64 \<Rightarrow> 'a machine_scheme \<Rightarrow> 'a machine_scheme" where
  "trap_kernel_finish sepc_val sstatus_val s = w_sstatus sstatus_val (w_sepc sepc_val s)"

definition trap_kernel_handler :: "'a machine_scheme \<Rightarrow> (bool \<times> 'a machine_scheme) res" where
  "trap_kernel_handler s =
     (let sepc_val = r_sepc s; sstatus_val = r_sstatus s; scause_val = r_scause s;
          irq_type = cause_type scause_val; is_async = is_interrupt scause_val in
      bnd (kassert (sstatus_val AND SSTATUS_SPP \<noteq> 0) ''KernTrap: not from S-mode'' s) (\<lambda>s.
      bnd (kassert (\<not> intr_get s) ''KernTrap: interrupts not disabled'' s) (\<lambda>s.
      bnd (if is_async then
             if irq_type = 1 then timer_interrupt_handler s
             else if irq_type = 9 then external_interrupt_handler s
             else unexpected ''Kernel panic: unexpected interrupt %d\<newline>'' [PInt irq_type] s
           else
             unexpected ''Kernel panic: unexpected exception %d (%s)\<newline>''
               [PInt irq_type, PLit (exception_desc ! unat irq_type)] s) (\<lambda>s.
      if is_async \<and> irq_type = 1 \<and>
         (case myproc s of None \<Rightarrow> False | Some p \<Rightarrow> p_state (proc_pool s p) = RUNNING)
      then bnd (proc_yield_enter s) (\<lambda>s. Inr (False, s))
      else Inr (True, trap_kernel_finish sepc_val sstatus_val s)))))"

definition trap_kernel_resume :: "u64 \<Rightarrow> u64 \<Rightarrow> 'a machine_scheme \<Rightarrow> 'a machine_scheme res" where
  "trap_kernel_resume sepc_val sstatus_val s =
     bnd (proc_yield_resume s) (\<lambda>s. Inr (trap_kernel_finish sepc_val sstatus_val s))"

section \<open>Traps from user mode\<close>

text \<open>
  How \<open>trap_user_handler\<close> ends: in the jump to \<open>user_return\<close> (its address, the trapframe's and the
  value for \<open>satp\<close>), or in the scheduler.
\<close>

datatype trap_end = To_user u64 u64 u64 | To_sched

definition trap_user_return :: "'a machine_scheme \<Rightarrow> (trap_end \<times> 'a machine_scheme) res" where
  "trap_user_return s = with_myproc (\<lambda>p.
     let s = intr_off s;
         s = w_stvec (TRAMPOLINE + (sym s ''user_vector'' - sym s ''trampoline'')) s;
         s = tf_set p TF_hartid (r_tp s) s;
         s = tf_set p TF_ksp (kstack (proc_pool s p) + PGSIZE) s;
         s = tf_set p TF_trapvector (sym s ''trap_user_handler'') s;
         s = w_sstatus ((r_sstatus s AND NOT SSTATUS_SPP) OR SSTATUS_SPIE) s;
         s = w_sepc (tf_get p TF_epc s) s
     in Inr (To_user (TRAMPOLINE + (sym s ''user_return'' - sym s ''trampoline'')) TRAPFRAME
               (MAKE_SATP (pgtbl (proc_pool s p))), s)) s"

text \<open>The state at the \<open>swtch\<close> of a process that is killed.\<close>

definition kill_proc :: "nat \<Rightarrow> 'a proc_state_scheme \<Rightarrow> 'a proc_state_scheme" where
  "kill_proc p = upd_proc p (\<lambda>q. q\<lparr>p_state := ZOMBIE, exit_code := -1\<rparr>)"

definition user_interrupt :: "nat \<Rightarrow> u32 \<Rightarrow> 'a machine_scheme \<Rightarrow> 'a machine_scheme res" where
  "user_interrupt p c s =
     (if c = 1 then timer_interrupt_handler s
      else if c = 9 then external_interrupt_handler s
      else
        bnd (kprintf ''Unknown user interrupt: %d\<newline>'' [PInt c] s) (\<lambda>s.
        kprintf ''Context: sepc=%p stval=%p\<newline>'' [PPtr (tf_get p TF_epc s), PPtr (r_stval s)] s))"

text \<open>\<open>True\<close> when the process goes on, \<open>False\<close> when it was killed.\<close>

definition user_exception :: "nat \<Rightarrow> u32 \<Rightarrow> 'a machine_scheme \<Rightarrow> (bool \<times> 'a machine_scheme) res" where
  "user_exception p c s =
     (if c = 8 then
        let s = intr_on (tf_set p TF_epc (tf_get p TF_epc s + 4) s) in
        bnd (syscall s) (\<lambda>s. Inr (True, intr_off s))
      else if c = 13 \<or> c = 15 then
        let bad_addr = r_stval s in
        bnd (uvm_ustack_grow (pgtbl (proc_pool s p)) (ustack_npage (proc_pool s p)) bad_addr s) (\<lambda>(n, s).
        if n = -1 then
          bnd (kprintf ''Stack overflow or invalid access: pid=%d, addr=%p\<newline>''
                 [PInt (word_of_int (pid (proc_pool s p))), PPtr bad_addr] s) (\<lambda>s.
          Inr (False, kill_proc p s))
        else Inr (True, upd_proc p (\<lambda>q. q\<lparr>ustack_npage := n\<rparr>) s))
      else
        bnd (kprintf ''Unhandled user exception: id=%d, pid=%d\<newline>''
               [PInt c, PInt (word_of_int (pid (proc_pool s p)))] s) (\<lambda>s.
        bnd (kprintf ''sepc=%p stval=%p\<newline>'' [PPtr (tf_get p TF_epc s), PPtr (r_stval s)] s) (\<lambda>s.
        Inr (False, kill_proc p s))))"

definition trap_user_handler :: "'a machine_scheme \<Rightarrow> (trap_end \<times> 'a machine_scheme) res" where
  "trap_user_handler s =
     (let s = w_stvec (sym s ''kernel_vector'') s in
      with_myproc (\<lambda>p.
        if r_sstatus s AND SSTATUS_SPP \<noteq> 0
        then Inl (Panic ''trap_user_handler: trap did not come from user mode'')
        else
          let s = tf_set p TF_epc (r_sepc s) s; scause = r_scause s; c = cause_type scause in
          if is_interrupt scause then
            bnd (user_interrupt p c s) (\<lambda>s.
            if c = 1 then bnd (proc_yield_enter s) (\<lambda>s. Inr (To_sched, s)) else trap_user_return s)
          else
            bnd (user_exception p c s) (\<lambda>(alive, s).
            if alive then trap_user_return s else Inr (To_sched, s))) s)"

definition trap_user_resume :: "'a machine_scheme \<Rightarrow> (trap_end \<times> 'a machine_scheme) res" where
  "trap_user_resume s = bnd (proc_yield_resume s) trap_user_return"

section \<open>The first process and the boot\<close>

definition open_std :: "nat \<Rightarrow> nat \<Rightarrow> string \<Rightarrow> u32 \<Rightarrow> 'a machine_scheme \<Rightarrow> 'a machine_scheme res" where
  "open_std p fd path mode s = bnd (file_open (rodata s path) mode s) (\<lambda>(f, s). Inr (set_fd p fd f s))"

definition first_entry :: "(nat \<Rightarrow> u32) \<Rightarrow> nat \<Rightarrow> 'a machine_scheme \<Rightarrow> 'a machine_scheme res" where
  "first_entry reg p s =
     bnd (fs_init reg (sym s ''disk'') s) (\<lambda>s.
     bnd (inode_get ROOT_INODE s) (\<lambda>(ip, s).
     bnd (open_std p 0 ''/dev/stdin'' O_RDONLY (upd_proc p (\<lambda>q. q\<lparr>cwd := Some ip\<rparr>) s)) (\<lambda>s.
     bnd (open_std p 1 ''/dev/stdout'' O_WRONLY s) (\<lambda>s.
     bnd (open_std p 2 ''/dev/stderr'' O_WRONLY s) (\<lambda>s.
     if open_file (proc_pool s p) 1 = None then kprintf ''Warning: stdout init failed!\<newline>'' [] s else Inr s)))))"

definition proc_entry_point :: "(nat \<Rightarrow> u32) \<Rightarrow> 'a machine_scheme \<Rightarrow> (trap_end \<times> 'a machine_scheme) res" where
  "proc_entry_point reg s = with_myproc (\<lambda>p.
     bnd (spinlock_release (LkProc p) s) (\<lambda>s.
     bnd (if pid (proc_pool s p) = 1 then first_entry reg p s else Inr s) trap_user_return)) s"

definition kvm_inithart :: "'a machine_scheme \<Rightarrow> 'a machine_scheme" where
  "kvm_inithart s = w_satp (MAKE_SATP (kern_pagetable s)) s"

text \<open>The head of \<open>proc_scheduler\<close>: \<open>c->proc = NULL\<close> and the first \<open>intr_on\<close>.\<close>

definition sched_enter :: "'a kcpu_scheme \<Rightarrow> 'a kcpu_scheme" where
  "sched_enter s = intr_on (set_mycpu ((mycpu s)\<lparr>cproc := None\<rparr>) s)"

definition boot_first :: "(nat \<Rightarrow> u32) \<Rightarrow> 'a machine_scheme \<Rightarrow> 'a machine_scheme res" where
  "boot_first reg s =
     bnd (kprintf ''cpu %d is booting!\<newline>'' [PInt (of_nat (hart s))] (print_init s)) (\<lambda>s.
     bnd (pmem_init (sym s ''ALLOC_BEGIN'') (sym s ''ALLOC_END'') s) (\<lambda>s.
     bnd (kvm_init (sym s ''KERNEL_DATA'') (sym s ''ALLOC_BEGIN'') (sym s ''ALLOC_END'') (sym s ''trampoline'') s) (\<lambda>s.
     bnd (mmap_init (kvm_inithart s)) (\<lambda>s.
     bnd (virtio_disk_init reg (sym s ''disk'') s) (\<lambda>(_, s).
     bnd (proc_init s) (\<lambda>s.
     bnd (proc_make_first s) (\<lambda>s.
     Inr (trap_kernel_inithart (trap_kernel_init s)))))))))"

text \<open>
  \<open>main\<close> up to the loop of the scheduler; the flag is \<open>started\<close>. The other harts spin until it is set.
\<close>

definition kmain :: "(nat \<Rightarrow> u32) \<Rightarrow> bool \<Rightarrow> 'a machine_scheme \<Rightarrow> (bool \<times> 'a machine_scheme) res" where
  "kmain reg started s =
     (if hart s = 0 then bnd (boot_first reg s) (\<lambda>s. Inr (True, sched_enter s))
      else if \<not> started then Inl Spin
      else
        bnd (kprintf ''cpu %d is booting!\<newline>'' [PInt (of_nat (hart s))] s) (\<lambda>s.
        Inr (True, sched_enter (trap_kernel_inithart (kvm_inithart s)))))"

section \<open>Listings\<close>

text \<open>\<open>vm_print\<close>, with the depth of the recursion as fuel, and the two listings of mmap regions.\<close>

fun vm_print :: "nat \<Rightarrow> nat \<Rightarrow> u64 \<Rightarrow> 'a io_state_scheme \<Rightarrow> 'a io_state_scheme res" where
  "vm_print 0 depth tab s = Inl Hang"
| "vm_print (Suc n) depth tab s =
     bnd (if depth = 0 then kprintf ''page table %p\<newline>'' [PPtr tab] s else Inr s) (\<lambda>s.
     for_each [0..<512] (\<lambda>i s.
       let pte = load64 (mem s) (tab + 8 * of_nat i); kid = PTE_TO_PA pte in
       if pte AND PTE_V = 0 then Inr s
       else
         bnd (for_each [0..<Suc depth] (\<lambda>_. kprintf ''.. '' []) s) (\<lambda>s.
         bnd (kprintf ''%d: pte %p pa %p\<newline>'' [PInt (of_nat i), PPtr pte, PPtr kid] s) (\<lambda>s.
         if PTE_CHECK pte then vm_print n (Suc depth) kid s else Inr s))) s)"

fun show_regions :: "nat \<Rightarrow> nat option \<Rightarrow> 'a io_state_scheme \<Rightarrow> 'a io_state_scheme res" where
  "show_regions 0 node s = Inl Hang"
| "show_regions (Suc n) node s =
     (case node of
        None \<Rightarrow> Inr s
      | Some r \<Rightarrow>
          bnd (kprintf ''[%p - %p] pages=%d\<newline>''
                 [PPtr (r_begin (region s r)), PPtr (region_end (region s r)), PInt (r_npages (region s r))] s) (\<lambda>s.
          show_regions n (r_next (region s r)) s))"

definition uvm_show_mmaplist :: "nat option \<Rightarrow> 'a io_state_scheme \<Rightarrow> 'a io_state_scheme res" where
  "uvm_show_mmaplist hd_node s =
     bnd (kprintf ''\<newline>=== Process MMAP List ===\<newline>'' [] s) (\<lambda>s.
     bnd (show_regions (Suc N_MMAP) hd_node s) (\<lambda>s.
     if hd_node = None then kprintf ''(empty)\<newline>'' [] s else Inr s))"

text \<open>\<open>mmap_show_nodelist\<close>; a node of the pool has 32 bytes.\<close>

fun show_nodes :: "nat \<Rightarrow> u32 \<Rightarrow> nat option \<Rightarrow> 'a machine_scheme \<Rightarrow> (u32 \<times> 'a machine_scheme) res" where
  "show_nodes 0 cnt node s = Inl Hang"
| "show_nodes (Suc n) cnt node s =
     (case node of
        None \<Rightarrow> Inr (cnt, s)
      | Some i \<Rightarrow>
          bnd (kprintf ''Free Node #%d: Pool Index = %d, Addr = %p\<newline>''
                 [PInt cnt, PInt (of_nat i), PPtr (sym s ''region_pool'' + 32 * of_nat i)] s) (\<lambda>s.
          show_nodes n (cnt + 1) (n_next (region_pool s i)) s))"

definition mmap_show_nodelist :: "'a machine_scheme \<Rightarrow> 'a machine_scheme res" where
  "mmap_show_nodelist s =
     bnd (spinlock_acquire LkMmap s) (\<lambda>s.
     bnd (kprintf ''--- MMAP Free Node List ---\<newline>'' [] s) (\<lambda>s.
     bnd (show_nodes (Suc N_MMAP) 0 (pool_sentinel s) s) (\<lambda>(cnt, s).
     bnd (kprintf ''Total free nodes: %d\<newline>'' [PInt cnt] s) (\<lambda>s.
     spinlock_release LkMmap s))))"

end
