(* ===== verification/BlockStore.thy ===== *)
theory BlockStore
  imports BootDisk
begin

text \<open>
  The buffer cache as a store of blocks: an interface with the operations \<open>get\<close>, \<open>flush\<close> and \<open>put\<close>,
  its laws, what follows for its clients, and the proof that \<open>buffer_get\<close>, \<open>buffer_write\<close> and
  \<open>buffer_put\<close> satisfy them. The clients are the bitmaps and the inode table.
\<close>

section \<open>The interface\<close>

text \<open>
  \<open>ok H s\<close>: the blocks in \<open>H\<close> are held, and every page agrees with the disk; \<open>mid H b s\<close>: except, maybe,
  that of buffer \<open>b\<close>. \<open>page s b\<close> and \<open>blk s n\<close> are the bytes of a buffer and of a block, \<open>changed b s t\<close>
  says that \<open>t\<close> is \<open>s\<close> but for the page of \<open>b\<close>, and \<open>rel s t\<close> that the rest of the state is as before.
\<close>

locale block_store =
  fixes ok :: "u32 set \<Rightarrow> 's \<Rightarrow> bool"
    and mid :: "u32 set \<Rightarrow> nat \<Rightarrow> 's \<Rightarrow> bool"
    and get :: "u32 \<Rightarrow> 's \<Rightarrow> (nat \<times> 's) res"
    and flush :: "nat \<Rightarrow> 's \<Rightarrow> 's res"
    and put :: "nat \<Rightarrow> 's \<Rightarrow> 's res"
    and holds :: "nat \<Rightarrow> u32 \<Rightarrow> 's \<Rightarrow> bool"
    and page :: "'s \<Rightarrow> nat \<Rightarrow> nat \<Rightarrow> u8"
    and blk :: "'s \<Rightarrow> u32 \<Rightarrow> nat \<Rightarrow> u8"
    and changed :: "nat \<Rightarrow> 's \<Rightarrow> 's \<Rightarrow> bool"
    and rel :: "'s \<Rightarrow> 's \<Rightarrow> bool"
    and valid :: "u32 \<Rightarrow> bool"
    and cap :: nat
  assumes get_ok: "ok H s \<Longrightarrow> valid n \<Longrightarrow> n \<notin> H \<Longrightarrow> card H < cap \<Longrightarrow>
      \<exists>b t. get n s = Inr (b, t) \<and> ok (insert n H) t \<and> holds b n t \<and> blk t = blk s \<and> rel s t \<and>
        (\<forall>c m. holds c m s \<longrightarrow> c \<noteq> b \<and> holds c m t)"
    and page_is: "ok H s \<Longrightarrow> holds b n s \<Longrightarrow> page s b = blk s n"
    and change_ok: "ok H s \<Longrightarrow> holds b n s \<Longrightarrow> changed b s t \<Longrightarrow>
      mid H b t \<and> holds b n t \<and> blk t = blk s \<and> rel s t \<and> (\<forall>c m. holds c m s \<longrightarrow> holds c m t)"
    and write_ok: "mid H b s \<Longrightarrow> holds b n s \<Longrightarrow>
      \<exists>t. flush b s = Inr t \<and> ok H t \<and> blk t = (blk s)(n := page s b) \<and> rel s t \<and>
        (\<forall>c m. holds c m s \<longrightarrow> holds c m t)"
    and put_ok: "ok H s \<Longrightarrow> holds b n s \<Longrightarrow>
      \<exists>t. put b s = Inr t \<and> ok (H - {n}) t \<and> blk t = blk s \<and> rel s t \<and>
        (\<forall>c m. holds c m s \<longrightarrow> c \<noteq> b \<longrightarrow> holds c m t)"
    and rel_trans: "rel s t \<Longrightarrow> rel t u \<Longrightarrow> rel s u"
begin

text \<open>A block is read: the buffer shows what the disk holds, and giving it back changes nothing.\<close>

lemma look:
  assumes "ok H s" "valid n" "n \<notin> H" "card H < cap"
  shows "\<exists>b t. get n s = Inr (b, t) \<and> ok (insert n H) t \<and> holds b n t \<and> page t b = blk s n \<and> rel s t \<and> blk t = blk s \<and>
    (\<forall>c m. holds c m s \<longrightarrow> c \<noteq> b \<and> holds c m t)"
proof -
  from get_ok[OF assms] obtain b t where t: "get n s = Inr (b, t)" "ok (insert n H) t" "holds b n t" "blk t = blk s" "rel s t"
    "\<forall>c m. holds c m s \<longrightarrow> c \<noteq> b \<and> holds c m t" by blast
  then show ?thesis using page_is[OF t(2,3)] by auto
qed

lemma look_put:
  assumes "ok (insert n H) t" "holds b n t" "n \<notin> H"
  shows "\<exists>u. put b t = Inr u \<and> ok H u \<and> blk u = blk t \<and> rel t u \<and> (\<forall>c m. holds c m t \<longrightarrow> c \<noteq> b \<longrightarrow> holds c m u)"
proof -
  have "insert n H - {n} = H" using assms(3) by simp
  then show ?thesis using put_ok[OF assms(1,2)] by auto
qed

text \<open>The page of a held buffer is changed and written back: the disk has it, and only it.\<close>

lemma store:
  assumes "ok H s" "holds b n s" "changed b s u"
  shows "\<exists>t. flush b u = Inr t \<and> ok H t \<and> holds b n t \<and> blk t = (blk s)(n := page u b) \<and> rel s t \<and>
    (\<forall>c m. holds c m s \<longrightarrow> holds c m t)"
proof -
  from change_ok[OF assms] have c: "mid H b u" "holds b n u" "blk u = blk s" "rel s u" "\<forall>c m. holds c m s \<longrightarrow> holds c m u" by auto
  from write_ok[OF c(1,2)] obtain t where
    "flush b u = Inr t" "ok H t" "blk t = (blk u)(n := page u b)" "rel u t" "\<forall>c m. holds c m u \<longrightarrow> holds c m t"
    by blast
  then show ?thesis using c rel_trans by auto
qed

text \<open>Read, change, write back, give back: the effect of the whole on the disk is the change \<open>f\<close>.\<close>

lemma modify:
  assumes s: "ok H s" "valid n" "n \<notin> H" "card H < cap"
    and upd: "\<And>b t. ok (insert n H) t \<Longrightarrow> holds b n t \<Longrightarrow> rel s t \<Longrightarrow> page t b = blk s n \<Longrightarrow> changed b t (upd b t) \<and> page (upd b t) b = f (blk s n)"
  shows "\<exists>b t u v. get n s = Inr (b, t) \<and> page t b = blk s n \<and> rel s t \<and> flush b (upd b t) = Inr u \<and> put b u = Inr v \<and>
    ok H v \<and> blk v = (blk s)(n := f (blk s n)) \<and> rel s v \<and> (\<forall>c m. holds c m s \<longrightarrow> holds c m v)"
proof -
  from look[OF s] obtain b t where g: "get n s = Inr (b, t)" "ok (insert n H) t" "holds b n t" "page t b = blk s n"
    "rel s t" "blk t = blk s" "\<forall>c m. holds c m s \<longrightarrow> c \<noteq> b \<and> holds c m t" by blast
  note c = upd[OF g(2,3,5,4)]
  from store[OF g(2,3)] c g(6) obtain u where
    w: "flush b (upd b t) = Inr u" "ok (insert n H) u" "holds b n u" "blk u = (blk s)(n := f (blk s n))" "rel t u"
      "\<forall>c m. holds c m t \<longrightarrow> holds c m u"
    by metis
  from look_put[OF w(2,3) s(3)] obtain v where "put b u = Inr v" "ok H v" "blk v = blk u" "rel u v"
    "\<forall>c m. holds c m u \<longrightarrow> c \<noteq> b \<longrightarrow> holds c m v" by blast
  moreover from this have "rel s v" "\<forall>c m. holds c m s \<longrightarrow> holds c m v" using g(5,7) w(5,6) rel_trans by blast+
  ultimately show ?thesis using g(1,4,5) w(1,4) by (intro exI[of _ b] exI[of _ t] exI[of _ u] exI[of _ v]) simp
qed

end

section \<open>The cache provides it\<close>

definition pageless :: "'a disk_state_scheme \<Rightarrow> nat set" where
  "pageless s = {i. i < N_BUFFER \<and> data (the_buf s i) = 0}"

definition cache_mid :: "u32 set \<Rightarrow> nat set \<Rightarrow> 'a disk_state_scheme \<Rightarrow> bool" where
  "cache_mid H D s \<longleftrightarrow> (\<exists>R F p. bc_ok s R F D \<and> kctx s p \<and> H = (\<lambda>i. block_num (the_buf s i)) ` set (R True) \<and>
     card (pageless s) \<le> length (F False))"

definition cache_ok :: "u32 set \<Rightarrow> 'a disk_state_scheme \<Rightarrow> bool" where
  "cache_ok H s \<longleftrightarrow> cache_mid H {} s"

definition buf_holds :: "nat \<Rightarrow> u32 \<Rightarrow> 'a disk_state_scheme \<Rightarrow> bool" where
  "buf_holds b n s \<longleftrightarrow> b < N_BUFFER \<and> slk_locked (slocks s (LkBufSlk b)) \<and> block_num (the_buf s b) = n"

definition buf_page :: "'a disk_state_scheme \<Rightarrow> nat \<Rightarrow> nat \<Rightarrow> u8" where
  "buf_page s b i = (if i < 4096 then mem s (data (the_buf s b) + of_nat i) else 0)"

definition disk_block :: "'a disk_state_scheme \<Rightarrow> u32 \<Rightarrow> nat \<Rightarrow> u8" where
  "disk_block s n i = (if n < 0x20000000 \<and> i < 4096 then disk_image s (block_off n + of_nat i) else 0)"

definition page_changed :: "nat \<Rightarrow> 'a disk_state_scheme \<Rightarrow> 'a disk_state_scheme \<Rightarrow> bool" where
  "page_changed b s t \<longleftrightarrow> (\<exists>m. t = s\<lparr>mem := m\<rparr> \<and> (\<forall>x. \<not> unat (x - data (the_buf s b)) < 4096 \<longrightarrow> m x = mem s x))"

text \<open>
  The pages of the cache: the free pages, which it takes from, those of its buffers, and the kernel's page table, through
  which the requests find the stack. All other
  memory is \<open>foreign\<close> to the cache: no operation changes it, and a change of it does not disturb the cache.
\<close>

definition owned :: "'a disk_state_scheme \<Rightarrow> (bool \<Rightarrow> u64 list) \<Rightarrow> u64 set" where
  "owned s F = set (F True) \<union> set (F False) \<union> {q. q \<noteq> 0 \<and> (\<exists>i<N_BUFFER. q = data (the_buf s i))} \<union> ktabs s"

definition foreign :: "'a disk_state_scheme \<Rightarrow> u64 \<Rightarrow> bool" where
  "foreign s x \<longleftrightarrow> (\<exists>R F D. bc_ok s R F D \<and> (\<forall>q \<in> owned s F. pg x \<noteq> pg q))"

definition mem_rel :: "'a disk_state_scheme \<Rightarrow> 'a disk_state_scheme \<Rightarrow> bool" where
  "mem_rel s t \<longleftrightarrow> (\<forall>x. foreign s x \<longrightarrow> mem t x = mem s x \<and> foreign t x)"

lemma Flist_unique: "Flist m h ps \<Longrightarrow> Flist m h qs \<Longrightarrow> ps = qs"
proof (induction ps arbitrary: h qs)
  case Nil
  then show ?case by (cases qs) auto
next
  case (Cons p ps)
  then show ?case by (cases qs) auto
qed

lemma free_pages_unique: "bc_ok s R F D \<Longrightarrow> bc_ok s R' F' D' \<Longrightarrow> F k = F' k"
  using pmem_okD(3)[OF bc_okD(3), of s R F D k] pmem_okD(3)[OF bc_okD(3), of s R' F' D' k]
  by (auto simp: pool_ok_def intro: Flist_unique)

lemma foreign_iff:
  assumes bc: "bc_ok s R F D"
  shows "foreign s x \<longleftrightarrow> (\<forall>q \<in> owned s F. pg x \<noteq> pg q)"
proof
  assume "foreign s x"
  then obtain R' F' D' where h: "bc_ok s R' F' D'" "\<forall>q \<in> owned s F'. pg x \<noteq> pg q" by (auto simp: foreign_def)
  have "F k = F' k" for k by (rule free_pages_unique[OF bc h(1)])
  then show "\<forall>q \<in> owned s F. pg x \<noteq> pg q" using h(2) by (simp add: owned_def)
qed (use bc in \<open>auto simp: foreign_def\<close>)

lemma mem_relI:
  assumes "bc_ok s R F D" and "bc_ok t R' F' D'" and "owned t F' \<subseteq> owned s F"
    and "\<And>x. (\<And>q. q \<in> owned s F \<Longrightarrow> pg x \<noteq> pg q) \<Longrightarrow> mem t x = mem s x"
  shows "mem_rel s t"
  using assms by (auto simp: mem_rel_def foreign_iff[OF assms(1)] foreign_iff[OF assms(2)])

lemma mem_rel_refl [simp]: "mem_rel s s"
  by (simp add: mem_rel_def)

lemma mem_rel_trans: "mem_rel s t \<Longrightarrow> mem_rel t u \<Longrightarrow> mem_rel s u"
  by (simp add: mem_rel_def)

lemma mem_relD: "mem_rel s t \<Longrightarrow> foreign s x \<Longrightarrow> mem t x = mem s x" "mem_rel s t \<Longrightarrow> foreign s x \<Longrightarrow> foreign t x"
  by (simp_all add: mem_rel_def)

definition store_rel :: "'a disk_state_scheme \<Rightarrow> 'a disk_state_scheme \<Rightarrow> bool" where
  "store_rel s t \<longleftrightarrow> calm s t \<and> disk_state.more t = disk_state.more s \<and>
     (\<forall>l. (\<forall>j. l \<noteq> LkBufSlk j) \<longrightarrow> slocks t l = slocks s l) \<and> mem_rel s t"

lemma kept_rel: "calm s t \<Longrightarrow> kept i s t \<Longrightarrow> mem_rel s t \<Longrightarrow> store_rel s t"
  by (simp add: store_rel_def kept_def)

lemma same_data_owned: "ktabs t = ktabs s \<Longrightarrow> (\<And>i. i < N_BUFFER \<Longrightarrow> data (the_buf t i) = data (the_buf s i)) \<Longrightarrow> owned t F = owned s F"
  by (auto simp: owned_def)

text \<open>A buffer without a page takes the first free one: the pages of the cache stay the same.\<close>

lemma miss_owned:
  assumes kt: "ktabs t = ktabs s" and "i < N_BUFFER" and "\<And>j. j \<noteq> i \<Longrightarrow> data (the_buf t j) = data (the_buf s j)"
    and "data (the_buf t i) = (if data (the_buf s i) = 0 then hd (F False) else data (the_buf s i))"
    and "F' = (if data (the_buf s i) = 0 then F(False := tl (F False)) else F)"
    and "data (the_buf s i) \<noteq> 0 \<or> F False \<noteq> []"
  shows "owned t F' \<subseteq> owned s F" "data (the_buf t i) \<noteq> 0 \<Longrightarrow> data (the_buf t i) \<in> owned s F"
proof -
  have *: "data (the_buf t i) \<in> owned s F" if "data (the_buf t i) \<noteq> 0"
    using that assms(2,4,6) by (auto simp: owned_def split: if_splits)
  have sub: "set (F' k) \<subseteq> set (F k)" for k
    using assms(5) by (cases "F False") (auto split: if_splits)
  show "data (the_buf t i) \<in> owned s F" if "data (the_buf t i) \<noteq> 0" by (rule *) (rule that)
  show "owned t F' \<subseteq> owned s F"
  proof
    fix q assume "q \<in> owned t F'"
    then consider (free) k where "q \<in> set (F' k)" | (buf) j where "q \<noteq> 0" "j < N_BUFFER" "q = data (the_buf t j)" | (tab) "q \<in> ktabs s"
      unfolding kt[symmetric] by (auto simp: owned_def)
    then show "q \<in> owned s F"
    proof cases
      case free
      then show ?thesis using sub[of k] by (cases k) (auto simp: owned_def)
    next
      case buf
      then show ?thesis using * assms(3)[of j] by (cases "j = i") (auto simp: owned_def)
    qed (simp add: owned_def)
  qed
qed

lemma holds_active:
  assumes "bc_ok s R F D"
  shows "buf_holds b n s \<longleftrightarrow> b \<in> set (R True) \<and> block_num (the_buf s b) = n"
  using bc_okD(5)[OF assms] rings_range[OF bc_okD(2)[OF assms]] by (auto simp: buf_holds_def slk_ok_def)

lemma num_inj:
  assumes "bc_ok s R F D"
  shows "inj_on (\<lambda>i. block_num (the_buf s i)) (set (R True))"
proof (rule inj_onI, rule ccontr)
  fix i j assume h: "i \<in> set (R True)" "j \<in> set (R True)" "block_num (the_buf s i) = block_num (the_buf s j)" "i \<noteq> j"
  from buf_ok_distinct(1)[OF bc_okD(1)[OF assms] active_props(1)[OF assms h(1)] active_props(1)[OF assms h(2)]
      _ active_props(2)[OF assms h(1)]] h(3,4)
  show False by simp
qed

lemma moved_set:
  assumes "rings bs R" and "i \<in> set (R k)"
  shows "set (moved i (\<not> k) R k) = set (R k) - {i}" "set (moved i (\<not> k) R (\<not> k)) = insert i (set (R (\<not> k)))"
  using assms by (auto simp: moved_def)

text \<open>The bookkeeping of \<open>cache_mid\<close> after a step on buffer \<open>i\<close>.\<close>

lemma cache_midI:
  assumes "bc_ok t R F D" and "kctx t p" and "H = (\<lambda>j. block_num (the_buf t j)) ` set (R True)"
    and "card (pageless t) \<le> length (F False)"
  shows "cache_mid H D t"
  using assms by (auto simp: cache_mid_def)

lemma inactive_nonempty:
  assumes bc: "bc_ok s R F D" and c: "card ((\<lambda>i. block_num (the_buf s i)) ` set (R True)) < N_BUFFER"
  shows "R False \<noteq> []"
proof
  assume e: "R False = []"
  have "set (R True) \<union> set (R False) = {..<N_BUFFER}" using bc_okD(2)[OF bc] by (auto simp: rings_def)
  then have "card (set (R True)) = N_BUFFER" using e by simp
  then show False using c card_image[OF num_inj[OF bc]] by simp
qed

lemma pageless_get:
  assumes bc: "bc_ok t (moved i True R) F' D" and r: "rings bs R" and i: "i \<in> set (R False)" and k: "kept i s t"
  shows "pageless t = pageless s - {i}"
proof -
  have "i \<in> set (moved i True R True)" using moved_set(2)[OF r i] by simp
  then have "data (the_buf t i) \<noteq> 0" using active_props(3)[OF bc] by simp
  then show ?thesis using k by (auto simp: pageless_def kept_def)
qed

lemma cache_get_ok:
  assumes ok: "cache_ok H s" and n: "n < 0x20000000" "n \<notin> H" and room: "card H < N_BUFFER"
  shows "\<exists>b t. buffer_get n s = Inr (b, t) \<and> cache_ok (insert n H) t \<and> buf_holds b n t \<and>
    disk_image t = disk_image s \<and> store_rel s t \<and> (\<forall>c m. buf_holds c m s \<longrightarrow> c \<noteq> b \<and> buf_holds c m t)"
proof -
  from ok obtain R F p where bc: "bc_ok s R F {}" and k: "kctx s p"
    and H: "H = (\<lambda>i. block_num (the_buf s i)) ` set (R True)" and pl: "card (pageless s) \<le> length (F False)"
    by (auto simp: cache_ok_def cache_mid_def)
  note r = bc_okD(2)[OF bc]
  have fin: "finite (pageless s)" by (simp add: pageless_def)
  have nu: "n \<noteq> BLOCK_NUM_UNUSED" using n(1) by auto
  have "\<exists>i t F'. buffer_get n s = Inr (i, t) \<and> i \<in> set (R False) \<and> bc_ok t (moved i True R) F' {} \<and> calm s t \<and>
    disk_image t = disk_image s \<and> block_num (the_buf t i) = n \<and> kept i s t \<and> card (pageless t) \<le> length (F' False) \<and> mem_rel s t"
  proof (cases "\<exists>i \<in> set (R False). block_num (the_buf s i) = n")
    case True
    then obtain i where i: "i \<in> set (R False)" "block_num (the_buf s i) = n" by blast
    from buffer_get_cached[OF bc k i nu] obtain t where t: "buffer_get n s = Inr (i, t)"
      "bc_ok t (moved i True R) F {}" "calm s t" "disk_image t = disk_image s" "block_num (the_buf t i) = n" "kept i s t"
      "mem t = mem s" "data (the_buf t i) = data (the_buf s i)"
      by blast
    have "owned t F = owned s F"
    proof (rule same_data_owned)
      show "ktabs t = ktabs s" using t(6) by (simp add: kept_def)
      show "data (the_buf t j) = data (the_buf s j)" for j using t(6,8) by (cases "j = i") (simp_all add: kept_def)
    qed
    then have "mem_rel s t" by (intro mem_relI[OF bc t(2)]) (simp_all add: t(7))
    moreover
    have "card (pageless t) \<le> length (F False)"
      using pl card_Diff1_le[of "pageless s" i] by (simp add: pageless_get[OF t(2) r i(1) t(6)])
    ultimately show ?thesis using t i by blast
  next
    case False
    from inactive_nonempty[OF bc] H room obtain i rest where R: "R False = i # rest" by (cases "R False") auto
    then have iR: "i \<in> set (R False)" by simp
    have new: "block_num (the_buf s j) \<noteq> n" if "j < N_BUFFER" for j
    proof -
      have "j \<in> set (R True) \<or> j \<in> set (R False)" using r that by (auto simp: rings_def)
      then show ?thesis using False n(2) H by auto
    qed
    have pg: "data (the_buf s i) = 0 \<Longrightarrow> i \<in> pageless s" using rings_range[OF r iR] by (simp add: pageless_def)
    then have "data (the_buf s i) \<noteq> 0 \<or> F False \<noteq> []" using pl fin by (auto simp: card_eq_0_iff)
    from buffer_get_miss[OF bc k R n(1) new this] obtain t F' where t: "buffer_get n s = Inr (i, t)"
      "bc_ok t (moved i True R) F' {}" "calm s t" "disk_image t = disk_image s" "block_num (the_buf t i) = n" "kept i s t"
      "F' = (if data (the_buf s i) = 0 then F(False := tl (F False)) else F)"
      "data (the_buf t i) = (if data (the_buf s i) = 0 then hd (F False) else data (the_buf s i))"
      "\<And>x. pg x \<noteq> pg (data (the_buf t i)) \<Longrightarrow> mem t x = mem s x" by blast
    have "i \<in> set (moved i True R True)" using moved_set(2)[OF r iR] by simp
    then have d0: "data (the_buf t i) \<noteq> 0" using active_props(3)[OF t(2)] by simp
    have kd: "data (the_buf t j) = data (the_buf s j)" if "j \<noteq> i" for j using t(6) that by (simp add: kept_def)
    have pr: "data (the_buf s i) \<noteq> 0 \<or> F False \<noteq> []" using pl fin pg by (auto simp: card_eq_0_iff)
    have kt: "ktabs t = ktabs s" using t(6) by (simp add: kept_def)
    have ow: "owned t F' \<subseteq> owned s F" "data (the_buf t i) \<in> owned s F"
      by (rule miss_owned[OF kt rings_range[OF r iR] _ t(8,7) pr]; use kd d0 in simp)+
    have "mem_rel s t"
      by (rule mem_relI[OF bc t(2) ow(1)]) (use ow(2) t(9) in blast)
    moreover
    have "card (pageless t) \<le> length (F' False)"
      using pl pg fin card_Diff1_le[of "pageless s" i]
      by (simp add: pageless_get[OF t(2) r iR t(6)] t(7) card_Diff_singleton diff_le_mono)
    ultimately show ?thesis using t iR by blast
  qed
  then obtain i t F' where t: "buffer_get n s = Inr (i, t)" "i \<in> set (R False)" "bc_ok t (moved i True R) F' {}"
    "calm s t" "disk_image t = disk_image s" "block_num (the_buf t i) = n" "kept i s t"
    "card (pageless t) \<le> length (F' False)" "mem_rel s t" by blast
  have kt: "kctx t p" using calm_kctx[OF t(4) k] by simp
  have mT: "set (moved i True R True) = insert i (set (R True))" using moved_set(2)[OF r t(2)] by simp
  have inot: "i \<notin> set (R True)" using t(2) r by (auto simp: rings_def)
  have num: "block_num (the_buf t j) = block_num (the_buf s j)" if "j \<noteq> i" for j using t(7) that by (simp add: kept_def)
  have "(\<lambda>j. block_num (the_buf t j)) ` set (R True) = H" 
    unfolding H
  proof (rule image_cong[OF refl])
    fix x assume "x \<in> set (R True)"
    then have "x \<noteq> i" using inot by blast
    then show "block_num (the_buf t x) = block_num (the_buf s x)" by (rule num)
  qed
  then have "cache_ok (insert n H) t" unfolding cache_ok_def
    by (intro cache_midI[OF t(3) kt _ t(8)]) (simp add: mT t(6))
  moreover have "buf_holds i n t" by (simp add: holds_active[OF t(3)] mT t(6))
  moreover have "c \<noteq> i \<and> buf_holds c m t" if "buf_holds c m s" for c m
    using that inot num[of c] by (auto simp: holds_active[OF t(3)] holds_active[OF bc] mT)
  ultimately show ?thesis using t kept_rel[OF t(4,7,9)] by blast
qed

lemma cache_change_ok:
  assumes ok: "cache_ok H s" and h: "buf_holds b n s" and c: "page_changed b s t"
  shows "cache_mid H {b} t \<and> buf_holds b n t \<and> disk_image t = disk_image s \<and> store_rel s t \<and>
    (\<forall>c m. buf_holds c m s \<longrightarrow> buf_holds c m t)"
proof -
  from ok obtain R F p where bc: "bc_ok s R F {}" and k: "kctx s p"
    and H: "H = (\<lambda>i. block_num (the_buf s i)) ` set (R True)" and pl: "card (pageless s) \<le> length (F False)"
    by (auto simp: cache_ok_def cache_mid_def)
  from c obtain m where t: "t = s\<lparr>mem := m\<rparr>" and m: "\<And>x. \<not> unat (x - data (the_buf s b)) < 4096 \<Longrightarrow> m x = mem s x"
    by (auto simp: page_changed_def)
  have b: "b \<in> set (R True)" using h by (simp add: holds_active[OF bc])
  note a = active_props[OF bc b]
  have cs: "calm s t" by (rule calm_frame) (simp_all add: t)
  have "bc_ok t R F {b} \<and> ktabs t = ktabs s"
  proof (rule bc_ok_step[OF bc cs])
    show "vq_ok t" using bc_okD(8)[OF bc] by (simp add: t vq_ok_def)
    show "mem t x = mem s x" if "q \<in> set (F k)" "pg x = pg q" for k q x
      using m free_not_data[OF bc a(1,3) that] by (simp add: t)
    show "mem t x = mem s x" if "u \<in> ktabs s" "pg x = pg u" for u x
      using m data_not_ktab[OF bc a(1,3) that] by (simp add: t)
    show "clean t j" if j: "j < N_BUFFER" "block_num (the_buf s j) \<noteq> BLOCK_NUM_UNUSED" "j \<notin> {b}" for j
    proof -
      have dj: "data (the_buf s j) \<noteq> 0" using buf_ok_used[OF bc_okD(1)[OF bc] j(1,2)] by simp
      have "m x = mem s x" if "unat (x - data (the_buf s j)) < 4096" for x
        using that m data_inj[OF bc j(1) a(1) _ dj a(3)] j(3)
          page_of_data[OF data_page(1)[OF bc a(1,3)]] page_of_data[OF data_page(1)[OF bc j(1) dj]] by auto
      then show ?thesis using bc_ok_clean[OF bc j(1,2)] by (simp add: clean_def t)
    qed
  qed (use b in \<open>simp_all add: t rest_same_def same_view_def\<close>)
  then have bt: "bc_ok t R F {b}" and kt: "ktabs t = ktabs s" by simp_all
  have "kctx t p" using calm_kctx[OF cs k] by simp
  with bt have "cache_mid H {b} t" using H pl by (intro cache_midI[of t R F]) (simp_all add: t pageless_def)
  moreover have "data (the_buf s b) \<in> owned s F" using a(1,3) by (auto simp: owned_def)
  then have "mem_rel s t"
    by (intro mem_relI[OF bc bt])
      (use m kt page_of_data[OF data_page(1)[OF bc a(1,3)]] in \<open>auto simp: t owned_def\<close>)
  ultimately show ?thesis using h cs by (simp add: t buf_holds_def store_rel_def)
qed

lemma disk_block_write:
  assumes n: "n < 0x20000000" and im: "disk_image t = blk_write (block_off n) (data (the_buf s b)) (disk_image s) (mem s)"
  shows "disk_block t = (disk_block s)(n := buf_page s b)"
proof (intro ext)
  fix m i
  show "disk_block t m i = ((disk_block s)(n := buf_page s b)) m i"
  proof (cases "m < 0x20000000 \<and> i < 4096")
    case True
    then have i: "unat (of_nat i :: u64) = i" by (simp add: unat_of_nat)
    show ?thesis
    proof (cases "m = n")
      case False
      then show ?thesis using True block_off_disjoint[of m n "of_nat i"] n i
        by (simp add: disk_block_def im blk_write_def)
    qed (use True i in \<open>simp add: disk_block_def buf_page_def im blk_write_def\<close>)
  next
    case False
    then show ?thesis using n by (auto simp: disk_block_def buf_page_def)
  qed
qed

lemma cache_write_ok:
  assumes ok: "cache_mid H {b} s" and h: "buf_holds b n s"
  shows "\<exists>t. buffer_write b s = Inr t \<and> cache_ok H t \<and> disk_block t = (disk_block s)(n := buf_page s b) \<and>
    store_rel s t \<and> (\<forall>c m. buf_holds c m s \<longrightarrow> buf_holds c m t)"
proof -
  from ok obtain R F p where bc: "bc_ok s R F {b}" and k: "kctx s p"
    and H: "H = (\<lambda>i. block_num (the_buf s i)) ` set (R True)" and pl: "card (pageless s) \<le> length (F False)"
    by (auto simp: cache_mid_def)
  have b: "b \<in> set (R True)" "block_num (the_buf s b) = n" using h by (simp_all add: holds_active[OF bc])
  from buffer_write_ok[OF bc k b(1)] obtain t where t: "buffer_write b s = Inr t" "bc_ok t R F {}" "calm s t"
    "rest_same s t" "same_view (bufs s) (bufs t)"
    "disk_image t = blk_write (block_off n) (data (the_buf s b)) (disk_image s) (mem s)" "mem t = mem s" "ktabs t = ktabs s"
    using b(2) by auto
  have v: "block_num (the_buf t j) = block_num (the_buf s j)" "data (the_buf t j) = data (the_buf s j)" for j
    using t(5) by (simp_all add: same_view_def)
  have "kctx t p" using calm_kctx[OF t(3) k] by simp
  then have "cache_ok H t" unfolding cache_ok_def
    by (intro cache_midI[OF t(2)]) (use H pl in \<open>simp_all add: v pageless_def\<close>)
  moreover have "mem_rel s t" using same_data_owned[OF t(8), of F] by (intro mem_relI[OF bc t(2)]) (simp_all add: t(7) v)
  then have "store_rel s t" using kept_rel[OF t(3) same_view_kept[OF t(8,4,5)]] by simp
  moreover have "buf_holds c m t" if "buf_holds c m s" for c m
    using that by (simp add: holds_active[OF bc] holds_active[OF t(2)] v)
  moreover have "n < 0x20000000" using active_props(4)[OF bc b(1)] b(2) by simp
  ultimately show ?thesis using t(1) disk_block_write[OF _ t(6)] by blast
qed

lemma cache_put_ok:
  assumes ok: "cache_ok H s" and h: "buf_holds b n s"
  shows "\<exists>t. buffer_put b s = Inr t \<and> cache_ok (H - {n}) t \<and> disk_image t = disk_image s \<and> store_rel s t \<and>
    (\<forall>c m. buf_holds c m s \<longrightarrow> c \<noteq> b \<longrightarrow> buf_holds c m t)"
proof -
  from ok obtain R F p where bc: "bc_ok s R F {}" and k: "kctx s p"
    and H: "H = (\<lambda>i. block_num (the_buf s i)) ` set (R True)" and pl: "card (pageless s) \<le> length (F False)"
    by (auto simp: cache_ok_def cache_mid_def)
  have b: "b \<in> set (R True)" "block_num (the_buf s b) = n" using h by (simp_all add: holds_active[OF bc])
  from buffer_put_ok[OF bc k b(1)] obtain t where t: "buffer_put b s = Inr t" "bc_ok t (moved b False R) F {}"
    "calm s t" "disk_image t = disk_image s" "block_num (the_buf t b) = block_num (the_buf s b)"
    "data (the_buf t b) = data (the_buf s b)" "kept b s t" "mem t = mem s" by auto
  have v: "block_num (the_buf t j) = block_num (the_buf s j)" "data (the_buf t j) = data (the_buf s j)" for j
    using t(5,6,7) by (cases "j = b"; simp add: kept_def)+
  have mT: "set (moved b False R True) = set (R True) - {b}" by (auto simp: moved_def)
  have "(\<lambda>i. block_num (the_buf s i)) ` (set (R True) - {b}) = H - {n}"
    using inj_on_image_set_diff[OF num_inj[OF bc], of "set (R True)" "{b}"] b H by simp
  moreover have "kctx t p" using calm_kctx[OF t(3) k] by simp
  ultimately have "cache_ok (H - {n}) t" unfolding cache_ok_def
    by (intro cache_midI[OF t(2)]) (use pl in \<open>simp_all add: v mT pageless_def\<close>)
  moreover have "buf_holds c m t" if "buf_holds c m s" "c \<noteq> b" for c m
    using that by (auto simp: holds_active[OF bc] holds_active[OF t(2)] v mT)
  moreover have "ktabs t = ktabs s" using t(7) by (simp add: kept_def)
  then have "mem_rel s t" using same_data_owned[of t s F] by (intro mem_relI[OF bc t(2)]) (simp_all add: t(8) v)
  ultimately show ?thesis using t(1,4) kept_rel[OF t(3,7)] by blast
qed

lemma page_is_block:
  assumes ok: "cache_ok H s" and h: "buf_holds b n s"
  shows "buf_page s b = disk_block s n"
proof -
  from ok obtain R F p where bc: "bc_ok s R F {}" by (auto simp: cache_ok_def cache_mid_def)
  have b: "b \<in> set (R True)" "block_num (the_buf s b) = n" using h by (simp_all add: holds_active[OF bc])
  note a = active_props[OF bc b(1)]
  have "clean s b" using bc_ok_clean[OF bc a(1,2)] by simp
  then have "mem s (data (the_buf s b) + of_nat i) = disk_image s (block_off n + of_nat i)" if "i < 4096" for i
    using that b(2) by (simp add: clean_def unat_of_nat)
  then show ?thesis using a(4) b(2) by (auto simp: buf_page_def disk_block_def)
qed

lemma disk_block_cong: "disk_image t = disk_image s \<Longrightarrow> disk_block t = disk_block s"
  by (intro ext) (simp add: disk_block_def)

lemma store_rel_trans: "store_rel s t \<Longrightarrow> store_rel t u \<Longrightarrow> store_rel s u"
  using calm_trans mem_rel_trans by (auto simp: store_rel_def)

interpretation blocks: block_store cache_ok "\<lambda>H b. cache_mid H {b}" buffer_get buffer_write buffer_put buf_holds buf_page
  disk_block page_changed store_rel "\<lambda>n. n < 0x20000000" N_BUFFER
proof
  show "\<exists>b t. buffer_get n s = Inr (b, t) \<and> cache_ok (insert n H) t \<and> buf_holds b n t \<and>
      disk_block t = disk_block s \<and> store_rel s t \<and> (\<forall>c m. buf_holds c m s \<longrightarrow> c \<noteq> b \<and> buf_holds c m t)"
    if "cache_ok H s" "n < 0x20000000" "n \<notin> H" "card H < N_BUFFER" for H n and s :: "'a disk_state_scheme"
    using cache_get_ok[OF that] disk_block_cong by metis
  show "cache_mid H {b} t \<and> buf_holds b n t \<and> disk_block t = disk_block s \<and> store_rel s t \<and>
      (\<forall>c m. buf_holds c m s \<longrightarrow> buf_holds c m t)"
    if "cache_ok H s" "buf_holds b n s" "page_changed b s t" for H b n and s t :: "'a disk_state_scheme"
    using cache_change_ok[OF that] disk_block_cong by metis
  show "\<exists>t. buffer_put b s = Inr t \<and> cache_ok (H - {n}) t \<and> disk_block t = disk_block s \<and> store_rel s t \<and>
      (\<forall>c m. buf_holds c m s \<longrightarrow> c \<noteq> b \<longrightarrow> buf_holds c m t)"
    if "cache_ok H s" "buf_holds b n s" for H b n and s :: "'a disk_state_scheme"
    using cache_put_ok[OF that] disk_block_cong by metis
qed (rule page_is_block cache_write_ok store_rel_trans; assumption)+

text \<open>The state after the boot is a store with no block held.\<close>

lemma boot_store:
  "\<exists>s :: 'a disk_state_scheme. cache_ok {} s \<and> disk_state.more s = m \<and> (\<forall>x < 0x80100000. foreign s x) \<and> rested s"
proof -
  obtain s :: "'a disk_state_scheme" and F where s: "bc_ok s (\<lambda>k. if k then [] else rev [0..<N_BUFFER]) F {}" "kctx s 0"
    "length (F False) = 31488" "disk_state.more s = m" "\<forall>i < N_BUFFER. data (the_buf s i) = 0"
    "\<forall>k q. in_region (pool k s) q \<longrightarrow> 0x80100000 \<le> q" "\<forall>u \<in> ktabs s. in_region (pool True s) u" "rested s"
    using boot_cache[of m] by blast
  have "card (pageless s) \<le> card {..<N_BUFFER}" by (rule card_mono) (auto simp: pageless_def)
  then have "cache_ok {} s" unfolding cache_ok_def using s(3) by (intro cache_midI[OF s(1,2)]) auto
  moreover have "foreign s x" if x: "x < 0x80100000" for x
  proof -
    have low: "pg x \<noteq> pg q" if "in_region (pool k s) q" for k q
    proof -
      have q: "0x80100000 \<le> q" using s(6) that by blast
      have "unat x < 0x80100000" "0x80100000 \<le> unat q" using x q by (simp_all add: word_less_nat_alt word_le_nat_alt)
      then have "unat x div 4096 < 0x80100" "0x80100 \<le> unat q div 4096"
        by (simp_all add: div_less_iff_less_mult less_eq_div_iff_mult_less_eq)
      then have "unat x div 4096 < unat q div 4096" by simp
      then show ?thesis by (simp add: pg_def word_unat_eq_iff unat_div)
    qed
    have "pg x \<noteq> pg q" if "q \<in> set (F k)" for k q
      by (rule low) (rule pmem_okD(5)[OF bc_okD(3)[OF s(1)] that])
    moreover have "pg x \<noteq> pg q" if "q \<in> ktabs s" for q by (rule low) (use s(7) that in blast)
    ultimately show ?thesis using s(5) unfolding foreign_iff[OF s(1)] owned_def by blast
  qed
  ultimately show ?thesis using s(4,8) by blast
qed

lemma rested_rel: "store_rel s t \<Longrightarrow> rested s \<Longrightarrow> rested t"
  using calm_ctx(2)[of s t] by (simp add: rested_def store_rel_def)

end
