(* ===== verification/Mkfs.thy ===== *)
theory Mkfs
  imports FsState
begin

text \<open>
  The host program that makes the disk image (\<open>mkfs/mkfs.c\<close>). The image is a byte function and a
  size; the static buffers are byte functions. A failed \<open>lseek\<close>, \<open>read\<close> or \<open>write\<close> ends the program
  (\<open>exit(1)\<close>): \<open>Panic\<close>. The host is little-endian, as the encodings of \<open>FsState\<close> are. The records of
  the super block and of an inode on disk are the kernel's.
\<close>

record mk_state =
  img :: "nat \<Rightarrow> u8"
  img_size :: nat
  mk_sb :: super_block
  g_inode :: nat
  g_block :: nat
  data_buf :: "nat \<Rightarrow> u8"

abbreviation (input) N_DATA_BLOCK :: u32 where "N_DATA_BLOCK \<equiv> 32 * 1024"
abbreviation (input) MK_N_INODE :: u32 where "MK_N_INODE \<equiv> 65536"

definition COUNT_BLOCKS :: "u32 \<Rightarrow> u32 \<Rightarrow> u32" where
  "COUNT_BLOCKS ele_num ele_per_block = (ele_num + ele_per_block - 1) div ele_per_block"

section \<open>Byte order\<close>

text \<open>\<open>y\<close> is read back from the bytes \<open>a[0]\<close>, \<open>a[1]\<close>, ... that were stored.\<close>

definition xshort :: "u16 \<Rightarrow> u16" where
  "xshort x = load16 (\<lambda>i. if i = 0 then ucast x else ucast (drop_bit 8 x)) 0"

definition xint :: "u32 \<Rightarrow> u32" where
  "xint x = load32 (\<lambda>i. if i = 0 then ucast x else if i = 1 then ucast (drop_bit 8 x)
     else if i = 2 then ucast (drop_bit 16 x) else ucast (drop_bit 24 x)) 0"

section \<open>Blocks and inodes of the image\<close>

text \<open>\<open>block_rw\<close>: the offset is an \<open>unsigned int\<close>.\<close>

definition mk_offset :: "u32 \<Rightarrow> nat" where
  "mk_offset blk = unat (4096 * blk)"

definition mk_read :: "u32 \<Rightarrow> mk_state \<Rightarrow> (nat \<Rightarrow> u8) res" where
  "mk_read blk s =
     (if mk_offset blk + 4096 \<le> img_size s then Inr (\<lambda>i. if i < 4096 then img s (mk_offset blk + i) else 0)
      else Inl (Panic ''read''))"

definition mk_write :: "u32 \<Rightarrow> (nat \<Rightarrow> u8) \<Rightarrow> mk_state \<Rightarrow> mk_state" where
  "mk_write blk b s =
     (let off = mk_offset blk in
      s\<lparr>img := (\<lambda>j. if off \<le> j \<and> j < off + 4096 then b (j - off) else img s j),
        img_size := max (img_size s) (off + 4096)\<rparr>)"

definition put_bytes :: "nat \<Rightarrow> nat \<Rightarrow> (nat \<Rightarrow> u8) \<Rightarrow> (nat \<Rightarrow> u8) \<Rightarrow> nat \<Rightarrow> u8" where
  "put_bytes off n src b = (\<lambda>i. if off \<le> i \<and> i < off + n then src (i - off) else b i)"

text \<open>The 64 bytes of an inode.\<close>

definition inode_bytes :: "inode_disk \<Rightarrow> nat \<Rightarrow> u8" where
  "inode_bytes d i = store_inode (\<lambda>_. 0) 0 d (of_nat i)"

definition mk_inode_rw :: "u32 \<Rightarrow> inode_disk \<Rightarrow> mk_state \<Rightarrow> mk_state res" where
  "mk_inode_rw inum ip s =
     (let blk = inode_firstblock (mk_sb s) + inum div INODE_PER_BLOCK;
          byte_offset = unat (inum mod INODE_PER_BLOCK) * 64
      in bnd (mk_read blk s) (\<lambda>b. Inr (mk_write blk (put_bytes byte_offset 64 (inode_bytes ip) b) s)))"

text \<open>\<open>first + n / BIT_PER_BLOCK\<close> and the bit in it; common to \<open>block_alloc\<close> and \<open>inode_alloc\<close>.\<close>

definition mk_set_bit :: "u32 \<Rightarrow> nat \<Rightarrow> mk_state \<Rightarrow> mk_state res" where
  "mk_set_bit first n s =
     (let blk = first + of_nat (n div 32768); bit_offset = n mod 32768; byte_offset = bit_offset div 8 in
      bnd (mk_read blk s) (\<lambda>b.
      Inr (mk_write blk (b(byte_offset := b byte_offset OR push_bit (bit_offset mod 8) 1)) s)))"

definition mk_block_alloc :: "mk_state \<Rightarrow> (u32 \<times> mk_state) res" where
  "mk_block_alloc s =
     bnd (mk_set_bit (data_bitmap_firstblock (mk_sb s)) (g_block s) s) (\<lambda>s.
     Inr (data_firstblock (mk_sb s) + of_nat (g_block s), s\<lparr>g_block := g_block s + 1\<rparr>))"

definition mk_inode_alloc :: "mk_state \<Rightarrow> (u32 \<times> mk_state) res" where
  "mk_inode_alloc s =
     bnd (mk_set_bit (inode_bitmap_firstblock (mk_sb s)) (g_inode s) s) (\<lambda>s.
     Inr (of_nat (g_inode s), s\<lparr>g_inode := g_inode s + 1\<rparr>))"

definition mk_inode_init :: "u16 \<Rightarrow> u16 \<Rightarrow> u16 \<Rightarrow> inode_disk" where
  "mk_inode_init type major minor =
     \<lparr>i_type = type, i_major = major, i_minor = minor, i_nlink = 1, i_size = 0, i_index = (\<lambda>_. 0)\<rparr>"

text \<open>\<open>inode_append\<close>: the new blocks, then the loop that writes the data.\<close>

fun mk_new_blocks :: "nat list \<Rightarrow> inode_disk \<Rightarrow> mk_state \<Rightarrow> (inode_disk \<times> mk_state) res" where
  "mk_new_blocks [] ip s = Inr (ip, s)"
| "mk_new_blocks (i # is) ip s =
     bnd (mk_block_alloc s) (\<lambda>(n, s). mk_new_blocks is (ip\<lparr>i_index := (i_index ip)(i := n)\<rparr>) s)"

definition mk_cut :: "u32 \<Rightarrow> u32 \<Rightarrow> u32 \<Rightarrow> u32 \<times> u32" where
  "mk_cut fsize tmp len =
     (let off = (if tmp = fsize div 4096 then fsize mod 4096 else 0) in
      (off, if 4096 - off < len then 4096 - off else len))"

lemma mk_cut_pos: "0 < len \<Longrightarrow> mk_cut fsize tmp len = (off, n) \<Longrightarrow> 0 < n \<and> n \<le> len"
proof -
  have "fsize mod 4096 < 4096" by (simp add: word_mod_less_divisor)
  then have "4096 - (fsize mod 4096) \<noteq> 0" by auto
  moreover assume "0 < len" "mk_cut fsize tmp len = (off, n)"
  ultimately show ?thesis
    by (auto simp: mk_cut_def Let_def word_gt_0 split: if_splits)
qed

lemma mk_cut_decreases: "(off, n) = mk_cut fsize tmp len \<Longrightarrow> 0 < len \<Longrightarrow> unat (len - n) < unat len"
proof -
  assume "(off, n) = mk_cut fsize tmp len" "0 < len"
  then have "0 < n" "n \<le> len" using mk_cut_pos by metis+
  then show "unat (len - n) < unat len" by (simp add: word_less_nat_alt word_le_nat_alt unat_sub)
qed

function mk_append_loop :: "inode_disk \<Rightarrow> u32 \<Rightarrow> (nat \<Rightarrow> u8) \<Rightarrow> u32 \<Rightarrow> mk_state \<Rightarrow> mk_state res" where
  "mk_append_loop ip tmp src len s =
     (if len > 0 then
        case mk_cut (i_size ip) tmp len of (off, cut_len) \<Rightarrow>
          bnd (if tmp = i_size ip div 4096 then mk_read (i_index ip (unat tmp)) s else Inr (data_buf s)) (\<lambda>b.
          let b = put_bytes (unat off) (unat cut_len) src b;
              s = mk_write (i_index ip (unat tmp)) b (s\<lparr>data_buf := b\<rparr>)
          in mk_append_loop ip (tmp + 1) (\<lambda>i. src (i + unat cut_len)) (len - cut_len) s)
      else Inr s)"
  by pat_completeness auto
termination
  by (relation "measure (\<lambda>(ip, tmp, src, len, s). unat len)") (use mk_cut_decreases in auto)

declare mk_append_loop.simps [simp del]

text \<open>When the ten direct blocks do not suffice only a message is printed.\<close>

definition mk_inode_append :: "inode_disk \<Rightarrow> (nat \<Rightarrow> u8) \<Rightarrow> u32 \<Rightarrow> mk_state \<Rightarrow> (inode_disk \<times> mk_state) res" where
  "mk_inode_append ip src len s =
     (let old_blocks = COUNT_BLOCKS (i_size ip) 4096; new_blocks = COUNT_BLOCKS (i_size ip + len) 4096 in
      if new_blocks > old_blocks \<and> new_blocks > 10 then Inr (ip, s)
      else
        bnd (if new_blocks > old_blocks then mk_new_blocks [unat old_blocks..<unat new_blocks] ip s
             else Inr (ip, s)) (\<lambda>(ip, s).
        bnd (mk_append_loop ip (i_size ip div 4096) src len s) (\<lambda>s.
        Inr (ip\<lparr>i_size := i_size ip + len\<rparr>, s))))"

section \<open>The image\<close>

text \<open>Step 1 of \<open>main\<close>, for any values of the macros \<open>N_INODE\<close> and \<open>N_DATA_BLOCK\<close>, and for theirs.\<close>

definition layout_of :: "u32 \<Rightarrow> u32 \<Rightarrow> super_block" where
  "layout_of n_inode n_data_block =
     (let ib = COUNT_BLOCKS n_inode BIT_PER_BLOCK; first_inode = 1 + ib;
          nb = COUNT_BLOCKS n_inode INODE_PER_BLOCK; first_bitmap = first_inode + nb;
          db = COUNT_BLOCKS n_data_block BIT_PER_BLOCK
      in \<lparr>magic_num = 0x12341234, block_size = 4096, total_blocks = 1 + ib + nb + db + n_data_block,
          total_inodes = n_inode, inode_bitmap_firstblock = 1, inode_bitmap_blocks = ib,
          inode_firstblock = first_inode, inode_blocks = nb, data_bitmap_firstblock = first_bitmap,
          data_bitmap_blocks = db, data_firstblock = first_bitmap + db, data_blocks = n_data_block\<rparr>)"

definition mk_layout :: super_block where
  "mk_layout = layout_of MK_N_INODE N_DATA_BLOCK"

text \<open>A directory entry: the name, of which \<open>strcpy\<close> sets the bytes up to the NUL, and the number.\<close>

definition mk_strcpy :: "string \<Rightarrow> (nat \<Rightarrow> u8) \<Rightarrow> nat \<Rightarrow> u8" where
  "mk_strcpy cs name i = (if i < length cs then of_char (cs ! i) else if i = length cs then 0 else name i)"

definition de_bytes :: "(nat \<Rightarrow> u8) \<Rightarrow> u32 \<Rightarrow> nat \<Rightarrow> u8" where
  "de_bytes name inum i = (if i < 60 then name i else byte_of inum (i - 60))"

text \<open>The locals of \<open>main\<close> that the steps change: \<open>inode[7]\<close>, \<open>inode_num[7]\<close> and \<open>de.name\<close>.\<close>

record mk_main_state = mk_state +
  inos :: "nat \<Rightarrow> inode_disk"
  inums :: "nat \<Rightarrow> u32"
  mk_de_name :: "nat \<Rightarrow> u8"

definition mk_lift :: "(mk_state \<Rightarrow> ('b \<times> mk_state) res) \<Rightarrow> mk_main_state \<Rightarrow> ('b \<times> mk_main_state) res" where
  "mk_lift f m = bnd (f (mk_state.truncate m)) (\<lambda>(x, s). Inr (x, mk_state.extend s (mk_state.more m)))"

definition mk_append_to :: "nat \<Rightarrow> (nat \<Rightarrow> u8) \<Rightarrow> u32 \<Rightarrow> mk_main_state \<Rightarrow> mk_main_state res" where
  "mk_append_to k src len m =
     bnd (mk_lift (mk_inode_append (inos m k) src len) m) (\<lambda>(ip, m). Inr (m\<lparr>inos := (inos m)(k := ip)\<rparr>))"

definition mk_entry :: "nat \<Rightarrow> nat \<Rightarrow> string \<Rightarrow> mk_main_state \<Rightarrow> mk_main_state res" where
  "mk_entry dir k name m =
     (let m = m\<lparr>mk_de_name := mk_strcpy name (mk_de_name m)\<rparr>
      in mk_append_to dir (de_bytes (mk_de_name m) (xint (inums m k))) 64 m)"

definition mk_new_inode :: "nat \<Rightarrow> u16 \<Rightarrow> u16 \<Rightarrow> u16 \<Rightarrow> mk_main_state \<Rightarrow> mk_main_state res" where
  "mk_new_inode k type major minor m =
     bnd (mk_lift mk_inode_alloc m) (\<lambda>(n, m).
     Inr (m\<lparr>inums := (inums m)(k := n), inos := (inos m)(k := mk_inode_init type major minor)\<rparr>))"

definition mk_tree :: "mk_main_state \<Rightarrow> mk_main_state res" where
  "mk_tree m =
     bnd (mk_new_inode 0 INODE_TYPE_DIR 1 1 m) (\<lambda>m.
     bnd (mk_entry 0 0 ''.'' m) (\<lambda>m.
     bnd (mk_entry 0 0 ''..'' m) (\<lambda>m.
     bnd (mk_new_inode 1 INODE_TYPE_DIR 1 1 m) (\<lambda>m.
     bnd (mk_entry 1 1 ''.'' m) (\<lambda>m.
     bnd (mk_entry 1 0 ''..'' m) (\<lambda>m.
     bnd (mk_entry 0 1 ''dev'' m) (\<lambda>m.
     bnd (mk_new_inode 2 INODE_TYPE_DEVICE 0 0 m) (\<lambda>m.
     bnd (mk_entry 1 2 ''stdin'' m) (\<lambda>m.
     bnd (mk_new_inode 3 INODE_TYPE_DEVICE 1 0 m) (\<lambda>m.
     bnd (mk_entry 1 3 ''stdout'' m) (\<lambda>m.
     bnd (mk_new_inode 4 INODE_TYPE_DEVICE 2 0 m) (\<lambda>m.
     bnd (mk_entry 1 4 ''stderr'' m) (\<lambda>m.
     bnd (mk_new_inode 5 INODE_TYPE_DATA 1 1 m) (\<lambda>m.
     bnd (mk_entry 0 5 ''ABCD.txt'' m) (\<lambda>m.
     bnd (mk_new_inode 6 INODE_TYPE_DATA 1 1 m) (mk_entry 0 6 ''abcd.txt''))))))))))))))))"

definition mk_text :: "mk_main_state \<Rightarrow> mk_main_state res" where
  "mk_text m =
     bnd (for_each [0..<200] (\<lambda>_. mk_append_to 5 (\<lambda>i. 65 + of_nat i) 26) m) (\<lambda>m.
     for_each [0..<500] (\<lambda>_. mk_append_to 6 (\<lambda>i. 97 + of_nat i) 26) m)"

text \<open>Step 8: the super block and the inodes, in little-endian order.\<close>

definition sb_fields :: "super_block \<Rightarrow> u32 list" where
  "sb_fields b = [magic_num b, block_size b, total_blocks b, total_inodes b, inode_bitmap_firstblock b,
     inode_bitmap_blocks b, inode_firstblock b, inode_blocks b, data_bitmap_firstblock b, data_bitmap_blocks b,
     data_firstblock b, data_blocks b]"

definition super_bytes :: "super_block \<Rightarrow> nat \<Rightarrow> u8" where
  "super_bytes b i = byte_of (sb_fields b ! (i div 4)) (i mod 4)"

definition xsuper :: "super_block \<Rightarrow> super_block" where
  "xsuper b = \<lparr>magic_num = xint (magic_num b), block_size = xint (block_size b),
     total_blocks = xint (total_blocks b), total_inodes = xint (total_inodes b),
     inode_bitmap_firstblock = xint (inode_bitmap_firstblock b),
     inode_bitmap_blocks = xint (inode_bitmap_blocks b), inode_firstblock = xint (inode_firstblock b),
     inode_blocks = xint (inode_blocks b), data_bitmap_firstblock = xint (data_bitmap_firstblock b),
     data_bitmap_blocks = xint (data_bitmap_blocks b), data_firstblock = xint (data_firstblock b),
     data_blocks = xint (data_blocks b)\<rparr>"

definition xinode :: "inode_disk \<Rightarrow> inode_disk" where
  "xinode d = \<lparr>i_type = xshort (i_type d), i_major = xshort (i_major d), i_minor = xshort (i_minor d),
     i_nlink = xshort (i_nlink d), i_size = xint (i_size d), i_index = (\<lambda>k. if k < INODE_INDEX_3 then xint (i_index d k) else i_index d k)\<rparr>"

definition mk_write_super :: "mk_state \<Rightarrow> mk_state" where
  "mk_write_super s =
     (let s = s\<lparr>mk_sb := xsuper (mk_sb s)\<rparr>;
          b = put_bytes 0 48 (super_bytes (mk_sb s)) (data_buf s)
      in mk_write 0 b (s\<lparr>data_buf := b\<rparr>))"

definition mk_write_inode :: "nat \<Rightarrow> mk_main_state \<Rightarrow> mk_main_state res" where
  "mk_write_inode k m =
     (let m = m\<lparr>inos := (inos m)(k := xinode (inos m k))\<rparr> in
      bnd (mk_lift (\<lambda>s. bnd (mk_inode_rw (inums m k) (inos m k) s) (\<lambda>s. Inr ((), s))) m) (\<lambda>(_, m). Inr m))"

text \<open>Step 3: every block of the image is written with zeros.\<close>

definition mk_clear :: "mk_state \<Rightarrow> mk_state" where
  "mk_clear s =
     (let s = s\<lparr>data_buf := put_bytes 0 4096 (\<lambda>_. 0) (data_buf s)\<rparr>
      in fold (\<lambda>i s. mk_write (of_nat i) (data_buf s) s) [0..<unat (total_blocks (mk_sb s))] s)"

text \<open>
  \<open>main\<close> from the state in which the new file is open and empty; \<open>junk\<close> is what the uninitialised
  locals of \<open>main\<close> hold.
\<close>

definition mk_start :: mk_state where
  "mk_start = \<lparr>img = (\<lambda>_. 0), img_size = 0, mk_sb = mk_layout, g_inode = 0, g_block = 0, data_buf = (\<lambda>_. 0)\<rparr>"

definition mk_main :: "mk_main_state \<Rightarrow> mk_main_state res" where
  "mk_main junk =
     (let m = mk_state.extend (mk_clear mk_start) (mk_state.more junk) in
      bnd (mk_tree m) (\<lambda>m.
      bnd (mk_text m) (\<lambda>m.
      bnd (mk_lift (\<lambda>s. Inr ((), mk_write_super s)) m) (\<lambda>(_, m).
      for_each [0..<7] mk_write_inode m))))"

end
