(* ===== verification/Encoding.thy ===== *)
theory Encoding
  imports Mkfs
begin

text \<open>
  The encodings in a block are faithful: what \<open>store_inode\<close> and \<open>mkfs\<close> write, \<open>load_inode\<close> and
  \<open>load_super\<close> read back, each encoding stays in its 64 bytes, and the conversions of \<open>mkfs\<close> to
  little-endian order change nothing on a little-endian host.
\<close>

section \<open>Integers\<close>

lemma in_range_shift:
  fixes y :: u64
  assumes "k + n < 2 ^ 32"
  shows "unat (y - of_nat k) < n \<longleftrightarrow> k \<le> unat y \<and> unat y < k + n"
    and "k \<le> unat y \<Longrightarrow> unat (y - of_nat k) = unat y - k"
proof -
  have k: "unat (of_nat k :: u64) = k" using assms by (simp add: unat_of_nat)
  show le: "k \<le> unat y \<Longrightarrow> unat (y - of_nat k) = unat y - k"
    using unat_sub[of "of_nat k" y] by (simp add: word_le_nat_alt k)
  have "unat (y - of_nat k) = 2 ^ 64 + unat y - k" if "unat y < k"
    using that unat_sub_if'[of y "of_nat k"] by (simp add: k)
  then show "unat (y - of_nat k) < n \<longleftrightarrow> k \<le> unat y \<and> unat y < k + n"
    using le assms by (cases "k \<le> unat y") auto
qed

lemma word_eq_shift: "(x :: u64) = a + c \<longleftrightarrow> x - a = c"
  by (auto simp: algebra_simps)

lemma small_eq: "c < 2 ^ 32 \<Longrightarrow> (y :: u64) = of_nat c \<longleftrightarrow> unat y = c"
  using unat_of_nat[of c, where 'a = 64] by (auto simp: word_unat_eq_iff)

lemma store16_apply:
  "store16 m a v x = (if unat (x - a) < 2 then byte_of v (unat (x - a)) else m x)"
proof -
  have "x = a + 1 \<longleftrightarrow> unat (x - a) = 1" "x = a \<longleftrightarrow> unat (x - a) = 0"
    using small_eq[of 0 "x - a"] small_eq[of 1 "x - a"] by (simp_all add: word_eq_shift)
  then show ?thesis by (auto simp: store16_def less_Suc_eq numeral_2_eq_2)
qed

lemma store32_apply:
  "store32 m a v x = (if unat (x - a) < 4 then byte_of v (unat (x - a)) else m x)"
proof -
  have "x = a + 1 \<longleftrightarrow> unat (x - a) = 1" "x = a + 2 \<longleftrightarrow> unat (x - a) = 2" "x = a + 3 \<longleftrightarrow> unat (x - a) = 3"
    "x = a \<longleftrightarrow> unat (x - a) = 0"
    using small_eq[of 0 "x - a"] small_eq[of 1 "x - a"] small_eq[of 2 "x - a"] small_eq[of 3 "x - a"]
    by (simp_all add: word_eq_shift)
  moreover have "k < 4 \<longleftrightarrow> k = 0 \<or> k = 1 \<or> k = 2 \<or> k = (3::nat)" for k by auto
  ultimately show ?thesis by (auto simp: store32_def)
qed

lemma store16_at:
  assumes "k + 2 < 2 ^ 32"
  shows "store16 m (a + of_nat k) v x =
    (if k \<le> unat (x - a) \<and> unat (x - a) < k + 2 then byte_of v (unat (x - a) - k) else m x)"
  using in_range_shift[OF assms, of "x - a"] by (simp add: store16_apply diff_diff_eq)

lemma store32_at:
  assumes "k + 4 < 2 ^ 32"
  shows "store32 m (a + of_nat k) v x =
    (if k \<le> unat (x - a) \<and> unat (x - a) < k + 4 then byte_of v (unat (x - a) - k) else m x)"
  using in_range_shift[OF assms, of "x - a"] by (simp add: store32_apply diff_diff_eq)

lemma bytes_join16: "ucast (byte_of v 0) OR push_bit 8 (ucast (byte_of v 1)) = (v :: u16)"
  by (rule bit_word_eqI) (auto simp: byte_of_def bit_simps)

lemma load32_bytes:
  assumes "\<And>i. i < 4 \<Longrightarrow> m (a + of_nat i) = byte_of v i"
  shows "load32 m a = v"
  using assms[of 0] assms[of 1] assms[of 2] assms[of 3] byte_parts32[of v] by (simp add: load32_def)

lemma load16_bytes:
  assumes "\<And>i. i < 2 \<Longrightarrow> m (a + of_nat i) = byte_of v i"
  shows "load16 m a = v"
  using assms[of 0] assms[of 1] bytes_join16[of v] by (simp add: load16_def)

section \<open>Inodes\<close>

text \<open>Byte \<open>i\<close> of the encoding, by the field it belongs to.\<close>

definition inode_byte :: "inode_disk \<Rightarrow> nat \<Rightarrow> u8" where
  "inode_byte d i =
     (if i < 2 then byte_of (i_type d) i else if i < 4 then byte_of (i_major d) (i - 2)
      else if i < 6 then byte_of (i_minor d) (i - 4) else if i < 8 then byte_of (i_nlink d) (i - 6)
      else if i < 12 then byte_of (i_size d) (i - 8)
      else byte_of (i_index d ((i - 12) div 4)) ((i - 12) mod 4))"

lemma store_indices:
  assumes "n \<le> 13"
  shows "foldl (\<lambda>m k. store32 m (index_addr (a + 12) k) (f k)) m [0..<n] x =
    (if 12 \<le> unat (x - a) \<and> unat (x - a) < 12 + 4 * n
     then byte_of (f ((unat (x - a) - 12) div 4)) ((unat (x - a) - 12) mod 4) else m x)"
  using assms
proof (induction n)
  case (Suc n)
  have "index_addr (a + 12) n = a + of_nat (12 + 4 * n)" by (simp add: index_addr_def)
  moreover have "12 + 4 * n \<le> unat (x - a) \<Longrightarrow> unat (x - a) < 16 + 4 * n \<Longrightarrow>
      (unat (x - a) - 12) div 4 = n \<and> (unat (x - a) - 12) mod 4 = unat (x - a) - (12 + 4 * n)"
    by (intro conjI mod_nat_eqI div_nat_eqI) auto
  ultimately show ?case
    using Suc store32_at[of "12 + 4 * n" _ a] by (auto simp: not_le)
qed auto

lemma store_inode_apply:
  "store_inode m a d x = (if unat (x - a) < 64 then inode_byte d (unat (x - a)) else m x)"
proof -
  note s = store16_at[where a = a] store32_at[where a = a]
  show ?thesis
    unfolding store_inode_def store_indices[OF order_refl]
    using s(1)[of 0] s(1)[of 2] s(1)[of 4] s(1)[of 6] s(2)[of 8] by (auto simp: inode_byte_def)
qed

lemma inode_bytes_eq: "i < 64 \<Longrightarrow> inode_bytes d i = inode_byte d i"
  by (simp add: inode_bytes_def store_inode_apply unat_of_nat)

text \<open>An inode read from 64 bytes that hold the encoding of \<open>d\<close> is \<open>d\<close>, whose table has 13 entries.\<close>

definition inode_view :: "inode_disk \<Rightarrow> inode_disk" where
  "inode_view d = d\<lparr>i_index := (\<lambda>k. if k < INODE_INDEX_3 then i_index d k else 0)\<rparr>"

lemma load_inode_bytes:
  assumes m: "\<And>i. i < 64 \<Longrightarrow> m (a + of_nat i) = inode_byte d i"
  shows "load_inode m a = inode_view d"
proof -
  have b: "m (a + c + of_nat i) = inode_byte d (k + i)" if "c = of_nat k" "k + i < 64" for c k i
    using m[OF that(2)] that(1) by (simp add: add.assoc)
  have "load16 m a = i_type d" using m by (intro load16_bytes) (simp add: inode_byte_def)
  moreover have "load16 m (a + 2) = i_major d"
    by (intro load16_bytes) (simp add: b[of _ 2] inode_byte_def)
  moreover have "load16 m (a + 4) = i_minor d"
    by (intro load16_bytes) (simp add: b[of _ 4] inode_byte_def)
  moreover have "load16 m (a + 6) = i_nlink d"
    by (intro load16_bytes) (simp add: b[of _ 6] inode_byte_def)
  moreover have "load32 m (a + 8) = i_size d"
    by (intro load32_bytes) (simp add: b[of _ 8] inode_byte_def)
  moreover have "load32 m (index_addr (a + 12) k) = i_index d k" if "k < 13" for k
  proof (rule load32_bytes)
    fix i :: nat assume "i < 4"
    then show "m (index_addr (a + 12) k + of_nat i) = byte_of (i_index d k) i"
      using m[of "12 + 4 * k + i"] that by (simp add: index_addr_def inode_byte_def add.assoc)
  qed
  ultimately show ?thesis by (simp add: load_inode_def inode_view_def cong: if_cong)
qed

text \<open>Only the 64 bytes matter.\<close>

lemma load_inode_cong:
  assumes m: "\<And>i. i < 64 \<Longrightarrow> m (a + of_nat i) = m' (a' + of_nat i)"
  shows "load_inode m a = load_inode m' a'"
proof -
  have b: "m (a + of_nat k) = m' (a' + of_nat k)" if "k < 64" for k using m[OF that] .
  have l16: "load16 m (a + of_nat k) = load16 m' (a' + of_nat k)" if "k < 63" for k
    using b[of k] b[of "k + 1"] that by (simp add: load16_def ac_simps)
  have l32: "load32 m (a + of_nat k) = load32 m' (a' + of_nat k)" if "k < 61" for k
    using b[of k] b[of "k + 1"] b[of "k + 2"] b[of "k + 3"] that by (simp add: load32_def ac_simps)
  have "load32 m (index_addr (a + 12) k) = load32 m' (index_addr (a' + 12) k)" if "k < 13" for k
    using l32[of "12 + 4 * k"] that by (simp add: index_addr_def ac_simps)
  then show ?thesis using l16[of 0] l16[of 2] l16[of 4] l16[of 6] l32[of 8]
    by (simp add: load_inode_def cong: if_cong)
qed

section \<open>The host program\<close>

lemma xint_id: "xint x = x"
proof -
  have "(\<lambda>i :: u64. if i = 0 then ucast x else if i = 1 then ucast (drop_bit 8 x)
     else if i = 2 then ucast (drop_bit 16 x) else ucast (drop_bit 24 x)) (0 + of_nat i) = byte_of x i" if "i < 4" for i
  proof -
    have "i = 0 \<or> i = 1 \<or> i = 2 \<or> i = 3" using that by auto
    then show ?thesis by (auto simp: byte_of_def)
  qed
  then show ?thesis unfolding xint_def by (rule load32_bytes)
qed

lemma xshort_id: "xshort x = x"
  unfolding xshort_def by (rule load16_bytes) (auto simp: byte_of_def less_2_cases_iff)

lemma xsuper_id: "xsuper b = b"
  by (simp add: xsuper_def xint_id)

lemma xinode_id: "xinode d = d"
  by (simp add: xinode_def xint_id xshort_id cong: if_cong)

lemma super_roundtrip:
  assumes m: "\<And>i. i < 48 \<Longrightarrow> m (a + of_nat i) = super_bytes b i"
  shows "load_super m a = b"
proof -
  have "load32 m (a + of_nat (4 * k)) = sb_fields b ! k" if "k < 12" for k
  proof (rule load32_bytes)
    fix i :: nat assume "i < 4"
    then show "m (a + of_nat (4 * k) + of_nat i) = byte_of (sb_fields b ! k) i"
      using m[of "4 * k + i"] that by (simp add: super_bytes_def add.assoc)
  qed
  note f = this[of 0] this[of 1] this[of 2] this[of 3] this[of 4] this[of 5] this[of 6] this[of 7] this[of 8]
    this[of 9] this[of 10] this[of 11]
  show ?thesis using f by (simp add: load_super_def sb_fields_def)
qed

text \<open>The layout of the image: two bitmap blocks for 65536 inodes, 1024 blocks of inodes, one data bitmap block.\<close>

lemma mk_layout_eq:
  "mk_layout = \<lparr>magic_num = 0x12341234, block_size = 4096, total_blocks = 33796, total_inodes = 65536,
     inode_bitmap_firstblock = 1, inode_bitmap_blocks = 2, inode_firstblock = 3, inode_blocks = 1024,
     data_bitmap_firstblock = 1027, data_bitmap_blocks = 1, data_firstblock = 1028, data_blocks = 32768\<rparr>"
  by (simp add: mk_layout_def layout_of_def COUNT_BLOCKS_def Let_def)

text \<open>\<open>COUNT_BLOCKS\<close> rounds up: the blocks have room for the elements, and one block less has not.\<close>

lemma count_blocks:
  fixes n u :: u32
  assumes u: "0 < u" and n: "unat n + unat u \<le> 2 ^ 32"
  shows "unat n \<le> unat u * unat (COUNT_BLOCKS n u)" "unat u * unat (COUNT_BLOCKS n u) < unat n + unat u"
proof -
  have u0: "0 < unat u" using u by (simp add: word_less_nat_alt)
  have "n + u - 1 = word_of_nat (unat n + unat u - 1)" using u0 by (simp add: of_nat_diff)
  then have "unat (n + u - 1) = unat n + unat u - 1" using n u0 by (simp add: unat_of_nat del: of_nat_diff)
  then have c: "unat (COUNT_BLOCKS n u) = (unat n + unat u - 1) div unat u" by (simp add: COUNT_BLOCKS_def unat_div)
  have d: "unat u * ((unat n + unat u - 1) div unat u) + (unat n + unat u - 1) mod unat u = unat n + unat u - 1"
    by (rule mult_div_mod_eq)
  moreover have "(unat n + unat u - 1) mod unat u < unat u" using u0 by simp
  ultimately show "unat n \<le> unat u * unat (COUNT_BLOCKS n u)" "unat u * unat (COUNT_BLOCKS n u) < unat n + unat u"
    using u0 unfolding c by linarith+
qed

text \<open>The areas of the image lie one behind the other, each with room for what it holds and no block too many.\<close>

definition layout_ok :: "super_block \<Rightarrow> bool" where
  "layout_ok b \<longleftrightarrow> unat (inode_bitmap_firstblock b) = 1 \<and>
     unat (inode_firstblock b) = unat (inode_bitmap_firstblock b) + unat (inode_bitmap_blocks b) \<and>
     unat (data_bitmap_firstblock b) = unat (inode_firstblock b) + unat (inode_blocks b) \<and>
     unat (data_firstblock b) = unat (data_bitmap_firstblock b) + unat (data_bitmap_blocks b) \<and>
     unat (total_blocks b) = unat (data_firstblock b) + unat (data_blocks b) \<and> unat (total_blocks b) < 0x20000000 \<and>
     unat (total_inodes b) \<le> 32768 * unat (inode_bitmap_blocks b) \<and> 32768 * unat (inode_bitmap_blocks b) < unat (total_inodes b) + 32768 \<and>
     unat (total_inodes b) \<le> 64 * unat (inode_blocks b) \<and> 64 * unat (inode_blocks b) < unat (total_inodes b) + 64 \<and>
     unat (data_blocks b) \<le> 32768 * unat (data_bitmap_blocks b) \<and> 32768 * unat (data_bitmap_blocks b) < unat (data_blocks b) + 32768"

lemma layout_of_ok:
  assumes i: "unat ni \<le> 2 ^ 28" and d: "unat nd \<le> 2 ^ 28"
  shows "layout_ok (layout_of ni nd)"
proof -
  have b: "unat ni + unat (32768 :: u32) \<le> 2 ^ 32" "unat ni + unat (64 :: u32) \<le> 2 ^ 32" "unat nd + unat (32768 :: u32) \<le> 2 ^ 32"
    using i d by simp_all
  define p q r where "p = COUNT_BLOCKS ni 32768" and "q = COUNT_BLOCKS ni 64" and "r = COUNT_BLOCKS nd 32768"
  have "unat ni \<le> 32768 * unat p \<and> 32768 * unat p < unat ni + 32768"
    using count_blocks[OF _ b(1)] by (simp add: p_def)
  moreover have "unat ni \<le> 64 * unat q \<and> 64 * unat q < unat ni + 64" using count_blocks[OF _ b(2)] by (simp add: q_def)
  moreover have "unat nd \<le> 32768 * unat r \<and> 32768 * unat r < unat nd + 32768"
    using count_blocks[OF _ b(3)] by (simp add: r_def)
  ultimately have c: "unat ni \<le> 32768 * unat p" "32768 * unat p < unat ni + 32768" "unat ni \<le> 64 * unat q"
    "64 * unat q < unat ni + 64" "unat nd \<le> 32768 * unat r" "32768 * unat r < unat nd + 32768" by blast+
  then have s: "unat p \<le> 8192" "unat q \<le> 4194304" "unat r \<le> 8192" using i d by simp_all
  have u1: "unat (1 + p) = 1 + unat p" using s by (simp add: unat_word_ariths)
  then have u2: "unat (1 + p + q) = 1 + unat p + unat q" using s by (simp add: unat_word_ariths)
  then have u3: "unat (1 + p + q + r) = 1 + unat p + unat q + unat r" using s by (simp add: unat_word_ariths)
  then have u4: "unat (1 + p + q + r + nd) = 1 + unat p + unat q + unat r + unat nd" using s d by (simp add: unat_word_ariths)
  have l: "layout_of ni nd = \<lparr>magic_num = 0x12341234, block_size = 4096, total_blocks = 1 + p + q + r + nd,
          total_inodes = ni, inode_bitmap_firstblock = 1, inode_bitmap_blocks = p,
          inode_firstblock = 1 + p, inode_blocks = q, data_bitmap_firstblock = 1 + p + q,
          data_bitmap_blocks = r, data_firstblock = 1 + p + q + r, data_blocks = nd\<rparr>"
    by (simp add: layout_of_def p_def q_def r_def Let_def)
  show ?thesis unfolding l layout_ok_def using u1 u2 u3 u4 c s d by simp
qed

end
