(* ===== verification/DiskMaps.thy ===== *)
theory DiskMaps
  imports BlockStore Inode Encoding
begin

text \<open>
  What the operations on the bitmaps and on the inode table do to the disk. Each is a client of the
  store of blocks: the facts \<open>blocks.look\<close> and \<open>blocks.modify\<close> reduce it to the bytes of one page.
\<close>

section \<open>Bits of a block\<close>

definition blk_bit :: "(nat \<Rightarrow> u8) \<Rightarrow> nat \<Rightarrow> bool" where
  "blk_bit d i \<longleftrightarrow> bit (d (i div 8)) (i mod 8)"

definition blk_put :: "bool \<Rightarrow> nat \<Rightarrow> (nat \<Rightarrow> u8) \<Rightarrow> nat \<Rightarrow> u8" where
  "blk_put v i d = d(i div 8 := (if v then set_bit (i mod 8) (d (i div 8)) else unset_bit (i mod 8) (d (i div 8))))"

lemma blk_bit_put: "blk_bit (blk_put v i d) j = (if j = i then v else blk_bit d j)"
proof -
  have "j div 8 = i div 8 \<Longrightarrow> j mod 8 = i mod 8 \<Longrightarrow> j = i" by (metis div_mult_mod_eq)
  then show ?thesis
    by (cases v) (auto simp: blk_bit_def blk_put_def bit_simps)
qed

lemma blk_put_put: "blk_put v i (blk_put w i d) = blk_put v i d"
  by (rule ext) (auto simp: blk_put_def intro!: bit_word_eqI simp: bit_simps)

lemma blk_put_same: "blk_bit d i = v \<Longrightarrow> blk_put v i d = d"
  by (rule ext) (auto simp: blk_bit_def blk_put_def intro!: bit_word_eqI simp: bit_simps)

lemma or_bit: "(w :: u8) OR 2 ^ n = set_bit n w"
  by (simp add: set_bit_eq_or)

lemma and_not_bit: "(w :: u8) AND NOT (2 ^ n) = unset_bit n w"
  by (simp add: unset_bit_eq_and_not)

lemma byte_index: "i < 32768 \<Longrightarrow> i div 8 < (4096 :: nat)"
  by (simp add: less_mult_imp_div_less)

lemma bit_free_page: "i < 32768 \<Longrightarrow> bit_free (mem s) (data (the_buf s b)) i \<longleftrightarrow> \<not> blk_bit (buf_page s b) i"
  using byte_index[of i] by (simp add: bit_free_def blk_bit_def buf_page_def and_exp_eq_0_iff_not_bit)

text \<open>The first clear one of the first \<open>n\<close> bits.\<close>

definition first_clear :: "(nat \<Rightarrow> u8) \<Rightarrow> nat \<Rightarrow> nat option" where
  "first_clear d n = List.find (\<lambda>i. \<not> blk_bit d i) [0..<n]"

lemma first_clear_less: "first_clear d n = Some i \<Longrightarrow> i < n \<and> \<not> blk_bit d i"
  using find_Some_iff[of "\<lambda>i. \<not> blk_bit d i" "[0..<n]" i] by (simp add: first_clear_def)

lemma search_bit_find:
  "n + i \<le> 32768 \<Longrightarrow> search_bit n i (mem s) (data (the_buf s b)) = List.find (\<lambda>j. \<not> blk_bit (buf_page s b) j) [i..<i + n]"
proof (induction n arbitrary: i)
  case (Suc n)
  have e: "[i..<i + Suc n] = i # [Suc i..<Suc i + n]" by (subst upt_conv_Cons) simp_all
  have "i < 32768" "n + Suc i \<le> 32768" using Suc.prems by simp_all
  then show ?case unfolding e using Suc.IH[of "Suc i"] bit_free_page[of i s b] by simp
qed simp

lemma search_bit_page:
  "n \<le> 32768 \<Longrightarrow> search_bit n 0 (mem s) (data (the_buf s b)) = first_clear (buf_page s b) n"
  using search_bit_find[of n 0 s b] by (simp add: first_clear_def)

text \<open>A change of memory within the page of a buffer.\<close>

lemma page_write:
  fixes s :: "'a disk_state_scheme"
  assumes "\<And>x. \<not> unat (x - data (the_buf s b)) < 4096 \<Longrightarrow> m x = mem s x"
    and "\<And>i. i < 4096 \<Longrightarrow> m (data (the_buf s b) + of_nat i) = f (buf_page s b) i"
    and "\<And>i. \<not> i < 4096 \<Longrightarrow> f (buf_page s b) i = 0"
  shows "page_changed b s (s\<lparr>mem := m\<rparr>) \<and> buf_page (s\<lparr>mem := m\<rparr>) b = f (buf_page s b)"
  using assms by (auto simp: page_changed_def buf_page_def fun_eq_iff)

lemma fun_upd_page:
  assumes k: "k < 4096" 
  shows "page_changed b s (s\<lparr>mem := (mem s)(data (the_buf s b) + of_nat k := v)\<rparr>) \<and>
    buf_page (s\<lparr>mem := (mem s)(data (the_buf s b) + of_nat k := v)\<rparr>) b = (buf_page s b)(k := v)"
proof (rule page_write[where f = "\<lambda>d. d(k := v)"])
  fix x assume "\<not> unat (x - data (the_buf s b)) < 4096"
  then show "((mem s)(data (the_buf s b) + of_nat k := v)) x = mem s x" using k by auto
next
  fix i :: nat assume i: "i < 4096"
  then have "of_nat i = (of_nat k :: u64) \<longleftrightarrow> i = k" using k by (simp add: small_eq)
  then show "((mem s)(data (the_buf s b) + of_nat k := v)) (data (the_buf s b) + of_nat i) = ((buf_page s b)(k := v)) i"
    using i by (auto simp: buf_page_def)
qed (use k in \<open>auto simp: buf_page_def\<close>)

lemma set_bit_page:
  assumes "i < 32768"
  shows "page_changed b s (s\<lparr>mem := set_bit_at (mem s) (data (the_buf s b)) i\<rparr>) \<and>
    buf_page (s\<lparr>mem := set_bit_at (mem s) (data (the_buf s b)) i\<rparr>) b = blk_put True i (buf_page s b)"
  using fun_upd_page[OF byte_index[OF assms], of b s] byte_index[OF assms]
  by (simp add: set_bit_at_def blk_put_def or_bit buf_page_def[of s b "i div 8"])

lemma clear_bit_page:
  assumes "i < 32768"
  shows "page_changed b s (s\<lparr>mem := clear_bit_at (mem s) (data (the_buf s b)) i\<rparr>) \<and>
    buf_page (s\<lparr>mem := clear_bit_at (mem s) (data (the_buf s b)) i\<rparr>) b = blk_put False i (buf_page s b)"
  using fun_upd_page[OF byte_index[OF assms], of b s] byte_index[OF assms]
  by (simp add: clear_bit_at_def blk_put_def and_not_bit buf_page_def[of s b "i div 8"])

section \<open>One block of a bitmap\<close>

text \<open>The premises of a client: block \<open>n\<close> exists, is not held, and a buffer is left for it.\<close>

definition can_get :: "u32 set \<Rightarrow> u32 \<Rightarrow> 'a disk_state_scheme \<Rightarrow> bool" where
  "can_get H n s \<longleftrightarrow> cache_ok H s \<and> n < 0x20000000 \<and> n \<notin> H \<and> card H < N_BUFFER"

lemma can_getD:
  assumes "can_get H n s"
  shows "cache_ok H s" "n < 0x20000000" "n \<notin> H" "card H < N_BUFFER"
  using assms by (simp_all add: can_get_def)

lemma can_get_step: "can_get H n s \<Longrightarrow> cache_ok H t \<Longrightarrow> can_get H n t"
  by (simp add: can_get_def)

text \<open>The buffers that are held stay held.\<close>

definition keeps :: "'a disk_state_scheme \<Rightarrow> 'a disk_state_scheme \<Rightarrow> bool" where
  "keeps s t \<longleftrightarrow> (\<forall>c m. buf_holds c m s \<longrightarrow> buf_holds c m t)"

lemma keeps_refl [simp]: "keeps s s"
  by (simp add: keeps_def)

lemma keeps_trans: "keeps s t \<Longrightarrow> keeps t u \<Longrightarrow> keeps s u"
  by (simp add: keeps_def)

lemma page_op_keeps:
  fixes s :: "'a disk_state_scheme"
  assumes g: "can_get H n s"
    and upd: "\<And>b t :: 'a disk_state_scheme. buf_page t b = disk_block s n \<Longrightarrow> store_rel s t \<Longrightarrow>
      page_changed b t (t\<lparr>mem := g b t\<rparr>) \<and> buf_page (t\<lparr>mem := g b t\<rparr>) b = f (disk_block s n)"
  shows "\<exists>b t u v. buffer_get n s = Inr (b, t) \<and> buf_page t b = disk_block s n \<and> store_rel s t \<and>
    buffer_write b (t\<lparr>mem := g b t\<rparr>) = Inr u \<and> buffer_put b u = Inr v \<and>
    cache_ok H v \<and> disk_block v = (disk_block s)(n := f (disk_block s n)) \<and> store_rel s v \<and> keeps s v"
  unfolding keeps_def by (rule blocks.modify[OF can_getD[OF g]]) (rule upd)

lemma page_op:
  fixes s :: "'a disk_state_scheme"
  assumes g: "can_get H n s"
    and upd: "\<And>b t :: 'a disk_state_scheme. buf_page t b = disk_block s n \<Longrightarrow> store_rel s t \<Longrightarrow>
      page_changed b t (t\<lparr>mem := g b t\<rparr>) \<and> buf_page (t\<lparr>mem := g b t\<rparr>) b = f (disk_block s n)"
  shows "\<exists>b t u v. buffer_get n s = Inr (b, t) \<and> buf_page t b = disk_block s n \<and> store_rel s t \<and>
    buffer_write b (t\<lparr>mem := g b t\<rparr>) = Inr u \<and> buffer_put b u = Inr v \<and>
    cache_ok H v \<and> disk_block v = (disk_block s)(n := f (disk_block s n)) \<and> store_rel s v"
  using page_op_keeps[of H n s g f, OF g upd] by blast

lemma bitmap_search_and_set_ok:
  assumes g: "can_get H n s" and c: "unat valid_count \<le> 32768"
  shows "\<exists>t. bitmap_search_and_set n valid_count s =
      Inr (case first_clear (disk_block s n) (unat valid_count) of None \<Rightarrow> -1 | Some i \<Rightarrow> of_nat i, t) \<and>
    disk_block t = (case first_clear (disk_block s n) (unat valid_count) of None \<Rightarrow> disk_block s
      | Some i \<Rightarrow> (disk_block s)(n := blk_put True i (disk_block s n))) \<and> cache_ok H t \<and> store_rel s t \<and> keeps s t"
proof (cases "first_clear (disk_block s n) (unat valid_count)")
  case None
  from blocks.look[OF can_getD[OF g]] obtain b t where t: "buffer_get n s = Inr (b, t)" "cache_ok (insert n H) t"
    "buf_holds b n t" "buf_page t b = disk_block s n" "store_rel s t" "disk_block t = disk_block s"
    "\<forall>c m. buf_holds c m s \<longrightarrow> c \<noteq> b \<and> buf_holds c m t" by blast
  from blocks.look_put[OF t(2,3) can_getD(3)[OF g]] obtain u where u: "buffer_put b t = Inr u" "cache_ok H u"
    "disk_block u = disk_block t" "store_rel t u"
    "\<forall>c m. buf_holds c m t \<longrightarrow> c \<noteq> b \<longrightarrow> buf_holds c m u" by blast
  have "keeps s u" using t(7) u(5) by (auto simp: keeps_def)
  moreover
  have "search_bit (unat valid_count) 0 (mem t) (data (the_buf t b)) = None"
    using search_bit_page[OF c, of t b] None t(4) by simp
  then have "bitmap_search_and_set n valid_count s = Inr (-1, u)" using t(1) u(1) by (simp add: bitmap_search_and_set_def)
  ultimately show ?thesis using None t(6) u(2,3) store_rel_trans[OF t(5) u(4)] by simp
next
  case (Some i)
  then have i: "i < 32768" using c first_clear_less by fastforce
  have "\<exists>b t u v. buffer_get n s = Inr (b, t) \<and> buf_page t b = disk_block s n \<and> store_rel s t \<and>
      buffer_write b (t\<lparr>mem := set_bit_at (mem t) (data (the_buf t b)) i\<rparr>) = Inr u \<and> buffer_put b u = Inr v \<and>
      cache_ok H v \<and> disk_block v = (disk_block s)(n := blk_put True i (disk_block s n)) \<and> store_rel s v \<and> keeps s v"
    by (rule page_op_keeps[OF g, where f = "blk_put True i"]) (simp add: set_bit_page[OF i])
  then obtain b t u v where
    t: "buffer_get n s = Inr (b, t)" "buf_page t b = disk_block s n"
    "buffer_write b (t\<lparr>mem := set_bit_at (mem t) (data (the_buf t b)) i\<rparr>) = Inr u" "buffer_put b u = Inr v"
    "cache_ok H v" "disk_block v = (disk_block s)(n := blk_put True i (disk_block s n))" "store_rel s v" "keeps s v" by blast
  have "search_bit (unat valid_count) 0 (mem t) (data (the_buf t b)) = Some i"
    using search_bit_page[OF c, of t b] Some t(2) by simp
  then have "bitmap_search_and_set n valid_count s = Inr (of_nat i, v)" using t(1,3,4) by (simp add: bitmap_search_and_set_def)
  then show ?thesis using Some t(5-8) by simp
qed

lemma bitmap_clear_ok:
  assumes g: "can_get H n s" and i: "index < 32768"
  shows "\<exists>t. bitmap_clear n index s = Inr t \<and> disk_block t = (disk_block s)(n := blk_put False (unat index) (disk_block s n)) \<and>
    cache_ok H t \<and> store_rel s t"
proof -
  have i: "unat index < 32768" using i by (simp add: word_less_nat_alt)
  have "\<exists>b t u v. buffer_get n s = Inr (b, t) \<and> buf_page t b = disk_block s n \<and> store_rel s t \<and>
      buffer_write b (t\<lparr>mem := clear_bit_at (mem t) (data (the_buf t b)) (unat index)\<rparr>) = Inr u \<and> buffer_put b u = Inr v \<and>
      cache_ok H v \<and> disk_block v = (disk_block s)(n := blk_put False (unat index) (disk_block s n)) \<and> store_rel s v"
    by (rule page_op[OF g, where f = "blk_put False (unat index)"]) (simp add: clear_bit_page[OF i])
  then show ?thesis by (auto simp: bitmap_clear_def)
qed

section \<open>A whole bitmap\<close>

text \<open>Bit \<open>j\<close> of the bitmap that starts at block \<open>first\<close>.\<close>

definition map_bit :: "(u32 \<Rightarrow> nat \<Rightarrow> u8) \<Rightarrow> u32 \<Rightarrow> nat \<Rightarrow> bool" where
  "map_bit D first j = blk_bit (D (first + of_nat (j div 32768))) (j mod 32768)"

definition map_put :: "bool \<Rightarrow> u32 \<Rightarrow> nat \<Rightarrow> (u32 \<Rightarrow> nat \<Rightarrow> u8) \<Rightarrow> u32 \<Rightarrow> nat \<Rightarrow> u8" where
  "map_put v first j D =
     (let n = first + of_nat (j div 32768) in D(n := blk_put v (j mod 32768) (D n)))"

text \<open>The first clear bit of the bits \<open>a\<close> to \<open>b\<close>.\<close>

definition clear_from :: "(u32 \<Rightarrow> nat \<Rightarrow> u8) \<Rightarrow> u32 \<Rightarrow> nat \<Rightarrow> nat \<Rightarrow> nat option" where
  "clear_from D first a b = List.find (\<lambda>j. \<not> map_bit D first j) [a..<b]"

lemma find_append: "List.find P (xs @ ys) = (case List.find P xs of None \<Rightarrow> List.find P ys | r \<Rightarrow> r)"
  by (induction xs) auto

lemma clear_from_step:
  assumes "m \<le> 32768" and "32768 * i + m \<le> b"
  shows "clear_from D first (32768 * i) b =
    (case first_clear (D (first + of_nat i)) m of Some k \<Rightarrow> Some (32768 * i + k)
     | None \<Rightarrow> clear_from D first (32768 * i + m) b)"
  using assms
proof (induction m)
  case (Suc m)
  have bit: "map_bit D first (32768 * i + m) = blk_bit (D (first + of_nat i)) m"
    using Suc.prems(1) by (simp add: map_bit_def)
  have c: "clear_from D first (32768 * i + m) b =
      (if \<not> map_bit D first (32768 * i + m) then Some (32768 * i + m) else clear_from D first (32768 * i + Suc m) b)"
    using Suc.prems(2) unfolding clear_from_def by (subst upt_conv_Cons) simp_all
  have f: "first_clear d (Suc m) = (case first_clear d m of Some k \<Rightarrow> Some k | None \<Rightarrow> if \<not> blk_bit d m then Some m else None)" for d
    unfolding first_clear_def upt_Suc_append[OF le0] find_append by (simp split: option.split)
  show ?case using Suc.IH Suc.prems c bit unfolding f by (simp split: option.split)
qed (simp add: first_clear_def)

lemma clear_from_less: "clear_from D first a b = Some j \<Longrightarrow> a \<le> j \<and> j < b \<and> \<not> map_bit D first j"
  using find_Some_iff[of "\<lambda>j. \<not> map_bit D first j" "[a..<b]" j] by (simp add: clear_from_def)

lemma map_put_put: "map_put v first j (map_put w first j D) = map_put v first j D"
  by (simp add: map_put_def blk_put_put)

lemma map_put_same: "map_bit D first j = v \<Longrightarrow> map_put v first j D = D"
  by (simp add: map_put_def map_bit_def Let_def blk_put_same)

lemma map_put_first:
  "k < 32768 \<Longrightarrow> map_put v first (32768 * i + k) D = D(first + of_nat i := blk_put v k (D (first + of_nat i)))"
  by (simp add: map_put_def Let_def)

lemma store_rel_refl: "store_rel s s"
  by (simp add: store_rel_def)

text \<open>The blocks \<open>first\<close>, ..., \<open>first + n - 1\<close> of a bitmap can be got.\<close>

definition map_ok :: "u32 set \<Rightarrow> u32 \<Rightarrow> nat \<Rightarrow> 'a disk_state_scheme \<Rightarrow> bool" where
  "map_ok H first n s \<longleftrightarrow> cache_ok H s \<and> card H < N_BUFFER \<and>
     (\<forall>k < n. first + of_nat k < 0x20000000 \<and> first + of_nat k \<notin> H)"

lemma map_ok_get: "map_ok H first n s \<Longrightarrow> k < n \<Longrightarrow> can_get H (first + of_nat k) s"
  by (simp add: map_ok_def can_get_def)

lemma map_ok_step: "map_ok H first n s \<Longrightarrow> cache_ok H t \<Longrightarrow> map_ok H first n t"
  by (simp add: map_ok_def)

text \<open>What an allocation returns, and what it does to the disk.\<close>

definition alloc_result :: "u32 \<Rightarrow> nat option \<Rightarrow> u32" where
  "alloc_result base r = (case r of None \<Rightarrow> -1 | Some j \<Rightarrow> base + of_nat j)"

definition alloc_disk :: "u32 \<Rightarrow> nat option \<Rightarrow> (u32 \<Rightarrow> nat \<Rightarrow> u8) \<Rightarrow> u32 \<Rightarrow> nat \<Rightarrow> u8" where
  "alloc_disk first r D = (case r of None \<Rightarrow> D | Some j \<Rightarrow> map_put True first j D)"

lemma scan_bound:
  fixes count :: u32
  defines "l \<equiv> if count > 32768 then 32768 else count"
  shows "unat l = min 32768 (unat count)" "unat (count - l) = unat count - unat l" "unat l \<le> 32768"
  by (auto simp: l_def word_less_nat_alt unat_sub word_le_nat_alt)

lemma clear_from_next:
  assumes "clear_from D first (32768 * i + min 32768 c) (32768 * i + min (32768 * Suc n) c) = r"
  shows "clear_from D first (32768 * Suc i) (32768 * Suc i + min (32768 * n) (c - min 32768 c)) = r"
proof (cases "c < 32768")
  case True
  then show ?thesis using assms by (simp add: clear_from_def min_def)
next
  case False
  then have e: "32768 * i + min 32768 c = 32768 * Suc i"
    "32768 * i + min (32768 * Suc n) c = 32768 * Suc i + min (32768 * n) (c - min 32768 c)" by auto
  show ?thesis using assms unfolding e .
qed

lemma bitmap_scan_Suc:
  "bitmap_scan (Suc n) first base i count s =
    bnd (bitmap_search_and_set (first + i) (if count > 32768 then 32768 else count) s) (\<lambda>(idx, s).
    if idx \<noteq> -1 then Inr (base + i * 32768 + idx, s)
    else bitmap_scan n first base (i + 1) (count - (if count > 32768 then 32768 else count)) s)"
proof -
  have "(4096 * 8 :: u32) = 32768" by simp
  then show ?thesis unfolding bitmap_scan.simps Let_def by (simp only:)
qed

lemma bitmap_scan_ok:
  assumes "map_ok H first (i + n) s"
    and "r = clear_from (disk_block s) first (32768 * i) (32768 * i + min (32768 * n) (unat count))"
  shows "\<exists>t. bitmap_scan n first base (of_nat i) count s = Inr (alloc_result base r, t) \<and>
    disk_block t = alloc_disk first r (disk_block s) \<and> cache_ok H t \<and> store_rel s t \<and> keeps s t"
  using assms
proof (induction n arbitrary: i count s)
  case 0
  then show ?case by (simp add: clear_from_def alloc_result_def alloc_disk_def map_ok_def store_rel_refl)
next
  case (Suc n)
  define l where "l = (if count > 32768 then 32768 else count)"
  note l = scan_bound[of count, folded l_def]
  define f where "f = first_clear (disk_block s (first + of_nat i)) (unat l)"
  from map_ok_get[OF Suc.prems(1), of i] have g: "can_get H (first + of_nat i) s" by simp
  from bitmap_search_and_set_ok[OF g l(3), folded f_def] obtain t where
    t: "bitmap_search_and_set (first + of_nat i) l s = Inr (case f of None \<Rightarrow> -1 | Some i \<Rightarrow> of_nat i, t)"
    "disk_block t = (case f of None \<Rightarrow> disk_block s
      | Some k \<Rightarrow> (disk_block s)(first + of_nat i := blk_put True k (disk_block s (first + of_nat i))))"
    "cache_ok H t" "store_rel s t" "keeps s t" by blast
  have step: "r = (case f of Some k \<Rightarrow> Some (32768 * i + k) | None \<Rightarrow>
      clear_from (disk_block s) first (32768 * i + unat l) (32768 * i + min (32768 * Suc n) (unat count)))"
    unfolding Suc.prems(2) f_def by (rule clear_from_step) (use l in auto)
  show ?case
  proof (cases f)
    case None
    from step None have "clear_from (disk_block t) first (32768 * i + min 32768 (unat count))
        (32768 * i + min (32768 * Suc n) (unat count)) = r" using l(1) t(2) by simp
    from clear_from_next[OF this] have
      "r = clear_from (disk_block t) first (32768 * Suc i) (32768 * Suc i + min (32768 * n) (unat (count - l)))"
      using l by simp
    from Suc.IH[OF _ this] obtain u where "bitmap_scan n first base (of_nat (Suc i)) (count - l) t = Inr (alloc_result base r, u)"
      "disk_block u = alloc_disk first r (disk_block t)" "cache_ok H u" "store_rel t u" "keeps t u"
      using map_ok_step[OF Suc.prems(1) t(3)] by auto
    then show ?thesis using None t store_rel_trans[OF t(4)] keeps_trans[OF t(5)]
      by (intro exI[of _ u]) (simp add: bitmap_scan_Suc l_def[symmetric] add.commute del: bitmap_scan.simps)
  next
    case (Some k)
    then have k: "k < 32768" using first_clear_less[of _ "unat l" k] l(3) by (fastforce simp: f_def)
    have "unat (-1 :: u32) = 2 ^ 32 - 1" by (simp add: unsigned_minus_1_eq_mask mask_eq_exp_minus_1)
    then have "of_nat k \<noteq> (-1 :: u32)" using k by (auto simp: word_unat_eq_iff)
    moreover have "base + of_nat i * 32768 + of_nat k = base + of_nat (32768 * i + k)" by simp
    ultimately show ?thesis using Some t step k
      by (intro exI[of _ t])
        (simp add: bitmap_scan_Suc l_def[symmetric] alloc_result_def alloc_disk_def map_put_first del: bitmap_scan.simps of_nat_add of_nat_mult)
  qed
qed

section \<open>Allocation and release\<close>

lemma store_rel_fs:
  fixes s t :: "'a fs_state_scheme"
  assumes "store_rel s t"
  shows "sb t = sb s" "inode_cache t = inode_cache s" "file_table t = file_table s" "device_table t = device_table s"
    "lv t = lv s"
proof -
  have "disk_state.more t = disk_state.more s" using assms by (simp add: store_rel_def)
  then show "sb t = sb s" "inode_cache t = inode_cache s" "file_table t = file_table s" "device_table t = device_table s" "lv t = lv s"
    by (cases s; cases t; simp)+
qed

text \<open>The super block in memory is the layout \<open>b\<close>, and the two bitmaps and the inode table can be got.\<close>

definition data_map_ok :: "u32 set \<Rightarrow> 'a fs_state_scheme \<Rightarrow> bool" where
  "data_map_ok H s \<longleftrightarrow> map_ok H (data_bitmap_firstblock (sb s)) (unat (data_bitmap_blocks (sb s))) s"

definition inode_map_ok :: "u32 set \<Rightarrow> 'a fs_state_scheme \<Rightarrow> bool" where
  "inode_map_ok H s \<longleftrightarrow> map_ok H (inode_bitmap_firstblock (sb s)) (unat (inode_bitmap_blocks (sb s))) s"

definition free_block_of :: "'a fs_state_scheme \<Rightarrow> nat option" where
  "free_block_of s = clear_from (disk_block s) (data_bitmap_firstblock (sb s)) 0
     (min (32768 * unat (data_bitmap_blocks (sb s))) (unat (data_blocks (sb s))))"

definition free_inode_of :: "'a fs_state_scheme \<Rightarrow> nat option" where
  "free_inode_of s = clear_from (disk_block s) (inode_bitmap_firstblock (sb s)) 0
     (min (32768 * unat (inode_bitmap_blocks (sb s))) (unat (total_inodes (sb s))))"

lemma bitmap_alloc_block_ok:
  assumes "data_map_ok H s"
  shows "\<exists>t. bitmap_alloc_block s = Inr (alloc_result (data_firstblock (sb s)) (free_block_of s), t) \<and>
    disk_block t = alloc_disk (data_bitmap_firstblock (sb s)) (free_block_of s) (disk_block s) \<and>
    data_map_ok H t \<and> store_rel s t \<and> keeps s t"
proof -
  have m: "map_ok H (data_bitmap_firstblock (sb s)) (0 + unat (data_bitmap_blocks (sb s))) s"
    using assms by (simp add: data_map_ok_def)
  from bitmap_scan_ok[OF m refl, where count = "data_blocks (sb s)" and base = "data_firstblock (sb s)"] obtain t where
    t: "bitmap_alloc_block s = Inr (alloc_result (data_firstblock (sb s)) (free_block_of s), t)"
    "disk_block t = alloc_disk (data_bitmap_firstblock (sb s)) (free_block_of s) (disk_block s)"
    "cache_ok H t" "store_rel s t" "keeps s t" by (auto simp: bitmap_alloc_block_def free_block_of_def)
  from map_ok_step[OF m t(3)] store_rel_fs[OF t(4)] have "data_map_ok H t" by (simp add: data_map_ok_def)
  with t show ?thesis by blast
qed

lemma bitmap_alloc_inode_ok:
  assumes "inode_map_ok H s"
  shows "\<exists>t. bitmap_alloc_inode s = Inr (alloc_result 0 (free_inode_of s), t) \<and>
    disk_block t = alloc_disk (inode_bitmap_firstblock (sb s)) (free_inode_of s) (disk_block s) \<and>
    inode_map_ok H t \<and> store_rel s t \<and> keeps s t"
proof -
  have m: "map_ok H (inode_bitmap_firstblock (sb s)) (0 + unat (inode_bitmap_blocks (sb s))) s"
    using assms by (simp add: inode_map_ok_def)
  from bitmap_scan_ok[OF m refl, where count = "total_inodes (sb s)" and base = 0] obtain t where
    t: "bitmap_alloc_inode s = Inr (alloc_result 0 (free_inode_of s), t)"
    "disk_block t = alloc_disk (inode_bitmap_firstblock (sb s)) (free_inode_of s) (disk_block s)"
    "cache_ok H t" "store_rel s t" "keeps s t" by (auto simp: bitmap_alloc_inode_def free_inode_of_def)
  from map_ok_step[OF m t(3)] store_rel_fs[OF t(4)] have "inode_map_ok H t" by (simp add: inode_map_ok_def)
  with t show ?thesis by blast
qed

lemma map_clear_ok:
  assumes m: "map_ok H first n s" and j: "unat off < 32768 * n"
  shows "\<exists>t. bitmap_clear (first + off div 32768) (off mod 32768) s = Inr t \<and>
    disk_block t = map_put False first (unat off) (disk_block s) \<and> map_ok H first n t \<and> store_rel s t"
proof -
  have "unat off div 32768 < 2 ^ 32"
    using unsigned_less[of off, where 'a = nat] by (intro order_le_less_trans[OF div_le_dividend]) simp
  then have d: "off div 32768 = of_nat (unat off div 32768)" "unat (off mod 32768) = unat off mod 32768"
    by (simp_all add: word_unat_eq_iff unat_div unat_mod)
  have "unat off div 32768 < n" using j by (simp add: less_mult_imp_div_less mult.commute)
  from map_ok_get[OF m this] have g: "can_get H (first + off div 32768) s" by (simp add: d)
  have "off mod 32768 < 32768" by (simp add: word_mod_less_divisor)
  from bitmap_clear_ok[OF g this] obtain t where t: "bitmap_clear (first + off div 32768) (off mod 32768) s = Inr t"
    "disk_block t = (disk_block s)(first + off div 32768 := blk_put False (unat (off mod 32768)) (disk_block s (first + off div 32768)))"
    "cache_ok H t" "store_rel s t" by blast
  then show ?thesis using map_ok_step[OF m t(3)] by (simp add: map_put_def Let_def d)
qed

lemma bitmap_free_block_ok:
  assumes "data_map_ok H s" and "unat (bnum - data_firstblock (sb s)) < 32768 * unat (data_bitmap_blocks (sb s))"
  shows "\<exists>t. bitmap_free_block bnum s = Inr t \<and>
    disk_block t = map_put False (data_bitmap_firstblock (sb s)) (unat (bnum - data_firstblock (sb s))) (disk_block s) \<and>
    data_map_ok H t \<and> store_rel s t"
proof -
  have e: "(4096 * 8 :: u32) = 32768" by simp
  from map_clear_ok[OF assms(1)[unfolded data_map_ok_def] assms(2)] obtain t where t: "bitmap_free_block bnum s = Inr t"
    "disk_block t = map_put False (data_bitmap_firstblock (sb s)) (unat (bnum - data_firstblock (sb s))) (disk_block s)"
    "map_ok H (data_bitmap_firstblock (sb s)) (unat (data_bitmap_blocks (sb s))) t" "store_rel s t"
    unfolding bitmap_free_block_def Let_def e by blast
  then show ?thesis using store_rel_fs[OF t(4)] by (simp add: data_map_ok_def)
qed

lemma bitmap_free_inode_ok:
  assumes "inode_map_ok H s" and "unat inum < 32768 * unat (inode_bitmap_blocks (sb s))"
  shows "\<exists>t. bitmap_free_inode inum s = Inr t \<and>
    disk_block t = map_put False (inode_bitmap_firstblock (sb s)) (unat inum) (disk_block s) \<and>
    inode_map_ok H t \<and> store_rel s t"
proof -
  have e: "(4096 * 8 :: u32) = 32768" by simp
  from map_clear_ok[OF assms(1)[unfolded inode_map_ok_def] assms(2)] obtain t where t: "bitmap_free_inode inum s = Inr t"
    "disk_block t = map_put False (inode_bitmap_firstblock (sb s)) (unat inum) (disk_block s)"
    "map_ok H (inode_bitmap_firstblock (sb s)) (unat (inode_bitmap_blocks (sb s))) t" "store_rel s t"
    unfolding bitmap_free_inode_def e by blast
  then show ?thesis using store_rel_fs[OF t(4)] by (simp add: inode_map_ok_def)
qed

text \<open>Allocation followed by release leaves the disk as it was.\<close>

lemma alloc_free_block:
  assumes m: "data_map_ok H s" and f: "free_block_of s = Some j"
  shows "\<exists>t u. bitmap_alloc_block s = Inr (data_firstblock (sb s) + of_nat j, t) \<and>
    bitmap_free_block (data_firstblock (sb s) + of_nat j) t = Inr u \<and> disk_block u = disk_block s \<and>
    map_bit (disk_block t) (data_bitmap_firstblock (sb s)) j \<and> store_rel s u"
proof -
  from clear_from_less[OF f[unfolded free_block_of_def]] have j: "j < 32768 * unat (data_bitmap_blocks (sb s))"
    "j < unat (data_blocks (sb s))" "\<not> map_bit (disk_block s) (data_bitmap_firstblock (sb s)) j" by simp_all
  then have "j < 2 ^ 32" using unsigned_less[of "data_blocks (sb s)", where 'a = nat] by simp
  then have b: "unat (data_firstblock (sb s) + of_nat j - data_firstblock (sb s)) = j" by simp
  from bitmap_alloc_block_ok[OF m] f obtain t where t: "bitmap_alloc_block s = Inr (data_firstblock (sb s) + of_nat j, t)"
    "disk_block t = map_put True (data_bitmap_firstblock (sb s)) j (disk_block s)" "data_map_ok H t" "store_rel s t"
    by (auto simp: alloc_result_def alloc_disk_def)
  note sb = store_rel_fs(1)[OF t(4)]
  have "unat (data_firstblock (sb s) + of_nat j - data_firstblock (sb t)) < 32768 * unat (data_bitmap_blocks (sb t))"
    using j b by (simp add: sb)
  from bitmap_free_block_ok[OF t(3) this] obtain u where u: "bitmap_free_block (data_firstblock (sb s) + of_nat j) t = Inr u"
    "disk_block u = map_put False (data_bitmap_firstblock (sb s)) j (disk_block t)" "store_rel t u"
    using b by (auto simp: sb)
  have "map_bit (disk_block t) (data_bitmap_firstblock (sb s)) j"
    by (simp add: t(2) map_bit_def map_put_def Let_def blk_bit_put)
  then show ?thesis using t(1,4) u j(3) store_rel_trans by (auto simp: t(2) map_put_put map_put_same)
qed

section \<open>Clearing a block\<close>

lemma zero_block_ok:
  assumes g: "can_get H n s"
  shows "\<exists>t. zero_block n s = Inr t \<and> disk_block t = (disk_block s)(n := \<lambda>_. 0) \<and> cache_ok H t \<and> store_rel s t \<and> keeps s t"
proof -
  have w: "page_changed b t (t\<lparr>mem := memset (mem t) (data (the_buf t b)) 0 4096\<rparr>) \<and>
      buf_page (t\<lparr>mem := memset (mem t) (data (the_buf t b)) 0 4096\<rparr>) b = (\<lambda>_. 0)"
    for b and t :: "'a disk_state_scheme"
    by (rule page_write[where f = "\<lambda>_ _. 0"]) (simp_all add: memset_apply)
  have "\<exists>b t u v. buffer_get n s = Inr (b, t) \<and> buf_page t b = disk_block s n \<and> store_rel s t \<and>
      buffer_write b (t\<lparr>mem := memset (mem t) (data (the_buf t b)) 0 4096\<rparr>) = Inr u \<and> buffer_put b u = Inr v \<and>
      cache_ok H v \<and> disk_block v = (disk_block s)(n := \<lambda>_. 0) \<and> store_rel s v \<and> keeps s v"
    by (rule page_op_keeps[OF g, where f = "\<lambda>_ _. 0"]) (rule w)
  then show ?thesis by (auto simp: zero_block_def)
qed

section \<open>The inode table\<close>

text \<open>Inode \<open>inum\<close> of the table that starts at block \<open>first\<close>, and the table after it is written.\<close>

definition disk_inode :: "(u32 \<Rightarrow> nat \<Rightarrow> u8) \<Rightarrow> u32 \<Rightarrow> u32 \<Rightarrow> inode_disk" where
  "disk_inode D first inum = load_inode (\<lambda>x. D (first + inum div 64) (unat x)) (64 * ucast (inum mod 64))"

definition inode_put_disk :: "u32 \<Rightarrow> u32 \<Rightarrow> inode_disk \<Rightarrow> (u32 \<Rightarrow> nat \<Rightarrow> u8) \<Rightarrow> u32 \<Rightarrow> nat \<Rightarrow> u8" where
  "inode_put_disk first inum d D =
     (let n = first + inum div 64 in D(n := put_bytes (64 * unat (inum mod 64)) 64 (inode_byte d) (D n)))"

lemma slot_range: "unat (inum mod 64 :: u32) < 64" "i < 64 \<Longrightarrow> 64 * unat (inum mod 64 :: u32) + i < 4096"
proof -
  show "unat (inum mod 64 :: u32) < 64" by (simp add: unat_mod)
  then show "i < 64 \<Longrightarrow> 64 * unat (inum mod 64 :: u32) + i < 4096" by simp
qed

lemma slot_addr: "64 * ucast (inum mod 64 :: u32) = (of_nat (64 * unat (inum mod 64)) :: u64)"
  by (simp add: word_unat_eq_iff unat_word_ariths)

lemma disk_inode_bytes:
  assumes "\<And>i. i < 64 \<Longrightarrow> m (a + of_nat i) = D (first + inum div 64) (64 * unat (inum mod 64) + i)"
  shows "load_inode m a = disk_inode D first inum"
  unfolding disk_inode_def
proof (rule load_inode_cong)
  fix i :: nat assume i: "i < 64"
  have "64 * ucast (inum mod 64) + of_nat i = (of_nat (64 * unat (inum mod 64) + i) :: u64)" by simp
  moreover have "unat (of_nat (64 * unat (inum mod 64) + i) :: u64) = 64 * unat (inum mod 64) + i"
    by (rule unat_of_nat_small64) (rule order_less_trans[OF slot_range(2)[OF i]], simp)
  ultimately have "unat (64 * ucast (inum mod 64) + of_nat i :: u64) = 64 * unat (inum mod 64) + i" by simp
  then show "m (a + of_nat i) = D (first + inum div 64) (unat (64 * ucast (inum mod 64) + of_nat i :: u64))"
    using assms[OF i] by simp
qed

lemma disk_inode_put_same: "disk_inode (inode_put_disk first inum d D) first inum = inode_view d"
proof -
  have "load_inode (\<lambda>x. inode_byte d (unat x)) 0 = disk_inode (inode_put_disk first inum d D) first inum"
    by (rule disk_inode_bytes) (simp add: inode_put_disk_def Let_def put_bytes_def)
  moreover have "load_inode (\<lambda>x. inode_byte d (unat x)) 0 = inode_view d" by (rule load_inode_bytes) simp
  ultimately show ?thesis by simp
qed

lemma disk_inode_put_other:
  assumes "jnum \<noteq> inum"
  shows "disk_inode (inode_put_disk first inum d D) first jnum = disk_inode D first jnum"
proof -
  have "jnum mod 64 \<noteq> inum mod 64" if "jnum div 64 = inum div 64"
    using assms that by (metis word_mod_div_equality)
  then have n: "unat (jnum mod 64) \<noteq> unat (inum mod 64)" if "jnum div 64 = inum div 64"
    using that by (simp add: word_unat_eq_iff)
  have "inode_put_disk first inum d D (first + jnum div 64) (64 * unat (jnum mod 64) + i) =
      D (first + jnum div 64) (64 * unat (jnum mod 64) + i)" if "i < 64" for i
    using that n by (auto simp: inode_put_disk_def Let_def put_bytes_def)
  then have "load_inode (\<lambda>x. D (first + jnum div 64) (64 * unat (jnum mod 64) + unat x)) 0 =
      disk_inode (inode_put_disk first inum d D) first jnum"
    by (intro disk_inode_bytes) simp
  moreover have "load_inode (\<lambda>x. D (first + jnum div 64) (64 * unat (jnum mod 64) + unat x)) 0 = disk_inode D first jnum"
    by (rule disk_inode_bytes) simp
  ultimately show ?thesis by simp
qed

definition inode_block :: "nat \<Rightarrow> 'a fs_state_scheme \<Rightarrow> u32" where
  "inode_block ip s = inode_firstblock (sb s) + inode_num (the_inode s ip) div 64"

lemma store_inode_page:
  assumes k: "64 * k + 64 \<le> 4096"
  shows "page_changed b s (s\<lparr>mem := store_inode (mem s) (data (the_buf s b) + of_nat (64 * k)) d\<rparr>) \<and>
    buf_page (s\<lparr>mem := store_inode (mem s) (data (the_buf s b) + of_nat (64 * k)) d\<rparr>) b =
      put_bytes (64 * k) 64 (inode_byte d) (buf_page s b)"
proof (rule page_write[where f = "put_bytes (64 * k) 64 (inode_byte d)"])
  let ?a = "data (the_buf s b)"
  have r: "unat (x - (?a + of_nat (64 * k))) < 64 \<longleftrightarrow> 64 * k \<le> unat (x - ?a) \<and> unat (x - ?a) < 64 * k + 64"
    "64 * k \<le> unat (x - ?a) \<Longrightarrow> unat (x - (?a + of_nat (64 * k))) = unat (x - ?a) - 64 * k" for x
    using in_range_shift[of "64 * k" 64 "x - ?a"] k by (simp_all add: diff_diff_eq)
  show "store_inode (mem s) (?a + of_nat (64 * k)) d x = mem s x" if "\<not> unat (x - ?a) < 4096" for x
    using that r(1)[of x] k by (simp add: store_inode_apply del: of_nat_mult)
  show "store_inode (mem s) (?a + of_nat (64 * k)) d (?a + of_nat i) =
      put_bytes (64 * k) 64 (inode_byte d) (buf_page s b) i" if "i < 4096" for i
    using that r[of "?a + of_nat i"] k by (auto simp: store_inode_apply put_bytes_def buf_page_def simp del: of_nat_mult)
  show "put_bytes (64 * k) 64 (inode_byte d) (buf_page s b) i = 0" if "\<not> i < 4096" for i
    using that k by (simp add: put_bytes_def buf_page_def)
qed

lemma inode_rw_write_ok:
  fixes s :: "'a fs_state_scheme"
  assumes g: "can_get H (inode_block ip s) s"
  shows "\<exists>t. inode_rw ip True s = Inr t \<and> cache_ok H t \<and> store_rel s t \<and> keeps s t \<and>
    disk_block t = inode_put_disk (inode_firstblock (sb s)) (inode_num (the_inode s ip)) (info s ip) (disk_block s)"
proof -
  let ?n = "inode_num (the_inode s ip)"
  have k: "64 * unat (?n mod 64) + 64 \<le> 4096" using slot_range(1)[of ?n] by simp
  have "\<exists>b t u v. buffer_get (inode_block ip s) s = Inr (b, t) \<and> buf_page t b = disk_block s (inode_block ip s) \<and> store_rel s t \<and>
      buffer_write b (t\<lparr>mem := store_inode (mem t) (data (the_buf t b) + 64 * ucast (?n mod 64)) (info s ip)\<rparr>) = Inr u \<and>
      buffer_put b u = Inr v \<and> cache_ok H v \<and> disk_block v = (disk_block s)(inode_block ip s :=
        put_bytes (64 * unat (?n mod 64)) 64 (inode_byte (info s ip)) (disk_block s (inode_block ip s))) \<and> store_rel s v \<and> keeps s v"
    by (rule page_op_keeps[OF g, where f = "put_bytes (64 * unat (?n mod 64)) 64 (inode_byte (info s ip))"])
      (simp add: store_inode_page[OF k] slot_addr del: of_nat_mult)
  then obtain b t u v where t: "buffer_get (inode_block ip s) s = Inr (b, t)" "store_rel s t"
    "buffer_write b (t\<lparr>mem := store_inode (mem t) (data (the_buf t b) + 64 * ucast (?n mod 64)) (info s ip)\<rparr>) = Inr u"
    "buffer_put b u = Inr v" "cache_ok H v" "store_rel s v" "keeps s v"
    "disk_block v = (disk_block s)(inode_block ip s :=
        put_bytes (64 * unat (?n mod 64)) 64 (inode_byte (info s ip)) (disk_block s (inode_block ip s)))" by blast
  note same = store_rel_fs[OF t(2)]
  have "inode_rw ip True s = Inr v"
    using t(1,3,4) by (simp add: inode_rw_def inode_block_def Let_def same)
  then show ?thesis using t(5-8) by (simp add: inode_put_disk_def inode_block_def Let_def)
qed

text \<open>A change of the inode cache does not touch the store.\<close>

lemma kpt_ok_inode [simp]:
  fixes s :: "'a fs_state_scheme"
  shows "kpt_ok (s\<lparr>inode_cache := c\<rparr>) = kpt_ok s" "ktabs (s\<lparr>inode_cache := c\<rparr>) = ktabs s"
  by (rule kpt_same; simp add: pool_def)+

lemma bc_ok_inode [simp]:
  fixes s :: "'a fs_state_scheme"
  shows "bc_ok (s\<lparr>inode_cache := c\<rparr>) R F D = bc_ok s R F D"
  by (simp add: bc_ok_def pmem_ok_def pool_ok_def pool_def pages_ok_def slk_ok_def free_lock_def clean_def vq_ok_def
      dev_ok_def cpu_ok_def cpu_defs)

lemma kctx_inode [simp]: "kctx ((s :: 'a fs_state_scheme)\<lparr>inode_cache := c\<rparr>) p = kctx s p"
  by (simp add: kctx_def procs_free_def free_lock_def myproc_def cpu_defs cpu_ok_def)

lemma cache_ok_icache [simp]: "cache_ok H ((s :: 'a fs_state_scheme)\<lparr>inode_cache := c\<rparr>) = cache_ok H s"
  by (simp add: cache_ok_def cache_mid_def pageless_def)

lemma foreign_inode [simp]: "foreign ((s :: 'a fs_state_scheme)\<lparr>inode_cache := c\<rparr>) x = foreign s x"
  by (simp add: foreign_def owned_def)

lemma calm_inode: "calm s t \<Longrightarrow> calm ((s :: 'a fs_state_scheme)\<lparr>inode_cache := c\<rparr>) (t\<lparr>inode_cache := d\<rparr>)"
  by (auto simp: calm_def hart_same_def cpu_defs myproc_def)

lemma more_inode:
  fixes s t :: "'a fs_state_scheme"
  shows "disk_state.more t = disk_state.more s \<Longrightarrow>
    disk_state.more (t\<lparr>inode_cache := c\<rparr>) = disk_state.more (s\<lparr>inode_cache := c\<rparr>)"
  by (cases s; cases t) simp

lemma store_rel_inode:
  fixes s t :: "'a fs_state_scheme"
  assumes "store_rel s t"
  shows "store_rel (s\<lparr>inode_cache := c\<rparr>) (t\<lparr>inode_cache := c\<rparr>)"
  using assms calm_inode[of s t c c] more_inode[of t s c] by (simp add: store_rel_def mem_rel_def)

text \<open>\<open>fs_rel ip s t\<close>: a step of the store that may also change the cache entry \<open>ip\<close>.\<close>

definition fs_rel :: "nat \<Rightarrow> 'a fs_state_scheme \<Rightarrow> 'a fs_state_scheme \<Rightarrow> bool" where
  "fs_rel ip s t \<longleftrightarrow> store_rel (s\<lparr>inode_cache := inode_cache t\<rparr>) t \<and> (\<forall>j. j \<noteq> ip \<longrightarrow> inode_cache t j = inode_cache s j)"

lemma store_fs_rel: 
  assumes "store_rel s t" shows "fs_rel ip s t"
proof -
  have "inode_cache t = inode_cache s" using assms by (rule store_rel_fs)
  then show ?thesis using assms by (simp add: fs_rel_def)
qed

lemma fs_rel_refl [simp]: "fs_rel ip s s"
  by (rule store_fs_rel) (rule store_rel_refl)

lemma fs_rel_upd [simp]: "fs_rel ip s (upd_inode ip f s)"
  by (simp add: fs_rel_def upd_inode_def store_rel_refl)

lemma fs_rel_trans:
  assumes "fs_rel ip s t" and "fs_rel ip t u"
  shows "fs_rel ip s u"
proof -
  have "store_rel (s\<lparr>inode_cache := inode_cache u\<rparr>) (t\<lparr>inode_cache := inode_cache u\<rparr>)"
    using store_rel_inode[of "s\<lparr>inode_cache := inode_cache t\<rparr>" t "inode_cache u"] assms(1) by (simp add: fs_rel_def)
  then show ?thesis using assms store_rel_trans by (auto simp: fs_rel_def)
qed

lemma fs_relD:
  fixes s t :: "'a fs_state_scheme"
  assumes "fs_rel ip s t"
  shows "sb t = sb s" "file_table t = file_table s" "device_table t = device_table s" "rodata t = rodata s" "calm s t"
    "j \<noteq> ip \<Longrightarrow> inode_cache t j = inode_cache s j" "foreign s x \<Longrightarrow> mem t x = mem s x" "foreign s x \<Longrightarrow> foreign t x"
    "(\<And>k. l \<noteq> LkBufSlk k) \<Longrightarrow> slocks t l = slocks s l" "lv t = lv s"
proof -
  have r: "store_rel (s\<lparr>inode_cache := inode_cache t\<rparr>) t" using assms by (simp add: fs_rel_def)
  show "sb t = sb s" "file_table t = file_table s" "device_table t = device_table s" using store_rel_fs[OF r] by simp_all
  have "disk_state.more t = disk_state.more (s\<lparr>inode_cache := inode_cache t\<rparr>)" using r by (simp add: store_rel_def)
  then show "rodata t = rodata s" "lv t = lv s" by (cases s; cases t; simp)+
  have "calm (s\<lparr>inode_cache := inode_cache t\<rparr>) t" using r by (simp add: store_rel_def)
  then show "calm s t" using calm_inode[of "s\<lparr>inode_cache := inode_cache t\<rparr>" t "inode_cache s" "inode_cache t"] by simp
  show "j \<noteq> ip \<Longrightarrow> inode_cache t j = inode_cache s j" using assms by (simp add: fs_rel_def)
  have m: "mem_rel (s\<lparr>inode_cache := inode_cache t\<rparr>) t" using r by (simp add: store_rel_def)
  show "foreign s x \<Longrightarrow> mem t x = mem s x" "foreign s x \<Longrightarrow> foreign t x"
    using mem_relD[OF m, of x] by simp_all
  show "(\<And>k. l \<noteq> LkBufSlk k) \<Longrightarrow> slocks t l = slocks s l" using r by (simp add: store_rel_def)
qed

lemma cache_ok_inode: "cache_ok H s \<Longrightarrow> cache_ok H (upd_inode ip f (s :: 'a fs_state_scheme))"
  by (simp add: upd_inode_def)

lemma upd_inode_frame:
  "buf_holds b n (upd_inode ip f s) = buf_holds b n s" "disk_block (upd_inode ip f s) = disk_block s"
  by (simp_all add: buf_holds_def upd_inode_def disk_block_def fun_eq_iff)

lemma inode_rw_read_ok:
  fixes s :: "'a fs_state_scheme"
  assumes g: "can_get H (inode_block ip s) s"
  shows "\<exists>t. inode_rw ip False s = Inr t \<and> cache_ok H t \<and> disk_block t = disk_block s \<and> sb t = sb s \<and> fs_rel ip s t \<and>
    inode_cache t = (inode_cache s)(ip := (the_inode s ip)
      \<lparr>disk_info := disk_inode (disk_block s) (inode_firstblock (sb s)) (inode_num (the_inode s ip)), valid_info := True\<rparr>)"
proof -
  let ?n = "inode_num (the_inode s ip)"
  let ?d = "disk_inode (disk_block s) (inode_firstblock (sb s)) ?n"
  let ?f = "\<lambda>i. i\<lparr>disk_info := ?d, valid_info := True\<rparr>"
  from blocks.look[OF can_getD[OF g]] obtain b and t :: "'a fs_state_scheme" where
    t: "buffer_get (inode_block ip s) s = Inr (b, t)" "cache_ok (insert (inode_block ip s) H) t"
      "buf_holds b (inode_block ip s) t" "buf_page t b = disk_block s (inode_block ip s)" "store_rel s t"
      "disk_block t = disk_block s" by blast
  note same = store_rel_fs[OF t(5)]
  have "load_inode (mem t) (data (the_buf t b) + 64 * ucast (?n mod 64)) = ?d"
  proof (rule disk_inode_bytes)
    fix i :: nat assume i: "i < 64"
    have "buf_page t b (64 * unat (?n mod 64) + i) = mem t (data (the_buf t b) + 64 * ucast (?n mod 64) + of_nat i)"
      using slot_range(2)[OF i, of ?n] by (simp add: buf_page_def add.assoc)
    then show "mem t (data (the_buf t b) + 64 * ucast (?n mod 64) + of_nat i) =
        disk_block s (inode_firstblock (sb s) + ?n div 64) (64 * unat (?n mod 64) + i)"
      by (simp add: t(4) inode_block_def)
  qed
  note load = this
  from blocks.look_put[OF cache_ok_inode[OF t(2)] _ can_getD(3)[OF g], of b ip ?f] t(3) obtain u where
    u: "buffer_put b (upd_inode ip ?f t) = Inr u" "cache_ok H u" "disk_block u = disk_block (upd_inode ip ?f t)"
      "store_rel (upd_inode ip ?f t) u" by (auto simp: upd_inode_frame)
  have "inode_rw ip False s = Inr u"
    using t(1) u(1) by (simp add: inode_rw_def inode_block_def Let_def same load)
  moreover have "disk_block u = disk_block s" by (simp add: u(3) upd_inode_frame t(6))
  moreover have "fs_rel ip s u"
    using fs_rel_trans[OF fs_rel_trans[OF store_fs_rel[OF t(5)] fs_rel_upd] store_fs_rel[OF u(4)]] .
  ultimately show ?thesis using u(2) store_rel_fs[OF u(4)] by (simp add: upd_inode_def same)
qed

text \<open>An inode written by one entry of the cache and read by another.\<close>

lemma inode_write_read:
  fixes s :: "'a fs_state_scheme"
  assumes g: "can_get H (inode_block ip s) s" and same: "inode_num (the_inode s jp) = inode_num (the_inode s ip)"
  shows "\<exists>t u. inode_rw ip True s = Inr t \<and> inode_rw jp False t = Inr u \<and> info u jp = inode_view (info s ip) \<and>
    valid_info (the_inode u jp)"
proof -
  from inode_rw_write_ok[OF g] obtain t where t: "inode_rw ip True s = Inr t" "cache_ok H t" "store_rel s t"
    "disk_block t = inode_put_disk (inode_firstblock (sb s)) (inode_num (the_inode s ip)) (info s ip) (disk_block s)" by blast
  note fs = store_rel_fs[OF t(3)]
  have "inode_block jp t = inode_block ip s" by (simp add: inode_block_def fs same)
  then have "can_get H (inode_block jp t) t" using can_get_step[OF g t(2)] by simp
  from inode_rw_read_ok[OF this] obtain u where "inode_rw jp False t = Inr u"
    "inode_cache u = (inode_cache t)(jp := (the_inode t jp)
      \<lparr>disk_info := disk_inode (disk_block t) (inode_firstblock (sb t)) (inode_num (the_inode t jp)), valid_info := True\<rparr>)"
    by blast
  then show ?thesis using t(1) by (simp add: t(4) fs same disk_inode_put_same)
qed

section \<open>Blocks of a file\<close>

lemma set_index_upd: "set_index ip k v = upd_inode ip (\<lambda>i. i\<lparr>disk_info := (disk_info i)\<lparr>i_index := (i_index (disk_info i))(k := v)\<rparr>\<rparr>)"
  by (simp add: set_index_def upd_info_def fun_eq_iff)

text \<open>An empty slot gets the first free block, cleared; nothing else on the disk changes.\<close>

lemma ensure_slot_ok:
  fixes s :: "'a fs_state_scheme"
  assumes m: "data_map_ok H s" and e: "i_index (info s ip) k = 0" and f: "free_block_of s = Some j"
    and bn: "bn = data_firstblock (sb s) + of_nat j" "bn < 0x20000000" "bn \<notin> H"
  shows "\<exists>t. ensure_slot ip k s = Inr (Some bn, t) \<and> i_index (info t ip) k = bn \<and> sb t = sb s \<and>
    disk_block t = (map_put True (data_bitmap_firstblock (sb s)) j (disk_block s))(bn := \<lambda>_. 0) \<and>
    inode_cache t = inode_cache (set_index ip k bn s) \<and> data_map_ok H t \<and> fs_rel ip s t"
proof -
  from bitmap_alloc_block_ok[OF m] f obtain t where t: "bitmap_alloc_block s = Inr (bn, t)"
    "disk_block t = map_put True (data_bitmap_firstblock (sb s)) j (disk_block s)" "data_map_ok H t" "store_rel s t"
    by (auto simp: alloc_result_def alloc_disk_def bn(1))
  note fs = store_rel_fs[OF t(4)]
  have c: "cache_ok H t" "card H < N_BUFFER" using t(3) by (simp_all add: data_map_ok_def map_ok_def)
  then have g: "can_get H bn (set_index ip k bn t)"
    using bn(2,3) cache_ok_inode[of H t] by (simp add: can_get_def set_index_upd)
  from zero_block_ok[OF g] obtain u where u: "zero_block bn (set_index ip k bn t) = Inr u"
    "disk_block u = (disk_block (set_index ip k bn t))(bn := \<lambda>_. 0)" "cache_ok H u" "store_rel (set_index ip k bn t) u"
    by blast
  note fu = store_rel_fs[OF u(4)]
  have "bn \<noteq> -1" using bn(2) by auto
  then have "ensure_slot ip k s = Inr (Some (i_index (info u ip) k), u)"
    using e t(1) u(1) by (simp add: ensure_slot_def)
  moreover have "i_index (info u ip) k = bn" by (simp add: fu set_index_upd upd_inode_def)
  moreover have "disk_block u = (map_put True (data_bitmap_firstblock (sb s)) j (disk_block s))(bn := \<lambda>_. 0)"
    by (simp add: u(2) set_index_upd upd_inode_frame t(2))
  moreover have "sb u = sb s" "inode_cache u = inode_cache (set_index ip k bn s)"
    using fs fu by (simp_all add: set_index_upd upd_inode_def)
  moreover have "data_map_ok H u"
    using t(3) u(3) by (simp add: data_map_ok_def map_ok_def fu fs set_index_upd upd_inode_def)
  moreover have "fs_rel ip s u"
    by (rule fs_rel_trans[OF fs_rel_trans[OF store_fs_rel[OF t(4)] fs_rel_upd] store_fs_rel[OF u(4)[unfolded set_index_upd]]])
  ultimately show ?thesis by auto
qed

lemma ensure_slot_full:
  fixes s :: "'a fs_state_scheme"
  assumes m: "data_map_ok H s" and e: "i_index (info s ip) k = 0" and f: "free_block_of s = None"
  shows "\<exists>t. ensure_slot ip k s = Inr (None, t) \<and> disk_block t = disk_block s \<and> store_rel s t \<and> data_map_ok H t"
proof -
  from bitmap_alloc_block_ok[OF m] f obtain t where t: "bitmap_alloc_block s = Inr (-1, t)"
    "disk_block t = disk_block s" "data_map_ok H t" "store_rel s t"
    by (auto simp: alloc_result_def alloc_disk_def)
  then show ?thesis using e by (auto simp: ensure_slot_def)
qed

lemma ensure_slot_there: "i_index (info s ip) k \<noteq> 0 \<Longrightarrow> ensure_slot ip k s = Inr (Some (i_index (info s ip) k), s)"
  by (simp add: ensure_slot_def)

lemma locate_direct: "n < 10 \<Longrightarrow> locate_or_add_block ip n s =
    bnd (ensure_slot ip (unat n) s) (\<lambda>(bn, s). Inr (block_code bn, s))"
  by (simp add: locate_or_add_block_def)

text \<open>Beyond the double indirect block there is no block.\<close>

lemma locate_too_far: "10 + 2 * 1024 + 1024 * 1024 \<le> n \<Longrightarrow> locate_or_add_block ip n s = Inr (-1, s)"
proof -
  assume "10 + 2 * 1024 + 1024 * 1024 \<le> n"
  then have n: "1050634 \<le> unat n" by (simp add: word_le_nat_alt)
  then have "\<not> n < 10" "\<not> n - 10 < 2 * 1024" "\<not> n - 10 - 2 * 1024 < 1024 * 1024"
    by (simp_all add: word_less_nat_alt unat_sub_if')
  then show ?thesis by (simp add: locate_or_add_block_def Let_def)
qed

text \<open>The first empty slot ends the release of the blocks, whatever the later ones hold.\<close>

lemma free_data_blocks_hole:
  assumes "i_index (info s ip) 0 = 0"
  shows "free_data_blocks ip s = Inr (set_index ip 0 0 s)"
proof -
  have "[0..<10::nat] = 0 # [1..<10]" by (simp add: upt_conv_Cons)
  then have "\<exists>ks. map (\<lambda>k. (k, 0)) [0..<10] @ ys = (0, 0) # ks" for ys :: "(nat \<times> nat) list" by simp
  then obtain ks where "free_data_blocks ip s = free_slots ip ((0, 0) # ks) s" unfolding free_data_blocks_def by metis
  then show ?thesis using assms by (simp add: Let_def)
qed

section \<open>A file system after the boot\<close>

text \<open>With super block \<open>b\<close> in memory and \<open>c\<close> in the inode cache; then with the layout of \<open>mkfs\<close>.\<close>

lemma boot_super:
  "\<exists>s :: fs_state. cache_ok {} s \<and> sb s = b \<and> inode_cache s = c \<and> (\<forall>x < 0x80100000. foreign s x) \<and> lv s = v \<and> rested s"
proof -
  let ?r = "undefined\<lparr>sb := b, inode_cache := c, lv := v\<rparr> :: fs_state"
  obtain r :: fs_state where r: "sb r = b" "inode_cache r = c" "lv r = v"
  proof
    show "sb ?r = b" "inode_cache ?r = c" "lv ?r = v" by simp_all
  qed
  obtain s :: fs_state where s: "cache_ok {} s" "disk_state.more s = disk_state.more r" "\<forall>x < 0x80100000. foreign s x" "rested s"
    using boot_store[of "disk_state.more r"] by blast
  have "sb s = b" "inode_cache s = c" "lv s = v" using s(2) r by (cases s; cases r; simp)+
  then show ?thesis using s(1,3,4) by blast
qed

lemma boot_fs:
  "\<exists>s :: fs_state. cache_ok {} s \<and> sb s = mk_layout \<and> data_map_ok {} s \<and> inode_map_ok {} s \<and> inode_cache s = c \<and>
     (\<forall>x < 0x80100000. foreign s x) \<and> lv s = v \<and> rested s"
proof -
  obtain s :: fs_state where s: "cache_ok {} s" "sb s = mk_layout" "inode_cache s = c" "\<forall>x < 0x80100000. foreign s x" "lv s = v" "rested s"
    using boot_super[of mk_layout c v] by blast
  have "(1027 :: u32) + of_nat k < 0x20000000" "(1 :: u32) + of_nat k < 0x20000000" if "k < 2" for k
    using that by (auto simp: less_2_cases_iff)
  then have "data_map_ok {} s" "inode_map_ok {} s"
    using s(1) by (simp_all add: data_map_ok_def inode_map_ok_def map_ok_def s(2) mk_layout_eq)
  then show ?thesis using s by blast
qed

text \<open>And with the first data block free.\<close>

lemma boot_free_block:
  "\<exists>s :: fs_state. cache_ok {} s \<and> sb s = mk_layout \<and> data_map_ok {} s \<and> free_block_of s = Some 0 \<and> inode_cache s = c \<and>
     (\<forall>x < 0x80100000. foreign s x) \<and> lv s = v \<and> rested s"
proof -
  obtain s :: fs_state where s: "sb s = mk_layout" "data_map_ok {} s" "inode_cache s = c" "\<forall>x < 0x80100000. foreign s x" "lv s = v" "rested s"
    using boot_fs[of c v] by blast
  have "unat (1028 - data_firstblock (sb s)) < 32768 * unat (data_bitmap_blocks (sb s))" by (simp add: s(1) mk_layout_eq)
  from bitmap_free_block_ok[OF s(2) this] obtain t where t: "data_map_ok {} t" "store_rel s t"
    "disk_block t = map_put False 1027 0 (disk_block s)" by (auto simp: s(1) mk_layout_eq)
  note fs = store_rel_fs[OF t(2)]
  have "\<not> map_bit (disk_block t) 1027 0" by (simp add: t(3) map_bit_def map_put_def Let_def blk_bit_put)
  moreover have "[0..<32768::nat] = 0 # [1..<32768]" by (subst upt_conv_Cons) simp_all
  ultimately have "free_block_of t = Some 0"
    by (simp add: free_block_of_def fs s(1) mk_layout_eq clear_from_def del: upt_Suc)
  moreover have "cache_ok {} t" using t(1) by (simp add: data_map_ok_def map_ok_def)
  moreover have "foreign t x" if "x < 0x80100000" for x using t(2) s(4) that by (auto simp: store_rel_def mem_rel_def)
  ultimately show ?thesis using t(1) fs s rested_rel[OF t(2) s(6)] by (intro exI[of _ t]) auto
qed

end
