(* ===== verification/Tables.thy ===== *)
theory Tables
  imports Trap DiskMaps
begin

text \<open>
  The reference-counted tables of the file system (open files, cached inodes), the bounds of file
  transfers, and the ways in which system calls and traps refuse a request.
\<close>

section \<open>Frames\<close>

lemma entered_fs [simp]:
  "file_table (entered l s) = file_table s" "inode_cache (entered l s) = inode_cache s" "sb (entered l s) = sb s"
  "file_table (stale_origin s) = file_table s" "inode_cache (stale_origin s) = inode_cache s"
  "upd_file i f (entered l s) = entered l (upd_file i f s)" "upd_inode i g (entered l s) = entered l (upd_inode i g s)"
  by (simp_all add: entered_def push_off_def stale_origin_def upd_file_def upd_inode_def cpu_defs)

lemma upd_fs_frame [simp]:
  "cpu_ok (upd_file i f s) = cpu_ok s" "free_lock l (upd_file i f s) = free_lock l s"
  "cpu_ok (upd_inode i g s) = cpu_ok s" "free_lock l (upd_inode i g s) = free_lock l s"
  "file_table (upd_file i f s) = (file_table s)(i := f (file_table s i))"
  "inode_cache (upd_inode i g s) = (inode_cache s)(i := g (inode_cache s i))"
  "inode_cache (upd_file i f s) = inode_cache s" "file_table (upd_inode i g s) = file_table s"
  by (simp_all add: upd_file_def upd_inode_def cpu_ok_def free_lock_def cpu_defs)

section \<open>Open files\<close>

definition new_file :: kfile where
  "new_file = \<lparr>f_ip = None, readable = False, writable = False, offset = 0, f_ref = 1\<rparr>"

definition free_file :: "'a fs_state_scheme \<Rightarrow> nat option" where
  "free_file s = List.find (\<lambda>i. f_ref (file_table s i) = 0) [0..<N_FILE]"

lemma file_alloc_eq:
  assumes "cpu_ok s" and "free_lock LkFileTable s"
  shows "file_alloc s = Inr (case free_file s of None \<Rightarrow> (None, stale_origin s)
    | Some i \<Rightarrow> (Some i, stale_origin (upd_file i (\<lambda>_. new_file) s)))"
  using assms by (auto simp: file_alloc_def free_file_def new_file_def split: option.split)

lemma file_dup_eq:
  assumes "cpu_ok s" and "free_lock LkFileTable s"
  shows "file_dup f s = (if f_ref (file_table s f) < 1 then Inl (Panic ''file_dup'')
    else Inr (f, stale_origin (upd_file f (\<lambda>x. x\<lparr>f_ref := f_ref x + 1\<rparr>) s)))"
  using assms by (auto simp: file_dup_def)

text \<open>A file with other references is only counted down.\<close>

lemma file_close_shared:
  assumes "cpu_ok s" and "free_lock LkFileTable s" and "1 < f_ref (file_table s f)"
  shows "file_close f s = Inr (stale_origin (upd_file f (\<lambda>x. x\<lparr>f_ref := f_ref x - 1\<rparr>) s))"
proof -
  have "1 < unat (f_ref (file_table s f))" using assms(3) by (simp add: word_less_nat_alt)
  then have "0 < f_ref (file_table s f) - 1" "\<not> f_ref (file_table s f) < 1"
    by (simp_all add: word_less_nat_alt unat_sub_if')
  then show ?thesis using assms(1,2) by (simp add: file_close_def Let_def)
qed

lemma upd_file_id: "upd_file f g (upd_file f h s) = s" if "g (h (file_table s f)) = file_table s f"
  using that by (simp add: upd_file_def fun_upd_idem)

text \<open>\<open>file_dup\<close> and then \<open>file_close\<close>: the table is as before.\<close>

lemma dup_close:
  assumes "cpu_ok s" and "free_lock LkFileTable s" and "0 < f_ref (file_table s f)" and "f_ref (file_table s f) \<noteq> -1"
  shows "\<exists>t u. file_dup f s = Inr (f, t) \<and> file_close f t = Inr u \<and> file_table u = file_table s \<and>
    inode_cache u = inode_cache s"
proof -
  let ?n = "f_ref (file_table s f)"
  let ?t = "stale_origin (upd_file f (\<lambda>x. x\<lparr>f_ref := f_ref x + 1\<rparr>) s)"
  have "unat ?n \<noteq> 2 ^ 32 - 1" using assms(4) by (auto simp: word_unat_eq_iff unsigned_minus_1_eq_mask mask_eq_exp_minus_1)
  then have "unat (?n + 1) = unat ?n + 1" using unsigned_less[of ?n, where 'a = nat] by (simp add: unat_word_ariths)
  then have n: "1 < ?n + 1" "\<not> ?n < 1" using assms(3) by (simp_all add: word_less_nat_alt)
  have "file_dup f s = Inr (f, ?t)" using file_dup_eq[OF assms(1,2)] n(2) by simp
  moreover have "file_close f ?t = Inr (stale_origin (upd_file f (\<lambda>x. x\<lparr>f_ref := f_ref x - 1\<rparr>) ?t))"
    by (rule file_close_shared) (use assms(1,2) n(1) in simp_all)
  ultimately show ?thesis by simp
qed

text \<open>Closing a file that is not open stops the kernel.\<close>

lemma file_close_closed:
  assumes "cpu_ok s" and "free_lock LkFileTable s" and "f_ref (file_table s f) = 0"
  shows "file_close f s = Inl (Panic ''file_close'')"
  using assms by (simp add: file_close_def)

section \<open>Cached inodes\<close>

definition cached_inode :: "u32 \<Rightarrow> 'a fs_state_scheme \<Rightarrow> nat option" where
  "cached_inode inum s =
     List.find (\<lambda>i. inode_num (the_inode s i) = inum \<and> valid_info (the_inode s i)) [0..<N_INODE]"

definition free_inode_slot :: "'a fs_state_scheme \<Rightarrow> nat option" where
  "free_inode_slot s = List.find (\<lambda>i. i_ref (the_inode s i) = 0) [0..<N_INODE]"

lemma inode_get_eq:
  assumes "cpu_ok s" and "free_lock LkInodeCache s"
  shows "inode_get inum s =
    (case cached_inode inum s of
       Some i \<Rightarrow> Inr (i, stale_origin (upd_inode i (\<lambda>ip. ip\<lparr>i_ref := i_ref ip + 1\<rparr>) s))
     | None \<Rightarrow> (case free_inode_slot s of
         None \<Rightarrow> Inl (Panic ''inode_get: no inodes'')
       | Some i \<Rightarrow> Inr (i, stale_origin
           (upd_inode i (\<lambda>ip. ip\<lparr>inode_num := inum, i_ref := 1, valid_info := False\<rparr>) s))))"
  using assms by (auto simp: inode_get_def cached_inode_def free_inode_slot_def split: option.split)

lemma find_cong: "(\<And>x. x \<in> set xs \<Longrightarrow> P x = Q x) \<Longrightarrow> List.find P xs = List.find Q xs"
  by (induction xs) auto

text \<open>An inode whose contents are loaded is shared: a second reference to it is the same entry.\<close>

lemma inode_get_shared:
  assumes "cpu_ok s" and "free_lock LkInodeCache s" and c: "cached_inode inum s = Some i"
  shows "\<exists>t u. inode_get inum s = Inr (i, t) \<and> inode_get inum t = Inr (i, u) \<and>
    i_ref (the_inode u i) = i_ref (the_inode s i) + 2"
proof -
  let ?t = "stale_origin (upd_inode i (\<lambda>ip. ip\<lparr>i_ref := i_ref ip + 1\<rparr>) s)"
  have "cached_inode inum ?t = cached_inode inum s"
    unfolding cached_inode_def by (rule find_cong) auto
  then show ?thesis using assms inode_get_eq[of s inum] inode_get_eq[of ?t inum] by simp
qed

text \<open>
  An inode that was got but not locked yet has no contents loaded: a second \<open>inode_get\<close> of its number
  takes a second entry of the cache.
\<close>

lemma inode_get_twice:
  assumes "cpu_ok s" and "free_lock LkInodeCache s" and c: "cached_inode inum s = None"
    and i: "free_inode_slot s = Some i" and j: "j < N_INODE" "j \<noteq> i" "i_ref (the_inode s j) = 0"
  shows "\<exists>t k u. inode_get inum s = Inr (i, t) \<and> inode_get inum t = Inr (k, u) \<and> k \<noteq> i \<and>
    inode_num (the_inode u k) = inum \<and> inode_num (the_inode u i) = inum"
proof -
  let ?t = "stale_origin (upd_inode i (\<lambda>ip. ip\<lparr>inode_num := inum, i_ref := 1, valid_info := False\<rparr>) s)"
  have none: "\<not> (inode_num (the_inode s x) = inum \<and> valid_info (the_inode s x))" if "x < N_INODE" for x
    using c that by (auto simp: cached_inode_def find_None_iff)
  have "cached_inode inum ?t = None" unfolding cached_inode_def by (rule find_None_all) (use none in auto)
  moreover have "free_inode_slot ?t \<noteq> None" using j by (auto simp: free_inode_slot_def find_None_iff)
  then obtain k where k: "free_inode_slot ?t = Some k" by blast
  moreover have "k \<noteq> i" using find_Some_iff[OF k[unfolded free_inode_slot_def]] by auto
  ultimately show ?thesis using assms(1-4) inode_get_eq[of s inum] inode_get_eq[of ?t inum] by auto
qed

section \<open>Transfers\<close>

lemma piece_sum:
  assumes "cur < stop" and "unat tot + (unat stop - unat cur) < 2 ^ 32"
  shows "unat (tot + piece cur stop) = unat tot + unat (piece cur stop)"
    "unat (tot + piece cur stop) + (unat stop - unat (cur + piece cur stop)) = unat tot + (unat stop - unat cur)"
proof -
  note p = piece_bounds[OF assms(1)]
  show "unat (tot + piece cur stop) = unat tot + unat (piece cur stop)"
    using p(3) assms(2) by (simp add: unat_word_ariths)
  then show "unat (tot + piece cur stop) + (unat stop - unat (cur + piece cur stop)) = unat tot + (unat stop - unat cur)"
    using p(2,3) by simp
qed

text \<open>A transfer moves at most the bytes between \<open>cur\<close> and \<open>stop\<close>.\<close>

lemma read_loop_bound:
  assumes "read_loop ip dst cur stop tot s = Inr (n, t)" and "unat tot + (unat stop - unat cur) < 2 ^ 32"
  shows "unat n \<le> unat tot + (unat stop - unat cur)"
  using assms
proof (induction "unat stop - unat cur" arbitrary: cur tot s rule: less_induct)
  case less
  show ?case
  proof (cases "cur < stop")
    case True
    note p = piece_sum[OF True less.prems(2)]
    consider "n = tot" | u where "read_loop ip dst (cur + piece cur stop) stop (tot + piece cur stop) u = Inr (n, t)"
      using less.prems(1) True
      by (subst (asm) read_loop.simps) (auto simp: Let_def bnd_eq_Inr split: if_splits)
    then show ?thesis
    proof cases
      case 2
      from less.hyps[OF piece_decreases[OF True] 2] less.prems(2) p(2) show ?thesis by simp
    qed simp
  next
    case False
    then show ?thesis using less.prems(1) by (simp add: read_loop.simps)
  qed
qed

lemma write_loop_bound:
  assumes "write_loop ip src cur stop tot s = Inr (n, t)" and "unat tot + (unat stop - unat cur) < 2 ^ 32"
  shows "unat n \<le> unat tot + (unat stop - unat cur)"
  using assms
proof (induction "unat stop - unat cur" arbitrary: cur tot s rule: less_induct)
  case less
  show ?case
  proof (cases "cur < stop")
    case True
    note p = piece_sum[OF True less.prems(2)]
    consider "n = tot" | u where "write_loop ip src (cur + piece cur stop) stop (tot + piece cur stop) u = Inr (n, t)"
      using less.prems(1) True
      by (subst (asm) write_loop.simps) (auto simp: Let_def bnd_eq_Inr split: if_splits)
    then show ?thesis
    proof cases
      case 2
      from less.hyps[OF piece_decreases[OF True] 2] less.prems(2) p(2) show ?thesis by simp
    qed simp
  next
    case False
    then show ?thesis using less.prems(1) by (simp add: write_loop.simps)
  qed
qed

text \<open>The range \<open>off\<close> to \<open>off + len\<close>, also when the sum wraps around.\<close>

lemma range_le: "unat (off + len :: u32) - unat off \<le> unat len"
  using unat_add_lem[of off len] unat_plus_if'[of off len] by (auto split: if_splits)

lemma inode_read_data_bound:
  assumes r: "inode_read_data ip off len dst u s = Inr (n, t)"
  shows "unat n \<le> unat len" and "n = 0 \<or> unat off + unat n \<le> unat (i_size (info s ip))"
proof -
  define e where "e = (if off + len > i_size (info s ip) then i_size (info s ip) else off + len)"
  have le: "unat e \<le> unat (off + len)" "unat e \<le> unat (i_size (info s ip))"
    by (auto simp: e_def word_less_nat_alt)
  consider "n = 0" | "read_loop ip dst off e 0 s = Inr (n, t)"
    using r by (auto simp: inode_read_data_def Let_def e_def split: if_splits)
  then have "unat n \<le> unat e - unat off"
  proof cases
    case 2
    have "unat (0 :: u32) + (unat e - unat off) < 2 ^ 32" using unsigned_less[of e, where 'a = nat] by simp
    from read_loop_bound[OF 2 this] show ?thesis by simp
  qed simp
  then show "unat n \<le> unat len" "n = 0 \<or> unat off + unat n \<le> unat (i_size (info s ip))"
    using le range_le[of off len] by (auto simp: unat_eq_0[symmetric])
qed

lemma inode_write_data_bound:
  assumes r: "inode_write_data ip off len src u s = Inr (n, t)"
  shows "unat n \<le> unat len"
proof -
  consider "n = 0" | v where "write_loop ip src off (off + len) 0 s = Inr (n, v)"
    using r by (auto simp: inode_write_data_def Let_def bnd_eq_Inr split: if_splits)
  then show ?thesis
  proof cases
    case 2
    have "unat (0 :: u32) + (unat (off + len) - unat off) < 2 ^ 32" using unsigned_less[of "off + len", where 'a = nat] by simp
    from write_loop_bound[OF 2 this] range_le[of off len] show ?thesis by simp
  qed simp
qed

section \<open>Refusals\<close>

lemma with_fd_bad:
  assumes "myproc s = Some p" and "sint fd < 0 \<or> 16 \<le> sint fd \<or> open_file (proc_pool s p) (unat fd) = None"
  shows "with_fd fd f s = Inr (-1, s)"
  using assms by (auto simp: with_fd_def with_myproc_def)

lemma bnd_Inl: "(\<And>x. \<exists>e. f x = Inl e) \<Longrightarrow> \<exists>e. bnd m f = Inl e"
  by (cases m) (auto)

lemma unknown_syscall_stops: "\<exists>e. unknown_syscall p n s = Inl e"
  unfolding unknown_syscall_def by (rule bnd_Inl) simp

text \<open>A number that is no system call stops the whole kernel.\<close>

lemma syscall_unknown:
  assumes "myproc s = Some p" and "n = ucast (tf_get p TF_a7 s)"
    and "sint (n :: u32) \<le> 0 \<or> 35 < sint n"
  shows "\<exists>e. syscall s = Inl e"
proof (cases "sint n = 0")
  case True
  then show ?thesis using assms(1,2) unknown_syscall_stops[of p n s]
    by (simp add: syscall_def with_myproc_def Let_def syscalls_def)
next
  case False
  then have "sint n < 0 \<or> 35 < sint n" using assms(3) by auto
  then show ?thesis using assms(1,2) unknown_syscall_stops[of p n s]
    by (simp add: syscall_def with_myproc_def Let_def)
qed

lemma buffer_print_info_stops: "\<exists>e. buffer_print_info s = Inl e"
  unfolding buffer_print_info_def by (simp add: kassert_def)

lemma mode_flags:
  "mode_readable O_RDONLY \<and> \<not> mode_readable O_WRONLY \<and> \<not> mode_readable O_RDWR"
  "mode_writable O_RDONLY \<and> mode_writable O_WRONLY \<and> mode_writable O_RDWR"
  by (simp_all add: mode_readable_def mode_writable_def)

end
