(* ===== verification/Schedule.thy ===== *)
theory Schedule
  imports Boot Lifecycle
begin

text \<open>
  The scheduler of a hart as a transition system: the loop of \<open>proc_scheduler\<close>, the processes it
  switches to, and the ways in which a process gives the hart up (\<open>proc_yield\<close>, \<open>proc_sleep\<close>, \<open>proc_exit\<close>). The
  invariant of the reachable states: locks, nesting depth and process states fit together, so that
  no switch fails and at most one process, the current one, is \<open>RUNNING\<close>.
\<close>

section \<open>The steps\<close>

text \<open>
  \<open>Loop\<close>: the hart is in the loop of the scheduler. \<open>In p h\<close>: it runs process \<open>p\<close>, which holds the
  spinlock \<open>h\<close> if any. \<open>w p\<close> says where process \<open>p\<close> left the hart: in \<open>proc_yield\<close>, or in
  \<open>proc_sleep\<close> with the lock that it takes again.
\<close>

datatype hmode = Loop | In nat "lockid option"

definition resume :: "lockid option \<Rightarrow> 'a proc_state_scheme \<Rightarrow> 'a proc_state_scheme res" where
  "resume h s = (case h of None \<Rightarrow> proc_yield_resume s | Some lk \<Rightarrow> proc_sleep_resume lk s)"

definition proc_lock :: "lockid \<Rightarrow> bool" where
  "proc_lock l \<longleftrightarrow> (\<exists>i. l = LkProc i)"

type_synonym 'a hstate = "hmode \<times> (nat \<Rightarrow> lockid option) \<times> 'a proc_state_scheme"

inductive hart_step :: "'a hstate \<Rightarrow> 'a hstate \<Rightarrow> bool" where
  skip: "p < N_PROC \<Longrightarrow> sched_pick p s = Inr (False, t) \<Longrightarrow> hart_step (Loop, w, s) (Loop, w, t)"
| enter: "p < N_PROC \<Longrightarrow> sched_pick p s = Inr (True, t) \<Longrightarrow> resume (w p) t = Inr u \<Longrightarrow>
    hart_step (Loop, w, s) (In p (w p), w, u)"
| lock: "\<not> proc_lock lk \<Longrightarrow> spinlock_acquire lk s = Inr t \<Longrightarrow>
    hart_step (In p None, w, s) (In p (Some lk), w, t)"
| unlock: "spinlock_release lk s = Inr t \<Longrightarrow> hart_step (In p (Some lk), w, s) (In p None, w, t)"
| wake: "proc_wakeup ch s = Inr t \<Longrightarrow> hart_step (In p h, w, s) (In p h, w, t)"
| give_up: "proc_yield_enter s = Inr t \<Longrightarrow> sched_back p t = Inr u \<Longrightarrow>
    hart_step (In p None, w, s) (Loop, w(p := None), u)"
| fall_asleep: "proc_sleep_enter ch lk s = Inr t \<Longrightarrow> sched_back p t = Inr u \<Longrightarrow>
    hart_step (In p (Some lk), w, s) (Loop, w(p := Some lk), u)"
| die: "proc_exit code s = Inr t \<Longrightarrow> sched_back p t = Inr u \<Longrightarrow> hart_step (In p None, w, s) (Loop, w, u)"

inductive_cases hart_stepE: "hart_step c d"

inductive hart_reach :: "'a hstate \<Rightarrow> 'a hstate \<Rightarrow> bool" for c where
  here: "hart_reach c c"
| more: "hart_reach c d \<Longrightarrow> hart_step d e \<Longrightarrow> hart_reach c e"

section \<open>The invariant\<close>

text \<open>Outside of critical sections: no lock is held and exactly the current process is \<open>RUNNING\<close>.\<close>

definition quiet :: "nat option \<Rightarrow> 'a proc_state_scheme \<Rightarrow> bool" where
  "quiet c s \<longleftrightarrow> cpu_ok s \<and> noff (mycpu s) = 0 \<and> (\<forall>l. free_lock l s) \<and> myproc s = c \<and>
     (\<forall>i < N_PROC. p_state (proc_pool s i) = RUNNING \<longleftrightarrow> c = Some i)"

definition hart_inv :: "'a hstate \<Rightarrow> bool" where
  "hart_inv c = (case c of (m, w, s) \<Rightarrow> (\<forall>p l. w p = Some l \<longrightarrow> \<not> proc_lock l) \<and>
     (case m of
        Loop \<Rightarrow> quiet None s
      | In p None \<Rightarrow> p < N_PROC \<and> quiet (Some p) s
      | In p (Some lk) \<Rightarrow> p < N_PROC \<and> \<not> proc_lock lk \<and> (\<exists>t. quiet (Some p) t \<and> s = entered lk t)))"

text \<open>\<open>c->proc = x\<close>.\<close>

definition with_cproc :: "nat option \<Rightarrow> 'a kcpu_scheme \<Rightarrow> 'a kcpu_scheme" where
  "with_cproc x s = set_mycpu ((mycpu s)\<lparr>cproc := x\<rparr>) s"

lemma with_cproc_entered: "with_cproc x (entered l s) = entered l (with_cproc x s)"
  by (cases s; cases "cpus s (hart s)") (simp add: with_cproc_def entered_def push_off_def cpu_defs)

lemma with_cproc_frame [simp]:
  "cpu_ok (with_cproc x s) = cpu_ok s" "noff (mycpu (with_cproc x s)) = noff (mycpu s)"
  "free_lock l (with_cproc x s) = free_lock l s" "myproc (with_cproc x s) = x"
  by (simp_all add: with_cproc_def cpu_ok_def cpu_defs free_lock_def myproc_def)

lemma with_cproc_pool [simp]: "proc_pool (with_cproc x s) = proc_pool s"
  by (simp add: with_cproc_def set_mycpu_def)

lemma noff_frame [simp]:
  "noff (mycpu (stale_origin s)) = noff (mycpu s)" "noff (mycpu (upd_proc i f t)) = noff (mycpu t)"
  "noff (mycpu (wake_state ch n t)) = noff (mycpu t)"
  by (simp_all add: stale_origin_def upd_proc_def wake_state_def cpu_defs)

lemma upd_proc_pool [simp]: "proc_pool (upd_proc i f s) = (proc_pool s)(i := f (proc_pool s i))"
  by (simp add: upd_proc_def)

lemma quietD:
  assumes "quiet c s"
  shows "cpu_ok s" "free_lock l s" "myproc s = c" "procs_free s"
  using assms by (simp_all add: quiet_def procs_free_def)

text \<open>What each step does to a quiet state.\<close>

lemma pick_idle:
  assumes "quiet None s" and "p_state (proc_pool s p) \<noteq> RUNNABLE"
  shows "sched_pick p s = Inr (False, stale_origin s)" and "quiet None (stale_origin s)"
  using assms by (simp_all add: quiet_def sched_pick_def)

definition picked :: "nat \<Rightarrow> 'a proc_state_scheme \<Rightarrow> 'a proc_state_scheme" where
  "picked p s = with_cproc (Some p) (upd_proc p (\<lambda>q. q\<lparr>p_state := RUNNING\<rparr>) s)"

lemma pick_runnable:
  assumes "quiet None s" and "p_state (proc_pool s p) = RUNNABLE"
  shows "sched_pick p s = Inr (True, entered (LkProc p) (picked p s))" and "quiet (Some p) (picked p s)"
  using assms with_cproc_entered[of "Some p" "LkProc p" "upd_proc p (\<lambda>q. q\<lparr>p_state := RUNNING\<rparr>) s"]
  by (auto simp: quiet_def sched_pick_def picked_def with_cproc_def[symmetric])

lemma quiet_stale: "quiet c s \<Longrightarrow> quiet c (stale_origin s)"
  by (simp add: quiet_def)

lemma quiet_upd:
  assumes "quiet c s" and "\<And>q. p_state (f q) = p_state q"
  shows "quiet c (upd_proc p f s)"
  using assms by (simp add: quiet_def)

lemma resume_yield:
  assumes "quiet (Some p) s"
  shows "resume None (entered (LkProc p) s) = Inr (stale_origin s)"
  using quietD[OF assms] by (simp add: resume_def proc_yield_resume_def with_myproc_def)

lemma resume_sleep:
  assumes "quiet (Some p) s"
  shows "resume (Some lk) (entered (LkProc p) s) =
    Inr (entered lk (stale_origin (upd_proc p (\<lambda>q. q\<lparr>sleep_space := None\<rparr>) s)))"
  using quietD[OF assms] by (simp add: resume_def proc_sleep_resume_def with_myproc_def)

text \<open>Process \<open>p\<close> leaves the hart in state \<open>st\<close>.\<close>

lemma quiet_leave:
  assumes "quiet (Some p) s" and "\<And>q. p_state (f q) \<noteq> RUNNING"
  shows "quiet None (stale_origin (with_cproc None (upd_proc p f s)))"
  using assms by (simp add: quiet_def)

lemma back_entered:
  assumes "cpu_ok s" and "free_lock (LkProc p) s"
  shows "sched_back p (entered (LkProc p) s) = Inr (stale_origin (with_cproc None s))"
  using assms by (simp add: sched_back_def with_cproc_def[symmetric] with_cproc_entered)

lemma yield_back:
  assumes "quiet (Some p) s"
  shows "\<exists>t. proc_yield_enter s = Inr t \<and>
    sched_back p t = Inr (stale_origin (with_cproc None (upd_proc p (\<lambda>q. q\<lparr>p_state := RUNNABLE\<rparr>) s)))"
  using quietD[OF assms] by (simp add: proc_yield_enter_def with_myproc_def back_entered)

lemma sleep_back:
  assumes "quiet (Some p) s" and "\<not> proc_lock lk"
  shows "\<exists>t. proc_sleep_enter ch lk (entered lk s) = Inr t \<and> sched_back p t =
    Inr (stale_origin (with_cproc None (upd_proc p (\<lambda>q. q\<lparr>sleep_space := Some ch, p_state := SLEEPING\<rparr>) s)))"
proof -
  have "lk \<noteq> LkProc p" using assms(2) by (auto simp: proc_lock_def)
  then show ?thesis using quietD[OF assms(1)] proc_sleep_enter_eq[of s lk p ch] by (simp add: back_entered)
qed

lemma quiet_wake:
  assumes "quiet c s"
  shows "quiet c (wake_state ch n s)"
  using assms by (simp add: quiet_def) (auto simp: wake_state_def woken_def wake_one_def)

lemma wake_quiet: "quiet c s \<Longrightarrow> proc_wakeup ch s = Inr (stale_origin (wake_state ch N_PROC s))"
  by (rule proc_wakeup_eq) (rule quietD)

lemma wake_entered:
  assumes "quiet c s" and "\<not> proc_lock lk"
  shows "proc_wakeup ch (entered lk s) = Inr (entered lk (wake_state ch N_PROC s))"
proof -
  have "procs_free (entered lk s)" using procs_free_entered quietD(4)[OF assms(1)] assms(2)
    by (auto simp: proc_lock_def)
  from proc_wakeup_eq[OF this] show ?thesis using quietD(1)[OF assms(1)] by simp
qed

section \<open>Exit\<close>

text \<open>The first \<open>n\<close> processes, with the children of \<open>me\<close> given to the first process.\<close>

definition adopt :: "nat \<Rightarrow> nat \<Rightarrow> 'a proc_state_scheme \<Rightarrow> 'a proc_state_scheme" where
  "adopt me n s = s\<lparr>proc_pool := (\<lambda>i. if i < n \<and> parent (proc_pool s i) = Some me
     then (proc_pool s i)\<lparr>parent := init_process s\<rparr> else proc_pool s i)\<rparr>"

lemma adopt_frame [simp]:
  "cpu_ok (adopt me n s) = cpu_ok s" "noff (mycpu (adopt me n s)) = noff (mycpu s)"
  "free_lock l (adopt me n s) = free_lock l s" "myproc (adopt me n s) = myproc s"
  "init_process (adopt me n s) = init_process s"
  "p_state (proc_pool (adopt me n s) i) = p_state (proc_pool s i)"
  "adopt me n (entered l s) = entered l (adopt me n s)"
  by (simp_all add: adopt_def cpu_defs cong: if_cong)

lemma quiet_adopt: "quiet c s \<Longrightarrow> quiet c (adopt me n s)"
  by (simp add: quiet_def)

lemma adopt_Suc:
  "adopt me (Suc n) s = (if parent (proc_pool s n) = Some me
     then upd_proc n (\<lambda>p. p\<lparr>parent := init_process s\<rparr>) (adopt me n s) else adopt me n s)"
proof -
  let ?a = "\<lambda>n. proc_pool (adopt me n s)"
  have "(?a n)(n := (?a n n)\<lparr>parent := init_process s\<rparr>) = ?a (Suc n)" if "parent (proc_pool s n) = Some me"
    using that by (auto simp: adopt_def fun_eq_iff less_Suc_eq)
  moreover have "?a (Suc n) = ?a n" if "parent (proc_pool s n) \<noteq> Some me"
    using that by (auto simp: adopt_def fun_eq_iff less_Suc_eq)
  ultimately show ?thesis by (auto simp: adopt_def upd_proc_def)
qed

lemma adopt_later: "n \<le> i \<Longrightarrow> proc_pool (adopt me n s) i = proc_pool s i"
  by (simp add: adopt_def)

definition zombie_child :: "nat \<Rightarrow> 'a proc_state_scheme \<Rightarrow> nat \<Rightarrow> bool" where
  "zombie_child me s i \<longleftrightarrow> i < N_PROC \<and> parent (proc_pool s i) = Some me \<and> p_state (proc_pool s i) = ZOMBIE"

lemma init_process_upd [simp]: "init_process (upd_proc i f s) = init_process s"
  by (simp add: upd_proc_def)

lemma reparent_prefix:
  assumes q: "quiet (Some me) s" and n: "n \<le> N_PROC" and z: "\<And>i. i < n \<Longrightarrow> \<not> zombie_child me s i"
  shows "for_each [0..<n] (reparent_one me) (entered LkLifecycle s) = Inr (entered LkLifecycle (adopt me n s))"
  using n z
proof (induction n)
  case 0
  then show ?case by (simp add: adopt_def)
next
  case (Suc n)
  note a = quietD[OF quiet_adopt[OF q, of me n]]
  have nz: "parent (proc_pool s n) = Some me \<Longrightarrow> p_state (proc_pool s n) \<noteq> ZOMBIE"
    using Suc.prems by (auto simp: zombie_child_def)
  have "reparent_one me n (entered LkLifecycle (adopt me n s)) = Inr (entered LkLifecycle (adopt me (Suc n) s))"
    using nz a by (simp add: reparent_one_def adopt_Suc adopt_later)
  then show ?case using Suc by (simp add: for_each_append)
qed

lemma reparent_zombie:
  assumes q: "quiet (Some me) s" and i: "zombie_child me s i" and least: "\<And>j. j < i \<Longrightarrow> \<not> zombie_child me s j"
  shows "for_each [0..<N_PROC] (reparent_one me) (entered LkLifecycle s) =
    Inl (Panic ''spinlock_acquire: recursive lock'')"
proof -
  have iN: "i < N_PROC" "parent (proc_pool s i) = Some me" "p_state (proc_pool s i) = ZOMBIE"
    using i by (simp_all add: zombie_child_def)
  have l: "[0..<N_PROC] = [0..<i] @ i # [Suc i..<N_PROC]"
    using iN(1) upt_add_eq_append[of 0 i "N_PROC - i"] by (simp add: upt_conv_Cons)
  note a = quietD[OF quiet_adopt[OF q, of me i]]
  have me: "me \<noteq> i"
  proof
    assume "me = i"
    then have "p_state (proc_pool s i) = RUNNING" using q iN(1) by (simp add: quiet_def)
    then show False using iN(3) by simp
  qed
  let ?t = "entered LkLifecycle (upd_proc i (\<lambda>p. p\<lparr>parent := init_process s\<rparr>) (adopt me i s))"
  have "proc_wakeup ch (entered (LkProc i) ?t) = Inl (Panic ''spinlock_acquire: recursive lock'')" for ch
    by (rule wakeup_recursive) (use a iN(1) me in simp_all)
  then have "reparent_one me i (entered LkLifecycle (adopt me i s)) = Inl (Panic ''spinlock_acquire: recursive lock'')"
    using a iN by (simp add: reparent_one_def adopt_later)
  then show ?thesis unfolding l for_each_append using reparent_prefix[OF q, of i] iN(1) least by simp
qed

text \<open>The state in which a process that exits is switched away from.\<close>

definition exited :: "int \<Rightarrow> nat \<Rightarrow> 'a proc_state_scheme \<Rightarrow> 'a proc_state_scheme" where
  "exited code me s =
     (let t = adopt me N_PROC s in wake_state (map_option ChProc (parent (proc_pool t me))) N_PROC
        (upd_proc me (\<lambda>p. p\<lparr>exit_code := code, p_state := ZOMBIE\<rparr>) t))"

lemma proc_exit_eq:
  assumes q: "quiet (Some me) s" and i: "init_process s \<noteq> Some me" and z: "\<And>i. \<not> zombie_child me s i"
  shows "proc_exit code s = Inr (entered (LkProc me) (stale_origin (exited code me s)))"
proof -
  note a = quietD[OF quiet_adopt[OF q, of me N_PROC]] and r = reparent_prefix[OF q order_refl z]
  let ?t = "entered LkLifecycle (upd_proc me (\<lambda>p. p\<lparr>exit_code := code, p_state := ZOMBIE\<rparr>) (adopt me N_PROC s))"
  have "proc_wakeup ch (entered (LkProc me) ?t) = Inr (stale_origin (wake_state ch N_PROC (entered (LkProc me) ?t)))" for ch
    by (rule proc_wakeup_others) (use a in auto)
  then show ?thesis using quietD[OF q] i a r
    by (simp add: proc_exit_def with_myproc_def exited_def Let_def del: entered_proc_update)
qed

lemma proc_exit_zombie:
  assumes q: "quiet (Some me) s" and i: "init_process s \<noteq> Some me" and z: "\<exists>i. zombie_child me s i"
  shows "proc_exit code s = Inl (Panic ''spinlock_acquire: recursive lock'')"
proof -
  have "zombie_child me s (LEAST i. zombie_child me s i)" using LeastI_ex[OF z] .
  from reparent_zombie[OF q this] not_less_Least[where P = "zombie_child me s"]
  have "for_each [0..<N_PROC] (reparent_one me) (entered LkLifecycle s) = Inl (Panic ''spinlock_acquire: recursive lock'')"
    by blast
  then show ?thesis
    using quietD[OF q] i by (simp add: proc_exit_def with_myproc_def)
qed

lemma quiet_exited:
  assumes "quiet (Some me) s"
  shows "quiet None (stale_origin (with_cproc None (stale_origin (exited code me s))))"
proof -
  have "quiet None (with_cproc None (upd_proc me (\<lambda>p. p\<lparr>exit_code := code, p_state := ZOMBIE\<rparr>) (adopt me N_PROC s)))"
    using quiet_adopt[OF assms, of me N_PROC] by (simp add: quiet_def)
  then show ?thesis by (auto simp: quiet_def exited_def Let_def) (auto simp: wake_state_def woken_def wake_one_def split: if_splits)
qed

lemma exit_back:
  assumes q: "quiet (Some me) s" and e: "proc_exit code s = Inr t"
  shows "t = entered (LkProc me) (stale_origin (exited code me s))"
    and "sched_back me t = Inr (stale_origin (with_cproc None (stale_origin (exited code me s))))"
proof -
  have i: "init_process s \<noteq> Some me" using e quietD[OF q] by (auto simp: proc_exit_def with_myproc_def)
  have z: "\<not> zombie_child me s i" for i using proc_exit_zombie[OF q i, of code] e by auto
  show t: "t = entered (LkProc me) (stale_origin (exited code me s))" using proc_exit_eq[OF q i z] e by simp
  have "cpu_ok (exited code me s)" "free_lock (LkProc me) (exited code me s)"
    using quietD[OF q] by (simp_all add: exited_def Let_def)
  then show "sched_back me t = Inr (stale_origin (with_cproc None (stale_origin (exited code me s))))"
    unfolding t by (intro back_entered) simp_all
qed

section \<open>Preservation\<close>

lemma hart_step_inv:
  assumes "hart_step c d" and "hart_inv c"
  shows "hart_inv d"
  using assms
proof (cases rule: hart_step.cases)
  case (skip p s t w)
  then show ?thesis using assms(2) pick_idle[of s p] pick_runnable(1)[of s p]
    by (cases "p_state (proc_pool s p) = RUNNABLE") (simp_all add: hart_inv_def)
next
  case (enter p s t w u)
  then have q: "quiet None s" and w: "\<forall>p l. w p = Some l \<longrightarrow> \<not> proc_lock l" using assms(2) by (simp_all add: hart_inv_def)
  have r: "p_state (proc_pool s p) = RUNNABLE" using pick_idle(1)[OF q, of p] enter(4) by auto
  note p = pick_runnable[OF q r]
  have t: "t = entered (LkProc p) (picked p s)" using p(1) enter(4) by simp
  show ?thesis
  proof (cases "w p")
    case None
    then have "u = stale_origin (picked p s)" using enter(5) t resume_yield[OF p(2)] by simp
    then show ?thesis using None enter w quiet_stale[OF p(2)] by (simp add: hart_inv_def)
  next
    case (Some lk)
    then have "u = entered lk (stale_origin (upd_proc p (\<lambda>q. q\<lparr>sleep_space := None\<rparr>) (picked p s)))"
      using enter(5) t resume_sleep[OF p(2)] by simp
    moreover have "quiet (Some p) (stale_origin (upd_proc p (\<lambda>q. q\<lparr>sleep_space := None\<rparr>) (picked p s)))"
      by (intro quiet_stale quiet_upd p) simp
    ultimately show ?thesis using Some enter w by (auto simp: hart_inv_def)
  qed
next
  case (lock lk s t p w)
  then show ?thesis using assms(2) by (auto simp: hart_inv_def quietD)
next
  case (unlock lk s t p w)
  then obtain s0 where "quiet (Some p) s0" "s = entered lk s0" using assms(2) by (auto simp: hart_inv_def)
  then have "quiet (Some p) t" using unlock(3) quietD[of "Some p" s0] quiet_stale[of "Some p" s0] by simp
  then show ?thesis using unlock assms(2) by (simp add: hart_inv_def)
next
  case (wake ch s t p h w)
  show ?thesis
  proof (cases h)
    case None
    then have "quiet (Some p) t" using wake assms(2) wake_quiet[of "Some p" s ch]
      by (auto simp: hart_inv_def intro!: quiet_stale quiet_wake)
    then show ?thesis using None wake assms(2) by (simp add: hart_inv_def)
  next
    case (Some lk)
    then obtain s0 where s0: "quiet (Some p) s0" "s = entered lk s0" "\<not> proc_lock lk"
      using wake assms(2) by (auto simp: hart_inv_def)
    then have "t = entered lk (wake_state ch N_PROC s0)" using wake(3) wake_entered[OF s0(1,3)] by simp
    then show ?thesis using Some wake assms(2) quiet_wake[OF s0(1)] by (auto simp: hart_inv_def)
  qed
next
  case (give_up s t p u w)
  then have q: "quiet (Some p) s" using assms(2) by (simp add: hart_inv_def)
  then have "quiet None u" using give_up(3,4) yield_back[OF q] quiet_leave[OF q] by fastforce
  then show ?thesis using give_up assms(2) by (simp add: hart_inv_def)
next
  case (fall_asleep ch lk s t p u w)
  then obtain s0 where s0: "quiet (Some p) s0" "s = entered lk s0" "\<not> proc_lock lk"
    using assms(2) by (auto simp: hart_inv_def)
  then have "quiet None u" using fall_asleep(3,4) sleep_back[OF s0(1,3), of ch] quiet_leave[OF s0(1)] by fastforce
  then show ?thesis using fall_asleep s0(3) assms(2) by (simp add: hart_inv_def)
next
  case (die code s t p u w)
  then have q: "quiet (Some p) s" using assms(2) by (simp add: hart_inv_def)
  then have "quiet None u" using die(4) exit_back(2)[OF q die(3)] quiet_exited[OF q, of code] by simp
  then show ?thesis using die assms(2) by (simp add: hart_inv_def)
qed

lemma hart_reach_inv: "hart_reach c d \<Longrightarrow> hart_inv c \<Longrightarrow> hart_inv d"
  by (induction rule: hart_reach.induct) (auto intro: hart_step_inv)

text \<open>No operation of the scheduler can fail in a state that satisfies the invariant.\<close>

lemma loop_progress:
  assumes "hart_inv (Loop, w, s)"
  shows "\<exists>b t. sched_pick p s = Inr (b, t) \<and> (b \<longrightarrow> (\<exists>u. resume (w p) t = Inr u))"
proof (cases "p_state (proc_pool s p) = RUNNABLE")
  case True
  have q: "quiet None s" using assms by (simp add: hart_inv_def)
  from pick_runnable[OF q True] resume_yield[of p "picked p s"] resume_sleep[of p "picked p s"]
  show ?thesis by (cases "w p") auto
next
  case False
  then show ?thesis using pick_idle(1)[of s p] assms by (auto simp: hart_inv_def)
qed

lemma leave_progress:
  "hart_inv (In p None, w, s) \<Longrightarrow> \<exists>t u. proc_yield_enter s = Inr t \<and> sched_back p t = Inr u"
  "hart_inv (In p (Some lk), w, s) \<Longrightarrow> \<exists>t u. proc_sleep_enter ch lk s = Inr t \<and> sched_back p t = Inr u"
  using yield_back sleep_back by (fastforce simp: hart_inv_def)+

text \<open>The current process is the only one that is \<open>RUNNING\<close>.\<close>

lemma one_running:
  assumes "hart_inv (m, w, s)" and "i < N_PROC"
  shows "p_state (proc_pool s i) = RUNNING \<longleftrightarrow> (\<exists>h. m = In i h)"
proof (cases m)
  case Loop
  then show ?thesis using assms by (simp add: hart_inv_def quiet_def)
next
  case (In p h)
  then show ?thesis using assms by (cases h) (auto simp: hart_inv_def quiet_def)
qed

section \<open>A hart to start from\<close>

text \<open>A hart that runs \<open>c\<close>, with no lock taken, and processes with the given states and parents.\<close>

definition staged :: "nat option \<Rightarrow> (nat \<Rightarrow> procstate) \<Rightarrow> (nat \<Rightarrow> nat option) \<Rightarrow> proc_state \<Rightarrow> proc_state" where
  "staged c st par s = s\<lparr>hart := 0, cpus := (\<lambda>_. reset_cpu\<lparr>cproc := c\<rparr>), locks := (\<lambda>_. \<lparr>locked = False, cpuid = -1\<rparr>),
     init_process := None, slocks := (\<lambda>_. \<lparr>slk_locked = False, slk_pid = 0\<rparr>),
     proc_pool := (\<lambda>i. (proc_pool s i)\<lparr>p_state := st i, parent := par i\<rparr>)\<rparr>"

lemma staged_quiet: "(\<And>i. st i = RUNNING \<longleftrightarrow> c = Some i) \<Longrightarrow> quiet c (staged c st par s)"
  by (simp add: quiet_def staged_def cpu_ok_def free_lock_def mycpu_def reset_cpu_def myproc_def)

lemma staged_procs [simp]:
  "p_state (proc_pool (staged c st par s) i) = st i" "parent (proc_pool (staged c st par s) i) = par i"
  "init_process (staged c st par s) = None" "\<not> slk_locked (slocks (staged c st par s) l)"
  by (simp_all add: staged_def)

end
