(* ===== verification/Terminal.thy ===== *)
theory Terminal
  imports Console
begin

text \<open>
  The line discipline of the console as a pair of byte lists, the bytes a reader can take and the
  line being edited: \<open>cons_edit\<close> on the ring with its three indices implements an edit function on
  the lists. And the decimal and hexadecimal output of numbers reads back as the number.
\<close>

section \<open>Frames\<close>

lemma entered_io [simp]:
  "panicked (entered l s) = panicked s" "uart_tx (entered l s) = uart_tx s" "cons_buf (entered l s) = cons_buf s"
  "read_idx (entered l s) = read_idx s" "writ_idx (entered l s) = writ_idx s" "edit_idx (entered l s) = edit_idx s"
  "panicked (stale_origin s) = panicked s" "uart_tx (stale_origin s) = uart_tx s" "cons_buf (stale_origin s) = cons_buf s"
  "read_idx (stale_origin s) = read_idx s" "writ_idx (stale_origin s) = writ_idx s" "edit_idx (stale_origin s) = edit_idx s"
  by (simp_all add: entered_def push_off_def stale_origin_def cpu_defs)

lemma entered_io_update [simp]:
  "(entered l s)\<lparr>uart_tx := x\<rparr> = entered l (s\<lparr>uart_tx := x\<rparr>)" "(entered l s)\<lparr>cons_buf := b\<rparr> = entered l (s\<lparr>cons_buf := b\<rparr>)"
  "(entered l s)\<lparr>edit_idx := i\<rparr> = entered l (s\<lparr>edit_idx := i\<rparr>)" "(entered l s)\<lparr>writ_idx := i\<rparr> = entered l (s\<lparr>writ_idx := i\<rparr>)"
  by (simp_all add: entered_def push_off_def cpu_defs)

lemma io_update_locks [simp]:
  "cpu_ok (s\<lparr>uart_tx := x\<rparr>) = cpu_ok s" "cpu_ok (s\<lparr>cons_buf := b\<rparr>) = cpu_ok s"
  "cpu_ok (s\<lparr>edit_idx := i\<rparr>) = cpu_ok s" "cpu_ok (s\<lparr>writ_idx := i\<rparr>) = cpu_ok s"
  "free_lock l (s\<lparr>uart_tx := x\<rparr>) = free_lock l s" "free_lock l (s\<lparr>cons_buf := b\<rparr>) = free_lock l s"
  "free_lock l (s\<lparr>edit_idx := i\<rparr>) = free_lock l s" "free_lock l (s\<lparr>writ_idx := i\<rparr>) = free_lock l s"
  by (simp_all add: cpu_ok_def free_lock_def cpu_defs)

lemma io_update_procs [simp]:
  "procs_free (s\<lparr>uart_tx := x\<rparr>) = procs_free s" "procs_free (s\<lparr>cons_buf := b\<rparr>) = procs_free s"
  "procs_free (s\<lparr>edit_idx := i\<rparr>) = procs_free s" "procs_free (s\<lparr>writ_idx := i\<rparr>) = procs_free s"
  "procs_free (stale_origin s) = procs_free s" "procs_free (wake_state ch n t) = procs_free t"
  by (simp_all add: procs_free_def)

lemma wake_io [simp]:
  "panicked (wake_state ch n s) = panicked s" "cons_buf (wake_state ch n s) = cons_buf s"
  "read_idx (wake_state ch n s) = read_idx s" "writ_idx (wake_state ch n s) = writ_idx s"
  "edit_idx (wake_state ch n s) = edit_idx s"
  by (simp_all add: wake_state_def)

section \<open>Output of a character\<close>

lemma uart_putc_eq:
  assumes "cpu_ok s" and "\<not> panicked s"
  shows "uart_putc_sync c s = Inr (stale_origin (s\<lparr>uart_tx := uart_tx s @ [ucast c]\<rparr>))"
proof -
  have "panicked (push_off s) = panicked s" "(push_off s)\<lparr>uart_tx := uart_tx (push_off s) @ [ucast c]\<rparr> =
      push_off (s\<lparr>uart_tx := uart_tx s @ [ucast c]\<rparr>)"
    by (simp_all add: push_off_def cpu_defs)
  then show ?thesis using assms pop_push[of "s\<lparr>uart_tx := uart_tx s @ [ucast c]\<rparr>"]
    by (simp add: uart_putc_sync_def Let_def)
qed

definition out_bytes :: "u32 \<Rightarrow> u8 list" where
  "out_bytes c = (if c = BACKSPACE then [8, 32, 8] else [ucast c])"

lemma cons_putc_eq:
  assumes "cpu_ok s" and "\<not> panicked s"
  shows "cons_putc c (entered l s) = Inr (entered l (s\<lparr>uart_tx := uart_tx s @ out_bytes c\<rparr>))"
  using assms by (simp add: cons_putc_def uart_putc_eq out_bytes_def)

section \<open>The line discipline\<close>

text \<open>The bytes of the ring from index \<open>a\<close> up to, not including, index \<open>b\<close>.\<close>

definition ring :: "(nat \<Rightarrow> u8) \<Rightarrow> int \<Rightarrow> int \<Rightarrow> u8 list" where
  "ring b i j = map (\<lambda>k. b (nat k mod 128)) [i..j - 1]"

definition ready :: "'a io_state_scheme \<Rightarrow> u8 list" where
  "ready s = ring (cons_buf s) (read_idx s) (writ_idx s)"

definition edited :: "'a io_state_scheme \<Rightarrow> u8 list" where
  "edited s = ring (cons_buf s) (writ_idx s) (edit_idx s)"

definition cons_ok :: "'a io_state_scheme \<Rightarrow> bool" where
  "cons_ok s \<longleftrightarrow> procs_free s \<and> free_lock LkCons s \<and> \<not> panicked s \<and>
     0 \<le> read_idx s \<and> read_idx s \<le> writ_idx s \<and> writ_idx s \<le> edit_idx s \<and> edit_idx s \<le> read_idx s + 128"

text \<open>
  The specification: Ctrl-U erases the line, backspace its last byte; any other byte but NUL is
  appended while there is room, a carriage return as a newline; a newline, or a full ring, hands the
  line over.
\<close>

definition edit_spec :: "u8 \<Rightarrow> u8 list \<times> u8 list \<Rightarrow> u8 list \<times> u8 list" where
  "edit_spec c = (\<lambda>(rd, ln).
     if c = 0x15 then (rd, rev (dropWhile (\<lambda>x. x \<noteq> NL) (rev ln)))
     else if c = 0x08 \<or> c = 0x7f then (rd, butlast ln)
     else if c \<noteq> 0 \<and> length rd + length ln < 128 then
       let c = if c = 0x0d then NL else c in
       if c = NL \<or> length rd + length ln = 127 then (rd @ ln @ [c], []) else (rd, ln @ [c])
     else (rd, ln))"

lemma ring_length: "i \<le> j \<Longrightarrow> length (ring b i j) = nat (j - i)"
  by (simp add: ring_def)

lemma ring_snoc: "i \<le> j \<Longrightarrow> ring b i (j + 1) = ring b i j @ [b (nat j mod 128)]"
  by (simp add: ring_def upto_rec2)

lemma ring_empty [simp]: "ring b i i = []"
  by (simp add: ring_def)

lemma ring_append: "i \<le> j \<Longrightarrow> j \<le> k \<Longrightarrow> ring b i k = ring b i j @ ring b j k"
  using upto_split1[of i j "k - 1"] by (cases "j = k") (simp_all add: ring_def)

text \<open>Writing at index \<open>e\<close> does not change the 128 indices before it.\<close>

lemma ring_other:
  assumes "0 \<le> i" "e - 128 < i" "j \<le> e"
  shows "ring (b(nat e mod 128 := c)) i j = ring b i j"
proof -
  have "nat k mod 128 \<noteq> nat e mod 128" if "i \<le> k" "k < j" for k
  proof
    assume "nat k mod 128 = nat e mod 128"
    then have "128 dvd nat e - nat k" using that assms mod_eq_dvd_iff_nat[of "nat k" "nat e" 128] by simp
    moreover have "0 < nat e - nat k" "nat e - nat k < 128" using that assms by auto
    ultimately show False by (simp add: nat_dvd_not_less)
  qed
  then show ?thesis by (simp add: ring_def)
qed

lemma edit_idx_same: "edit_idx s = i \<Longrightarrow> s\<lparr>edit_idx := i, uart_tx := uart_tx s\<rparr> = s"
  by auto

lemma kill_line_ok:
  assumes "cpu_ok s" "\<not> panicked s" "0 \<le> writ_idx s" "edit_idx s = writ_idx s + int n"
  shows "\<exists>k x. kill_line n (entered l s) = Inr (entered l (s\<lparr>edit_idx := writ_idx s + int k, uart_tx := x\<rparr>)) \<and> k \<le> n \<and>
    ring (cons_buf s) (writ_idx s) (writ_idx s + int k) =
      rev (dropWhile (\<lambda>x. x \<noteq> NL) (rev (ring (cons_buf s) (writ_idx s) (edit_idx s))))"
  using assms
proof (induction n arbitrary: s)
  case 0
  then show ?case by (intro exI[of _ 0] exI[of _ "uart_tx s"]) (simp add: kill_line.simps edit_idx_same)
next
  case (Suc n)
  let ?c = "cons_buf s (nat (writ_idx s + int n) mod 128)"
  have r: "ring (cons_buf s) (writ_idx s) (edit_idx s) = ring (cons_buf s) (writ_idx s) (writ_idx s + int n) @ [?c]"
    using ring_snoc[of "writ_idx s" "writ_idx s + int n"] Suc.prems(4) by (simp add: algebra_simps)
  have sl: "cons_slot (edit_idx s - 1) = Inr (nat (writ_idx s + int n) mod 128)"
    using Suc.prems(3,4) by (simp add: cons_slot_def)
  show ?case
  proof (cases "?c = NL")
    case True
    then show ?thesis using Suc.prems(4) sl r
      by (intro exI[of _ "Suc n"] exI[of _ "uart_tx s"]) (simp add: kill_line.simps edit_idx_same)
  next
    case False
    let ?s = "s\<lparr>edit_idx := writ_idx s + int n, uart_tx := uart_tx s @ out_bytes BACKSPACE\<rparr>"
    have "kill_line (Suc n) (entered l s) = kill_line n (entered l ?s)"
      using False Suc.prems sl cons_putc_eq[of "s\<lparr>edit_idx := edit_idx s - 1\<rparr>" BACKSPACE l]
      by (subst kill_line.simps) simp
    moreover obtain k x where "kill_line n (entered l ?s) = Inr (entered l (?s\<lparr>edit_idx := writ_idx ?s + int k, uart_tx := x\<rparr>))"
      "k \<le> n" "ring (cons_buf ?s) (writ_idx ?s) (writ_idx ?s + int k) =
      rev (dropWhile (\<lambda>x. x \<noteq> NL) (rev (ring (cons_buf ?s) (writ_idx ?s) (edit_idx ?s))))"
      using Suc.IH[of ?s] Suc.prems by auto
    ultimately show ?thesis using r False by (intro exI[of _ k] exI[of _ x]) simp
  qed
qed

text \<open>The state in which \<open>cons_edit\<close> has done its work, before it releases the lock.\<close>

definition edit_done :: "u8 \<Rightarrow> 'a io_state_scheme \<Rightarrow> 'a io_state_scheme res \<Rightarrow> bool" where
  "edit_done c s r \<longleftrightarrow> (\<exists>t. r = Inr (entered LkCons t) \<and> cons_ok t \<and> read_idx t = read_idx s \<and>
     (ready t, edited t) = edit_spec c (ready s, edited s))"

lemma edit_doneI:
  "r = Inr (entered LkCons t) \<Longrightarrow> cons_ok t \<Longrightarrow> read_idx t = read_idx s \<Longrightarrow>
   (ready t, edited t) = edit_spec c (ready s, edited s) \<Longrightarrow> edit_done c s r"
  by (auto simp: edit_done_def)

lemma edit_kill:
  assumes "cons_ok s"
  shows "edit_done 0x15 s (kill_line (nat (edit_idx s - writ_idx s)) (entered LkCons s))"
proof -
  let ?n = "nat (edit_idx s - writ_idx s)"
  have p: "cpu_ok s" "\<not> panicked s" "0 \<le> writ_idx s" "edit_idx s = writ_idx s + int ?n"
    using assms by (auto simp: cons_ok_def procs_free_def)
  from kill_line_ok[OF p, of LkCons, folded edited_def] obtain k x where
    k: "kill_line ?n (entered LkCons s) = Inr (entered LkCons (s\<lparr>edit_idx := writ_idx s + int k, uart_tx := x\<rparr>))" "k \<le> ?n"
    "ring (cons_buf s) (writ_idx s) (writ_idx s + int k) = rev (dropWhile (\<lambda>x. x \<noteq> NL) (rev (edited s)))"
    by blast
  show ?thesis
    by (rule edit_doneI[OF k(1)]) (use assms k(2,3) in \<open>auto simp: cons_ok_def ready_def edited_def edit_spec_def\<close>)
qed

lemma edit_erase:
  assumes ok: "cons_ok s" "read_idx s < 2 ^ 31 - 128" and c: "c = 0x08 \<or> c = 0x7f"
  shows "edit_done c s (if edit_idx (entered LkCons s) \<noteq> writ_idx (entered LkCons s)
    then bnd (c_int (edit_idx (entered LkCons s) - 1)) (\<lambda>e. cons_putc BACKSPACE ((entered LkCons s)\<lparr>edit_idx := e\<rparr>))
    else Inr (entered LkCons s))"
proof (cases "edit_idx s = writ_idx s")
  case True
  then have "edited s = []" by (simp add: edited_def)
  then show ?thesis using True ok c by (intro edit_doneI[of _ s]) (auto simp: edit_spec_def)
next
  case False
  let ?e = "edit_idx s - 1"
  have e: "writ_idx s \<le> ?e" using False ok by (auto simp: cons_ok_def)
  have "butlast (edited s) = ring (cons_buf s) (writ_idx s) ?e"
    using ring_snoc[OF e, of "cons_buf s"] by (simp add: edited_def)
  moreover have "cpu_ok s" "\<not> panicked s" using ok by (auto simp: cons_ok_def procs_free_def)
  moreover have "c_int ?e = Inr ?e" using e ok by (simp add: c_int_def cons_ok_def)
  ultimately show ?thesis using False ok c e cons_putc_eq[of "s\<lparr>edit_idx := ?e\<rparr>" BACKSPACE LkCons]
    by (intro edit_doneI[of _ "s\<lparr>edit_idx := ?e, uart_tx := uart_tx s @ out_bytes BACKSPACE\<rparr>"])
      (auto simp: edit_spec_def cons_ok_def ready_def edited_def)
qed

text \<open>A byte is stored at the edit index, and the line is handed over when it is complete.\<close>

definition appended :: "u8 \<Rightarrow> 'a io_state_scheme \<Rightarrow> 'a io_state_scheme" where
  "appended c s = s\<lparr>uart_tx := uart_tx s @ out_bytes (ucast c), cons_buf := (cons_buf s)(nat (edit_idx s) mod 128 := c),
     edit_idx := edit_idx s + 1\<rparr>"

definition cons_append :: "u8 \<Rightarrow> 'a io_state_scheme \<Rightarrow> 'a io_state_scheme res" where
  "cons_append c s =
     bnd (cons_putc (ucast c) s) (\<lambda>s.
     bnd (cons_slot (edit_idx s)) (\<lambda>k.
     bnd (c_int (edit_idx s + 1)) (\<lambda>e.
     let s = s\<lparr>cons_buf := (cons_buf s)(k := c), edit_idx := e\<rparr> in
     bnd (if c = NL then Inr True
          else bnd (c_int (read_idx s + CONSOLE_INPUT_BUF)) (\<lambda>f. Inr (edit_idx s = f))) (\<lambda>hand_over.
     if hand_over then proc_wakeup (Some ChCons) (s\<lparr>writ_idx := edit_idx s\<rparr>) else Inr s))))"

lemma appended_rings:
  assumes "cons_ok s" and "edit_idx s - read_idx s < 128"
  shows "ring (cons_buf (appended c s)) (read_idx s) (writ_idx s) = ready s"
    "ring (cons_buf (appended c s)) (writ_idx s) (edit_idx s + 1) = edited s @ [c]"
    "ring (cons_buf (appended c s)) (read_idx s) (edit_idx s + 1) = ready s @ edited s @ [c]"
proof -
  have b: "0 \<le> read_idx s" "read_idx s \<le> writ_idx s" "writ_idx s \<le> edit_idx s" using assms by (simp_all add: cons_ok_def)
  show *: "ring (cons_buf (appended c s)) (read_idx s) (writ_idx s) = ready s"
    using b assms(2) by (simp add: appended_def ready_def ring_other)
  show **: "ring (cons_buf (appended c s)) (writ_idx s) (edit_idx s + 1) = edited s @ [c]"
    using b assms(2) ring_snoc[OF b(3)] by (simp add: appended_def edited_def ring_other)
  show "ring (cons_buf (appended c s)) (read_idx s) (edit_idx s + 1) = ready s @ edited s @ [c]"
    using ring_append[OF b(2), of "edit_idx s + 1"] b(3) * ** by simp
qed

lemma list_lengths:
  assumes "cons_ok s"
  shows "int (length (ready s) + length (edited s)) = edit_idx s - read_idx s"
  using assms by (simp add: cons_ok_def ready_def edited_def ring_length)

lemma edit_append:
  assumes ok: "cons_ok s" and room: "edit_idx s - read_idx s < 128" and small: "read_idx s < 2 ^ 31 - 128"
  shows "\<exists>t. cons_append c (entered LkCons s) = Inr (entered LkCons t) \<and> cons_ok t \<and> read_idx t = read_idx s \<and>
    (ready t, edited t) = (if c = NL \<or> length (ready s) + length (edited s) = 127 then (ready s @ edited s @ [c], [])
      else (ready s, edited s @ [c]))"
proof -
  note r = appended_rings[OF ok room, of c] and l = list_lengths[OF ok]
  have p: "cpu_ok s" "\<not> panicked s" "0 \<le> edit_idx s" "procs_free s" using ok by (auto simp: cons_ok_def procs_free_def)
  let ?a = "appended c s"
  have full: "edit_idx s + 1 = read_idx s + 128 \<longleftrightarrow> length (ready s) + length (edited s) = 127" using l by auto
  have a: "read_idx ?a = read_idx s" "edit_idx ?a = edit_idx s + 1" "writ_idx ?a = writ_idx s" "procs_free ?a"
    "cons_buf ?a = (cons_buf s)(nat (edit_idx s) mod 128 := c)" "cpu_ok ?a"
    using p by (simp_all add: appended_def)
  have ci: "c_int (edit_idx s + 1) = Inr (edit_idx s + 1)" "c_int (read_idx s + 128) = Inr (read_idx s + 128)"
    using ok room small by (simp_all add: c_int_def cons_ok_def)
  have ap: "cons_append c (entered LkCons s) = (if c = NL \<or> edit_idx s + 1 = read_idx s + 128
      then proc_wakeup (Some ChCons) (entered LkCons (?a\<lparr>writ_idx := edit_idx s + 1\<rparr>)) else Inr (entered LkCons ?a))"
    using p by (cases "c = NL") (simp_all add: cons_append_def cons_putc_eq cons_slot_def ci Let_def appended_def)
  have ok_a: "cons_ok ?a" using ok room by (simp add: cons_ok_def appended_def)
  show ?thesis
  proof (cases "c = NL \<or> edit_idx s + 1 = read_idx s + 128")
    case True
    let ?w = "?a\<lparr>writ_idx := edit_idx s + 1\<rparr>"
    have "procs_free (entered LkCons ?w)" using procs_free_entered[of ?w LkCons] a by simp
    note w = proc_wakeup_eq[OF this, of "Some ChCons"]
    have cw: "cpu_ok ?w" using a by simp
    let ?t = "wake_state (Some ChCons) N_PROC ?w"
    have "cons_ok ?t" using ok_a by (simp add: cons_ok_def a)
    moreover have "(ready ?t, edited ?t) = (ready s @ edited s @ [c], [])" using r(3) by (simp add: ready_def edited_def a)
    moreover have "read_idx ?t = read_idx s" by (simp add: a)
    ultimately show ?thesis using True full w cw p
      by (intro exI[of _ ?t]) (simp only: ap if_True full, simp)
  next
    case False
    moreover have "(ready ?a, edited ?a) = (ready s, edited s @ [c])" using r(1,2) by (simp add: ready_def edited_def a)
    ultimately show ?thesis using full ok_a p
      by (intro exI[of _ ?a]) (simp add: ap a)
  qed
qed

lemma cons_edit_ok:
  assumes ok: "cons_ok s" and small: "read_idx s < 2 ^ 31 - 128"
  shows "\<exists>t. cons_edit c s = Inr t \<and> cons_ok t \<and> read_idx t = read_idx s \<and>
    (ready t, edited t) = edit_spec c (ready s, edited s)"
proof -
  define body where "body = (if c = 0x15 then kill_line (nat (edit_idx s - writ_idx s)) (entered LkCons s)
     else if c = 0x08 \<or> c = 0x7f then
       if edit_idx (entered LkCons s) \<noteq> writ_idx (entered LkCons s)
       then bnd (c_int (edit_idx (entered LkCons s) - 1)) (\<lambda>e. cons_putc BACKSPACE ((entered LkCons s)\<lparr>edit_idx := e\<rparr>))
       else Inr (entered LkCons s)
     else if c \<noteq> 0 \<and> edit_idx s - read_idx s < CONSOLE_INPUT_BUF then
       cons_append (if c = 0x0d then NL else c) (entered LkCons s)
     else Inr (entered LkCons s))"
  have l: "edit_idx s - read_idx s < 128 \<longleftrightarrow> length (ready s) + length (edited s) < 128" using list_lengths[OF ok] by auto
  have "edit_done c s body"
  proof (cases "c = 0x15")
    case True
    then show ?thesis using edit_kill[OF ok] by (simp add: body_def)
  next
    case F: False
    show ?thesis
    proof (cases "c = 0x08 \<or> c = 0x7f")
      case True
      then show ?thesis using edit_erase[OF ok small True] unfolding body_def by (simp only: F if_False if_True)
    next
      case G: False
      show ?thesis
      proof (cases "c \<noteq> 0 \<and> edit_idx s - read_idx s < 128")
        case True
        define d where "d = (if c = 0x0d then NL else c)"
        have b: "body = cons_append d (entered LkCons s)" unfolding body_def d_def using F G True by (simp only: if_False if_True simp_thms)
        from True have "edit_idx s - read_idx s < 128" by simp
        from edit_append[OF ok this small, of d] obtain t where "body = Inr (entered LkCons t)" "cons_ok t" "read_idx t = read_idx s"
          "(ready t, edited t) = (if d = NL \<or> length (ready s) + length (edited s) = 127 then (ready s @ edited s @ [d], [])
            else (ready s, edited s @ [d]))"
          unfolding b by blast
        then show ?thesis using F G True l by (intro edit_doneI[of _ t]) (auto simp: edit_spec_def d_def Let_def)
      next
        case False
        then have "body = Inr (entered LkCons s)" using F G by (auto simp: body_def)
        then show ?thesis using False F G l ok by (intro edit_doneI[of _ s]) (auto simp: edit_spec_def)
      qed
    qed
  qed
  then obtain t where t: "body = Inr (entered LkCons t)" "cons_ok t" "(ready t, edited t) = edit_spec c (ready s, edited s)"
      "read_idx t = read_idx s"
    by (auto simp: edit_done_def)
  have "free_lock LkCons s" using ok by (simp add: cons_ok_def)
  moreover have "c_int (edit_idx s - read_idx s) = Inr (edit_idx s - read_idx s)"
    using ok by (simp add: c_int_def cons_ok_def)
  ultimately have "cons_edit c s = bnd body (\<lambda>s. spinlock_release LkCons s)"
    unfolding cons_edit_def body_def cons_append_def Let_def by simp
  moreover have "cpu_ok t" "free_lock LkCons t" using t(2) by (simp_all add: cons_ok_def procs_free_def)
  ultimately have "cons_edit c s = Inr (stale_origin t)" using t(1) by simp
  then show ?thesis using t(2,3,4) by (simp add: cons_ok_def ready_def edited_def)
qed

section \<open>Numbers\<close>

text \<open>The value of a digit character, and of a list of them, most significant first, with an optional sign.\<close>

definition char_value :: "u8 \<Rightarrow> nat" where
  "char_value c = (if unat c < 58 then unat c - 48 else unat c - 87)"

definition read_nat :: "nat \<Rightarrow> u8 list \<Rightarrow> nat" where
  "read_nat base cs = foldl (\<lambda>n c. n * base + char_value c) 0 cs"

definition read_int :: "nat \<Rightarrow> u8 list \<Rightarrow> int" where
  "read_int base cs = (case cs of [] \<Rightarrow> 0 | c # ds \<Rightarrow> if c = 45 then - int (read_nat base ds) else int (read_nat base cs))"

lemma char_value_digit: "d < 16 \<Longrightarrow> char_value (digit_char d) = d"
  by (simp add: char_value_def digit_char_def unat_of_nat)

lemma digit_not_minus: "d < 16 \<Longrightarrow> digit_char d \<noteq> 45"
  by (auto simp: digit_char_def word_unat_eq_iff unat_of_nat)

lemma digit_step:
  assumes "2 \<le> base" "base \<le> 16"
  shows "digit_loop (Suc n) base x = (if x < base then Inr [x]
    else bnd (digit_loop n base (x div base)) (\<lambda>ds. Inr (x mod base # ds)))"
proof -
  have "x mod base < base" using assms by simp
  then have "\<not> 16 < x mod base" using assms(2) by linarith
  then show ?thesis using assms by (auto simp: div_eq_0_iff)
qed

lemma digit_fault: "digit_loop n base x = Inl e \<Longrightarrow> e = Fault"
proof (induction n arbitrary: x)
  case (Suc n)
  then show ?case by (cases "digit_loop n base (x div base)") (auto split: if_splits)
qed simp

lemma digits_less: "2 \<le> base \<Longrightarrow> base \<le> 16 \<Longrightarrow> digit_loop n base x = Inr ds \<Longrightarrow> d \<in> set ds \<Longrightarrow> d < base"
proof (induction n arbitrary: x ds)
  case (Suc n)
  then show ?case
    by (cases "digit_loop n base (x div base)") (auto simp: digit_step simp del: digit_loop.simps split: if_splits)
qed simp

lemma read_digits: "2 \<le> base \<Longrightarrow> base \<le> 16 \<Longrightarrow> digit_loop n base x = Inr ds \<Longrightarrow> read_nat base (map digit_char (rev ds)) = x"
proof (induction n arbitrary: x ds)
  case (Suc n)
  show ?case
  proof (cases "x < base")
    case True
    then show ?thesis using Suc.prems by (auto simp: digit_step read_nat_def char_value_digit simp del: digit_loop.simps)
  next
    case False
    have "x mod base < 16" using mod_less_divisor[of base x] Suc.prems(1,2) by linarith
    then show ?thesis using Suc False
      by (cases "digit_loop n base (x div base)")
        (auto simp: digit_step read_nat_def char_value_digit simp del: digit_loop.simps)
  qed
qed simp

text \<open>There are at most \<open>k\<close> digits exactly for the numbers below \<open>base ^ k\<close>, and they are found if there is room.\<close>

lemma digits_length:
  assumes "2 \<le> base" "base \<le> 16"
  shows "digit_loop n base x = Inr ds \<Longrightarrow> ds \<noteq> [] \<and> length ds \<le> n \<and> (length ds \<le> Suc k \<longleftrightarrow> x < base ^ Suc k)"
proof (induction n arbitrary: x ds k)
  case (Suc n)
  show ?case
  proof (cases "x < base")
    case True
    moreover have "base \<le> base ^ Suc k" using power_increasing[of 1 "Suc k" base] assms by simp
    ultimately show ?thesis using Suc.prems assms by (auto simp: digit_step simp del: digit_loop.simps power_Suc)
  next
    case False
    then obtain es where e: "digit_loop n base (x div base) = Inr es" "ds = x mod base # es"
      using Suc.prems by (cases "digit_loop n base (x div base)") (auto simp: digit_step[OF assms] simp del: digit_loop.simps)
    show ?thesis
    proof (cases k)
      case 0
      then show ?thesis using Suc.IH[OF e(1), of 0] e(2) False by simp
    next
      case (Suc m)
      have "x div base < base ^ Suc m \<longleftrightarrow> x < base ^ Suc (Suc m)"
        using assms(1) by (simp add: div_less_iff_less_mult mult.commute del: power_Suc) (simp add: power_Suc[of base "Suc m"] mult.commute del: power_Suc)
      then show ?thesis using Suc.IH[OF e(1), of m] e(2) Suc by simp
    qed
  qed
qed simp

lemma digits_found:
  assumes "2 \<le> base" "base \<le> 16"
  shows "x < base ^ Suc n \<Longrightarrow> \<exists>ds. digit_loop (Suc n) base x = Inr ds"
proof (induction n arbitrary: x)
  case (Suc n)
  have "x div base < base ^ Suc n" using Suc.prems assms(1) by (simp add: div_less_iff_less_mult mult.commute mult.left_commute)
  from Suc.IH[OF this] show ?case using digit_step[OF assms, of "Suc n" x] by (auto simp del: digit_loop.simps)
qed (simp add: digit_step[OF assms] del: digit_loop.simps)

lemma read_int_digits:
  assumes "2 \<le> base" "base \<le> 16" and ds: "digit_loop n base x = Inr ds"
  shows "read_int base (map digit_char (rev ds)) = int x"
proof -
  have "ds \<noteq> []" using digits_length[OF assms] by blast
  then obtain d es where r: "rev ds = d # es" by (cases "rev ds") auto
  then have "d \<in> set ds" by (metis list.set_intros(1) set_rev)
  then have "d < 16" using digits_less[OF assms, of d] assms(2) by simp
  then show ?thesis using read_digits[OF assms] r digit_not_minus by (simp add: read_int_def)
qed

lemma unat_minus_sint:
  fixes x :: u32
  assumes "sint x < 0"
  shows "int (unat (- x)) = - sint x"
proof -
  have "- x = word_of_int (- sint x)" by simp
  then have "uint (- x) = (- sint x) mod 2 ^ 32" by (simp only: uint_word_of_int) simp
  moreover have "- sint x < 2 ^ 32" "0 \<le> - sint x" using assms sint_greater_eq[of x] by simp_all
  ultimately show ?thesis by simp
qed

lemma sint_nonneg: "0 \<le> sint x \<Longrightarrow> sint x = uint x" for x :: u32
  using uint_word_of_int[of "sint x", where 'a = 32] sint_less[of x] by simp

text \<open>The magnitude that is printed, and the number of digits there is room for beside the sign.\<close>

definition print_room :: "nat \<Rightarrow> bool \<Rightarrow> u32 \<Rightarrow> bool" where
  "print_room base sign x \<longleftrightarrow> (if sign \<and> sint x < 0 then sint x \<noteq> - (2 ^ 31) \<and> - sint x < int base ^ 15
     else uint x < int base ^ 16)"

text \<open>In the bases from 5 on, so in those of \<open>printf\<close>, there is always room.\<close>

lemma print_room_usual:
  fixes x :: u32
  assumes "5 \<le> base"
  shows "print_room base sign x \<longleftrightarrow> \<not> (sign \<and> sint x = - (2 ^ 31))"
proof -
  have p: "(5 :: int) ^ 15 \<le> int base ^ 15" "(5 :: int) ^ 16 \<le> int base ^ 16" using assms by (intro power_mono; simp)+
  have "- (2 ^ 31) \<le> sint x" "uint x < 2 ^ 32" using sint_greater_eq[of x] unsigned_less[of x, where 'a = int] by simp_all
  then have "- sint x < int base ^ 15" "uint x < int base ^ 16" using p by simp_all
  then show ?thesis by (auto simp: print_room_def)
qed

lemma printint_reads_back:
  assumes b: "2 \<le> base" "base \<le> 16"
  shows "if print_room base sign x
    then \<exists>cs. printint_chars x base sign = Inr cs \<and> length cs \<le> 16 \<and> read_int base cs = (if sign then sint x else uint x)
    else printint_chars x base sign = Inl Fault"
proof (cases "sign \<and> sint x < 0")
  case True
  have m: "int (unat (- x)) = - sint x" using unat_minus_sint True by blast
  have l: "- sint x < int base ^ 15 \<longleftrightarrow> unat (- x) < base ^ Suc 14" by (simp only: m[symmetric] of_nat_power[symmetric] of_nat_less_iff) simp
  show ?thesis
  proof (cases "digit_loop 16 base (unat (- x))")
    case (Inl e)
    then have "\<not> unat (- x) < base ^ Suc 15" "e = Fault" using digits_found[OF b, of "unat (- x)" 15] digit_fault[of 16 base "unat (- x)" e] by auto
    moreover have "base ^ Suc 14 \<le> base ^ Suc 15" using b by (intro power_increasing) simp_all
    ultimately show ?thesis using True Inl l by (auto simp: printint_chars_def print_room_def Let_def)
  next
    case (Inr ds)
    note n = digits_length[OF b Inr, of 14]
    show ?thesis
    proof (cases "sint x = - (2 ^ 31) \<or> \<not> unat (- x) < base ^ Suc 14")
      case F: True
      then show ?thesis using True Inr l n by (auto simp: printint_chars_def print_room_def Let_def)
    next
      case F: False
      have "read_int base (rev (map digit_char ds @ [45])) = sint x"
        using read_digits[OF b Inr] m by (simp add: read_int_def rev_map del: of_nat_unat)
      then show ?thesis using F True Inr l n by (simp add: printint_chars_def print_room_def Let_def)
    qed
  qed
next
  case False
  have v: "(if sign then sint x else uint x) = int (unat x)" using False sint_nonneg[of x] by auto
  have l: "uint x < int base ^ 16 \<longleftrightarrow> unat x < base ^ Suc 15"
    by (simp only: uint_nat of_nat_power[symmetric] of_nat_less_iff) simp
  show ?thesis
  proof (cases "digit_loop 16 base (unat x)")
    case (Inl e)
    then have "\<not> unat x < base ^ Suc 15" "e = Fault" using digits_found[OF b, of "unat x" 15] digit_fault[of 16 base "unat x" e] by auto
    then show ?thesis using False Inl l by (auto simp: printint_chars_def print_room_def Let_def)
  next
    case (Inr ds)
    note n = digits_length[OF b Inr, of 15]
    then show ?thesis using False Inr l read_int_digits[OF b Inr] v
      by (auto simp: printint_chars_def print_room_def Let_def rev_map)
  qed
qed

end
