(* ===== verification/Faults.thy ===== *)
theory Faults
  imports Tables Terminal
begin

text \<open>
  Traps of a user process that end it: the message is printed, the process becomes a zombie, and the
  switch to the scheduler is made without the lock of the process, which stops the kernel.
\<close>

section \<open>Printing\<close>

lemma stale_io_update [simp]: "(stale_origin s)\<lparr>uart_tx := x\<rparr> = stale_origin (s\<lparr>uart_tx := x\<rparr>)"
  by (simp add: stale_origin_def cpu_defs)

lemma uart_tx_idle: "s\<lparr>uart_tx := uart_tx s\<rparr> = s"
  by simp

lemma putc_entered:
  assumes "cpu_ok s" and "\<not> panicked s"
  shows "\<exists>x. uart_putc_sync c (entered l s) = Inr (entered l (s\<lparr>uart_tx := x\<rparr>))"
  using assms by (simp add: uart_putc_eq) blast

lemma put_all_entered: "cpu_ok s \<Longrightarrow> \<not> panicked s \<Longrightarrow> \<exists>x. put_all cs (entered l s) = Inr (entered l (s\<lparr>uart_tx := x\<rparr>))"
proof (induction cs arbitrary: s)
  case Nil
  then show ?case by (intro exI[of _ "uart_tx s"]) (simp add: put_all_def)
next
  case (Cons c cs)
  from putc_entered[OF Cons.prems] obtain x where x: "uart_putc_sync (ucast c) (entered l s) = Inr (entered l (s\<lparr>uart_tx := x\<rparr>))" by blast
  from Cons.IH[of "s\<lparr>uart_tx := x\<rparr>"] Cons.prems show ?case by (simp add: put_all_def x)
qed

text \<open>A format whose conversions have arguments of their kind, and no \<open>%d\<close> the most negative number.\<close>

fun fmt_ok :: "string \<Rightarrow> parg list \<Rightarrow> bool" where
  "fmt_ok [] args = True"
| "fmt_ok (c # cs) args =
     (if c \<noteq> CHR ''%'' then fmt_ok cs args
      else
        case cs of
          [] \<Rightarrow> True
        | d # ds \<Rightarrow>
            if d = CHR ''d'' then (case args of PInt x # as \<Rightarrow> sint x \<noteq> - (2 ^ 31) \<and> fmt_ok ds as | _ \<Rightarrow> False)
            else if d = CHR ''x'' then (case args of PInt x # as \<Rightarrow> fmt_ok ds as | _ \<Rightarrow> False)
            else if d = CHR ''p'' then (case args of PPtr x # as \<Rightarrow> fmt_ok ds as | _ \<Rightarrow> False)
            else False)"

lemma printint_entered:
  assumes "cpu_ok s" and "\<not> panicked s" and "base = 10 \<or> base = 16" and "sign \<Longrightarrow> sint n \<noteq> - (2 ^ 31)"
  shows "\<exists>x. printint n base sign (entered l s) = Inr (entered l (s\<lparr>uart_tx := x\<rparr>))"
proof -
  have "2 \<le> base" "base \<le> 16" "print_room base sign n" using assms(3,4) print_room_usual[of base sign n] by auto
  then obtain cs where "printint_chars n base sign = Inr cs" using printint_reads_back[of base sign n] by auto
  then show ?thesis using put_all_entered[OF assms(1,2)] by (simp add: printint_def)
qed

lemma print_fmt_entered:
  "fmt_ok fmt args \<Longrightarrow> cpu_ok s \<Longrightarrow> \<not> panicked s \<Longrightarrow> \<exists>x. print_fmt fmt args (entered l s) = Inr (entered l (s\<lparr>uart_tx := x\<rparr>))"
proof (induction fmt args arbitrary: s rule: fmt_ok.induct)
  case (1 args)
  then show ?case by (intro exI[of _ "uart_tx s"]) simp
next
  case (2 c cs args)
  show ?case
  proof (cases "c = CHR ''%''")
    case False
    from putc_entered[OF "2.prems"(2,3)] obtain x where x: "uart_putc_sync (of_char c) (entered l s) = Inr (entered l (s\<lparr>uart_tx := x\<rparr>))" by blast
    have "fmt_ok cs args" using "2.prems"(1) False by simp
    from "2.IH"(1)[OF False this, of "s\<lparr>uart_tx := x\<rparr>"] "2.prems"(2,3) False show ?thesis by (simp add: x)
  next
    case p: True
    show ?thesis
    proof (cases cs)
      case Nil
      then show ?thesis using p by (intro exI[of _ "uart_tx s"]) simp
    next
      case (Cons d ds)
      have go: "\<exists>y. bnd (f (entered l s)) (print_fmt ds as) = Inr (entered l (s\<lparr>uart_tx := y\<rparr>))"
        if f: "\<exists>x. f (entered l s) = Inr (entered l (s\<lparr>uart_tx := x\<rparr>))"
          and ih: "\<And>t :: 'a io_state_scheme. cpu_ok t \<Longrightarrow> \<not> panicked t \<Longrightarrow>
            \<exists>x. print_fmt ds as (entered l t) = Inr (entered l (t\<lparr>uart_tx := x\<rparr>))" for f as
      proof -
        from f obtain x where x: "f (entered l s) = Inr (entered l (s\<lparr>uart_tx := x\<rparr>))" by blast
        from ih[of "s\<lparr>uart_tx := x\<rparr>"] "2.prems"(2,3) show ?thesis by (simp add: x)
      qed
      from "2.prems"(1) p Cons consider
          (d) x as where "d = CHR ''d''" "args = PInt x # as" "sint x \<noteq> - (2 ^ 31)" "fmt_ok ds as"
        | (x) x as where "d = CHR ''x''" "args = PInt x # as" "fmt_ok ds as"
        | (p) x as where "d = CHR ''p''" "args = PPtr x # as" "fmt_ok ds as"
        by (auto split: if_splits list.splits parg.splits)
      then show ?thesis
      proof cases
        case d
        have "\<exists>y. bnd (printint x 10 True (entered l s)) (print_fmt ds as) = Inr (entered l (s\<lparr>uart_tx := y\<rparr>))"
          by (rule go[where f = "printint x 10 True", OF printint_entered[OF "2.prems"(2,3)]]) (use "2.IH" p Cons d in auto)
        then show ?thesis using p Cons d by simp
      next
        case x
        have "\<exists>y. bnd (printint x 16 False (entered l s)) (print_fmt ds as) = Inr (entered l (s\<lparr>uart_tx := y\<rparr>))"
          by (rule go[where f = "printint x 16 False", OF printint_entered[OF "2.prems"(2,3)]]) (use "2.IH" p Cons x in auto)
        then show ?thesis using p Cons x by simp
      next
        case q: p
        have "\<exists>y. printptr x (entered l s) = Inr (entered l (s\<lparr>uart_tx := y\<rparr>))" 
          unfolding printptr_def by (rule put_all_entered[OF "2.prems"(2,3)])
        from go[where f = "printptr x", OF this] "2.IH" p Cons q
        have "\<exists>y. bnd (printptr x (entered l s)) (print_fmt ds as) = Inr (entered l (s\<lparr>uart_tx := y\<rparr>))" by auto
        then show ?thesis using p Cons q by simp
      qed
    qed
  qed
qed

lemma kprintf_ok:
  assumes "fmt_ok fmt args" and "cpu_ok s" and "\<not> panicked s" and "free_lock LkPrint s"
  shows "\<exists>x. kprintf fmt args s = Inr (stale_origin (s\<lparr>uart_tx := x\<rparr>))"
proof -
  have "\<not> spinlock_holding LkPrint s" using assms(4) by (simp add: free_lock_def spinlock_holding_def)
  then show ?thesis using print_fmt_entered[OF assms(1-3), of LkPrint] assms(2,4) by (auto simp: kprintf_def)
qed

text \<open>
  A process that is killed on a fault is switched away from without its lock: the scheduler, which
  releases that lock, stops the kernel.
\<close>

lemma killed_stops:
  assumes "free_lock (LkProc p) s"
  shows "sched_back p (kill_proc p s) = Inl (Panic ''spinlock_release: not holding'')"
proof -
  have "\<not> spinlock_holding (LkProc p) (set_mycpu c (kill_proc p s))" for c
    using assms by (simp add: spinlock_holding_def free_lock_def set_mycpu_def kill_proc_def upd_proc_def)
  then show ?thesis by (simp add: sched_back_def release_not_holding)
qed

text \<open>The exceptions that end a process: all but a system call, and a page fault below or above the room for the stack.\<close>

definition ends_process :: "u32 \<Rightarrow> u64 \<Rightarrow> bool" where
  "ends_process c addr \<longleftrightarrow> c \<noteq> 8 \<and> (c \<noteq> 13 \<and> c \<noteq> 15 \<or> addr < MMAP_END \<or> TRAPFRAME \<le> addr)"

lemma pid_printable: "0 \<le> n \<Longrightarrow> n < 2 ^ 31 \<Longrightarrow> sint (word_of_int n :: u32) = n"
  by (simp add: signed_of_int signed_take_bit_int_eq_self)

lemma small_sint:
  fixes x :: u32
  assumes "uint x < 2 ^ 31"
  shows "sint x = uint x"
proof -
  have "- (2 ^ 31) \<le> uint x" by (rule order_trans[of _ 0]) simp_all
  then show ?thesis using assms signed_take_bit_int_eq_self[of 31 "uint x"] by (simp add: sint_uint)
qed

lemma cause_printable: "sint (cause_type w) \<noteq> - (2 ^ 31)"
proof -
  have "uint (w AND 0xf) \<le> 15" using word_and_le1[of w "0xf"] by (simp add: word_le_def)
  then have "uint (cause_type w) \<le> 15" by (simp add: cause_type_def unsigned_ucast_eq take_bit_int_eq_self)
  then have "sint (cause_type w) = uint (cause_type w)" by (intro small_sint) simp
  then have "0 \<le> sint (cause_type w)" by simp
  then show ?thesis by auto
qed

lemma exception_kills:
  fixes s :: "'a machine_scheme"
  assumes s: "cpu_ok s" "\<not> panicked s" "free_lock LkPrint s" and pid: "0 \<le> pid (proc_pool s p)" "pid (proc_pool s p) < 2 ^ 31"
    and c: "ends_process (cause_type w) (r_stval s)"
  shows "\<exists>x. user_exception p (cause_type w) s = Inr (False, kill_proc p (stale_origin (s\<lparr>uart_tx := x\<rparr>)))"
proof -
  note n = pid_printable[OF pid] cause_printable[of w]
  show ?thesis
  proof (cases "cause_type w = 13 \<or> cause_type w = 15")
    case True
    let ?m = "''Stack overflow or invalid access: pid=%d, addr=%p\<newline>''"
    have "uvm_ustack_grow tab k (r_stval s) s = Inr (-1, s)" for tab k
      using c True by (auto simp: ends_process_def uvm_ustack_grow_def not_le)
    moreover have "fmt_ok ?m [PInt (word_of_int (pid (proc_pool s p))), PPtr (r_stval s)]" using n pid(1) by simp
    from kprintf_ok[OF this s] obtain x where
      "kprintf ?m [PInt (word_of_int (pid (proc_pool s p))), PPtr (r_stval s)] s = Inr (stale_origin (s\<lparr>uart_tx := x\<rparr>))" by blast
    moreover have "cause_type w \<noteq> 8" using True by auto
    ultimately show ?thesis using True by (auto simp: user_exception_def Let_def)
  next
    case False
    let ?m = "''Unhandled user exception: id=%d, pid=%d\<newline>''" and ?k = "''sepc=%p stval=%p\<newline>''"
    have "fmt_ok ?m [PInt (cause_type w), PInt (word_of_int (pid (proc_pool s p)))]" using n pid(1) by simp
    from kprintf_ok[OF this s] obtain x where
      x: "kprintf ?m [PInt (cause_type w), PInt (word_of_int (pid (proc_pool s p)))] s = Inr (stale_origin (s\<lparr>uart_tx := x\<rparr>))" by blast
    let ?t = "stale_origin (s\<lparr>uart_tx := x\<rparr>)"
    have "fmt_ok ?k [PPtr a, PPtr b]" for a b by simp
    from kprintf_ok[OF this, of ?t] s obtain y where
      "kprintf ?k [PPtr (tf_get p TF_epc ?t), PPtr (r_stval ?t)] ?t = Inr (stale_origin (?t\<lparr>uart_tx := y\<rparr>))" by auto
    then have "kprintf ?k [PPtr (tf_get p TF_epc ?t), PPtr (r_stval ?t)] ?t = Inr (stale_origin (s\<lparr>uart_tx := y\<rparr>))" by simp
    then show ?thesis using False c x by (auto simp: user_exception_def ends_process_def)
  qed
qed

lemma handler_kills:
  fixes s :: "'a machine_scheme"
  assumes p: "myproc s = Some p" and s: "cpu_ok s" "\<not> panicked s" "free_lock LkPrint s"
    and pid: "0 \<le> pid (proc_pool s p)" "pid (proc_pool s p) < 2 ^ 31"
    and mode: "r_sstatus s AND SSTATUS_SPP = 0" "\<not> is_interrupt (r_scause s)"
    and c: "ends_process (cause_type (r_scause s)) (r_stval s)"
  shows "\<exists>t. trap_user_handler s = Inr (To_sched, kill_proc p t) \<and> locks t = locks s \<and> proc_pool t = proc_pool s"
proof -
  let ?a = "w_stvec (sym s ''kernel_vector'') s"
  let ?b = "tf_set p TF_epc (r_sepc ?a) ?a"
  have a: "myproc ?a = Some p" "r_sstatus ?a = r_sstatus s" using p by (simp_all add: csr_defs myproc_def intr_get_def mycpu_def)
  have b: "cpu_ok ?b" "\<not> panicked ?b" "free_lock LkPrint ?b" "proc_pool ?b = proc_pool s" "locks ?b = locks s"
    "r_stval ?b = r_stval s" "r_scause ?b = r_scause s"
    using s by (simp_all add: csr_defs tf_set_def cpu_ok_def free_lock_def mycpu_def intr_get_def)
  from exception_kills[OF b(1-3), of p "r_scause s"] pid c obtain x where
    x: "user_exception p (cause_type (r_scause s)) ?b = Inr (False, kill_proc p (stale_origin (?b\<lparr>uart_tx := x\<rparr>)))"
    by (auto simp: b)
  have "trap_user_handler s = Inr (To_sched, kill_proc p (stale_origin (?b\<lparr>uart_tx := x\<rparr>)))"
    using mode a x unfolding trap_user_handler_def Let_def with_myproc_def by (simp add: b(7))
  then show ?thesis by (intro exI[of _ "stale_origin (?b\<lparr>uart_tx := x\<rparr>)"]) (simp add: b(4,5))
qed

end
