(* ===== verification/Samples.thy ===== *)
theory Samples
  imports Boot Ucopy Encoding
begin

text \<open>
  A concrete address space: after the boot of the memory manager, one user page is mapped at 4096,
  readable and writable for the user, and another page of the user pool is left as a buffer.
\<close>

abbreviation (input) RWU :: u32 where "RWU \<equiv> 22"

lemma leaf_RWU: "leaf p RWU AND 2 \<noteq> 0" "leaf p RWU AND 4 \<noteq> 0" "leaf p RWU AND 16 \<noteq> 0"
proof -
  have b: "bit (leaf p RWU) 1" "bit (leaf p RWU) 2" "bit (leaf p RWU) 4" by (simp_all add: leaf_def bit_simps)
  have "leaf p RWU AND 2 ^ 1 \<noteq> 0" "leaf p RWU AND 2 ^ 2 \<noteq> 0" "leaf p RWU AND 2 ^ 4 \<noteq> 0"
    unfolding and_exp_eq_0_iff_not_bit using b by simp_all
  then show "leaf p RWU AND 2 \<noteq> 0" "leaf p RWU AND 4 \<noteq> 0" "leaf p RWU AND 16 \<noteq> 0" by simp_all
qed

lemma small_eq_1: "unat (x :: u64) = 1 \<longleftrightarrow> x = 1"
  by (metis unat_1 word_unat_eq_iff)

definition one_page :: "vm_state \<Rightarrow> (bool \<Rightarrow> u64 list) \<Rightarrow> u64 \<Rightarrow> u64 \<Rightarrow> u64 \<Rightarrow> bool" where
  "one_page s F r p q \<longleftrightarrow> vm_ok s F r \<and> p \<in> set (F False) \<and> q \<in> set (F False) \<and> pg p \<noteq> pg q \<and> page_aligned p \<and> page_aligned q \<and>
     (\<forall>va < VA_MAX. vlookup (mem s) r va = (if pg va = 1 then Some (leaf p RWU) else None))"

lemma one_page_exists: "\<exists>s F r p q. one_page s F r p q \<and> length (F True) \<ge> 1000"
proof -
  obtain t :: vm_state and F r where t: "vm_ok t F r" "length (F True) = 1023" "length (F False) = 31488"
    "\<forall>va. vlookup (mem t) r va = None" using reset_vm by blast
  obtain p q ps where F: "F False = p # q # ps" using t(3) by (cases "F False"; cases "tl (F False)") auto
  note pm = pmem_okD[OF vm_okD(1)[OF t(1)]]
  have al: "page_aligned p" "page_aligned q" using pm(4)[of _ False] F by simp_all
  have l: "last_off 4096 4096 = 0" by (simp add: last_off_def)
  have "page_aligned 4096" by (simp add: page_aligned_def)
  from vm_mappages_ok[OF t(1) this al(1), of 4096 RWU] obtain s F' where
    s: "evolved t F r s F' 2" "\<forall>va < VA_MAX. vlookup (mem s) r va = mapped_from 4096 0 p RWU (vlookup (mem t) r) va"
    using t(2) by (auto simp: l)
  have e: "vm_ok s F' r" "F' False = F False" "length (F' True) \<ge> 1000"
    using s(1) t(2) by (auto simp: evolved_def)
  have "pg p \<noteq> pg q" using pg_eq_aligned[OF al] pm(6)[of False] F by auto
  moreover have "mapped_from 4096 0 p RWU (vlookup (mem t) r) va = (if pg va = 1 then Some (leaf p RWU) else None)" for va
  proof -
    have "unat (pg va) = 1 \<longleftrightarrow> pg va = 1" "pg 4096 = 1" using small_eq_1[of "pg va"] by (simp_all add: pg_def)
    then show ?thesis using t(4) by (auto simp: mapped_from_def)
  qed
  ultimately have "one_page s F' r p q" using e s(2) al F by (simp add: one_page_def)
  then show ?thesis using e(3) by blast
qed

lemma one_pageD:
  assumes "one_page s F r p q"
  shows "pt_ok (mem s) r" "r \<noteq> 0" "pg p \<noteq> pg q"
    "need \<in> {2, 4} \<Longrightarrow> i < 4096 \<Longrightarrow> upage need (mem s) r (4096 + of_nat i) = Some p"
    "need \<in> {2, 4} \<Longrightarrow> upage need (mem s) r 0x2000 = None"
    "x \<in> {p, q} \<Longrightarrow> i < 4096 \<Longrightarrow> pg (x + of_nat i) = pg x"
    "x \<in> {p, q} \<Longrightarrow> t \<in> tables (mem s) r \<Longrightarrow> pg x \<noteq> pg t"
proof -
  have ok: "vm_ok s F r" and al: "page_aligned p" "page_aligned q" "p \<in> set (F False)" "q \<in> set (F False)"
    and m: "va < VA_MAX \<Longrightarrow> vlookup (mem s) r va = (if pg va = 1 then Some (leaf p RWU) else None)" for va
    using assms by (auto simp: one_page_def)
  show "pt_ok (mem s) r" "r \<noteq> 0" using vm_okD[OF ok] by simp_all
  show "pg p \<noteq> pg q" using assms by (simp add: one_page_def)
  have pa: "PTE_TO_PA (leaf p RWU) = p" by (rule leaf_pa[OF al(1)]) simp
  show "upage need (mem s) r (4096 + of_nat i) = Some p" if n: "need \<in> {2, 4}" and i: "i < 4096"
  proof -
    have u: "unat (4096 + of_nat i :: u64) = 4096 + i" using i by (simp add: unat_word_ariths)
    then have "4096 + of_nat i < (VA_MAX :: u64)" "pg (4096 + of_nat i) = 1"
      using i by (simp_all add: word_less_nat_alt pg_def word_unat_eq_iff unat_div)
    then show ?thesis using m[of "4096 + of_nat i"] n leaf_RWU[of p] pa by (auto simp: upage_def user_pte_ok_def)
  qed
  show "upage need (mem s) r 0x2000 = None" if "need \<in> {2, 4}"
    using m[of "0x2000"] by (simp add: upage_def pg_def)
  show "pg (x + of_nat i) = pg x" if "x \<in> {p, q}" "i < 4096"
    using that al pg_page_add[of x "of_nat i"] by auto
  show "pg x \<noteq> pg t" if "x \<in> {p, q}" "t \<in> tables (mem s) r"
    using table_not_free_page[OF ok that(2), of x False] that(1) al by auto
qed

text \<open>The eight user addresses from 4100 on, and the first eight bytes of the buffer.\<close>

lemma one_page_window:
  assumes s: "one_page s F r p q"
  shows "need \<in> {2, 4} \<Longrightarrow> i < 8 \<Longrightarrow> upage need (mem s) r (4100 + of_nat i) = Some p"
    and "i < 8 \<Longrightarrow> need \<in> {2, 4} \<Longrightarrow> uaddr need (mem s) r (4100 + of_nat i) = p + (4 + of_nat i)"
    and "in_buf q 8 y \<Longrightarrow> t \<in> tables (mem s) r \<Longrightarrow> pg y \<noteq> pg t"
    and "i < 8 \<Longrightarrow> t \<in> tables (mem s) r \<Longrightarrow> pg (p + (4 + of_nat i)) \<noteq> pg t"
    and "i < 8 \<Longrightarrow> \<not> in_buf q 8 (p + (4 + of_nat i))"
    and "i < 8 \<Longrightarrow> j < i \<Longrightarrow> p + (4 + of_nat i) \<noteq> p + (4 + of_nat j)"
proof -
  note d = one_pageD[OF s]
  have x: "\<exists>i < 8. y = q + of_nat i" if "in_buf q 8 y" for y
    using that by (intro exI[of _ "unat (y - q)"]) (simp add: in_buf_def)
  have pgp: "pg (p + (4 + of_nat i)) = pg p" if "i < 8" for i :: nat using d(6)[of p "4 + i"] that by simp
  show u: "upage need (mem s) r (4100 + of_nat i) = Some p" if "need \<in> {2, 4}" "i < 8" for need i
    using d(4)[of need "4 + i"] that by simp
  show "uaddr need (mem s) r (4100 + of_nat i) = p + (4 + of_nat i)" if "i < 8" "need \<in> {2, 4}"
  proof -
    have c: "4 + i < 2 ^ 32" using that by simp
    have "(4100 + i) mod 4096 = 4 + i" by (rule mod_nat_eqI) (use that in auto)
    then have "unat ((4100 + of_nat i) mod 4096 :: u64) = 4 + i" using that by (simp add: unat_mod unat_word_ariths)
    then have "(4100 + of_nat i) mod 4096 = (of_nat (4 + i) :: u64)" unfolding small_eq[OF c] .
    then show ?thesis using u[OF that(2,1)] by (simp add: uaddr_def)
  qed
  show "pg y \<noteq> pg t" if "in_buf q 8 y" "t \<in> tables (mem s) r"
    using x[OF that(1)] d(6)[of q] d(7)[of q t] that(2) by auto
  show "pg (p + (4 + of_nat i)) \<noteq> pg t" if "i < 8" "t \<in> tables (mem s) r"
    using pgp[OF that(1)] d(7)[of p t] that(2) by simp
  show "\<not> in_buf q 8 (p + (4 + of_nat i))" if i: "i < 8"
  proof
    assume "in_buf q 8 (p + (4 + of_nat i))"
    then obtain j where "j < 8" "p + (4 + of_nat i) = q + of_nat j" using x by blast
    then show False using pgp[OF i] d(6)[of q j] d(3) by simp
  qed
  show "p + (4 + of_nat i) \<noteq> p + (4 + of_nat j)" if "i < 8" "j < i"
  proof
    assume "p + (4 + of_nat i) = p + (4 + of_nat j)"
    then have "(of_nat i :: u64) = of_nat j" by simp
    then show False using that by (simp add: word_unat_eq_iff)
  qed
qed

end
