(* ===== verification/FileTree.thy ===== *)
theory FileTree
  imports DiskMaps
begin

text \<open>
  The block map of a file as a tree: the thirteen slots of the inode, the entries of the tables in
  the single indirect blocks, and those of the double indirect one. \<open>locate_or_add_block\<close> finds the
  leaf of a logical block, or adds the blocks on the way to it.
\<close>

section \<open>Nodes and leaves\<close>

datatype node = Slot nat | Entry node nat

text \<open>Entry \<open>i\<close> of the table in a block.\<close>

definition tab :: "(nat \<Rightarrow> u8) \<Rightarrow> nat \<Rightarrow> u32" where
  "tab d i = load32 (\<lambda>x. d (unat x)) (of_nat (4 * i))"

text \<open>The block of a node for the disk \<open>D\<close> and the slots \<open>f\<close>; 0: there is none.\<close>

primrec addr :: "(u32 \<Rightarrow> nat \<Rightarrow> u8) \<Rightarrow> (nat \<Rightarrow> u32) \<Rightarrow> node \<Rightarrow> u32" where
  "addr D f (Slot k) = f k"
| "addr D f (Entry p i) = (if addr D f p = 0 then 0 else tab (D (addr D f p)) i)"

primrec depth :: "node \<Rightarrow> nat" where
  "depth (Slot k) = (if k < 10 then 0 else if k < 12 then 1 else if k = 12 then 2 else 0)"
| "depth (Entry p i) = depth p - 1"

text \<open>The nodes of the tree, and those that hold tables.\<close>

primrec vnode :: "node \<Rightarrow> bool" where
  "vnode (Slot k) \<longleftrightarrow> k < 13"
| "vnode (Entry p i) \<longleftrightarrow> vnode p \<and> 0 < depth p \<and> i < 1024"

definition data_node :: "nat \<Rightarrow> node" where
  "data_node n = (if n < 10 then Slot n
     else if n < 2058 then Entry (Slot (10 + (n - 10) div 1024)) ((n - 10) mod 1024)
     else Entry (Entry (Slot 12) ((n - 2058) div 1024)) ((n - 2058) mod 1024))"

abbreviation (input) MAX_BLOCKS :: nat where "MAX_BLOCKS \<equiv> 1050634"

lemma leaf_vnode: "n < MAX_BLOCKS \<Longrightarrow> vnode (data_node n) \<and> depth (data_node n) = 0"
  by (auto simp: data_node_def)

lemma leaf_inj: "n < MAX_BLOCKS \<Longrightarrow> m < MAX_BLOCKS \<Longrightarrow> data_node n = data_node m \<longleftrightarrow> n = m"
proof
  assume h: "data_node n = data_node m"
  have u: "a = b" if "(a - k) div 1024 = (b - k) div 1024" "(a - k) mod 1024 = (b - k) mod 1024" "k \<le> a" "k \<le> b" for a b k :: nat
  proof -
    have "a - k = b - k" using that(1,2) by (metis div_mult_mod_eq)
    then show ?thesis using that(3,4) by simp
  qed
  show "n = m" using h by (auto simp: data_node_def split: if_splits intro: u)
qed simp

text \<open>A table block is \<open>4096\<close> bytes: 1024 entries of four bytes.\<close>

lemma tab_cong: "(\<And>k. k < 4 \<Longrightarrow> d (4 * i + k) = d' (4 * i + k)) \<Longrightarrow> i < 1024 \<Longrightarrow> tab d i = tab d' i"
proof -
  assume h: "\<And>k. k < 4 \<Longrightarrow> d (4 * i + k) = d' (4 * i + k)" and i: "i < 1024"
  have a: "unat (of_nat (4 * i) + of_nat k :: u64) = 4 * i + k" if "k < 4" for k
  proof -
    have "of_nat (4 * i) + of_nat k = (of_nat (4 * i + k) :: u64)" by simp
    then show ?thesis using that i by (simp add: unat_of_nat_small64 del: of_nat_add of_nat_mult)
  qed
  show ?thesis using a[of 0] a[of 1] a[of 2] a[of 3] h[of 0] h[of 1] h[of 2] h[of 3]
    by (simp add: tab_def load32_def del: of_nat_mult)
qed

lemma tab_bytes: "(\<And>k. k < 4 \<Longrightarrow> d (4 * i + k) = byte_of v k) \<Longrightarrow> i < 1024 \<Longrightarrow> tab d i = v"
proof -
  assume h: "\<And>k. k < 4 \<Longrightarrow> d (4 * i + k) = byte_of v k" and i: "i < 1024"
  have a: "unat (of_nat (4 * i) + of_nat k :: u64) = 4 * i + k" if "k < 4" for k
  proof -
    have "of_nat (4 * i) + of_nat k = (of_nat (4 * i + k) :: u64)" by simp
    then show ?thesis using that i by (simp add: unat_of_nat_small64 del: of_nat_add of_nat_mult)
  qed
  show ?thesis unfolding tab_def by (rule load32_bytes) (simp only: a h)
qed

lemma tab_put:
  assumes "i < 1024" and "j < 1024"
  shows "tab (put_bytes (4 * i) 4 (byte_of v) d) j = (if j = i then v else tab d j)"
proof (cases "j = i")
  case True
  then show ?thesis using assms by (simp add: tab_bytes put_bytes_def)
next
  case False
  then show ?thesis using assms by (auto simp: put_bytes_def intro!: tab_cong)
qed

lemma tab_zero: "tab (\<lambda>_. 0) i = 0"
  by (simp add: tab_def load32_def)

section \<open>The data area\<close>

definition in_area :: "super_block \<Rightarrow> u32 \<Rightarrow> bool" where
  "in_area b n \<longleftrightarrow> unat (data_firstblock b) \<le> unat n \<and> unat n < unat (data_firstblock b) + unat (data_blocks b)"

definition used :: "super_block \<Rightarrow> (u32 \<Rightarrow> nat \<Rightarrow> u8) \<Rightarrow> u32 \<Rightarrow> bool" where
  "used b D n \<longleftrightarrow> map_bit D (data_bitmap_firstblock b) (unat n - unat (data_firstblock b))"

definition area_ok :: "super_block \<Rightarrow> bool" where
  "area_ok b \<longleftrightarrow> 0 < unat (data_firstblock b) \<and> unat (data_firstblock b) + unat (data_blocks b) \<le> 0x20000000 \<and>
     unat (data_bitmap_firstblock b) + unat (data_bitmap_blocks b) \<le> unat (data_firstblock b) \<and>
     unat (data_blocks b) \<le> 32768 * unat (data_bitmap_blocks b)"

lemma mk_layout_area: "area_ok mk_layout"
  by (simp add: area_ok_def mk_layout_eq)

lemma area_block:
  assumes "area_ok b" and "j < unat (data_blocks b)"
  shows "unat (data_firstblock b + of_nat j) = unat (data_firstblock b) + j" "in_area b (data_firstblock b + of_nat j)"
    "data_firstblock b + of_nat j < 0x20000000"
proof -
  have s: "unat (data_firstblock b) + j < 0x20000000" using assms by (simp add: area_ok_def)
  then have "unat (of_nat j :: u32) = j" by (simp add: unat_of_nat)
  then show e: "unat (data_firstblock b + of_nat j) = unat (data_firstblock b) + j"
    using s by (simp add: unat_word_ariths)
  show "in_area b (data_firstblock b + of_nat j)" using assms(2) by (simp add: in_area_def e)
  show "data_firstblock b + of_nat j < 0x20000000" using s by (simp add: word_less_nat_alt e)
qed

lemma in_area_num:
  assumes "area_ok b" and "in_area b n"
  shows "n < 0x20000000" "n \<noteq> 0" "n \<noteq> -1"
proof -
  have n: "unat n < 0x20000000" "0 < unat n" using assms by (simp_all add: area_ok_def in_area_def)
  then show "n < 0x20000000" by (simp add: word_less_nat_alt)
  then show "n \<noteq> -1" by auto
  show "n \<noteq> 0" using n(2) by auto
qed

text \<open>The blocks of the bitmap lie before the data area.\<close>

lemma map_block_outside:
  assumes "area_ok b" and "j < unat (data_blocks b)"
  shows "\<not> in_area b (data_bitmap_firstblock b + of_nat (j div 32768))"
proof -
  have k: "j div 32768 < unat (data_bitmap_blocks b)"
    using assms by (simp add: area_ok_def less_mult_imp_div_less mult.commute)
  then have s: "unat (data_bitmap_firstblock b) + j div 32768 < unat (data_firstblock b)" using assms(1) by (simp add: area_ok_def)
  moreover have "unat (data_firstblock b) < 2 ^ 32" using unsigned_less[of "data_firstblock b", where 'a = nat] by simp
  ultimately have "unat (data_bitmap_firstblock b + of_nat (j div 32768)) = unat (data_bitmap_firstblock b) + j div 32768"
    by (simp add: unat_word_ariths unat_of_nat)
  then show ?thesis using s by (simp add: in_area_def)
qed

lemma map_put_area: "area_ok b \<Longrightarrow> j < unat (data_blocks b) \<Longrightarrow> in_area b n \<Longrightarrow>
    map_put v (data_bitmap_firstblock b) j D n = D n"
  using map_block_outside[of b j] by (auto simp: map_put_def Let_def)

lemma map_bit_cong:
  "D' (first + of_nat (j div 32768)) = D (first + of_nat (j div 32768)) \<Longrightarrow> map_bit D' first j = map_bit D first j"
  by (simp add: map_bit_def)

section \<open>Adding a node\<close>

text \<open>
  The blocks of a tree are used blocks of the data area, each at one node; \<open>linked\<close> is the effect of
  adding block \<open>n\<close> at the node \<open>p\<close>: a slot or an entry of a table refers to it, and it is cleared.
\<close>

definition tree_inv :: "super_block \<Rightarrow> (u32 \<Rightarrow> nat \<Rightarrow> u8) \<Rightarrow> (nat \<Rightarrow> u32) \<Rightarrow> bool" where
  "tree_inv b D f \<longleftrightarrow>
     (\<forall>p. vnode p \<longrightarrow> addr D f p \<noteq> 0 \<longrightarrow> in_area b (addr D f p) \<and> used b D (addr D f p)) \<and>
     (\<forall>p q. vnode p \<longrightarrow> vnode q \<longrightarrow> addr D f p = addr D f q \<longrightarrow> addr D f p \<noteq> 0 \<longrightarrow> p = q)"

definition linked :: "super_block \<Rightarrow> (u32 \<Rightarrow> nat \<Rightarrow> u8) \<Rightarrow> (nat \<Rightarrow> u32) \<Rightarrow> node \<Rightarrow> u32 \<Rightarrow>
    (u32 \<Rightarrow> nat \<Rightarrow> u8) \<Rightarrow> (nat \<Rightarrow> u32) \<Rightarrow> bool" where
  "linked b D f p n D' f' \<longleftrightarrow> vnode p \<and> addr D f p = 0 \<and> n \<noteq> 0 \<and> in_area b n \<and> \<not> used b D n \<and> D' n = (\<lambda>_. 0) \<and>
     (\<forall>m. in_area b m \<longrightarrow> used b D' m = (m = n \<or> used b D m)) \<and>
     (case p of
        Slot k \<Rightarrow> f' = f(k := n) \<and> (\<forall>m. in_area b m \<longrightarrow> m \<noteq> n \<longrightarrow> D' m = D m)
      | Entry r i \<Rightarrow> f' = f \<and> addr D f r \<noteq> 0 \<and>
          (\<forall>j<1024. tab (D' (addr D f r)) j = (if j = i then n else tab (D (addr D f r)) j)) \<and>
          (\<forall>m. in_area b m \<longrightarrow> m \<noteq> n \<longrightarrow> m \<noteq> addr D f r \<longrightarrow> D' m = D m))"

lemma tree_invD:
  assumes "tree_inv b D f" and "vnode p" and "addr D f p \<noteq> 0"
  shows "in_area b (addr D f p)" "used b D (addr D f p)" "vnode q \<Longrightarrow> addr D f q = addr D f p \<Longrightarrow> q = p"
  using assms unfolding tree_inv_def by metis+

lemma linked_addr:
  assumes t: "tree_inv b D f" and l: "linked b D f p n D' f'"
  shows "vnode q \<Longrightarrow> addr D' f' q = (if q = p then n else addr D f q)"
proof (induction q)
  case (Slot k)
  then show ?case using l by (cases p) (auto simp: linked_def)
next
  case (Entry r i)
  then have r: "addr D' f' r = (if r = p then n else addr D f r)" "vnode r" "i < 1024" by simp_all
  show ?case
  proof (cases "r = p")
    case True
    then show ?thesis using l r by (auto simp: linked_def tab_zero)
  next
    case False
    show ?thesis
    proof (cases "addr D f r = 0")
      case True
      then show ?thesis using False r l by (auto simp: linked_def)
    next
      case ne: False
      note d = tree_invD[OF t r(2) ne]
      have n: "addr D f r \<noteq> n" using d(2) l by (auto simp: linked_def)
      show ?thesis
      proof (cases "\<exists>r' i'. p = Entry r' i' \<and> addr D f r' = addr D f r")
        case True
        then obtain r' i' where p: "p = Entry r' i'" "addr D f r' = addr D f r" by blast
        have "vnode r'" using l p(1) by (simp add: linked_def)
        then have "r' = r" using d(3) p(2) by simp
        then show ?thesis using p l r False ne by (simp add: linked_def)
      next
        case other: False
        then have "D' (addr D f r) = D (addr D f r)" using l d(1) n by (auto simp: linked_def split: node.splits)
        then show ?thesis using False r ne other by auto
      qed
    qed
  qed
qed

lemma linked_tree:
  assumes t: "tree_inv b D f" and l: "linked b D f p n D' f'"
  shows "tree_inv b D' f'"
proof -
  have n: "addr D f q \<noteq> n" if "vnode q" "addr D f q \<noteq> 0" for q
    using tree_invD(2)[OF t that] l by (auto simp: linked_def)
  have a: "in_area b (addr D' f' q) \<and> used b D' (addr D' f' q)" if q: "vnode q" "addr D' f' q \<noteq> 0" for q
    using q tree_invD(1,2)[OF t q(1)] l unfolding linked_addr[OF t l q(1)] by (auto simp: linked_def split: if_splits)
  have "q = r" if q: "vnode q" "vnode r" "addr D' f' q = addr D' f' r" "addr D' f' q \<noteq> 0" for q r
    using q(3,4) n[OF q(1)] n[OF q(2)] tree_invD(3)[OF t q(2) _ q(1)] l
    unfolding linked_addr[OF t l q(1)] linked_addr[OF t l q(2)] by (auto simp: linked_def split: if_splits)
  with a show ?thesis unfolding tree_inv_def by blast
qed

text \<open>The contents of the other leaves stay, as do the used blocks outside the tree.\<close>

lemma linked_leaf:
  assumes t: "tree_inv b D f" and l: "linked b D f p n D' f'" and q: "vnode q" "depth q = 0" "addr D f q \<noteq> 0"
  shows "D' (addr D f q) = D (addr D f q)"
proof -
  note d = tree_invD[OF t q(1,3)]
  have n: "addr D f q \<noteq> n" using d(2) l by (auto simp: linked_def)
  show ?thesis
  proof (cases p)
    case (Entry r i)
    then have "vnode r" "0 < depth r" using l by (simp_all add: linked_def)
    then have "addr D f r \<noteq> addr D f q" using d(3)[of r] q(2) by auto
    then show ?thesis using l d(1) n Entry by (auto simp: linked_def)
  qed (use l d(1) n in \<open>simp add: linked_def\<close>)
qed

lemma linked_other:
  assumes l: "linked b D f p n D' f'" and m: "in_area b m" "used b D m" "\<And>q. vnode q \<Longrightarrow> addr D f q \<noteq> m"
  shows "D' m = D m"
proof (cases p)
  case (Entry r i)
  then have "vnode r" using l by (simp add: linked_def)
  then show ?thesis using l m(1,2) m(3)[of r] Entry by (auto simp: linked_def)
qed (use l m(1,2) in \<open>auto simp: linked_def\<close>)

end
