(* ===== verification/FileMap.thy ===== *)
theory FileMap
  imports FileTree
begin

text \<open>
  \<open>locate_or_add_block\<close> on the tree of blocks of a file: at every level it finds the leaf or adds the
  missing nodes, the contents of the file stay the same, and so does every used block outside the tree.
\<close>

section \<open>The store with its data area\<close>

definition bmap_blocks :: "super_block \<Rightarrow> u32 set" where
  "bmap_blocks b = {data_bitmap_firstblock b + of_nat k |k. k < unat (data_bitmap_blocks b)}"

text \<open>\<open>store_ok k H s\<close>: the blocks of \<open>H\<close> are held, those in the data area are used, and \<open>k\<close> more can be held.\<close>

definition store_ok :: "nat \<Rightarrow> u32 set \<Rightarrow> 'a fs_state_scheme \<Rightarrow> bool" where
  "store_ok k H s \<longleftrightarrow> data_map_ok H s \<and> area_ok (sb s) \<and> card H + k < N_BUFFER \<and>
     (\<forall>n\<in>H. in_area (sb s) n \<longrightarrow> used (sb s) (disk_block s) n)"

lemma store_okD:
  assumes "store_ok k H s"
  shows "data_map_ok H s" "area_ok (sb s)" "cache_ok H s" "card H + k < N_BUFFER"
    "n \<in> H \<Longrightarrow> in_area (sb s) n \<Longrightarrow> used (sb s) (disk_block s) n"
  using assms by (simp_all add: store_ok_def data_map_ok_def map_ok_def)

lemma bmap_outside:
  assumes "area_ok b" and "n \<in> bmap_blocks b"
  shows "\<not> in_area b n"
proof -
  from assms(2) obtain k where k: "n = data_bitmap_firstblock b + of_nat k" "k < unat (data_bitmap_blocks b)"
    by (auto simp: bmap_blocks_def)
  then have s: "unat (data_bitmap_firstblock b) + k < unat (data_firstblock b)" using assms(1) by (simp add: area_ok_def)
  moreover have "unat (data_firstblock b) < 2 ^ 32" using unsigned_less[of "data_firstblock b", where 'a = nat] by simp
  ultimately have "unat n = unat (data_bitmap_firstblock b) + k" by (simp add: k(1) unat_word_ariths unat_of_nat)
  then show ?thesis using s by (simp add: in_area_def)
qed

text \<open>The inode table lies before the data bitmap, and so outside the bitmap and the data area.\<close>

definition itable_ok :: "super_block \<Rightarrow> bool" where
  "itable_ok b \<longleftrightarrow> unat (inode_firstblock b) + unat (inode_blocks b) \<le> unat (data_bitmap_firstblock b)"

lemma itable_apart:
  assumes a: "area_ok b" and i: "itable_ok b" and n: "unat n < unat (inode_firstblock b) + unat (inode_blocks b)"
  shows "\<not> in_area b n" "n \<notin> bmap_blocks b"
proof -
  have l: "unat n < unat (data_bitmap_firstblock b)" using i n by (simp add: itable_ok_def)
  then show "\<not> in_area b n" using a by (simp add: area_ok_def in_area_def)
  show "n \<notin> bmap_blocks b"
  proof
    assume "n \<in> bmap_blocks b"
    then obtain k where k: "n = data_bitmap_firstblock b + of_nat k" "k < unat (data_bitmap_blocks b)"
      by (auto simp: bmap_blocks_def)
    moreover have "unat (data_firstblock b) < 2 ^ 32" using unsigned_less[of "data_firstblock b", where 'a = nat] by simp
    ultimately have "unat n = unat (data_bitmap_firstblock b) + k"
      using a by (simp add: area_ok_def unat_word_ariths unat_of_nat)
    then show False using l by simp
  qed
qed

lemma itable_block:
  assumes i: "itable_ok b" and n: "unat num < 64 * unat (inode_blocks b)"
  shows "unat (inode_firstblock b + num div 64) < unat (inode_firstblock b) + unat (inode_blocks b)"
proof -
  have "unat num div 64 < unat (inode_blocks b)" using n by (simp add: less_mult_imp_div_less mult.commute)
  moreover have "unat (data_bitmap_firstblock b) < 2 ^ 32"
    using unsigned_less[of "data_bitmap_firstblock b", where 'a = nat] by simp
  ultimately show ?thesis using i by (simp add: itable_ok_def unat_word_ariths unat_div)
qed

lemma used_bmap:
  assumes "area_ok b" and "in_area b n"
  shows "data_bitmap_firstblock b + of_nat ((unat n - unat (data_firstblock b)) div 32768) \<in> bmap_blocks b"
proof -
  have "unat n - unat (data_firstblock b) < 32768 * unat (data_bitmap_blocks b)"
    using assms by (auto simp: area_ok_def in_area_def)
  then have "(unat n - unat (data_firstblock b)) div 32768 < unat (data_bitmap_blocks b)"
    by (simp add: less_mult_imp_div_less mult.commute)
  then show ?thesis by (auto simp: bmap_blocks_def)
qed

lemma used_cong:
  assumes "area_ok b" and "in_area b n" and "\<And>m. m \<in> bmap_blocks b \<Longrightarrow> D' m = D m"
  shows "used b D' n = used b D n"
  using assms(3)[OF used_bmap[OF assms(1,2)]] by (simp add: used_def map_bit_def)

lemma used_put:
  assumes b: "area_ok b" and j: "j < unat (data_blocks b)" and n: "in_area b n"
  shows "used b (map_put True (data_bitmap_firstblock b) j D) n \<longleftrightarrow> n = data_firstblock b + of_nat j \<or> used b D n"
proof -
  let ?i = "unat n - unat (data_firstblock b)" and ?f = "data_bitmap_firstblock b"
  have i: "?i < unat (data_blocks b)" "unat n = unat (data_firstblock b) + ?i" using n by (auto simp: in_area_def)
  have "n = data_firstblock b + of_nat j \<longleftrightarrow> ?i = j"
    using area_block(1)[OF b j] i(2) by (auto simp: word_unat_eq_iff)
  moreover have "?f + of_nat (?i div 32768) = ?f + of_nat (j div 32768) \<longleftrightarrow> ?i div 32768 = j div 32768"
  proof -
    have lt: "x div 32768 < 2 ^ 32" if "x < unat (data_blocks b)" for x
      using that unsigned_less[of "data_blocks b", where 'a = nat] by simp
    have "unat (of_nat (x div 32768) :: u32) = x div 32768" if "x < unat (data_blocks b)" for x
      using lt[OF that] by (simp add: unat_of_nat)
    then have "(of_nat (?i div 32768) :: u32) = of_nat (j div 32768) \<longleftrightarrow> ?i div 32768 = j div 32768"
      using i(1) j by (metis (no_types, lifting))
    then show ?thesis by simp
  qed
  moreover have "?i div 32768 = j div 32768 \<and> ?i mod 32768 = j mod 32768 \<longleftrightarrow> ?i = j" by (metis div_mult_mod_eq)
  ultimately show ?thesis by (auto simp: used_def map_bit_def map_put_def Let_def blk_bit_put)
qed

lemma store_ok_step:
  assumes s: "store_ok k H s" and t: "cache_ok H t" "sb t = sb s"
    and u: "\<And>n. in_area (sb s) n \<Longrightarrow> used (sb s) (disk_block s) n \<Longrightarrow> used (sb s) (disk_block t) n"
  shows "store_ok k H t"
  using s t u by (auto simp: store_ok_def data_map_ok_def intro: map_ok_step)

lemma store_ok_same: "store_ok k H s \<Longrightarrow> cache_ok H t \<Longrightarrow> sb t = sb s \<Longrightarrow> disk_block t = disk_block s \<Longrightarrow> store_ok k H t"
  by (erule store_ok_step) simp_all

lemma card_insert_le_Suc: "card (insert n H) \<le> Suc (card H)"
  by (cases "finite H") (simp_all add: card_insert_if)

lemma store_ok_insert:
  assumes s: "store_ok (Suc k) H s" and n: "in_area (sb s) n" "used (sb s) (disk_block s) n"
    and t: "cache_ok (insert n H) t" "sb t = sb s" "disk_block t = disk_block s"
  shows "store_ok k (insert n H) t"
proof -
  have c: "card (insert n H) + k < N_BUFFER" using store_okD(4)[OF s] card_insert_le_Suc[of n H] by simp
  have "data_bitmap_firstblock (sb s) + of_nat i \<noteq> n" if "i < unat (data_bitmap_blocks (sb s))" for i
    using bmap_outside[OF store_okD(2)[OF s], of "data_bitmap_firstblock (sb s) + of_nat i"] that n(1)
    by (auto simp: bmap_blocks_def)
  then have "data_map_ok (insert n H) t"
    using store_okD(1)[OF s] t c by (auto simp: data_map_ok_def map_ok_def)
  then show ?thesis using s n t c by (simp add: store_ok_def)
qed

lemma store_ok_get: "store_ok k H s \<Longrightarrow> in_area (sb s) n \<Longrightarrow> n \<notin> H \<Longrightarrow> can_get H n s"
  using store_okD(2-4)[of k H s] in_area_num(1)[of "sb s" n] by (simp add: can_get_def)

text \<open>Allocation and clearing of a block in these terms.\<close>

lemma free_blockD:
  assumes "store_ok k H s" and "free_block_of s = Some j"
  shows "j < unat (data_blocks (sb s))" "in_area (sb s) (data_firstblock (sb s) + of_nat j)"
    "\<not> used (sb s) (disk_block s) (data_firstblock (sb s) + of_nat j)" "data_firstblock (sb s) + of_nat j \<notin> H"
proof -
  from clear_from_less[OF assms(2)[unfolded free_block_of_def]] have j: "j < unat (data_blocks (sb s))"
    "\<not> map_bit (disk_block s) (data_bitmap_firstblock (sb s)) j" by simp_all
  note a = area_block[OF store_okD(2)[OF assms(1)] j(1)]
  show "j < unat (data_blocks (sb s))" "in_area (sb s) (data_firstblock (sb s) + of_nat j)" by (rule j a)+
  show nu: "\<not> used (sb s) (disk_block s) (data_firstblock (sb s) + of_nat j)" using j(2) by (simp add: used_def a(1))
  then show "data_firstblock (sb s) + of_nat j \<notin> H" using store_okD(5)[OF assms(1) _ a(2)] by blast
qed

lemma alloc_block_step:
  fixes s :: "'a fs_state_scheme"
  assumes s: "store_ok k H s" and f: "free_block_of s = Some j" and n: "n = data_firstblock (sb s) + of_nat j"
  shows "\<exists>t. bitmap_alloc_block s = Inr (n, t) \<and> store_ok k H t \<and> store_rel s t \<and> keeps s t \<and>
    (\<forall>m. in_area (sb s) m \<longrightarrow> used (sb s) (disk_block t) m = (m = n \<or> used (sb s) (disk_block s) m)) \<and>
    (\<forall>m. m \<notin> bmap_blocks (sb s) \<longrightarrow> disk_block t m = disk_block s m)"
proof -
  note b = store_okD(2)[OF s] and j = free_blockD[OF s f]
  from bitmap_alloc_block_ok[OF store_okD(1)[OF s]] f obtain t where t: "bitmap_alloc_block s = Inr (n, t)"
    "disk_block t = map_put True (data_bitmap_firstblock (sb s)) j (disk_block s)" "data_map_ok H t" "store_rel s t" "keeps s t"
    by (auto simp: alloc_result_def alloc_disk_def n)
  have u: "used (sb s) (disk_block t) m = (m = n \<or> used (sb s) (disk_block s) m)" if "in_area (sb s) m" for m
    unfolding t(2) n by (rule used_put[OF b j(1) that])
  have "data_bitmap_firstblock (sb s) + of_nat (j div 32768) \<in> bmap_blocks (sb s)"
    using used_bmap[OF b j(2)] by (simp add: area_block(1)[OF b j(1)])
  then have "disk_block t m = disk_block s m" if "m \<notin> bmap_blocks (sb s)" for m
    using that by (auto simp: t(2) map_put_def Let_def)
  moreover have "store_ok k H t"
    using t(3) u by (intro store_ok_step[OF s]) (simp_all add: data_map_ok_def map_ok_def store_rel_fs[OF t(4)])
  ultimately show ?thesis using t(1,4,5) u by blast
qed

lemma zero_block_step:
  fixes s :: "'a fs_state_scheme"
  assumes s: "store_ok k H s" and n: "in_area (sb s) n" "n \<notin> H"
  shows "\<exists>t. zero_block n s = Inr t \<and> store_ok k H t \<and> store_rel s t \<and> keeps s t \<and>
    disk_block t = (disk_block s)(n := \<lambda>_. 0)"
proof -
  from zero_block_ok[OF store_ok_get[OF s n]] obtain t where t: "zero_block n s = Inr t"
    "disk_block t = (disk_block s)(n := \<lambda>_. 0)" "cache_ok H t" "store_rel s t" "keeps s t" by blast
  have "used (sb s) (disk_block t) m = used (sb s) (disk_block s) m" if "in_area (sb s) m" for m
    using bmap_outside[OF store_okD(2)[OF s]] n(1) by (intro used_cong[OF store_okD(2)[OF s] that]) (auto simp: t(2))
  then have "store_ok k H t" using t(3) by (intro store_ok_step[OF s]) (simp_all add: store_rel_fs[OF t(4)])
  then show ?thesis using t by blast
qed

section \<open>Growth of a file\<close>

definition fslots :: "'a fs_state_scheme \<Rightarrow> nat \<Rightarrow> nat \<Rightarrow> u32" where
  "fslots s ip = i_index (info s ip)"

definition faddr :: "'a fs_state_scheme \<Rightarrow> nat \<Rightarrow> node \<Rightarrow> u32" where
  "faddr s ip = addr (disk_block s) (fslots s ip)"

text \<open>Logical block \<open>n\<close> of the file; a missing block reads as zeros.\<close>

definition fblock :: "'a fs_state_scheme \<Rightarrow> nat \<Rightarrow> nat \<Rightarrow> nat \<Rightarrow> u8" where
  "fblock s ip n = (if faddr s ip (data_node n) = 0 then (\<lambda>_. 0) else disk_block s (faddr s ip (data_node n)))"

definition ftree :: "nat \<Rightarrow> 'a fs_state_scheme \<Rightarrow> bool" where
  "ftree ip s \<longleftrightarrow> tree_inv (sb s) (disk_block s) (fslots s ip)"

definition mine :: "'a fs_state_scheme \<Rightarrow> nat \<Rightarrow> u32 \<Rightarrow> bool" where
  "mine s ip m \<longleftrightarrow> (\<exists>q. vnode q \<and> faddr s ip q = m)"

text \<open>What the other files see: used blocks stay used, and unless the file owns them they stay as they are.\<close>

definition others_same :: "nat \<Rightarrow> 'a fs_state_scheme \<Rightarrow> 'a fs_state_scheme \<Rightarrow> bool" where
  "others_same ip s t \<longleftrightarrow>
     (\<forall>m. in_area (sb s) m \<longrightarrow> used (sb s) (disk_block s) m \<longrightarrow> used (sb s) (disk_block t) m) \<and>
     (\<forall>m. in_area (sb s) m \<longrightarrow> used (sb s) (disk_block s) m \<longrightarrow> \<not> mine s ip m \<longrightarrow>
        \<not> mine t ip m \<and> disk_block t m = disk_block s m) \<and>
     (\<forall>m. in_area (sb s) m \<longrightarrow> used (sb s) (disk_block t) m \<longrightarrow> used (sb s) (disk_block s) m \<or> mine t ip m) \<and>
     (\<forall>m. \<not> in_area (sb s) m \<longrightarrow> m \<notin> bmap_blocks (sb s) \<longrightarrow> disk_block t m = disk_block s m)"

definition grow :: "nat \<Rightarrow> 'a fs_state_scheme \<Rightarrow> 'a fs_state_scheme \<Rightarrow> bool" where
  "grow ip s t \<longleftrightarrow> fs_rel ip s t \<and> ftree ip t \<and> others_same ip s t \<and>
     the_inode t ip = (the_inode s ip)\<lparr>disk_info := (info s ip)\<lparr>i_index := fslots t ip\<rparr>\<rparr> \<and>
     (\<forall>n < MAX_BLOCKS. fblock t ip n = fblock s ip n) \<and>
     (\<forall>q. vnode q \<longrightarrow> faddr s ip q \<noteq> 0 \<longrightarrow> faddr t ip q = faddr s ip q)"

lemma others_same_trans:
  assumes "others_same ip s t" and "others_same ip t u" and "sb t = sb s" and "\<And>m. mine t ip m \<Longrightarrow> m \<noteq> 0 \<Longrightarrow> mine u ip m"
    and "area_ok (sb s)"
  shows "others_same ip s u"
proof -
  have nz: "in_area (sb s) m \<Longrightarrow> m \<noteq> 0" for m using in_area_num(2)[OF assms(5)] by auto
  show ?thesis using assms(1,2,4) nz unfolding others_same_def assms(3) by (intro conjI) (meson | metis)+
qed

lemma growD:
  assumes "grow ip s t"
  shows "fs_rel ip s t" "ftree ip t" "others_same ip s t" "sb t = sb s"
    "the_inode t ip = (the_inode s ip)\<lparr>disk_info := (info s ip)\<lparr>i_index := fslots t ip\<rparr>\<rparr>"
    "n < MAX_BLOCKS \<Longrightarrow> fblock t ip n = fblock s ip n" "vnode q \<Longrightarrow> faddr s ip q \<noteq> 0 \<Longrightarrow> faddr t ip q = faddr s ip q"
  using assms fs_relD(1)[of ip s t] by (auto simp: grow_def)

lemma grow_mine: "grow ip s t \<Longrightarrow> mine s ip m \<Longrightarrow> m \<noteq> 0 \<Longrightarrow> mine t ip m"
  unfolding mine_def using growD(7) by metis

lemma grow_refl: "ftree ip s \<Longrightarrow> grow ip s s"
  by (simp add: grow_def others_same_def fslots_def)

lemma grow_trans:
  assumes "grow ip s t" and "grow ip t u" and "area_ok (sb s)"
  shows "grow ip s u"
proof -
  note a = growD[OF assms(1)] and b = growD[OF assms(2)]
  have "fs_rel ip s u" using fs_rel_trans a(1) b(1) by blast
  moreover have "others_same ip s u" by (rule others_same_trans[OF a(3) b(3) a(4) grow_mine[OF assms(2)] assms(3)])
  moreover have "the_inode u ip = (the_inode s ip)\<lparr>disk_info := (info s ip)\<lparr>i_index := fslots u ip\<rparr>\<rparr>"
    using a(5) b(5) by simp
  moreover have "faddr u ip q = faddr s ip q" if "vnode q" "faddr s ip q \<noteq> 0" for q
    using a(7)[OF that] b(7)[OF that(1)] that(2) by simp
  ultimately show ?thesis using a(6) b(2,6) by (simp add: grow_def)
qed

lemma store_grow:
  assumes "ftree ip s" and r: "store_rel s t" and "disk_block t = disk_block s"
  shows "grow ip s t"
proof -
  note f = store_rel_fs[OF r]
  have "fslots t = fslots s" "faddr t = faddr s" "fblock t = fblock s" "mine t ip = mine s ip"
    by (simp_all add: fun_eq_iff fslots_def faddr_def fblock_def mine_def f assms(3))
  then show ?thesis using assms(1,3) store_fs_rel[OF r]
    by (simp add: grow_def ftree_def others_same_def f) (simp add: fslots_def)
qed

text \<open>One new node is growth.\<close>

lemma linked_grow:
  fixes s t :: "'a fs_state_scheme"
  assumes tr: "ftree ip s" and l: "linked (sb s) (disk_block s) (fslots s ip) p n (disk_block t) (fslots t ip)"
    and r: "fs_rel ip s t" and i: "the_inode t ip = (the_inode s ip)\<lparr>disk_info := (info s ip)\<lparr>i_index := fslots t ip\<rparr>\<rparr>"
    and o: "\<And>m. \<not> in_area (sb s) m \<Longrightarrow> m \<notin> bmap_blocks (sb s) \<Longrightarrow> disk_block t m = disk_block s m"
  shows "grow ip s t" "faddr t ip p = n"
proof -
  note t = tr[unfolded ftree_def]
  have a: "faddr t ip q = (if q = p then n else faddr s ip q)" if "vnode q" for q
    unfolding faddr_def by (rule linked_addr[OF t l that])
  have p: "vnode p" "faddr s ip p = 0" "n \<noteq> 0" "in_area (sb s) n" "\<not> used (sb s) (disk_block s) n"
    "disk_block t n = (\<lambda>_. 0)" "\<And>m. in_area (sb s) m \<Longrightarrow> used (sb s) (disk_block t) m = (m = n \<or> used (sb s) (disk_block s) m)"
    using l by (simp_all add: linked_def faddr_def)
  show "faddr t ip p = n" using a p(1) by simp
  have mn: "mine t ip n" using a[OF p(1)] p(1) by (auto simp: mine_def)
  have "fblock t ip m = fblock s ip m" if "m < MAX_BLOCKS" for m
  proof -
    note v = leaf_vnode[OF that]
    show ?thesis
    proof (cases "faddr s ip (data_node m) = 0")
      case True
      then show ?thesis using a v p by (simp add: fblock_def)
    next
      case False
      then show ?thesis using a v p linked_leaf[OF t l, of "data_node m"] by (auto simp: fblock_def faddr_def)
    qed
  qed
  moreover have "faddr t ip q = faddr s ip q" if "vnode q" "faddr s ip q \<noteq> 0" for q
    using a[OF that(1)] that(2) p(2) by auto
  moreover have "\<not> mine t ip m \<and> disk_block t m = disk_block s m"
    if m: "in_area (sb s) m" "used (sb s) (disk_block s) m" "\<not> mine s ip m" for m
  proof -
    have "faddr s ip q \<noteq> m" if "vnode q" for q using m(3) that by (auto simp: mine_def)
    moreover from this have "disk_block t m = disk_block s m" by (intro linked_other[OF l m(1,2)]) (simp add: faddr_def)
    ultimately show ?thesis using a p(5) m(2) by (auto simp: mine_def)
  qed
  ultimately show "grow ip s t"
    using r i o p(7) mn linked_tree[OF t l] fs_relD(1)[OF r] by (auto simp: grow_def ftree_def others_same_def)
qed

section \<open>Finding or adding a node\<close>

definition node_result :: "nat \<Rightarrow> node \<Rightarrow> u32 \<Rightarrow> 'a fs_state_scheme \<Rightarrow> bool" where
  "node_result ip p v t \<longleftrightarrow> (if v = -1 then free_block_of t = None \<and> faddr t ip p = 0 else v \<noteq> 0 \<and> v = faddr t ip p)"

lemma table_offset: "table_addr b i s = data (the_buf s b) + of_nat (4 * i)"
  by (simp add: table_addr_def)

lemma table_load:
  assumes "i < 1024"
  shows "load32 (mem s) (table_addr b i s) = tab (buf_page s b) i"
proof -
  have b: "mem s (data (the_buf s b) + of_nat (4 * i) + of_nat k) = buf_page s b (4 * i + k)" if "k < 4" for k
    using that assms by (simp add: buf_page_def add.assoc)
  have a: "unat (of_nat (4 * i) + of_nat k :: u64) = 4 * i + k" if "k < 4" for k
  proof -
    have "of_nat (4 * i) + of_nat k = (of_nat (4 * i + k) :: u64)" by simp
    then show ?thesis using that assms by (simp add: unat_of_nat_small64 del: of_nat_add of_nat_mult)
  qed
  show ?thesis unfolding table_offset using a[of 0] a[of 1] a[of 2] a[of 3] b[of 0] b[of 1] b[of 2] b[of 3]
    by (simp add: tab_def load32_def del: of_nat_mult)
qed

lemma table_store:
  assumes "i < 1024"
  shows "page_changed b s (s\<lparr>mem := store32 (mem s) (table_addr b i s) v\<rparr>) \<and>
    buf_page (s\<lparr>mem := store32 (mem s) (table_addr b i s) v\<rparr>) b = put_bytes (4 * i) 4 (byte_of v) (buf_page s b)"
proof (rule page_write[where f = "put_bytes (4 * i) 4 (byte_of v)"])
  let ?a = "data (the_buf s b)"
  have w: "store32 (mem s) (table_addr b i s) v x =
      (if 4 * i \<le> unat (x - ?a) \<and> unat (x - ?a) < 4 * i + 4 then byte_of v (unat (x - ?a) - 4 * i) else mem s x)" for x
    unfolding table_offset by (rule store32_at) (use assms in simp)
  show "store32 (mem s) (table_addr b i s) v x = mem s x" if "\<not> unat (x - ?a) < 4096" for x
    using that assms by (simp add: w)
  show "store32 (mem s) (table_addr b i s) v (?a + of_nat k) = put_bytes (4 * i) 4 (byte_of v) (buf_page s b) k"
    if "k < 4096" for k
    using that by (simp add: w put_bytes_def buf_page_def unat_of_nat_small64)
  show "put_bytes (4 * i) 4 (byte_of v) (buf_page s b) k = 0" if "\<not> k < 4096" for k
    using that assms by (simp add: put_bytes_def buf_page_def)
qed

lemma alloc_full_step:
  fixes s :: "'a fs_state_scheme"
  assumes s: "store_ok k H s" and tr: "ftree ip s" and f: "free_block_of s = None"
  shows "\<exists>t. bitmap_alloc_block s = Inr (-1, t) \<and> store_ok k H t \<and> keeps s t \<and> grow ip s t \<and> free_block_of t = None \<and>
    faddr t ip = faddr s ip"
proof -
  from bitmap_alloc_block_ok[OF store_okD(1)[OF s]] f obtain t where t: "bitmap_alloc_block s = Inr (-1, t)"
    "disk_block t = disk_block s" "data_map_ok H t" "store_rel s t" "keeps s t"
    by (auto simp: alloc_result_def alloc_disk_def)
  then have "store_ok k H t" by (intro store_ok_same[OF s]) (simp_all add: data_map_ok_def map_ok_def store_rel_fs[OF t(4)])
  moreover have "free_block_of t = None" using f by (simp add: free_block_of_def t(2) store_rel_fs[OF t(4)])
  moreover have "faddr t ip = faddr s ip" by (simp add: fun_eq_iff faddr_def fslots_def store_rel_fs[OF t(4)] t(2))
  ultimately show ?thesis using t store_grow[OF tr t(4,2)] by blast
qed

text \<open>A block number as the result of one of the two steps; -1 stands for the full disk.\<close>

definition found :: "u32 \<Rightarrow> u32 option" where
  "found v = (if v = -1 then None else Some v)"

lemma found_simps [simp]: "block_code (found v) = v" "found (-1) = None" "v \<noteq> -1 \<Longrightarrow> found v = Some v"
  by (simp_all add: found_def block_code_def)

lemma there_result:
  assumes "store_ok k H s" and "ftree ip s" and "vnode p" and "faddr s ip p \<noteq> 0"
  shows "node_result ip p (faddr s ip p) s" "faddr s ip p \<noteq> -1"
  using tree_invD(1)[OF assms(2)[unfolded ftree_def] assms(3)] assms(4) in_area_num(3)[OF store_okD(2)[OF assms(1)]]
  by (auto simp: node_result_def faddr_def)

lemma ensure_slot_step:
  fixes s :: "'a fs_state_scheme"
  assumes s: "store_ok k H s" and tr: "ftree ip s" and j: "j < 13"
  shows "\<exists>v t. ensure_slot ip j s = Inr (found v, t) \<and> store_ok k H t \<and> keeps s t \<and> grow ip s t \<and> node_result ip (Slot j) v t"
proof (cases "i_index (info s ip) j = 0")
  case False
  then show ?thesis using there_result[OF s tr, of "Slot j"] j s grow_refl[OF tr]
    by (intro exI[of _ "faddr s ip (Slot j)"] exI[of _ s]) (simp add: ensure_slot_def faddr_def fslots_def)
next
  case e: True
  show ?thesis
  proof (cases "free_block_of s")
    case None
    have "faddr s ip (Slot j) = 0" using e by (simp add: faddr_def fslots_def)
    then show ?thesis using alloc_full_step[OF s tr None] e by (auto simp: ensure_slot_def node_result_def)
  next
    case (Some a)
    define n where "n = data_firstblock (sb s) + of_nat a"
    note f = free_blockD[OF s Some, folded n_def]
    note nn = in_area_num[OF store_okD(2)[OF s] f(2)]
    from alloc_block_step[OF s Some n_def] obtain t where t: "bitmap_alloc_block s = Inr (n, t)" "store_ok k H t"
      "store_rel s t" "keeps s t"
      "\<And>m. in_area (sb s) m \<Longrightarrow> used (sb s) (disk_block t) m = (m = n \<or> used (sb s) (disk_block s) m)"
      "\<And>m. m \<notin> bmap_blocks (sb s) \<Longrightarrow> disk_block t m = disk_block s m" by blast
    let ?t = "set_index ip j n t"
    have t': "store_ok k H ?t" "sb ?t = sb s" "disk_block ?t = disk_block t" "keeps t ?t"
      using t(2) store_rel_fs[OF t(3)] cache_ok_inode[of H t]
      by (simp_all add: store_ok_def data_map_ok_def map_ok_def set_index_upd upd_inode_frame keeps_def)
        (simp_all add: upd_inode_def)
    from zero_block_step[OF t'(1), of n] f obtain u where u: "zero_block n ?t = Inr u" "store_ok k H u" "store_rel ?t u"
      "keeps ?t u" "disk_block u = (disk_block t)(n := \<lambda>_. 0)" by (auto simp: t')
    have fi: "fslots u ip = (fslots s ip)(j := n)"
      "the_inode u ip = (the_inode s ip)\<lparr>disk_info := (info s ip)\<lparr>i_index := fslots u ip\<rparr>\<rparr>"
      using store_rel_fs(2)[OF u(3)] store_rel_fs(2)[OF t(3)]
      by (simp_all add: fslots_def set_index_upd upd_inode_def)
    have us: "used (sb s) (disk_block u) m = used (sb s) (disk_block t) m" if "in_area (sb s) m" for m
      using bmap_outside[OF store_okD(2)[OF s]] f(2) by (intro used_cong[OF store_okD(2)[OF s] that]) (auto simp: u(5))
    have d: "disk_block u m = disk_block s m" if "m \<notin> bmap_blocks (sb s)" "m \<noteq> n" for m
      using t(6)[OF that(1)] that(2) by (simp add: u(5))
    have r: "fs_rel ip s u"
      using fs_rel_trans[OF fs_rel_trans[OF store_fs_rel[OF t(3)] fs_rel_upd] store_fs_rel[OF u(3)[unfolded set_index_upd]]] .
    have l: "linked (sb s) (disk_block s) (fslots s ip) (Slot j) n (disk_block u) (fslots u ip)"
      using e[folded fslots_def] j f(2,3) nn(2) us t(5) d bmap_outside[OF store_okD(2)[OF s]] fi(1)
      by (auto simp: linked_def u(5)[THEN fun_cong, of n])
    have "ensure_slot ip j s = Inr (found n, u)"
      using e t(1) u(1) nn(3) fi(1) by (simp add: ensure_slot_def fslots_def)
    moreover have "grow ip s u" "faddr u ip (Slot j) = n"
      by (rule linked_grow[OF tr l r fi(2)]; use d f(2) in blast)+
    moreover have "keeps s u" using t(4) t'(4) u(4) by (simp add: keeps_def)
    ultimately show ?thesis using u(2) nn by (auto simp: node_result_def)
  qed
qed

text \<open>An entry of a table whose block \<open>n0\<close> is held in buffer \<open>b\<close>.\<close>

lemma ensure_entry_step:
  fixes s :: "'a fs_state_scheme"
  assumes s: "store_ok k H s" and tr: "ftree ip s" and v: "vnode (Entry r i)" and n0: "n0 = faddr s ip r" "n0 \<noteq> 0"
    and b: "buf_holds b n0 s" "n0 \<in> H"
  shows "\<exists>v t. ensure_entry b i s = Inr (found v, t) \<and> store_ok k H t \<and> keeps s t \<and> grow ip s t \<and> node_result ip (Entry r i) v t"
proof -
  have i: "i < 1024" and r: "vnode r" using v by simp_all
  note ok = store_okD[OF s]
  have pg: "buf_page s b = disk_block s n0" by (rule page_is_block[OF ok(3) b(1)])
  have ta: "load32 (mem s) (table_addr b i s) = faddr s ip (Entry r i)"
    using n0 by (simp add: table_load[OF i] pg faddr_def)
  note n0t = tree_invD[OF tr[unfolded ftree_def] r, folded faddr_def n0(1), OF n0(2)]
  show ?thesis
  proof (cases "faddr s ip (Entry r i) = 0")
    case False
    then show ?thesis using there_result[OF s tr v False] s grow_refl[OF tr]
      by (intro exI[of _ "faddr s ip (Entry r i)"] exI[of _ s]) (simp add: ensure_entry_def ta)
  next
    case e: True
    show ?thesis
    proof (cases "free_block_of s")
      case None
      from alloc_full_step[OF s tr None] show ?thesis using e by (auto simp: ensure_entry_def node_result_def ta)
    next
      case (Some a)
      define n where "n = data_firstblock (sb s) + of_nat a"
      note f = free_blockD[OF s Some, folded n_def]
      note nn = in_area_num[OF ok(2) f(2)]
      from alloc_block_step[OF s Some n_def] obtain t where t: "bitmap_alloc_block s = Inr (n, t)" "store_ok k H t"
        "store_rel s t" "keeps s t"
        "\<And>m. in_area (sb s) m \<Longrightarrow> used (sb s) (disk_block t) m = (m = n \<or> used (sb s) (disk_block s) m)"
        "\<And>m. m \<notin> bmap_blocks (sb s) \<Longrightarrow> disk_block t m = disk_block s m" by blast
      have bt: "buf_holds b n0 t" using b(1) t(4) by (simp add: keeps_def)
      have pt: "buf_page t b = disk_block s n0"
        using page_is_block[OF store_okD(3)[OF t(2)] bt] t(6)[of n0] bmap_outside[OF ok(2)] n0t(1) by auto
      note ts = table_store[OF i, of b t n]
      from blocks.store[OF store_okD(3)[OF t(2)] bt conjunct1[OF ts]] obtain u :: "'a fs_state_scheme" where
        u: "buffer_write b (t\<lparr>mem := store32 (mem t) (table_addr b i t) n\<rparr>) = Inr u" "cache_ok H u"
        "disk_block u = (disk_block t)(n0 := put_bytes (4 * i) 4 (byte_of n) (disk_block s n0))" "store_rel t u" "keeps t u"
        using conjunct2[OF ts] by (auto simp: pt keeps_def)
      have us: "used (sb s) (disk_block u) m = used (sb s) (disk_block t) m" if "in_area (sb s) m" for m
        using bmap_outside[OF ok(2)] n0t(1) by (intro used_cong[OF ok(2) that]) (auto simp: u(3))
      note ft = store_rel_fs[OF t(3)] and fu = store_rel_fs[OF u(4)]
      have uo: "store_ok k H u" by (rule store_ok_step[OF t(2) u(2) fu(1)]) (simp add: us ft)
      from zero_block_step[OF uo, of n] f obtain w where w: "zero_block n u = Inr w" "store_ok k H w" "store_rel u w"
        "keeps u w" "disk_block w = (disk_block u)(n := \<lambda>_. 0)" by (auto simp: fu ft)
      note fw = store_rel_fs[OF w(3)]
      have ws: "used (sb s) (disk_block w) m = used (sb s) (disk_block t) m" if "in_area (sb s) m" for m
        using bmap_outside[OF ok(2)] f(2) us[OF that] 
        by (subst used_cong[OF ok(2) that, of _ "disk_block u"]) (auto simp: w(5))
      have nn0: "n \<noteq> n0" using f(3) n0t(2) by auto
      have d: "disk_block w m = disk_block s m" if "m \<notin> bmap_blocks (sb s)" "m \<noteq> n" "m \<noteq> n0" for m
        using t(6)[OF that(1)] that(2,3) by (simp add: u(3) w(5))
      have rel: "store_rel s w" using store_rel_trans[OF store_rel_trans[OF t(3) u(4)] w(3)] .
      have fs: "fslots w ip = fslots s ip" by (simp add: fslots_def store_rel_fs[OF rel])
      have dw: "disk_block w n0 = put_bytes (4 * i) 4 (byte_of n) (disk_block s n0)" using nn0 by (simp add: w(5) u(3))
      have l: "linked (sb s) (disk_block s) (fslots s ip) (Entry r i) n (disk_block w) (fslots w ip)"
        unfolding linked_def node.case fs n0(1)[unfolded faddr_def, symmetric]
      proof (intro conjI allI impI)
        show "tab (disk_block w n0) j = (if j = i then n else tab (disk_block s n0) j)" if "j < 1024" for j
          unfolding dw by (rule tab_put[OF i that])
        show "disk_block w m = disk_block s m" if "in_area (sb s) m" "m \<noteq> n" "m \<noteq> n0" for m
          using d that bmap_outside[OF ok(2)] by blast
        show "used (sb s) (disk_block w) m = (m = n \<or> used (sb s) (disk_block s) m)" if "in_area (sb s) m" for m
          using ws t(5) that by simp
      qed (use v e f nn n0(2) in \<open>simp_all add: faddr_def w(5)\<close>)
      have "ensure_entry b i s = Inr (found n, w)"
        using e t(1) u(1) w(1) nn(3) by (simp add: ensure_entry_def ta)
      moreover have "grow ip s w" "faddr w ip (Entry r i) = n"
      proof -
        have "the_inode w ip = (the_inode s ip)\<lparr>disk_info := (info s ip)\<lparr>i_index := fslots w ip\<rparr>\<rparr>"
          by (simp add: fslots_def store_rel_fs[OF rel])
        from linked_grow[OF tr l store_fs_rel[OF rel] this] d f(2) n0t(1)
        show "grow ip s w" "faddr w ip (Entry r i) = n" by blast+
      qed
      moreover have "keeps s w" using keeps_trans[OF keeps_trans[OF t(4) u(5)] w(4)] .
      ultimately show ?thesis using w(2) nn by (auto simp: node_result_def)
    qed
  qed
qed

text \<open>What does not change when nothing is allocated.\<close>

definition still :: "'a fs_state_scheme \<Rightarrow> 'a fs_state_scheme \<Rightarrow> bool" where
  "still s t \<longleftrightarrow> disk_block t = disk_block s \<and> inode_cache t = inode_cache s"

lemma still_refl [simp]: "still s s"
  by (simp add: still_def)

lemma still_trans: "still s t \<Longrightarrow> still t u \<Longrightarrow> still s u"
  by (simp add: still_def)

lemma still_faddr: "still s t \<Longrightarrow> faddr t ip = faddr s ip"
  by (simp add: still_def faddr_def fslots_def)

text \<open>A table is got, used and given back.\<close>

lemma get_table:
  fixes s :: "'a fs_state_scheme"
  assumes s: "store_ok (Suc k) H s" and tr: "ftree ip s" and v: "vnode r" and n: "n = faddr s ip r" "n \<noteq> 0" "n \<notin> H"
  shows "\<exists>b t. buffer_get n s = Inr (b, t) \<and> store_ok k (insert n H) t \<and> grow ip s t \<and> buf_holds b n t \<and>
    (\<forall>c m. buf_holds c m s \<longrightarrow> c \<noteq> b \<and> buf_holds c m t) \<and> faddr t ip = faddr s ip \<and> still s t"
proof -
  note nt = tree_invD[OF tr[unfolded ftree_def] v, folded faddr_def n(1), OF n(2)]
  from blocks.look[OF can_getD[OF store_ok_get[OF s nt(1) n(3)]]] obtain b and t :: "'a fs_state_scheme" where
    t: "buffer_get n s = Inr (b, t)" "cache_ok (insert n H) t" "buf_holds b n t" "store_rel s t" "disk_block t = disk_block s"
      "\<forall>c m. buf_holds c m s \<longrightarrow> c \<noteq> b \<and> buf_holds c m t" by blast
  have "faddr t ip = faddr s ip" by (simp add: fun_eq_iff faddr_def fslots_def store_rel_fs[OF t(4)] t(5))
  then show ?thesis
    using t store_ok_insert[OF s nt(1,2) t(2) store_rel_fs(1)[OF t(4)] t(5)] store_grow[OF tr t(4,5)]
      store_rel_fs(2)[OF t(4)] unfolding still_def by blast
qed

lemma put_table:
  fixes s :: "'a fs_state_scheme"
  assumes s: "store_ok k (insert n H) s" and tr: "ftree ip s" and b: "buf_holds b n s" "n \<notin> H" and room: "card H + Suc k < N_BUFFER"
  shows "\<exists>t. buffer_put b s = Inr t \<and> store_ok (Suc k) H t \<and> grow ip s t \<and>
    (\<forall>c m. buf_holds c m s \<longrightarrow> c \<noteq> b \<longrightarrow> buf_holds c m t) \<and> faddr t ip = faddr s ip \<and> free_block_of t = free_block_of s \<and>
    still s t"
proof -
  from blocks.look_put[OF store_okD(3)[OF s] b] obtain t :: "'a fs_state_scheme" where t: "buffer_put b s = Inr t"
    "cache_ok H t" "disk_block t = disk_block s" "store_rel s t" "\<forall>c m. buf_holds c m s \<longrightarrow> c \<noteq> b \<longrightarrow> buf_holds c m t" by blast
  note f = store_rel_fs[OF t(4)]
  have "store_ok (Suc k) H t"
    using s t(2) room by (auto simp: store_ok_def data_map_ok_def map_ok_def f t(3))
  moreover have "faddr t ip = faddr s ip" "free_block_of t = free_block_of s"
    by (simp_all add: fun_eq_iff faddr_def fslots_def free_block_of_def f t(3))
  ultimately show ?thesis using t store_grow[OF tr t(4,3)] f(2) unfolding still_def by blast
qed

lemma node_resultD: "node_result ip p v t \<Longrightarrow> v \<noteq> -1 \<Longrightarrow> v = faddr t ip p" "node_result ip p v t \<Longrightarrow> v \<noteq> -1 \<Longrightarrow> v \<noteq> 0"
  unfolding node_result_def by presburger+

lemma node_result_same: "node_result ip p v s \<Longrightarrow> faddr t ip = faddr s ip \<Longrightarrow> free_block_of t = free_block_of s \<Longrightarrow> node_result ip p v t"
  by (simp add: node_result_def)

lemma table_step:
  fixes s :: "'a fs_state_scheme"
  assumes s: "store_ok (Suc k) H s" and tr: "ftree ip s" and v: "vnode (Entry r i)" and n: "n = faddr s ip r" "n \<noteq> 0" "n \<notin> H"
  shows "\<exists>b t v u w. buffer_get n s = Inr (b, t) \<and> ensure_entry b i t = Inr (found v, u) \<and> buffer_put b u = Inr w \<and>
    store_ok (Suc k) H w \<and> grow ip s w \<and> keeps s w \<and> node_result ip (Entry r i) v w"
proof -
  have vr: "vnode r" using v by simp
  note ar = store_okD(2)[OF s]
  from get_table[OF s tr vr n] obtain b t where t: "buffer_get n s = Inr (b, t)" "store_ok k (insert n H) t" "grow ip s t"
    "buf_holds b n t" "\<forall>c m. buf_holds c m s \<longrightarrow> c \<noteq> b \<and> buf_holds c m t" "faddr t ip = faddr s ip" by blast
  note gt = growD[OF t(3)]
  from ensure_entry_step[OF t(2) gt(2) v _ n(2) t(4)] obtain e u where u: "ensure_entry b i t = Inr (found e, u)"
    "store_ok k (insert n H) u" "keeps t u" "grow ip t u" "node_result ip (Entry r i) e u" by (auto simp: t(6) n(1))
  note gu = growD[OF u(4)]
  have hu: "buf_holds b n u" using t(4) u(3) by (simp add: keeps_def)
  from put_table[OF u(2) gu(2) hu n(3)] store_okD(4)[OF s] obtain w where w: "buffer_put b u = Inr w" "store_ok (Suc k) H w"
    "grow ip u w" "\<forall>c m. buf_holds c m u \<longrightarrow> c \<noteq> b \<longrightarrow> buf_holds c m w" "faddr w ip = faddr u ip"
    "free_block_of w = free_block_of u" by auto
  have "grow ip s w" using grow_trans[OF grow_trans[OF t(3) u(4) ar] w(3) ar] .
  moreover have "keeps s w" using t(5) u(3) w(4) by (simp add: keeps_def)
  ultimately show ?thesis using t(1) u(1) w(1,2) node_result_same[OF u(5) w(5,6)] by blast
qed

text \<open>Blocks of the tree are not among the held ones, as long as none of the data area is held.\<close>

lemma tree_free:
  assumes "ftree ip s" and "vnode p" and "faddr s ip p \<noteq> 0" and "\<And>m. m \<in> H \<Longrightarrow> \<not> in_area (sb s) m"
  shows "faddr s ip p \<notin> H"
  using tree_invD(1)[OF assms(1)[unfolded ftree_def] assms(2)] assms(3,4) by (auto simp: faddr_def)

text \<open>The result of \<open>locate_or_add_block\<close>.\<close>

definition block_result :: "nat \<Rightarrow> u32 \<Rightarrow> u32 \<Rightarrow> 'a fs_state_scheme \<Rightarrow> bool" where
  "block_result ip n v t \<longleftrightarrow> (if v = -1 then free_block_of t = None \<and> faddr t ip (data_node (unat n)) = 0 \<or> MAX_BLOCKS \<le> unat n
     else unat n < MAX_BLOCKS \<and> v \<noteq> 0 \<and> v = faddr t ip (data_node (unat n)))"

lemma block_resultI: "unat n < MAX_BLOCKS \<Longrightarrow> node_result ip (data_node (unat n)) v t \<Longrightarrow> block_result ip n v t"
  by (simp add: block_result_def node_result_def)

definition data_free :: "u32 set \<Rightarrow> super_block \<Rightarrow> bool" where
  "data_free H b \<longleftrightarrow> (\<forall>m\<in>H. \<not> in_area b m)"

lemma locate_single:
  fixes s :: "'a fs_state_scheme"
  assumes s: "store_ok (Suc k) H s" and tr: "ftree ip s" and H: "data_free H (sb s)"
    and n: "\<not> n < 10" "n - 10 < 2 * 1024"
  shows "\<exists>v t. locate_or_add_block ip n s = Inr (v, t) \<and> store_ok (Suc k) H t \<and> keeps s t \<and> grow ip s t \<and> block_result ip n v t"
proof -
  note ar = store_okD(2)[OF s]
  let ?j = "10 + unat ((n - 10) div 1024)" and ?i = "unat ((n - 10) mod 1024)"
  have n10: "10 \<le> unat n" using n(1) by (simp add: word_less_nat_alt)
  then have m: "unat (n - 10) = unat n - 10" by (simp add: unat_sub word_le_nat_alt)
  then have b: "unat n < 2058" using n(2) n10 by (simp add: word_less_nat_alt)
  have jd: "?j = 10 + (unat n - 10) div 1024" "?i = (unat n - 10) mod 1024" by (simp_all add: unat_div unat_mod m)
  have ji: "?j < 12" "?i < 1024" using b by (simp_all add: jd less_mult_imp_div_less)
  have vn: "vnode (Entry (Slot ?j) ?i)" and lf: "data_node (unat n) = Entry (Slot ?j) ?i" "unat n < MAX_BLOCKS"
    using ji n10 b by (simp_all add: data_node_def jd)
  have loc: "locate_or_add_block ip n s =
      bnd (ensure_slot ip ?j s) (\<lambda>(bn, s). case bn of None \<Rightarrow> Inr (-1, s)
          | Some bn \<Rightarrow> bnd (buffer_get bn s) (\<lambda>(idx_buf, s). bnd (ensure_entry idx_buf ?i s) (\<lambda>(target, s).
            bnd (buffer_put idx_buf s) (\<lambda>s. Inr (block_code target, s)))))"
    using n by (simp add: locate_or_add_block_def Let_def)
  have "?j < 13" using ji by simp
  from ensure_slot_step[OF s tr this] obtain v1 t where t: "ensure_slot ip ?j s = Inr (found v1, t)" "store_ok (Suc k) H t"
    "keeps s t" "grow ip s t" "node_result ip (Slot ?j) v1 t" by blast
  note gt = growD[OF t(4)]
  show ?thesis
  proof (cases "v1 = -1")
    case True
    moreover have "faddr t ip (data_node (unat n)) = 0" using t(5) True by (simp add: lf node_result_def faddr_def)
    ultimately show ?thesis using t by (simp add: loc node_result_def block_result_def)
  next
    case False
    then have v1: "v1 = faddr t ip (Slot ?j)" "v1 \<noteq> 0" using node_resultD[OF t(5)] by blast+
    have "v1 \<notin> H" using tree_free[OF gt(2), of "Slot ?j" H] vn v1 H by (auto simp: data_free_def gt(4))
    from table_step[OF t(2) gt(2) vn v1 this] obtain b t2 v u w where
      w: "buffer_get v1 t = Inr (b, t2)" "ensure_entry b ?i t2 = Inr (found v, u)" "buffer_put b u = Inr w"
      "store_ok (Suc k) H w" "grow ip t w" "keeps t w" "node_result ip (Entry (Slot ?j) ?i) v w" by blast
    have "locate_or_add_block ip n s = Inr (v, w)" using False t(1) w(1-3) by (simp add: loc)
    then show ?thesis
      using w(4) keeps_trans[OF t(3) w(6)] grow_trans[OF t(4) w(5) ar] block_resultI[OF lf(2)] w(7) lf(1) by auto
  qed
qed

lemma locate_double:
  fixes s :: "'a fs_state_scheme"
  assumes s: "store_ok (Suc (Suc k)) H s" and tr: "ftree ip s" and H: "data_free H (sb s)"
    and n: "\<not> n < 10" "\<not> n - 10 < 2 * 1024" "n - 10 - 2 * 1024 < 1024 * 1024"
  shows "\<exists>v t. locate_or_add_block ip n s = Inr (v, t) \<and> store_ok (Suc (Suc k)) H t \<and> keeps s t \<and> grow ip s t \<and>
    block_result ip n v t"
proof -
  note ar = store_okD(2)[OF s]
  let ?n = "n - 2058"
  have n3: "n - 10 - 2 * 1024 = ?n" by simp
  let ?j = "unat (?n div 1024)" and ?i = "unat (?n mod 1024)"
  have n10: "10 \<le> unat n" using n(1) by (simp add: word_less_nat_alt)
  then have m: "unat (n - 10) = unat n - 10" by (simp add: unat_sub word_le_nat_alt)
  then have n20: "2058 \<le> unat n" using n(2) n10 by (simp add: word_less_nat_alt)
  then have m2: "unat ?n = unat n - 2058" by (simp add: unat_sub word_le_nat_alt)
  then have b: "unat n < MAX_BLOCKS" using n(3) n20 by (simp add: word_less_nat_alt)
  have jd: "?j = (unat n - 2058) div 1024" "?i = (unat n - 2058) mod 1024" by (simp_all add: unat_div unat_mod m2)
  have ji: "?j < 1024" "?i < 1024" using b by (simp_all add: jd less_mult_imp_div_less)
  let ?p = "Entry (Slot 12) ?j"
  have vn: "vnode (Entry ?p ?i)" "vnode ?p" "vnode (Slot 12)" and lf: "data_node (unat n) = Entry ?p ?i"
    using ji n20 by (simp_all add: data_node_def jd)
  have loc: "locate_or_add_block ip n s =
      bnd (ensure_slot ip 12 s) (\<lambda>(bn, s). case bn of None \<Rightarrow> Inr (-1, s)
          | Some bn \<Rightarrow> bnd (buffer_get bn s) (\<lambda>(l2_buf, s). bnd (ensure_entry l2_buf ?j s) (\<lambda>(l1_block, s).
            case l1_block of None \<Rightarrow> bnd (buffer_put l2_buf s) (\<lambda>s. Inr (-1, s))
            | Some l1_block \<Rightarrow> bnd (buffer_get l1_block s) (\<lambda>(l1_buf, s). bnd (ensure_entry l1_buf ?i s) (\<lambda>(target, s).
              bnd (buffer_put l1_buf s) (\<lambda>s. bnd (buffer_put l2_buf s) (\<lambda>s. Inr (block_code target, s))))))))"
    using n by (simp add: locate_or_add_block_def Let_def)
  from ensure_slot_step[OF s tr, of 12] obtain v1 t where t: "ensure_slot ip 12 s = Inr (found v1, t)" "store_ok (Suc (Suc k)) H t"
    "keeps s t" "grow ip s t" "node_result ip (Slot 12) v1 t" by auto
  note gt = growD[OF t(4)]
  show ?thesis
  proof (cases "v1 = -1")
    case True
    moreover have "faddr t ip (data_node (unat n)) = 0" using t(5) True by (simp add: lf node_result_def faddr_def)
    ultimately show ?thesis using t by (simp add: loc node_result_def block_result_def)
  next
    case False
    then have v1: "v1 = faddr t ip (Slot 12)" "v1 \<noteq> 0" using node_resultD[OF t(5)] by blast+
    have v1H: "v1 \<notin> H" using tree_free[OF gt(2) vn(3), of H] v1 H by (auto simp: data_free_def gt(4))
    from get_table[OF t(2) gt(2) vn(3) v1 v1H] obtain b u where u: "buffer_get v1 t = Inr (b, u)"
      "store_ok (Suc k) (insert v1 H) u" "grow ip t u" "buf_holds b v1 u"
      "\<forall>c m. buf_holds c m t \<longrightarrow> c \<noteq> b \<and> buf_holds c m u" "faddr u ip = faddr t ip" by blast
    note gu = growD[OF u(3)]
    from ensure_entry_step[OF u(2) gu(2) vn(2) _ v1(2) u(4)] obtain v2 w where w: "ensure_entry b ?j u = Inr (found v2, w)"
      "store_ok (Suc k) (insert v1 H) w" "keeps u w" "grow ip u w" "node_result ip ?p v2 w" by (auto simp: u(6) v1(1))
    note gw = growD[OF w(4)]
    have room: "card H + Suc (Suc k) < N_BUFFER" using store_okD(4)[OF s] by simp
    have sw: "grow ip s w" using grow_trans[OF grow_trans[OF t(4) u(3) ar] w(4) ar] .
    have hw: "buf_holds b v1 w" using u(4) w(3) by (simp add: keeps_def)
    have kw: "\<forall>c m. buf_holds c m s \<longrightarrow> c \<noteq> b \<and> buf_holds c m w" using t(3) u(5) w(3) unfolding keeps_def by blast
    show ?thesis
    proof (cases "v2 = -1")
      case True
      from put_table[OF w(2) gw(2) hw v1H room] obtain x where x: "buffer_put b w = Inr x" "store_ok (Suc (Suc k)) H x"
        "grow ip w x" "\<forall>c m. buf_holds c m w \<longrightarrow> c \<noteq> b \<longrightarrow> buf_holds c m x" "free_block_of x = free_block_of w"
        "faddr x ip = faddr w ip" by auto
      have "locate_or_add_block ip n s = Inr (-1, x)" using False True t(1) u(1) w(1) x(1) by (simp add: loc)
      moreover have "keeps s x" using kw x(4) by (simp add: keeps_def)
      ultimately show ?thesis using x(2,5) w(5) True grow_trans[OF sw x(3) ar] x(6)
        by (simp add: block_result_def node_result_def lf) (simp add: faddr_def)
    next
      case v2: False
      then have e: "v2 = faddr w ip ?p" "v2 \<noteq> 0" using node_resultD[OF w(5)] by blast+
      have n2: "in_area (sb w) v2" "\<And>q. vnode q \<Longrightarrow> faddr w ip q = v2 \<Longrightarrow> q = ?p"
        using tree_invD[OF gw(2)[unfolded ftree_def] vn(2), folded faddr_def] e by auto
      have "v2 \<noteq> v1"
      proof
        assume "v2 = v1"
        have "faddr w ip (Slot 12) = v1" using gw(7)[OF vn(3)] v1 u(6) by simp
        then have "Slot 12 = ?p" using n2(2)[OF vn(3)] \<open>v2 = v1\<close> by simp
        then show False by simp
      qed
      moreover have "v2 \<notin> H" using n2(1) H by (auto simp: data_free_def gw(4) gu(4) gt(4))
      ultimately have nh: "v2 \<notin> insert v1 H" by simp
      from table_step[OF w(2) gw(2) vn(1) e nh] obtain c w2 v y z where
        z: "buffer_get v2 w = Inr (c, w2)" "ensure_entry c ?i w2 = Inr (found v, y)" "buffer_put c y = Inr z"
        "store_ok (Suc k) (insert v1 H) z" "grow ip w z" "keeps w z" "node_result ip (Entry ?p ?i) v z" by blast
      note gz = growD[OF z(5)]
      have hz: "buf_holds b v1 z" using hw z(6) by (simp add: keeps_def)
      from put_table[OF z(4) gz(2) hz v1H room] obtain x where x: "buffer_put b z = Inr x" "store_ok (Suc (Suc k)) H x"
        "grow ip z x" "\<forall>c m. buf_holds c m z \<longrightarrow> c \<noteq> b \<longrightarrow> buf_holds c m x" "faddr x ip = faddr z ip"
        "free_block_of x = free_block_of z" by auto
      have "locate_or_add_block ip n s = Inr (v, x)" using False v2 t(1) u(1) w(1) z(1-3) x(1) by (simp add: loc)
      moreover have "keeps s x" using kw z(6) x(4) by (simp add: keeps_def)
      ultimately show ?thesis
        using x(2) grow_trans[OF grow_trans[OF sw z(5) ar] x(3) ar] block_resultI[OF b] node_result_same[OF z(7) x(5,6)] lf by auto
    qed
  qed
qed

lemma locate_ok:
  fixes s :: "'a fs_state_scheme"
  assumes s: "store_ok (Suc (Suc k)) H s" and tr: "ftree ip s" and H: "data_free H (sb s)"
  shows "\<exists>v t. locate_or_add_block ip n s = Inr (v, t) \<and> store_ok (Suc (Suc k)) H t \<and> keeps s t \<and> grow ip s t \<and>
    block_result ip n v t"
proof -
  consider (direct) "n < 10" | (single) "\<not> n < 10" "n - 10 < 2 * 1024"
    | (double) "\<not> n < 10" "\<not> n - 10 < 2 * 1024" "n - 10 - 2 * 1024 < 1024 * 1024"
    | (far) "\<not> n < 10" "\<not> n - 10 < 2 * 1024" "\<not> n - 10 - 2 * 1024 < 1024 * 1024" by blast
  then show ?thesis
  proof cases
    case direct
    then have d: "unat n < 10" by (simp add: word_less_nat_alt)
    from ensure_slot_step[OF s tr, of "unat n"] d show ?thesis
      by (auto simp: locate_direct[OF direct] data_node_def intro!: block_resultI)
  next
    case single
    show ?thesis by (rule locate_single[OF s tr H single])
  next
    case double
    show ?thesis by (rule locate_double[OF s tr H double])
  next
    case far
    have n10: "10 \<le> unat n" using far(1) by (simp add: word_less_nat_alt)
    then have m: "unat (n - 10) = unat n - 10" by (simp add: unat_sub word_le_nat_alt)
    then have n20: "2058 \<le> unat n" using far(2) n10 by (simp add: word_less_nat_alt)
    then have "unat (n - 10 - 2 * 1024) = unat n - 2058" using m by (simp add: unat_sub word_le_nat_alt)
    then have "MAX_BLOCKS \<le> unat n" using far(3) n20 by (simp add: word_less_nat_alt)
    moreover have "locate_or_add_block ip n s = Inr (-1, s)" using far by (simp add: locate_or_add_block_def Let_def)
    ultimately show ?thesis using s grow_refl[OF tr] by (simp add: block_result_def)
  qed
qed

text \<open>A block that is there is found without any change.\<close>

lemma entry_there:
  fixes s :: "'a fs_state_scheme"
  assumes s: "cache_ok H s" and i: "i < 1024" and n: "n = faddr s ip r" "n \<noteq> 0" and b: "buf_holds b n s"
    and e: "faddr s ip (Entry r i) \<noteq> 0"
  shows "ensure_entry b i s = Inr (Some (faddr s ip (Entry r i)), s)"
proof -
  have "load32 (mem s) (table_addr b i s) = faddr s ip (Entry r i)"
    using n by (simp add: table_load[OF i] page_is_block[OF s b] faddr_def)
  then show ?thesis using e by (simp add: ensure_entry_def)
qed

lemma table_there:
  fixes s :: "'a fs_state_scheme"
  assumes s: "store_ok (Suc k) H s" and tr: "ftree ip s" and v: "vnode (Entry r i)" and n: "n = faddr s ip r" "n \<noteq> 0" "n \<notin> H"
    and e: "faddr s ip (Entry r i) \<noteq> 0"
  shows "\<exists>b t w. buffer_get n s = Inr (b, t) \<and> ensure_entry b i t = Inr (Some (faddr s ip (Entry r i)), t) \<and> buffer_put b t = Inr w \<and>
    still s w"
proof -
  have vr: "vnode r" "i < 1024" using v by simp_all
  from get_table[OF s tr vr(1) n] obtain b t where t: "buffer_get n s = Inr (b, t)" "store_ok k (insert n H) t" "grow ip s t"
    "buf_holds b n t" "faddr t ip = faddr s ip" "still s t" by blast
  have "ensure_entry b i t = Inr (Some (faddr s ip (Entry r i)), t)"
    using entry_there[OF store_okD(3)[OF t(2)] vr(2) _ n(2) t(4), of ip r] e n(1) by (simp add: t(5))
  moreover from put_table[OF t(2) growD(2)[OF t(3)] t(4) n(3)] store_okD(4)[OF s] obtain w where
    "buffer_put b t = Inr w" "still t w" by auto
  ultimately show ?thesis using t(1,6) still_trans by blast
qed

lemma locate_there:
  fixes s :: "'a fs_state_scheme"
  assumes s: "store_ok (Suc (Suc k)) H s" and tr: "ftree ip s" and H: "data_free H (sb s)"
    and n: "unat n < MAX_BLOCKS" and a: "faddr s ip (data_node (unat n)) \<noteq> 0"
  shows "\<exists>t. locate_or_add_block ip n s = Inr (faddr s ip (data_node (unat n)), t) \<and> still s t"
proof (cases "n < 10")
  case True
  then show ?thesis using a by (simp add: locate_direct ensure_slot_def block_code_def data_node_def word_less_nat_alt faddr_def fslots_def)
next
  case n0: False
  have fr: "faddr s ip p \<notin> H" if "vnode p" "faddr s ip p \<noteq> 0" for p
    using tree_free[OF tr that] H by (auto simp: data_free_def)
  have up: "faddr s ip p \<noteq> 0" if "faddr s ip (Entry p i) \<noteq> 0" for p i using that by (auto simp: faddr_def)
  have sl: "ensure_slot ip j s = Inr (Some (faddr s ip (Slot j)), s)" if "faddr s ip (Slot j) \<noteq> 0" for j
    using that by (simp add: ensure_slot_def faddr_def fslots_def)
  have n10: "10 \<le> unat n" using n0 by (simp add: word_less_nat_alt)
  then have m: "unat (n - 10) = unat n - 10" by (simp add: unat_sub word_le_nat_alt)
  show ?thesis
  proof (cases "n - 10 < 2 * 1024")
    case True
    let ?r = "Slot (10 + unat ((n - 10) div 1024))" and ?i = "unat ((n - 10) mod 1024)"
    have b: "unat n < 2058" using True m n10 by (simp add: word_less_nat_alt)
    have lf: "data_node (unat n) = Entry ?r ?i" using n10 b by (simp add: data_node_def unat_div unat_mod m)
    have vn: "vnode (Entry ?r ?i)"
      using b n10 by (simp add: unat_div unat_mod m less_mult_imp_div_less)
    have e: "faddr s ip (Entry ?r ?i) \<noteq> 0" using a lf by simp
    have vr: "vnode ?r" using vn by simp
    note r0 = up[OF e]
    from table_there[OF s tr vn refl r0 fr[OF vr r0] e] obtain b t w where
      "buffer_get (faddr s ip ?r) s = Inr (b, t)" "ensure_entry b ?i t = Inr (Some (faddr s ip (Entry ?r ?i)), t)" "buffer_put b t = Inr w"
      "still s w" by blast
    then show ?thesis using n0 True sl[OF r0] lf
      by (simp add: locate_or_add_block_def Let_def block_code_def)
  next
    case False
    let ?n = "n - 2058"
    let ?p = "Entry (Slot 12) (unat (?n div 1024))" and ?i = "unat (?n mod 1024)"
    have n20: "2058 \<le> unat n" using False m n10 by (simp add: word_less_nat_alt)
    then have m2: "unat ?n = unat n - 2058" by (simp add: unat_sub word_le_nat_alt)
    have lt: "n - 10 - 2 * 1024 < 1024 * 1024" "n - 10 - 2 * 1024 = ?n" using n n20 m2 by (simp_all add: word_less_nat_alt)
    have lf: "data_node (unat n) = Entry ?p ?i" using n20 by (simp add: data_node_def unat_div unat_mod m2)
    have vn: "vnode (Entry ?p ?i)" using n n20 by (simp add: unat_div unat_mod m2 less_mult_imp_div_less)
    have vp: "vnode ?p" "vnode (Slot 12)" "unat (?n div 1024) < 1024" using vn by simp_all
    have e: "faddr s ip (Entry ?p ?i) \<noteq> 0" using a lf by simp
    note p0 = up[OF e] 
    note r0 = up[OF p0]
    from get_table[OF s tr vp(2) refl r0 fr[OF vp(2) r0]] obtain b u where u: "buffer_get (faddr s ip (Slot 12)) s = Inr (b, u)"
      "store_ok (Suc k) (insert (faddr s ip (Slot 12)) H) u" "grow ip s u" "buf_holds b (faddr s ip (Slot 12)) u"
      "faddr u ip = faddr s ip" "still s u" by blast
    have eu: "ensure_entry b (unat (?n div 1024)) u = Inr (Some (faddr s ip ?p), u)"
      using entry_there[OF store_okD(3)[OF u(2)] vp(3) _ r0 u(4), of ip "Slot 12"] p0 by (simp add: u(5))
    have "faddr s ip ?p \<noteq> faddr s ip (Slot 12)"
      using tree_invD(3)[OF tr[unfolded ftree_def] vp(1), folded faddr_def, OF p0 vp(2)] by auto
    then have nh: "faddr s ip ?p \<notin> insert (faddr s ip (Slot 12)) H" using fr[OF vp(1) p0] by simp
    from table_there[OF u(2) growD(2)[OF u(3)] vn _ p0 nh] e obtain c v w where
      w: "buffer_get (faddr s ip ?p) u = Inr (c, v)" "ensure_entry c ?i v = Inr (Some (faddr s ip (Entry ?p ?i)), v)" "buffer_put c v = Inr w"
      "still u w" by (auto simp: u(5))
    from table_step[OF u(2) growD(2)[OF u(3)] vn _ p0 nh] w(1-3) have
      w': "store_ok (Suc k) (insert (faddr s ip (Slot 12)) H) w" "grow ip u w" "keeps u w" by (auto simp: u(5))
    have hw: "buf_holds b (faddr s ip (Slot 12)) w" using u(4) w'(3) by (simp add: keeps_def)
    from put_table[OF w'(1) growD(2)[OF w'(2)] hw fr[OF vp(2) r0]] store_okD(4)[OF s] obtain x where
      x: "buffer_put b w = Inr x" "still w x" by auto
    have "locate_or_add_block ip n s = Inr (faddr s ip (data_node (unat n)), x)"
      using n0 False lt(1) sl[OF r0] u(1) eu w(1-3) x(1)
      by (simp add: locate_or_add_block_def Let_def lf block_code_def)
    then show ?thesis using still_trans[OF still_trans[OF u(6) w(4)] x(2)] by blast
  qed
qed

end
