(* ===== verification/FileData.thy ===== *)
theory FileData
  imports FileMap
begin

text \<open>
  The contents of a file: \<open>inode_write_data\<close> replaces a range of its bytes, \<open>inode_read_data\<close> copies a
  range to memory. Both work block by block over the tree of \<open>FileMap\<close>.
\<close>

section \<open>Memory outside the cache\<close>

text \<open>The \<open>n\<close> bytes from \<open>a\<close> on replaced by \<open>g\<close>.\<close>

definition patch :: "u64 \<Rightarrow> nat \<Rightarrow> (nat \<Rightarrow> u8) \<Rightarrow> pmem \<Rightarrow> pmem" where
  "patch a n g m = (\<lambda>x. if unat (x - a) < n then g (unat (x - a)) else m x)"

lemma patch_0 [simp]: "patch a 0 g m = m"
  by (simp add: patch_def)

lemma patch_cong: "(\<And>i. i < n \<Longrightarrow> f i = g i) \<Longrightarrow> patch a n f m = patch a n g m"
  by (simp add: patch_def fun_eq_iff)

lemma patch_in: "n < 2 ^ 32 \<Longrightarrow> i < n \<Longrightarrow> patch a n g m (a + of_nat i) = g i"
  by (simp add: patch_def unat_of_nat)

lemma patch_patch:
  assumes "k + n < 2 ^ 32"
  shows "patch (a + of_nat k) n g (patch a k f m) = patch a (k + n) (\<lambda>i. if i < k then f i else g (i - k)) m"
proof
  fix x
  show "patch (a + of_nat k) n g (patch a k f m) x = patch a (k + n) (\<lambda>i. if i < k then f i else g (i - k)) m x"
    using in_range_shift[OF assms, of "x - a"] by (auto simp: patch_def diff_diff_eq)
qed

lemma copy_disjoint:
  assumes "n \<le> 2 ^ 32" and "\<And>i. i < n \<Longrightarrow> s + of_nat i \<noteq> d"
  shows "copy_loop n d s m = patch d n (\<lambda>i. m (s + of_nat i)) m"
proof
  fix x
  have "n \<le> unat (d - s)"
  proof (rule ccontr)
    assume "\<not> n \<le> unat (d - s)"
    then have "s + of_nat (unat (d - s)) \<noteq> d" by (intro assms(2)) simp
    then show False by simp
  qed
  then show "copy_loop n d s m x = patch d n (\<lambda>i. m (s + of_nat i)) m x"
    using assms(1) by (subst copy_loop_apply) (simp_all add: patch_def)
qed

lemma foreign_page:
  assumes "cache_ok H s" and "buf_holds b n s" and "foreign s x"
  shows "\<not> unat (x - data (the_buf s b)) < 4096"
proof -
  from assms(1) obtain R F p where bc: "bc_ok s R F {}" by (auto simp: cache_ok_def cache_mid_def)
  have b: "b \<in> set (R True)" using assms(2) by (simp add: holds_active[OF bc])
  note a = active_props[OF bc b]
  have "data (the_buf s b) \<in> owned s F" using a(1,3) by (auto simp: owned_def)
  then have "pg x \<noteq> pg (data (the_buf s b))" using assms(3) by (simp add: foreign_iff[OF bc])
  then show ?thesis by (simp add: page_of_data[OF data_page(1)[OF bc a(1,3)]])
qed

text \<open>A change of foreign memory does not disturb the cache.\<close>

definition foreign_range :: "'a disk_state_scheme \<Rightarrow> u64 \<Rightarrow> nat \<Rightarrow> bool" where
  "foreign_range s a n \<longleftrightarrow> (\<forall>i<n. foreign s (a + of_nat i))"

lemma foreign_rangeD: "foreign_range s a n \<Longrightarrow> i < n \<Longrightarrow> foreign s (a + of_nat i)"
  by (simp add: foreign_range_def)

lemma foreign_range_in: "foreign_range s a n \<Longrightarrow> unat (x - a) < n \<Longrightarrow> foreign s x"
  using foreign_rangeD[of s a n "unat (x - a)"] by simp

lemma foreign_range_sub: "foreign_range s a n \<Longrightarrow> k + m \<le> n \<Longrightarrow> foreign_range s (a + of_nat k) m"
  unfolding foreign_range_def
proof (intro allI impI)
  fix i assume h: "\<forall>i<n. foreign s (a + of_nat i)" "k + m \<le> n" "i < m"
  then have "k + i < n" by simp
  then have "foreign s (a + of_nat (k + i))" using h(1) by blast
  then show "foreign s (a + of_nat k + of_nat i)" by (simp add: add.assoc)
qed

lemma bc_ok_patch:
  assumes bc: "bc_ok s R F D" and f: "foreign_range s a n"
  shows "bc_ok (s\<lparr>mem := patch a n g (mem s)\<rparr>) R F D" "ktabs (s\<lparr>mem := patch a n g (mem s)\<rparr>) = ktabs s"
proof -
  let ?t = "s\<lparr>mem := patch a n g (mem s)\<rparr>"
  have o: "patch a n g (mem s) x = mem s x" if "q \<in> owned s F" "pg x = pg q" for q x
    using that foreign_range_in[OF f, of x] by (auto simp: patch_def foreign_iff[OF bc])
  note d = bc_okD[OF bc]
  have cs: "calm s ?t" by (rule calm_frame) simp_all
  have "bc_ok ?t R F D \<and> ktabs ?t = ktabs s"
  proof (rule bc_ok_step[OF bc cs])
    show "mem ?t x = mem s x" if "u \<in> ktabs s" "pg x = pg u" for u x
      using o[of u x] that by (simp add: owned_def)
    show "vq_ok ?t" using d(8) by (simp add: vq_ok_def)
    show "mem ?t x = mem s x" if "q \<in> set (F k)" "pg x = pg q" for k q x
      using o[of q x] that by (cases k) (simp_all add: owned_def)
    show "clean ?t j" if j: "j < N_BUFFER" "block_num (the_buf s j) \<noteq> BLOCK_NUM_UNUSED" "j \<notin> D" for j
    proof -
      have dj: "data (the_buf s j) \<noteq> 0" using buf_ok_used[OF d(1) j(1,2)] by simp
      then have "data (the_buf s j) \<in> owned s F" using j(1) by (auto simp: owned_def)
      then have "patch a n g (mem s) x = mem s x" if "unat (x - data (the_buf s j)) < 4096" for x
        using o that by (simp add: page_of_data[OF data_page(1)[OF bc j(1) dj]])
      then show ?thesis using bc_ok_clean[OF bc j] by (simp add: clean_def)
    qed
  qed (use d(10) in \<open>simp_all add: rest_same_def same_view_def\<close>)
  then show "bc_ok ?t R F D" "ktabs ?t = ktabs s" by blast+
qed

lemma patch_frame:
  assumes ok: "cache_ok H s" and f: "foreign_range s a n"
  shows "cache_ok H (s\<lparr>mem := patch a n g (mem s)\<rparr>)" "foreign (s\<lparr>mem := patch a n g (mem s)\<rparr>) x = foreign s x"
proof -
  let ?t = "s\<lparr>mem := patch a n g (mem s)\<rparr>"
  from ok obtain R F p where bc: "bc_ok s R F {}" and k: "kctx s p"
    and H: "H = (\<lambda>i. block_num (the_buf s i)) ` set (R True)" and pl: "card (pageless s) \<le> length (F False)"
    by (auto simp: cache_ok_def cache_mid_def)
  note bt = bc_ok_patch(1)[OF bc f, of g] and kt = bc_ok_patch(2)[OF bc f, of g]
  have "kctx ?t p" using calm_kctx[OF calm_frame k, of ?t] by simp
  then show "cache_ok H ?t" unfolding cache_ok_def using H pl by (intro cache_midI[OF bt]) (simp_all add: pageless_def)
  show "foreign ?t x = foreign s x" by (simp add: foreign_iff[OF bc] foreign_iff[OF bt] owned_def kt)
qed

lemma mem_frame [simp]:
  "buf_holds b n (s\<lparr>mem := m\<rparr>) = buf_holds b n s" "disk_block (s\<lparr>mem := m\<rparr>) = disk_block s"
  by (simp_all add: buf_holds_def fun_eq_iff disk_block_def)

lemma mem_fields [simp]:
  fixes s :: "'a fs_state_scheme"
  shows "fslots (s\<lparr>mem := m\<rparr>) = fslots s" "faddr (s\<lparr>mem := m\<rparr>) = faddr s" "fblock (s\<lparr>mem := m\<rparr>) = fblock s"
    "ftree ip (s\<lparr>mem := m\<rparr>) = ftree ip s" "mine (s\<lparr>mem := m\<rparr>) = mine s"
    "free_block_of (s\<lparr>mem := m\<rparr>) = free_block_of s"
    "others_same ip (s\<lparr>mem := m\<rparr>) t = others_same ip s t" "others_same ip t (s\<lparr>mem := m\<rparr>) = others_same ip t s"
  by (simp_all add: fun_eq_iff fslots_def faddr_def fblock_def ftree_def mine_def free_block_of_def others_same_def)

lemma store_ok_patch:
  fixes s :: "'a fs_state_scheme"
  assumes "store_ok k H s" and "foreign_range s a n"
  shows "store_ok k H (s\<lparr>mem := patch a n g (mem s)\<rparr>)"
  using patch_frame(1)[OF store_okD(3)[OF assms(1)] assms(2)]
  by (intro store_ok_step[OF assms(1)]) simp_all

text \<open>A step of the store commutes with a change of foreign memory.\<close>

lemma fs_rel_patch:
  fixes s t :: "'a fs_state_scheme"
  assumes r: "fs_rel ip s t" and ok: "cache_ok H s" "cache_ok H' t" and f: "foreign_range s a n"
  shows "fs_rel ip (s\<lparr>mem := patch a n g (mem s)\<rparr>) (t\<lparr>mem := patch a n g (mem t)\<rparr>)"
proof -
  have ft: "foreign_range t a n" using f fs_relD(8)[OF r] by (simp add: foreign_range_def)
  have c: "calm (s\<lparr>mem := patch a n g (mem s), inode_cache := inode_cache t\<rparr>) (t\<lparr>mem := patch a n g (mem t)\<rparr>)"
    using fs_relD(5)[OF r] by (auto simp: calm_def hart_same_def cpu_defs myproc_def)
  have st: "store_rel (s\<lparr>inode_cache := inode_cache t\<rparr>) t" using r by (simp add: fs_rel_def)
  have m: "mem_rel (s\<lparr>mem := patch a n g (mem s), inode_cache := inode_cache t\<rparr>) (t\<lparr>mem := patch a n g (mem t)\<rparr>)"
    using fs_relD(7,8)[OF r] patch_frame(2)[OF ok(1) f] patch_frame(2)[OF ok(2) ft]
    by (auto simp: mem_rel_def patch_def)
  have "disk_state.more (t\<lparr>mem := m'\<rparr>) = disk_state.more (s\<lparr>mem := m'', inode_cache := inode_cache t\<rparr>)" for m' m''
    using st by (cases s; cases t) (simp add: store_rel_def)
  then show ?thesis using c m st fs_relD(6)[OF r] by (auto simp: fs_rel_def store_rel_def)
qed

lemma grow_patch:
  fixes s t :: "'a fs_state_scheme"
  assumes "grow ip s t" and "cache_ok H s" "cache_ok H' t" and "foreign_range s a n"
  shows "grow ip (s\<lparr>mem := patch a n g (mem s)\<rparr>) (t\<lparr>mem := patch a n g (mem t)\<rparr>)"
  using assms(1) fs_rel_patch[OF _ assms(2-4)] by (simp add: grow_def)

lemma foreign_range_rel: "fs_rel ip s t \<Longrightarrow> foreign_range s a n \<Longrightarrow> foreign_range t a n"
  using fs_relD(8)[of ip s t] by (auto simp: foreign_range_def)

section \<open>Bytes of a file\<close>

definition fbyte :: "'a fs_state_scheme \<Rightarrow> nat \<Rightarrow> nat \<Rightarrow> u8" where
  "fbyte s ip i = fblock s ip (i div 4096) (i mod 4096)"

definition mapped :: "'a fs_state_scheme \<Rightarrow> nat \<Rightarrow> nat \<Rightarrow> bool" where
  "mapped s ip i \<longleftrightarrow> faddr s ip (data_node (i div 4096)) \<noteq> 0"

lemma block_index:
  fixes cur :: u32
  shows "unat (cur div 4096) = unat cur div 4096" "unat (cur mod 4096) = unat cur mod 4096"
    "unat (cur div 4096) < MAX_BLOCKS"
proof -
  show d: "unat (cur div 4096) = unat cur div 4096" "unat (cur mod 4096) = unat cur mod 4096" 
    by (simp_all add: unat_div unat_mod)
  have "unat cur < 2 ^ 32" using unsigned_less[of cur, where 'a = nat] by simp
  then show "unat (cur div 4096) < MAX_BLOCKS" by (simp add: d less_mult_imp_div_less)
qed

lemma same_block:
  fixes c i n :: nat
  assumes "c mod 4096 + n \<le> 4096" and "i < n"
  shows "(c + i) div 4096 = c div 4096" "(c + i) mod 4096 = c mod 4096 + i"
proof -
  have "4096 * (c div 4096) \<le> c + i" "c + i < 4096 * (c div 4096) + 4096"
    using assms mult_div_mod_eq[of 4096 c] by linarith+
  then show d: "(c + i) div 4096 = c div 4096" by (intro div_nat_eqI) simp_all
  show "(c + i) mod 4096 = c mod 4096 + i" using d mult_div_mod_eq[of 4096 c] mult_div_mod_eq[of 4096 "c + i"] by linarith
qed

text \<open>A file has 4 gigabytes of contents: every offset of 32 bits has a leaf, so only a full disk stops it.\<close>

lemma locate_byte:
  fixes s :: "'a fs_state_scheme"
  assumes s: "store_ok (Suc (Suc k)) H s" and tr: "ftree ip s" and H: "data_free H (sb s)"
  shows "\<exists>v t. locate_or_add_block ip (cur div 4096) s = Inr (v, t) \<and> store_ok (Suc (Suc k)) H t \<and> keeps s t \<and> grow ip s t \<and>
    (if v = -1 then free_block_of t = None \<and> \<not> mapped t ip (unat cur)
     else v \<noteq> 0 \<and> v = faddr t ip (data_node (unat cur div 4096)))"
proof -
  from locate_ok[OF s tr H, of "cur div 4096"] obtain v t where t: "locate_or_add_block ip (cur div 4096) s = Inr (v, t)"
    "store_ok (Suc (Suc k)) H t" "keeps s t" "grow ip s t" "block_result ip (cur div 4096) v t" by blast
  have "if v = -1 then free_block_of t = None \<and> \<not> mapped t ip (unat cur)
      else v \<noteq> 0 \<and> v = faddr t ip (data_node (unat cur div 4096))"
    using t(5) block_index[of cur] unfolding block_result_def mapped_def by (auto split: if_splits)
  then show ?thesis using t(1-4) by blast
qed

section \<open>Reading\<close>

lemma read_piece:
  fixes s :: "'a fs_state_scheme" and cur n :: u32
  assumes s: "store_ok (Suc k) H s" and tr: "ftree ip s" and H: "data_free H (sb s)"
    and v: "v = faddr s ip (data_node (unat cur div 4096))" "v \<noteq> 0"
    and n: "unat cur mod 4096 + unat n \<le> 4096" and f: "foreign_range s a (unat n)"
  shows "\<exists>b t u. buffer_get v s = Inr (b, t) \<and>
    buffer_put b (t\<lparr>mem := memcpy (mem t) a (data (the_buf t b) + ucast (cur mod 4096)) n\<rparr>) = Inr u \<and>
    store_ok (Suc k) H u \<and> keeps s u \<and> still s u \<and>
    grow ip (s\<lparr>mem := patch a (unat n) (\<lambda>i. fbyte s ip (unat cur + i)) (mem s)\<rparr>) u"
proof -
  let ?l = "data_node (unat cur div 4096)" and ?m = "unat cur mod 4096"
  have lf: "vnode ?l" using leaf_vnode[OF block_index(3)[of cur]] by (simp add: block_index(1))
  have vH: "v \<notin> H" using tree_free[OF tr lf, of H] v H by (auto simp: data_free_def)
  from get_table[OF s tr lf v vH] obtain b t where t: "buffer_get v s = Inr (b, t)" "store_ok k (insert v H) t" "grow ip s t"
    "buf_holds b v t" "\<forall>c m. buf_holds c m s \<longrightarrow> c \<noteq> b \<and> buf_holds c m t" "faddr t ip = faddr s ip" "still s t" by blast
  note ok = store_okD[OF t(2)] and gt = growD[OF t(3)]
  have ft: "foreign_range t a (unat n)" by (rule foreign_range_rel[OF gt(1) f])
  let ?d = "data (the_buf t b)"
  have ad: "?d + ucast (cur mod 4096) = ?d + of_nat ?m"
    by (simp flip: block_index(2))
  have pm: "mem t (?d + of_nat ?m + of_nat i) = fbyte s ip (unat cur + i)" if i: "i < unat n" for i
  proof -
    have mi: "?m + i < 4096" using n i by simp
    have "mem t (?d + of_nat ?m + of_nat i) = buf_page t b (?m + i)" using mi by (simp add: buf_page_def add.assoc)
    also have "\<dots> = disk_block t v (?m + i)" by (simp add: page_is_block[OF ok(3) t(4)])
    also have "disk_block t v = fblock t ip (unat cur div 4096)" using v t(6) by (simp add: fblock_def)
    also have "\<dots> = fblock s ip (unat cur div 4096)" using gt(6) block_index(1,3)[of cur] by metis
    finally show ?thesis using same_block[OF n i] by (simp add: fbyte_def)
  qed
  have nd: "?d + ucast (cur mod 4096) + of_nat i \<noteq> a" if i: "i < unat n" for i
  proof
    assume e: "?d + ucast (cur mod 4096) + of_nat i = a"
    have "foreign t a" using foreign_rangeD[OF ft, of 0] i by simp
    moreover have "unat (a - ?d) < 4096"
    proof -
      have "a - ?d = of_nat (?m + i)" using e by (simp add: ad add.assoc[symmetric] flip: e)
      then show ?thesis using n i by (simp add: unat_of_nat_small64 del: of_nat_add)
    qed
    ultimately show False using foreign_page[OF ok(3) t(4)] by blast
  qed
  have un: "unat n \<le> 2 ^ 32" using unsigned_less[of n, where 'a = nat] by simp
  have cp: "memcpy (mem t) a (?d + ucast (cur mod 4096)) n = patch a (unat n) (\<lambda>i. fbyte s ip (unat cur + i)) (mem t)"
  proof -
    have "memcpy (mem t) a (?d + ucast (cur mod 4096)) n =
        patch a (unat n) (\<lambda>i. mem t (?d + ucast (cur mod 4096) + of_nat i)) (mem t)"
      unfolding memcpy_def by (rule copy_disjoint[OF un]) (rule nd)
    also have "\<dots> = patch a (unat n) (\<lambda>i. fbyte s ip (unat cur + i)) (mem t)"
      unfolding ad by (rule patch_cong) (rule pm)
    finally show ?thesis .
  qed
  let ?g = "\<lambda>i. fbyte s ip (unat cur + i)"
  let ?t = "t\<lparr>mem := patch a (unat n) ?g (mem t)\<rparr>"
  from put_table[OF store_ok_patch[OF t(2) ft, of ?g], of ip b] t(4) vH gt(2) store_okD(4)[OF s] obtain u where
    u: "buffer_put b ?t = Inr u" "store_ok (Suc k) H u" "grow ip ?t u"
    "\<forall>c m. buf_holds c m t \<longrightarrow> c \<noteq> b \<longrightarrow> buf_holds c m u" "still ?t u" by auto
  have "grow ip (s\<lparr>mem := patch a (unat n) ?g (mem s)\<rparr>) ?t"
    by (rule grow_patch[OF t(3) store_okD(3)[OF s] ok(3) f])
  then have "grow ip (s\<lparr>mem := patch a (unat n) ?g (mem s)\<rparr>) u"
    using grow_trans u(3) store_okD(2)[OF s] by fastforce
  moreover have "keeps s u" using t(5) u(4) by (simp add: keeps_def)
  moreover have "still s u" using t(7) u(5) by (simp add: still_def)
  ultimately show ?thesis using t(1) u(1,2) by (auto simp: cp)
qed

lemma read_loop_step:
  "read_loop ip dst cur stop tot s =
    (if cur < stop then
       bnd (locate_or_add_block ip (cur div 4096) s) (\<lambda>(v, s).
       if v = -1 then Inr (tot, s)
       else
         bnd (buffer_get v s) (\<lambda>(b, s).
         bnd (buffer_put b (s\<lparr>mem := memcpy (mem s) (dst + ucast tot) (data (the_buf s b) + ucast (cur mod 4096)) (piece cur stop)\<rparr>))
           (\<lambda>s. read_loop ip dst (cur + piece cur stop) stop (tot + piece cur stop) s)))
     else Inr (tot, s))"
  by (subst read_loop.simps) (simp only: Let_def)

lemma ucast_add: "unat a + unat n < 2 ^ 32 \<Longrightarrow> ucast (a + n) = (ucast a + of_nat (unat n) :: u64)" for a n :: u32
  by (simp add: word_unat_eq_iff unat_word_ariths)

lemma fbyte_mem [simp]: "fbyte ((s :: 'a fs_state_scheme)\<lparr>mem := m\<rparr>) = fbyte s"
  by (simp add: fun_eq_iff fbyte_def)

lemma grow_fbyte: "grow ip s t \<Longrightarrow> i < 2 ^ 32 \<Longrightarrow> fbyte t ip i = fbyte s ip i"
  using growD(6)[of ip s t "i div 4096"] by (simp add: fbyte_def less_mult_imp_div_less)

lemma extend_mapped:
  assumes "\<And>q. vnode q \<Longrightarrow> faddr s ip q \<noteq> 0 \<Longrightarrow> faddr t ip q = faddr s ip q" and "i < 2 ^ 32" and "mapped s ip i"
  shows "mapped t ip i"
proof -
  have "i div 4096 < MAX_BLOCKS" using assms(2) by (simp add: less_mult_imp_div_less)
  then show ?thesis using assms(1)[OF conjunct1[OF leaf_vnode]] assms(3) by (simp add: mapped_def)
qed

lemma mapped_back: "grow ip s t \<Longrightarrow> i < 2 ^ 32 \<Longrightarrow> \<not> mapped t ip i \<Longrightarrow> \<not> mapped s ip i"
  using extend_mapped[of s ip t i] growD(7)[of ip s t] by blast

lemma mapped_mem [simp]: "mapped ((s :: 'a fs_state_scheme)\<lparr>mem := m\<rparr>) = mapped s"
  by (simp add: fun_eq_iff mapped_def)

lemma read_loop_ok:
  fixes s :: "'a fs_state_scheme"
  assumes "store_ok (Suc (Suc k)) H s" and "ftree ip s" and "data_free H (sb s)"
    and "foreign_range s (dst + ucast tot) (unat stop - unat cur)" and "unat tot + (unat stop - unat cur) < 2 ^ 32"
  shows "\<exists>n t. read_loop ip dst cur stop tot s = Inr (tot + of_nat n, t) \<and> n \<le> unat stop - unat cur \<and>
    store_ok (Suc (Suc k)) H t \<and> keeps s t \<and>
    grow ip (s\<lparr>mem := patch (dst + ucast tot) n (\<lambda>i. fbyte s ip (unat cur + i)) (mem s)\<rparr>) t \<and>
    (n < unat stop - unat cur \<longrightarrow> free_block_of t = None \<and> \<not> mapped s ip (unat cur + n)) \<and>
    ((\<forall>i < unat stop - unat cur. mapped s ip (unat cur + i)) \<longrightarrow> still s t)"
  using assms
proof (induction "unat stop - unat cur" arbitrary: cur tot s rule: less_induct)
  case less
  note s = less.prems
  show ?case
  proof (cases "cur < stop")
    case False
    then have z: "unat stop - unat cur = 0" by (simp add: word_less_nat_alt)
    have r: "read_loop ip dst cur stop tot s = Inr (tot, s)" using False by (subst read_loop_step) simp
    show ?thesis unfolding r z by (rule exI[of _ 0], rule exI[of _ s]) (use s(1) grow_refl[OF s(2)] in simp)
  next
    case lt: True
    note pb = piece_bounds[OF lt]
    have curM: "unat cur < 2 ^ 32" using unsigned_less[of cur, where 'a = nat] by simp
    let ?n = "piece cur stop"
    from locate_byte[OF s(1-3), of cur] obtain v t where t: "locate_or_add_block ip (cur div 4096) s = Inr (v, t)"
      "store_ok (Suc (Suc k)) H t" "keeps s t" "grow ip s t"
      "if v = -1 then free_block_of t = None \<and> \<not> mapped t ip (unat cur)
       else v \<noteq> 0 \<and> v = faddr t ip (data_node (unat cur div 4096))" by blast
    note gt = growD[OF t(4)]
    have st: "still s t" if "mapped s ip (unat cur)"
      using locate_there[OF s(1-3), of "cur div 4096"] t(1) that block_index[of cur] by (auto simp: mapped_def)
    have lt0: "0 < unat stop - unat cur" using lt by (simp add: word_less_nat_alt)
    have m0: "mapped s ip (unat cur)" if "\<forall>i < unat stop - unat cur. mapped s ip (unat cur + i)"
      using that[rule_format, OF lt0] by simp
    show ?thesis
    proof (cases "v = -1")
      case True
      have r: "read_loop ip dst cur stop tot s = Inr (tot + of_nat 0, t)"
        using lt True t(1) by (subst read_loop_step) simp
      show ?thesis unfolding r by (rule exI[of _ 0], rule exI[of _ t])
        (use True t(1-4) t(5)[unfolded if_P[OF True]] mapped_back[OF t(4) curM] m0 in auto)
    next
      case False
      then have v: "v = faddr t ip (data_node (unat cur div 4096))" "v \<noteq> 0" using t(5)[unfolded if_not_P[OF False]] by blast+
      have ft: "foreign_range t (dst + ucast tot) (unat stop - unat cur)" by (rule foreign_range_rel[OF gt(1) s(4)])
      have fn: "foreign_range t (dst + ucast tot) (unat ?n)"
        using foreign_range_sub[OF ft, of 0 "unat ?n"] pb(3) by simp
      have Ht: "data_free H (sb t)" using s(3) by (simp add: gt(4))
      from read_piece[OF t(2) gt(2) Ht v pb(4) fn] obtain b t2 u where u: "buffer_get v t = Inr (b, t2)"
        "buffer_put b (t2\<lparr>mem := memcpy (mem t2) (dst + ucast tot) (data (the_buf t2 b) + ucast (cur mod 4096)) ?n\<rparr>) = Inr u"
        "store_ok (Suc (Suc k)) H u" "keeps t u"
        "grow ip (t\<lparr>mem := patch (dst + ucast tot) (unat ?n) (\<lambda>i. fbyte t ip (unat cur + i)) (mem t)\<rparr>) u" "still t u" by blast
      let ?g = "\<lambda>i. fbyte s ip (unat cur + i)"
      have fb: "fbyte t ip (unat cur + i) = ?g i" if "i < unat ?n" for i
        using same_block(1)[OF pb(4) that] gt(6) block_index(1,3)[of cur] by (metis fbyte_def)
      note gu = growD[OF u(5)]
      have su: "grow ip (s\<lparr>mem := patch (dst + ucast tot) (unat ?n) ?g (mem s)\<rparr>) u"
      proof -
        have fs: "foreign_range s (dst + ucast tot) (unat ?n)" using foreign_range_sub[OF s(4), of 0 "unat ?n"] pb(3) by simp
        have "grow ip (t\<lparr>mem := patch (dst + ucast tot) (unat ?n) ?g (mem t)\<rparr>) u"
          using u(5) patch_cong[OF fb, of "unat ?n" "\<lambda>i. i" "dst + ucast tot" "mem t"] by simp
        then show ?thesis
          using grow_trans[OF grow_patch[OF t(4) store_okD(3)[OF s(1)] store_okD(3)[OF t(2)] fs]] store_okD(2)[OF s(1)] by simp
      qed
      have un: "unat (cur + ?n) = unat cur + unat ?n" by (rule pb(2))
      have le: "unat stop - unat (cur + ?n) = unat stop - unat cur - unat ?n" by (simp add: un)
      have tn: "unat (tot + ?n) = unat tot + unat ?n" "ucast (tot + ?n) = (ucast tot + of_nat (unat ?n) :: u64)"
        using s(5) pb(3) by (simp_all add: unat_word_ariths ucast_add del: of_nat_unat)
      have fu: "foreign_range u (dst + ucast (tot + ?n)) (unat stop - unat (cur + ?n))"
        using foreign_range_rel[OF growD(1)[OF su], of "dst + ucast tot + of_nat (unat ?n)" "unat stop - unat cur - unat ?n"]
          foreign_range_sub[OF s(4), of "unat ?n" "unat stop - unat cur - unat ?n"] pb(3)
          patch_frame(2)[OF store_okD(3)[OF s(1)] foreign_range_sub[OF s(4), of 0 "unat ?n", simplified]]
        by (simp add: foreign_range_def tn(2) le add.assoc)
      have "unat stop - unat (cur + ?n) < unat stop - unat cur" using piece_decreases[OF lt] .
      from less.hyps[OF this u(3) gu(2) _ fu] s(3,5) pb(3) obtain n w where
        w: "read_loop ip dst (cur + ?n) stop (tot + ?n) u = Inr (tot + ?n + of_nat n, w)" "n \<le> unat stop - unat (cur + ?n)"
          "store_ok (Suc (Suc k)) H w" "keeps u w"
          "grow ip (u\<lparr>mem := patch (dst + ucast (tot + ?n)) n (\<lambda>i. fbyte u ip (unat (cur + ?n) + i)) (mem u)\<rparr>) w"
          "n < unat stop - unat (cur + ?n) \<longrightarrow> free_block_of w = None \<and> \<not> mapped u ip (unat (cur + ?n) + n)"
          "(\<forall>i < unat stop - unat (cur + ?n). mapped u ip (unat (cur + ?n) + i)) \<longrightarrow> still u w"
        by (auto simp: gu(4) gt(4) tn(1) le)
      have cat: "patch (dst + ucast (tot + ?n)) n (\<lambda>i. fbyte u ip (unat (cur + ?n) + i)) (patch (dst + ucast tot) (unat ?n) ?g (mem s))
          = patch (dst + ucast tot) (unat ?n + n) ?g (mem s)" (is "patch _ _ ?h _ = _")
      proof -
        have st: "unat stop < 2 ^ 32" using unsigned_less[of stop, where 'a = nat] by simp
        have "unat ?n + n < 2 ^ 32" using w(2) pb(3) st by (simp add: le)
        then have "patch (dst + ucast (tot + ?n)) n ?h (patch (dst + ucast tot) (unat ?n) ?g (mem s)) =
            patch (dst + ucast tot) (unat ?n + n) (\<lambda>i. if i < unat ?n then ?g i else ?h (i - unat ?n)) (mem s)"
          unfolding tn(2) add.assoc[symmetric] by (rule patch_patch)
        also have "\<dots> = patch (dst + ucast tot) (unat ?n + n) ?g (mem s)"
          by (rule patch_cong) (use w(2) pb(3) st in \<open>auto simp: un le intro!: grow_fbyte[OF su, simplified fbyte_mem]\<close>)
        finally show ?thesis .
      qed
      have f1: "foreign_range s (dst + ucast tot) (unat ?n)" using foreign_range_sub[OF s(4), of 0 "unat ?n"] pb(3) by simp
      have f2: "foreign_range (s\<lparr>mem := patch (dst + ucast tot) (unat ?n) ?g (mem s)\<rparr>) (dst + ucast (tot + ?n)) n"
        using foreign_range_sub[OF s(4), of "unat ?n" n] w(2) pb(3) patch_frame(2)[OF store_okD(3)[OF s(1)] f1]
        by (simp add: foreign_range_def tn(2) le add.assoc)
      have "grow ip (s\<lparr>mem := patch (dst + ucast tot) (unat ?n + n) ?g (mem s)\<rparr>) w"
        using grow_trans[OF grow_patch[OF su patch_frame(1)[OF store_okD(3)[OF s(1)] f1] store_okD(3)[OF u(3)] f2] w(5)]
          store_okD(2)[OF s(1)] cat by simp
      moreover have "read_loop ip dst cur stop tot s = Inr (tot + of_nat (unat ?n + n), w)"
        using lt False t(1) u(1,2) w(1) by (subst read_loop_step) (simp add: add.assoc)
      moreover have "keeps s w" using keeps_trans[OF keeps_trans[OF t(3) u(4)] w(4)] .
      moreover have "\<not> mapped s ip (unat cur + (unat ?n + n))" if "unat ?n + n < unat stop - unat cur"
      proof -
        have b: "unat cur + (unat ?n + n) < 2 ^ 32" using that unsigned_less[of stop, where 'a = nat] by simp
        have "\<not> mapped u ip (unat cur + (unat ?n + n))" using w(6) that by (simp add: un le add.assoc less_diff_conv)
        then show ?thesis using mapped_back[OF su b] by simp
      qed
      moreover have "still s w" if m: "\<forall>i < unat stop - unat cur. mapped s ip (unat cur + i)"
      proof -
        have su: "still s u" by (rule still_trans[OF st[OF m0[OF m]] u(6)])
        have "mapped u ip (unat (cur + ?n) + i)" if "i < unat stop - unat (cur + ?n)" for i
          using m[rule_format, of "unat ?n + i"] that pb(3) still_faddr[OF su] by (simp add: mapped_def un le add.assoc)
        then show ?thesis using w(7) still_trans[OF su] by blast
      qed
      ultimately show ?thesis using w(2,3,6) pb(3) by (intro exI[of _ "unat ?n + n"] exI[of _ w]) (auto simp: le)
    qed
  qed
qed

section \<open>Writing\<close>

text \<open>What \<open>grow\<close> says, but for the contents of the file.\<close>

definition extend :: "nat \<Rightarrow> 'a fs_state_scheme \<Rightarrow> 'a fs_state_scheme \<Rightarrow> bool" where
  "extend ip s t \<longleftrightarrow> fs_rel ip s t \<and> ftree ip t \<and> others_same ip s t \<and>
     the_inode t ip = (the_inode s ip)\<lparr>disk_info := (info s ip)\<lparr>i_index := fslots t ip\<rparr>\<rparr> \<and>
     (\<forall>q. vnode q \<longrightarrow> faddr s ip q \<noteq> 0 \<longrightarrow> faddr t ip q = faddr s ip q)"

lemma extendD:
  assumes "extend ip s t"
  shows "fs_rel ip s t" "ftree ip t" "others_same ip s t" "sb t = sb s"
    "the_inode t ip = (the_inode s ip)\<lparr>disk_info := (info s ip)\<lparr>i_index := fslots t ip\<rparr>\<rparr>"
    "vnode q \<Longrightarrow> faddr s ip q \<noteq> 0 \<Longrightarrow> faddr t ip q = faddr s ip q"
  using assms fs_relD(1)[of ip s t] by (auto simp: extend_def)

lemma grow_extend: "grow ip s t \<Longrightarrow> extend ip s t"
  by (simp add: grow_def extend_def)

lemma extend_trans:
  assumes "extend ip s t" and "extend ip t u" and "area_ok (sb s)"
  shows "extend ip s u"
proof -
  note a = extendD[OF assms(1)] and b = extendD[OF assms(2)]
  have "mine u ip m" if "mine t ip m" "m \<noteq> 0" for m using that b(6) unfolding mine_def by metis
  from others_same_trans[OF a(3) b(3) a(4) this assms(3)] have "others_same ip s u" .
  moreover have "faddr u ip q = faddr s ip q" if "vnode q" "faddr s ip q \<noteq> 0" for q
    using a(6)[OF that] b(6)[OF that(1)] that(2) by simp
  ultimately show ?thesis using fs_rel_trans[OF a(1) b(1)] a(5) b(2,5) by (simp add: extend_def)
qed

text \<open>New contents for the block of a leaf.\<close>

lemma leaf_write:
  fixes s t :: "'a fs_state_scheme"
  assumes tr: "ftree ip s" and ar: "area_ok (sb s)" and m: "m < MAX_BLOCKS" and v: "v = faddr s ip (data_node m)" "v \<noteq> 0"
    and r: "store_rel s t" and d: "disk_block t = (disk_block s)(v := d)"
  shows "extend ip s t" "n < MAX_BLOCKS \<Longrightarrow> fblock t ip n = (if n = m then d else fblock s ip n)"
    "\<And>n. in_area (sb s) n \<Longrightarrow> used (sb s) (disk_block t) n = used (sb s) (disk_block s) n" "in_area (sb s) v"
    "used (sb s) (disk_block s) v"
proof -
  note f = store_rel_fs[OF r] and l = leaf_vnode[OF m]
  have vt: "in_area (sb s) v" "used (sb s) (disk_block s) v" "\<And>q. vnode q \<Longrightarrow> faddr s ip q = v \<Longrightarrow> q = data_node m"
    using tree_invD[OF tr[unfolded ftree_def] conjunct1[OF l], folded faddr_def] v by auto
  show "in_area (sb s) v" "used (sb s) (disk_block s) v" by (rule vt)+
  have fs: "fslots t ip = fslots s ip" by (simp add: fslots_def f)
  have a: "vnode q \<Longrightarrow> faddr t ip q = faddr s ip q" for q
  proof (induction q)
    case (Entry q i)
    then have q: "faddr t ip q = faddr s ip q" "vnode q" "0 < depth q" by simp_all
    then have "faddr s ip q \<noteq> v" using vt(3)[of q] l by auto
    then show ?case using q(1) by (simp add: faddr_def d)
  qed (simp add: faddr_def fs)
  show us: "used (sb s) (disk_block t) n = used (sb s) (disk_block s) n" if "in_area (sb s) n" for n
    using bmap_outside[OF ar] vt(1) by (intro used_cong[OF ar that]) (auto simp: d)
  have mi: "mine t ip n = mine s ip n" for n using a by (auto simp: mine_def)
  have "mine s ip v" using v l by (auto simp: mine_def)
  then have "others_same ip s t" using us vt(1) by (auto simp: others_same_def mi d)
  moreover have "ftree ip t"
    using tr us unfolding ftree_def tree_inv_def faddr_def[symmetric] f(1)
    by (auto simp: a)
  ultimately show "extend ip s t" using store_fs_rel[OF r] a by (simp add: extend_def f fslots_def)
  show "fblock t ip n = (if n = m then d else fblock s ip n)" if n: "n < MAX_BLOCKS"
  proof -
    have "faddr s ip (data_node n) = v \<longleftrightarrow> n = m" using vt(3) leaf_vnode[OF n] leaf_inj[OF n m] v by auto
    then show ?thesis using a[of "data_node n"] leaf_vnode[OF n] v by (auto simp: fblock_def d)
  qed
qed

lemma put_bytes_cong: "(\<And>i. i < n \<Longrightarrow> f i = g i) \<Longrightarrow> put_bytes k n f d = put_bytes k n g d"
  by (auto simp: put_bytes_def fun_eq_iff)

lemma page_copy_in:
  fixes n :: u32
  assumes ok: "cache_ok H s" and h: "buf_holds b v s" and f: "foreign_range s a (unat n)" and o: "o' + unat n \<le> 4096"
  shows "page_changed b s (s\<lparr>mem := memcpy (mem s) (data (the_buf s b) + of_nat o') a n\<rparr>) \<and>
    buf_page (s\<lparr>mem := memcpy (mem s) (data (the_buf s b) + of_nat o') a n\<rparr>) b =
      put_bytes o' (unat n) (\<lambda>i. mem s (a + of_nat i)) (buf_page s b)"
proof (rule page_write[where f = "put_bytes o' (unat n) (\<lambda>i. mem s (a + of_nat i))"])
  let ?d = "data (the_buf s b)"
  have un: "unat n \<le> 2 ^ 32" using unsigned_less[of n, where 'a = nat] by simp
  have "memcpy (mem s) (?d + of_nat o') a n = patch (?d + of_nat o') (unat n) (\<lambda>i. mem s (a + of_nat i)) (mem s)"
    unfolding memcpy_def
  proof (rule copy_disjoint[OF un])
    fix i assume i: "i < unat n"
    then have "\<not> unat (a + of_nat i - ?d) < 4096" using foreign_page[OF ok h foreign_rangeD[OF f]] by simp
    moreover have "unat (?d + of_nat o' - ?d) < 4096" using o i by (simp add: unat_of_nat_small64)
    ultimately show "a + of_nat i \<noteq> ?d + of_nat o'" by metis
  qed
  then have w: "memcpy (mem s) (?d + of_nat o') a n x =
      (if o' \<le> unat (x - ?d) \<and> unat (x - ?d) < o' + unat n then mem s (a + of_nat (unat (x - ?d) - o')) else mem s x)" for x
    using in_range_shift[of o' "unat n" "x - ?d"] o by (auto simp: patch_def diff_diff_eq)
  show "memcpy (mem s) (?d + of_nat o') a n x = mem s x" if "\<not> unat (x - ?d) < 4096" for x
    using that o by (simp add: w)
  show "memcpy (mem s) (?d + of_nat o') a n (?d + of_nat k) = put_bytes o' (unat n) (\<lambda>i. mem s (a + of_nat i)) (buf_page s b) k"
    if "k < 4096" for k
    using that by (simp add: w put_bytes_def buf_page_def unat_of_nat_small64)
  show "put_bytes o' (unat n) (\<lambda>i. mem s (a + of_nat i)) (buf_page s b) k = 0" if "\<not> k < 4096" for k
    using that o by (simp add: put_bytes_def buf_page_def)
qed

lemma write_piece:
  fixes s :: "'a fs_state_scheme" and cur n :: u32
  assumes s: "store_ok (Suc k) H s" and tr: "ftree ip s" and H: "data_free H (sb s)"
    and v: "v = faddr s ip (data_node (unat cur div 4096))" "v \<noteq> 0"
    and n: "unat cur mod 4096 + unat n \<le> 4096" and f: "foreign_range s a (unat n)"
  shows "\<exists>b t u w. buffer_get v s = Inr (b, t) \<and>
    buffer_write b (t\<lparr>mem := memcpy (mem t) (data (the_buf t b) + ucast (cur mod 4096)) a n\<rparr>) = Inr u \<and>
    buffer_put b u = Inr w \<and> store_ok (Suc k) H w \<and> keeps s w \<and> extend ip s w \<and>
    (\<forall>i < 2 ^ 32. fbyte w ip i = (if unat cur \<le> i \<and> i < unat cur + unat n then mem s (a + of_nat (i - unat cur)) else fbyte s ip i)) \<and>
    (\<forall>i < unat n. mapped w ip (unat cur + i))"
proof -
  let ?k = "unat cur div 4096" and ?m = "unat cur mod 4096"
  have kM: "?k < MAX_BLOCKS" using block_index(1,3)[of cur] by simp
  have lf: "vnode (data_node ?k)" using leaf_vnode[OF kM] by simp
  have vH: "v \<notin> H" using tree_free[OF tr lf, of H] v H by (auto simp: data_free_def)
  have va: "in_area (sb s) v" using tree_invD(1)[OF tr[unfolded ftree_def] lf] v by (simp add: faddr_def)
  have ad: "ucast (cur mod 4096) = (of_nat ?m :: u64)" by (simp flip: block_index(2))
  let ?src = "\<lambda>i. mem s (a + of_nat i)"
  let ?f = "put_bytes ?m (unat n) ?src"
  have "\<exists>b t u w. buffer_get v s = Inr (b, t) \<and> buf_page t b = disk_block s v \<and> store_rel s t \<and>
    buffer_write b (t\<lparr>mem := memcpy (mem t) (data (the_buf t b) + of_nat ?m) a n\<rparr>) = Inr u \<and> buffer_put b u = Inr w \<and>
    cache_ok H w \<and> disk_block w = (disk_block s)(v := ?f (disk_block s v)) \<and> store_rel s w \<and> keeps s w"
    unfolding keeps_def
  proof (rule blocks.modify[OF can_getD[OF store_ok_get[OF s va vH]]])
    fix b and t :: "'a fs_state_scheme"
    assume t: "cache_ok (insert v H) t" "buf_holds b v t" "store_rel s t" "buf_page t b = disk_block s v"
    have ft: "foreign_range t a (unat n)" by (rule foreign_range_rel[OF store_fs_rel[OF t(3)] f])
    have "put_bytes ?m (unat n) (\<lambda>i. mem t (a + of_nat i)) d = ?f d" for d
      by (rule put_bytes_cong) (rule fs_relD(7)[OF store_fs_rel[OF t(3)] foreign_rangeD[OF f]])
    then show "page_changed b t (t\<lparr>mem := memcpy (mem t) (data (the_buf t b) + of_nat ?m) a n\<rparr>) \<and>
        buf_page (t\<lparr>mem := memcpy (mem t) (data (the_buf t b) + of_nat ?m) a n\<rparr>) b = ?f (disk_block s v)"
      using page_copy_in[OF t(1,2) ft n] t(4) by simp
  qed
  then obtain b t u w where w: "buffer_get v s = Inr (b, t)"
    "buffer_write b (t\<lparr>mem := memcpy (mem t) (data (the_buf t b) + of_nat ?m) a n\<rparr>) = Inr u" "buffer_put b u = Inr w"
    "cache_ok H w" "disk_block w = (disk_block s)(v := ?f (disk_block s v))" "store_rel s w" "keeps s w" by blast
  note lw = leaf_write[OF tr store_okD(2)[OF s] kM v w(6,5)]
  have "store_ok (Suc k) H w" by (rule store_ok_step[OF s w(4)]) (simp_all add: store_rel_fs[OF w(6)] lw(3))
  moreover have "fbyte w ip i = (if unat cur \<le> i \<and> i < unat cur + unat n then ?src (i - unat cur) else fbyte s ip i)"
    if i: "i < 2 ^ 32" for i
  proof -
    have iM: "i div 4096 < MAX_BLOCKS" using i by (simp add: less_mult_imp_div_less)
    have o: "disk_block s v = fblock s ip ?k" using v by (simp add: fblock_def)
    have c: "unat cur = 4096 * ?k + ?m" "i = 4096 * (i div 4096) + i mod 4096" by simp_all
    show ?thesis
    proof (cases "i div 4096 = ?k")
      case True
      then have "?m \<le> i mod 4096 \<longleftrightarrow> unat cur \<le> i" "i mod 4096 < ?m + unat n \<longleftrightarrow> i < unat cur + unat n"
        "i mod 4096 - ?m = i - unat cur" using c by linarith+
      then show ?thesis using True lw(2)[OF iM] by (simp add: fbyte_def put_bytes_def o)
    next
      case False
      then have "\<not> (unat cur \<le> i \<and> i < unat cur + unat n)"
        using same_block(1)[OF n, of "i - unat cur"] by (cases "unat cur \<le> i \<and> i < unat cur + unat n") (simp_all add: less_diff_conv2)
      then show ?thesis using False lw(2)[OF iM] by (auto simp: fbyte_def)
    qed
  qed
  moreover have "mapped w ip (unat cur + i)" if "i < unat n" for i
    using extendD(6)[OF lw(1) lf] v same_block(1)[OF n that] by (simp add: mapped_def)
  ultimately show ?thesis using w lw(1) unfolding ad by blast
qed

lemma write_loop_step:
  "write_loop ip src cur stop tot s =
    (if cur < stop then
       bnd (locate_or_add_block ip (cur div 4096) s) (\<lambda>(v, s).
       if v = -1 then Inr (tot, s)
       else
         bnd (buffer_get v s) (\<lambda>(b, s).
         bnd (buffer_write b (s\<lparr>mem := memcpy (mem s) (data (the_buf s b) + ucast (cur mod 4096)) (src + ucast tot) (piece cur stop)\<rparr>)) (\<lambda>s.
         bnd (buffer_put b s) (\<lambda>s. write_loop ip src (cur + piece cur stop) stop (tot + piece cur stop) s))))
     else Inr (tot, s))"
  by (subst write_loop.simps) (simp only: Let_def)

lemma write_loop_ok:
  fixes s :: "'a fs_state_scheme"
  assumes "store_ok (Suc (Suc k)) H s" and "ftree ip s" and "data_free H (sb s)"
    and "foreign_range s (src + ucast tot) (unat stop - unat cur)" and "unat tot + (unat stop - unat cur) < 2 ^ 32"
  shows "\<exists>n t. write_loop ip src cur stop tot s = Inr (tot + of_nat n, t) \<and> n \<le> unat stop - unat cur \<and>
    store_ok (Suc (Suc k)) H t \<and> keeps s t \<and> extend ip s t \<and>
    (\<forall>i < 2 ^ 32. fbyte t ip i = (if unat cur \<le> i \<and> i < unat cur + n then mem s (src + ucast tot + of_nat (i - unat cur))
       else fbyte s ip i)) \<and>
    (\<forall>i < n. mapped t ip (unat cur + i)) \<and>
    (n < unat stop - unat cur \<longrightarrow> free_block_of t = None \<and> \<not> mapped s ip (unat cur + n))"
  using assms
proof (induction "unat stop - unat cur" arbitrary: cur tot s rule: less_induct)
  case less
  note s = less.prems
  note ar = store_okD(2)[OF s(1)]
  show ?case
  proof (cases "cur < stop")
    case False
    then have z: "unat stop - unat cur = 0" by (simp add: word_less_nat_alt)
    have r: "write_loop ip src cur stop tot s = Inr (tot, s)" using False by (subst write_loop_step) simp
    show ?thesis unfolding r z
      by (rule exI[of _ 0], rule exI[of _ s]) (use s(1) grow_extend[OF grow_refl[OF s(2)]] in auto)
  next
    case lt: True
    note pb = piece_bounds[OF lt]
    let ?n = "piece cur stop"
    have cur32: "unat cur < 2 ^ 32" using unsigned_less[of cur, where 'a = nat] by simp
    from locate_byte[OF s(1-3), of cur] obtain v t where t: "locate_or_add_block ip (cur div 4096) s = Inr (v, t)"
      "store_ok (Suc (Suc k)) H t" "keeps s t" "grow ip s t"
      "if v = -1 then free_block_of t = None \<and> \<not> mapped t ip (unat cur)
       else v \<noteq> 0 \<and> v = faddr t ip (data_node (unat cur div 4096))" by blast
    note gt = growD[OF t(4)]
    show ?thesis
    proof (cases "v = -1")
      case True
      have r: "write_loop ip src cur stop tot s = Inr (tot + of_nat 0, t)"
        using lt True t(1) by (subst write_loop_step) simp
      show ?thesis unfolding r
        by (rule exI[of _ 0], rule exI[of _ t]) (use True t(1-3) t(5)[unfolded if_P[OF True]] grow_fbyte[OF t(4)] grow_extend[OF t(4)]
            mapped_back[OF t(4) cur32] in auto)
    next
      case False
      then have v: "v = faddr t ip (data_node (unat cur div 4096))" "v \<noteq> 0" using t(5)[unfolded if_not_P[OF False]] by blast+
      have ft: "foreign_range t (src + ucast tot) (unat stop - unat cur)" by (rule foreign_range_rel[OF gt(1) s(4)])
      have fn: "foreign_range t (src + ucast tot) (unat ?n)"
        using foreign_range_sub[OF ft, of 0 "unat ?n"] pb(3) by simp
      have Ht: "data_free H (sb t)" using s(3) by (simp add: gt(4))
      from write_piece[OF t(2) gt(2) Ht v pb(4) fn] obtain b t2 u0 u where u: "buffer_get v t = Inr (b, t2)"
        "buffer_write b (t2\<lparr>mem := memcpy (mem t2) (data (the_buf t2 b) + ucast (cur mod 4096)) (src + ucast tot) ?n\<rparr>) = Inr u0"
        "buffer_put b u0 = Inr u" "store_ok (Suc (Suc k)) H u" "keeps t u" "extend ip t u"
        "\<forall>i < 2 ^ 32. fbyte u ip i = (if unat cur \<le> i \<and> i < unat cur + unat ?n
           then mem t (src + ucast tot + of_nat (i - unat cur)) else fbyte t ip i)"
        "\<forall>i < unat ?n. mapped u ip (unat cur + i)" by blast
      have su: "extend ip s u" by (rule extend_trans[OF grow_extend[OF t(4)] u(6) ar])
      note eu = extendD[OF su]
      have un: "unat (cur + ?n) = unat cur + unat ?n" by (rule pb(2))
      have le: "unat stop - unat (cur + ?n) = unat stop - unat cur - unat ?n" by (simp add: un)
      have tn: "unat (tot + ?n) = unat tot + unat ?n" "src + ucast (tot + ?n) = src + ucast tot + of_nat (unat ?n)"
        using s(5) pb(3) by (simp_all add: unat_word_ariths ucast_add add.assoc del: of_nat_unat)
      have fu: "foreign_range u (src + ucast (tot + ?n)) (unat stop - unat (cur + ?n))"
        unfolding tn(2) le by (rule foreign_range_sub[OF foreign_range_rel[OF eu(1) s(4)]]) (use pb(3) in simp)
      have "unat stop - unat (cur + ?n) < unat stop - unat cur" using piece_decreases[OF lt] .
      from less.hyps[OF this u(4) eu(2) _ fu] s(3,5) pb(3) obtain n w where
        w: "write_loop ip src (cur + ?n) stop (tot + ?n) u = Inr (tot + ?n + of_nat n, w)" "n \<le> unat stop - unat (cur + ?n)"
          "store_ok (Suc (Suc k)) H w" "keeps u w" "extend ip u w"
          "\<forall>i < 2 ^ 32. fbyte w ip i = (if unat (cur + ?n) \<le> i \<and> i < unat (cur + ?n) + n
             then mem u (src + ucast (tot + ?n) + of_nat (i - unat (cur + ?n))) else fbyte u ip i)"
          "n < unat stop - unat (cur + ?n) \<longrightarrow> free_block_of w = None \<and> \<not> mapped u ip (unat (cur + ?n) + n)"
          "\<forall>i < n. mapped w ip (unat (cur + ?n) + i)"
        by (auto simp: eu(4) tn(1) le)
      have sm: "mem u (src + ucast tot + of_nat i) = mem s (src + ucast tot + of_nat i)" if "i < unat stop - unat cur" for i
        by (rule fs_relD(7)[OF eu(1) foreign_rangeD[OF s(4) that]])
      have tm: "mem t (src + ucast tot + of_nat i) = mem s (src + ucast tot + of_nat i)" if "i < unat stop - unat cur" for i
        by (rule fs_relD(7)[OF gt(1) foreign_rangeD[OF s(4) that]])
      have "fbyte w ip i = (if unat cur \<le> i \<and> i < unat cur + (unat ?n + n)
          then mem s (src + ucast tot + of_nat (i - unat cur)) else fbyte s ip i)" if i: "i < 2 ^ 32" for i
      proof -
        consider (a) "i < unat cur" | (b) "unat cur \<le> i" "i < unat cur + unat ?n"
          | (c) "unat cur + unat ?n \<le> i" "i < unat cur + unat ?n + n" | (d) "unat cur + unat ?n + n \<le> i" by linarith
        then show ?thesis
        proof cases
          case c
          then have "unat ?n + (i - unat (cur + ?n)) = i - unat cur" by (simp add: un)
          then have "src + ucast (tot + ?n) + of_nat (i - unat (cur + ?n)) = src + ucast tot + of_nat (i - unat cur)"
            unfolding tn(2) add.assoc of_nat_add[symmetric] by simp
          note e = this
          have l: "i - unat cur < unat stop - unat cur" using c w(2) by (simp add: un)
          have "fbyte w ip i = mem u (src + ucast (tot + ?n) + of_nat (i - unat (cur + ?n)))"
            by (subst w(6)[rule_format, OF i], subst if_P) (use c in \<open>simp_all add: un\<close>)
          then show ?thesis unfolding e sm[OF l] using c by simp
        next
          case b
          then have "i - unat cur < unat stop - unat cur" using pb(3) by linarith
          note l = this
          have "fbyte w ip i = fbyte u ip i" by (subst w(6)[rule_format, OF i], subst if_not_P) (use b in \<open>simp_all add: un\<close>)
          also have "\<dots> = mem t (src + ucast tot + of_nat (i - unat cur))"
            by (subst u(7)[rule_format, OF i], subst if_P) (use b in simp_all)
          finally show ?thesis unfolding tm[OF l] using b by simp
        qed (use w(6) u(7) i grow_fbyte[OF t(4)] in \<open>auto simp: un\<close>)
      qed
      moreover have "write_loop ip src cur stop tot s = Inr (tot + of_nat (unat ?n + n), w)"
        using lt False t(1) u(1-3) w(1) by (subst write_loop_step) (simp add: add.assoc)
      moreover have "keeps s w" using keeps_trans[OF keeps_trans[OF t(3) u(5)] w(4)] .
      moreover have "extend ip s w" by (rule extend_trans[OF su w(5) ar])
      moreover have "mapped w ip (unat cur + i)" if i: "i < unat ?n + n" for i
      proof (cases "i < unat ?n")
        case True
        have "unat cur + i < 2 ^ 32" using True pb(3) unsigned_less[of stop, where 'a = nat] by simp
        then show ?thesis using extend_mapped[OF extendD(6)[OF w(5)]] u(8) True by blast
      next
        case False
        then have "unat (cur + ?n) + (i - unat ?n) = unat cur + i" "i - unat ?n < n" using i by (simp_all add: un)
        then show ?thesis using w(8) by metis
      qed
      moreover have "\<not> mapped s ip (unat cur + (unat ?n + n))" if l: "unat ?n + n < unat stop - unat cur"
      proof -
        have "\<not> mapped u ip (unat cur + (unat ?n + n))" using w(7) that by (simp add: un le add.assoc less_diff_conv)
        moreover have "unat cur + (unat ?n + n) < 2 ^ 32" using l unsigned_less[of stop, where 'a = nat] by simp
        ultimately show ?thesis using extend_mapped[OF eu(6)] by blast
      qed
      ultimately show ?thesis using w(2,3,7) pb(3) by (intro exI[of _ "unat ?n + n"] exI[of _ w]) (auto simp: le)
    qed
  qed
qed

section \<open>Reads and writes of a file\<close>

definition has_data :: "'a fs_state_scheme \<Rightarrow> nat \<Rightarrow> bool" where
  "has_data s ip \<longleftrightarrow> i_type (info s ip) = INODE_TYPE_DATA \<or> i_type (info s ip) = INODE_TYPE_DIR"

text \<open>What a read of \<open>len\<close> bytes at \<open>off\<close> is clipped to by the size of the file.\<close>

definition avail :: "'a fs_state_scheme \<Rightarrow> nat \<Rightarrow> nat \<Rightarrow> nat \<Rightarrow> nat" where
  "avail s ip off len = min (off + len) (unat (i_size (info s ip))) - off"

lemma inode_read_data_ok:
  fixes s :: "'a fs_state_scheme"
  assumes s: "store_ok (Suc (Suc k)) H s" "ftree ip s" "data_free H (sb s)" and h: "has_data s ip"
    and o: "unat off + unat len < 2 ^ 32" and f: "foreign_range s dst (unat len)"
  shows "\<exists>n t. inode_read_data ip off len dst u s = Inr (of_nat n, t) \<and> n \<le> avail s ip (unat off) (unat len) \<and>
    store_ok (Suc (Suc k)) H t \<and> keeps s t \<and>
    grow ip (s\<lparr>mem := patch dst n (\<lambda>i. fbyte s ip (unat off + i)) (mem s)\<rparr>) t \<and>
    (n < avail s ip (unat off) (unat len) \<longrightarrow> free_block_of t = None \<and> \<not> mapped s ip (unat off + n)) \<and>
    ((\<forall>i < avail s ip (unat off) (unat len). mapped s ip (unat off + i)) \<longrightarrow> still s t)"
proof -
  let ?stop = "if off + len > i_size (info s ip) then i_size (info s ip) else off + len"
  have ol: "unat (off + len) = unat off + unat len" using o by (simp add: unat_word_ariths)
  have av: "unat ?stop - unat off = avail s ip (unat off) (unat len)"
    by (auto simp: avail_def word_less_nat_alt ol min_def)
  have le: "avail s ip (unat off) (unat len) \<le> unat len" by (simp add: avail_def)
  have f': "foreign_range s (dst + ucast (0 :: u32)) (unat ?stop - unat off)"
    using foreign_range_sub[OF f, of 0] le by (simp add: av)
  have z: "unat (0 :: u32) + (unat ?stop - unat off) < 2 ^ 32"
    unfolding av using le unsigned_less[of len, where 'a = nat] by simp
  have "inode_read_data ip off len dst u s = read_loop ip dst off ?stop 0 s"
    using h by (auto simp: inode_read_data_def has_data_def Let_def)
  then show ?thesis using read_loop_ok[OF s f' z] unfolding av by simp
qed

text \<open>The inode block is neither held nor in the bitmap or the data area.\<close>

definition meta_ok :: "u32 set \<Rightarrow> nat \<Rightarrow> 'a fs_state_scheme \<Rightarrow> bool" where
  "meta_ok H ip s \<longleftrightarrow> inode_block ip s < 0x20000000 \<and> inode_block ip s \<notin> H \<and> \<not> in_area (sb s) (inode_block ip s) \<and>
     inode_block ip s \<notin> bmap_blocks (sb s)"

lemma addr_same:
  assumes t: "tree_inv b D f" and d: "\<And>m. in_area b m \<Longrightarrow> D' m = D m"
  shows "vnode q \<Longrightarrow> addr D' f q = addr D f q"
proof (induction q)
  case (Entry q i)
  then have "addr D' f q = addr D f q" "vnode q" by simp_all
  then show ?case using d[OF tree_invD(1)[OF t]] by (cases "addr D f q = 0") simp_all
qed simp

text \<open>Writing back the inode changes no block of a file.\<close>

lemma inode_rw_write_grow:
  fixes s :: "'a fs_state_scheme"
  assumes s: "store_ok k H s" and tr: "ftree ip s" and m: "meta_ok H ip s"
  shows "\<exists>t. inode_rw ip True s = Inr t \<and> store_ok k H t \<and> store_rel s t \<and> keeps s t \<and> ftree ip t \<and>
    (\<forall>n < MAX_BLOCKS. fblock t ip n = fblock s ip n) \<and> (\<forall>q. vnode q \<longrightarrow> faddr t ip q = faddr s ip q) \<and>
    disk_block t = inode_put_disk (inode_firstblock (sb s)) (inode_num (the_inode s ip)) (info s ip) (disk_block s)"
proof -
  have "can_get H (inode_block ip s) s" using m store_okD(3,4)[OF s] by (simp add: can_get_def meta_ok_def)
  from inode_rw_write_ok[OF this] obtain t where t: "inode_rw ip True s = Inr t" "cache_ok H t" "store_rel s t" "keeps s t"
    "disk_block t = inode_put_disk (inode_firstblock (sb s)) (inode_num (the_inode s ip)) (info s ip) (disk_block s)" by blast
  note f = store_rel_fs[OF t(3)] and ar = store_okD(2)[OF s]
  have d: "disk_block t n = disk_block s n" if "n \<noteq> inode_block ip s" for n
    using that by (simp add: t(5) inode_put_disk_def inode_block_def Let_def)
  have da: "disk_block t n = disk_block s n" if "in_area (sb s) n" for n
    by (rule d) (use m that in \<open>auto simp: meta_ok_def\<close>)
  have us: "used (sb s) (disk_block t) n = used (sb s) (disk_block s) n" if "in_area (sb s) n" for n
    by (rule used_cong[OF ar that], rule d) (use m in \<open>auto simp: meta_ok_def\<close>)
  have fs: "fslots t ip = fslots s ip" by (simp add: fslots_def f)
  have a: "vnode q \<Longrightarrow> faddr t ip q = faddr s ip q" for q
    unfolding faddr_def fs by (rule addr_same[OF tr[unfolded ftree_def] da])
  have "ftree ip t"
    using tr us unfolding ftree_def tree_inv_def faddr_def[symmetric] f(1) by (auto simp: a)
  moreover have "fblock t ip n = fblock s ip n" if "n < MAX_BLOCKS" for n
    using a[OF conjunct1[OF leaf_vnode[OF that]]] da[OF tree_invD(1)[OF tr[unfolded ftree_def] conjunct1[OF leaf_vnode[OF that]]]]
    by (auto simp: fblock_def faddr_def)
  moreover have "store_ok k H t" by (rule store_ok_step[OF s t(2)]) (simp_all add: f us)
  ultimately show ?thesis using t a by blast
qed

text \<open>
  A write: the bytes \<open>off\<close>, ..., \<open>off + n - 1\<close> are those at \<open>src\<close>, the other bytes of the file are as
  before; \<open>n\<close> is less than \<open>len\<close> only when the disk is full, and the size grows to the end of the write.
\<close>

definition new_size :: "'a fs_state_scheme \<Rightarrow> nat \<Rightarrow> u32 \<Rightarrow> nat \<Rightarrow> u32" where
  "new_size s ip off n = (if 0 < n \<and> unat (i_size (info s ip)) < unat off + n then off + of_nat n else i_size (info s ip))"

lemma inode_write_data_ok:
  fixes s :: "'a fs_state_scheme"
  assumes s: "store_ok (Suc (Suc k)) H s" "ftree ip s" "data_free H (sb s)" and m: "meta_ok H ip s"
    and o: "unat off + unat len < 2 ^ 32" and f: "foreign_range s src (unat len)"
  shows "\<exists>n t. inode_write_data ip off len src u s = Inr (of_nat n, t) \<and> n \<le> unat len \<and>
    store_ok (Suc (Suc k)) H t \<and> keeps s t \<and> fs_rel ip s t \<and> ftree ip t \<and>
    the_inode t ip = (the_inode s ip)\<lparr>disk_info := (info s ip)\<lparr>i_index := fslots t ip, i_size := new_size s ip off n\<rparr>\<rparr> \<and>
    (\<forall>i < 2 ^ 32. fbyte t ip i = (if unat off \<le> i \<and> i < unat off + n then mem s (src + of_nat (i - unat off)) else fbyte s ip i)) \<and>
    (\<forall>i < n. mapped t ip (unat off + i)) \<and> (n < unat len \<longrightarrow> free_block_of t = None \<and> \<not> mapped s ip (unat off + n)) \<and>
    (\<forall>b. in_area (sb s) b \<longrightarrow> used (sb s) (disk_block s) b \<longrightarrow> \<not> mine s ip b \<longrightarrow> disk_block t b = disk_block s b) \<and>
    (\<forall>b. \<not> in_area (sb s) b \<longrightarrow> b \<notin> bmap_blocks (sb s) \<longrightarrow> b \<noteq> inode_block ip s \<longrightarrow> disk_block t b = disk_block s b) \<and>
    (new_size s ip off n = i_size (info s ip) \<longrightarrow> disk_block t (inode_block ip s) = disk_block s (inode_block ip s)) \<and>
    (new_size s ip off n \<noteq> i_size (info s ip) \<longrightarrow>
       disk_inode (disk_block t) (inode_firstblock (sb s)) (inode_num (the_inode s ip)) = inode_view (info t ip)) \<and>
    (\<forall>q. vnode q \<longrightarrow> faddr s ip q \<noteq> 0 \<longrightarrow> faddr t ip q = faddr s ip q)"
proof -
  have ol: "unat (off + len) = unat off + unat len" using o by (simp add: unat_word_ariths)
  have nb: "\<not> off + len > 0xFFFFFFFF"
    using unsigned_less[of "off + len", where 'a = nat] by (simp add: word_less_nat_alt not_less)
  have f': "foreign_range s (src + ucast (0 :: u32)) (unat (off + len) - unat off)" using f by (simp add: ol)
  have z: "unat (0 :: u32) + (unat (off + len) - unat off) < 2 ^ 32"
    using unsigned_less[of len, where 'a = nat] by (simp add: ol)
  note wl = write_loop_ok[OF s f' z, unfolded ol, simplified unsigned_0 add_0_right add_0_left add_diff_cancel_left']
  from wl obtain n t where t: "write_loop ip src off (off + len) 0 s = Inr (of_nat n, t)"
    "n \<le> unat len" "store_ok (Suc (Suc k)) H t" "keeps s t" "extend ip s t"
    "\<forall>i < 2 ^ 32. fbyte t ip i = (if unat off \<le> i \<and> i < unat off + n then mem s (src + of_nat (i - unat off)) else fbyte s ip i)"
    "\<forall>i < n. mapped t ip (unat off + i)" "n < unat len \<longrightarrow> free_block_of t = None \<and> \<not> mapped s ip (unat off + n)"
    by blast
  note et = extendD[OF t(5)] and ot = extendD(3)[OF t(5), unfolded others_same_def]
  have un: "unat (of_nat n :: u32) = n" using t(2) unsigned_less[of len, where 'a = nat] by (simp add: unat_of_nat)
  have uo: "unat (off + of_nat n) = unat off + n" using o t(2) by (simp add: unat_word_ariths un)
  have size: "i_size (info t ip) = i_size (info s ip)" by (simp add: et(5))
  have ib: "inode_block ip t = inode_block ip s" by (simp add: inode_block_def et(4,5))
  have grows: "(of_nat n :: u32) > 0 \<and> off + of_nat n > i_size (info t ip) \<longleftrightarrow>
      0 < n \<and> unat (i_size (info s ip)) < unat off + n"
    by (simp add: word_less_nat_alt un uo size)
  have frame: "disk_block t b = disk_block s b" if "\<not> in_area (sb s) b" "b \<notin> bmap_blocks (sb s)" for b
    using ot that by blast
  show ?thesis
  proof (cases "0 < n \<and> unat (i_size (info s ip)) < unat off + n")
    case False
    have "inode_write_data ip off len src u s = Inr (of_nat n, t)"
    proof -
      have "\<not> ((of_nat n :: u32) > 0 \<and> off + of_nat n > i_size (info t ip))" using grows False by blast
      then show ?thesis using nb t(1) by (auto simp: inode_write_data_def Let_def)
    qed
    moreover have "new_size s ip off n = i_size (info s ip)" using False by (auto simp: new_size_def)
    moreover have "disk_block t (inode_block ip s) = disk_block s (inode_block ip s)"
      by (rule frame) (use m in \<open>auto simp: meta_ok_def\<close>)
    moreover have "disk_block t b = disk_block s b" if "in_area (sb s) b" "used (sb s) (disk_block s) b" "\<not> mine s ip b" for b
      using ot that by blast
    ultimately show ?thesis using t et(1,2,5,6) frame by (intro exI[of _ n] exI[of _ t]) simp
  next
    case True
    let ?t = "upd_info ip (\<lambda>d. d\<lparr>i_size := off + of_nat n\<rparr>) t"
    have upd: "?t = upd_inode ip (\<lambda>i. i\<lparr>disk_info := (disk_info i)\<lparr>i_size := off + of_nat n\<rparr>\<rparr>) t" by (simp add: upd_info_def)
    have fields: "sb ?t = sb t" "disk_block ?t = disk_block t" "fslots ?t ip = fslots t ip" "inode_num (the_inode ?t ip) = inode_num (the_inode t ip)"
      "faddr ?t ip = faddr t ip" "fblock ?t ip = fblock t ip" "ftree ip ?t = ftree ip t" "keeps ?t = keeps t" "mem ?t = mem t"
      "inode_block ip ?t = inode_block ip t"
      by (simp_all add: upd upd_inode_frame fun_eq_iff fslots_def faddr_def fblock_def ftree_def keeps_def inode_block_def)
        (simp_all add: upd_inode_def)
    have so: "store_ok (Suc (Suc k)) H ?t"
      using store_ok_same[OF t(3), of ?t] cache_ok_inode[OF store_okD(3)[OF t(3)]] fields(1,2) by (simp add: upd)
    have mo: "meta_ok H ip ?t" using m by (simp add: meta_ok_def fields ib et(4))
    from inode_rw_write_grow[OF so _ mo] et(2) obtain w where w: "inode_rw ip True ?t = Inr w" "store_ok (Suc (Suc k)) H w"
      "store_rel ?t w" "keeps t w" "ftree ip w" "\<forall>n < MAX_BLOCKS. fblock w ip n = fblock t ip n"
      "\<forall>q. vnode q \<longrightarrow> faddr w ip q = faddr t ip q"
      "disk_block w = inode_put_disk (inode_firstblock (sb s)) (inode_num (the_inode s ip)) (info ?t ip) (disk_block t)"
      by (auto simp: fields et(4,5))
    note fw = store_rel_fs[OF w(3)]
    have "inode_write_data ip off len src u s = Inr (of_nat n, w)"
      using nb t(1) True grows w(1) by (simp add: inode_write_data_def Let_def)
    moreover have ns: "new_size s ip off n = off + of_nat n" using True by (simp add: new_size_def)
    moreover have "off + of_nat n \<noteq> i_size (info s ip)" using True uo by auto
    moreover have "keeps s w" by (rule keeps_trans[OF t(4) w(4)])
    moreover have "fs_rel ip s w"
      using fs_rel_trans[OF fs_rel_trans[OF et(1) fs_rel_upd] store_fs_rel[OF w(3)[unfolded upd]]] .
    moreover have "the_inode w ip = (the_inode s ip)\<lparr>disk_info := (info s ip)\<lparr>i_index := fslots w ip, i_size := off + of_nat n\<rparr>\<rparr>"
    proof -
      have "fslots w ip = fslots t ip" by (simp add: fslots_def fw upd upd_inode_def)
      then show ?thesis by (simp add: fw upd upd_inode_def et(5))
    qed
    moreover have "fbyte w ip i = fbyte t ip i" if "i < 2 ^ 32" for i
      using w(6)[rule_format, of "i div 4096"] that by (simp add: fbyte_def less_mult_imp_div_less)
    moreover have "mapped w ip (unat off + i)" if "i < n" for i
    proof -
      have "unat off + i < 2 ^ 32" using that t(2) o by simp
      then show ?thesis using t(7) that w(7) by (intro extend_mapped[of t ip w]) auto
    qed
    moreover have d: "disk_block w b = disk_block t b" if "b \<noteq> inode_block ip s" for b
      using that by (simp add: w(8) inode_put_disk_def inode_block_def Let_def)
    moreover have "free_block_of w = free_block_of t"
    proof -
      have "map_bit (disk_block w) (data_bitmap_firstblock (sb s)) j = map_bit (disk_block t) (data_bitmap_firstblock (sb s)) j"
        if "j < unat (data_blocks (sb s))" for j
        using used_bmap[OF store_okD(2)[OF s(1)] area_block(2)[OF store_okD(2)[OF s(1)] that]] m
        by (intro map_bit_cong d) (auto simp: meta_ok_def area_block(1)[OF store_okD(2)[OF s(1)] that])
      then show ?thesis unfolding free_block_of_def clear_from_def fw(1) fields(1) et(4)
        by (intro find_cong) auto
    qed
    moreover have "disk_inode (disk_block w) (inode_firstblock (sb s)) (inode_num (the_inode s ip)) = inode_view (info w ip)"
      by (simp add: w(8) disk_inode_put_same fw)
    moreover have "disk_block t b = disk_block s b" if "in_area (sb s) b" "used (sb s) (disk_block s) b" "\<not> mine s ip b" for b
      using ot that by blast
    moreover have "b \<noteq> inode_block ip s" if "in_area (sb s) b" for b using m that by (auto simp: meta_ok_def)
    moreover have "faddr w ip q = faddr s ip q" if "vnode q" "faddr s ip q \<noteq> 0" for q
      using w(7) et(6)[OF that] that(1) by simp
    ultimately show ?thesis using t(2,6,8) w(2,5) frame by (intro exI[of _ n] exI[of _ w]) simp
  qed
qed

text \<open>What was written is read back, up to the last byte the disk had room for.\<close>

lemma write_read:
  fixes s :: "'a fs_state_scheme"
  assumes s: "store_ok (Suc (Suc k)) H s" "ftree ip s" "data_free H (sb s)" and m: "meta_ok H ip s" and h: "has_data s ip"
    and o: "unat off + unat len < 2 ^ 32" and f: "foreign_range s src (unat len)" and g: "foreign_range s dst (unat len)"
  shows "\<exists>n t w. inode_write_data ip off len src u s = Inr (of_nat n, t) \<and> n \<le> unat len \<and>
    (n < unat len \<longrightarrow> free_block_of t = None) \<and> inode_read_data ip off (of_nat n) dst v t = Inr (of_nat n, w) \<and>
    (\<forall>i < n. mem w (dst + of_nat i) = mem s (src + of_nat i))"
proof -
  from inode_write_data_ok[OF s m o f, of u] obtain n t where t: "inode_write_data ip off len src u s = Inr (of_nat n, t)"
    "n \<le> unat len" "store_ok (Suc (Suc k)) H t" "fs_rel ip s t" "ftree ip t"
    "the_inode t ip = (the_inode s ip)\<lparr>disk_info := (info s ip)\<lparr>i_index := fslots t ip, i_size := new_size s ip off n\<rparr>\<rparr>"
    "\<forall>i < 2 ^ 32. fbyte t ip i = (if unat off \<le> i \<and> i < unat off + n then mem s (src + of_nat (i - unat off)) else fbyte s ip i)"
    "\<forall>i < n. mapped t ip (unat off + i)" "n < unat len \<longrightarrow> free_block_of t = None" by blast
  have un: "unat (of_nat n :: u32) = n" using t(2) unsigned_less[of len, where 'a = nat] by (simp add: unat_of_nat)
  have uo: "unat (off + of_nat n) = unat off + n" using o t(2) by (simp add: unat_word_ariths un)
  have size: "i_size (info t ip) = new_size s ip off n" by (simp add: t(6))
  have av: "avail t ip (unat off) n = n" by (auto simp: avail_def size new_size_def uo min_def)
  have Ht: "data_free H (sb t)" using s(3) by (simp add: fs_relD(1)[OF t(4)])
  have ht: "has_data t ip" using h by (simp add: has_data_def t(6))
  have ot: "unat off + unat (of_nat n :: u32) < 2 ^ 32" using o t(2) un by simp
  have gt: "foreign_range t dst (unat (of_nat n :: u32))"
    using foreign_range_sub[OF foreign_range_rel[OF t(4) g], of 0 n] t(2) by (simp add: un)
  from inode_read_data_ok[OF t(3,5) Ht ht ot gt, of v] obtain r w where
    w: "inode_read_data ip off (of_nat n) dst v t = Inr (of_nat r, w)" "r \<le> n"
      "grow ip (t\<lparr>mem := patch dst r (\<lambda>i. fbyte t ip (unat off + i)) (mem t)\<rparr>) w"
      "r < n \<longrightarrow> free_block_of w = None \<and> \<not> mapped t ip (unat off + r)" unfolding un av by blast
  have rn: "r = n" using w(2,4) t(8) by (cases "r < n") auto
  have "mem w (dst + of_nat i) = mem s (src + of_nat i)" if i: "i < n" for i
  proof -
    have n32: "n < 2 ^ 32" using t(2) unsigned_less[of len, where 'a = nat] by simp
    have gr: "foreign_range t dst n" using gt by (simp add: un)
    have "foreign (t\<lparr>mem := patch dst r (\<lambda>i. fbyte t ip (unat off + i)) (mem t)\<rparr>) (dst + of_nat i)"
      using patch_frame(2)[OF store_okD(3)[OF t(3)] gr] foreign_rangeD[OF gr i] by (simp add: rn)
    from fs_relD(7)[OF growD(1)[OF w(3)] this]
    have "mem w (dst + of_nat i) = fbyte t ip (unat off + i)" using patch_in[OF n32 i] by (simp add: rn)
    then show ?thesis using t(7) i o t(2) by simp
  qed
  then show ?thesis using t(1,2,9) w(1) rn by blast
qed

end
