(* ===== verification/InodeLock.thy ===== *)
theory InodeLock
  imports FileData Tables
begin

text \<open>
  The sleeplock of an inode around the operations on it: taking and releasing it changes nothing that the
  block store, the block maps and the directories are about.
\<close>

section \<open>Steps beside the store\<close>

text \<open>\<open>t\<close> differs from \<open>s\<close> in the running hart, in processes that were woken, and in sleeplocks other than those of buffers.\<close>

definition lock_rel :: "'a fs_state_scheme \<Rightarrow> 'a fs_state_scheme \<Rightarrow> bool" where
  "lock_rel s t \<longleftrightarrow> calm s t \<and> (\<forall>j. slocks t (LkBufSlk j) = slocks s (LkBufSlk j)) \<and>
     (\<exists>c pp sl. t = s\<lparr>cpus := c, proc_pool := pp, slocks := sl\<rparr>)"

lemma lock_rel_same:
  assumes "lock_rel s t"
  shows "bufs t = bufs s" "mem t = mem s" "pool k t = pool k s" "disk_image t = disk_image s" "device t = device s"
    "vq_ok t = vq_ok s" "dev_ok t = dev_ok s" "sb t = sb s" "inode_cache t = inode_cache s" "file_table t = file_table s"
    "device_table t = device_table s" "rodata t = rodata s" "lv t = lv s"
  using assms by (auto simp: lock_rel_def pool_def vq_ok_def dev_ok_def)

lemma lock_rel_kpt:
  assumes "lock_rel s t"
  shows "kpt_ok t = kpt_ok s" "ktabs t = ktabs s"
proof -
  obtain c pp sl where t: "t = s\<lparr>cpus := c, proc_pool := pp, slocks := sl\<rparr>" using assms unfolding lock_rel_def by blast
  show "kpt_ok t = kpt_ok s" "ktabs t = ktabs s" by (rule kpt_same; simp add: t pool_def)+
qed

lemma lock_relI:
  assumes "calm s t" and "\<And>j. slocks t (LkBufSlk j) = slocks s (LkBufSlk j)" and "t = s\<lparr>cpus := c, proc_pool := pp, slocks := sl\<rparr>"
  shows "lock_rel s t"
  using assms unfolding lock_rel_def by blast

lemma lock_rel_refl: "lock_rel s s"
  by (rule lock_relI[where c = "cpus s" and pp = "proc_pool s" and sl = "slocks s"]) simp_all

lemma lock_rel_trans: "lock_rel s t \<Longrightarrow> lock_rel t u \<Longrightarrow> lock_rel s u"
  unfolding lock_rel_def by (elim exE conjE, intro conjI, (erule (1) calm_trans), simp, simp, (intro exI), rule refl)

lemma lock_rel_ctx:
  assumes "lock_rel s t"
  shows "cpu_ok t = cpu_ok s" "free_lock l t = free_lock l s" "procs_free t = procs_free s" "myproc t = myproc s"
  using assms calm_ctx[of s t] by (auto simp: lock_rel_def)

lemma lock_rel_bc:
  assumes "lock_rel s t"
  shows "bc_ok t R F D = bc_ok s R F D"
proof -
  note l = lock_rel_same[OF assms] lock_rel_ctx[OF assms] lock_rel_kpt[OF assms]
  have p: "kernel_pool t = kernel_pool s" "user_pool t = user_pool s" using l(3)[of True] l(3)[of False] by (simp_all add: pool_def)
  have "slocks t (LkBufSlk j) = slocks s (LkBufSlk j)" for j using assms by (simp add: lock_rel_def)
  then show ?thesis by (simp add: bc_ok_def pmem_ok_def pool_ok_def pages_ok_def slk_ok_def clean_def l p)
qed

lemma lock_rel_store:
  assumes "lock_rel s t"
  shows "cache_ok H s \<Longrightarrow> cache_ok H t" "foreign t x = foreign s x" "disk_block t = disk_block s" "still s t"
    "store_ok k H s \<Longrightarrow> store_ok k H t" "foreign_range t a n = foreign_range s a n"
proof -
  note l = lock_rel_same[OF assms] lock_rel_bc[OF assms] lock_rel_kpt[OF assms]
  show c: "cache_ok H t" if h: "cache_ok H s" for H
  proof -
    obtain R F p where b: "bc_ok s R F {}" "kctx s p" "H = (\<lambda>i. block_num (the_buf s i)) ` set (R True)"
      "card (pageless s) \<le> length (F False)" using h unfolding cache_ok_def cache_mid_def by blast
    have "pageless t = pageless s" by (simp add: pageless_def l)
    moreover have "kctx t p" using assms b(2) calm_kctx unfolding lock_rel_def by blast
    ultimately show ?thesis using b unfolding cache_ok_def cache_mid_def
      by (intro exI[of _ R] exI[of _ F] exI[of _ p]) (simp add: l)
  qed
  show f: "foreign t x = foreign s x" for x by (simp add: foreign_def owned_def l)
  show d: "disk_block t = disk_block s" by (simp add: disk_block_def fun_eq_iff l)
  then show "still s t" by (simp add: still_def l)
  show "store_ok k H s \<Longrightarrow> store_ok k H t" using store_ok_same[OF _ c[OF store_okD(3)] l(8) d] by blast
  show "foreign_range t a n = foreign_range s a n" by (simp add: foreign_range_def f)
qed

lemma lock_rel_file:
  assumes "lock_rel s t"
  shows "ftree ip t = ftree ip s" "fbyte t ip = fbyte s ip" "mapped t ip = mapped s ip" "meta_ok H ip t = meta_ok H ip s"
    "free_block_of t = free_block_of s" "inode_block ip t = inode_block ip s" "faddr t ip = faddr s ip"
proof -
  note l = lock_rel_same[OF assms] lock_rel_store(3)[OF assms]
  show f: "faddr t ip = faddr s ip" for ip by (rule still_faddr[OF lock_rel_store(4)[OF assms]])
  show "ftree ip t = ftree ip s" "free_block_of t = free_block_of s"
    by (simp_all add: ftree_def fslots_def free_block_of_def l)
  show m: "mapped t ip = mapped s ip" "fbyte t ip = fbyte s ip"
    by (rule ext, simp add: mapped_def fbyte_def fblock_def f l)+
  show "inode_block ip t = inode_block ip s" by (simp add: inode_block_def l)
  then show "meta_ok H ip t = meta_ok H ip s" by (simp add: meta_ok_def l)
qed

section \<open>The lock of an inode\<close>

text \<open>Free to be taken; and held by the running process.\<close>

definition unlocked :: "nat \<Rightarrow> 'a fs_state_scheme \<Rightarrow> bool" where
  "unlocked ip s \<longleftrightarrow> free_lock (LkInodeSlk ip) s \<and> \<not> slk_locked (slocks s (LkInodeSlk ip))"

definition locked_by_me :: "nat \<Rightarrow> 'a fs_state_scheme \<Rightarrow> bool" where
  "locked_by_me ip s \<longleftrightarrow> free_lock (LkInodeSlk ip) s \<and> slk_locked (slocks s (LkInodeSlk ip)) \<and>
     (\<exists>p. myproc s = Some p \<and> slk_pid (slocks s (LkInodeSlk ip)) = pid (proc_pool s p))"

lemma cache_ok_kctx: "cache_ok H s \<Longrightarrow> \<exists>p. kctx s p"
  by (auto simp: cache_ok_def cache_mid_def)

lemma lock_rel_stale: "lock_rel s (stale_origin s)"
proof -
  have "\<exists>c. stale_origin s = s\<lparr>cpus := c\<rparr>" by (cases s) (auto simp: stale_origin_def cpu_defs)
  then obtain c where c: "stale_origin s = s\<lparr>cpus := c\<rparr>" by blast
  show ?thesis
    by (rule lock_relI[where c = c and pp = "proc_pool s" and sl = "slocks s"]) (simp_all, simp add: c)
qed

lemma lock_rel_set_slock: "lock_rel s (set_slock (LkInodeSlk ip) k s)"
proof -
  have "calm s (set_slock (LkInodeSlk ip) k s)" by (rule calm_frame) (simp_all add: set_slock_def)
  then show ?thesis
    by (rule lock_relI[where c = "cpus s" and pp = "proc_pool s" and sl = "(slocks s)(LkInodeSlk ip := k)"])
      (simp_all add: set_slock_def)
qed

lemma lock_rel_wake: "lock_rel s (wake_state ch n s)"
  by (rule lock_relI[where c = "cpus s" and pp = "woken ch (myproc s) n (proc_pool s)" and sl = "slocks s"])
    (simp_all, simp add: wake_state_def)

lemma inode_slk_acquire:
  assumes s: "cache_ok H s" and u: "unlocked ip s"
  shows "\<exists>t. sleeplock_acquire (LkInodeSlk ip) s = Inr t \<and> lock_rel s t \<and> locked_by_me ip t \<and>
    (\<forall>l. l \<noteq> LkInodeSlk ip \<longrightarrow> slocks t l = slocks s l)"
proof -
  obtain p where k: "kctx s p" using cache_ok_kctx[OF s] by blast
  let ?k = "\<lparr>slk_locked = True, slk_pid = pid (proc_pool s p)\<rparr>"
  let ?t = "stale_origin (set_slock (LkInodeSlk ip) ?k s)"
  have "sleeplock_acquire (LkInodeSlk ip) s = Inr ?t"
    by (rule sleeplock_acquire_eq) (use kctxD[OF k] u in \<open>simp_all add: unlocked_def\<close>)
  moreover have r: "lock_rel s ?t" using lock_rel_trans[OF lock_rel_set_slock lock_rel_stale] .
  moreover have "locked_by_me ip ?t"
    using u kctxD(3)[OF k] lock_rel_ctx(2,4)[OF r] by (auto simp: locked_by_me_def unlocked_def set_slock_def)
  ultimately show ?thesis by (auto simp: set_slock_def)
qed

lemma inode_slk_release:
  assumes s: "cache_ok H s" and u: "locked_by_me ip s"
  shows "\<exists>t. sleeplock_release (LkInodeSlk ip) s = Inr t \<and> lock_rel s t \<and> unlocked ip t \<and>
    (\<forall>l. l \<noteq> LkInodeSlk ip \<longrightarrow> slocks t l = slocks s l)"
proof -
  obtain p where k: "kctx s p" using cache_ok_kctx[OF s] by blast
  let ?t = "stale_origin (wake_state (Some (ChSlk (LkInodeSlk ip))) N_PROC
    (set_slock (LkInodeSlk ip) \<lparr>slk_locked = False, slk_pid = 0\<rparr> s))"
  have "sleeplock_release (LkInodeSlk ip) s = Inr ?t"
    by (rule sleeplock_release_eq) (use kctxD[OF k] u in \<open>simp_all add: locked_by_me_def\<close>)
  moreover have r: "lock_rel s ?t" using lock_rel_trans[OF lock_rel_trans[OF lock_rel_set_slock lock_rel_wake] lock_rel_stale] .
  moreover have "unlocked ip ?t" using u lock_rel_ctx(2)[OF r] by (auto simp: locked_by_me_def unlocked_def set_slock_def wake_state_def)
  ultimately show ?thesis by (auto simp: set_slock_def wake_state_def)
qed

text \<open>The lock stays with its holder while the inode is worked on.\<close>

lemma locked_step:
  assumes c: "calm s t" and l: "slocks t (LkInodeSlk ip) = slocks s (LkInodeSlk ip)" and k: "cache_ok H s"
  shows "locked_by_me ip s \<Longrightarrow> locked_by_me ip t" "unlocked ip t = unlocked ip s"
proof -
  obtain p where p: "kctx s p" using cache_ok_kctx[OF k] by blast
  show "locked_by_me ip s \<Longrightarrow> locked_by_me ip t"
    using calm_ctx(2,4)[OF c] l kctxD(3)[OF p] conjunct2[OF calm_kctx[OF c p]] by (auto simp: locked_by_me_def)
  show "unlocked ip t = unlocked ip s" using calm_ctx(2)[OF c] l by (simp add: unlocked_def)
qed

lemma locked_fs_rel:
  assumes r: "fs_rel ip s t" and k: "cache_ok H s"
  shows "locked_by_me jp s \<Longrightarrow> locked_by_me jp t" "unlocked jp t = unlocked jp s"
  using locked_step[OF fs_relD(5)[OF r] fs_relD(9)[OF r] k] by simp_all

end
