(* ===== verification/FileOps.thy ===== *)
theory FileOps
  imports InodeLock File
begin

text \<open>
  Open files (\<open>fs/fs.c\<close>): what \<open>file_write\<close>, \<open>file_read\<close> and \<open>file_lseek\<close> do to the contents of the file and to its offset.
\<close>

section \<open>Open data files\<close>

text \<open>Descriptor \<open>f\<close> is an open data file on the inode \<open>ip\<close>, and nobody holds the inode.\<close>

definition file_ready :: "u32 set \<Rightarrow> nat \<Rightarrow> nat \<Rightarrow> 'a fs_state_scheme \<Rightarrow> bool" where
  "file_ready H f ip s \<longleftrightarrow> store_ok 2 H s \<and> ftree ip s \<and> data_free H (sb s) \<and> meta_ok H ip s \<and>
     i_type (info s ip) = INODE_TYPE_DATA \<and> f_ip (file_table s f) = Some ip \<and> unlocked ip s"

lemma file_readyD:
  assumes "file_ready H f ip s"
  shows "store_ok 2 H s" "ftree ip s" "data_free H (sb s)" "meta_ok H ip s" "i_type (info s ip) = INODE_TYPE_DATA"
    "f_ip (file_table s f) = Some ip" "unlocked ip s" "cache_ok H s"
  using assms store_okD(3)[of 2 H s] by (simp_all add: file_ready_def)

text \<open>A change of the table of open files is not seen by the store.\<close>

lemma ftab_ctx [simp]:
  "cpu_ok (s\<lparr>file_table := x\<rparr>) = cpu_ok s" "free_lock l (s\<lparr>file_table := x\<rparr>) = free_lock l s"
  "unlocked ip (s\<lparr>file_table := x\<rparr>) = unlocked ip s" "locked_by_me ip (s\<lparr>file_table := x\<rparr>) = locked_by_me ip s"
  by (simp_all add: cpu_ok_def free_lock_def cpu_defs unlocked_def locked_by_me_def myproc_def)

lemma ftab_store [simp]:
  fixes s :: "'a fs_state_scheme"
  shows "bc_ok (s\<lparr>file_table := x\<rparr>) R F D = bc_ok s R F D" "cache_ok H (s\<lparr>file_table := x\<rparr>) = cache_ok H s"
    "foreign (s\<lparr>file_table := x\<rparr>) a = foreign s a" "disk_block (s\<lparr>file_table := x\<rparr>) = disk_block s"
    "foreign_range (s\<lparr>file_table := x\<rparr>) a n = foreign_range s a n"
proof -
  have k: "kpt_ok (s\<lparr>file_table := x\<rparr>) = kpt_ok s" "ktabs (s\<lparr>file_table := x\<rparr>) = ktabs s"
    by (rule kpt_same; simp add: pool_def)+
  show b: "bc_ok (s\<lparr>file_table := x\<rparr>) R F D = bc_ok s R F D" for R F D
    by (simp add: bc_ok_def pmem_ok_def pool_ok_def pool_def pages_ok_def slk_ok_def clean_def vq_ok_def dev_ok_def k)
  show "cache_ok H (s\<lparr>file_table := x\<rparr>) = cache_ok H s"
    by (simp add: cache_ok_def cache_mid_def b pageless_def kctx_def procs_free_def myproc_def cpu_defs)
  show f: "foreign (s\<lparr>file_table := x\<rparr>) a = foreign s a" for a by (simp add: foreign_def b owned_def k)
  show "foreign_range (s\<lparr>file_table := x\<rparr>) a n = foreign_range s a n" by (simp add: foreign_range_def f)
  show "disk_block (s\<lparr>file_table := x\<rparr>) = disk_block s" by (rule ext)+ (simp add: disk_block_def)
qed

lemma ftab_file [simp]:
  fixes s :: "'a fs_state_scheme"
  shows "store_ok k H (s\<lparr>file_table := x\<rparr>) = store_ok k H s" "ftree ip (s\<lparr>file_table := x\<rparr>) = ftree ip s"
    "faddr (s\<lparr>file_table := x\<rparr>) ip = faddr s ip" "fbyte (s\<lparr>file_table := x\<rparr>) ip = fbyte s ip"
    "mapped (s\<lparr>file_table := x\<rparr>) ip = mapped s ip" "meta_ok H ip (s\<lparr>file_table := x\<rparr>) = meta_ok H ip s"
    "free_block_of (s\<lparr>file_table := x\<rparr>) = free_block_of s"
proof -
  show "store_ok k H (s\<lparr>file_table := x\<rparr>) = store_ok k H s" by (simp add: store_ok_def data_map_ok_def map_ok_def)
  show a: "faddr (s\<lparr>file_table := x\<rparr>) ip = faddr s ip" for ip by (simp add: faddr_def fslots_def)
  show "ftree ip (s\<lparr>file_table := x\<rparr>) = ftree ip s" by (simp add: ftree_def fslots_def)
  show "fbyte (s\<lparr>file_table := x\<rparr>) ip = fbyte s ip" "mapped (s\<lparr>file_table := x\<rparr>) ip = mapped s ip"
    by (rule ext, simp add: fbyte_def fblock_def mapped_def a)+
  show "meta_ok H ip (s\<lparr>file_table := x\<rparr>) = meta_ok H ip s" by (simp add: meta_ok_def inode_block_def)
  show "free_block_of (s\<lparr>file_table := x\<rparr>) = free_block_of s" by (simp add: free_block_of_def)
qed

text \<open>\<open>advance\<close> adds the bytes transferred to the offset, also when there are none.\<close>

definition moved :: "nat \<Rightarrow> nat \<Rightarrow> (nat \<Rightarrow> kfile) \<Rightarrow> nat \<Rightarrow> kfile" where
  "moved f n tb = tb(f := (tb f)\<lparr>offset := offset (tb f) + of_nat n\<rparr>)"

lemma advance_eq: "n < 2 ^ 32 \<Longrightarrow> advance f (of_nat n) s = s\<lparr>file_table := moved f n (file_table s)\<rparr>"
  by (cases "n = 0") (auto simp: advance_def upd_file_def moved_def word_less_nat_alt unat_of_nat)

section \<open>Transfers\<close>

lemma patch_outside:
  assumes "\<forall>i < n. x \<noteq> a + of_nat i"
  shows "patch a n g m x = m x"
proof -
  have "x = a + of_nat (unat (x - a))" by simp
  then have "\<not> unat (x - a) < n" using assms by metis
  then show ?thesis by (simp add: patch_def)
qed

lemma seek_eq: "unat (offset (moved f n tb f)) = unat (offset (tb f)) + n" if "unat (offset (tb f)) + n < 2 ^ 32"
  using that by (simp add: moved_def unat_word_ariths unat_of_nat)

lemma file_write_ok:
  fixes s :: "'a fs_state_scheme"
  assumes r: "file_ready H f ip s" and w: "writable (file_table s f)" and b: "unat (offset (file_table s f)) = off"
    and o: "off + unat len < 2 ^ 32" and fr: "foreign_range s src (unat len)"
  shows "\<exists>n v. file_write f len src user s = Inr (of_nat n, v) \<and> n \<le> unat len \<and>
    (n < unat len \<longrightarrow> free_block_of v = None \<and> \<not> mapped s ip (off + n)) \<and>
    file_ready H f ip v \<and> file_table v = moved f n (file_table s) \<and> i_size (info v ip) = new_size s ip (offset (file_table s f)) n \<and>
    (\<forall>i < 2 ^ 32. fbyte v ip i = (if off \<le> i \<and> i < off + n then mem s (src + of_nat (i - off)) else fbyte s ip i)) \<and>
    (\<forall>i < n. mapped v ip (off + i)) \<and> (\<forall>x. foreign s x \<longrightarrow> foreign v x \<and> mem v x = mem s x)"
proof -
  note d = file_readyD[OF r]
  from inode_slk_acquire[OF d(8,7)] obtain a where a: "sleeplock_acquire (LkInodeSlk ip) s = Inr a" "lock_rel s a"
    "locked_by_me ip a" by blast
  note sa = lock_rel_same[OF a(2)] lock_rel_file[OF a(2)]
  have st: "store_ok (Suc (Suc 0)) H a" using lock_rel_store(5)[OF a(2) d(1)] by (simp only: numeral_2_eq_2)
  have fa: "foreign_range a src (unat len)" using fr by (simp add: lock_rel_store(6)[OF a(2)])
  have ha: "ftree ip a" "data_free H (sb a)" "meta_ok H ip a" using d(2,3,4) by (simp_all add: sa)
  have oa: "unat (offset (file_table a f)) + unat len < 2 ^ 32" using o b by (simp add: sa)
  have ba: "unat (offset (file_table a f)) = off" using b by (simp add: sa)
  from inode_write_data_ok[OF st ha oa fa, of user, unfolded ba] obtain n t where
    t: "inode_write_data ip (offset (file_table a f)) len src user a = Inr (of_nat n, t)" "n \<le> unat len" "store_ok (Suc (Suc 0)) H t"
      "fs_rel ip a t" "ftree ip t"
      "the_inode t ip = (the_inode a ip)\<lparr>disk_info := (info a ip)\<lparr>i_index := fslots t ip,
         i_size := new_size a ip (offset (file_table a f)) n\<rparr>\<rparr>"
      "\<forall>i < 2 ^ 32. fbyte t ip i = (if off \<le> i \<and> i < off + n then mem a (src + of_nat (i - off)) else fbyte a ip i)"
      "\<forall>i < n. mapped t ip (off + i)" "n < unat len \<longrightarrow> free_block_of t = None \<and> \<not> mapped a ip (off + n)"
    by blast
  note ft = fs_relD[OF t(4)]
  have n: "n < 2 ^ 32" using t(2) unsigned_less[of len, where 'a = nat] by simp
  let ?t = "t\<lparr>file_table := moved f n (file_table s)\<rparr>"
  have lt: "locked_by_me ip ?t" using locked_fs_rel(1)[OF t(4) lock_rel_store(1)[OF a(2) d(8)] a(3)] by simp
  have ct: "cache_ok H ?t" using store_okD(3)[OF t(3)] by simp
  from inode_slk_release[OF ct lt] obtain v where v: "sleeplock_release (LkInodeSlk ip) ?t = Inr v" "lock_rel ?t v" "unlocked ip v" by blast
  note sv = lock_rel_same[OF v(2)] lock_rel_file[OF v(2)]
  have "file_write f len src user s = Inr (of_nat n, v)"
    using w d(5,6) a(1) t(1) v(1) by (simp add: file_write_def with_ip_def sa ft(2) advance_eq[OF n])
  moreover have "file_ready H f ip v"
    using lock_rel_store(5)[OF v(2), of 2 H] t(3,5) v(3) d(3-6) by (simp add: file_ready_def sv ft(1) sa t(6) meta_ok_def
      inode_block_def moved_def numeral_2_eq_2[symmetric] del: One_nat_def)
  moreover have "mem v x = mem s x \<and> foreign v x" if "foreign s x" for x
    using that ft(7,8)[of x] lock_rel_store(2)[OF a(2), of x] lock_rel_store(2)[OF v(2), of x] by (simp add: sv sa)
  moreover have "\<forall>i < 2 ^ 32. fbyte v ip i = (if off \<le> i \<and> i < off + n then mem s (src + of_nat (i - off)) else fbyte s ip i)"
    using t(7) unfolding sv(15) ftab_file(4) sa(2,15) .
  moreover have "i_size (info v ip) = new_size s ip (offset (file_table s f)) n"
    by (simp add: sv t(6) new_size_def sa cong: if_cong)
  moreover have "n < unat len \<longrightarrow> free_block_of v = None \<and> \<not> mapped s ip (off + n)" "\<forall>i < n. mapped v ip (off + i)"
    using t(8,9) by (simp_all add: sv sa)
  ultimately show ?thesis using t(2) sv(10) by (intro exI[of _ n] exI[of _ v]) simp
qed

lemma file_read_ok:
  fixes s :: "'a fs_state_scheme"
  assumes r: "file_ready H f ip s" and w: "readable (file_table s f)" and b: "unat (offset (file_table s f)) = off"
    and o: "off + unat len < 2 ^ 32" and fr: "foreign_range s dst (unat len)"
  shows "\<exists>n v. file_read f len dst user s = Inr (of_nat n, v) \<and> n \<le> avail s ip off (unat len) \<and>
    (n < avail s ip off (unat len) \<longrightarrow> free_block_of v = None \<and> \<not> mapped s ip (off + n)) \<and>
    file_ready H f ip v \<and> file_table v = moved f n (file_table s) \<and> i_size (info v ip) = i_size (info s ip) \<and>
    (\<forall>i < n. mem v (dst + of_nat i) = fbyte s ip (off + i)) \<and> (\<forall>i < 2 ^ 32. fbyte v ip i = fbyte s ip i) \<and>
    (\<forall>x. foreign s x \<longrightarrow> foreign v x \<and> mem v x = patch dst n (\<lambda>i. fbyte s ip (off + i)) (mem s) x)"
proof -
  note d = file_readyD[OF r]
  from inode_slk_acquire[OF d(8,7)] obtain a where a: "sleeplock_acquire (LkInodeSlk ip) s = Inr a" "lock_rel s a"
    "locked_by_me ip a" by blast
  note sa = lock_rel_same[OF a(2)] lock_rel_file[OF a(2)]
  have ca: "cache_ok H a" by (rule lock_rel_store(1)[OF a(2) d(8)])
  have st: "store_ok (Suc (Suc 0)) H a" using lock_rel_store(5)[OF a(2) d(1)] by (simp only: numeral_2_eq_2)
  have fa: "foreign_range a dst (unat len)" using fr by (simp add: lock_rel_store(6)[OF a(2)])
  have ha: "ftree ip a" "data_free H (sb a)" "has_data a ip" using d(2,3,5) by (simp_all add: sa has_data_def)
  have oa: "unat (offset (file_table a f)) + unat len < 2 ^ 32" using o b by (simp add: sa)
  have ba: "unat (offset (file_table a f)) = off" using b by (simp add: sa)
  have av: "avail a ip = avail s ip" by (simp add: avail_def fun_eq_iff sa)
  from inode_read_data_ok[OF st ha oa fa, of user, unfolded ba av] obtain n t where
    t: "inode_read_data ip (offset (file_table a f)) len dst user a = Inr (of_nat n, t)" "n \<le> avail s ip off (unat len)"
      "store_ok (Suc (Suc 0)) H t" "grow ip (a\<lparr>mem := patch dst n (\<lambda>i. fbyte a ip (off + i)) (mem a)\<rparr>) t"
      "n < avail s ip off (unat len) \<longrightarrow> free_block_of t = None \<and> \<not> mapped a ip (off + n)" by blast
  let ?a = "a\<lparr>mem := patch dst n (\<lambda>i. fbyte a ip (off + i)) (mem a)\<rparr>"
  have nl: "n \<le> unat len" using t(2) by (simp add: avail_def)
  then have n: "n < 2 ^ 32" using unsigned_less[of len, where 'a = nat] by simp
  have fn: "foreign_range a dst n" using foreign_range_sub[OF fa, of 0 n] nl by simp
  note g = growD[OF t(4)] and p = patch_frame[OF ca fn, where g = "\<lambda>i. fbyte a ip (off + i)"]
  note ft = fs_relD[OF g(1)]
  let ?t = "t\<lparr>file_table := moved f n (file_table s)\<rparr>"
  have la: "locked_by_me ip ?a" using a(3) by (simp add: locked_by_me_def free_lock_def myproc_def cpu_defs)
  have lt: "locked_by_me ip ?t" using locked_fs_rel(1)[OF g(1) p(1) la] by simp
  have ct: "cache_ok H ?t" using store_okD(3)[OF t(3)] by simp
  from inode_slk_release[OF ct lt] obtain v where v: "sleeplock_release (LkInodeSlk ip) ?t = Inr v" "lock_rel ?t v" "unlocked ip v" by blast
  note sv = lock_rel_same[OF v(2)] lock_rel_file[OF v(2)]
  have "file_read f len dst user s = Inr (of_nat n, v)"
    using w d(5,6) a(1) t(1) v(1) by (simp add: file_read_def with_ip_def sa ft(2) advance_eq[OF n])
  moreover have "file_ready H f ip v"
    using lock_rel_store(5)[OF v(2), of 2 H] t(3) g(2) v(3) d(3-6) by (simp add: file_ready_def sv g(4,5) sa meta_ok_def
      inode_block_def moved_def numeral_2_eq_2[symmetric] del: One_nat_def)
  moreover have "mem v (dst + of_nat i) = fbyte s ip (off + i)" if "i < n" for i
    using ft(7)[of "dst + of_nat i"] foreign_rangeD[OF fn that] p(2) patch_in[OF n that, of dst] by (simp add: sv sa)
  moreover have "fbyte v ip i = fbyte s ip i" if "i < 2 ^ 32" for i using grow_fbyte[OF t(4) that] by (simp add: sv sa)
  moreover have "foreign v x \<and> mem v x = patch dst n (\<lambda>i. fbyte s ip (off + i)) (mem s) x" if "foreign s x" for x
    using that ft(7,8)[of x] p(2)[of x] lock_rel_store(2)[OF a(2), of x] lock_rel_store(2)[OF v(2), of x] by (simp add: sv sa)
  ultimately show ?thesis using t(2,5) g(5) by (intro exI[of _ n] exI[of _ v]) (simp add: sv sa)
qed

text \<open>The offset a seek asks for: from the start, the current offset, or the end.\<close>

definition seek_target :: "u32 \<Rightarrow> u32 \<Rightarrow> u32 \<Rightarrow> u32 \<Rightarrow> u32 option" where
  "seek_target cur sz x flag = (if flag = 0 then Some x else if flag = 1 then Some (cur + x)
     else if flag = 2 then Some (sz + x) else None)"

lemma file_lseek_ok:
  fixes s :: "'a fs_state_scheme"
  assumes r: "file_ready H f ip s"
  shows "\<exists>v. file_lseek f x flag s = Inr (case seek_target (offset (file_table s f)) (i_size (info s ip)) x flag of None \<Rightarrow> -1 | Some n \<Rightarrow> n, v) \<and>
    file_ready H f ip v \<and>
    file_table v = (case seek_target (offset (file_table s f)) (i_size (info s ip)) x flag of None \<Rightarrow> file_table s
      | Some n \<Rightarrow> (file_table s)(f := (file_table s f)\<lparr>offset := n\<rparr>)) \<and>
    fbyte v ip = fbyte s ip \<and> mapped v ip = mapped s ip \<and> the_inode v ip = the_inode s ip \<and>
    free_block_of v = free_block_of s \<and> mem v = mem s \<and> (\<forall>x. foreign v x = foreign s x)"
proof -
  note d = file_readyD[OF r]
  let ?g = "seek_target (offset (file_table s f)) (i_size (info s ip)) x flag"
  let ?tb = "case ?g of None \<Rightarrow> file_table s | Some n \<Rightarrow> (file_table s)(f := (file_table s f)\<lparr>offset := n\<rparr>)"
  from inode_slk_acquire[OF d(8,7)] obtain a where a: "sleeplock_acquire (LkInodeSlk ip) s = Inr a" "lock_rel s a"
    "locked_by_me ip a" by blast
  note sa = lock_rel_same[OF a(2)] lock_rel_file[OF a(2)]
  have ca: "cache_ok H (a\<lparr>file_table := ?tb\<rparr>)" using lock_rel_store(1)[OF a(2) d(8)] by simp
  have la: "locked_by_me ip (a\<lparr>file_table := ?tb\<rparr>)" using a(3) by simp
  from inode_slk_release[OF ca la] obtain v where v: "sleeplock_release (LkInodeSlk ip) (a\<lparr>file_table := ?tb\<rparr>) = Inr v"
    "lock_rel (a\<lparr>file_table := ?tb\<rparr>) v" "unlocked ip v" by blast
  note sv = lock_rel_same[OF v(2)] lock_rel_file[OF v(2)]
  have id: "a\<lparr>file_table := file_table s\<rparr> = a" using sa(10) by (cases a) simp
  have "file_lseek f x flag s = Inr (case ?g of None \<Rightarrow> -1 | Some n \<Rightarrow> n, v)"
    using d(6) a(1) v(1) by (auto simp: file_lseek_def with_ip_def seek_target_def Let_def upd_file_def sa id split: if_splits)
  moreover have "file_ready H f ip v"
    using lock_rel_store(5)[OF v(2), of 2 H] lock_rel_store(5)[OF a(2) d(1)] d(2-6) v(3)
    by (simp add: file_ready_def sv sa split: option.split)
  ultimately show ?thesis using lock_rel_store(2)[OF v(2)] lock_rel_store(2)[OF a(2)] by (auto simp: sv sa)
qed

text \<open>Write, seek back, read: the bytes come back.\<close>

lemma write_seek_read:
  fixes s :: "'a fs_state_scheme"
  assumes r: "file_ready H f ip s" and w: "writable (file_table s f)" "readable (file_table s f)"
    and o: "unat (offset (file_table s f)) + unat len < 2 ^ 32"
    and fr: "foreign_range s src (unat len)" "foreign_range s dst (unat len)"
  shows "\<exists>n t u v. file_write f len src a s = Inr (of_nat n, t) \<and> n \<le> unat len \<and> (n < unat len \<longrightarrow> free_block_of t = None) \<and>
    offset (file_table t f) = offset (file_table s f) + of_nat n \<and>
    file_lseek f (offset (file_table s f)) 0 t = Inr (offset (file_table s f), u) \<and>
    file_read f (of_nat n) dst b u = Inr (of_nat n, v) \<and> file_table v = file_table t \<and>
    (\<forall>i < n. mem v (dst + of_nat i) = mem s (src + of_nat i))"
proof -
  let ?o = "offset (file_table s f)"
  from file_write_ok[OF r w(1) refl o fr(1), of a] obtain n t where t: "file_write f len src a s = Inr (of_nat n, t)"
    "n \<le> unat len" "n < unat len \<longrightarrow> free_block_of t = None \<and> \<not> mapped s ip (unat ?o + n)" "file_ready H f ip t"
    "file_table t = moved f n (file_table s)" "i_size (info t ip) = new_size s ip ?o n"
    "\<forall>i < 2 ^ 32. fbyte t ip i = (if unat ?o \<le> i \<and> i < unat ?o + n then mem s (src + of_nat (i - unat ?o)) else fbyte s ip i)"
    "\<forall>i < n. mapped t ip (unat ?o + i)" "\<forall>x. foreign s x \<longrightarrow> foreign t x \<and> mem t x = mem s x" by blast
  from file_lseek_ok[OF t(4), of ?o 0] obtain u where u: "file_lseek f ?o 0 t = Inr (?o, u)" "file_ready H f ip u"
    "file_table u = (file_table t)(f := (file_table t f)\<lparr>offset := ?o\<rparr>)" "fbyte u ip = fbyte t ip" "mapped u ip = mapped t ip"
    "the_inode u ip = the_inode t ip" "\<forall>x. foreign u x = foreign t x" by (auto simp: seek_target_def)
  have un: "unat (of_nat n :: u32) = n" using t(2) unsigned_less[of len, where 'a = nat] by (simp add: unat_of_nat)
  have ru: "readable (file_table u f)" "offset (file_table u f) = ?o" using w(2) u(3) t(5) by (simp_all add: moved_def)
  have ou: "unat (offset (file_table u f)) = unat ?o" by (simp add: ru)
  have on: "unat ?o + unat (of_nat n :: u32) < 2 ^ 32" using o t(2) un by simp
  have fu: "foreign_range u dst (unat (of_nat n :: u32))"
    using fr(2) t(2,9) u(7) by (simp add: foreign_range_def un)
  from file_read_ok[OF u(2) ru(1) ou on fu, of b, unfolded un] obtain m v where
    v: "file_read f (of_nat n) dst b u = Inr (of_nat m, v)" "m \<le> avail u ip (unat ?o) n"
      "m < avail u ip (unat ?o) n \<longrightarrow> free_block_of v = None \<and> \<not> mapped u ip (unat ?o + m)" 
      "file_table v = moved f m (file_table u)" "\<forall>i < m. mem v (dst + of_nat i) = fbyte u ip (unat ?o + i)" by blast
  have uo: "unat (?o + of_nat n) = unat ?o + n" using on un by (simp add: unat_word_ariths)
  have av: "avail u ip (unat ?o) n = n" by (auto simp: avail_def u(6) t(6) new_size_def uo min_def)
  have m: "m = n" using v(2,3) t(8) u(5) by (cases "m < n") (auto simp: av)
  have "file_table v = file_table t" using v(4) u(3) t(5) m by (simp add: moved_def)
  moreover have "mem v (dst + of_nat i) = mem s (src + of_nat i)" if "i < n" for i
    using v(5)[rule_format, of i] that m u(4) t(7)[rule_format, of "unat ?o + i"] o t(2) by simp
  moreover have "offset (file_table t f) = ?o + of_nat n" using t(5) by (simp add: moved_def)
  ultimately show ?thesis using t(1,2,3) u(1) v(1) m by blast
qed

end
