(* ===== verification/InodeCache.thy ===== *)
theory InodeCache
  imports InodeLock
begin

text \<open>
  The inode cache between operations: every loaded entry agrees with the inode table on the disk. Getting,
  locking, unlocking and giving back an inode keep this, count the references and do not change the disk.
\<close>

section \<open>Steps that leave the disk alone\<close>

text \<open>From \<open>s\<close> to \<open>t\<close> the disk stays, and of the memory outside the block cache only the addresses in \<open>W\<close> may change.\<close>

definition wrel :: "u64 set \<Rightarrow> 'a fs_state_scheme \<Rightarrow> 'a fs_state_scheme \<Rightarrow> bool" where
  "wrel W s t \<longleftrightarrow> disk_block t = disk_block s \<and> sb t = sb s \<and> lv t = lv s \<and>
     (\<forall>x. foreign s x \<longrightarrow> foreign t x \<and> (x \<notin> W \<longrightarrow> mem t x = mem s x))"

lemma wrelD:
  assumes "wrel W s t"
  shows "disk_block t = disk_block s" "sb t = sb s" "lv t = lv s" "foreign s x \<Longrightarrow> foreign t x"
    "foreign s x \<Longrightarrow> x \<notin> W \<Longrightarrow> mem t x = mem s x"
  using assms by (simp_all add: wrel_def)

lemma wrel_refl [simp]: "wrel W s s"
  by (simp add: wrel_def)

lemma wrel_trans: "wrel W s t \<Longrightarrow> wrel W t u \<Longrightarrow> wrel W s u"
  by (simp add: wrel_def)

lemma wrel_mono: "wrel W s t \<Longrightarrow> W \<subseteq> V \<Longrightarrow> wrel V s t"
  by (auto simp: wrel_def)

lemma lock_rel_wrel: "lock_rel s t \<Longrightarrow> wrel W s t"
  using lock_rel_store[of s t] lock_rel_same[of s t] by (simp add: wrel_def)

lemma fs_rel_wrel: "fs_rel ip s t \<Longrightarrow> disk_block t = disk_block s \<Longrightarrow> wrel W s t"
  using fs_relD[of ip s t] by (simp add: wrel_def)

lemma upd_inode_wrel: "wrel W s (upd_inode i f s)"
  by (simp add: wrel_def upd_inode_frame) (simp add: upd_inode_def)

lemma wrel_range: "wrel W s t \<Longrightarrow> foreign_range s a n \<Longrightarrow> foreign_range t a n"
  by (simp add: wrel_def foreign_range_def)

section \<open>The invariant\<close>

text \<open>Inode \<open>n\<close> of the disk; the entries' references and numbers.\<close>

definition dinode :: "'a fs_state_scheme \<Rightarrow> u32 \<Rightarrow> inode_disk" where
  "dinode s n = disk_inode (disk_block s) (inode_firstblock (sb s)) n"

definition refs :: "'a fs_state_scheme \<Rightarrow> nat \<Rightarrow> u32" where
  "refs s i = i_ref (the_inode s i)"

definition num :: "'a fs_state_scheme \<Rightarrow> nat \<Rightarrow> u32" where
  "num s i = inode_num (the_inode s i)"

text \<open>What is loaded agrees with the disk.\<close>

definition agrees :: "'a fs_state_scheme \<Rightarrow> nat \<Rightarrow> bool" where
  "agrees s i \<longleftrightarrow> (valid_info (the_inode s i) \<longrightarrow> inode_view (info s i) = dinode s (num s i))"

lemma view_disk [simp]: "inode_view (disk_inode D f n) = disk_inode D f n"
  by (simp add: inode_view_def disk_inode_def load_inode_def fun_eq_iff)

text \<open>\<open>L\<close>: the entry that the running process has locked, if any.\<close>

definition icache :: "u32 set \<Rightarrow> nat option \<Rightarrow> 'a fs_state_scheme \<Rightarrow> bool" where
  "icache H L s \<longleftrightarrow> store_ok 2 H s \<and> data_free H (sb s) \<and> free_lock LkInodeCache s \<and>
     (\<forall>i < N_INODE. (if L = Some i then locked_by_me i s else unlocked i s) \<and> agrees s i)"

lemma icacheD:
  assumes "icache H L s"
  shows "store_ok 2 H s" "data_free H (sb s)" "free_lock LkInodeCache s" "cache_ok H s"
    "i < N_INODE \<Longrightarrow> agrees s i" "i < N_INODE \<Longrightarrow> L = Some i \<Longrightarrow> locked_by_me i s"
    "i < N_INODE \<Longrightarrow> L \<noteq> Some i \<Longrightarrow> unlocked i s" "cpu_ok s"
proof -
  show c: "cache_ok H s" using assms store_okD(3) by (auto simp: icache_def)
  from cache_ok_kctx[OF c] obtain p where "kctx s p" by blast
  then show "cpu_ok s" by (rule kctxD(1))
qed (use assms in \<open>auto simp: icache_def split: if_splits\<close>)

lemma wrel_view: "wrel W s t \<Longrightarrow> dinode t n = dinode s n"
  by (simp add: dinode_def wrel_def)

text \<open>A step that keeps the cache entries and the sleeplocks of the inodes.\<close>

lemma icache_keep:
  assumes i: "icache H L s" and c: "calm s t" and w: "wrel W s t" and st: "store_ok 2 H t"
    and l: "\<And>i. slocks t (LkInodeSlk i) = slocks s (LkInodeSlk i)" and e: "inode_cache t = inode_cache s"
  shows "icache H L t"
proof -
  note d = icacheD[OF i]
  have "if L = Some i then locked_by_me i t else unlocked i t" if "i < N_INODE" for i
    using locked_step[OF c l[of i] d(4)] d(6,7)[OF that] by simp
  moreover have "agrees t i" if "i < N_INODE" for i
    using d(5)[OF that] by (simp add: agrees_def num_def e wrel_view[OF w])
  ultimately show ?thesis using st d(2,3) calm_ctx(2)[OF c] by (simp add: icache_def wrelD(2)[OF w])
qed

lemma icache_upd:
  assumes i: "icache H L s" and a: "agrees (upd_inode ip f s) ip"
  shows "icache H L (upd_inode ip f s)"
proof -
  note d = icacheD[OF i]
  have "store_ok 2 H (upd_inode ip f s)"
    by (rule store_ok_same[OF d(1) cache_ok_inode[OF d(4)]]) (simp_all add: upd_inode_frame, simp add: upd_inode_def)
  moreover have "agrees (upd_inode ip f s) j" if "j < N_INODE" for j
  proof (cases "j = ip")
    case False
    then show ?thesis using d(5)[OF that] by (simp add: agrees_def num_def wrel_view[OF upd_inode_wrel])
  qed (use a in simp)
  moreover have "unlocked j (upd_inode ip f s) = unlocked j s" "locked_by_me j (upd_inode ip f s) = locked_by_me j s" for j
    by (simp_all add: unlocked_def locked_by_me_def upd_inode_def myproc_def cpu_defs free_lock_def)
  moreover have "sb (upd_inode ip f s) = sb s" by (simp add: upd_inode_def)
  ultimately show ?thesis using i by (simp add: icache_def)
qed

lemma icache_stale: "icache H L s \<Longrightarrow> icache H L (stale_origin s)"
proof -
  assume i: "icache H L s"
  note r = lock_rel_stale[of s]
  have "calm s (stale_origin s)" using r by (simp add: lock_rel_def)
  then show ?thesis
    by (rule icache_keep[OF i _ lock_rel_wrel[OF r] lock_rel_store(5)[OF r icacheD(1)[OF i]]])
      (simp_all add: stale_origin_def cpu_defs)
qed

section \<open>Get, dup and put\<close>

text \<open>A change of entry \<open>ip\<close> under the lock of the cache.\<close>

lemma cache_step:
  assumes i: "icache H L s" and a: "agrees (upd_inode ip f s) ip" and t: "t = stale_origin (upd_inode ip f s)"
  shows "icache H L t" "wrel W s t" "inode_cache t = (inode_cache s)(ip := f (the_inode s ip))"
  unfolding t using icache_stale[OF icache_upd[OF i a]] wrel_trans[OF upd_inode_wrel lock_rel_wrel[OF lock_rel_stale]]
  by simp_all

lemma agrees_upd:
  assumes "agrees s i" and "valid_info (f (the_inode s i)) \<Longrightarrow> valid_info (the_inode s i) \<and>
    disk_info (f (the_inode s i)) = info s i \<and> inode_num (f (the_inode s i)) = inode_num (the_inode s i)"
  shows "agrees (upd_inode i f s) i"
  using assms by (simp add: agrees_def num_def wrel_view[OF upd_inode_wrel])

lemma find_hit: "List.find P xs = Some x \<Longrightarrow> x \<in> set xs \<and> P x"
  by (induction xs) (auto split: if_splits)

lemma found_inode:
  "cached_inode n s = Some j \<Longrightarrow> j < N_INODE \<and> num s j = n"
  "free_inode_slot s = Some j \<Longrightarrow> j < N_INODE \<and> refs s j = 0"
  "free_inode_slot s = None \<Longrightarrow> k < N_INODE \<Longrightarrow> refs s k \<noteq> 0"
  unfolding cached_inode_def free_inode_slot_def num_def refs_def find_None_iff by (drule find_hit, simp)+ simp

lemma icache_get:
  assumes i: "icache H None s" and f: "\<exists>j < N_INODE. refs s j = 0"
  shows "\<exists>j t. inode_get n s = Inr (j, t) \<and> j < N_INODE \<and> icache H None t \<and> wrel W s t \<and> num t j = n \<and>
    refs t = (refs s)(j := refs s j + 1) \<and> (\<forall>k. refs s k \<noteq> 0 \<longrightarrow> num t k = num s k) \<and>
    (\<forall>k. k \<noteq> j \<longrightarrow> the_inode t k = the_inode s k)"
proof -
  note d = icacheD[OF i]
  note eq = inode_get_eq[OF d(8,3), of n]
  show ?thesis
  proof (cases "cached_inode n s")
    case (Some j)
    then have j: "j < N_INODE" "num s j = n" using found_inode(1) by blast+
    let ?f = "\<lambda>ip. ip\<lparr>i_ref := i_ref ip + 1\<rparr>"
    have a: "agrees (upd_inode j ?f s) j" by (rule agrees_upd[OF d(5)[OF j(1)]]) simp
  note st = cache_step[OF i a refl]
    show ?thesis
      by (rule exI[of _ j], rule exI[of _ "stale_origin (upd_inode j ?f s)"], intro conjI)
        (use st j in \<open>simp_all add: eq Some num_def refs_def fun_eq_iff\<close>)
  next
    case None
    obtain j where fs: "free_inode_slot s = Some j"
      using f found_inode(3) by (cases "free_inode_slot s") blast+
    then have j: "j < N_INODE" "refs s j = 0" using found_inode(2) by blast+
    let ?f = "\<lambda>ip. ip\<lparr>inode_num := n, i_ref := 1, valid_info := False\<rparr>"
    have a: "agrees (upd_inode j ?f s) j" by (rule agrees_upd[OF d(5)[OF j(1)]]) simp
  note st = cache_step[OF i a refl]
    show ?thesis
      by (rule exI[of _ j], rule exI[of _ "stale_origin (upd_inode j ?f s)"], intro conjI)
        (use st j in \<open>simp_all add: eq None fs num_def refs_def fun_eq_iff\<close>)
  qed
qed

lemma icache_dup:
  assumes i: "icache H None s" and ip: "ip < N_INODE"
  shows "\<exists>t. inode_dup ip s = Inr (ip, t) \<and> icache H None t \<and> wrel W s t \<and> num t = num s \<and>
    refs t = (refs s)(ip := refs s ip + 1)"
proof -
  note d = icacheD[OF i]
  let ?f = "\<lambda>ip. ip\<lparr>i_ref := i_ref ip + 1\<rparr>"
  have a: "agrees (upd_inode ip ?f s) ip" by (rule agrees_upd[OF d(5)[OF ip]]) simp
  note st = cache_step[OF i a refl]
  show ?thesis
    by (rule exI[of _ "stale_origin (upd_inode ip ?f s)"], intro conjI)
      (use st d(3,8) in \<open>simp_all add: inode_dup_def num_def refs_def fun_eq_iff\<close>)
qed

text \<open>A reference to a linked inode is only counted down.\<close>

lemma icache_put:
  assumes i: "icache H None s" and ip: "ip < N_INODE" and nl: "valid_info (the_inode s ip) \<Longrightarrow> i_nlink (info s ip) \<noteq> 0"
  shows "\<exists>t. inode_put ip s = Inr t \<and> icache H None t \<and> wrel W s t \<and> num t = num s \<and>
    refs t = (refs s)(ip := refs s ip - 1)"
proof -
  note d = icacheD[OF i]
  let ?f = "\<lambda>ip. ip\<lparr>i_ref := i_ref ip - 1\<rparr>"
  have a: "agrees (upd_inode ip ?f s) ip" by (rule agrees_upd[OF d(5)[OF ip]]) simp
  note st = cache_step[OF i a refl]
  have "inode_put ip s = Inr (stale_origin (upd_inode ip ?f s))"
    using nl d(3,8) by (auto simp: inode_put_def)
  then show ?thesis
    by (intro exI[of _ "stale_origin (upd_inode ip ?f s)"] conjI) (use st in \<open>simp_all add: num_def refs_def fun_eq_iff\<close>)
qed

section \<open>Lock and unlock\<close>

lemma less_one_u32: "(x :: u32) < 1 \<longleftrightarrow> x = 0"
  by (auto simp: word_less_nat_alt unat_eq_0)

lemma icache_lock:
  assumes i: "icache H None s" and ip: "ip < N_INODE" and r: "refs s ip \<noteq> 0" and m: "meta_ok H ip s"
  shows "\<exists>t. inode_lock ip s = Inr t \<and> icache H (Some ip) t \<and> wrel W s t \<and> num t = num s \<and> refs t = refs s \<and>
    valid_info (the_inode t ip) \<and> inode_view (info t ip) = dinode s (num s ip) \<and> (\<forall>j. j \<noteq> ip \<longrightarrow> the_inode t j = the_inode s j)"
proof -
  note d = icacheD[OF i]
  from inode_slk_acquire[OF d(4) d(7)[OF ip]] obtain a where a: "sleeplock_acquire (LkInodeSlk ip) s = Inr a"
    "lock_rel s a" "locked_by_me ip a" "\<forall>l. l \<noteq> LkInodeSlk ip \<longrightarrow> slocks a l = slocks s l" by auto
  note sa = lock_rel_same[OF a(2)]
  have ca: "calm s a" using a(2) by (simp add: lock_rel_def)
  have st: "store_ok 2 H a" by (rule lock_rel_store(5)[OF a(2) d(1)])
  have ul: "unlocked j a" if "j < N_INODE" "j \<noteq> ip" for j
    using locked_step(2)[OF ca _ d(4), of j] a(4) d(7)[OF that(1)] that(2) by simp
  note wa = lock_rel_wrel[OF a(2), of W]
  have ic: "icache H (Some ip) a"
    using st d(2,3) a(3) ul d(5) calm_ctx(2)[OF ca] by (auto simp: icache_def sa agrees_def num_def wrel_view[OF wa])
  show ?thesis
  proof (cases "valid_info (the_inode s ip)")
    case True
    then show ?thesis using a(1) ic r d(5)[OF ip] wa
      by (intro exI[of _ a]) (auto simp: inode_lock_def refs_def num_def less_one_u32 sa agrees_def)
  next
    case False
    have "can_get H (inode_block ip a) a"
      using st m lock_rel_file(6)[OF a(2)] by (auto simp: can_get_def store_ok_def data_map_ok_def map_ok_def meta_ok_def)
    from inode_rw_read_ok[OF this] obtain t where t: "inode_rw ip False a = Inr t" "cache_ok H t" "disk_block t = disk_block a"
      "sb t = sb a" "fs_rel ip a t" "inode_cache t = (inode_cache a)(ip := (the_inode a ip)
        \<lparr>disk_info := disk_inode (disk_block a) (inode_firstblock (sb a)) (inode_num (the_inode a ip)), valid_info := True\<rparr>)"
      by blast
    note wt = fs_rel_wrel[OF t(5,3), of W]
    have ct: "calm a t" by (rule fs_relD(5)[OF t(5)])
    have lk: "locked_by_me j t = locked_by_me j a \<or> \<not> locked_by_me j a" "unlocked j t = unlocked j a" for j
      using locked_fs_rel[OF t(5) icacheD(4)[OF ic], of j] by auto
    have st2: "store_ok 2 H t" by (rule store_ok_same[OF st t(2,4,3)])
    have ag: "agrees t j" if "j < N_INODE" for j
      using icacheD(5)[OF ic that] by (auto simp: agrees_def num_def t(3,4,6) dinode_def)
    have "icache H (Some ip) t"
      using st2 icacheD(2,3,6,7)[OF ic] ag lk calm_ctx(2)[OF ct] by (auto simp: icache_def t(4))
    moreover have "num t = num s" "refs t = refs s" by (simp_all add: num_def refs_def t(6) sa fun_eq_iff)
    moreover have "wrel W s t" using wrel_trans[OF wa wt] .
    moreover have "inode_lock ip s = Inr t" using a(1) t(1) r False by (simp add: inode_lock_def refs_def less_one_u32 sa)
    ultimately show ?thesis by (intro exI[of _ t]) (simp add: t(6) sa dinode_def num_def lock_rel_store(3)[OF a(2)])
  qed
qed

lemma icache_unlock:
  assumes i: "icache H (Some ip) s" and ip: "ip < N_INODE" and r: "refs s ip \<noteq> 0"
  shows "\<exists>t. inode_unlock ip s = Inr t \<and> icache H None t \<and> wrel W s t \<and> inode_cache t = inode_cache s"
proof -
  note d = icacheD[OF i]
  obtain p where k: "kctx s p" using cache_ok_kctx[OF d(4)] by blast
  let ?s = "stale_origin s"
  have my: "locked_by_me ip s" by (rule d(6)[OF ip refl])
  have "sleeplock_holding (LkInodeSlk ip) s = Inr (True, ?s)"
    using my kctxD(3)[OF k] by (subst sleeplock_holding_eq[OF d(8) _ kctxD(3)[OF k]]) (auto simp: locked_by_me_def)
  note hold = this
  note i2 = icache_stale[OF i]
  note d2 = icacheD[OF i2]
  from inode_slk_release[OF d2(4) d2(6)[OF ip refl]] obtain t where t: "sleeplock_release (LkInodeSlk ip) ?s = Inr t"
    "lock_rel ?s t" "unlocked ip t" "\<forall>l. l \<noteq> LkInodeSlk ip \<longrightarrow> slocks t l = slocks ?s l" by blast
  note st = lock_rel_same[OF t(2)]
  have ct: "calm ?s t" using t(2) by (simp add: lock_rel_def)
  have "unlocked j t" if "j < N_INODE" for j
    using locked_step(2)[OF ct _ d2(4), of j] t(3,4) d2(7)[OF that] by (cases "j = ip") simp_all
  moreover have "agrees t j" if "j < N_INODE" for j
    using d2(5)[OF that] by (simp add: agrees_def num_def st wrel_view[OF lock_rel_wrel[OF t(2)]])
  ultimately have "icache H None t"
    using lock_rel_store(5)[OF t(2) d2(1)] d2(2,3) calm_ctx(2)[OF ct] by (simp add: icache_def st)
  moreover have "wrel W s t" using wrel_trans[OF lock_rel_wrel[OF lock_rel_stale] lock_rel_wrel[OF t(2)]] .
  moreover have "inode_unlock ip s = Inr t" using hold t(1) r by (simp add: inode_unlock_def refs_def less_one_u32)
  ultimately show ?thesis by (intro exI[of _ t]) (simp add: st)
qed

end
