(* ===== verification/DirOps.thy ===== *)
theory DirOps
  imports FileData Dentry
begin

text \<open>
  Directories as lists of entries: \<open>dentry_search\<close>, \<open>dentry_create\<close> and \<open>dentry_delete\<close> on the file of a
  directory implement the lookup, the insertion and the removal on the list of its entries.
\<close>

section \<open>The entries of a directory\<close>

type_synonym dent = "(nat \<Rightarrow> u8) \<times> u32"

definition dent_at :: "(nat \<Rightarrow> u8) \<Rightarrow> dent" where
  "dent_at f = (\<lambda>i. if i < 60 then f i else 0, load32 (\<lambda>x. f (unat x)) 60)"

lemma dent_at_cong: "(\<And>i. i < 64 \<Longrightarrow> f i = g i) \<Longrightarrow> dent_at f = dent_at g"
  by (simp add: dent_at_def load32_def fun_eq_iff)

definition dsize :: "'a fs_state_scheme \<Rightarrow> nat \<Rightarrow> nat" where
  "dsize s ip = unat (i_size (info s ip)) div 64"

definition dents :: "'a fs_state_scheme \<Rightarrow> nat \<Rightarrow> dent list" where
  "dents s ip = map (\<lambda>k. dent_at (\<lambda>i. fbyte s ip (64 * k + i))) [0..<dsize s ip]"

text \<open>A free entry has an empty name; a lookup compares at most 60 characters.\<close>

definition named :: "(nat \<Rightarrow> u8) \<Rightarrow> dent \<Rightarrow> bool" where
  "named nm e \<longleftrightarrow> fst e 0 \<noteq> 0 \<and> strncmp (fst e) nm MAXLEN_FILENAME = 0"

definition dir_lookup :: "(nat \<Rightarrow> u8) \<Rightarrow> dent list \<Rightarrow> u32" where
  "dir_lookup nm es = (case List.find (named nm) es of None \<Rightarrow> INVALID_INODE_NUM | Some e \<Rightarrow> snd e)"

lemma length_dents [simp]: "length (dents s ip) = dsize s ip"
  by (simp add: dents_def)

lemma dents_nth: "k < dsize s ip \<Longrightarrow> dents s ip ! k = dent_at (\<lambda>i. fbyte s ip (64 * k + i))"
  by (simp add: dents_def)

lemma named_cong:
  assumes "\<And>i. i < 60 \<Longrightarrow> f i = g i" and "\<And>i. i < 60 \<Longrightarrow> nm i = nm' i"
  shows "named nm (f, a) = named nm' (g, b)"
  using assms by (simp add: named_def strncmp_0_iff same_upto_def cong: conj_cong)

section \<open>The state of a directory operation\<close>

definition dir_ok :: "u32 set \<Rightarrow> nat \<Rightarrow> 'a fs_state_scheme \<Rightarrow> bool" where
  "dir_ok H ip s \<longleftrightarrow> store_ok 2 H s \<and> ftree ip s \<and> data_free H (sb s) \<and> meta_ok H ip s \<and>
     i_type (info s ip) = INODE_TYPE_DIR \<and> 64 dvd unat (i_size (info s ip)) \<and>
     (\<forall>i < unat (i_size (info s ip)). mapped s ip i) \<and> foreign_range s (lv s L_de) 64"

text \<open>The name lies outside the cache and outside the local object \<open>de\<close>.\<close>

definition name_ok :: "u64 \<Rightarrow> 'a fs_state_scheme \<Rightarrow> bool" where
  "name_ok name s \<longleftrightarrow> foreign_range s name 60 \<and> (\<forall>i<60. \<not> unat (name + of_nat i - lv s L_de) < 64)"

definition de_patch :: "(nat \<Rightarrow> u8) \<Rightarrow> 'a fs_state_scheme \<Rightarrow> 'a fs_state_scheme" where
  "de_patch f s = s\<lparr>mem := patch (lv s L_de) 64 f (mem s)\<rparr>"

text \<open>The steps of a directory operation that only read: the entry buffer and, maybe, new blocks.\<close>

definition dir_step :: "nat \<Rightarrow> 'a fs_state_scheme \<Rightarrow> 'a fs_state_scheme \<Rightarrow> bool" where
  "dir_step ip s t \<longleftrightarrow> (\<exists>f. grow ip (de_patch f s) t)"

lemma dir_okD:
  assumes "dir_ok H ip s"
  shows "store_ok 2 H s" "ftree ip s" "data_free H (sb s)" "meta_ok H ip s" "i_type (info s ip) = INODE_TYPE_DIR"
    "64 dvd unat (i_size (info s ip))" "i < unat (i_size (info s ip)) \<Longrightarrow> mapped s ip i" "foreign_range s (lv s L_de) 64"
    "unat (i_size (info s ip)) = 64 * dsize s ip"
  using assms by (auto simp: dir_ok_def dsize_def)

lemma de_patch_fields [simp]:
  "lv (de_patch f s) = lv s" "sb (de_patch f s) = sb s" "inode_cache (de_patch f s) = inode_cache s"
  "dents (de_patch f s) ip = dents s ip" "dsize (de_patch f s) ip = dsize s ip" "faddr (de_patch f s) = faddr s"
  "fbyte (de_patch f s) = fbyte s" "mapped (de_patch f s) = mapped s" "fslots (de_patch f s) = fslots s"
  "disk_block (de_patch f s) = disk_block s" "mine (de_patch f s) = mine s" "ftree ip (de_patch f s) = ftree ip s"
  by (simp_all add: de_patch_def dents_def dsize_def)

lemma dir_patch:
  assumes d: "dir_ok H ip s"
  shows "dir_ok H ip (de_patch f s)" "foreign (de_patch f s) x = foreign s x"
    "name_ok name (de_patch f s) = name_ok name s"
    "name_ok name s \<Longrightarrow> i < 60 \<Longrightarrow> at (mem (de_patch f s)) name i = at (mem s) name i"
proof -
  note o = dir_okD[OF d]
  show fo: "foreign (de_patch f s) x = foreign s x" for x
    unfolding de_patch_def by (rule patch_frame(2)[OF store_okD(3)[OF o(1)] o(8)])
  then show "name_ok name (de_patch f s) = name_ok name s" by (simp add: name_ok_def foreign_range_def)
  show "name_ok name s \<Longrightarrow> i < 60 \<Longrightarrow> at (mem (de_patch f s)) name i = at (mem s) name i"
    by (simp add: name_ok_def de_patch_def patch_def at_def)
  have "store_ok 2 H (de_patch f s)" unfolding de_patch_def by (rule store_ok_patch[OF o(1,8)])
  then show "dir_ok H ip (de_patch f s)"
    using d fo by (simp add: dir_ok_def meta_ok_def inode_block_def foreign_range_def)
qed

lemma grow_dir:
  assumes d: "dir_ok H ip s" and g: "grow ip s t" and so: "store_ok 2 H t"
  shows "dir_ok H ip t" "dents t ip = dents s ip" "dsize t ip = dsize s ip" "lv t = lv s" "info t ip = (info s ip)\<lparr>i_index := fslots t ip\<rparr>"
    "name_ok name s \<Longrightarrow> name_ok name t" "name_ok name s \<Longrightarrow> i < 60 \<Longrightarrow> at (mem t) name i = at (mem s) name i"
proof -
  note o = dir_okD[OF d] and gd = growD[OF g]
  show lv: "lv t = lv s" by (rule fs_relD(10)[OF gd(1)])
  show inf: "info t ip = (info s ip)\<lparr>i_index := fslots t ip\<rparr>" by (simp add: gd(5))
  then show ds: "dsize t ip = dsize s ip" by (simp add: dsize_def)
  have sz: "unat (i_size (info s ip)) < 2 ^ 32" using unsigned_less[of "i_size (info s ip)", where 'a = nat] by simp
  have fb: "fbyte t ip i = fbyte s ip i" if "i < 64 * dsize s ip" for i
    using that sz o(9) by (intro grow_fbyte[OF g]) simp
  have "dent_at (\<lambda>i. fbyte t ip (64 * k + i)) = dent_at (\<lambda>i. fbyte s ip (64 * k + i))" if "k < dsize s ip" for k
    by (rule dent_at_cong, rule fb) (use that in linarith)
  then show "dents t ip = dents s ip" by (simp add: dents_def ds)
  have "foreign_range t (lv t L_de) 64" using foreign_range_rel[OF gd(1) o(8)] by (simp add: lv)
  moreover have "mapped t ip i" if "i < unat (i_size (info s ip))" for i
    using that sz extend_mapped[OF gd(7), of i] o(7) by simp
  ultimately show "dir_ok H ip t"
    using so gd(2) o(3,4,5,6) by (simp add: dir_ok_def inf gd(4) meta_ok_def inode_block_def gd(5))
  show "name_ok name s \<Longrightarrow> name_ok name t" using foreign_range_rel[OF gd(1)] by (simp add: name_ok_def lv)
  show "name_ok name s \<Longrightarrow> i < 60 \<Longrightarrow> at (mem t) name i = at (mem s) name i"
    using fs_relD(7)[OF gd(1)] by (simp add: name_ok_def foreign_range_def at_def)
qed

section \<open>Reading an entry\<close>

lemma entry_bytes:
  assumes "\<And>i. i < 64 \<Longrightarrow> mem s (lv s L_de + of_nat i) = f i"
  shows "i < 60 \<Longrightarrow> de_name s i = f i" "de_inum s = snd (dent_at f)"
  using assms[of i] assms[of 60] assms[of 61] assms[of 62] assms[of 63]
  by (simp_all add: de_name_def at_def de_inum_def dent_at_def load32_def add.assoc)

text \<open>The offset of entry \<open>k\<close>.\<close>

definition eoff :: "nat \<Rightarrow> u32" where
  "eoff k = of_nat (64 * k)"

lemma unat_eoff: "64 * k < 2 ^ 32 \<Longrightarrow> unat (eoff k) = 64 * k"
  unfolding eoff_def by (simp add: unat_of_nat del: of_nat_mult)

lemma eoff_0 [simp]: "eoff 0 = 0" and eoff_Suc: "eoff (Suc k) = eoff k + 64"
  by (simp_all add: eoff_def)

lemma dir_step_trans:
  assumes d: "dir_ok H ip s" and a: "dir_step ip s t" and dt: "dir_ok H ip t" and b: "dir_step ip t u"
  shows "dir_step ip s u"
proof -
  from a obtain f where f: "grow ip (de_patch f s) t" by (auto simp: dir_step_def)
  from b obtain g where g: "grow ip (de_patch g t) u" by (auto simp: dir_step_def)
  note o = dir_okD[OF d] and p = dir_patch[OF d, where f = f]
  have lv: "lv t = lv s" using fs_relD(10)[OF growD(1)[OF f]] by simp
  have fr: "foreign_range (de_patch f s) (lv s L_de) 64" using o(8) p(2) by (simp add: foreign_range_def)
  have "grow ip (de_patch g (de_patch f s)) (de_patch g t)"
    using grow_patch[OF f store_okD(3)[OF dir_okD(1)[OF p(1)]] store_okD(3)[OF dir_okD(1)[OF dt]] fr, of g]
    by (simp add: de_patch_def lv)
  moreover have "de_patch g (de_patch f s) = de_patch g s" by (simp add: de_patch_def patch_def fun_eq_iff cong: if_cong)
  ultimately have "grow ip (de_patch g s) u"
    using grow_trans[OF _ g] store_okD(2)[OF o(1)] by fastforce
  then show ?thesis by (auto simp: dir_step_def)
qed

text \<open>All that a step of a directory operation which only reads keeps.\<close>

definition dir_kept :: "u32 set \<Rightarrow> nat \<Rightarrow> 'a fs_state_scheme \<Rightarrow> 'a fs_state_scheme \<Rightarrow> bool" where
  "dir_kept H ip s t \<longleftrightarrow> dir_ok H ip t \<and> dir_step ip s t \<and> dents t ip = dents s ip \<and> dsize t ip = dsize s ip \<and> lv t = lv s \<and>
     i_size (info t ip) = i_size (info s ip) \<and> i_type (info t ip) = i_type (info s ip) \<and> still s t \<and>
     (\<forall>name. name_ok name s \<longrightarrow> name_ok name t \<and> (\<forall>i < 60. at (mem t) name i = at (mem s) name i))"

lemma dir_keptD:
  assumes "dir_kept H ip s t"
  shows "dir_ok H ip t" "dir_step ip s t" "dents t ip = dents s ip" "dsize t ip = dsize s ip" "lv t = lv s"
    "i_size (info t ip) = i_size (info s ip)" "i_type (info t ip) = i_type (info s ip)"
    "name_ok name s \<Longrightarrow> name_ok name t" "name_ok name s \<Longrightarrow> i < 60 \<Longrightarrow> at (mem t) name i = at (mem s) name i"
    "still s t"
  using assms by (simp_all add: dir_kept_def)

lemma dir_kept_trans:
  assumes "dir_ok H ip s" and "dir_kept H ip s t" and "dir_kept H ip t u"
  shows "dir_kept H ip s u"
  using assms dir_step_trans[OF assms(1) dir_keptD(2,1)[OF assms(2)] dir_keptD(2)[OF assms(3)]]
    still_trans[OF dir_keptD(10)[OF assms(2)] dir_keptD(10)[OF assms(3)]] by (simp add: dir_kept_def)

lemma dir_kept_refl: "dir_ok H ip s \<Longrightarrow> dir_kept H ip s s"
proof -
  assume d: "dir_ok H ip s"
  let ?f = "\<lambda>i. mem s (lv s L_de + of_nat i)"
  have "de_patch ?f s = s" by (simp add: de_patch_def patch_def cong: if_cong)
  then have "grow ip (de_patch ?f s) s" using grow_refl[OF dir_okD(2)[OF d]] by simp
  then show ?thesis using d by (auto simp: dir_kept_def dir_step_def)
qed

lemma read_de_ok:
  fixes s :: "'a fs_state_scheme"
  assumes d: "dir_ok H ip s" and k: "k < dsize s ip"
  shows "\<exists>t. read_de ip (eoff k) s = Inr (64, t) \<and> dir_kept H ip s t \<and>
    (\<forall>i < 60. de_name t i = fst (dents s ip ! k) i) \<and> de_inum t = snd (dents s ip ! k)"
proof -
  note o = dir_okD[OF d]
  have sz: "unat (i_size (info s ip)) < 2 ^ 32" using unsigned_less[of "i_size (info s ip)", where 'a = nat] by simp
  have k64: "64 * k + 64 \<le> unat (i_size (info s ip))" using k o(9) by simp
  then have un: "unat (eoff k) = 64 * k" using sz by (simp add: unat_eoff)
  have hd: "has_data s ip" using o(5) by (simp add: has_data_def)
  have ul: "unat (64 :: u32) = 64" by simp
  have ov: "unat (eoff k) + unat (64 :: u32) < 2 ^ 32" using k64 sz un by simp
  have fr: "foreign_range s (lv s L_de) (unat (64 :: u32))" using o(8) by simp
  have av: "avail s ip (64 * k) 64 = 64" using k64 by (simp add: avail_def)
  let ?f = "\<lambda>i. fbyte s ip (64 * k + i)"
  have "store_ok (Suc (Suc 0)) H s" using o(1) by (simp only: numeral_2_eq_2)
  from inode_read_data_ok[OF this o(2,3) hd ov fr, of False, unfolded un ul av] obtain n t where
    t: "inode_read_data ip (eoff k) 64 (lv s L_de) False s = Inr (of_nat n, t)" "n \<le> 64" "store_ok 2 H t"
      "grow ip (s\<lparr>mem := patch (lv s L_de) n ?f (mem s)\<rparr>) t" "n < 64 \<longrightarrow> free_block_of t = None \<and> \<not> mapped s ip (64 * k + n)"
      "(\<forall>i < 64. mapped s ip (64 * k + i)) \<longrightarrow> still s t"
    unfolding numeral_2_eq_2 by blast
  have "\<forall>i < 64. mapped s ip (64 * k + i)" using o(7) k64 by simp
  then have st: "still s t" using t(6) by blast
  have n: "n = 64" using t(2,5) o(7)[of "64 * k + n"] k64 by (cases "n < 64") auto
  have g: "grow ip (de_patch ?f s) t" using t(4) by (simp add: de_patch_def n)
  note p = dir_patch[OF d, where f = ?f]
  note gd = grow_dir[OF p(1) g t(3)]
  have b: "mem t (lv t L_de + of_nat i) = ?f i" if i: "i < 64" for i
  proof -
    have "mem t (lv s L_de + of_nat i) = mem (de_patch ?f s) (lv s L_de + of_nat i)"
      using fs_relD(7)[OF growD(1)[OF g], of "lv s L_de + of_nat i"] foreign_rangeD[OF o(8) i] p(2) by simp
    also have "\<dots> = ?f i" using patch_in[of 64 i "lv s L_de" ?f "mem s"] i by (simp add: de_patch_def)
    finally show ?thesis by (simp add: gd(4))
  qed
  note e = entry_bytes[OF b]
  have "read_de ip (eoff k) s = Inr (64, t)" using t(1) by (simp add: read_de_def n)
  moreover have "\<forall>i < 60. de_name t i = fst (dents s ip ! k) i" "de_inum t = snd (dents s ip ! k)"
    using e by (simp_all add: dents_nth[OF k] dent_at_def)
  moreover have "dir_step ip s t" using g by (auto simp: dir_step_def)
  moreover have "name_ok name t \<and> (\<forall>i < 60. at (mem t) name i = at (mem s) name i)" if "name_ok name s" for name
    using that gd(6,7) p(3,4) by simp
  moreover have "i_size (info t ip) = i_size (info s ip)" "i_type (info t ip) = i_type (info s ip)"
    using gd(5) by simp_all
  ultimately show ?thesis using gd(1-4) st by (simp add: dir_kept_def)
qed

section \<open>Search\<close>

lemma eoff_less: "dir_ok H ip s \<Longrightarrow> k \<le> dsize s ip \<Longrightarrow> eoff k < i_size (info s ip) \<longleftrightarrow> k < dsize s ip"
proof -
  assume d: "dir_ok H ip s" and k: "k \<le> dsize s ip"
  have sz: "unat (i_size (info s ip)) < 2 ^ 32" using unsigned_less[of "i_size (info s ip)", where 'a = nat] by simp
  have "unat (eoff k) = 64 * k" using k dir_okD(9)[OF d] sz by (intro unat_eoff) simp
  then show ?thesis using dir_okD(9)[OF d] by (simp add: word_less_nat_alt)
qed

lemma de_is_named:
  assumes "\<forall>i < 60. de_name t i = fst e i" and "\<And>i. i < 60 \<Longrightarrow> at (mem t) name i = nm i"
  shows "de_is name t = named nm e"
  using assms by (simp add: de_is_def named_def strncmp_0_iff same_upto_def cong: conj_cong)

lemma dir_lookup_drop:
  "k < length es \<Longrightarrow> dir_lookup nm (drop k es) =
     (if named nm (es ! k) then snd (es ! k) else dir_lookup nm (drop (Suc k) es))"
  by (simp add: dir_lookup_def Cons_nth_drop_Suc[symmetric])

lemma search_loop_ok:
  fixes s :: "'a fs_state_scheme"
  assumes "dir_ok H ip s" and "name_ok name s" and "k \<le> dsize s ip" and "dsize s ip < k + n"
    and "\<And>i. i < 60 \<Longrightarrow> at (mem s) name i = nm i"
  shows "\<exists>t. search_loop n ip name (eoff k) s = Inr (dir_lookup nm (drop k (dents s ip)), t) \<and> dir_kept H ip s t"
  using assms
proof (induction n arbitrary: k s)
  case (Suc n)
  note p = Suc.prems
  show ?case
  proof (cases "k < dsize s ip")
    case False
    then show ?thesis using eoff_less[OF p(1,3)] dir_kept_refl[OF p(1)] p(3) by (simp add: dir_lookup_def)
  next
    case True
    from read_de_ok[OF p(1) True] obtain t where t: "read_de ip (eoff k) s = Inr (64, t)" "dir_kept H ip s t"
      "\<forall>i < 60. de_name t i = fst (dents s ip ! k) i" "de_inum t = snd (dents s ip ! k)" by blast
    note kt = dir_keptD[OF t(2)]
    have nm: "at (mem t) name i = nm i" if "i < 60" for i using kt(9)[OF p(2) that] p(5)[OF that] by simp
    note dn = de_is_named[OF t(3) nm]
    show ?thesis
    proof (cases "named nm (dents s ip ! k)")
      case True
      then show ?thesis using eoff_less[OF p(1,3)] \<open>k < dsize s ip\<close> t dn by (simp add: dir_lookup_drop)
    next
      case False
      from Suc.IH[OF kt(1) kt(8)[OF p(2)], of "Suc k"] p(4) True nm obtain u where
        u: "search_loop n ip name (eoff (Suc k)) t = Inr (dir_lookup nm (drop (Suc k) (dents t ip)), u)" "dir_kept H ip t u"
        by (auto simp: kt(4))
      then show ?thesis
        using eoff_less[OF p(1,3)] True False t dn dir_kept_trans[OF p(1) t(2) u(2)]
        by (simp add: dir_lookup_drop eoff_Suc kt(3))
    qed
  qed
qed simp

lemma dentry_search_ok:
  fixes s :: "'a fs_state_scheme"
  assumes d: "dir_ok H ip s" and n: "name_ok name s"
  shows "\<exists>t. dentry_search ip name s = Inr (dir_lookup (at (mem s) name) (dents s ip), t) \<and> dir_kept H ip s t"
  using search_loop_ok[OF d n, of 0 "rounds ip s" "at (mem s) name"] dir_okD(5)[OF d]
  by (simp add: dentry_search_def rounds_def dsize_def)

section \<open>Writing an entry\<close>

definition entry_bytes_of :: "(nat \<Rightarrow> u8) \<Rightarrow> u32 \<Rightarrow> nat \<Rightarrow> u8" where
  "entry_bytes_of nm inum i = (if i < 59 then nm i else if i < 60 then 0 else byte_of inum (i - 60))"

text \<open>The list with entry \<open>k\<close> replaced, or appended when \<open>k\<close> is the length.\<close>

definition put_entry :: "nat \<Rightarrow> 'b \<Rightarrow> 'b list \<Rightarrow> 'b list" where
  "put_entry k e es = (if k < length es then es[k := e] else es @ [e])"

lemma clear_de_patch: "clear_de s = de_patch (\<lambda>_. 0) s"
  by (simp add: clear_de_def de_patch_def patch_def memset_apply fun_eq_iff)

lemma de_patch_patch: "de_patch g (de_patch f s) = de_patch g s"
  by (simp add: de_patch_def patch_def fun_eq_iff cong: if_cong)

text \<open>The entry that \<open>dentry_create\<close> builds in \<open>de\<close>.\<close>

lemma build_entry:
  fixes s :: "'a fs_state_scheme"
  assumes n: "name_ok name s"
  defines "s1 \<equiv> clear_de s"
  defines "s2 \<equiv> s1\<lparr>mem := memmove (mem s1) (lv s1 L_de) name 59\<rparr>"
  shows "s2\<lparr>mem := store32 (mem s2) (lv s2 L_de + 60) inum\<rparr> = de_patch (entry_bytes_of (at (mem s) name) inum) s"
proof -
  let ?d = "lv s L_de"
  have m1: "mem s1 = patch ?d 64 (\<lambda>_. 0) (mem s)" and lv: "lv s1 = lv s" by (simp_all add: s1_def clear_de_patch de_patch_def)
  have nd: "name + of_nat i \<noteq> ?d" if "i < 59" for i using n that by (auto simp: name_ok_def dest: spec[of _ i])
  have u59: "unat (59 :: u32) = 59" by simp
  have "memmove (mem s1) ?d name 59 = patch ?d 59 (\<lambda>i. mem s1 (name + of_nat i)) (mem s1)"
    unfolding memmove_def u59 by (rule copy_disjoint) (use nd in simp_all)
  also have "\<dots> = patch ?d 59 (at (mem s) name) (mem s1)"
    by (rule patch_cong) (use n in \<open>simp add: m1 patch_def at_def name_ok_def\<close>)
  finally have m2: "memmove (mem s1) ?d name 59 = patch ?d 59 (at (mem s) name) (patch ?d 64 (\<lambda>_. 0) (mem s))" by (simp add: m1)
  have "store32 (mem s2) (?d + 60) inum = patch ?d 64 (entry_bytes_of (at (mem s) name) inum) (mem s)"
    using store32_at[of 60 "mem s2" ?d inum] by (auto simp: s2_def lv m2 fun_eq_iff patch_def entry_bytes_of_def)
  moreover have "lv s2 = lv s" by (simp add: s2_def lv)
  moreover have "s2\<lparr>mem := m\<rparr> = s\<lparr>mem := m\<rparr>" for m by (simp add: s2_def s1_def clear_de_def)
  ultimately show ?thesis by (simp add: de_patch_def)
qed

lemma fbyte_slot:
  fixes j k l :: nat
  assumes "j < 64" shows "64 * k \<le> 64 * l + j \<and> 64 * l + j < 64 * k + 64 \<longleftrightarrow> l = k"
proof
  assume "64 * k \<le> 64 * l + j \<and> 64 * l + j < 64 * k + 64"
  then show "l = k" using assms by linarith
qed (use assms in simp)

text \<open>
  Writing the entry in \<open>de\<close> at slot \<open>k\<close>, the first one after the end at most: it replaces that entry,
  or the write is short, and then the disk is full.
\<close>

lemma write_de_ok:
  fixes s :: "'a fs_state_scheme"
  assumes d: "dir_ok H ip s" and k: "k \<le> dsize s ip" and room: "64 * k + 64 < 2 ^ 32"
  shows "\<exists>n t. write_de ip (eoff k) (de_patch f s) = Inr (of_nat n, t) \<and> n \<le> 64 \<and>
    (n < 64 \<longrightarrow> free_block_of t = None \<and> k = dsize s ip) \<and>
    store_ok 2 H t \<and> fs_rel ip (de_patch f s) t \<and>
    (n = 64 \<longrightarrow> dir_ok H ip t \<and> dents t ip = put_entry k (dent_at f) (dents s ip)) \<and>
    (\<forall>b. in_area (sb s) b \<longrightarrow> used (sb s) (disk_block s) b \<longrightarrow> \<not> mine s ip b \<longrightarrow> disk_block t b = disk_block s b) \<and>
    (n < 64 \<longrightarrow> \<not> mapped s ip (64 * k + n)) \<and>
    (n = 64 \<longrightarrow> k = dsize s ip \<longrightarrow>
       disk_inode (disk_block t) (inode_firstblock (sb s)) (inode_num (the_inode s ip)) = inode_view (info t ip)) \<and>
    i_nlink (info t ip) = i_nlink (info s ip)"
proof -
  let ?s = "de_patch f s"
  note p = dir_patch[OF d, where f = f]
  note o = dir_okD[OF p(1)]
  have sz: "unat (i_size (info s ip)) < 2 ^ 32" using unsigned_less[of "i_size (info s ip)", where 'a = nat] by simp
  have ds: "64 * dsize s ip = unat (i_size (info s ip))" using dir_okD(9)[OF d] by simp
  have un: "unat (eoff k) = 64 * k" using k ds sz by (intro unat_eoff) simp
  have ul: "unat (64 :: u32) = 64" by simp
  have ov: "unat (eoff k) + unat (64 :: u32) < 2 ^ 32" using k ds room un by simp
  have fr: "foreign_range ?s (lv s L_de) (unat (64 :: u32))" using o(8) by simp
  have "store_ok (Suc (Suc 0)) H ?s" using o(1) by (simp only: numeral_2_eq_2)
  from inode_write_data_ok[OF this o(2,3,4) ov fr, of False, unfolded un ul] obtain n t where
    t: "inode_write_data ip (eoff k) 64 (lv s L_de) False ?s = Inr (of_nat n, t)" "n \<le> 64" "store_ok 2 H t"
      "fs_rel ip ?s t" "ftree ip t"
      "the_inode t ip = (the_inode ?s ip)\<lparr>disk_info := (info ?s ip)\<lparr>i_index := fslots t ip, i_size := new_size ?s ip (eoff k) n\<rparr>\<rparr>"
      "\<forall>i < 2 ^ 32. fbyte t ip i = (if 64 * k \<le> i \<and> i < 64 * k + n then mem ?s (lv s L_de + of_nat (i - 64 * k)) else fbyte ?s ip i)"
      "\<forall>i < n. mapped t ip (64 * k + i)" "n < 64 \<longrightarrow> free_block_of t = None \<and> \<not> mapped ?s ip (64 * k + n)"
      "\<forall>b. in_area (sb ?s) b \<longrightarrow> used (sb ?s) (disk_block ?s) b \<longrightarrow> \<not> mine ?s ip b \<longrightarrow> disk_block t b = disk_block ?s b"
      "\<forall>q. vnode q \<longrightarrow> faddr ?s ip q \<noteq> 0 \<longrightarrow> faddr t ip q = faddr ?s ip q"
      "new_size ?s ip (eoff k) n \<noteq> i_size (info ?s ip) \<longrightarrow>
         disk_inode (disk_block t) (inode_firstblock (sb ?s)) (inode_num (the_inode ?s ip)) = inode_view (info t ip)"
    unfolding numeral_2_eq_2 by blast
  have "dir_ok H ip t \<and> dents t ip = put_entry k (dent_at f) (dents s ip)" if n: "n = 64"
  proof -
    have mf: "mem ?s (lv s L_de + of_nat j) = f j" if "j < 64" for j
      using that patch_in[of 64 j "lv s L_de" f "mem s"] by (simp add: de_patch_def)
    have fb: "fbyte t ip (64 * l + j) = (if l = k then f j else fbyte s ip (64 * l + j))" if "64 * l + j < 2 ^ 32" "j < 64" for l j
      using t(7)[rule_format, OF that(1)] fbyte_slot[OF that(2), of k l] mf[OF that(2)] that(2) by (auto simp: n)
    have ns: "unat (i_size (info t ip)) = (if k < dsize s ip then 64 * dsize s ip else 64 * Suc (dsize s ip))"
    proof (cases "k < dsize s ip")
      case True
      then show ?thesis using ds un by (simp add: t(6) new_size_def n)
    next
      case False
      then have "k = dsize s ip" using k by simp
      moreover from this have "unat (eoff k + 64) = 64 * k + 64" using room ds un by (simp add: unat_word_ariths)
      ultimately show ?thesis using ds un by (simp add: t(6) new_size_def n)
    qed
    have ts: "dsize t ip = (if k < dsize s ip then dsize s ip else Suc (dsize s ip))" unfolding dsize_def[of t] ns by simp
    have "dents t ip = put_entry k (dent_at f) (dents s ip)"
    proof (rule nth_equalityI)
      show "length (dents t ip) = length (put_entry k (dent_at f) (dents s ip))" by (simp add: ts put_entry_def)
      fix l assume "l < length (dents t ip)"
      then have l: "l < dsize t ip" by simp
      have "dents t ip ! l = dent_at (\<lambda>i. if l = k then f i else fbyte s ip (64 * l + i))"
        unfolding dents_nth[OF l]
      proof (rule dent_at_cong)
        fix i :: nat assume i: "i < 64"
        have "64 * l + i < 2 ^ 32" using l i ds room sz unfolding ts by (auto split: if_splits)
        then show "fbyte t ip (64 * l + i) = (if l = k then f i else fbyte s ip (64 * l + i))" by (rule fb) (rule i)
      qed
      also have "\<dots> = put_entry k (dent_at f) (dents s ip) ! l"
        using l k unfolding ts by (auto simp: put_entry_def dents_nth nth_append nth_list_update split: if_splits)
      finally show "dents t ip ! l = put_entry k (dent_at f) (dents s ip) ! l" .
    qed
    moreover have "dir_ok H ip t"
    proof -
      have "mapped t ip i" if i: "i < unat (i_size (info t ip))" for i
      proof (cases "i < unat (i_size (info s ip))")
        case True
        then have "mapped ?s ip i" using dir_okD(7)[OF d] by simp
        moreover have "i < 2 ^ 32" using True sz by simp
        ultimately show ?thesis using t(11) by (intro extend_mapped[of ?s ip t]) auto
      next
        case False
        then have "64 * k \<le> i" "i < 64 * k + 64" using i k ds unfolding ns by (auto split: if_splits)
        then have "i = 64 * k + (i - 64 * k)" "i - 64 * k < n" by (simp_all add: n)
        then show ?thesis using t(8) by metis
      qed
      moreover have "64 dvd unat (i_size (info t ip))" unfolding ns by simp
      moreover have "foreign_range t (lv t L_de) 64"
        using foreign_range_rel[OF t(4) o(8)] fs_relD(10)[OF t(4)] by simp
      ultimately show ?thesis
        using t(3,5) o(3,4,5) by (simp add: dir_ok_def fs_relD(1)[OF t(4)] meta_ok_def inode_block_def t(6))
    qed
    ultimately show ?thesis by simp
  qed
  moreover have "k = dsize s ip" if "n < 64"
  proof (rule ccontr)
    assume "k \<noteq> dsize s ip"
    then have "64 * k + n < unat (i_size (info s ip))" using k ds that by simp
    then show False using dir_okD(7)[OF d] t(9) that by simp
  qed
  moreover have "disk_inode (disk_block t) (inode_firstblock (sb s)) (inode_num (the_inode s ip)) = inode_view (info t ip)"
    if n: "n = 64" "k = dsize s ip"
  proof -
    have "unat (eoff k + 64) = 64 * k + 64" using room un by (simp add: unat_word_ariths)
    then have "unat (new_size ?s ip (eoff k) n) = 64 * k + 64" using un ds n by (simp add: new_size_def)
    then have "new_size ?s ip (eoff k) n \<noteq> i_size (info ?s ip)" using ds n(2) by auto
    then show ?thesis using t(12) by simp
  qed
  moreover have "i_nlink (info t ip) = i_nlink (info s ip)" by (simp add: t(6))
  ultimately show ?thesis using t(1,2,3,4,9,10) by (intro exI[of _ n] exI[of _ t]) (simp add: write_de_def)
qed

section \<open>Creation\<close>

text \<open>The slot of a new entry: the first free one, or the end.\<close>

definition free_slot :: "dent list \<Rightarrow> nat" where
  "free_slot es = (case List.find (\<lambda>k. fst (es ! k) 0 = 0) [0..<length es] of None \<Rightarrow> length es | Some k \<Rightarrow> k)"

definition has_entry :: "(nat \<Rightarrow> u8) \<Rightarrow> dent list \<Rightarrow> bool" where
  "has_entry nm es \<longleftrightarrow> (\<exists>e \<in> set es. named nm e)"

definition dir_insert :: "(nat \<Rightarrow> u8) \<Rightarrow> u32 \<Rightarrow> dent list \<Rightarrow> dent list" where
  "dir_insert nm inum es = put_entry (free_slot es) (dent_at (entry_bytes_of nm inum)) es"

text \<open>The free entry that the loop of \<open>dentry_create\<close> remembers.\<close>

definition slot_from :: "dent list \<Rightarrow> nat \<Rightarrow> u32 \<Rightarrow> u32" where
  "slot_from es k eo = (if eo \<noteq> -1 then eo else
     case List.find (\<lambda>k. fst (es ! k) 0 = 0) [k..<length es] of None \<Rightarrow> -1 | Some j \<Rightarrow> eoff j)"

lemma eoff_not_m1: "64 * k < 2 ^ 32 \<Longrightarrow> eoff k \<noteq> -1"
proof
  assume "64 * k < 2 ^ 32" "eoff k = -1"
  then have "64 * k = 4294967295" using unat_eoff[of k] by (simp add: unsigned_minus_1_eq_mask mask_eq_exp_minus_1)
  then show False by presburger
qed

lemma slot_from_step:
  assumes "k < length es" and "64 * k < 2 ^ 32"
  shows "slot_from es k eo = slot_from es (Suc k) (if fst (es ! k) 0 = 0 then if eo = -1 then eoff k else eo else eo)"
  using assms eoff_not_m1[OF assms(2)] by (simp add: slot_from_def upt_conv_Cons)

lemma de_name_0: "\<forall>i < 60. de_name t i = fst e i \<Longrightarrow> de_name t 0 = fst e 0"
  by simp

lemma create_loop_ok:
  fixes s :: "'a fs_state_scheme"
  assumes "dir_ok H ip s" and "name_ok name s" and "k \<le> dsize s ip" and "dsize s ip < k + n"
    and "\<And>i. i < 60 \<Longrightarrow> at (mem s) name i = nm i"
  shows "\<exists>t. create_loop n ip name (eoff k) eo s =
      Inr (if has_entry nm (drop k (dents s ip)) then None else Some (slot_from (dents s ip) k eo), t) \<and> dir_kept H ip s t"
  using assms
proof (induction n arbitrary: k s eo)
  case (Suc n)
  note p = Suc.prems
  show ?case
  proof (cases "k < dsize s ip")
    case False
    then show ?thesis using eoff_less[OF p(1,3)] dir_kept_refl[OF p(1)] p(3) by (simp add: has_entry_def slot_from_def)
  next
    case True
    from read_de_ok[OF p(1) True] obtain t where t: "read_de ip (eoff k) s = Inr (64, t)" "dir_kept H ip s t"
      "\<forall>i < 60. de_name t i = fst (dents s ip ! k) i" "de_inum t = snd (dents s ip ! k)" by blast
    note kt = dir_keptD[OF t(2)]
    have nm: "at (mem t) name i = nm i" if "i < 60" for i using kt(9)[OF p(2) that] p(5)[OF that] by simp
    have dn: "strncmp (de_name t) (at (mem t) name) 60 = 0 \<longleftrightarrow> strncmp (fst (dents s ip ! k)) nm 60 = 0"
      using t(3) nm by (simp add: strncmp_0_iff same_upto_def cong: conj_cong)
    have k32: "64 * k < 2 ^ 32"
      using True dir_okD(9)[OF p(1)] unsigned_less[of "i_size (info s ip)", where 'a = nat] by simp
    have he: "has_entry nm (drop k (dents s ip)) = (named nm (dents s ip ! k) \<or> has_entry nm (drop (Suc k) (dents s ip)))"
      using True by (simp add: has_entry_def Cons_nth_drop_Suc[symmetric])
    have sl: "slot_from (dents s ip) k eo =
        slot_from (dents s ip) (Suc k) (if fst (dents s ip ! k) 0 = 0 then if eo = -1 then eoff k else eo else eo)"
      by (rule slot_from_step) (use True k32 in simp_all)
    show ?thesis
    proof (cases "named nm (dents s ip ! k)")
      case nd: True
      then show ?thesis using eoff_less[OF p(1,3)] True t dn he de_name_0[OF t(3)] by (simp add: named_def)
    next
      case False
      let ?eo = "if fst (dents s ip ! k) 0 = 0 then if eo = -1 then eoff k else eo else eo"
      from Suc.IH[OF kt(1) kt(8)[OF p(2)], of "Suc k" ?eo] p(4) True nm obtain u where
        u: "create_loop n ip name (eoff (Suc k)) ?eo t = Inr (if has_entry nm (drop (Suc k) (dents t ip)) then None
          else Some (slot_from (dents t ip) (Suc k) ?eo), u)" "dir_kept H ip t u"
        by (auto simp: kt(4))
      have "create_loop (Suc n) ip name (eoff k) eo s = create_loop n ip name (eoff (Suc k)) ?eo t"
        using eoff_less[OF p(1,3)] True False t dn de_name_0[OF t(3)] by (auto simp: eoff_Suc named_def)
      then show ?thesis using u dir_kept_trans[OF p(1) t(2) u(2)] False by (simp add: he sl kt(3))
    qed
  qed
qed simp

lemma free_slot_le: "free_slot es \<le> length es"
  using find_Some_iff[of "\<lambda>k. fst (es ! k) 0 = 0" "[0..<length es]"] by (auto simp: free_slot_def split: option.split)

lemma write_slot:
  assumes "64 * length es < 2 ^ 32" and "unat sz = 64 * length es"
  shows "(if slot_from es 0 (-1) \<noteq> -1 then slot_from es 0 (-1) else sz) = eoff (free_slot es)"
proof (cases "List.find (\<lambda>k. fst (es ! k) 0 = 0) [0..<length es]")
  case None
  have "sz = eoff (length es)" using assms unat_eoff[of "length es"] by (simp add: word_unat_eq_iff)
  then show ?thesis using None by (simp add: slot_from_def free_slot_def)
next
  case (Some k)
  then have "k < length es" using find_Some_iff[OF Some] by simp
  then show ?thesis using Some assms(1) eoff_not_m1[of k] by (simp add: slot_from_def free_slot_def)
qed

lemma clear_de_fields [simp]: "inode_cache (clear_de s) = inode_cache s"
  by (simp add: clear_de_def)

lemma dentry_create_some:
  fixes s t :: "'a fs_state_scheme"
  assumes "i_type (info s ip) = INODE_TYPE_DIR" and "create_loop (rounds ip s) ip name 0 (-1) s = Inr (Some eo, t)" and "name_ok name t"
  shows "dentry_create ip inum name s =
    (let off = (if eo \<noteq> -1 then eo else i_size (info t ip)) in
     bnd (write_de ip off (de_patch (entry_bytes_of (at (mem t) name) inum) t)) (\<lambda>(k, s).
     if k \<noteq> 64 then Inr (-1, s) else Inr (off, s)))"
  using assms(1,2) build_entry[OF assms(3), of inum] by (simp add: dentry_create_def Let_def split del: if_split cong: if_cong)

text \<open>
  \<open>dentry_create\<close>: -1 for a name that exists; else the entry goes to the first free slot, unless the
  disk is full.
\<close>

lemma dentry_create_ok:
  fixes s :: "'a fs_state_scheme"
  assumes d: "dir_ok H ip s" and n: "name_ok name s" and room: "unat (i_size (info s ip)) + 64 < 2 ^ 32"
  shows "\<exists>v t. dentry_create ip inum name s = Inr (v, t) \<and>
    (if has_entry (at (mem s) name) (dents s ip) then v = -1 \<and> dir_kept H ip s t
     else (v = -1 \<and> free_block_of t = None \<and> free_slot (dents s ip) = length (dents s ip)) \<or>
       v = eoff (free_slot (dents s ip)) \<and> dir_ok H ip t \<and> dents t ip = dir_insert (at (mem s) name) inum (dents s ip))"
proof -
  let ?nm = "at (mem s) name" and ?es = "dents s ip"
  note o = dir_okD[OF d]
  have fuel: "dsize s ip < 0 + rounds ip s" by (simp add: rounds_def dsize_def)
  from create_loop_ok[OF d n le0 fuel refl, of "-1"] obtain t where
    t: "create_loop (rounds ip s) ip name 0 (-1) s =
      Inr (if has_entry ?nm ?es then None else Some (slot_from ?es 0 (-1)), t)" "dir_kept H ip s t" by auto
  note kt = dir_keptD[OF t(2)]
  show ?thesis
  proof (cases "has_entry ?nm ?es")
    case True
    then show ?thesis using t o(5) by (simp add: dentry_create_def)
  next
    case False
    have nt: "name_ok name t" by (rule kt(8)[OF n])
    have sz: "unat (i_size (info t ip)) = 64 * length ?es" "64 * length ?es < 2 ^ 32" using o(9) room by (simp_all add: kt(6))
    let ?f = "entry_bytes_of (at (mem t) name) inum"
    have b: "?f i = entry_bytes_of ?nm inum i" for i using kt(9)[OF n, of i] by (simp add: entry_bytes_of_def)
    have le: "free_slot ?es \<le> dsize t ip" using free_slot_le[of ?es] by (simp add: kt(4))
    have rt: "64 * free_slot ?es + 64 < 2 ^ 32" using room sz(1) free_slot_le[of ?es] by (simp add: kt(6))
    from write_de_ok[OF kt(1) le rt, of ?f] obtain m u where u: "write_de ip (eoff (free_slot ?es)) (de_patch ?f t) = Inr (of_nat m, u)"
      "m \<le> 64" "m < 64 \<longrightarrow> free_block_of u = None \<and> free_slot ?es = dsize t ip"
      "m = 64 \<longrightarrow> dir_ok H ip u \<and> dents u ip = put_entry (free_slot ?es) (dent_at ?f) (dents t ip)" by blast
    have tf: "i_size (info (de_patch ?f t) ip) = i_size (info t ip)" by simp
    have "(if slot_from ?es 0 (-1) \<noteq> -1 then slot_from ?es 0 (-1) else i_size (info t ip)) = eoff (free_slot ?es)"
      by (rule write_slot[OF sz(2,1)])
    then have "dentry_create ip inum name s =
        bnd (write_de ip (eoff (free_slot ?es)) (de_patch ?f t)) (\<lambda>(k, s). if k \<noteq> 64 then Inr (-1, s) else Inr (eoff (free_slot ?es), s))"
      using dentry_create_some[OF o(5) _ nt, of "slot_from ?es 0 (-1)" inum] t(1) False by (simp add: Let_def split del: if_split)
    moreover have "(of_nat m :: u32) = 64 \<longleftrightarrow> m = 64" using u(2) by (auto simp: word_unat_eq_iff unat_of_nat)
    moreover have "dir_insert ?nm inum ?es = put_entry (free_slot ?es) (dent_at ?f) ?es" using ext[of ?f, OF b] by (simp add: dir_insert_def)
    ultimately show ?thesis using u False by (cases "m = 64") (auto simp: kt(3,4))
  qed
qed

section \<open>Deletion\<close>

definition dir_delete :: "(nat \<Rightarrow> u8) \<Rightarrow> dent list \<Rightarrow> dent list" where
  "dir_delete nm es = (case List.find (\<lambda>k. named nm (es ! k)) [0..<length es] of
     None \<Rightarrow> es | Some k \<Rightarrow> es[k := dent_at (\<lambda>_. 0)])"

lemma find_from_step:
  "k < n \<Longrightarrow> List.find P [k..<n] = (if P k then Some k else List.find P [Suc k..<n])"
  by (simp add: upt_conv_Cons)

lemma delete_loop_ok:
  fixes s :: "'a fs_state_scheme"
  assumes "dir_ok H ip s" and "name_ok name s" and "k \<le> dsize s ip" and "dsize s ip < k + n"
    and "\<And>i. i < 60 \<Longrightarrow> at (mem s) name i = nm i"
  shows "\<exists>v t. delete_loop n ip name (eoff k) s = Inr (v, t) \<and>
    (case List.find (\<lambda>k. named nm (dents s ip ! k)) [k..<dsize s ip] of
       None \<Rightarrow> v = INVALID_INODE_NUM \<and> dir_kept H ip s t
     | Some j \<Rightarrow> v = snd (dents s ip ! j) \<and> dir_ok H ip t \<and> dents t ip = (dents s ip)[j := dent_at (\<lambda>_. 0)])"
  using assms
proof (induction n arbitrary: k s)
  case (Suc n)
  note p = Suc.prems
  show ?case
  proof (cases "k < dsize s ip")
    case False
    then show ?thesis using eoff_less[OF p(1,3)] dir_kept_refl[OF p(1)] p(3) by simp
  next
    case True
    from read_de_ok[OF p(1) True] obtain t where t: "read_de ip (eoff k) s = Inr (64, t)" "dir_kept H ip s t"
      "\<forall>i < 60. de_name t i = fst (dents s ip ! k) i" "de_inum t = snd (dents s ip ! k)" by blast
    note kt = dir_keptD[OF t(2)]
    have nm: "at (mem t) name i = nm i" if "i < 60" for i using kt(9)[OF p(2) that] p(5)[OF that] by simp
    note dn = de_is_named[OF t(3) nm]
    have "64 * Suc k \<le> 64 * dsize s ip" "64 * dsize s ip = unat (i_size (info s ip))"
      using True dir_okD(9)[OF p(1)] by auto
    then have rt: "64 * k + 64 < 2 ^ 32" using unsigned_less[of "i_size (info s ip)", where 'a = nat] by simp
    show ?thesis
    proof (cases "named nm (dents s ip ! k)")
      case nd: True
      have kd: "k \<le> dsize t ip" using True by (simp add: kt(4))
      from write_de_ok[OF kt(1) kd rt, of "\<lambda>_. 0"] obtain m u where u: "write_de ip (eoff k) (de_patch (\<lambda>_. 0) t) = Inr (of_nat m, u)"
        "m \<le> 64" "m < 64 \<longrightarrow> k = dsize t ip"
        "m = 64 \<longrightarrow> dir_ok H ip u \<and> dents u ip = put_entry k (dent_at (\<lambda>_. 0)) (dents t ip)" by blast
      have m: "m = 64" using u(2,3) True kt(4) by (cases "m < 64") auto
      let ?v = "snd (dents s ip ! k)"
      have "delete_loop (Suc n) ip name (eoff k) s =
          bnd (write_de ip (eoff k) (de_patch (\<lambda>_. 0) t)) (\<lambda>(w, s). if w \<noteq> 64 then Inr (INVALID_INODE_NUM, s)
            else Inr (?v, s))"
        using eoff_less[OF p(1,3)] True nd t dn by (auto simp: clear_de_patch Let_def)
      then show ?thesis using u(1,4) True nd m by (auto simp: find_from_step kt(3) put_entry_def)
    next
      case False
      from Suc.IH[OF kt(1) kt(8)[OF p(2)], of "Suc k"] p(4) True nm obtain v u where
        u: "delete_loop n ip name (eoff (Suc k)) t = Inr (v, u)"
          "case List.find (\<lambda>k. named nm (dents t ip ! k)) [Suc k..<dsize t ip] of
             None \<Rightarrow> v = INVALID_INODE_NUM \<and> dir_kept H ip t u
           | Some j \<Rightarrow> v = snd (dents t ip ! j) \<and> dir_ok H ip u \<and> dents u ip = (dents t ip)[j := dent_at (\<lambda>_. 0)]"
        by (auto simp: kt(4))
      have "delete_loop (Suc n) ip name (eoff k) s = Inr (v, u)"
        using eoff_less[OF p(1,3)] True False t dn u(1) by (auto simp: eoff_Suc)
      then show ?thesis
        using u(2) True False dir_kept_trans[OF p(1) t(2), of u]
        by (auto simp: find_from_step kt(3,4) split: option.splits)
    qed
  qed
qed simp

lemma find_nth: "List.find P es = map_option ((!) es) (List.find (\<lambda>k. P (es ! k)) [0..<length es])"
proof -
  have "List.find P (map f ks) = map_option f (List.find (\<lambda>k. P (f k)) ks)" for f and ks :: "nat list"
    by (induction ks) simp_all
  from this[of "(!) es" "[0..<length es]"] show ?thesis by (simp add: map_nth)
qed

lemma same_upto_trans:
  assumes h: "same_upto p q n" "same_upto p r n"
  shows "same_upto q r n"
  unfolding same_upto_def
proof (intro allI impI)
  have pq: "p i = q i" if "i < n" "\<forall>j<i. q j \<noteq> 0" for i
    using that
  proof (induction i rule: less_induct)
    case (less i)
    then have "\<forall>j<i. p j \<noteq> 0" by simp
    then show ?case using h(1) less.prems(1) by (simp add: same_upto_def)
  qed
  fix i assume i: "i < n" "\<forall>j<i. q j \<noteq> 0"
  have "p j = q j" if "j < i" for j using pq[of j] i that by simp
  then have "\<forall>j<i. p j \<noteq> 0" using i(2) by simp
  then have "p i = r i" using h(2) i(1) by (simp add: same_upto_def)
  then show "q i = r i" using pq[OF i] by simp
qed

lemma dentry_delete_ok:
  fixes s :: "'a fs_state_scheme"
  assumes d: "dir_ok H ip s" and n: "name_ok name s"
  shows "\<exists>v t. dentry_delete ip name s = Inr (v, t) \<and>
    (if has_entry (at (mem s) name) (dents s ip)
     then v = dir_lookup (at (mem s) name) (dents s ip) \<and> dir_ok H ip t \<and> dents t ip = dir_delete (at (mem s) name) (dents s ip)
     else v = INVALID_INODE_NUM \<and> dir_kept H ip s t)"
proof -
  let ?nm = "at (mem s) name" and ?es = "dents s ip"
  have fuel: "dsize s ip < 0 + rounds ip s" by (simp add: rounds_def dsize_def)
  from delete_loop_ok[OF d n le0 fuel refl] obtain v t where t: "delete_loop (rounds ip s) ip name 0 s = Inr (v, t)"
    "case List.find (\<lambda>k. named ?nm (?es ! k)) [0..<dsize s ip] of None \<Rightarrow> v = INVALID_INODE_NUM \<and> dir_kept H ip s t
     | Some j \<Rightarrow> v = snd (?es ! j) \<and> dir_ok H ip t \<and> dents t ip = ?es[j := dent_at (\<lambda>_. 0)]" by auto
  have dl: "dentry_delete ip name s = Inr (v, t)" using t(1) dir_okD(5)[OF d] by (simp add: dentry_delete_def)
  show ?thesis
  proof (cases "List.find (\<lambda>k. named ?nm (?es ! k)) [0..<dsize s ip]")
    case None
    then have "\<not> named ?nm (?es ! k)" if "k < length ?es" for k using that by (simp add: find_None_iff)
    then have "\<not> has_entry ?nm ?es" unfolding has_entry_def by (metis in_set_conv_nth)
    then show ?thesis using dl t(2) None by simp
  next
    case (Some j)
    then have j: "j < dsize s ip" "named ?nm (?es ! j)" using find_Some_iff[OF Some] by auto
    then have "has_entry ?nm ?es" unfolding has_entry_def by (metis in_set_conv_nth length_dents)
    moreover have "dir_lookup ?nm ?es = snd (?es ! j)"
    proof -
      have "List.find (named ?nm) ?es = map_option ((!) ?es) (List.find (\<lambda>k. named ?nm (?es ! k)) [0..<length ?es])"
        by (rule find_nth)
      then show ?thesis using Some by (simp add: dir_lookup_def)
    qed
    moreover have "dir_delete ?nm ?es = ?es[j := dent_at (\<lambda>_. 0)]" using Some by (simp add: dir_delete_def)
    ultimately show ?thesis using dl t(2) Some by simp
  qed
qed

section \<open>The directory as a map\<close>

text \<open>A proper name is not empty and ends within 60 bytes.\<close>

definition good_name :: "(nat \<Rightarrow> u8) \<Rightarrow> bool" where
  "good_name nm \<longleftrightarrow> nm 0 \<noteq> 0 \<and> (\<exists>i<60. nm i = 0)"

lemma entry_named:
  assumes "good_name nm"
  shows "named nm' (dent_at (entry_bytes_of nm inum)) \<longleftrightarrow> strncmp nm nm' 60 = 0"
proof -
  have z: "entry_bytes_of nm inum i = nm i" if "i < 60" "\<forall>j<i. nm j \<noteq> 0" for i
  proof (cases "i = 59")
    case True
    from assms obtain l where l: "l < 60" "nm l = 0" by (auto simp: good_name_def)
    then have "\<not> l < 59" using that True by auto
    then show ?thesis using l True by (simp add: entry_bytes_of_def less_Suc_eq numeral_eq_Suc)
  qed (use that(1) in \<open>simp add: entry_bytes_of_def\<close>)
  let ?e = "\<lambda>i. if i < 60 then entry_bytes_of nm inum i else 0"
  have pre: "(\<forall>j<i. ?e j \<noteq> 0) \<longleftrightarrow> (\<forall>j<i. nm j \<noteq> 0)" if "i < 60" for i
    using that
  proof (induction i)
    case (Suc i)
    then show ?case using z[of i] by (auto simp: less_Suc_eq)
  qed simp
  have "same_upto ?e nm' 60 \<longleftrightarrow> same_upto nm nm' 60"
    unfolding same_upto_def using pre z by (auto simp del: if_split_asm)
  moreover have "?e 0 = nm 0" by (simp add: entry_bytes_of_def)
  ultimately show ?thesis using assms by (simp add: named_def dent_at_def strncmp_0_iff good_name_def)
qed

lemma entry_inum: "snd (dent_at (entry_bytes_of nm inum)) = inum"
  unfolding dent_at_def snd_conv
proof (rule load32_bytes)
  fix i :: nat assume "i < 4"
  then have "i = 0 \<or> i = 1 \<or> i = 2 \<or> i = 3" by auto
  then show "entry_bytes_of nm inum (unat (60 + of_nat i :: u64)) = byte_of inum i" by (auto simp: entry_bytes_of_def)
qed

lemma find_update:
  assumes "k < length es" and "\<not> P (es ! k)"
  shows "List.find P (es[k := e]) = (if P e then (case List.find P (take k es) of None \<Rightarrow> Some e | r \<Rightarrow> r) else List.find P es)"
proof -
  have e: "es = take k es @ es ! k # drop (Suc k) es" using assms(1) by (rule id_take_nth_drop)
  have u: "es[k := e] = take k es @ e # drop (Suc k) es" using assms(1) by (rule upd_conv_take_nth_drop)
  have f: "List.find P es = (case List.find P (take k es) of None \<Rightarrow> List.find P (drop (Suc k) es) | r \<Rightarrow> r)"
    using assms(2) by (subst e) (simp add: find_append split: option.split)
  show ?thesis unfolding u find_append by (simp add: f split: option.split)
qed

lemma put_find:
  assumes "k < length es \<Longrightarrow> \<not> P (es ! k)"
  shows "\<not> P e \<Longrightarrow> List.find P (put_entry k e es) = List.find P es"
    and "P e \<Longrightarrow> List.find P es = None \<Longrightarrow> List.find P (put_entry k e es) = Some e"
proof -
  show "List.find P (put_entry k e es) = List.find P es" if "\<not> P e"
    using that assms find_update[of k es P e] by (auto simp: put_entry_def find_append split: option.split)
  show "List.find P (put_entry k e es) = Some e" if "P e" "List.find P es = None"
  proof -
    have "List.find P (take k es) = None" using that(2) by (auto simp: find_None_iff dest: in_set_takeD)
    then show ?thesis using that assms find_update[of k es P e] by (simp add: put_entry_def find_append)
  qed
qed

lemma free_slot_unnamed: "free_slot es < length es \<Longrightarrow> \<not> named nm (es ! free_slot es)"
  using find_Some_iff[of "\<lambda>k. fst (es ! k) 0 = 0" "[0..<length es]"]
  by (auto simp: free_slot_def named_def split: option.splits)

lemma no_entry_find: "\<not> has_entry nm es \<longleftrightarrow> List.find (named nm) es = None"
  by (auto simp: has_entry_def find_None_iff)

lemma lookup_insert:
  assumes "good_name nm" and "\<not> has_entry nm es"
  shows "dir_lookup nm (dir_insert nm inum es) = inum"
    and "strncmp nm nm' 60 \<noteq> 0 \<Longrightarrow> dir_lookup nm' (dir_insert nm inum es) = dir_lookup nm' es"
proof -
  have "strncmp nm nm 60 = 0" by (simp add: strncmp_0_iff same_upto_def)
  then show "dir_lookup nm (dir_insert nm inum es) = inum"
    using put_find(2)[of "free_slot es" es "named nm"] free_slot_unnamed entry_named[OF assms(1)] assms(2)
    by (simp add: dir_lookup_def dir_insert_def no_entry_find entry_inum)
  show "strncmp nm nm' 60 \<noteq> 0 \<Longrightarrow> dir_lookup nm' (dir_insert nm inum es) = dir_lookup nm' es"
    using put_find(1)[of "free_slot es" es "named nm'"] free_slot_unnamed entry_named[OF assms(1)]
    by (simp add: dir_lookup_def dir_insert_def)
qed

text \<open>No two entries match one name.\<close>

definition unique_names :: "dent list \<Rightarrow> bool" where
  "unique_names es \<longleftrightarrow> (\<forall>nm. \<forall>i<length es. \<forall>j<length es. named nm (es ! i) \<longrightarrow> named nm (es ! j) \<longrightarrow> i = j)"

lemma zero_unnamed: "\<not> named nm (dent_at (\<lambda>_. 0))"
  by (simp add: named_def dent_at_def)

lemma lookup_delete:
  assumes u: "unique_names es"
  shows "dir_lookup nm (dir_delete nm es) = INVALID_INODE_NUM"
    and "strncmp nm nm' 60 \<noteq> 0 \<Longrightarrow> dir_lookup nm' (dir_delete nm es) = dir_lookup nm' es" and "unique_names (dir_delete nm es)"
proof -
  consider (none) "List.find (\<lambda>k. named nm (es ! k)) [0..<length es] = None"
    | (some) j where "List.find (\<lambda>k. named nm (es ! k)) [0..<length es] = Some j" "j < length es" "named nm (es ! j)"
    using find_Some_iff[of "\<lambda>k. named nm (es ! k)" "[0..<length es]"] by fastforce
  then have "dir_lookup nm (dir_delete nm es) = INVALID_INODE_NUM \<and>
    (strncmp nm nm' 60 \<noteq> 0 \<longrightarrow> dir_lookup nm' (dir_delete nm es) = dir_lookup nm' es) \<and> unique_names (dir_delete nm es)"
  proof cases
    case none
    then have "List.find (named nm) es = None" by (simp add: find_nth[of "named nm" es])
    then show ?thesis using none u by (simp add: dir_delete_def dir_lookup_def)
  next
    case some
    let ?es = "es[j := dent_at (\<lambda>_. 0)]"
    have nth: "?es ! i = (if i = j then dent_at (\<lambda>_. 0) else es ! i)" if "i < length es" for i using that by simp
    have "\<not> named nm (?es ! i)" if "i < length es" for i
      using u that some(2,3) zero_unnamed[of nm] unfolding nth[OF that] unique_names_def by auto
    then have "List.find (named nm) ?es = None" unfolding find_None_iff by (metis in_set_conv_nth length_list_update)
    moreover have "unique_names ?es" using u zero_unnamed some(2) unfolding unique_names_def
      by (auto simp: nth_list_update split: if_splits)
    moreover have "List.find (named nm') ?es = List.find (named nm') es" if "strncmp nm nm' 60 \<noteq> 0"
    proof -
      have "\<not> named nm' (es ! j)"
        using some(3) that by (auto simp: named_def strncmp_0_iff intro: same_upto_trans)
      then show ?thesis using find_update[OF some(2), of "named nm'"] zero_unnamed by simp
    qed
    ultimately show ?thesis using some(1) by (simp add: dir_delete_def dir_lookup_def)
  qed
  then show "dir_lookup nm (dir_delete nm es) = INVALID_INODE_NUM" "unique_names (dir_delete nm es)"
    "strncmp nm nm' 60 \<noteq> 0 \<Longrightarrow> dir_lookup nm' (dir_delete nm es) = dir_lookup nm' es" by simp_all
qed

end
