(* ===== verification/PathNames.thy ===== *)
theory PathNames
  imports DirOps
begin

text \<open>
  Paths as strings: \<open>get_element\<close> takes the elements of a path one by one, as \<open>path_elems\<close> lists them, and
  puts each of them into a buffer for the search of its directory.
\<close>

section \<open>Strings in memory\<close>

primrec c_string :: "pmem \<Rightarrow> u64 \<Rightarrow> u8 list \<Rightarrow> bool" where
  "c_string m p [] \<longleftrightarrow> m p = 0"
| "c_string m p (c # cs) \<longleftrightarrow> m p = c \<and> c \<noteq> 0 \<and> c_string m (p + 1) cs"

lemma c_string_append: "c_string m p (xs @ ys) \<Longrightarrow> c_string m (p + of_nat (length xs)) ys"
  by (induction xs arbitrary: p) (simp_all add: add.assoc[symmetric])

lemma c_string_nth: "c_string m p cs \<Longrightarrow> i < length cs \<Longrightarrow> m (p + of_nat i) = cs ! i"
proof (induction cs arbitrary: p i)
  case (Cons c cs)
  then show ?case by (cases i) (auto simp: add.assoc[symmetric])
qed simp

lemma c_string_cong:
  "(\<And>i. i \<le> length cs \<Longrightarrow> m' (p + of_nat i) = m (p + of_nat i)) \<Longrightarrow> c_string m' p cs = c_string m p cs"
proof (induction cs arbitrary: p)
  case (Cons c cs)
  have "m' (p + 1 + of_nat i) = m (p + 1 + of_nat i)" if "i \<le> length cs" for i
    using Cons.prems[of "Suc i"] that by (simp add: add.assoc)
  then show ?case using Cons.IH[of "p + 1"] Cons.prems[of 0] by simp
qed simp

lemma c_string_end: "c_string m p cs \<Longrightarrow> m (p + of_nat (length cs)) = 0"
  using c_string_append[of m p cs "[]"] by simp

lemma c_string_nonzero: "c_string m p cs \<Longrightarrow> 0 \<notin> set cs"
  by (induction cs arbitrary: p) auto

lemma strlen_at:
  assumes "c_string m p cs"
  shows "strlen (at m p) = Some (length cs)"
proof (rule strlen_Some)
  show "at m p (length cs) = 0" using c_string_end[OF assms] by (simp add: at_def)
  show "at m p i \<noteq> 0" if "i < length cs" for i
    using c_string_nth[OF assms that] c_string_nonzero[OF assms] nth_mem[OF that] by (auto simp: at_def)
qed

section \<open>The elements of a path\<close>

abbreviation (input) SLASH :: u8 where "SLASH \<equiv> 47"

definition slash :: "u8 \<Rightarrow> bool" where
  "slash c \<longleftrightarrow> c = SLASH"

definition non_slash :: "u8 \<Rightarrow> bool" where
  "non_slash c \<longleftrightarrow> c \<noteq> SLASH"

lemma slash_simps [simp]: "slash SLASH" "c \<noteq> SLASH \<Longrightarrow> \<not> slash c" "\<not> non_slash SLASH" "c \<noteq> SLASH \<Longrightarrow> non_slash c"
  by (simp_all add: slash_def non_slash_def)

text \<open>The maximal pieces without slashes.\<close>

function path_elems :: "u8 list \<Rightarrow> u8 list list" where
  "path_elems cs = (let ds = dropWhile slash cs in
     if ds = [] then [] else takeWhile non_slash ds # path_elems (dropWhile non_slash ds))"
  by pat_completeness auto

lemma drop_elem: "dropWhile slash cs \<noteq> [] \<Longrightarrow> length (dropWhile non_slash (dropWhile slash cs)) < length cs"
proof -
  assume d: "dropWhile slash cs \<noteq> []"
  then obtain c ds where e: "dropWhile slash cs = c # ds" by (cases "dropWhile slash cs") auto
  then have "\<not> slash c" using hd_dropWhile[of slash cs] by simp
  then have "length (dropWhile non_slash (c # ds)) \<le> length ds"
    by (simp add: slash_def non_slash_def length_dropWhile_le)
  then show ?thesis using e length_dropWhile_le[of slash cs] by simp
qed

termination path_elems
  by (relation "measure length") (use drop_elem in \<open>auto simp: Let_def\<close>)

declare path_elems.simps [simp del]

lemma path_elems_slashes: "path_elems (dropWhile slash cs) = path_elems cs"
  by (subst (1 2) path_elems.simps) simp

section \<open>Scanning\<close>

lemma scan_slashes:
  assumes "c_string m p cs"
  shows "skip_slashes m p = Some (p + of_nat (length (takeWhile slash cs)))"
  using assms
proof (induction cs arbitrary: p)
  case Nil
  then show ?case by (subst skip_slashes.simps) simp
next
  case (Cons c cs)
  then show ?case by (cases "c = SLASH") (subst skip_slashes.simps, auto simp: add.assoc)+
qed

lemma scan_name:
  assumes "c_string m p cs"
  shows "skip_name m p = Some (p + of_nat (length (takeWhile non_slash cs)))"
  using assms
proof (induction cs arbitrary: p)
  case Nil
  then show ?case by (subst skip_name.simps) simp
next
  case (Cons c cs)
  then show ?case by (cases "c = SLASH") (subst skip_name.simps, auto simp: add.assoc)+
qed

text \<open>The name in the buffer: the characters and NUL.\<close>

definition cname :: "u8 list \<Rightarrow> nat \<Rightarrow> u8" where
  "cname e i = (if i < length e then e ! i else 0)"

text \<open>What is left of a path after its first element.\<close>

definition path_rest :: "u8 list \<Rightarrow> u8 list" where
  "path_rest cs = dropWhile slash (dropWhile non_slash (dropWhile slash cs))"

definition path_head :: "u8 list \<Rightarrow> u8 list" where
  "path_head cs = takeWhile non_slash (dropWhile slash cs)"

lemma path_elems_step:
  "path_elems cs = (if dropWhile slash cs = [] then [] else path_head cs # path_elems (path_rest cs))"
  by (subst path_elems.simps) (simp only: Let_def path_head_def path_rest_def path_elems_slashes)

lemma path_rest_shorter: "dropWhile slash cs \<noteq> [] \<Longrightarrow> length (path_rest cs) < length cs"
  using drop_elem[of cs] length_dropWhile_le[of slash "dropWhile non_slash (dropWhile slash cs)"]
  by (simp add: path_rest_def)

lemma path_rest_suffix: "\<exists>xs. cs = xs @ path_rest cs"
proof -
  have "cs = (takeWhile slash cs @ path_head cs @ takeWhile slash (dropWhile non_slash (dropWhile slash cs))) @ path_rest cs"
    by (simp add: path_head_def path_rest_def)
  then show ?thesis by blast
qed

lemma c_string_nil: "c_string m p cs \<Longrightarrow> cs = [] \<Longrightarrow> m p = 0"
  by simp

lemma small_len:
  assumes "n < 2 ^ 31"
  shows "sint (of_nat n :: u32) = int n" "scast (of_nat n :: u32) = (of_nat n :: u64)" "unat (of_nat n :: u32) = n"
    "ucast (of_nat n :: u64) = (of_nat n :: u32)"
proof -
  show s: "sint (of_nat n :: u32) = int n" using assms
    by (simp add: sint_uint unsigned_of_nat take_bit_int_eq_self take_bit_nat_eq_self signed_take_bit_eq_if_positive bit_iff_odd)
  show "unat (of_nat n :: u32) = n" using assms by (simp add: unat_of_nat)
  show "scast (of_nat n :: u32) = (of_nat n :: u64)" by (simp add: scast_eq s)
  show "ucast (of_nat n :: u64) = (of_nat n :: u32)" using assms by (simp add: unsigned_of_nat take_bit_nat_eq_self)
qed

text \<open>The copy of an element to the buffer.\<close>

lemma put_element:
  assumes c: "c_string m b ds" and k: "k \<le> length ds" "k < 60" and o: "\<And>i. i < k \<Longrightarrow> b + of_nat i \<noteq> name"
  shows "(memmove m name b (of_nat k))(name + scast (of_nat k :: u32) := 0) = patch name (Suc k) (cname (take k ds)) m"
proof
  fix x
  have "memmove m name b (of_nat k) = patch name k (\<lambda>i. m (b + of_nat i)) m"
    unfolding memmove_def using copy_disjoint[of k b name m] k o by (simp add: small_len)
  moreover have "x = name + of_nat k \<longleftrightarrow> unat (x - name) = k" by (rule word_offset_eq) (use k in simp)
  ultimately show "((memmove m name b (of_nat k))(name + scast (of_nat k :: u32) := 0)) x = patch name (Suc k) (cname (take k ds)) m x"
    using k c_string_nth[OF c, of "unat (x - name)"] by (auto simp: patch_def cname_def small_len less_Suc_eq)
qed

text \<open>
  One step of a walk: the element goes to the buffer, cut to 59 characters, and the result points to the rest.
  The buffer lies outside the path.
\<close>

lemma get_element_ok:
  assumes c: "c_string (mem s) p cs" and l: "length cs < 2 ^ 31" "unat p + length cs < 2 ^ 64"
    and o: "\<And>i. i \<le> length cs \<Longrightarrow> \<not> unat (p + of_nat i - name) < 60"
  shows "dropWhile slash cs = [] \<Longrightarrow> get_element p name s = Inr (0, s)"
    and "dropWhile slash cs \<noteq> [] \<Longrightarrow> get_element p name s =
      Inr (p + of_nat (length cs - length (path_rest cs)),
        s\<lparr>mem := patch name (Suc (length (take 59 (path_head cs)))) (cname (take 59 (path_head cs))) (mem s)\<rparr>)"
    and "dropWhile slash cs \<noteq> [] \<Longrightarrow> p + of_nat (length cs - length (path_rest cs)) \<noteq> 0"
proof -
  let ?ws = "takeWhile slash cs" and ?ds = "dropWhile slash cs"
  let ?b = "p + of_nat (length ?ws)" and ?h = "path_head cs" and ?rs = "dropWhile non_slash ?ds"
  have cb: "c_string (mem s) ?b ?ds" using c_string_append[of "mem s" p ?ws ?ds] c by simp
  note sk = scan_slashes[OF c]
  show "?ds = [] \<Longrightarrow> get_element p name s = Inr (0, s)" using sk c_string_nil[OF cb] unfolding get_element_def walk_def by simp
  assume d: "?ds \<noteq> []"
  have dl: "length ?ds = length ?h + length ?rs" "length cs = length ?ws + length ?ds"
    unfolding path_head_def by (simp_all flip: length_append)
  have hb: "mem s ?b \<noteq> 0" using cb d by (cases ?ds) auto
  let ?e = "?b + of_nat (length ?h)"
  have sn: "skip_name (mem s) ?b = Some ?e" using scan_name[OF cb] by (simp add: path_head_def)
  have ce: "c_string (mem s) ?e ?rs" using c_string_append[of "mem s" ?b ?h ?rs] cb by (simp add: path_head_def)
  let ?k = "min (length ?h) 59"
  let ?n = "ucast (?e - ?b) :: u32"
  have hl: "length ?h < 2 ^ 31" using dl l(1) by simp
  have n: "?n = of_nat (length ?h)" using small_len(4)[OF hl] by simp
  have kn: "(if sint ?n \<ge> 60 then 59 else ?n) = of_nat ?k" unfolding n small_len(1)[OF hl] by (auto simp: min_def)
  let ?m = "patch name (Suc (length (take 59 ?h))) (cname (take 59 ?h)) (mem s)"
  have hd: "take ?k ?ds = take 59 ?h" by (metis append_take_drop_id min.commute path_head_def take_add take_all_iff take_append takeWhile_eq_take take_take)
  have "?b + of_nat i \<noteq> name" if "i < ?k" for i
    using o[of "length ?ws + i"] that dl by (auto simp: add.assoc)
  then have "(memmove (mem s) name ?b (of_nat ?k))(name + scast (of_nat ?k :: u32) := 0)
      = patch name (Suc ?k) (cname (take ?k ?ds)) (mem s)"
    by (intro put_element[OF cb]) (simp_all add: dl)
  then have put: "(memmove (mem s) name ?b (of_nat ?k))(name + scast (of_nat ?k :: u32) := 0) = ?m"
    unfolding hd by (simp only: length_take)
  have "?m (?e + of_nat i) = mem s (?e + of_nat i)" if "i \<le> length ?rs" for i
  proof -
    have "\<not> unat (?e + of_nat i - name) < 60" using o[of "length ?ws + length ?h + i"] that dl by (simp add: add.assoc)
    then have "\<not> unat (?e + of_nat i - name) < Suc (length (take 59 ?h))" by simp
    then show ?thesis by (simp only: patch_def if_False)
  qed
  then have "c_string ?m ?e ?rs" using c_string_cong[of ?rs ?m ?e "mem s"] ce by blast
  note sr = scan_slashes[OF this]
  have rl: "length ?rs = length (takeWhile slash ?rs) + length (path_rest cs)"
    unfolding path_rest_def by (simp flip: length_append)
  have e: "?e + of_nat (length (takeWhile slash ?rs)) = p + of_nat (length cs - length (path_rest cs))"
    unfolding add.assoc of_nat_add[symmetric] using dl rl by simp
  show "get_element p name s = Inr (p + of_nat (length cs - length (path_rest cs)), s\<lparr>mem := ?m\<rparr>)"
    unfolding get_element_def walk_def sk option.case Let_def sn kn put using hb sr by (simp add: put e)
  have nz: "p + of_nat k \<noteq> 0" if "0 < k" "unat p + k < 2 ^ 64" for k
  proof -
    have "unat (p + of_nat k) = unat p + k" using that by (simp add: unat_word_ariths unat_of_nat)
    then show ?thesis using that(1) by auto
  qed
  show "p + of_nat (length cs - length (path_rest cs)) \<noteq> 0"
    by (rule nz) (use path_rest_shorter[OF d] l in simp_all)
qed

text \<open>The search for the element in the buffer is the search for its first 59 characters.\<close>

lemma same_upto_prefix:
  assumes s: "same_upto p g n" and k: "k < n" "g k = 0" "h k = 0" "\<forall>i<k. g i = h i"
  shows "same_upto p h n"
proof -
  have s': "p i = g i" if "i < n" "\<forall>j<i. p j \<noteq> 0" for i using s that unfolding same_upto_def by blast
  have "p i = h i" if i: "i < n" "\<forall>j<i. p j \<noteq> 0" for i
  proof -
    have "\<not> k < i"
    proof
      assume ki: "k < i"
      then have "\<forall>j<k. p j \<noteq> 0" using i(2) by (meson less_trans)
      from s'[OF k(1) this] have "p k = 0" using k(2) by simp
      then show False using i(2) ki by blast
    qed
    then have "g i = h i" using k(2-4) by (cases "i = k") (simp, meson linorder_neqE_nat)
    then show ?thesis using s'[OF i] by (rule trans[rotated])
  qed
  then show ?thesis unfolding same_upto_def by blast
qed

lemma named_prefix:
  assumes "k < 60" and "nm k = 0" and "nm' k = 0" and "\<forall>i<k. nm i = nm' i"
  shows "named nm = named nm'"
proof
  fix e :: dent
  have r: "\<forall>i<k. nm' i = nm i" using assms(4) by simp
  have "same_upto (fst e) nm 60 = same_upto (fst e) nm' 60"
    by (rule iffI, erule same_upto_prefix[OF _ assms(1-4)], erule same_upto_prefix[OF _ assms(1,3,2) r])
  then show "named nm e = named nm' e" by (simp add: named_def strncmp_0_iff)
qed

lemma buffer_lookup:
  "dir_lookup (at (patch name (Suc (length (take 59 e))) (cname (take 59 e)) m) name) es = dir_lookup (cname (take 59 e)) es"
proof -
  let ?m = "patch name (Suc (length (take 59 e))) (cname (take 59 e)) m"
  let ?k = "length (take 59 e)"
  have a: "at ?m name i = cname (take 59 e) i" if "i \<le> ?k" for i
    unfolding at_def by (rule patch_in) (simp, use that in \<open>simp only: less_Suc_eq_le\<close>)
  have "named (at ?m name) = named (cname (take 59 e))"
    by (rule named_prefix[where k = ?k]) (use a in \<open>auto simp: cname_def\<close>)
  then show ?thesis by (simp add: dir_lookup_def)
qed

end
