(* ===== verification/PathWalk.thy ===== *)
theory PathWalk
  imports InodeCache PathNames
begin

text \<open>
  The resolution of paths: a walk with \<open>path_to_inode\<close> through the inode cache finds what the
  lookup along the elements of the path finds in the directories on the disk, leaves the disk as it is, and
  changes the references by the one to the result.
\<close>

section \<open>Directories on the disk\<close>

definition byte_at :: "(u32 \<Rightarrow> nat \<Rightarrow> u8) \<Rightarrow> (nat \<Rightarrow> u32) \<Rightarrow> nat \<Rightarrow> u8" where
  "byte_at D f i = (if addr D f (data_node (i div 4096)) = 0 then 0 else D (addr D f (data_node (i div 4096))) (i mod 4096))"

definition entries :: "(u32 \<Rightarrow> nat \<Rightarrow> u8) \<Rightarrow> inode_disk \<Rightarrow> dent list" where
  "entries D d = map (\<lambda>k. dent_at (\<lambda>i. byte_at D (i_index d) (64 * k + i))) [0..<unat (i_size d) div 64]"

text \<open>Its blocks are a tree, it has whole entries, and no holes.\<close>

definition sound_dir :: "super_block \<Rightarrow> (u32 \<Rightarrow> nat \<Rightarrow> u8) \<Rightarrow> inode_disk \<Rightarrow> bool" where
  "sound_dir b D d \<longleftrightarrow> tree_inv b D (i_index d) \<and> 64 dvd unat (i_size d) \<and>
     (\<forall>i < unat (i_size d). addr D (i_index d) (data_node (i div 4096)) \<noteq> 0)"

lemma addr_view: "vnode q \<Longrightarrow> addr D (i_index (inode_view d)) q = addr D (i_index d) q"
  by (induction q) (simp_all add: inode_view_def)

lemma data_node_valid: "i < 2 ^ 32 \<Longrightarrow> vnode (data_node (i div 4096))"
  using leaf_vnode[of "i div 4096"] by simp

lemma view_fields [simp]:
  "i_type (inode_view d) = i_type d" "i_size (inode_view d) = i_size d" "i_nlink (inode_view d) = i_nlink d"
  by (simp_all add: inode_view_def)

lemma size_bound: "i < unat (i_size d) \<Longrightarrow> i < 2 ^ 32"
  using unsigned_less[of "i_size d", where 'a = nat] by simp

lemma sound_view: "sound_dir b D (inode_view d) = sound_dir b D d"
proof -
  have "addr D (i_index (inode_view d)) (data_node (i div 4096)) = addr D (i_index d) (data_node (i div 4096))"
    if "i < unat (i_size d)" for i by (rule addr_view[OF data_node_valid[OF size_bound[OF that]]])
  then show ?thesis by (auto simp: sound_dir_def tree_inv_def addr_view)
qed

lemma entries_view: "entries D (inode_view d) = entries D d"
proof -
  have "byte_at D (i_index (inode_view d)) (64 * k + i) = byte_at D (i_index d) (64 * k + i)"
    if "k < unat (i_size d) div 64" "i < 64" for k i
  proof -
    have "64 * k + i < 2 ^ 32" by (rule size_bound[of _ d]) (use that in linarith)
    from addr_view[OF data_node_valid[OF this]] show ?thesis unfolding byte_at_def by (simp only:)
  qed
  then show ?thesis by (auto simp: entries_def intro!: dent_at_cong)
qed

text \<open>A cached directory holds the entries on the disk.\<close>

lemma dents_entries: "dents s ip = entries (disk_block s) (info s ip)"
  by (simp add: dents_def entries_def dsize_def fbyte_def fblock_def byte_at_def faddr_def fslots_def if_distrib[of "\<lambda>f. f _"] cong: if_cong)

lemma dents_on_disk:
  assumes "inode_view (info s ip) = d"
  shows "dents s ip = entries (disk_block s) d"
  using entries_view[of "disk_block s" "info s ip"] assms by (simp add: dents_entries)

section \<open>Lookup along a path\<close>

fun resolve :: "super_block \<Rightarrow> (u32 \<Rightarrow> nat \<Rightarrow> u8) \<Rightarrow> u32 \<Rightarrow> u8 list list \<Rightarrow> u32 option" where
  "resolve b D n [] = Some n"
| "resolve b D n (e # es) =
     (let d = disk_inode D (inode_firstblock b) n; m = dir_lookup (cname (take 59 e)) (entries D d) in
      if i_type d \<noteq> INODE_TYPE_DIR \<or> m = INVALID_INODE_NUM then None else resolve b D m es)"

text \<open>The directories on the way are sound and linked, their inodes lie in the inode area.\<close>

definition inum_ok :: "u32 set \<Rightarrow> super_block \<Rightarrow> u32 \<Rightarrow> bool" where
  "inum_ok H b n \<longleftrightarrow> (let m = inode_firstblock b + n div 64 in m < 0x20000000 \<and> m \<notin> H \<and> \<not> in_area b m \<and> m \<notin> bmap_blocks b)"

fun way_ok :: "u32 set \<Rightarrow> super_block \<Rightarrow> (u32 \<Rightarrow> nat \<Rightarrow> u8) \<Rightarrow> u32 \<Rightarrow> u8 list list \<Rightarrow> bool" where
  "way_ok H b D n [] \<longleftrightarrow> True"
| "way_ok H b D n (e # es) \<longleftrightarrow>
     (let d = disk_inode D (inode_firstblock b) n; m = dir_lookup (cname (take 59 e)) (entries D d) in
      inum_ok H b n \<and> i_nlink d \<noteq> 0 \<and>
      (i_type d = INODE_TYPE_DIR \<longrightarrow> sound_dir b D d \<and> (m \<noteq> INVALID_INODE_NUM \<longrightarrow> way_ok H b D m es)))"

section \<open>One directory\<close>

text \<open>The local objects of a walk: the buffer of the name and the entry.\<close>

definition locals :: "'a fs_state_scheme \<Rightarrow> u64 set" where
  "locals s = {x. unat (x - lv s L_name) < 60 \<or> unat (x - lv s L_de) < 64}"

definition locals_ok :: "'a fs_state_scheme \<Rightarrow> bool" where
  "locals_ok s \<longleftrightarrow> name_ok (lv s L_name) s \<and> foreign_range s (lv s L_de) 64"

lemma locals_wrel: "wrel W s t \<Longrightarrow> locals t = locals s" "wrel W s t \<Longrightarrow> locals_ok s \<Longrightarrow> locals_ok t"
  using wrel_range[of W s t] by (simp_all add: locals_def locals_ok_def name_ok_def wrelD(3))

lemma icache_dir:
  assumes i: "icache H (Some ip) s" and ip: "ip < N_INODE" and v: "inode_view (info s ip) = dinode s (num s ip)"
    and m: "inum_ok H (sb s) (num s ip)" and t: "i_type (dinode s (num s ip)) = INODE_TYPE_DIR"
    and d: "sound_dir (sb s) (disk_block s) (dinode s (num s ip))" and l: "foreign_range s (lv s L_de) 64"
  shows "dir_ok H ip s"
proof -
  have "sound_dir (sb s) (disk_block s) (info s ip)" using d sound_view[of "sb s" "disk_block s" "info s ip"] by (simp add: v)
  moreover have "i_type (info s ip) = INODE_TYPE_DIR" using t by (simp flip: v)
  moreover have "meta_ok H ip s" using m by (simp add: meta_ok_def inum_ok_def inode_block_def num_def Let_def)
  ultimately show ?thesis using icacheD(1,2)[OF i] l
    by (simp add: dir_ok_def sound_dir_def ftree_def mapped_def faddr_def fslots_def)
qed

lemma icache_search:
  assumes i: "icache H (Some ip) s" and d: "dir_ok H ip s" and v: "inode_view (info s ip) = dinode s (num s ip)"
    and n: "name_ok name s"
  shows "\<exists>t. dentry_search ip name s = Inr (dir_lookup (at (mem s) name) (entries (disk_block s) (dinode s (num s ip))), t) \<and>
    icache H (Some ip) t \<and> wrel {x. unat (x - lv s L_de) < 64} s t \<and> inode_cache t = inode_cache s"
proof -
  from dentry_search_ok[OF d n] obtain t where t: "dentry_search ip name s = Inr (dir_lookup (at (mem s) name) (dents s ip), t)"
    "dir_kept H ip s t" by blast
  note k = dir_keptD[OF t(2)]
  from k(2) obtain f where g: "grow ip (de_patch f s) t" by (auto simp: dir_step_def)
  note fr = fs_relD[OF growD(1)[OF g]] and dp = dir_patch[OF d, where f = f]
  have c: "calm s t"
  proof -
    have "calm s (de_patch f s)" by (rule calm_frame) (simp_all add: de_patch_def)
    then show ?thesis using fr(5) by (rule calm_trans)
  qed
  have w: "wrel {x. unat (x - lv s L_de) < 64} s t"
    using k(10) fr(1,7,8,10) dp(2) by (auto simp: wrel_def still_def de_patch_def patch_def)
  have "slocks t (LkInodeSlk j) = slocks s (LkInodeSlk j)" for j using fr(9)[of "LkInodeSlk j"] by (simp add: de_patch_def)
  then have "icache H (Some ip) t"
    by (rule icache_keep[OF i c w dir_okD(1)[OF k(1)]]) (use k(10) in \<open>simp add: still_def\<close>)
  then show ?thesis using t(1) w k(10) by (simp add: dents_on_disk[OF v] still_def)
qed

lemma dir_lookup_cong: "(\<And>i. i < 60 \<Longrightarrow> nm i = nm' i) \<Longrightarrow> dir_lookup nm es = dir_lookup nm' es"
proof -
  assume h: "\<And>i. i < 60 \<Longrightarrow> nm i = nm' i"
  have "named nm = named nm'"
  proof
    show "named nm e = named nm' e" for e :: dent using named_cong[of "fst e" "fst e" nm nm' "snd e" "snd e"] h by simp
  qed
  then show ?thesis by (simp add: dir_lookup_def)
qed

text \<open>
  The result of a walk that began with the references \<open>r\<close>, not counting its own: it has no reference left when it
  failed, else one to the inode that was found.
\<close>

definition outcome :: "(nat \<Rightarrow> u32) \<Rightarrow> nat option \<Rightarrow> u32 option \<Rightarrow> 'a fs_state_scheme \<Rightarrow> bool" where
  "outcome r q m t \<longleftrightarrow> (case q of None \<Rightarrow> m = None \<and> refs t = r
     | Some j \<Rightarrow> j < N_INODE \<and> m = Some (num t j) \<and> refs t = r(j := r j + 1))"

text \<open>Two entries of the cache are free, and no count is at its end.\<close>

definition spare :: "(nat \<Rightarrow> u32) \<Rightarrow> bool" where
  "spare r \<longleftrightarrow> (\<exists>j k. j < N_INODE \<and> k < N_INODE \<and> j \<noteq> k \<and> r j = 0 \<and> r k = 0) \<and> (\<forall>k < N_INODE. r k + 1 \<noteq> 0)"

lemma spare_free: "spare r \<Longrightarrow> \<exists>j < N_INODE. (r(ip := r ip + 1)) j = 0"
  unfolding spare_def by (metis fun_upd_other)

text \<open>The inodes somebody else has references to keep their entries.\<close>

definition stays :: "(nat \<Rightarrow> u32) \<Rightarrow> 'a fs_state_scheme \<Rightarrow> 'a fs_state_scheme \<Rightarrow> bool" where
  "stays r s t \<longleftrightarrow> (\<forall>k < N_INODE. r k \<noteq> 0 \<longrightarrow> num t k = num s k)"

lemma stays_trans: "stays r s t \<Longrightarrow> stays r t u \<Longrightarrow> stays r s u"
  by (simp add: stays_def)

lemma leave_ok:
  assumes i: "icache H (Some ip) s" and ip: "ip < N_INODE" and r: "refs s = r(ip := r ip + 1)" "spare r"
    and v: "inode_view (info s ip) = dinode s (num s ip)" and n: "i_nlink (dinode s (num s ip)) \<noteq> 0"
  shows "\<exists>t. bnd (inode_unlock ip s) (\<lambda>s. bnd (inode_put ip s) (\<lambda>s. Inr (None, s))) = Inr (None :: nat option, t) \<and>
    icache H None t \<and> wrel W s t \<and> num t = num s \<and> refs t = r"
proof -
  have r0: "refs s ip \<noteq> 0" using r ip by (simp add: spare_def)
  from icache_unlock[OF i ip r0, of W] obtain c where c: "inode_unlock ip s = Inr c" "icache H None c" "wrel W s c"
    "inode_cache c = inode_cache s" by blast
  have "i_nlink (info s ip) = i_nlink (dinode s (num s ip))" by (simp flip: v)
  then have nl: "i_nlink (info c ip) \<noteq> 0" using n by (simp add: c(4))
  from icache_put[OF c(2) ip, of W] nl obtain t where t: "inode_put ip c = Inr t" "icache H None t" "wrel W c t" "num t = num c"
    "refs t = (refs c)(ip := refs c ip - 1)" by blast
  have "refs c = refs s" "num c = num s" by (simp_all add: refs_def num_def c(4) fun_eq_iff)
  then show ?thesis using c(1) t wrel_trans[OF c(3) t(3)] by (intro exI[of _ t]) (simp add: r)
qed

lemma enter_dir_ok:
  assumes i: "icache H None s" and ip: "ip < N_INODE" and r: "refs s = r(ip := r ip + 1)" "spare r"
    and w: "way_ok H (sb s) (disk_block s) (num s ip) (e # es)" and l: "locals_ok s"
    and b: "\<And>ds. dir_lookup (at (mem s) (lv s L_name)) ds = dir_lookup (cname (take 59 e)) ds"
  shows "\<exists>q t. enter_dir ip (lv s L_name) s = Inr (q, t) \<and> icache H None t \<and> wrel (locals s) s t \<and> stays r s t \<and>
    outcome r q (resolve (sb s) (disk_block s) (num s ip) [e]) t"
proof -
  let ?n = "num s ip"
  let ?d = "dinode s ?n"
  let ?W = "locals s"
  have r0: "refs s ip \<noteq> 0" using r ip by (simp add: spare_def)
  note dn = dinode_def[of s ?n, symmetric]
  have io: "inum_ok H (sb s) ?n" "i_nlink ?d \<noteq> 0" using w by (simp_all add: Let_def dn)
  have "meta_ok H ip s" using io(1) by (simp add: meta_ok_def inum_ok_def inode_block_def num_def Let_def)
  from icache_lock[OF i ip r0 this, of "{}"] obtain a where a: "inode_lock ip s = Inr a" "icache H (Some ip) a" "wrel {} s a"
    "num a = num s" "refs a = refs s" "inode_view (info a ip) = ?d" by blast
  have wsa: "wrel ?W s a" by (rule wrel_mono[OF a(3)]) simp
  note wa = wrelD[OF a(3)]
  have da: "dinode a ?n = ?d" by (rule wrel_view[OF a(3)])
  have ta: "i_type (info a ip) = i_type ?d" by (simp flip: a(6))
  have va: "inode_view (info a ip) = dinode a (num a ip)" by (simp add: a(4,6) da)
  show ?thesis
  proof (cases "i_type ?d = INODE_TYPE_DIR")
    case False
    from leave_ok[OF a(2) ip _ r(2) va] r(1) io(2) obtain t where
      t: "bnd (inode_unlock ip a) (\<lambda>s. bnd (inode_put ip s) (\<lambda>s. Inr (None, s))) = Inr (None :: nat option, t)"
      "icache H None t" "wrel ?W a t" "num t = num a" "refs t = r" by (auto simp: a(4,5) da)
    have "enter_dir ip (lv s L_name) s = Inr (None, t)" using False a(1) t(1) by (simp add: enter_dir_def ta)
    moreover have "resolve (sb s) (disk_block s) ?n [e] = None" using False by (simp add: Let_def dn)
    ultimately show ?thesis using t wrel_trans[OF wsa t(3)]
      by (intro exI[of _ None] exI[of _ t]) (simp add: outcome_def stays_def a(4))
  next
    case True
    let ?m = "dir_lookup (cname (take 59 e)) (entries (disk_block s) ?d)"
    have sd: "sound_dir (sb a) (disk_block a) (dinode a (num a ip))" using w True by (simp add: Let_def dn wa(1,2) da a(4))
    have la: "locals_ok a" by (rule locals_wrel(2)[OF a(3) l])
    have dir: "dir_ok H ip a"
      by (rule icache_dir[OF a(2) ip va _ _ sd]) (use io True la in \<open>simp_all add: wa(2) a(4) da locals_ok_def\<close>)
    have no: "name_ok (lv s L_name) a" using la by (simp add: locals_ok_def wa(3))
    have "at (mem a) (lv s L_name) k = at (mem s) (lv s L_name) k" if "k < 60" for k
      using l that wa(5)[of "lv s L_name + of_nat k"] by (simp add: at_def locals_ok_def name_ok_def foreign_range_def)
    then have "dir_lookup (at (mem a) (lv s L_name)) ds = dir_lookup (cname (take 59 e)) ds" for ds
      unfolding b[symmetric] by (rule dir_lookup_cong)
    with icache_search[OF a(2) dir va no] obtain c where c: "dentry_search ip (lv s L_name) a = Inr (?m, c)"
      "icache H (Some ip) c" "wrel {x. unat (x - lv a L_de) < 64} a c" "inode_cache c = inode_cache a"
      by (auto simp: a(4) da wa(1))
    have wc: "wrel ?W a c" by (rule wrel_mono[OF c(3)]) (auto simp: locals_def wa(3))
    have nc: "num c = num s" "refs c = refs s" using a(4,5) by (simp_all add: num_def refs_def c(4) fun_eq_iff)
    note wsc = wrel_trans[OF wsa wc]
    have vc: "inode_view (info c ip) = dinode c (num c ip)" using a(6) by (simp add: c(4) nc wrel_view[OF wsc])
    show ?thesis
    proof (cases "?m = INVALID_INODE_NUM")
      case inv: True
      from leave_ok[OF c(2) ip _ r(2) vc] r(1) io(2) obtain t where
        t: "bnd (inode_unlock ip c) (\<lambda>s. bnd (inode_put ip s) (\<lambda>s. Inr (None, s))) = Inr (None :: nat option, t)"
        "icache H None t" "wrel ?W c t" "num t = num c" "refs t = r" by (auto simp: nc wrel_view[OF wsc])
      have "enter_dir ip (lv s L_name) s = Inr (None, t)" using True inv a(1) c(1) t(1) by (simp add: enter_dir_def ta)
      moreover have "resolve (sb s) (disk_block s) ?n [e] = None" using inv by (simp add: Let_def dn)
      ultimately show ?thesis using t wrel_trans[OF wsc t(3)]
        by (intro exI[of _ None] exI[of _ t]) (simp add: outcome_def stays_def nc)
    next
      case found: False
      from icache_unlock[OF c(2) ip, of ?W] r0 obtain u where u: "inode_unlock ip c = Inr u" "icache H None u" "wrel ?W c u"
        "inode_cache u = inode_cache c" by (auto simp: nc)
      have nu: "num u = num s" "refs u = r(ip := r ip + 1)" using nc r(1) by (simp_all add: num_def refs_def u(4) fun_eq_iff)
      from icache_get[OF u(2), of ?m ?W] spare_free[OF r(2)] obtain j v where v: "inode_get ?m u = Inr (j, v)" "j < N_INODE"
        "icache H None v" "wrel ?W u v" "num v j = ?m" "refs v = (refs u)(j := refs u j + 1)"
        "\<forall>k. refs u k \<noteq> 0 \<longrightarrow> num v k = num u k" unfolding nu by blast
      note wsv = wrel_trans[OF wrel_trans[OF wsc u(3)] v(4)]
      have nv: "num v k = num s k" if "k < N_INODE" "r k \<noteq> 0 \<or> k = ip" for k
        using v(7)[rule_format, of k] that r(2) by (auto simp: nu spare_def split: if_splits)
      have "i_nlink (info v ip) \<noteq> 0" if "valid_info (the_inode v ip)"
      proof -
        have "inode_view (info v ip) = ?d" using icacheD(5)[OF v(3) ip] that nv[OF ip] by (simp add: agrees_def wrel_view[OF wsv])
        then have "i_nlink (inode_view (info v ip)) \<noteq> 0" using io(2) by simp
        then show ?thesis by simp
      qed
      from icache_put[OF v(3) ip this, of ?W] obtain t where t: "inode_put ip v = Inr t" "icache H None t" "wrel ?W v t"
        "num t = num v" "refs t = (refs v)(ip := refs v ip - 1)" by blast
      have "enter_dir ip (lv s L_name) s = Inr (Some j, t)" using True found a(1) c(1) u(1) v(1) t(1) by (simp add: enter_dir_def ta)
      moreover have "resolve (sb s) (disk_block s) ?n [e] = Some ?m" using True found by (simp add: Let_def dn)
      moreover have "refs t = r(j := r j + 1)" unfolding t(5) v(6) nu(2) by (auto simp: fun_eq_iff)
      moreover have "stays r s t" using nv by (simp add: stays_def t(4))
      ultimately show ?thesis using t(2,4) v(2,5) wrel_trans[OF wsv t(3)]
        by (intro exI[of _ "Some j"] exI[of _ t]) (simp add: outcome_def)
    qed
  qed
qed

section \<open>The walk\<close>

text \<open>The path lies outside the block cache and the local objects.\<close>

definition path_at :: "'a fs_state_scheme \<Rightarrow> u64 \<Rightarrow> u8 list \<Rightarrow> bool" where
  "path_at s p cs \<longleftrightarrow> c_string (mem s) p cs \<and> length cs < 2 ^ 31 \<and> unat p + length cs < 2 ^ 64 \<and>
     (\<forall>i \<le> length cs. foreign s (p + of_nat i) \<and> p + of_nat i \<notin> locals s)"

lemma path_at_wrel: "wrel (locals s) s t \<Longrightarrow> path_at s p cs \<Longrightarrow> path_at t p cs"
  unfolding path_at_def using c_string_cong[of cs "mem t" p "mem s"] locals_wrel(1)[of "locals s" s t] wrelD(4,5)[of "locals s" s t]
  by auto

lemma path_at_rest:
  assumes "path_at s p cs" and "cs = xs @ ys"
  shows "path_at s (p + of_nat (length xs)) ys"
proof -
  have f: "foreign s (p + of_nat (length xs) + of_nat i) \<and> p + of_nat (length xs) + of_nat i \<notin> locals s" if "i \<le> length ys" for i
  proof -
    have "length xs + i \<le> length cs" using assms(2) that by simp
    then have "foreign s (p + of_nat (length xs + i)) \<and> p + of_nat (length xs + i) \<notin> locals s"
      using assms(1) unfolding path_at_def by blast
    moreover have "p + of_nat (length xs) + of_nat i = p + of_nat (length xs + i)" by (simp add: add.assoc)
    ultimately show ?thesis by (simp only: simp_thms)
  qed
  have "unat (p + of_nat (length xs)) + length ys < 2 ^ 64"
    using assms by (simp add: path_at_def unat_word_ariths unat_of_nat)
  then show ?thesis using assms f c_string_append[of "mem s" p xs ys] by (simp add: path_at_def)
qed

text \<open>Filling the name buffer.\<close>

lemma fill_buffer:
  assumes i: "icache H None s" and l: "locals_ok s" and n: "n \<le> 60"
  shows "icache H None (s\<lparr>mem := patch (lv s L_name) n g (mem s)\<rparr>)" "wrel (locals s) s (s\<lparr>mem := patch (lv s L_name) n g (mem s)\<rparr>)"
    "refs (s\<lparr>mem := patch (lv s L_name) n g (mem s)\<rparr>) = refs s" "num (s\<lparr>mem := patch (lv s L_name) n g (mem s)\<rparr>) = num s"
proof -
  let ?s = "s\<lparr>mem := patch (lv s L_name) n g (mem s)\<rparr>"
  note d = icacheD[OF i]
  have "foreign_range s (lv s L_name) n" using l n by (simp add: locals_ok_def name_ok_def foreign_range_def)
  note f = patch_frame[OF d(4) this, of g] and st = store_ok_patch[OF d(1) this, of g]
  have di: "disk_block ?s = disk_block s" by (simp add: disk_block_def fun_eq_iff)
  show w: "wrel (locals s) s ?s" unfolding wrel_def di f(2) using n by (auto simp: locals_def patch_def)
  have "calm s ?s" by (rule calm_frame) simp_all
  then show "icache H None ?s" by (rule icache_keep[OF i _ w st]) simp_all
qed (simp_all add: refs_def num_def fun_eq_iff)

lemma path_loop_ok:
  assumes "icache H None s" and "ip < N_INODE" and "refs s = r(ip := r ip + 1)" and sp: "spare r" and "locals_ok s"
    and "path_at s p cs" and "way_ok H (sb s) (disk_block s) (num s ip) (path_elems cs)" and "length cs < n"
  shows "\<exists>q t. path_loop n ip p s = Inr (q, t) \<and> icache H None t \<and> wrel (locals s) s t \<and> stays r s t \<and>
    outcome r q (resolve (sb s) (disk_block s) (num s ip) (path_elems cs)) t"
  using assms(1-3,5-8)
proof (induction n arbitrary: s ip p cs)
  case (Suc n)
  note i = Suc.prems(1) and ip = Suc.prems(2) and r = Suc.prems(3) and l = Suc.prems(4) and pa = Suc.prems(5)
    and w = Suc.prems(6) and len = Suc.prems(7)
  have o: "\<not> unat (p + of_nat k - lv s L_name) < 60" if "k \<le> length cs" for k
    using pa that by (simp add: path_at_def locals_def)
  have c: "c_string (mem s) p cs" "length cs < 2 ^ 31" "unat p + length cs < 2 ^ 64" using pa by (simp_all add: path_at_def)
  note ge = get_element_ok[OF c o]
  show ?case
  proof (cases "dropWhile slash cs = []")
    case True
    then have e: "path_elems cs = []" by (subst path_elems_step) (rule if_P)
    have "path_loop (Suc n) ip p s = Inr (Some ip, s)" using ge(1)[OF _ True] by simp
    moreover have "outcome r (Some ip) (resolve (sb s) (disk_block s) (num s ip) (path_elems cs)) s"
      unfolding outcome_def e resolve.simps option.case using ip r by blast
    ultimately show ?thesis using i by (intro exI[of _ "Some ip"] exI[of _ s]) (simp del: path_loop.simps add: stays_def)
  next
    case False
    let ?e = "path_head cs" and ?es = "path_elems (path_rest cs)"
    let ?g = "cname (take 59 ?e)" and ?k = "Suc (length (take 59 ?e))"
    let ?s = "s\<lparr>mem := patch (lv s L_name) ?k ?g (mem s)\<rparr>" and ?p = "p + of_nat (length cs - length (path_rest cs))"
    have e: "path_elems cs = ?e # ?es" using path_elems_step[of cs] False by (simp only: if_False)
    have k: "?k \<le> 60" by simp
    note fb = fill_buffer[OF i l k, of ?g]
    note lw = locals_wrel[OF fb(2)] and wv = wrelD[OF fb(2)]
    have w': "way_ok H (sb ?s) (disk_block ?s) (num ?s ip) (?e # ?es)" using w unfolding e wv(1,2) fb(4) .
    have b: "dir_lookup (at (mem ?s) (lv ?s L_name)) ds = dir_lookup ?g ds" for ds using buffer_lookup[of "lv s L_name" ?e "mem s" ds] by simp
    have r': "refs ?s = r(ip := r ip + 1)" by (rule trans[OF fb(3) r])
    from enter_dir_ok[OF fb(1) ip r' sp w' lw(2)[OF l] b] obtain q t where t: "enter_dir ip (lv s L_name) ?s = Inr (q, t)"
      "icache H None t" "wrel (locals s) ?s t" "stays r ?s t"
      "outcome r q (resolve (sb s) (disk_block s) (num s ip) [?e]) t" unfolding lw(1) wv(1,2) fb(4) by auto
    have st: "stays r s t" using t(4) unfolding stays_def fb(4) .
    note wst = wrel_trans[OF fb(2) t(3)]
    have el: "get_element p (lv s L_name) s = Inr (?p, ?s)" by (rule ge(2)[OF _ False])
    have nz: "?p \<noteq> 0" by (rule ge(3)[OF _ False])
    have step: "path_loop (Suc n) ip p s = (case q of None \<Rightarrow> Inr (None, t) | Some j \<Rightarrow> path_loop n j ?p t)"
      using el nz t(1) by (simp split: option.split)
    let ?d = "disk_inode (disk_block s) (inode_firstblock (sb s)) (num s ip)"
    let ?m = "dir_lookup ?g (entries (disk_block s) ?d)"
    show ?thesis
    proof (cases q)
      case None
      then have "resolve (sb s) (disk_block s) (num s ip) (path_elems cs) = None"
        using t(5) by (auto simp: outcome_def e Let_def)
      then show ?thesis using None t(2,5) wst st step by (intro exI[of _ None] exI[of _ t]) (simp add: outcome_def)
    next
      case (Some j)
      then have j: "j < N_INODE" "num t j = ?m" "refs t = r(j := r j + 1)" "i_type ?d = INODE_TYPE_DIR" "?m \<noteq> INVALID_INODE_NUM"
        using t(5) by (simp_all add: outcome_def Let_def split: if_splits)
      have res: "resolve (sb s) (disk_block s) (num s ip) (path_elems cs) = resolve (sb s) (disk_block s) ?m ?es"
        using j(4,5) by (simp add: e Let_def)
      note wt = wrelD[OF wst]
      have wj: "way_ok H (sb t) (disk_block t) (num t j) ?es" using w j(4,5) unfolding e wt(1,2) j(2) by (simp add: Let_def)
      obtain xs where xs: "cs = xs @ path_rest cs" using path_rest_suffix by blast
      then have "length cs - length (path_rest cs) = length xs" by (metis add_diff_cancel_right' length_append)
      then have pt: "path_at t ?p (path_rest cs)" using path_at_rest[OF path_at_wrel[OF wst pa] xs] by simp
      have "length (path_rest cs) < n" using path_rest_shorter[OF False] len by simp
      from Suc.IH[OF t(2) j(1,3) locals_wrel(2)[OF wst l] pt wj this] obtain q' u where
        u: "path_loop n j ?p t = Inr (q', u)" "icache H None u" "wrel (locals s) t u" "stays r t u"
          "outcome r q' (resolve (sb s) (disk_block s) ?m ?es) u" unfolding locals_wrel(1)[OF wst] wt(1,2) j(2) by blast
      show ?thesis using step Some u(1,2,5) wrel_trans[OF wst u(3)] stays_trans[OF st u(4)]
        by (intro exI[of _ q'] exI[of _ u]) (simp add: res)
    qed
  qed
qed simp

text \<open>Where a walk begins: at the root, or in the directory of the process.\<close>

definition walk_start :: "u64 \<Rightarrow> 'a fs_state_scheme \<Rightarrow> nat option" where
  "walk_start p s = (if mem s p = SLASH then None else case myproc s of None \<Rightarrow> None | Some q \<Rightarrow> cwd (proc_pool s q))"

definition start_num :: "u64 \<Rightarrow> 'a fs_state_scheme \<Rightarrow> u32" where
  "start_num p s = (case walk_start p s of None \<Rightarrow> ROOT_INODE | Some ip \<Rightarrow> num s ip)"

lemma start_inode_ok:
  assumes i: "icache H None s" and sp: "spare (refs s)" and w: "mem s p = SLASH \<or> (\<exists>ip < N_INODE. walk_start p s = Some ip)"
  shows "\<exists>ip t. start_inode p s = Inr (ip, t) \<and> ip < N_INODE \<and> icache H None t \<and> wrel W s t \<and> num t ip = start_num p s \<and>
    refs t = (refs s)(ip := refs s ip + 1) \<and> stays (refs s) s t"
proof (cases "mem s p = SLASH")
  case True
  have "\<exists>j < N_INODE. refs s j = 0" using sp by (auto simp: spare_def)
  from icache_get[OF i this, of ROOT_INODE W] obtain j t where "inode_get ROOT_INODE s = Inr (j, t)" "j < N_INODE"
    "icache H None t" "wrel W s t" "num t j = ROOT_INODE" "refs t = (refs s)(j := refs s j + 1)"
    "\<forall>k. refs s k \<noteq> 0 \<longrightarrow> num t k = num s k" by blast
  then show ?thesis using True
    by (intro exI[of _ j] exI[of _ t]) (simp add: start_inode_def start_num_def walk_start_def stays_def)
next
  case False
  with w obtain ip where ip: "ip < N_INODE" "walk_start p s = Some ip" by blast
  from ip(2) obtain q where q: "myproc s = Some q" "cwd (proc_pool s q) = Some ip"
    by (auto simp: walk_start_def split: if_splits option.splits)
  from icache_dup[OF i ip(1), of W] obtain t where "inode_dup ip s = Inr (ip, t)" "icache H None t" "wrel W s t" "num t = num s"
    "refs t = (refs s)(ip := refs s ip + 1)" by blast
  then show ?thesis using False q ip
    by (intro exI[of _ ip] exI[of _ t]) (simp add: start_inode_def with_myproc_def start_num_def stays_def)
qed

lemma path_to_inode_ok:
  assumes i: "icache H None s" and sp: "spare (refs s)" and l: "locals_ok s" and pa: "path_at s p cs"
    and w: "mem s p = SLASH \<or> (\<exists>ip < N_INODE. walk_start p s = Some ip)"
    and ok: "way_ok H (sb s) (disk_block s) (start_num p s) (path_elems cs)"
  shows "\<exists>q t. path_to_inode p s = Inr (q, t) \<and> icache H None t \<and> wrel (locals s) s t \<and> stays (refs s) s t \<and>
    outcome (refs s) q (resolve (sb s) (disk_block s) (start_num p s) (path_elems cs)) t"
proof -
  from start_inode_ok[OF i sp w, of "locals s"] obtain ip t where t: "start_inode p s = Inr (ip, t)" "ip < N_INODE"
    "icache H None t" "wrel (locals s) s t" "num t ip = start_num p s" "refs t = (refs s)(ip := refs s ip + 1)"
    "stays (refs s) s t" by blast
  note wt = wrelD[OF t(4)] and lt = locals_wrel[OF t(4)]
  have ok': "way_ok H (sb t) (disk_block t) (num t ip) (path_elems cs)" using ok unfolding wt(1,2) t(5) .
  have n: "length cs < length cs + 2" by simp
  from path_loop_ok[OF t(3,2,6) sp lt(2)[OF l] path_at_wrel[OF t(4) pa] ok' n] obtain q u where
    u: "path_loop (length cs + 2) ip p t = Inr (q, u)" "icache H None u" "wrel (locals s) t u" "stays (refs s) t u"
      "outcome (refs s) q (resolve (sb s) (disk_block s) (start_num p s) (path_elems cs)) u"
    unfolding lt(1) wt(1,2) t(5) by blast
  have "strlen (at (mem s) p) = Some (length cs)" using pa by (intro strlen_at) (simp add: path_at_def)
  then have "path_to_inode p s = Inr (q, u)" using t(1) u(1) by (simp add: path_to_inode_def path_fuel_def)
  then show ?thesis using u(2,5) wrel_trans[OF t(4) u(3)] stays_trans[OF t(7) u(4)] by blast
qed

end
