(* ===== verification/SampleFs.thy ===== *)
theory SampleFs
  imports FileOps PathWalk
begin

text \<open>
  A file system to evaluate the file and directory code on: the layout of \<open>mkfs\<close> with the first data block free,
  a file without blocks in the inode cache, and physical addresses below the page pools for names and user data.
\<close>

section \<open>An empty file\<close>

text \<open>An inode with no blocks has an empty block map.\<close>

lemma empty_addr: "(\<forall>k. f k = 0) \<Longrightarrow> addr D f p = 0"
  by (induction p) simp_all

lemma empty_tree: "fslots s ip = (\<lambda>_. 0) \<Longrightarrow> ftree ip s"
  by (simp add: ftree_def tree_inv_def empty_addr)

text \<open>Inode 0 of the disk, the root, of type \<open>ty\<close> and size \<open>sz\<close>, with no blocks.\<close>

definition empty_file :: "u16 \<Rightarrow> u32 \<Rightarrow> inode" where
  "empty_file ty sz = \<lparr>disk_info = \<lparr>i_type = ty, i_major = 1, i_minor = 1, i_nlink = 1, i_size = sz, i_index = (\<lambda>_. 0)\<rparr>,
     valid_info = True, inode_num = 0, i_ref = 1\<rparr>"

definition sample_lv :: "local \<Rightarrow> u64" where
  "sample_lv l = (if l = L_name then 0x1800 else 0x1000)"

definition sample_fs :: "u16 \<Rightarrow> u32 \<Rightarrow> fs_state \<Rightarrow> bool" where
  "sample_fs ty sz s \<longleftrightarrow> store_ok 2 {} s \<and> sb s = mk_layout \<and> inode_cache s = (\<lambda>_. empty_file ty sz) \<and>
     free_block_of s = Some 0 \<and> lv s = sample_lv \<and> (\<forall>x < 0x80100000. foreign s x) \<and> rested s"

lemma sample_fs_exists: "\<exists>s. sample_fs ty sz s"
proof -
  obtain s :: fs_state where s: "sb s = mk_layout" "data_map_ok {} s" "free_block_of s = Some 0"
    "inode_cache s = (\<lambda>_. empty_file ty sz)" "\<forall>x < 0x80100000. foreign s x" "lv s = sample_lv" "rested s"
    using boot_free_block by blast
  then have "sample_fs ty sz s" using mk_layout_area by (simp add: sample_fs_def store_ok_def)
  then show ?thesis by blast
qed

lemma low_range: "sample_fs ty sz s \<Longrightarrow> unat a + n \<le> 0x80100000 \<Longrightarrow> foreign_range s a n"
  by (auto simp: sample_fs_def foreign_range_def word_less_nat_alt unat_word_ariths unat_of_nat)

lemma sample_fsD:
  assumes "sample_fs ty sz s"
  shows "store_ok 2 {} s" "ftree ip s" "data_free {} (sb s)" "meta_ok {} ip s" "i_size (info s ip) = sz"
    "i_type (info s ip) = ty" "\<not> mapped s ip i" "inode_firstblock (sb s) = 3" "inode_num (the_inode s ip) = 0"
    "sb s = mk_layout" "fslots s ip = (\<lambda>_. 0)" "free_block_of s = Some 0" "lv s L_de = 0x1000" "lv s L_name = 0x1800" "rested s"
proof -
  show f: "fslots s ip = (\<lambda>_. 0)" for ip using assms by (simp add: sample_fs_def fslots_def empty_file_def)
  then show "ftree ip s" "\<not> mapped s ip i" by (simp_all add: empty_tree mapped_def faddr_def empty_addr)
  show "meta_ok {} ip s" using assms
    by (simp add: meta_ok_def sample_fs_def inode_block_def empty_file_def mk_layout_eq in_area_def bmap_blocks_def less_Suc_eq)
qed (use assms in \<open>simp_all add: sample_fs_def empty_file_def data_free_def mk_layout_eq sample_lv_def\<close>)

text \<open>Opened for reading and writing, at offset \<open>n\<close>.\<close>

definition sample_file :: "u32 \<Rightarrow> fs_state \<Rightarrow> fs_state" where
  "sample_file n s = s\<lparr>file_table := (\<lambda>_. \<lparr>f_ip = Some 0, readable = True, writable = True, offset = n, f_ref = 1\<rparr>)\<rparr>"

lemma sample_file:
  assumes "sample_fs INODE_TYPE_DATA sz s"
  shows "file_ready {} f 0 (sample_file n s)" "readable (file_table (sample_file n s) f)" "writable (file_table (sample_file n s) f)"
    "offset (file_table (sample_file n s) f) = n" "mem (sample_file n s) = mem s" "i_size (info (sample_file n s) 0) = sz"
    "foreign_range (sample_file n s) = foreign_range s"
  using sample_fsD[OF assms] assms by (simp_all add: sample_file_def file_ready_def unlocked_def sample_fs_def rested_def fun_eq_iff)

section \<open>Names and directories\<close>

text \<open>As a directory the empty file has no entries; names can lie at \<open>0x2000\<close> and \<open>0x3000\<close>.\<close>

lemma low_name:
  assumes "lv s L_de = 0x1000" and "foreign_range s 0x2000 60"
  shows "name_ok 0x2000 s"
proof -
  have "\<not> unat (0x1000 + of_nat i :: u64) < 64" if "i < 60" for i :: nat
    using that by (simp add: unat_word_ariths unat_of_nat)
  then show ?thesis using assms by (simp add: name_ok_def)
qed

lemma sample_dir:
  assumes "sample_fs INODE_TYPE_DIR 0 s"
  shows "dir_ok {} ip s" "dents s ip = []" "name_ok 0x2000 s"
proof -
  note d = sample_fsD[OF assms]
  have "foreign_range s 0x1000 64" by (rule low_range[OF assms]) simp
  then show "dir_ok {} ip s" using d by (simp add: dir_ok_def)
  show "dents s ip = []" using d by (simp add: dents_def dsize_def)
  show "name_ok 0x2000 s" by (rule low_name[OF d(13) low_range[OF assms]]) simp
qed

text \<open>The caller puts the name \<open>nm\<close> at \<open>a\<close>.\<close>

definition put_name :: "u64 \<Rightarrow> (nat \<Rightarrow> u8) \<Rightarrow> fs_state \<Rightarrow> fs_state" where
  "put_name a nm s = s\<lparr>mem := patch a 60 nm (mem s)\<rparr>"

lemma put_name_ok:
  assumes d: "dir_ok H ip s" and n: "name_ok a s"
  shows "dir_ok H ip (put_name a nm s)" "dents (put_name a nm s) ip = dents s ip" "name_ok a (put_name a nm s)"
    "i_size (info (put_name a nm s) ip) = i_size (info s ip)" "i < 60 \<Longrightarrow> at (mem (put_name a nm s)) a i = nm i"
proof -
  have f: "foreign_range s a 60" using n by (simp add: name_ok_def)
  note p = patch_frame[OF store_okD(3)[OF dir_okD(1)[OF d]] f, of nm]
  have fr: "foreign_range (s\<lparr>mem := patch a 60 nm (mem s)\<rparr>) = foreign_range s" by (simp add: foreign_range_def p(2) fun_eq_iff)
  have st: "store_ok 2 H (s\<lparr>mem := patch a 60 nm (mem s)\<rparr>)"
    using store_ok_same[OF dir_okD(1)[OF d], of "s\<lparr>mem := patch a 60 nm (mem s)\<rparr>"] p(1) by simp
  show "dir_ok H ip (put_name a nm s)" using d st by (simp add: put_name_def dir_ok_def meta_ok_def inode_block_def fr)
  show "dents (put_name a nm s) ip = dents s ip" by (simp add: put_name_def dents_def dsize_def)
  show "name_ok a (put_name a nm s)" using n by (simp add: put_name_def name_ok_def fr)
  show "i_size (info (put_name a nm s) ip) = i_size (info s ip)" by (simp add: put_name_def)
  show "i < 60 \<Longrightarrow> at (mem (put_name a nm s)) a i = nm i" by (simp add: put_name_def at_def patch_in)
qed

text \<open>A short name: the letter a.\<close>

definition letter_a :: "nat \<Rightarrow> u8" where
  "letter_a = (\<lambda>i. if i = 0 then 97 else 0)"

lemma letter_good: "(\<And>i. i < 60 \<Longrightarrow> f i = letter_a i) \<Longrightarrow> good_name f"
  by (auto simp: good_name_def letter_a_def intro!: exI[of _ 1])

lemma sample_named:
  "\<exists>s :: fs_state. dir_ok {} 0 s \<and> dents s 0 = [] \<and> name_ok 0x2000 s \<and> good_name (at (mem s) 0x2000) \<and> i_size (info s 0) = 0"
proof -
  obtain s where s: "sample_fs INODE_TYPE_DIR 0 s" using sample_fs_exists by blast
  note d = sample_dir[OF s]
  note p = put_name_ok[OF d(1)[of 0] d(3), where nm = letter_a]
  show ?thesis using p letter_good[OF p(5)] d(2)[of 0] sample_fsD(5)[OF s, of 0] by (intro exI[of _ "put_name 0x2000 letter_a s"]) simp
qed

text \<open>A directory with one entry: an empty file whose first block is mapped is one with an empty entry, into which one is written.\<close>

lemma sample_block:
  assumes s: "sample_fs ty sz s"
  shows "\<exists>t. store_ok 2 {} t \<and> grow 0 s t \<and> (\<forall>i < 4096. mapped t 0 i)"
proof -
  note d = sample_fsD[OF s]
  have "data_map_ok {} s" using d(1) by (simp add: store_ok_def)
  from ensure_slot_ok[OF this _ d(12), where ip = 0 and k = 0 and bn = 1028] obtain t where
    t: "ensure_slot 0 0 s = Inr (Some 1028, t)" "i_index (info t 0) 0 = 1028"
    using d(10) d(11)[of 0] by (auto simp: mk_layout_eq fslots_def)
  have "locate_or_add_block 0 0 s = Inr (1028, t)" using t(1) locate_direct[of 0 0 s] by (simp add: block_code_def)
  with locate_ok[OF d(1)[unfolded numeral_2_eq_2] d(2,3), of 0 0] have "store_ok 2 {} t" "grow 0 s t"
    by (auto simp: numeral_2_eq_2)
  moreover have "mapped t 0 i" if "i < 4096" for i using t(2) that by (simp add: mapped_def data_node_def faddr_def fslots_def)
  ultimately show ?thesis by blast
qed

lemma sample_entry:
  "\<exists>s :: fs_state. dir_ok {} 0 s \<and> dents s 0 = dir_insert (at (mem s) 0x2000) 9 [] \<and> name_ok 0x2000 s \<and>
     good_name (at (mem s) 0x2000)"
proof -
  obtain r where r: "sample_fs INODE_TYPE_DIR 64 r" using sample_fs_exists by blast
  note d = sample_fsD[OF r]
  from sample_block[OF r] obtain t where t: "store_ok 2 {} t" "grow 0 r t" "\<forall>i < 4096. mapped t 0 i" by blast
  note g = growD[OF t(2)]
  have l: "foreign_range r 0x1000 64" "foreign_range r 0x2000 60" by (rule low_range[OF r], simp)+
  have tf: "i_size (info t 0) = 64" "i_type (info t 0) = INODE_TYPE_DIR" "lv t L_de = 0x1000"
    using g(5) d(5,6,13) fs_relD(10)[OF g(1)] by simp_all
  have dt: "dir_ok {} 0 t" using t(1,3) g(2) d(3,4) foreign_range_rel[OF g(1) l(1)] tf
    by (simp add: dir_ok_def g(4,5) meta_ok_def inode_block_def)
  have sz: "dsize t 0 = 1" by (simp add: dsize_def tf(1))
  let ?f = "entry_bytes_of letter_a 9"
  from write_de_ok[OF dt, of 0 ?f] sz obtain u where u: "dir_ok {} 0 u" "dents u 0 = put_entry 0 (dent_at ?f) (dents t 0)"
    "fs_rel 0 (de_patch ?f t) u" by fastforce
  have "length (dents t 0) = 1" using sz by simp
  then obtain e where e: "dents t 0 = [e]" by (cases "dents t 0") auto
  have lu: "lv u L_de = 0x1000" using fs_relD(10)[OF u(3)] tf(3) by simp
  have "foreign_range (de_patch ?f t) 0x2000 60"
    using foreign_range_rel[OF g(1) l(2)] dir_patch(2)[OF dt, of ?f] by (simp add: foreign_range_def)
  note n = low_name[OF lu foreign_range_rel[OF u(3) this]]
  note p = put_name_ok[OF u(1) n, where nm = letter_a]
  let ?s = "put_name 0x2000 letter_a u"
  have "entry_bytes_of (at (mem ?s) 0x2000) 9 = ?f" using p(5) by (auto simp: entry_bytes_of_def fun_eq_iff)
  then have "dents ?s 0 = dir_insert (at (mem ?s) 0x2000) 9 []"
    using u(2) e p(2) by (simp add: dir_insert_def free_slot_def put_entry_def)
  then show ?thesis using p(1,3) letter_good[OF p(5)] by blast
qed

lemma inserted_entry:
  assumes "good_name nm"
  shows "has_entry nm (dir_insert nm k [])" "dir_lookup nm (dir_insert nm k []) = k" "unique_names (dir_insert nm k [])"
proof -
  have e: "dir_insert nm k [] = [dent_at (entry_bytes_of nm k)]" by (simp add: dir_insert_def free_slot_def put_entry_def)
  show "dir_lookup nm (dir_insert nm k []) = k" using lookup_insert(1)[OF assms, of "[]"] by (simp add: has_entry_def)
  show "has_entry nm (dir_insert nm k [])"
    using entry_named[OF assms, of nm k] by (simp add: e has_entry_def strncmp_0_iff same_upto_def)
  show "unique_names (dir_insert nm k [])" by (simp add: e unique_names_def)
qed

section \<open>A root directory with one entry\<close>

lemma rested_step: "fs_rel ip s t \<Longrightarrow> rested s \<Longrightarrow> rested t"
  using fs_relD(5)[of ip s t] fs_relD(9)[of ip s t] calm_ctx(2)[of s t] by (simp add: rested_def)

text \<open>The file \<open>a\<close> in the root is inode 9; the cache holds the root only, and the path \<open>/a\<close> is at \<open>0x2000\<close>.\<close>

definition slash_a :: "u8 list" where
  "slash_a = [47, 97]"

lemma slash_a_elems: "path_elems slash_a = [[97]]"
  by (simp add: slash_a_def path_elems_step path_head_def path_rest_def)

lemma far_locals:
  assumes "lv s L_de = 0x1000" and "lv s L_name = 0x1800"
  shows "name_ok 0x1800 s = foreign_range s 0x1800 60" "i \<le> 2 \<Longrightarrow> 0x2000 + of_nat i \<notin> locals s"
proof -
  have "\<not> unat (0x1800 + of_nat i - 0x1000 :: u64) < 64" if "i < 60" for i :: nat
    using that by (simp add: unat_word_ariths unat_of_nat)
  then show "name_ok 0x1800 s = foreign_range s 0x1800 60" by (simp add: name_ok_def assms)
  show "i \<le> 2 \<Longrightarrow> 0x2000 + of_nat i \<notin> locals s"
    by (simp add: locals_def assms unat_word_ariths unat_of_nat)
qed

lemma sample_root:
  "\<exists>s :: fs_state. icache {} None s \<and> spare (refs s) \<and> locals_ok s \<and> path_at s 0x2000 slash_a \<and> mem s 0x2000 = 47 \<and>
     way_ok {} (sb s) (disk_block s) ROOT_INODE (path_elems slash_a) \<and>
     resolve (sb s) (disk_block s) ROOT_INODE (path_elems slash_a) = Some 9"
proof -
  obtain r where r: "sample_fs INODE_TYPE_DIR 0 r" using sample_fs_exists by blast
  note d = sample_fsD[OF r]
  from sample_block[OF r] obtain t where t: "store_ok 2 {} t" "grow 0 r t" "\<forall>i < 4096. mapped t 0 i" by blast
  note g = growD[OF t(2)]
  have l: "foreign_range r 0x1000 64" "foreign_range r 0x1800 60" "foreign_range r 0x2000 3" by (rule low_range[OF r], simp)+
  have tf: "i_size (info t 0) = 0" "i_type (info t 0) = INODE_TYPE_DIR" "lv t L_de = 0x1000" "lv t L_name = 0x1800" "i_nlink (info t 0) = 1"
    "inode_num (the_inode t 0) = 0"
    using g(5) d(5,6,9,13,14) fs_relD(10)[OF g(1)] r by (simp_all add: sample_fs_def empty_file_def)
  have dt: "dir_ok {} 0 t" using t(1) g(2) d(3) d(4)[of 0] d(9)[of 0] foreign_range_rel[OF g(1) l(1)] tf
    by (simp add: dir_ok_def g(4,5) meta_ok_def inode_block_def)
  have sz: "dsize t 0 = 0" by (simp add: dsize_def tf(1))
  let ?f = "entry_bytes_of letter_a 9" and ?t = "de_patch (entry_bytes_of letter_a 9) t"
  from write_de_ok[OF dt, of 0 ?f] sz obtain n u where u: "n \<le> 64" "n < 64 \<longrightarrow> \<not> mapped t 0 (64 * 0 + n)"
    "n = 64 \<longrightarrow> dir_ok {} 0 u \<and> dents u 0 = put_entry 0 (dent_at ?f) (dents t 0)" "fs_rel 0 ?t u"
    "n = 64 \<longrightarrow> disk_inode (disk_block u) (inode_firstblock (sb t)) (inode_num (the_inode t 0)) = inode_view (info u 0)"
    "i_nlink (info u 0) = i_nlink (info t 0)" by auto
  have "n = 64" using u(1,2) t(3) by (cases "n < 64") auto
  note saved = u(3,5)[rule_format, OF this]
  have du: "dir_ok {} 0 u" "dents u 0 = [dent_at ?f]" using saved(1) sz by (auto simp: put_entry_def dents_def)
  have lu: "lv u L_de = 0x1000" "lv u L_name = 0x1800" "sb u = mk_layout" using fs_relD(1,10)[OF u(4)] tf(3,4) g(4) d(10) by simp_all
  let ?slot = "\<lparr>disk_info = info u 0, valid_info = True, inode_num = 0, i_ref = 1\<rparr>"
  let ?c = "\<lambda>i. if i = 0 then ?slot else ?slot\<lparr>valid_info := False, i_ref := 0\<rparr>"
  let ?m = "u\<lparr>mem := patch 0x2000 3 (cname slash_a) (mem u)\<rparr>"
  let ?x = "?m\<lparr>inode_cache := ?c\<rparr>"
  have fu: "foreign u a" if "foreign r a" for a
    using fs_relD(8)[OF u(4)] fs_relD(8)[OF g(1) that] dir_patch(2)[OF dt, of ?f] by blast
  have l2: "foreign_range u 0x2000 3" "foreign_range u 0x1800 60" "foreign_range u 0x1000 64"
    using l fu by (simp_all add: foreign_range_def)
  note uo = dir_okD[OF du(1)]
  note pf = patch_frame[OF store_okD(3)[OF uo(1)] l2(1), of "cname slash_a"]
  have dx: "disk_block ?x = disk_block u" by (simp add: disk_block_def fun_eq_iff)
  have fx: "foreign ?x a = foreign u a" for a using pf(2)[of a] by simp
  have "store_ok 2 {} ?x" by (rule store_ok_same[OF uo(1) _ _ dx]) (use pf(1) in simp_all)
  moreover have "rested u"
  proof -
    have "rested t" by (rule rested_step[OF g(1) d(15)])
    then have "rested ?t" by (simp add: rested_def free_lock_def de_patch_def)
    then show ?thesis by (rule rested_step[OF u(4)])
  qed
  then have "rested ?x" by (simp add: rested_def free_lock_def)
  moreover have di: "disk_inode (disk_block u) 3 0 = inode_view (info u 0)" using saved(2) tf(6) g(4) d(8) by simp
  ultimately have "icache {} None ?x"
    using lu(3) by (simp add: icache_def agrees_def dinode_def num_def unlocked_def rested_def dx data_free_def mk_layout_eq)
  moreover have "spare (refs ?x)"
  proof -
    have "refs ?x = (\<lambda>i. if i = 0 then 1 else 0)" by (rule ext) (simp add: refs_def)
    moreover have "spare (\<lambda>i. if i = 0 then 1 else 0)"
      unfolding spare_def by (rule conjI, rule exI[of _ 1], rule exI[of _ 2]) simp_all
    ultimately show ?thesis by (simp only:)
  qed
  moreover have "locals_ok ?x" using far_locals(1)[of ?x] lu l2 fx by (simp add: locals_ok_def foreign_range_def)
  moreover have "path_at ?x 0x2000 slash_a"
  proof -
    have m: "mem ?x (0x2000 + of_nat i) = cname slash_a i" if "i < 3" for i
      using patch_in[of 3 i "0x2000" "cname slash_a" "mem u"] that by simp
    have "c_string (mem ?x) 0x2000 slash_a"
      using m[of 0] m[of 1] m[of 2] by (simp add: slash_a_def cname_def)
    moreover have "foreign ?x (0x2000 + of_nat i) \<and> 0x2000 + of_nat i \<notin> locals ?x" if "i \<le> 2" for i
      using foreign_rangeD[OF l2(1), of i] fx far_locals(2)[of ?x i] lu that by simp
    ultimately show ?thesis unfolding path_at_def by (simp add: slash_a_def)
  qed
  moreover have "mem ?x 0x2000 = 47" by (simp add: patch_def cname_def slash_a_def)
  moreover have ls: "disk_inode (disk_block ?x) (inode_firstblock (sb ?x)) 0 = inode_view (info u 0)"
    using di lu(3) by (simp add: dx mk_layout_eq)
  moreover have lk: "dir_lookup (cname (take 59 [97])) (entries (disk_block ?x) (inode_view (info u 0))) = 9"
  proof -
    have "cname (take 59 [97]) = letter_a" by (simp add: cname_def letter_a_def fun_eq_iff)
    moreover have "dir_insert letter_a 9 [] = [dent_at ?f]" by (simp add: dir_insert_def free_slot_def put_entry_def)
    ultimately show ?thesis using inserted_entry(2)[OF letter_good[of letter_a], of 9] du(2)
      by (simp add: dx entries_view dents_entries[symmetric])
  qed
  moreover have "sound_dir (sb ?x) (disk_block ?x) (inode_view (info u 0))"
    using uo(2,6,7) unfolding sound_view by (simp add: sound_dir_def dx ftree_def fslots_def mapped_def faddr_def)
  moreover have "inum_ok {} (sb ?x) 0" using lu(3) by (simp add: inum_ok_def mk_layout_eq in_area_def bmap_blocks_def less_Suc_eq)
  ultimately show ?thesis
    using uo(5) u(6) tf(5) by (intro exI[of _ ?x]) (simp add: slash_a_elems Let_def)
qed

end
