(* ===== verification/Spec2Isabelle.thy ===== *)
theory Spec2Isabelle
  imports Regions AddrCopy Tables Schedule Terminal Faults Samples SampleFs FileOps
begin

text \<open>
  A development about a RISC-V teaching kernel (the C files under \<open>src/src/kernel\<close>) and the host program
  \<open>src/src/mkfs\<close> that makes its disk image. The definitions translate the C code; this theory holds the
  properties. Paths below are relative to \<open>src/src/kernel\<close>.

  \<^bold>\<open>The program.\<close> The kernel boots on hart 0 (\<open>boot/start.c\<close>, \<open>main.c\<close>), manages physical pages in two pools and
  Sv39 page tables (\<open>mem\<close>), runs processes with a round-robin scheduler per hart and sleep channels (\<open>proc\<close>), has
  spinlocks and sleeplocks (\<open>lock\<close>), a console on a UART (\<open>lib\<close>), traps and a clock (\<open>trap\<close>), a virtio disk with a
  cache of block buffers, bitmaps, inodes, directories, devices and files (\<open>fs\<close>), and 35 system calls (\<open>syscall\<close>).

  \<^bold>\<open>State.\<close> The state of the kernel is a chain of records, each layer extending the one below: \<open>kcpu\<close> (harts, spinlocks),
  \<open>mem_state\<close> (memory bytes, page pools), \<open>vm_state\<close>, \<open>mmap_state\<close>, \<open>proc_state\<close>, \<open>disk_state\<close> (virtio queue, disk image,
  buffers), \<open>io_state\<close> (UART, console, clock), \<open>fs_state\<close> (super block, inode, file and device tables), \<open>machine\<close> (control
  registers, interrupt controller). A function of the C code is a definition on the scheme of the layer it uses, so
  it applies to every larger state. Static objects are fields, pointers into static arrays are indices, pages and the
  structures in them (page tables, free lists, disk blocks, trapframes) are bytes of the memory.

  \<^bold>\<open>Results.\<close> Operations return \<open>kerror + 'a\<close>: \<open>Panic\<close> with the message for \<open>panic\<close> and a failed \<open>assert\<close>, \<open>Spin\<close> on a
  spinlock another hart holds, \<open>Sleep\<close> where the process gives up the hart in the middle of a function, \<open>Hang\<close> for a
  loop that does not end, \<open>Fault\<close> for what is undefined in C: an access out of the bounds of an object or through a null
  pointer, an \<open>int\<close> that overflows. \<open>bnd\<close> sequences them.

  \<^bold>\<open>Theories that translate the code\<close>, in the order in which they build on each other:
  \<^item> \<open>Prelude\<close> (words, results, memory bytes), \<open>Utils\<close> (\<open>lib/utils.c\<close>), \<open>Locks\<close> (\<open>lib/cpu.c\<close>, \<open>lock/spinlock.c\<close>);
  \<^item> \<open>Pmem\<close> (\<open>mem/pmem.c\<close>), \<open>Kvm\<close> (\<open>mem/kvm.c\<close>), \<open>Mmap\<close> (\<open>mem/mmap.c\<close>), \<open>Uvm\<close> (\<open>mem/uvm.c\<close>);
  \<^item> \<open>Proc\<close> (scheduling half of \<open>proc/proc.c\<close>, \<open>lock/sleeplock.c\<close>), \<open>Lifecycle\<close> (the rest of \<open>proc/proc.c\<close>),
    \<open>Exec\<close> (\<open>proc/exec.c\<close>);
  \<^item> \<open>Virtio\<close> (\<open>fs/virtio.c\<close>), \<open>Buffer\<close> (\<open>fs/buf.c\<close>), \<open>FsState\<close> (\<open>fs/type.h\<close>), \<open>Bitmap\<close>, \<open>Inode\<close>, \<open>Device\<close>, \<open>Dentry\<close> and \<open>Paths\<close>
    (\<open>fs/dentry.c\<close>), \<open>File\<close> (\<open>fs/fs.c\<close>);
  \<^item> \<open>Console\<close> (\<open>lib/uart.c\<close>, \<open>lib/console.c\<close>, \<open>lib/print.c\<close>), \<open>Timer\<close> (\<open>trap/timer.c\<close>), \<open>Machine\<close> (\<open>arch/method.h\<close>,
    \<open>trap/plic.c\<close>, \<open>boot/start.c\<close>), \<open>Sysfunc\<close> (\<open>syscall\<close>), \<open>Trap\<close> (\<open>trap/trap_kernel.c\<close>, \<open>trap/trap_user.c\<close>, \<open>main.c\<close>);
  \<^item> \<open>Mkfs\<close> (\<open>mkfs/mkfs.c\<close>, on a byte image).

  \<^bold>\<open>Theories of lemmas.\<close>
  \<^item> \<open>Interfaces\<close>: the locale \<open>allocator\<close>, interpreted by the two page pools (\<open>kpages\<close>, \<open>upages\<close>) and the mmap nodes (\<open>mnodes\<close>).
  \<^item> \<open>Vmap\<close>, \<open>Ucopy\<close>, \<open>Regions\<close>: what mapping, unmapping, copies to and from user memory and the mmap searches do; \<open>AddrCopy\<close>: the copy
    of an address space for \<open>fork\<close>, page by page (\<open>copied\<close>), over the segments of a process (\<open>segments\<close>);
    \<open>Boot\<close>, \<open>Samples\<close>: concrete states for the witnesses.
  \<^item> \<open>Calm\<close>, \<open>DiskIO\<close>, \<open>Cache\<close>, \<open>CacheInv\<close>, \<open>CacheOps\<close>, \<open>BootDisk\<close>: one disk request, the doubly linked buffer lists, the cache
    invariant \<open>bc_ok\<close> and what every cache operation does under it. \<open>BlockStore\<close> abstracts from it: the locale \<open>block_store\<close>
    (get, write back and give back blocks) with its clients' lemmas, interpreted as \<open>blocks\<close>.
  \<^item> \<open>Encoding\<close>, \<open>DiskMaps\<close>: encodings read back as written; bitmaps, inode table and block map as clients of \<open>blocks\<close>.
  \<^item> \<open>FileTree\<close>, \<open>FileMap\<close>, \<open>FileData\<close>: a file as an array of bytes. Its blocks form a tree (\<open>tree_inv\<close>: the slots of the inode, two
    single indirect tables, one double indirect table), which \<open>locate_or_add_block\<close> extends without changing its contents
    (\<open>grow\<close>); reads and writes of byte ranges (\<open>fbyte\<close>) follow from it. \<open>DirOps\<close>: a directory as the list of its entries
    (\<open>dents\<close>); search, creation and deletion implement a lookup, an insertion and a removal on that list.
    \<open>InodeLock\<close>, \<open>FileOps\<close>: the sleeplock of an inode around these, and what reading, writing and seeking through a
    descriptor (\<open>file_ready\<close>) do. \<open>InodeCache\<close>, \<open>PathNames\<close>, \<open>PathWalk\<close>: the invariant \<open>icache\<close> of the inode cache (every loaded
    entry agrees with the disk), paths as lists of elements, and the walk along a path as the lookup \<open>resolve\<close> on the
    disk. \<open>SampleFs\<close>: concrete file systems for the witnesses.
  \<^item> \<open>Schedule\<close>: the scheduler of a hart as a step relation with its invariant. \<open>Tables\<close>: reference counts, bounds of transfers,
    refused requests. \<open>Terminal\<close>: the line discipline as a function on lists; printed numbers. \<open>Faults\<close>: messages of the
    kernel, and the faults that end a process.

  \<^bold>\<open>Invariants.\<close> \<open>cpu_ok\<close> (nesting of interrupts), \<open>pmem_ok s F\<close> (\<open>F True\<close> and \<open>F False\<close> are the free pages of the two pools, in
  list order), \<open>vm_ok s F r\<close> (a well-formed page table \<open>r\<close> beside it), \<open>bc_ok s R F D\<close> (the buffer lists \<open>R\<close>, dirty buffers \<open>D\<close>, and a kernel page
  table, \<open>kpt_ok\<close>, that maps the stack page of the request header and has its tables outside the user pool),
  \<open>cache_ok H s\<close> (the same, seen as the set \<open>H\<close> of blocks held), \<open>data_map_ok\<close> (the bitmap blocks can be got), \<open>cons_ok\<close> (the ring
  indices are in order), \<open>store_ok\<close> and \<open>ftree\<close> (the bitmap and the block map of a file), \<open>dir_ok\<close> (a locked directory), \<open>icache\<close> (the inode cache and its locks), \<open>quiet c s\<close> and \<open>hart_inv\<close> (a hart between critical sections). \<open>store_rel s t\<close> says that \<open>t\<close> differs
  from \<open>s\<close> in the cache, the disk and the memory of buffers only; \<open>foreign s x\<close> that address \<open>x\<close> is in no free page, no page of a
  buffer and no table of the kernel's page table.

  \<^bold>\<open>Bounds and fuel.\<close> Machine integers are words of the width of the C type. Walks over linked lists have fuel one more than the
  number of nodes there are (\<open>N_BUFFER\<close>, \<open>N_MMAP\<close>), which a list without repetition cannot exceed; the properties about them
  prove that the fuel suffices. Loops over ranges have termination proofs; searches for the end of a string, which may run
  forever, are \<open>partial_function\<close>.

  The \<open>int\<close> indices of the console, \<open>next_pid\<close> and the arguments of \<open>printint\<close> are integers with the overflow written out.

  \<^bold>\<open>Parameters.\<close> What the virtio device does with a request is in the state: it moves the block and answers 0 (\<open>dev_ok\<close>). It reads
  physical addresses; the header of a request lies on the kernel stack at \<open>buf0_at\<close>, and the device finds it only where the
  kernel's page table maps that address (\<open>stack_mapped\<close>). \<open>disk_wait\<close> runs one schedule: the device answers while the process
  sleeps, and no other process runs in between. The linker's addresses (\<open>sym\<close>, \<open>rodata\<close>) and the places of local objects on the kernel stack (\<open>lv\<close>) are
  functions of the state.

  \<^bold>\<open>Not modelled.\<close> Assembly (\<open>trap.S\<close>, \<open>trampoline.S\<close>, \<open>swtch.S\<close>, \<open>entry.S\<close>): it is the boundary of the C functions, which are split
  at \<open>swtch\<close>. The user programs. The text that \<open>panic\<close> prints. Instructions of other harts between those of one function:
  the locks are modelled, a lock held elsewhere is \<open>Spin\<close>. Other processes between the start and the end of a
  disk request. Opening and closing the image file in
  \<open>mkfs\<close>. Still without theorems of their own: \<open>exec\<close>, the trap handlers but for fatal faults, the creation, linking and removal of names along paths, the devices, \<open>wait\<close>, and of \<open>fork\<close> all but the copy of the
  address space.
\<close>

section \<open>Files and directories\<close>

text \<open>
  C1. Writing to a file. Through the block map (direct, single and double indirect), the bitmap and the buffer cache,
  \<open>inode_write_data\<close> writes the first \<open>n\<close> of \<open>len\<close> bytes; it stops short only
  at a byte that has no block, and when no data block is free. The file has
  these bytes and is otherwise unchanged as a byte sequence; its block map stays a tree with distinct blocks; the size
  is the old one or the end of the write; the blocks of other files are unchanged, and so is every block outside the data
  area, the data bitmap and the one block of the table that has the inode, where it is saved when the size grows.
\<close>

theorem data_written:
  fixes s :: "'a fs_state_scheme"
  assumes "store_ok 2 H s" and "ftree ip s" and "data_free H (sb s)" and "meta_ok H ip s"
    and "unat off + unat len < 2 ^ 32" and "foreign_range s src (unat len)"
  shows "\<exists>n t. inode_write_data ip off len src u s = Inr (of_nat n, t) \<and> n \<le> unat len \<and>
    (n < unat len \<longrightarrow> free_block_of t = None \<and> \<not> mapped s ip (unat off + n)) \<and> store_ok 2 H t \<and> ftree ip t \<and>
    (\<forall>i < 2 ^ 32. fbyte t ip i = (if unat off \<le> i \<and> i < unat off + n then mem s (src + of_nat (i - unat off)) else fbyte s ip i)) \<and>
    i_size (info t ip) = new_size s ip off n \<and> (\<forall>i < n. mapped t ip (unat off + i)) \<and>
    (\<forall>jp. jp \<noteq> ip \<longrightarrow> the_inode t jp = the_inode s jp) \<and>
    (\<forall>b. in_area (sb s) b \<longrightarrow> used (sb s) (disk_block s) b \<longrightarrow> \<not> mine s ip b \<longrightarrow> disk_block t b = disk_block s b) \<and>
    (\<forall>b. \<not> in_area (sb s) b \<longrightarrow> b \<notin> bmap_blocks (sb s) \<longrightarrow> b \<noteq> inode_block ip s \<longrightarrow> disk_block t b = disk_block s b) \<and>
    (new_size s ip off n \<noteq> i_size (info s ip) \<longrightarrow>
       disk_inode (disk_block t) (inode_firstblock (sb s)) (inode_num (the_inode s ip)) = inode_view (info t ip))"
proof -
  note st = assms(1)[unfolded numeral_2_eq_2]
  from inode_write_data_ok[OF st assms(2-6), of u] obtain n t where t:
    "inode_write_data ip off len src u s = Inr (of_nat n, t)" "n \<le> unat len" "store_ok (Suc (Suc 0)) H t"
    "fs_rel ip s t" "ftree ip t"
    "the_inode t ip = (the_inode s ip)\<lparr>disk_info := (info s ip)\<lparr>i_index := fslots t ip, i_size := new_size s ip off n\<rparr>\<rparr>"
    "\<forall>i < 2 ^ 32. fbyte t ip i = (if unat off \<le> i \<and> i < unat off + n then mem s (src + of_nat (i - unat off)) else fbyte s ip i)"
    "\<forall>i < n. mapped t ip (unat off + i)" "n < unat len \<longrightarrow> free_block_of t = None \<and> \<not> mapped s ip (unat off + n)"
    "\<forall>b. in_area (sb s) b \<longrightarrow> used (sb s) (disk_block s) b \<longrightarrow> \<not> mine s ip b \<longrightarrow> disk_block t b = disk_block s b"
    "\<forall>b. \<not> in_area (sb s) b \<longrightarrow> b \<notin> bmap_blocks (sb s) \<longrightarrow> b \<noteq> inode_block ip s \<longrightarrow> disk_block t b = disk_block s b"
    "new_size s ip off n \<noteq> i_size (info s ip) \<longrightarrow>
       disk_inode (disk_block t) (inode_firstblock (sb s)) (inode_num (the_inode s ip)) = inode_view (info t ip)"
    by blast
  have size: "i_size (info t ip) = new_size s ip off n" using t(6) by simp
  have other: "\<forall>jp. jp \<noteq> ip \<longrightarrow> the_inode t jp = the_inode s jp" using fs_relD(6)[OF t(4)] by blast
  have "store_ok 2 H t" using t(3) by (simp only: numeral_2_eq_2)
  note r = t(1,2,9) this t(5,7) size t(8) other t(10-12)
  show ?thesis by (intro exI[of _ n] exI[of _ t] conjI) (rule r)+
qed

theorem data_written_witness:
  "\<exists>(s :: fs_state) n t. inode_write_data 0 5000 300 0x2000 False s = Inr (of_nat n, t) \<and> n \<le> 300 \<and>
    (0 < n \<longrightarrow> fbyte t 0 5000 = mem s 0x2000 \<and> unat (i_size (info t 0)) = 5000 + n)"
proof -
  obtain s where s: "sample_fs INODE_TYPE_DATA 0 s" using sample_fs_exists by blast
  note d = sample_fsD[OF s]
  have f: "foreign_range s 0x2000 (unat (300 :: u32))" by (rule low_range[OF s]) simp
  have o: "unat (5000 :: u32) + unat (300 :: u32) < 2 ^ 32" by simp
  have u: "unat (5000 :: u32) = 5000" "unat (300 :: u32) = 300" by simp_all
  from data_written[OF d(1-4) o f, of 0 False, unfolded u] obtain n t where t:
    "inode_write_data 0 5000 300 0x2000 False s = Inr (of_nat n, t)" "n \<le> 300"
    "\<forall>i < 2 ^ 32. fbyte t 0 i = (if 5000 \<le> i \<and> i < 5000 + n then mem s (0x2000 + of_nat (i - 5000)) else fbyte s 0 i)"
    "i_size (info t 0) = new_size s 0 5000 n" by blast
  have "fbyte t 0 5000 = mem s 0x2000 \<and> unat (i_size (info t 0)) = 5000 + n" if "0 < n"
    using t(2,4) spec[OF t(3), of 5000] that d(5)[of 0] by (simp add: new_size_def unat_word_ariths unat_of_nat)
  then show ?thesis using t(1,2) by blast
qed

text \<open>
  C2. Write, seek back, read, through a descriptor of a data file: the \<open>n\<close> bytes that \<open>file_write\<close> put into the file (fewer than
  were asked for only on a full disk) are what \<open>file_read\<close> of \<open>n\<close> bytes delivers after \<open>file_lseek\<close> to the offset before the
  write, into any memory outside the buffers; the offset of the descriptor is where the write left it.
\<close>

theorem file_round_trip:
  fixes s :: "'a fs_state_scheme"
  assumes "file_ready H f ip s" and "writable (file_table s f)" and "readable (file_table s f)"
    and "unat (offset (file_table s f)) + unat len < 2 ^ 32"
    and "foreign_range s src (unat len)" and "foreign_range s dst (unat len)"
  shows "\<exists>n t u v. file_write f len src a s = Inr (of_nat n, t) \<and> n \<le> unat len \<and> (n < unat len \<longrightarrow> free_block_of t = None) \<and>
    offset (file_table t f) = offset (file_table s f) + of_nat n \<and>
    file_lseek f (offset (file_table s f)) 0 t = Inr (offset (file_table s f), u) \<and>
    file_read f (of_nat n) dst b u = Inr (of_nat n, v) \<and> file_table v = file_table t \<and>
    (\<forall>i < n. mem v (dst + of_nat i) = mem s (src + of_nat i))"
  by (rule write_seek_read[OF assms])

theorem file_round_trip_witness:
  "\<exists>(s :: fs_state) n t u v. file_write 3 9 0x2000 False s = Inr (of_nat n, t) \<and> file_lseek 3 50000 0 t = Inr (50000, u) \<and>
    file_read 3 (of_nat n) 0x3000 False u = Inr (of_nat n, v) \<and> (n = 9 \<longrightarrow> mem v 0x3004 = mem s 0x2004)"
proof -
  obtain s where s: "sample_fs INODE_TYPE_DATA 0 s" using sample_fs_exists by blast
  let ?s = "sample_file 50000 s"
  note d = sample_file(1-4)[OF s, where f = 3 and n = 50000] sample_file(5-7)[OF s, where n = 50000]
  have r: "foreign_range ?s 0x2000 (unat (9 :: u32))" "foreign_range ?s 0x3000 (unat (9 :: u32))"
    unfolding d(7) by (rule low_range[OF s], simp)+
  have o: "unat (offset (file_table ?s 3)) + unat (9 :: u32) < 2 ^ 32" by (simp add: d(4))
  from file_round_trip[OF d(1,3,2) o r, of False False, unfolded d(4,5)] obtain n t u v where t:
    "file_write 3 9 0x2000 False ?s = Inr (of_nat n, t)" "file_lseek 3 50000 0 t = Inr (50000, u)"
    "file_read 3 (of_nat n) 0x3000 False u = Inr (of_nat n, v)"
    "\<forall>i < n. mem v (0x3000 + of_nat i) = mem s (0x2000 + of_nat i)" by blast
  have "n = 9 \<longrightarrow> mem v 0x3004 = mem ?s 0x2004" using spec[OF t(4), of 4] by (simp add: d(5))
  then show ?thesis using t(1-3) by blast
qed

text \<open>
  C3. The bounds of a read. \<open>file_read\<close> transfers no more bytes than were asked for, none beyond the size of the file, and fewer than these two
  allow only at a byte that has no block while the disk is full. The bytes of the file arrive in order; no other memory outside
  the buffers changes; the file and its size stay as they were, and the offset moves by the number of bytes.
\<close>

theorem file_read_bounds:
  fixes s :: "'a fs_state_scheme"
  assumes "file_ready H f ip s" and "readable (file_table s f)" and "unat (offset (file_table s f)) = off"
    and "off + unat len < 2 ^ 32" and "foreign_range s dst (unat len)"
  shows "\<exists>n t. file_read f len dst u s = Inr (of_nat n, t) \<and>
    n \<le> unat len \<and> (0 < n \<longrightarrow> off + n \<le> unat (i_size (info s ip))) \<and>
    (n < unat len \<and> off + n < unat (i_size (info s ip)) \<longrightarrow> free_block_of t = None \<and> \<not> mapped s ip (off + n)) \<and>
    (\<forall>i < n. mem t (dst + of_nat i) = fbyte s ip (off + i)) \<and>
    (\<forall>x. foreign s x \<longrightarrow> (\<forall>i < n. x \<noteq> dst + of_nat i) \<longrightarrow> mem t x = mem s x) \<and>
    (\<forall>i < 2 ^ 32. fbyte t ip i = fbyte s ip i) \<and> i_size (info t ip) = i_size (info s ip) \<and>
    file_table t = (file_table s)(f := (file_table s f)\<lparr>offset := offset (file_table s f) + of_nat n\<rparr>) \<and>
    file_ready H f ip t"
proof -
  from file_read_ok[OF assms, of u] obtain n t where t:
    "file_read f len dst u s = Inr (of_nat n, t)" "n \<le> avail s ip off (unat len)"
    "n < avail s ip off (unat len) \<longrightarrow> free_block_of t = None \<and> \<not> mapped s ip (off + n)"
    "file_ready H f ip t" "file_table t = moved f n (file_table s)" "i_size (info t ip) = i_size (info s ip)"
    "\<forall>i < n. mem t (dst + of_nat i) = fbyte s ip (off + i)" "\<forall>i < 2 ^ 32. fbyte t ip i = fbyte s ip i"
    "\<forall>x. foreign s x \<longrightarrow> foreign t x \<and> mem t x = patch dst n (\<lambda>i. fbyte s ip (off + i)) (mem s) x" by blast
  have av: "n \<le> unat len" "0 < n \<longrightarrow> off + n \<le> unat (i_size (info s ip))"
    "n < unat len \<and> off + n < unat (i_size (info s ip)) \<longrightarrow> n < avail s ip off (unat len)"
    using t(2) by (auto simp: avail_def)
  have "\<forall>x. foreign s x \<longrightarrow> (\<forall>i < n. x \<noteq> dst + of_nat i) \<longrightarrow> mem t x = mem s x"
    using t(9) patch_outside[of n _ dst] by (auto simp del: of_nat_unat)
  moreover note t(5)[unfolded moved_def]
  ultimately show ?thesis using t(1,3,4,6-8) av by blast
qed

theorem file_read_bounds_witness:
  "\<exists>(s :: fs_state) n t. file_read 3 30 0x3000 False s = Inr (of_nat n, t) \<and> n \<le> 20 \<and> mem t 0x3014 = mem s 0x3014"
proof -
  obtain s where s: "sample_fs INODE_TYPE_DATA 120 s" using sample_fs_exists by blast
  let ?s = "sample_file 100 s"
  note d = sample_file(1-4)[OF s, where f = 3 and n = 100] sample_file(5-7)[OF s, where n = 100]
  have r: "foreign_range ?s 0x3000 (unat (30 :: u32))" unfolding d(7) by (rule low_range[OF s]) simp
  have o: "unat (offset (file_table ?s 3)) = 100" by (simp add: d(4))
  from file_read_bounds[OF d(1,2) o _ r, of False] obtain n t where t:
    "file_read 3 30 0x3000 False ?s = Inr (of_nat n, t)" "0 < n \<longrightarrow> 100 + n \<le> unat (i_size (info ?s 0))"
    "\<forall>x. foreign ?s x \<longrightarrow> (\<forall>i < n. x \<noteq> 0x3000 + of_nat i) \<longrightarrow> mem t x = mem ?s x" by auto
  have n: "n \<le> 20" using t(2) by (cases "n = 0") (simp_all add: d(6))
  have "foreign ?s (0x3000 + of_nat 20)" by (rule foreign_rangeD[OF r]) simp
  moreover have "\<forall>i < n. 0x3014 \<noteq> (0x3000 :: u64) + of_nat i"
  proof (intro allI impI)
    fix i assume "i < n"
    with n have "unat ((0x3000 :: u64) + of_nat i) < 0x3014" by (simp add: unat_word_ariths unat_of_nat)
    then show "0x3014 \<noteq> (0x3000 :: u64) + of_nat i" by auto
  qed
  ultimately have "mem t 0x3014 = mem ?s 0x3014" using t(3) by simp
  then show ?thesis using t(1) n by blast
qed

text \<open>
  C4. The block map. \<open>locate_or_add_block\<close> keeps the invariant that the slots and tables of the file form a tree of distinct
  blocks that are marked in the bitmap; as a sequence of bytes the file does not change, blocks that had been linked stay
  where they were, and no other block in use changes. The result is the block of the leaf for every logical block up
  to the end of the double indirect range; -1 is returned only when no block is free or beyond that range.
\<close>

theorem block_map_kept:
  fixes s :: "'a fs_state_scheme"
  assumes "store_ok 2 H s" and "ftree ip s" and "data_free H (sb s)"
  shows "\<exists>v t. locate_or_add_block ip n s = Inr (v, t) \<and> store_ok 2 H t \<and> ftree ip t \<and>
    (if v = -1 then free_block_of t = None \<and> faddr t ip (data_node (unat n)) = 0 \<or> MAX_BLOCKS \<le> unat n
     else unat n < MAX_BLOCKS \<and> v \<noteq> 0 \<and> v = faddr t ip (data_node (unat n))) \<and>
    (\<forall>k < MAX_BLOCKS. fblock t ip k = fblock s ip k) \<and>
    (\<forall>q. vnode q \<longrightarrow> faddr s ip q \<noteq> 0 \<longrightarrow> faddr t ip q = faddr s ip q) \<and>
    (\<forall>b. in_area (sb s) b \<longrightarrow> used (sb s) (disk_block s) b \<longrightarrow> \<not> mine s ip b \<longrightarrow> disk_block t b = disk_block s b)"
proof -
  from locate_ok[OF assms(1)[unfolded numeral_2_eq_2] assms(2,3)] obtain v t where t:
    "locate_or_add_block ip n s = Inr (v, t)" "store_ok (Suc (Suc 0)) H t" "grow ip s t" "block_result ip n v t" by blast
  have st: "store_ok 2 H t" using t(2) by (simp only: numeral_2_eq_2)
  have br: "(if v = -1 then free_block_of t = None \<and> faddr t ip (data_node (unat n)) = 0 \<or> MAX_BLOCKS \<le> unat n
     else unat n < MAX_BLOCKS \<and> v \<noteq> 0 \<and> v = faddr t ip (data_node (unat n)))" 
    using t(4) unfolding block_result_def .
  have ot: "\<forall>b. in_area (sb s) b \<longrightarrow> used (sb s) (disk_block s) b \<longrightarrow> \<not> mine s ip b \<longrightarrow> disk_block t b = disk_block s b"
    using growD(3)[OF t(3)] unfolding others_same_def by blast
  have fb: "\<forall>k < MAX_BLOCKS. fblock t ip k = fblock s ip k" using growD(6)[OF t(3)] by blast
  have fa: "\<forall>q. vnode q \<longrightarrow> faddr s ip q \<noteq> 0 \<longrightarrow> faddr t ip q = faddr s ip q" using growD(7)[OF t(3)] by blast
  show ?thesis by (intro exI[of _ v] exI[of _ t] conjI) (rule t(1) st growD(2)[OF t(3)] br fb fa ot)+
qed

theorem block_map_kept_witness:
  "\<exists>(s :: fs_state) v t. locate_or_add_block 0 3000 s = Inr (v, t) \<and> ftree 0 t \<and> fblock t 0 7 = fblock s 0 7"
proof -
  obtain s where s: "sample_fs INODE_TYPE_DATA 0 s" using sample_fs_exists by blast
  note d = sample_fsD[OF s]
  obtain v t where t: "locate_or_add_block 0 3000 s = Inr (v, t)" "ftree 0 t" "\<forall>k < MAX_BLOCKS. fblock t 0 k = fblock s 0 k"
    using block_map_kept[OF d(1-3), of 0 3000] by blast
  have "fblock t 0 7 = fblock s 0 7" using spec[OF t(3), of 7] by simp
  then show ?thesis using t(1,2) by blast
qed

text \<open>
  C5. A write within the size of the file changes no block outside the data area and the data bitmap, so every inode of the
  table on the disk is as it was, also when the write filled a hole: a block that it linked into a direct slot is marked in
  the bitmap and is in the cached inode, but the inode on the disk still has the empty slot.
\<close>

theorem hole_write_not_saved:
  fixes s :: "'a fs_state_scheme"
  assumes "store_ok 2 H s" and "ftree ip s" and "data_free H (sb s)" and "meta_ok H ip s" and itable: "itable_ok (sb s)"
    and "unat off + unat len \<le> unat (i_size (info s ip))" and "foreign_range s src (unat len)"
  shows "\<exists>n t. inode_write_data ip off len src u s = Inr (of_nat n, t) \<and>
    (n < unat len \<longrightarrow> free_block_of t = None) \<and> (\<forall>i < n. mapped t ip (unat off + i)) \<and>
    (\<forall>b. \<not> in_area (sb s) b \<longrightarrow> b \<notin> bmap_blocks (sb s) \<longrightarrow> disk_block t b = disk_block s b) \<and>
    (\<forall>num. unat num < 64 * unat (inode_blocks (sb s)) \<longrightarrow>
      disk_inode (disk_block t) (inode_firstblock (sb s)) num = disk_inode (disk_block s) (inode_firstblock (sb s)) num)"
proof -
  have "unat (i_size (info s ip)) < 2 ^ 32" using unsigned_less[of "i_size (info s ip)", where 'a = nat] by simp
  then have o: "unat off + unat len < 2 ^ 32" using assms(6) by linarith
  from inode_write_data_ok[OF assms(1)[unfolded numeral_2_eq_2] assms(2-4) o assms(7), of u] obtain n t where t:
    "inode_write_data ip off len src u s = Inr (of_nat n, t)" "n \<le> unat len" "n < unat len \<longrightarrow> free_block_of t = None"
    "\<forall>i < n. mapped t ip (unat off + i)"
    "new_size s ip off n = i_size (info s ip) \<longrightarrow> disk_block t (inode_block ip s) = disk_block s (inode_block ip s)"
    "\<forall>b. \<not> in_area (sb s) b \<longrightarrow> b \<notin> bmap_blocks (sb s) \<longrightarrow> b \<noteq> inode_block ip s \<longrightarrow> disk_block t b = disk_block s b"
    by blast
  have "new_size s ip off n = i_size (info s ip)" using t(2) assms(6) by (simp add: new_size_def)
  then have d: "disk_block t b = disk_block s b" if "\<not> in_area (sb s) b" "b \<notin> bmap_blocks (sb s)" for b
    using t(5,6) that by blast
  have "disk_inode (disk_block t) (inode_firstblock (sb s)) num = disk_inode (disk_block s) (inode_firstblock (sb s)) num"
    if "unat num < 64 * unat (inode_blocks (sb s))" for num
    using d[OF itable_apart[OF store_okD(2)[OF assms(1)] itable itable_block[OF itable that]]] by (simp add: disk_inode_def)
  then show ?thesis using t(1,3,4) d by blast
qed

theorem hole_write_not_saved_witness:
  "\<exists>(s :: fs_state) n t. inode_write_data 0 10 20 0x2000 False s = Inr (of_nat n, t) \<and> \<not> mapped s 0 10 \<and>
    (0 < n \<longrightarrow> mapped t 0 10) \<and> disk_inode (disk_block t) 3 0 = disk_inode (disk_block s) 3 0 \<and>
    disk_inode (disk_block t) 3 77 = disk_inode (disk_block s) 3 77"
proof -
  obtain s where s: "sample_fs INODE_TYPE_DATA 100 s" using sample_fs_exists by blast
  note d = sample_fsD[OF s]
  have f: "foreign_range s 0x2000 (unat (20 :: u32))" by (rule low_range[OF s]) simp
  have o: "unat (10 :: u32) + unat (20 :: u32) \<le> unat (i_size (info s 0))" using d(5)[of 0] by simp
  have u: "unat (10 :: u32) = 10" by simp
  have i: "itable_ok (sb s)" "77 < 64 * unat (inode_blocks (sb s))" "inode_firstblock (sb s) = 3"
    using d(10) by (simp_all add: itable_ok_def mk_layout_eq)
  from hole_write_not_saved[OF d(1-4) i(1) o f, of False, unfolded u i(3)] obtain n t where t:
    "inode_write_data 0 10 20 0x2000 False s = Inr (of_nat n, t)" "\<forall>i < n. mapped t 0 (10 + i)"
    "\<forall>num. unat num < 64 * unat (inode_blocks (sb s)) \<longrightarrow> disk_inode (disk_block t) 3 num = disk_inode (disk_block s) 3 num" by blast
  have "disk_inode (disk_block t) 3 0 = disk_inode (disk_block s) 3 0" using spec[OF t(3), of 0] i(2) by simp
  moreover have "disk_inode (disk_block t) 3 77 = disk_inode (disk_block s) 3 77" using spec[OF t(3), of 77] i(2) by simp
  moreover have "0 < n \<longrightarrow> mapped t 0 10" using spec[OF t(2), of 0] by simp
  ultimately show ?thesis using t(1) d(7) by blast
qed

text \<open>
  C6. A directory is the list of the entries in its data. \<open>dentry_search\<close> returns the inode number of the first entry of the
  list that carries the name, the invalid number if there is none, and changes no block of the disk and no inode.
\<close>

theorem directory_search:
  fixes s :: "'a fs_state_scheme"
  assumes "dir_ok H ip s" and "name_ok name s"
  shows "\<exists>t. dentry_search ip name s = Inr (dir_lookup (at (mem s) name) (dents s ip), t) \<and>
    dir_ok H ip t \<and> dents t ip = dents s ip \<and> disk_block t = disk_block s \<and> inode_cache t = inode_cache s"
  using dentry_search_ok[OF assms] unfolding dir_kept_def still_def by blast

theorem directory_search_witness:
  "\<exists>(s :: fs_state) t. dentry_search 0 0x2000 s = Inr (INVALID_INODE_NUM, t) \<and> dents t 0 = []"
proof -
  obtain s where s: "sample_fs INODE_TYPE_DIR 0 s" using sample_fs_exists by blast
  note d = sample_dir[OF s]
  show ?thesis using directory_search[OF d(1)[of 0] d(3)] d(2)[of 0] by (auto simp: dir_lookup_def)
qed

text \<open>
  C7. Adding an entry. A name that exists is refused with -1 and nothing changes. Otherwise the entry is
  put into the first empty place of the list, or appended, its offset is returned, and from then on a lookup of the name
  finds the new inode number, and a lookup of any other name finds what it found before. Only a full disk stops it, and only if no entry is empty.
\<close>

theorem directory_create:
  fixes s :: "'a fs_state_scheme"
  assumes "dir_ok H ip s" and "name_ok name s" and "unat (i_size (info s ip)) + 64 < 2 ^ 32" and "good_name (at (mem s) name)"
  shows "\<exists>v t. dentry_create ip inum name s = Inr (v, t) \<and>
    (if has_entry (at (mem s) name) (dents s ip) then v = -1 \<and> dents t ip = dents s ip
     else v = -1 \<and> free_block_of t = None \<and> free_slot (dents s ip) = length (dents s ip) \<or>
       v = eoff (free_slot (dents s ip)) \<and> dir_ok H ip t \<and> dents t ip = dir_insert (at (mem s) name) inum (dents s ip) \<and>
       dir_lookup (at (mem s) name) (dents t ip) = inum \<and>
       (\<forall>nm. strncmp (at (mem s) name) nm 60 \<noteq> 0 \<longrightarrow> dir_lookup nm (dents t ip) = dir_lookup nm (dents s ip)))"
proof -
  from dentry_create_ok[OF assms(1-3)] obtain v t where t: "dentry_create ip inum name s = Inr (v, t)"
    "if has_entry (at (mem s) name) (dents s ip) then v = -1 \<and> dir_kept H ip s t
     else (v = -1 \<and> free_block_of t = None \<and> free_slot (dents s ip) = length (dents s ip)) \<or>
       v = eoff (free_slot (dents s ip)) \<and> dir_ok H ip t \<and> dents t ip = dir_insert (at (mem s) name) inum (dents s ip)" by blast
  show ?thesis using t lookup_insert[OF assms(4), of "dents s ip"]
    by (intro exI[of _ v] exI[of _ t]) (auto simp: dir_kept_def)
qed

theorem directory_create_witness:
  "\<exists>(s :: fs_state) v t. dentry_create 0 9 0x2000 s = Inr (v, t) \<and> (v = 0 \<longrightarrow> dir_lookup (at (mem s) 0x2000) (dents t 0) = 9)"
proof -
  obtain s :: fs_state where s: "dir_ok {} 0 s" "dents s 0 = []" "name_ok 0x2000 s" "good_name (at (mem s) 0x2000)" "i_size (info s 0) = 0"
    using sample_named by blast
  have "unat (i_size (info s 0)) + 64 < 2 ^ 32" "\<not> has_entry (at (mem s) 0x2000) (dents s 0)"
    using s(2,5) by (simp_all add: has_entry_def)
  with directory_create[OF s(1,3) _ s(4), of 9] obtain v t where "dentry_create 0 9 0x2000 s = Inr (v, t)"
    "v = -1 \<or> dir_lookup (at (mem s) 0x2000) (dents t 0) = 9" by (simp only: if_False) blast
  then show ?thesis by (intro exI[of _ s] exI[of _ v] exI[of _ t]) auto
qed

text \<open>
  C8. Removing an entry, in a directory where names are unique. The inode number of the entry is returned and the entry is cleared:
  a lookup of the name finds nothing, a lookup of any other name what it found before, names are still unique. A name that
  is not there is refused and the list does not change.
\<close>

theorem directory_delete:
  fixes s :: "'a fs_state_scheme"
  assumes "dir_ok H ip s" and "name_ok name s" and "unique_names (dents s ip)"
  shows "\<exists>v t. dentry_delete ip name s = Inr (v, t) \<and>
    (if has_entry (at (mem s) name) (dents s ip)
     then v = dir_lookup (at (mem s) name) (dents s ip) \<and> dir_ok H ip t \<and> dents t ip = dir_delete (at (mem s) name) (dents s ip) \<and>
       unique_names (dents t ip) \<and> dir_lookup (at (mem s) name) (dents t ip) = INVALID_INODE_NUM \<and>
       (\<forall>nm. strncmp (at (mem s) name) nm 60 \<noteq> 0 \<longrightarrow> dir_lookup nm (dents t ip) = dir_lookup nm (dents s ip))
     else v = INVALID_INODE_NUM \<and> dents t ip = dents s ip)"
proof -
  from dentry_delete_ok[OF assms(1,2)] obtain v t where t: "dentry_delete ip name s = Inr (v, t)"
    "if has_entry (at (mem s) name) (dents s ip)
     then v = dir_lookup (at (mem s) name) (dents s ip) \<and> dir_ok H ip t \<and> dents t ip = dir_delete (at (mem s) name) (dents s ip)
     else v = INVALID_INODE_NUM \<and> dir_kept H ip s t" by blast
  show ?thesis using t lookup_delete[OF assms(3)] by (intro exI[of _ v] exI[of _ t]) (auto simp: dir_kept_def)
qed

theorem directory_delete_witness:
  "\<exists>(s :: fs_state) v t. has_entry (at (mem s) 0x2000) (dents s 0) \<and> dentry_delete 0 0x2000 s = Inr (v, t) \<and>
    v = 9 \<and> dir_lookup (at (mem s) 0x2000) (dents t 0) = INVALID_INODE_NUM"
proof -
  obtain s :: fs_state where s: "dir_ok {} 0 s" "dents s 0 = dir_insert (at (mem s) 0x2000) 9 []" "name_ok 0x2000 s"
    "good_name (at (mem s) 0x2000)"
    using sample_entry by blast
  have e: "has_entry (at (mem s) 0x2000) (dents s 0)" "dir_lookup (at (mem s) 0x2000) (dents s 0) = 9"
    "unique_names (dents s 0)"
    using inserted_entry[OF s(4)] unfolding s(2) by blast+
  show ?thesis using directory_delete[OF s(1,3) e(3)] e(1,2) by auto
qed

section \<open>The disk\<close>

text \<open>
  C9. Path resolution. \<open>path_to_inode\<close> splits the path into its elements (\<open>path_elems\<close>: maximal pieces without slashes, cut to 59
  characters), and its walk through the inode cache implements the lookup of these elements in the directories on
  the disk (\<open>resolve\<close>), from the root or from the directory of the process. It returns an entry of the number found, or NULL when
  the lookup fails; the reference counts are as before but for the one to the result, the inodes that others refer to stay in their
  entries, every loaded entry still agrees with the disk, nothing is locked, the disk and all memory but the two local objects
  stay as they are. The directories on the way are sound and linked, and two entries of the cache are free.
\<close>

theorem path_resolved:
  fixes s :: "'a fs_state_scheme"
  assumes "icache H None s" and "spare (refs s)" and "locals_ok s" and "path_at s p cs"
    and "mem s p = SLASH \<or> (\<exists>ip < N_INODE. walk_start p s = Some ip)"
    and "way_ok H (sb s) (disk_block s) (start_num p s) (path_elems cs)"
  shows "\<exists>q t. path_to_inode p s = Inr (q, t) \<and>
    (case resolve (sb s) (disk_block s) (start_num p s) (path_elems cs) of
       None \<Rightarrow> q = None \<and> refs t = refs s
     | Some n \<Rightarrow> \<exists>j < N_INODE. q = Some j \<and> num t j = n \<and> refs t = (refs s)(j := refs s j + 1)) \<and>
    (\<forall>k < N_INODE. refs s k \<noteq> 0 \<longrightarrow> num t k = num s k) \<and> icache H None t \<and> disk_block t = disk_block s \<and>
    (\<forall>x. foreign s x \<longrightarrow> x \<notin> locals s \<longrightarrow> mem t x = mem s x)"
proof -
  let ?n = "resolve (sb s) (disk_block s) (start_num p s) (path_elems cs)"
  from path_to_inode_ok[OF assms] obtain q t where t: "path_to_inode p s = Inr (q, t)" "icache H None t" "wrel (locals s) s t"
    "stays (refs s) s t" "outcome (refs s) q ?n t" by blast
  have "case ?n of None \<Rightarrow> q = None \<and> refs t = refs s
     | Some n \<Rightarrow> \<exists>j < N_INODE. q = Some j \<and> num t j = n \<and> refs t = (refs s)(j := refs s j + 1)"
    using t(5) unfolding outcome_def by (cases q) auto
  moreover have "\<forall>x. foreign s x \<longrightarrow> x \<notin> locals s \<longrightarrow> mem t x = mem s x" using wrelD(5)[OF t(3)] by blast
  ultimately show ?thesis using t(1,2,4) wrelD(1)[OF t(3)] unfolding stays_def by blast
qed

theorem path_resolved_witness:
  "\<exists>(s :: fs_state) j t. path_to_inode 0x2000 s = Inr (Some j, t) \<and> num t j = 9 \<and> refs t = (refs s)(j := refs s j + 1)"
proof -
  obtain s :: fs_state where s: "icache {} None s" "spare (refs s)" "locals_ok s" "path_at s 0x2000 slash_a" "mem s 0x2000 = 47"
    "way_ok {} (sb s) (disk_block s) ROOT_INODE (path_elems slash_a)"
    "resolve (sb s) (disk_block s) ROOT_INODE (path_elems slash_a) = Some 9" using sample_root by blast
  have n: "start_num 0x2000 s = ROOT_INODE" using s(5) by (simp add: start_num_def walk_start_def)
  have a: "mem s 0x2000 = SLASH \<or> (\<exists>ip < N_INODE. walk_start 0x2000 s = Some ip)" using s(5) by simp
  from path_resolved[OF s(1-4) a] s(6,7) obtain j t where
    "path_to_inode 0x2000 s = Inr (Some j, t)" "num t j = 9" "refs t = (refs s)(j := refs s j + 1)"
    unfolding n by auto
  then show ?thesis by blast
qed

text \<open>
  C10. The allocation of a data block, through the buffer cache: the result is the first block whose bit is
  clear among the blocks of the layout (-1 if there is none), and the only change on the disk is that
  bit. It does not fail, and the rest of the kernel state is as before.
\<close>

theorem block_allocation:
  assumes "data_map_ok H s"
  shows "\<exists>t. bitmap_alloc_block s = Inr (alloc_result (data_firstblock (sb s)) (free_block_of s), t) \<and>
    disk_block t = alloc_disk (data_bitmap_firstblock (sb s)) (free_block_of s) (disk_block s) \<and>
    data_map_ok H t \<and> store_rel s t"
  using bitmap_alloc_block_ok[OF assms] by blast

theorem block_allocation_witness:
  "\<exists>(s :: fs_state) t. bitmap_alloc_block s = Inr (1028, t) \<and> map_bit (disk_block t) 1027 0 \<and> store_rel s t"
proof -
  obtain s :: fs_state where s: "sb s = mk_layout" "data_map_ok {} s" "free_block_of s = Some 0"
    using boot_free_block by blast
  have "map_bit (map_put True 1027 0 D) 1027 0" for D by (simp add: map_bit_def map_put_def Let_def blk_bit_put)
  then have "\<exists>t. bitmap_alloc_block s = Inr (1028, t) \<and> map_bit (disk_block t) 1027 0 \<and> store_rel s t"
    using block_allocation[OF s(2)] s(1,3) by (auto simp: alloc_result_def alloc_disk_def mk_layout_eq)
  then show ?thesis by blast
qed

text \<open>
  C11. The inode table: what \<open>inode_rw\<close> writes for an entry of the inode cache, it reads back into another
  entry with the same inode number, all fields and the thirteen indices.
\<close>

theorem inode_table_roundtrip:
  fixes s :: "'a fs_state_scheme"
  assumes "can_get H (inode_block ip s) s" and "inode_num (the_inode s jp) = inode_num (the_inode s ip)"
  shows "\<exists>t u. inode_rw ip True s = Inr t \<and> inode_rw jp False t = Inr u \<and> info u jp = inode_view (info s ip) \<and>
    valid_info (the_inode u jp)"
  by (rule inode_write_read[OF assms])

theorem inode_table_roundtrip_witness:
  "\<exists>(s :: fs_state) t u. inode_rw 0 True s = Inr t \<and> inode_rw 1 False t = Inr u \<and> i_size (info u 1) = 77"
proof -
  define d where "d = \<lparr>i_type = 0, i_major = 1, i_minor = 1, i_nlink = 1, i_size = 77, i_index = (\<lambda>_. 0)\<rparr>"
  obtain s :: fs_state where s: "cache_ok {} s" "sb s = mk_layout"
    "inode_cache s = (\<lambda>_. \<lparr>disk_info = d, valid_info = True, inode_num = 5, i_ref = 1\<rparr>)"
    using boot_fs by blast
  have "can_get {} (inode_block 0 s) s" using s by (simp add: can_get_def inode_block_def mk_layout_eq)
  from inode_table_roundtrip[OF this, of 1] obtain t u where "inode_rw 0 True s = Inr t" "inode_rw 1 False t = Inr u"
    "info u 1 = inode_view (info s 0)" using s(3) by auto
  moreover have "i_size (inode_view (info s 0)) = 77" using s(3) by (simp add: inode_view_def d_def)
  ultimately show ?thesis by metis
qed

section \<open>The buffer cache\<close>

text \<open>
  C12. Reading through the cache: whether the block is cached or has to be read, the buffer shows the bytes of
  the block on the disk, and giving it back ends with the same disk and the same set of held blocks.
\<close>

theorem cache_read:
  fixes s :: "'a disk_state_scheme"
  assumes "cache_ok H s" and "n < 0x20000000" and "n \<notin> H" and "card H < N_BUFFER"
  shows "\<exists>b t u. buffer_get n s = Inr (b, t) \<and> buf_holds b n t \<and> buf_page t b = disk_block s n \<and> disk_block t = disk_block s \<and>
    buffer_put b t = Inr u \<and> cache_ok H u \<and> disk_block u = disk_block s"
proof -
  from blocks.look[OF assms] obtain b and t :: "'a disk_state_scheme" where t: "buffer_get n s = Inr (b, t)"
    "cache_ok (insert n H) t" "buf_holds b n t" "buf_page t b = disk_block s n" "disk_block t = disk_block s" by blast
  from blocks.look_put[OF t(2,3) assms(3)] show ?thesis using t by auto
qed

theorem cache_read_witness:
  "\<exists>(s :: fs_state) b t. buffer_get 0 s = Inr (b, t) \<and> buf_page t b = disk_block s 0"
proof -
  obtain s :: fs_state where "cache_ok {} s" using boot_fs by blast
  from cache_read[OF this, of 0] show ?thesis by auto
qed

text \<open>
  C13. Writing through the cache: after \<open>buffer_get\<close>, a change of the page, \<open>buffer_write\<close> and
  \<open>buffer_put\<close>, the disk holds the changed page in that block and is otherwise as before.
\<close>

theorem cache_write:
  fixes s :: "'a disk_state_scheme"
  assumes "cache_ok H s" and "n < 0x20000000" and "n \<notin> H" and "card H < N_BUFFER" and "k < 4096"
  shows "\<exists>b t u v. buffer_get n s = Inr (b, t) \<and>
    buffer_write b (t\<lparr>mem := (mem t)(data (the_buf t b) + of_nat k := x)\<rparr>) = Inr u \<and> buffer_put b u = Inr v \<and>
    cache_ok H v \<and> disk_block v = (disk_block s)(n := (disk_block s n)(k := x)) \<and> store_rel s v"
proof -
  have g: "can_get H n s" using assms by (simp add: can_get_def)
  have "\<exists>b t u v. buffer_get n s = Inr (b, t) \<and> buf_page t b = disk_block s n \<and> store_rel s t \<and>
      buffer_write b (t\<lparr>mem := (mem t)(data (the_buf t b) + of_nat k := x)\<rparr>) = Inr u \<and> buffer_put b u = Inr v \<and>
      cache_ok H v \<and> disk_block v = (disk_block s)(n := (disk_block s n)(k := x)) \<and> store_rel s v"
    by (rule page_op[OF g, where f = "\<lambda>d. d(k := x)"]) (simp add: fun_upd_page[OF assms(5)])
  then show ?thesis by blast
qed

theorem cache_write_witness:
  "\<exists>(s :: fs_state) b t u v. buffer_get 9 s = Inr (b, t) \<and>
    buffer_write b (t\<lparr>mem := (mem t)(data (the_buf t b) + of_nat 3 := 42)\<rparr>) = Inr u \<and> buffer_put b u = Inr v \<and> disk_block v 9 3 = 42"
proof -
  obtain s :: fs_state where s: "cache_ok {} s" using boot_fs by blast
  from cache_write[OF s, of 9 3 42] obtain b t u v where "buffer_get 9 s = Inr (b, t)"
    "buffer_write b (t\<lparr>mem := (mem t)(data (the_buf t b) + of_nat 3 := 42)\<rparr>) = Inr u" "buffer_put b u = Inr v"
    "disk_block v = (disk_block s)(9 := (disk_block s 9)(3 := 42))" by auto
  then show ?thesis by (intro exI[of _ s] exI[of _ b] exI[of _ t] exI[of _ u] exI[of _ v]) simp
qed

text \<open>
  C14. The walks of \<open>buffer_get\<close> around the two circular lists end: with the links in order, at most \<open>N_BUFFER\<close>
  steps lead back to the head, and the result is that of a search of the list from the front.
\<close>

theorem buffer_walk_ends:
  assumes "rings (bufs s) R"
  shows "find_buf (Suc N_BUFFER) (head k) n (bn_next (bufs s (head k))) (bufs s) =
    Inr (map_option BNode (List.find (\<lambda>i. block_num (the_buf s i) = n) (R k)))"
  by (rule find_ring[OF assms])

theorem buffer_walk_ends_witness:
  "\<exists>s :: disk_state. find_buf (Suc N_BUFFER) BActive 3 (bn_next (bufs s BActive)) (bufs s) = Inr None"
proof -
  obtain s :: disk_state and F where s: "bc_ok s (\<lambda>k. if k then [] else rev [0..<N_BUFFER]) F {}"
    using boot_cache[of "()"] by blast
  from buffer_walk_ends[OF bc_okD(2)[OF s], of True 3] show ?thesis by auto
qed

text \<open>
  C15. A block that is held is not handed out again: \<open>buffer_get\<close> puts the caller to sleep on the
  buffer's lock.
\<close>

theorem held_block_sleeps:
  assumes "bc_ok s R F D" and "kctx s p" and "i \<in> set (R True)"
  shows "buffer_get (block_num (the_buf s i)) s = Inl Sleep"
  by (rule buffer_get_held[OF assms])

theorem held_block_sleeps_witness:
  "\<exists>(s :: disk_state) i t. buffer_get 7 s = Inr (i, t) \<and> buffer_get 7 t = Inl Sleep"
proof -
  obtain s :: disk_state where s: "cache_ok {} s" using boot_store[of "()"] by blast
  from cache_get_ok[OF s, of 7] obtain i and t :: disk_state where t: "buffer_get 7 s = Inr (i, t)" "cache_ok {7} t" "buf_holds i 7 t"
    by auto
  from t(2) obtain R F p where r: "bc_ok t R F {}" "kctx t p" by (auto simp: cache_ok_def cache_mid_def)
  have "i \<in> set (R True)" "block_num (the_buf t i) = 7" using t(3) by (simp_all add: holds_active[OF r(1)])
  from held_block_sleeps[OF r this(1)] this(2) show ?thesis using t(1) by metis
qed

text \<open>
  C16. \<open>buffer_freemem\<close> gives the pages of up to \<open>count\<close> inactive buffers back to the user pool, reports their
  number, changes nothing on the disk and keeps the invariant of the cache.
\<close>

theorem freemem_returns_pages:
  assumes "bc_ok s R F D"
  shows "\<exists>t F'. buffer_freemem count s = Inr (of_nat (length (reclaim (unat count) (R False) s)), t) \<and>
    bc_ok t R F' D \<and> disk_image t = disk_image s \<and>
    F' = F(False := rev (map (\<lambda>i. data (the_buf s i)) (reclaim (unat count) (R False) s)) @ F False)"
  using buffer_freemem_ok[OF assms, of count] by blast

theorem freemem_returns_pages_witness:
  "\<exists>(s :: disk_state) t. buffer_freemem 3 s = Inr (0, t) \<and> disk_image t = disk_image s"
proof -
  obtain s :: disk_state and F where s: "bc_ok s (\<lambda>k. if k then [] else rev [0..<N_BUFFER]) F {}"
    "\<forall>i < N_BUFFER. data (the_buf s i) = 0" using boot_cache[of "()"] by blast
  have "reclaim (unat (3 :: u32)) (rev [0..<N_BUFFER]) s = []" using s(2) by (simp add: reclaim_def filter_empty_conv)
  then have "\<exists>t. buffer_freemem 3 s = Inr (0, t) \<and> disk_image t = disk_image s"
    using freemem_returns_pages[OF s(1), of 3] by auto
  then show ?thesis by blast
qed

text \<open>
  C17. One disk request, in the schedule of \<open>disk_wait\<close> (the device answers while the caller sleeps, no other process
  runs in between): with the queue idle and the stack page that holds the request header mapped in the kernel's page
  table (\<open>stack_mapped\<close>), it succeeds, copies exactly the 4096 bytes of the block from the page to the disk or
  back, and leaves the queue idle with all descriptors free.
\<close>

theorem disk_request:
  assumes "kctx s p" and "free_lock LkVdisk s" and "vq_ok s" and "dev_ok s" and "stack_mapped s"
  shows "\<exists>t. virtio_disk_rw b w s = Inr t \<and> vq_ok t \<and>
    disk_image t = (if w then blk_write (block_off (block_num (the_buf s b))) (data (the_buf s b)) (disk_image s) (mem s)
      else disk_image s) \<and>
    mem t = (if w then mem s
      else blk_read (block_off (block_num (the_buf s b))) (data (the_buf s b)) (disk_image s) (mem s))"
  using virtio_rw_ok[OF assms, of b w] by blast

theorem disk_request_witness:
  "\<exists>(s :: disk_state) t. virtio_disk_rw 0 True s = Inr t \<and> vq_ok t"
proof -
  obtain s :: disk_state and F where s: "bc_ok s (\<lambda>k. if k then [] else rev [0..<N_BUFFER]) F {}" "kctx s 0"
    using boot_cache[of "()"] by blast
  have "stack_mapped s" using bc_okD(11)[OF s(1)] by (simp add: kpt_ok_def)
  then have "\<exists>t. virtio_disk_rw 0 True s = Inr t \<and> vq_ok t"
    using disk_request[OF s(2) bc_okD(7,8,9)[OF s(1)], of 0 True] by blast
  then show ?thesis by blast
qed

section \<open>Memory\<close>

text \<open>
  C18. \<open>pmem_init\<close> establishes the allocator's invariant: the first 1024 pages are the kernel pool, the others
  the user pool, every page is free and in one list, and the boundaries are those of the memory.
\<close>

theorem memory_initialised:
  assumes "page_aligned b" and "b \<noteq> 0" and "unat e = unat b + 4096 * (1024 + n)" and "cpu_ok s"
  shows "\<exists>t. pmem_init b e s = Inr t \<and>
    pmem_ok t (\<lambda>k. if k then rev (page_seq b 1024) else rev (page_seq (b + 1024 * 4096) n)) \<and>
    ar_begin (kernel_pool t) = b \<and> ar_end (kernel_pool t) = b + 1024 * 4096 \<and>
    ar_begin (user_pool t) = b + 1024 * 4096 \<and> ar_end (user_pool t) = e"
  by (rule pmem_init_ok[OF assms])

theorem memory_initialised_witness:
  "\<exists>t. pmem_init 0x80100000 0x88000000 reset = Inr t \<and> ar_end (kernel_pool t) = 0x80500000"
proof -
  have "page_aligned 0x80100000" by (simp add: page_aligned_def)
  then show ?thesis
    using memory_initialised[where b = "0x80100000" and e = "0x88000000" and n = 31488 and s = reset] by auto
qed

text \<open>
  C19. No page is handed out twice: up to as many allocations in a row as there are free kernel pages succeed, return
  different pages, all of them free before, and leave exactly the others; one more than that ends in an error.
\<close>

theorem pages_distinct:
  assumes "pmem_rep True s A"
  shows "if n \<le> card A
    then \<exists>ps t. alloc_many (pmem_alloc True) n s = Inr (ps, t) \<and> length ps = n \<and> distinct ps \<and> set ps \<subseteq> A \<and> pmem_rep True t (A - set ps)
    else \<exists>e. alloc_many (pmem_alloc True) n s = Inl e"
  using kpages.alloc_many_ok[OF assms, of n] kpages.alloc_many_exhausts[OF assms, of n]
  by (cases "n \<le> card A") (simp_all, blast)

theorem pages_distinct_witness:
  "\<exists>(s :: vm_state) ps t e. alloc_many (pmem_alloc True) 100 s = Inr (ps, t) \<and> distinct ps \<and> length ps = 100 \<and>
     alloc_many (pmem_alloc True) 1025 s = Inl e"
proof -
  obtain s :: vm_state and F where F: "pmem_ok s F" "length (F True) = 1024" using reset_init by blast
  have r: "pmem_rep True s (set (F True))" "card (set (F True)) = 1024"
    using F distinct_card[OF pmem_okD(6)[OF F(1)], of True] by (auto simp: pmem_rep_def)
  from pages_distinct[OF r(1), of 100] pages_distinct[OF r(1), of 1025] show ?thesis unfolding r(2) by auto
qed

text \<open>
  C20. A user page that is allocated and given back is free again: the set of free pages is the one before.
\<close>

theorem page_alloc_free:
  assumes "pmem_rep False s A" and "pmem_alloc False s = Inr (p, t)"
  shows "\<exists>u. pmem_free p False t = Inr u \<and> pmem_rep False u A"
  by (rule upages.alloc_free[OF assms])

theorem page_alloc_free_witness:
  "\<exists>(s :: vm_state) p t u. pmem_alloc False s = Inr (p, t) \<and> pmem_free p False t = Inr u"
proof -
  obtain s :: vm_state and F where F: "pmem_ok s F" "length (F False) = 31488" using reset_init by blast
  have r: "pmem_rep False s (set (F False))" using F by (auto simp: pmem_rep_def)
  have "set (F False) \<noteq> {}" using F(2) by auto
  from upages.alloc_ok[OF r this] obtain p t where t: "pmem_alloc False s = Inr (p, t)" by blast
  from page_alloc_free[OF r t] show ?thesis using t by blast
qed

text \<open>
  C21. \<open>vm_mappages\<close>: with free pages for the tables it succeeds, every page of the range is then mapped to its
  physical page with the permissions, every other address translates as before, and the three-level
  table is well formed.
\<close>

theorem mapping_installed:
  assumes "vm_ok s F r" and "page_aligned va" and "page_aligned pa" and "len \<noteq> 0" and "unat va + unat len \<le> 2 ^ 38"
    and "2 * Suc (last_off va len) \<le> length (F True)"
  shows "\<exists>s' F'. vm_mappages r va pa len perm s = Inr s' \<and> vm_ok s' F' r \<and>
    (\<forall>va' < VA_MAX. vlookup (mem s') r va' = mapped_from va (last_off va len) pa perm (vlookup (mem s) r) va')"
  using vm_mappages_ok[OF assms(1-5), of perm] assms(6) by (auto simp: evolved_def)

theorem mapping_installed_witness:
  "\<exists>(s :: vm_state) r t. vm_mappages r 0x3000 0x80600000 8192 2 s = Inr t \<and> vlookup (mem t) r 0x4000 = Some (leaf 0x80601000 2)"
proof -
  obtain s :: vm_state and F r where s: "vm_ok s F r" "length (F True) = 1023" using reset_vm by blast
  have l: "last_off 0x3000 8192 = 1" by (simp add: last_off_def)
  have "page_aligned 0x3000" "page_aligned 0x80600000" by (simp_all add: page_aligned_def)
  from mapping_installed[OF s(1) this, of 8192 2] have
    "\<exists>t. vm_mappages r 0x3000 0x80600000 8192 2 s = Inr t \<and> vlookup (mem t) r 0x4000 = Some (leaf 0x80601000 2)"
    using s(2) by (auto simp: l mapped_from_def pg_def)
  then show ?thesis by blast
qed

text \<open>
  C22. \<open>vm_unmappages\<close> removes exactly the mappings of the range, and with \<open>do_free\<close> the pages that were mapped
  there, and no others, are free again.
\<close>

theorem mapping_removed:
  assumes "vm_ok s F r" and "page_aligned va" and "len \<noteq> 0" and "unat va + unat len \<le> 2 ^ 38"
    and "do_free \<Longrightarrow> distinct (leaf_pages (mem s) r va (pages_of len))"
    and "\<And>p. do_free \<Longrightarrow> p \<in> set (leaf_pages (mem s) r va (pages_of len)) \<Longrightarrow> releasable s F r p"
  shows "\<exists>t. vm_unmappages r va len do_free s = Inr t \<and>
    vm_ok t (freeing do_free (leaf_pages (mem s) r va (pages_of len)) F) r \<and>
    (\<forall>va' < VA_MAX. vlookup (mem t) r va' = unmapped_in va (pages_of len) (vlookup (mem s) r) va')"
  using vm_unmappages_ok[OF assms] by blast

theorem mapping_removed_witness:
  "\<exists>(s :: vm_state) r t. vlookup (mem s) r 4096 \<noteq> None \<and> vm_unmappages r 4096 4096 False s = Inr t \<and> vlookup (mem t) r 4096 = None"
proof -
  obtain s F r p q where s: "one_page s F r p q" using one_page_exists by blast
  then have ok: "vm_ok s F r" by (simp add: one_page_def)
  have "vlookup (mem s) r 4096 \<noteq> None" using s by (auto simp: one_page_def pg_def)
  moreover have "page_aligned 4096" by (simp add: page_aligned_def)
  then have "\<exists>t. vm_unmappages r 4096 4096 False s = Inr t \<and> vlookup (mem t) r 4096 = None"
    using mapping_removed[OF ok, of 4096 4096 False] by (auto simp: unmapped_in_def pages_of_def pg_def)
  ultimately show ?thesis by blast
qed

text \<open>
  C23. \<open>uvm_copyin\<close> of a range of user addresses that are all mapped readable: the destination holds exactly
  the bytes of the range, across page boundaries, and no other byte of memory changes.
\<close>

theorem copyin_exact:
  assumes "pt_ok (mem s) r" and "r \<noteq> 0"
    and "\<And>x t. in_buf dst (unat len) x \<Longrightarrow> t \<in> tables (mem s) r \<Longrightarrow> pg x \<noteq> pg t"
    and "\<And>i. i < unat len \<Longrightarrow> upage PTE_R (mem s) r (src + of_nat i) \<noteq> None"
    and "\<And>i. i < unat len \<Longrightarrow> \<not> in_buf dst (unat len) (uaddr PTE_R (mem s) r (src + of_nat i))"
  shows "uvm_copyin r dst src len s = Inr (s\<lparr>mem := copied_in (mem s) r dst src (unat len)\<rparr>)"
proof -
  have "copied_in (mem s) r dst src (unat 0) = mem s" by (simp add: copied_in_def in_buf_def)
  then show ?thesis using copyin_loop_ok[OF assms, of 0] by (simp add: uvm_copyin_def)
qed

theorem copyin_exact_witness:
  "\<exists>(s :: vm_state) r p q t. uvm_copyin r q 4100 8 s = Inr t \<and> mem t (q + 5) = mem s (p + 9)"
proof -
  obtain s F r p q where s: "one_page s F r p q" using one_page_exists by blast
  note d = one_pageD[OF s]
  note w = one_page_window[OF s]
  have "uvm_copyin r q 4100 8 s = Inr (s\<lparr>mem := copied_in (mem s) r q 4100 8\<rparr>)"
    using copyin_exact[of s r q 8 4100] d(1,2) w by simp
  moreover have "copied_in (mem s) r q 4100 8 (q + 5) = mem s (p + 9)"
    using w(2)[of 5 2] by (simp add: copied_in_def in_buf_def)
  ultimately show ?thesis by fastforce
qed

text \<open>
  C24. \<open>uvm_copyout\<close> to a range of user addresses that are all mapped writable, to different places: each address
  has its byte of the source, and no other byte of memory changes.
\<close>

theorem copyout_exact:
  assumes "pt_ok (mem s) r" and "r \<noteq> 0"
    and "\<And>i t. i < unat len \<Longrightarrow> t \<in> tables (mem s) r \<Longrightarrow> pg (uaddr PTE_W (mem s) r (dst + of_nat i)) \<noteq> pg t"
    and "\<And>i. i < unat len \<Longrightarrow> upage PTE_W (mem s) r (dst + of_nat i) \<noteq> None"
    and "\<And>i. i < unat len \<Longrightarrow> \<not> in_buf src (unat len) (uaddr PTE_W (mem s) r (dst + of_nat i))"
    and "\<And>i j. i < unat len \<Longrightarrow> j < i \<Longrightarrow>
      uaddr PTE_W (mem s) r (dst + of_nat i) \<noteq> uaddr PTE_W (mem s) r (dst + of_nat j)"
  shows "\<exists>m. uvm_copyout r dst src len s = Inr (s\<lparr>mem := m\<rparr>) \<and>
    (\<forall>i < unat len. m (uaddr PTE_W (mem s) r (dst + of_nat i)) = mem s (src + of_nat i)) \<and>
    (\<forall>x. (\<forall>i < unat len. x \<noteq> uaddr PTE_W (mem s) r (dst + of_nat i)) \<longrightarrow> m x = mem s x)"
proof -
  have "copied_out (mem s) (mem s) r dst src (unat 0)" by (simp add: copied_out_def)
  from copyout_loop_ok[OF assms _ this] show ?thesis by (simp add: uvm_copyout_def copied_out_def)
qed

theorem copyout_exact_witness:
  "\<exists>(s :: vm_state) r p q m. uvm_copyout r 4100 q 8 s = Inr (s\<lparr>mem := m\<rparr>) \<and> m (p + 9) = mem s (q + 5)"
proof -
  obtain s F r p q where s: "one_page s F r p q" using one_page_exists by blast
  note d = one_pageD[OF s] and w = one_page_window[OF s]
  have a: "upage 4 (mem s) r (4100 + of_nat i) \<noteq> None" "uaddr 4 (mem s) r (4100 + of_nat i) = p + (4 + of_nat i)" if "i < 8" for i
    using w(1)[of 4 i] w(2)[of i 4] that by simp_all
  have b: "(of_nat i :: u64) \<noteq> of_nat j" if "i < 8" "j < i" for i j using w(6)[of i j] that by simp
  have "\<exists>m. uvm_copyout r 4100 q 8 s = Inr (s\<lparr>mem := m\<rparr>) \<and>
      (\<forall>i < unat (8 :: u32). m (uaddr 4 (mem s) r (4100 + of_nat i)) = mem s (q + of_nat i)) \<and>
      (\<forall>x. (\<forall>i < unat (8 :: u32). x \<noteq> uaddr 4 (mem s) r (4100 + of_nat i)) \<longrightarrow> m x = mem s x)"
    by (rule copyout_exact[OF d(1,2)]) (simp_all add: a b w(4,5))
  then obtain m where m: "uvm_copyout r 4100 q 8 s = Inr (s\<lparr>mem := m\<rparr>)"
    "\<forall>i < unat (8 :: u32). m (uaddr 4 (mem s) r (4100 + of_nat i)) = mem s (q + of_nat i)" by blast
  have "m (uaddr 4 (mem s) r (4100 + of_nat 5)) = mem s (q + of_nat 5)" using m(2)[rule_format, of 5] by simp
  then have "m (p + 9) = mem s (q + 5)" using a(2)[of 5] by simp
  then show ?thesis using m(1) by blast
qed

text \<open>
  C25. The address space of a child. When the pages of the code, the heap, the stack and the mmap regions are mapped
  and there are enough free pages, \<open>uvm_copy_pgtbl\<close> succeeds with exactly one user page taken for each: at every
  user address of these ranges the child sees the permissions and the byte that the parent saw, and so does the
  parent; the pages of the child were free before, so none is a page of the parent, and different addresses have
  different pages. The translations of the parent, and those of the child outside the ranges, stay.
\<close>

theorem address_space_copied:
  fixes s :: mmap_state
  assumes two: "two_ok s F a b" and lay: "user_layout (region s) htop ust is"
    and regs: "Rlist (region s) hd_region is" "length is \<le> N_MMAP"
    and P: "P = seg_pages (segments (region s) htop ust is)" "n = sum_list (map snd (segments (region s) htop ust is))"
    and up: "user_pages s F a b P" and pages: "2 * n \<le> length (F True)" "n \<le> length (F False)"
  shows "\<exists>t F'. uvm_copy_pgtbl a b htop ust hd_region s = Inr t \<and> two_ok t F' a b \<and> length (F False) = n + length (F' False) \<and>
    (\<forall>va < VA_MAX. pg va \<in> P \<longrightarrow> ubyte (mem s) a va \<noteq> None \<and> ubyte (mem t) b va = ubyte (mem s) a va \<and>
       ubyte (mem t) a va = ubyte (mem s) a va \<and>
       (\<exists>e. vlookup (mem t) b va = Some e \<and> PTE_TO_PA e \<in> set (F False) - set (F' False))) \<and>
    (\<forall>va < VA_MAX. \<forall>vb < VA_MAX. pg va \<in> P \<longrightarrow> pg vb \<in> P \<longrightarrow> pg va \<noteq> pg vb \<longrightarrow>
       map_option PTE_TO_PA (vlookup (mem t) b va) \<noteq> map_option PTE_TO_PA (vlookup (mem t) b vb)) \<and>
    (\<forall>va. vlookup (mem t) a va = vlookup (mem s) a va) \<and>
    (\<forall>va < VA_MAX. pg va \<notin> P \<longrightarrow> vlookup (mem t) b va = vlookup (mem s) b va)"
proof -
  have "copy_done s F a b P n (uvm_copy_pgtbl a b htop ust hd_region s)"
    unfolding P by (rule uvm_copy_pgtbl_ok[OF two lay regs up[unfolded P(1)]])
  with pages obtain t F' where t: "uvm_copy_pgtbl a b htop ust hd_region s = Inr t" "copied s F a b P n t F'"
    by (auto simp: copy_done_def)
  note v = copied_view[OF two t(2) up] and d = copied_apart[OF two t(2)] and c = copiedD[OF t(2)]
  have "map_option PTE_TO_PA (vlookup (mem t) b va) \<noteq> map_option PTE_TO_PA (vlookup (mem t) b vb)"
    if "va < VA_MAX" "pg va \<in> P" "vb < VA_MAX" "pg vb \<in> P" "pg va \<noteq> pg vb" for va vb
    using v(4)[OF that(1,2)] v(4)[OF that(3,4)] d[OF that] by auto
  then show ?thesis using t(1) v c(1,5,8,9) by (intro exI[of _ t] exI[of _ F']) auto
qed

theorem address_space_copied_witness:
  "\<exists>(s :: mmap_state) t a b. uvm_copy_pgtbl a b 0x2000 0 None s = Inr t \<and> ubyte (mem s) a 0x1008 \<noteq> None \<and>
     ubyte (mem t) b 0x1008 = ubyte (mem s) a 0x1008"
proof -
  obtain s :: mmap_state and F a b where s: "two_ok s F a b" "user_pages s F a b (prange USER_BASE 1)"
    "1000 \<le> length (F True)" "1000 \<le> length (F False)" using parent_and_child by blast
  have g: "segments (region s) 0x2000 0 [] = [(USER_BASE, 1)]" by (simp add: segments_def fixed_segs_def)
  have lay: "user_layout (region s) 0x2000 0 []" by (simp add: user_layout_def)
  have P: "prange USER_BASE 1 = seg_pages (segments (region s) 0x2000 0 [])" "1 = sum_list (map snd (segments (region s) 0x2000 0 []))"
    unfolding g by simp_all
  have "Rlist (region s) None []" "length ([] :: nat list) \<le> N_MMAP" "2 * 1 \<le> length (F True)" "1 \<le> length (F False)"
    using s(3,4) by simp_all
  note c = address_space_copied[OF s(1) lay this(1,2) P s(2) this(3,4)]
  have pg: "(0x1008 :: u64) < VA_MAX" "pg 0x1008 \<in> prange USER_BASE 1" by (simp_all add: prange_def pg_def)
  from c pg show ?thesis by blast
qed

text \<open>
  C26. The search for an mmap address: on a sorted list of disjoint regions it ends, an address it returns
  fits between the regions and below the end of the window, and it returns 0 only when no address of the
  window fits.
\<close>

theorem mmap_address_complete:
  assumes "Rlist rg hd_region is" and "regions_ok rg MMAP_BEGIN is" and "length is \<le> N_MMAP"
  shows "\<exists>a pv. find_free_region rg hd_region n = Inr (a, pv) \<and> (a \<noteq> 0 \<longrightarrow> MMAP_BEGIN \<le> a \<and> fits rg is a (bytes_of n)) \<and>
    (a = 0 \<longrightarrow> (\<forall>b. MMAP_BEGIN \<le> b \<longrightarrow> \<not> fits rg is b (bytes_of n)))"
  unfolding find_free_region_def by (rule find_free_loop_ok[OF assms(1,2)]) (use assms(3) bytes_of_less in auto)

theorem mmap_address_complete_witness:
  "\<exists>rg a pv. find_free_region rg (Some 0) 3 = Inr (a, pv) \<and> (a \<noteq> 0 \<longrightarrow> fits rg [0] a 12288)"
proof -
  let ?rg = "\<lambda>_ :: nat. \<lparr>r_begin = MMAP_BEGIN + 8192, r_npages = 2, r_next = None\<rparr>"
  have "Rlist ?rg (Some 0) [0]" "regions_ok ?rg MMAP_BEGIN [0]" by (simp_all add: region_end_def bytes_of_def)
  from mmap_address_complete[OF this, of 3] show ?thesis by (auto simp: bytes_of_def)
qed

text \<open>
  C27. The check of a fixed mmap address is exact: the walk over the list accepts the range if and only if it
  overlaps no region, and panics with the message of the overlap otherwise.
\<close>

theorem mmap_overlap_exact:
  assumes "Rlist rg hd_region is" and "regions_ok rg lo is" and "length is < n" and "a < e" and "e \<le> MMAP_END"
  shows "((\<exists>pv. find_place n rg hd_region None a e = Inr pv) \<longleftrightarrow>
      (\<forall>i\<in>set is. e \<le> r_begin (rg i) \<or> region_end (rg i) \<le> a)) \<and>
    (find_place n rg hd_region None a e = Inl (Panic ''uvm_mmap: overlap detected'') \<longleftrightarrow>
      (\<exists>i\<in>set is. r_begin (rg i) < e \<and> a < region_end (rg i)))"
  using find_place_ok[OF assms, of None] by (auto simp: not_le split: if_splits)

theorem mmap_overlap_exact_witness:
  "\<exists>rg. (\<exists>pv. find_place 5 rg (Some 0) None MMAP_BEGIN (MMAP_BEGIN + 4096) = Inr pv) \<and>
    find_place 5 rg (Some 0) None MMAP_BEGIN (MMAP_BEGIN + 12288) = Inl (Panic ''uvm_mmap: overlap detected'')"
proof -
  let ?rg = "\<lambda>_ :: nat. \<lparr>r_begin = MMAP_BEGIN + 8192, r_npages = 2, r_next = None\<rparr>"
  have r: "Rlist ?rg (Some 0) [0]" "regions_ok ?rg MMAP_BEGIN [0]" by (simp_all add: region_end_def bytes_of_def)
  show ?thesis
    using mmap_overlap_exact[OF r, of 5 MMAP_BEGIN "MMAP_BEGIN + 4096"] mmap_overlap_exact[OF r, of 5 MMAP_BEGIN "MMAP_BEGIN + 12288"]
    by (intro exI[of _ ?rg]) (simp add: region_end_def bytes_of_def)
qed

section \<open>Processes\<close>

text \<open>
  C28. The scheduler: in every state that a hart reaches from a quiet scheduler loop by picking processes,
  critical sections, wakeups, yields, sleeps and exits, a process is \<open>RUNNING\<close> exactly if it is the current
  one, and in the loop every lock is free and the nesting depth is 0.
\<close>

theorem one_process_runs:
  assumes "quiet None s" and "\<And>p l. w p = Some l \<Longrightarrow> \<not> proc_lock l" and "hart_reach (Loop, w, s) (m, w', t)"
  shows "(\<forall>i < N_PROC. p_state (proc_pool t i) = RUNNING \<longleftrightarrow> (\<exists>h. m = In i h)) \<and>
    (m = Loop \<longrightarrow> (\<forall>l. free_lock l t) \<and> noff (mycpu t) = 0 \<and> myproc t = None)"
proof -
  have i: "hart_inv (Loop, w, s)" using assms(1,2) by (simp add: hart_inv_def)
  note j = hart_reach_inv[OF assms(3) i]
  have "m = Loop \<longrightarrow> (\<forall>l. free_lock l t) \<and> noff (mycpu t) = 0 \<and> myproc t = None"
    using j by (auto simp: hart_inv_def quiet_def)
  then show ?thesis using one_running[OF j] by blast
qed

theorem one_process_runs_witness:
  "\<exists>s t :: proc_state. hart_reach (Loop, \<lambda>_. None, s) (In 0 None, \<lambda>_. None, t) \<and> p_state (proc_pool t 0) = RUNNING"
proof -
  let ?s = "staged None (\<lambda>i. if i = 0 then RUNNABLE else UNUSED) (\<lambda>_. None) undefined"
  have q: "quiet None ?s" by (rule staged_quiet) simp
  from pick_runnable[OF q, of 0] resume_yield have "hart_step (Loop, \<lambda>_. None, ?s) (In 0 None, \<lambda>_. None, stale_origin (picked 0 ?s))"
    using hart_step.enter[of 0 ?s _ "\<lambda>_. None"] by auto
  then have r: "hart_reach (Loop, \<lambda>_. None, ?s) (In 0 None, \<lambda>_. None, stale_origin (picked 0 ?s))"
    by (rule hart_reach.more[OF hart_reach.here])
  from one_process_runs[OF q _ r] have "p_state (proc_pool (stale_origin (picked 0 ?s)) 0) = RUNNING" by simp
  then show ?thesis using r by blast
qed

text \<open>
  C29. No switch gets stuck: from every reachable state of the loop the scheduler can examine any process,
  and resume it when it is runnable; a process that runs can yield, and one that holds a lock can sleep on
  it, back to the loop.
\<close>

theorem switches_succeed:
  assumes "quiet None s" and "\<And>p l. w p = Some l \<Longrightarrow> \<not> proc_lock l" and "hart_reach (Loop, w, s) (m, w', t)"
  shows "case m of
      Loop \<Rightarrow> \<forall>p. \<exists>b u. sched_pick p t = Inr (b, u) \<and> (b \<longrightarrow> (\<exists>v. resume (w' p) u = Inr v))
    | In p None \<Rightarrow> \<exists>u v. proc_yield_enter t = Inr u \<and> sched_back p u = Inr v
    | In p (Some lk) \<Rightarrow> \<forall>ch. \<exists>u v. proc_sleep_enter ch lk t = Inr u \<and> sched_back p u = Inr v"
proof -
  have i: "hart_inv (Loop, w, s)" using assms(1,2) by (simp add: hart_inv_def)
  note j = hart_reach_inv[OF assms(3) i]
  show ?thesis
  proof (cases m)
    case Loop
    then show ?thesis using j loop_progress[of w' t] by simp
  next
    case (In p h)
    then show ?thesis using j leave_progress[where w = w' and s = t] by (cases h) auto
  qed
qed

theorem switches_succeed_witness:
  "\<exists>s :: proc_state. \<forall>p. \<exists>b u. sched_pick p s = Inr (b, u)"
proof -
  let ?s = "staged None (\<lambda>i. if i = 0 then RUNNABLE else UNUSED) (\<lambda>_. None) undefined"
  have q: "quiet None ?s" by (rule staged_quiet) simp
  have "hart_reach (Loop, \<lambda>_. None, ?s) (Loop, \<lambda>_. None, ?s)" by (rule hart_reach.here)
  from switches_succeed[OF q _ this] have "\<forall>p. \<exists>b u. sched_pick p ?s = Inr (b, u) \<and> (b \<longrightarrow> (\<exists>v. resume None u = Inr v))" by simp
  then show ?thesis by metis
qed

text \<open>
  C30. \<open>proc_exit\<close> of a process none of whose children is a zombie: its children are given to the first
  process, the sleepers on its parent are woken, it is a zombie with the exit code, and the hart is back in a
  quiet scheduler loop.
\<close>

theorem exit_completes:
  assumes "quiet (Some me) s" and "init_process s \<noteq> Some me" and "\<And>i. \<not> zombie_child me s i"
  shows "\<exists>t u. proc_exit code s = Inr t \<and> sched_back me t = Inr u \<and> quiet None u \<and>
    proc_pool u = proc_pool (exited code me s)"
  using proc_exit_eq[OF assms, of code] exit_back(2)[OF assms(1)] quiet_exited[OF assms(1), of code] by auto

theorem exit_completes_witness:
  "\<exists>s t u :: proc_state. proc_exit 3 s = Inr t \<and> sched_back 1 t = Inr u \<and> p_state (proc_pool u 1) = ZOMBIE \<and>
    exit_code (proc_pool u 1) = 3"
proof -
  let ?s = "staged (Some 1) (\<lambda>i. if i = 1 then RUNNING else UNUSED) (\<lambda>_. None) undefined"
  have q: "quiet (Some 1) ?s" by (rule staged_quiet) simp
  have m: "myproc ?s = Some 1" using quietD(3)[OF q] .
  have "\<not> zombie_child 1 ?s i" for i by (simp add: zombie_child_def)
  from exit_completes[OF q _ this, of 3] have "\<exists>t u. proc_exit 3 ?s = Inr t \<and> sched_back 1 t = Inr u \<and>
      p_state (proc_pool u 1) = ZOMBIE \<and> exit_code (proc_pool u 1) = 3"
    using m by (auto simp: exited_def Let_def wake_state_def woken_def adopt_def)
  then show ?thesis by blast
qed

text \<open>
  C31. A process that exits while one of its children is a zombie stops the kernel: the child's lock is held
  when \<open>proc_wakeup\<close> asks for the lock of every process.
\<close>

theorem exit_with_zombie_child:
  assumes "quiet (Some me) s" and "init_process s \<noteq> Some me" and "zombie_child me s i"
  shows "proc_exit code s = Inl (Panic ''spinlock_acquire: recursive lock'')"
  by (rule proc_exit_zombie[OF assms(1,2)]) (use assms(3) in blast)

theorem exit_with_zombie_child_witness:
  "\<exists>s :: proc_state. proc_exit 0 s = Inl (Panic ''spinlock_acquire: recursive lock'')"
proof -
  let ?s = "staged (Some 1) (\<lambda>i. if i = 1 then RUNNING else if i = 2 then ZOMBIE else UNUSED)
    (\<lambda>i. if i = 2 then Some 1 else None) undefined"
  have q: "quiet (Some 1) ?s" by (rule staged_quiet) simp
  have "zombie_child 1 ?s 2" by (simp add: zombie_child_def)
  from exit_with_zombie_child[OF q _ this, of 0] show ?thesis by auto
qed

text \<open>
  C32. A fault of a user process stops the kernel: for every exception but a system call, and for a page fault outside
  the room for the stack, \<open>trap_user_handler\<close> makes the process a zombie with exit code -1, changes no lock and no other
  process, and switches to the scheduler; the lock of the process, which the scheduler then releases, is not held.
\<close>

theorem kill_stops_scheduler:
  fixes s :: "'a machine_scheme"
  assumes "myproc s = Some p" and "cpu_ok s" and "\<not> panicked s" and "free_lock LkPrint s" and "free_lock (LkProc p) s"
    and "0 \<le> pid (proc_pool s p)" and "pid (proc_pool s p) < 2 ^ 31"
    and "r_sstatus s AND SSTATUS_SPP = 0" and "\<not> is_interrupt (r_scause s)"
    and "cause_type (r_scause s) \<noteq> 8"
    and "cause_type (r_scause s) \<noteq> 13 \<and> cause_type (r_scause s) \<noteq> 15 \<or> r_stval s < MMAP_END \<or> TRAPFRAME \<le> r_stval s"
  shows "\<exists>t. trap_user_handler s = Inr (To_sched, t) \<and>
    proc_pool t = (proc_pool s)(p := (proc_pool s p)\<lparr>p_state := ZOMBIE, exit_code := -1\<rparr>) \<and> locks t = locks s \<and>
    sched_back p t = Inl (Panic ''spinlock_release: not holding'')"
proof -
  have "ends_process (cause_type (r_scause s)) (r_stval s)" using assms(10,11) by (simp add: ends_process_def)
  from handler_kills[OF assms(1-4,6-9) this] obtain t where
    t: "trap_user_handler s = Inr (To_sched, kill_proc p t)" "locks t = locks s" "proc_pool t = proc_pool s" by blast
  have "free_lock (LkProc p) t" using assms(5) t(2) by (simp add: free_lock_def)
  from killed_stops[OF this] show ?thesis using t by (intro exI[of _ "kill_proc p t"]) (simp add: kill_proc_def upd_proc_def)
qed

theorem kill_stops_scheduler_witness:
  "\<exists>s t :: machine. r_scause s = 2 \<and> trap_user_handler s = Inr (To_sched, t) \<and> p_state (proc_pool t 4) = ZOMBIE \<and>
    sched_back 4 t = Inl (Panic ''spinlock_release: not holding'')"
proof -
  let ?s = "(undefined :: machine)\<lparr>hart := 0, cpus := (\<lambda>_. reset_cpu\<lparr>cproc := Some 4\<rparr>), locks := (\<lambda>_. \<lparr>locked = False, cpuid = -1\<rparr>),
    panicked := False, proc_pool := (\<lambda>_. undefined\<lparr>pid := 1\<rparr>), csr := (\<lambda>_. 0)(''scause'' := 2)\<rparr>"
  have s: "myproc ?s = Some 4" "cpu_ok ?s" "\<not> panicked ?s" "free_lock LkPrint ?s" "free_lock (LkProc 4) ?s"
    "0 \<le> pid (proc_pool ?s 4)" "pid (proc_pool ?s 4) < 2 ^ 31"
    by (simp_all add: myproc_def cpu_ok_def free_lock_def mycpu_def reset_cpu_def)
  have c: "r_sstatus ?s AND SSTATUS_SPP = 0" "r_scause ?s = 2"
    by (simp_all add: csr_defs intr_get_def mycpu_def reset_cpu_def)
  have k: "\<not> is_interrupt (r_scause ?s)" "cause_type (r_scause ?s) = 2" unfolding c(2) by (simp_all add: cause_type_def)
  from kill_stops_scheduler[OF s c(1) k(1)] k(2) obtain t where "trap_user_handler ?s = Inr (To_sched, t)"
    "p_state (proc_pool t 4) = ZOMBIE" "sched_back 4 t = Inl (Panic ''spinlock_release: not holding'')" by auto
  then show ?thesis using c(2) by blast
qed

text \<open>
  C33. A clock tick: the counter goes up by one; a process that is \<open>SLEEPING\<close> on the timer, the current one
  excepted, becomes \<open>RUNNABLE\<close> and is otherwise unchanged, and every other process is as it was, those that
  sleep on another channel included.
\<close>

theorem tick_wakes_sleepers:
  assumes "procs_free s" and "free_lock LkTime s"
  shows "\<exists>t. timer_update s = Inr t \<and> current_ticks t = current_ticks s + 1 \<and>
    (\<forall>i < N_PROC. proc_pool t i =
      (if Some i \<noteq> myproc s \<and> p_state (proc_pool s i) = SLEEPING \<and> sleep_space (proc_pool s i) = Some ChTimer
       then (proc_pool s i)\<lparr>p_state := RUNNABLE\<rparr> else proc_pool s i))"
proof -
  have "myproc (s\<lparr>current_ticks := current_ticks s + 1\<rparr>) = myproc s" by (simp add: myproc_def)
  then show ?thesis using timer_update_eq[OF assms] by (simp add: wake_state_def woken_def wake_one_def)
qed

theorem tick_wakes_sleepers_witness:
  "\<exists>s t :: io_state. timer_update s = Inr t \<and> current_ticks t = 8 \<and> p_state (proc_pool t 1) = RUNNABLE \<and>
    p_state (proc_pool t 2) = SLEEPING"
proof -
  let ?s = "(undefined :: io_state)\<lparr>hart := 0, cpus := (\<lambda>_. reset_cpu), locks := (\<lambda>_. \<lparr>locked = False, cpuid = -1\<rparr>),
    current_ticks := 7, proc_pool := (\<lambda>i. undefined\<lparr>p_state := SLEEPING, sleep_space := Some (if i = 1 then ChTimer else ChCons)\<rparr>)\<rparr>"
  have "procs_free ?s" "free_lock LkTime ?s" "myproc ?s = None"
    by (simp_all add: procs_free_def cpu_ok_def free_lock_def mycpu_def myproc_def reset_cpu_def)
  from tick_wakes_sleepers[OF this(1,2)] this(3) have "\<exists>t. timer_update ?s = Inr t \<and> current_ticks t = 8 \<and>
    p_state (proc_pool t 1) = RUNNABLE \<and> p_state (proc_pool t 2) = SLEEPING" by auto
  then show ?thesis by blast
qed

section \<open>Locks\<close>

text \<open>
  C34. A critical section is balanced: a free spinlock is acquired with interrupts off, and its release
  restores every lock, the nesting depth and the interrupt-enable bit of the hart.
\<close>

theorem critical_section_balanced:
  assumes "cpu_ok s" and "free_lock l s"
  shows "\<exists>t u. spinlock_acquire l s = Inr t \<and> spinlock_holding l t \<and> \<not> intr_get t \<and>
    spinlock_release l t = Inr u \<and> locks u = locks s \<and> noff (mycpu u) = noff (mycpu s) \<and>
    intr_get u = intr_get s"
proof -
  have "\<not> intr_get (entered l s)" using push_off_sie by (simp add: entered_def set_lock_def intr_get_def)
  moreover have "noff (mycpu (stale_origin s)) = noff (mycpu s)" "intr_get (stale_origin s) = intr_get s"
    by (simp_all add: stale_origin_def cpu_defs)
  ultimately show ?thesis using assms by auto
qed

theorem critical_section_balanced_witness:
  "\<exists>t. spinlock_acquire LkPid reset = Inr t \<and> spinlock_holding LkPid t"
  using critical_section_balanced[of reset LkPid] by auto

text \<open>
  C35. Sleeplocks exclude: a free one is taken and then held by the caller, a request for a taken one sleeps, and
  the release frees it: a process that is \<open>SLEEPING\<close> on this lock becomes \<open>RUNNABLE\<close> and every other one is
  unchanged, those that sleep on another channel included.
\<close>

theorem sleeplock_excludes:
  assumes "quiet (Some p) s" and "\<not> slk_locked (slocks s l)" and "\<not> proc_lock l"
  shows "\<exists>t u. sleeplock_acquire l s = Inr t \<and> slk_locked (slocks t l) \<and> (\<exists>v. sleeplock_holding l t = Inr (True, v)) \<and>
    sleeplock_acquire l t = Inl Sleep \<and>
    sleeplock_release l t = Inr u \<and> \<not> slk_locked (slocks u l) \<and> (\<exists>v. sleeplock_holding l u = Inr (False, v)) \<and>
    (\<forall>i < N_PROC. i \<noteq> p \<longrightarrow> proc_pool u i =
      (if p_state (proc_pool s i) = SLEEPING \<and> sleep_space (proc_pool s i) = Some (ChSlk l)
       then (proc_pool s i)\<lparr>p_state := RUNNABLE\<rparr> else proc_pool s i))"
proof -
  note q = quietD[OF assms(1)]
  have l: "l \<noteq> LkProc i" for i using assms(3) by (auto simp: proc_lock_def)
  let ?t = "stale_origin (set_slock l \<lparr>slk_locked = True, slk_pid = pid (proc_pool s p)\<rparr> s)"
  let ?u = "stale_origin (wake_state (Some (ChSlk l)) N_PROC (set_slock l \<lparr>slk_locked = False, slk_pid = 0\<rparr> ?t))"
  have "sleeplock_acquire l s = Inr ?t" by (rule sleeplock_acquire_eq[OF q(1,2) assms(2) q(3)])
  moreover have "\<exists>v. sleeplock_holding l ?t = Inr (True, v)" using q by (simp add: sleeplock_holding_eq)
  moreover have "sleeplock_acquire l ?t = Inl Sleep"
    by (rule sleeplock_acquire_taken[where p = p]) (use q l in simp_all)
  moreover have "sleeplock_release l ?t = Inr ?u" by (rule sleeplock_release_eq) (use q l in simp_all)
  moreover have "\<exists>v. sleeplock_holding l ?u = Inr (False, v)" using q by (simp add: sleeplock_holding_eq wake_state_def)
  ultimately show ?thesis using q(3) by (simp add: wake_state_def woken_def wake_one_def)
qed

theorem sleeplock_excludes_witness:
  "\<exists>s t :: proc_state. sleeplock_acquire (LkInodeSlk 3) s = Inr t \<and> sleeplock_acquire (LkInodeSlk 3) t = Inl Sleep"
proof -
  let ?s = "staged (Some 1) (\<lambda>i. if i = 1 then RUNNING else UNUSED) (\<lambda>_. None) undefined"
  have q: "quiet (Some 1) ?s" by (rule staged_quiet) simp
  from sleeplock_excludes[OF q, of "LkInodeSlk 3"] show ?thesis by (auto simp: proc_lock_def)
qed

section \<open>Terminal\<close>

text \<open>
  C36. The line discipline: on a ring whose indices are in order and whose read index is not within 128 of the
  largest \<open>int\<close>, \<open>cons_edit\<close> of any byte succeeds, keeps the indices in order and the read index as it is, and does to
  the bytes that are ready and to the line being edited what \<open>edit_spec\<close> says.
\<close>

theorem line_discipline:
  assumes "cons_ok s" and "read_idx s < 2 ^ 31 - 128"
  shows "\<exists>t. cons_edit c s = Inr t \<and> cons_ok t \<and> read_idx t = read_idx s \<and>
    (ready t, edited t) = edit_spec c (ready s, edited s)"
  by (rule cons_edit_ok[OF assms])

theorem line_discipline_witness:
  "\<exists>s t u v :: io_state. cons_edit 97 s = Inr t \<and> cons_edit 98 t = Inr u \<and> cons_edit 8 u = Inr v \<and> edited v = [97] \<and> ready v = []"
proof -
  let ?s = "(undefined :: io_state)\<lparr>hart := 0, cpus := (\<lambda>_. reset_cpu), locks := (\<lambda>_. \<lparr>locked = False, cpuid = -1\<rparr>),
    panicked := False, read_idx := 0, writ_idx := 0, edit_idx := 0\<rparr>"
  have s: "cons_ok ?s" "read_idx ?s = 0" by (simp_all add: cons_ok_def procs_free_def cpu_ok_def free_lock_def mycpu_def reset_cpu_def)
  have r: "ready ?s = []" "edited ?s = []" by (simp_all add: ready_def edited_def)
  from line_discipline[OF s(1), of 97] s(2) r obtain t where
    t: "cons_edit 97 ?s = Inr t" "cons_ok t" "ready t = []" "edited t = [97]" "read_idx t = 0"
    by (auto simp: edit_spec_def)
  from line_discipline[OF t(2), of 98] t(3-5) obtain u where
    u: "cons_edit 98 t = Inr u" "cons_ok u" "ready u = []" "edited u = [97, 98]" "read_idx u = 0"
    by (auto simp: edit_spec_def)
  from line_discipline[OF u(2), of 8] u(3-5) obtain v where "cons_edit 8 u = Inr v" "ready v = []" "edited v = [97]"
    by (auto simp: edit_spec_def)
  then show ?thesis using t(1) u(1) by blast
qed

text \<open>
  C37. The output of a number reads back as the number, signed and unsigned, in every base from 2 to 16 in which its
  digits and its sign fit into the 16 bytes of the buffer: then at most 16 characters are written, otherwise the result is
  undefined. From base 5 on every number fits; only the most negative number, whose negation overflows, is left out.
\<close>

theorem printed_number_reads_back:
  fixes x :: u32
  assumes "2 \<le> base" and "base \<le> 16"
  shows "let fits = (if sign \<and> sint x < 0 then sint x \<noteq> - (2 ^ 31) \<and> - sint x < int base ^ 15 else uint x < int base ^ 16)
    in (if fits
      then \<exists>cs. printint_chars x base sign = Inr cs \<and> length cs \<le> 16 \<and> read_int base cs = (if sign then sint x else uint x)
      else printint_chars x base sign = Inl Fault) \<and>
    (5 \<le> base \<longrightarrow> fits = (\<not> (sign \<and> sint x = - (2 ^ 31))))"
  using printint_reads_back[OF assms(1,2), of sign x] print_room_usual[of base sign x]
  unfolding Let_def print_room_def by blast

theorem printed_number_reads_back_witness:
  "(\<exists>cs. printint_chars 0xFFFFFF85 10 True = Inr cs \<and> read_int 10 cs = - 123) \<and>
    printint_chars 0x10000 2 False = Inl Fault"
  using printed_number_reads_back[of 10 True "0xFFFFFF85"] printed_number_reads_back[of 2 False "0x10000"] by (auto simp: Let_def)

section \<open>Files and system calls\<close>

text \<open>
  C38. \<open>file_dup\<close> and then \<open>file_close\<close>: the reference count is back to what it was, and the file table and the
  inode cache are unchanged.
\<close>

theorem dup_close_balanced:
  assumes "cpu_ok s" and "free_lock LkFileTable s" and "0 < f_ref (file_table s f)" and "f_ref (file_table s f) \<noteq> -1"
  shows "\<exists>t u. file_dup f s = Inr (f, t) \<and> file_close f t = Inr u \<and> file_table u = file_table s \<and>
    inode_cache u = inode_cache s"
  by (rule dup_close[OF assms])

theorem dup_close_balanced_witness:
  "\<exists>s t u :: fs_state. file_dup 3 s = Inr (3, t) \<and> file_close 3 t = Inr u \<and> file_table u = file_table s"
proof -
  let ?s = "(undefined :: fs_state)\<lparr>hart := 0, cpus := (\<lambda>_. reset_cpu), locks := (\<lambda>_. \<lparr>locked = False, cpuid = -1\<rparr>),
    file_table := (\<lambda>_. undefined\<lparr>f_ref := 1\<rparr>)\<rparr>"
  have "cpu_ok ?s" "free_lock LkFileTable ?s" by (simp_all add: cpu_ok_def free_lock_def mycpu_def reset_cpu_def)
  from dup_close_balanced[OF this, of 3] have "\<exists>t u. file_dup 3 ?s = Inr (3, t) \<and> file_close 3 t = Inr u \<and> file_table u = file_table ?s"
    by auto
  then show ?thesis by blast
qed

section \<open>The disk image\<close>

text \<open>
  C39. The super block that \<open>mkfs\<close> writes to block 0 is the one that the kernel decodes from it.
\<close>

theorem super_block_readable:
  "load_super (\<lambda>x. img (mk_write_super s) (unat x)) 0 = mk_sb s"
proof (rule super_roundtrip)
  fix i :: nat assume "i < 48"
  then show "img (mk_write_super s) (unat (0 + of_nat i :: u64)) = super_bytes (mk_sb s) i"
    by (simp add: mk_write_super_def xsuper_id mk_write_def mk_offset_def put_bytes_def Let_def)
qed

text \<open>
  C40. The layout that \<open>mkfs\<close> computes is well formed, for every number of inodes and data blocks up to \<open>2 ^ 28\<close>: the
  areas of the disk are adjacent; the bitmaps and the inode table are large enough for the inodes and data blocks, and one
  block less would not be; every block can be cached. The image of the code is the one for 65536 inodes and 32768 data blocks.
\<close>

theorem layout_well_formed:
  assumes "unat ni \<le> 2 ^ 28" and "unat nd \<le> 2 ^ 28"
  shows "layout_ok (layout_of ni nd) \<and> total_inodes (layout_of ni nd) = ni \<and> data_blocks (layout_of ni nd) = nd \<and>
    mk_layout = layout_of 65536 32768 \<and> data_blocks mk_layout * block_size mk_layout = 128 * 1024 * 1024"
  using layout_of_ok[OF assms] by (simp add: layout_of_def mk_layout_def Let_def)

theorem layout_well_formed_witness:
  "layout_ok mk_layout \<and> unat (inode_bitmap_blocks (layout_of 65537 40000)) = 3 \<and>
    unat (data_bitmap_blocks (layout_of 65537 40000)) = 2"
proof -
  have "layout_ok (layout_of 65536 32768)" by (rule conjunct1[OF layout_well_formed]) simp_all
  then have m: "layout_ok mk_layout" by (simp only: mk_layout_def) simp
  have bounds: "unat (65537 :: u32) \<le> 2 ^ 28" "unat (40000 :: u32) \<le> 2 ^ 28" by simp_all
  define b where "b = layout_of 65537 40000"
  have l: "layout_ok b" "unat (total_inodes b) = 65537" "unat (data_blocks b) = 40000"
    using layout_well_formed[OF bounds] unfolding b_def by simp_all
  define i d where "i = unat (inode_bitmap_blocks b)" and "d = unat (data_bitmap_blocks b)"
  have "65537 \<le> 32768 * i" "32768 * i < 65537 + 32768" "40000 \<le> 32768 * d" "32768 * d < 40000 + 32768"
    using l unfolding layout_ok_def i_def d_def by simp_all
  then have "i = 3" "d = 2" by linarith+
  then show ?thesis using m by (simp only: i_def d_def b_def)
qed

end
